(* ===== verification/Prelude.thy ===== *)
theory Prelude
  imports Main "HOL-Library.Word"
begin

text \<open>
  Shared vocabulary of the development: the machine types of the STM32F103 firmware, the
  result type of operations that can go wrong, memory areas as byte lists with
  bounds-checked copies, little-endian 16-bit fields, and the generic lemmas that the
  component theories share.
\<close>

unbundle bit_operations_syntax

section \<open>Machine types\<close>

type_synonym u8 = "8 word"
type_synonym u16 = "16 word"
type_synonym u32 = "32 word"

named_theorems bits_simps \<open>unfolding rules for the bit-level helpers\<close>

lemma xor_eq_0_iff_eq [simp]: "(a :: 'a::len word) XOR b = 0 \<longleftrightarrow> a = b"
  by (auto simp: bit_eq_iff bit_simps)

lemma xor_left_cancel [simp]: "(a :: 'a::len word) XOR b = a XOR c \<longleftrightarrow> b = c"
  by (auto simp: bit_eq_iff bit_simps)

lemma xor_right_cancel [simp]: "(b :: 'a::len word) XOR a = c XOR a \<longleftrightarrow> b = c"
  by (auto simp: bit_eq_iff bit_simps)

lemma mod_add_cancel_nat: "((a :: nat) + m) mod k = (a + n) mod k \<longleftrightarrow> m mod k = n mod k"
proof -
  have "(a + m) mod k = (a + n) mod k \<longleftrightarrow> (int a + int m) mod int k = (int a + int n) mod int k"
    by (simp only: of_nat_add [symmetric] zmod_int [symmetric] of_nat_eq_iff)
  also have "\<dots> \<longleftrightarrow> int m mod int k = int n mod int k"
    by (simp add: mod_eq_dvd_iff)
  also have "\<dots> \<longleftrightarrow> m mod k = n mod k"
    by (simp only: zmod_int [symmetric] of_nat_eq_iff)
  finally show ?thesis .
qed

lemma unat_and_mask:
  "unat (w AND 0x0F :: u8) = unat w mod 16" "unat (v AND 0x0FFF :: u32) = unat v mod 4096"
proof -
  have "w AND 0x0F = take_bit 4 w" by (simp add: take_bit_eq_mask mask_eq_exp_minus_1)
  then have "unat (w AND 0x0F) = take_bit 4 (unat w)" by (simp only: unsigned_take_bit_eq)
  then show "unat (w AND 0x0F :: u8) = unat w mod 16"
    by (simp add: take_bit_eq_mod)
  have "v AND 0x0FFF = take_bit 12 v" by (simp add: take_bit_eq_mask mask_eq_exp_minus_1)
  then have "unat (v AND 0x0FFF) = take_bit 12 (unat v)" by (simp only: unsigned_take_bit_eq)
  then show "unat (v AND 0x0FFF :: u32) = unat v mod 4096"
    by (simp add: take_bit_eq_mod)
qed

lemma unat_of_nat_small: "n < 2 ^ LENGTH('a::len) \<Longrightarrow> unat (of_nat n :: 'a word) = n"
  by (simp only: unsigned_of_nat) (simp add: take_bit_nat_eq_self)

lemma eq_of_nat_unat: "unat x = n \<Longrightarrow> x = of_nat n"
  by (drule sym) simp

lemma unat_ucast_up:
  "unat (ucast (x :: u8) :: u16) = unat x" "unat (ucast (x :: u8) :: u32) = unat x"
  "unat (ucast (y :: u16) :: u32) = unat y"
  by (simp_all add: unsigned_ucast_eq take_bit_nat_eq_self order_less_le_trans [OF unsigned_less])

lemma unat_ucast_down:
  "unat (y :: u16) < 256 \<Longrightarrow> unat (ucast y :: u8) = unat y"
  "unat (z :: u32) < 256 \<Longrightarrow> unat (ucast z :: u8) = unat z"
  "unat (z :: u32) < 65536 \<Longrightarrow> unat (ucast z :: u16) = unat z"
  by (simp_all add: unsigned_ucast_eq take_bit_nat_eq_self)

section \<open>Results\<close>

text \<open>
  \<open>Bounds\<close>: a read or write outside the object (undefined behaviour in C);
  \<open>Assert_failed\<close>: a failed \<open>configASSERT\<close>, which disables the interrupts and spins;
  \<open>No_return\<close>: a busy-wait that never ends; \<open>Undefined\<close>: a conversion C leaves undefined;
  \<open>Reset\<close>: the processor was reset, nothing after it runs.
\<close>

datatype fault = Bounds | Assert_failed | No_return | Undefined | Reset

type_synonym 'a res = "fault + 'a"

fun bindR :: "'a res \<Rightarrow> ('a \<Rightarrow> 'b res) \<Rightarrow> 'b res" where
  "bindR (Inl e) f = Inl e"
| "bindR (Inr x) f = f x"

definition assertR :: "bool \<Rightarrow> unit res" where
  "assertR b = (if b then Inr () else Inl Assert_failed)"

definition returns :: "'a option \<Rightarrow> 'a res" where
  "returns x = (case x of None \<Rightarrow> Inl No_return | Some y \<Rightarrow> Inr y)"

lemma bindR_cong [fundef_cong]:
  "m = m' \<Longrightarrow> (\<And>x. m' = Inr x \<Longrightarrow> f x = g x) \<Longrightarrow> bindR m f = bindR m' g"
  by (cases m') auto

lemma bindR_Inr_iff: "bindR m f = Inr y \<longleftrightarrow> (\<exists>x. m = Inr x \<and> f x = Inr y)"
  by (cases m) auto

lemma bindR_Inl_iff:
  "bindR m f = Inl e \<longleftrightarrow> m = Inl e \<or> (\<exists>x. m = Inr x \<and> f x = Inl e)"
  by (cases m) auto

lemma assertR_simps [simp]:
  "assertR True = Inr ()" "assertR False = Inl Assert_failed"
  by (simp_all add: assertR_def)

lemma assertR_eq_Inr [simp]: "assertR b = Inr u \<longleftrightarrow> b"
  by (simp add: assertR_def)

lemma returns_simps [simp]: "returns None = Inl No_return" "returns (Some x) = Inr x"
  by (simp_all add: returns_def)

section \<open>Memory areas\<close>

text \<open>
  An array is the list of its bytes. \<open>mem_put mem i xs\<close> is the array after a copy of
  \<open>xs\<close> to offset \<open>i\<close>; \<open>memcpy_to\<close> and \<open>mem_read\<close> add the bounds of the object.
\<close>

definition mem_put :: "'a list \<Rightarrow> nat \<Rightarrow> 'a list \<Rightarrow> 'a list" where
  "mem_put mem i xs = take i mem @ xs @ drop (i + length xs) mem"

definition memcpy_to :: "'a list \<Rightarrow> nat \<Rightarrow> 'a list \<Rightarrow> 'a list res" where
  "memcpy_to mem i xs =
     (if i + length xs \<le> length mem then Inr (mem_put mem i xs) else Inl Bounds)"

definition mem_read :: "'a list \<Rightarrow> nat \<Rightarrow> nat \<Rightarrow> 'a list res" where
  "mem_read mem i n =
     (if i + n \<le> length mem then Inr (take n (drop i mem)) else Inl Bounds)"

lemma length_mem_put [simp]:
  "i + length xs \<le> length mem \<Longrightarrow> length (mem_put mem i xs) = length mem"
  by (simp add: mem_put_def)

lemma mem_put_Nil [simp]: "mem_put mem i [] = mem"
  by (simp add: mem_put_def)

lemma take_mem_put:
  "i + length xs \<le> length mem \<Longrightarrow> take (i + length xs) (mem_put mem i xs) = take i mem @ xs"
  by (simp add: mem_put_def)

lemma take_mem_put_before:
  "n \<le> i \<Longrightarrow> i \<le> length mem \<Longrightarrow> take n (mem_put mem i xs) = take n mem"
  by (simp add: mem_put_def min_def)

lemma drop_mem_put:
  "i + length xs \<le> length mem \<Longrightarrow> drop (i + length xs) (mem_put mem i xs) = drop (i + length xs) mem"
  by (simp add: mem_put_def)

lemma nth_mem_put_in:
  "i + length xs \<le> length mem \<Longrightarrow> i \<le> j \<Longrightarrow> j < i + length xs
   \<Longrightarrow> mem_put mem i xs ! j = xs ! (j - i)"
  by (auto simp: mem_put_def nth_append)

lemma nth_mem_put_out:
  "i + length xs \<le> length mem \<Longrightarrow> j < i \<or> i + length xs \<le> j \<Longrightarrow> j < length mem
   \<Longrightarrow> mem_put mem i xs ! j = mem ! j"
  by (auto simp: mem_put_def nth_append)

lemma mem_put_at_prefix:
  "i = length ps \<Longrightarrow> mem_put (ps @ ys) i xs = ps @ xs @ drop (length xs) ys"
  by (simp add: mem_put_def)

lemma memcpy_to_ok [simp]:
  "i + length xs \<le> length mem \<Longrightarrow> memcpy_to mem i xs = Inr (mem_put mem i xs)"
  by (simp add: memcpy_to_def)

lemma mem_read_ok [simp]: "i + n \<le> length mem \<Longrightarrow> mem_read mem i n = Inr (take n (drop i mem))"
  by (simp add: mem_read_def)

lemma mem_read_part: "i = length ps \<Longrightarrow> n = length xs \<Longrightarrow> mem_read (ps @ xs @ ys) i n = Inr xs"
  by (simp add: mem_read_def)

lemma mem_readD:
  "mem_read mem i n = Inr xs \<Longrightarrow> length xs = n \<and> i + n \<le> length mem \<and> xs = take n (drop i mem)"
  by (auto simp: mem_read_def split: if_splits)

section \<open>Little-endian 16-bit fields\<close>

text \<open>
  The Cortex-M3 is little-endian: \<open>memcpy\<close> of a \<open>uint16_t\<close> copies the low byte first.
\<close>

definition le16 :: "u16 \<Rightarrow> u8 list" where
  "le16 w = [ucast w, ucast (drop_bit 8 w)]"

definition of_le16 :: "u8 \<Rightarrow> u8 \<Rightarrow> u16" where
  "of_le16 lo hi = (ucast hi * 256) OR ucast lo"

lemma bit_u8_high [simp]: "8 \<le> n \<Longrightarrow> \<not> bit (w :: u8) n"
  using bit_imp_le_length [of w n] by auto

lemma bit_u16_high [simp]: "16 \<le> n \<Longrightarrow> \<not> bit (w :: u16) n"
  using bit_imp_le_length [of w n] by auto

lemma bit_u32_high [simp]: "32 \<le> n \<Longrightarrow> \<not> bit (w :: u32) n"
  using bit_imp_le_length [of w n] by auto

lemma bit_0xFFFF: "bit (0xFFFF :: u32) n \<longleftrightarrow> n < 16"
proof -
  have "(0xFFFF :: u32) = mask 16" by (simp add: mask_eq_exp_minus_1)
  then show ?thesis by (simp only: bit_mask_iff possible_bit_word) auto
qed

lemma length_le16 [simp]: "length (le16 w) = 2"
  by (simp add: le16_def)

lemma of_le16_push: "of_le16 lo hi = push_bit 8 (ucast hi) OR ucast lo"
  by (simp add: of_le16_def push_bit_eq_mult)

lemma of_le16_le16: "of_le16 (ucast w) (ucast (drop_bit 8 w)) = w"
  by (rule bit_word_eqI) (auto simp: of_le16_push bit_simps)

lemma le16_of_le16: "le16 (of_le16 lo hi) = [lo, hi]"
  unfolding le16_def of_le16_push
  by (auto intro!: bit_word_eqI simp: bit_simps)

lemma le16_nth [simp]: "le16 w ! 0 = ucast w" "le16 w ! Suc 0 = ucast (drop_bit 8 w)"
  by (simp_all add: le16_def)

lemma unat_of_le16: "unat (of_le16 lo hi) = unat lo + 256 * unat hi"
proof -
  have disj: "push_bit 8 (ucast hi :: u16) AND ucast lo = 0"
    by (rule bit_word_eqI) (auto simp: bit_simps)
  have "of_le16 lo hi = push_bit 8 (ucast hi) + ucast lo"
    by (simp add: of_le16_push disjunctive_add_eq_or [OF disj])
  also have "\<dots> = of_nat (unat lo + 256 * unat hi)"
    by (simp add: push_bit_eq_mult unsigned_ucast_eq)
  finally have eq: "of_le16 lo hi = of_nat (unat lo + 256 * unat hi)" .
  have "unat lo < 256" "unat hi < 256"
    using unsigned_less [of lo] unsigned_less [of hi] by simp_all
  then have "unat lo + 256 * unat hi < 2 ^ 16" by simp
  then show ?thesis
    unfolding eq by (simp only: unsigned_of_nat) (simp add: take_bit_nat_eq_self)
qed

end
