(* ===== verification/Hardware.thy ===== *)
theory Hardware
  imports Prelude
begin

text \<open>
  The board as the drivers see it. A register is a peripheral and a register name, written as in
  the code (\<open>TIM2->ARR\<close> is \<open>(TIM2, ARR)\<close>); \<open>regs\<close> is the register file, \<open>trace\<close> what the program
  has done to the outside, in order. Status registers that the hardware changes while the program
  polls them are not under the program's control: the parameter \<open>h\<close> of the operations gives the
  value a status register shows at each successive read, and \<open>ticks\<close> counts those reads.
\<close>

section \<open>Registers, events and the board\<close>

datatype periph = RCC | FLASH | GPIOA | GPIOB | GPIOC | AFIO | EXTI | DMA1
  | DMA1_Channel1 | DMA1_Channel5 | DMA1_Channel6 | USART1 | USART2 | TIM2 | TIM3
  | ADC1 | SPI2 | UID

datatype rname = CR | CFGR | APB2ENR | APB1ENR | AHBENR | ACR | CRL | CRH | IDR | ODR | BSRR | BRR
  | EXTICR3 | IMR | RTSR | ISR | IFCR | CCR | CNDTR | CPAR | CMAR | SR | DR | CR1 | CR2 | CR3
  | ARR | PSC | CCMR1 | CCR1 | CCR2 | CCER | EGR | SMCR | SMPR1 | SQR1 | SQR3 | MAPR | W0 | W1 | W2

type_synonym reg = "periph \<times> rname"

datatype irqn = USART1_IRQn | USART2_IRQn | DMA1_Channel1_IRQn | DMA1_Channel5_IRQn
  | DMA1_Channel6_IRQn | EXTI15_10_IRQn | SysTick_IRQn

text \<open>
  \<open>Tx p x\<close>: byte \<open>x\<close> written to the data register of \<open>p\<close>; \<open>Log s\<close>: the text of a \<open>printf\<close>;
  \<open>Delay n\<close>: the task sleeps for \<open>n\<close> ticks; the others are the NVIC and SysTick calls of the
  initialisation.
\<close>

datatype event = Tx periph u8 | Log string | Delay nat
  | Irq_grouping nat | Systick_config u32
  | Irq_priority irqn nat | Irq_enable irqn | Irq_clear_pending irqn

record board =
  regs :: "reg \<Rightarrow> u32"
  ticks :: nat
  trace :: "event list"

type_synonym hw = "reg \<Rightarrow> nat \<Rightarrow> u32"

definition rd :: "reg \<Rightarrow> board \<Rightarrow> u32" where
  "rd r b = regs b r"

definition wr :: "reg \<Rightarrow> u32 \<Rightarrow> board \<Rightarrow> board" where
  "wr r v b = b\<lparr>regs := (regs b)(r := v)\<rparr>"

definition emit :: "event \<Rightarrow> board \<Rightarrow> board" where
  "emit e b = b\<lparr>trace := trace b @ [e]\<rparr>"

definition vread :: "hw \<Rightarrow> reg \<Rightarrow> board \<Rightarrow> u32 \<times> board" where
  "vread h r b = (h r (ticks b), b\<lparr>ticks := Suc (ticks b)\<rparr>)"

text \<open>\<open>|=\<close> and \<open>&= ~\<close> on a register.\<close>

definition set_bits :: "reg \<Rightarrow> u32 \<Rightarrow> board \<Rightarrow> board" where
  "set_bits r m b = wr r (rd r b OR m) b"

definition clear_bits :: "reg \<Rightarrow> u32 \<Rightarrow> board \<Rightarrow> board" where
  "clear_bits r m b = wr r (rd r b AND NOT m) b"

lemma rd_wr [simp]: "rd r (wr r' v b) = (if r = r' then v else rd r b)"
  by (simp add: rd_def wr_def)

lemma rd_emit [simp]: "rd r (emit e b) = rd r b"
  by (simp add: rd_def emit_def)

lemma rd_set_bits [simp]: "rd r (set_bits r' m b) = (if r = r' then rd r b OR m else rd r b)"
  by (simp add: set_bits_def)

lemma rd_clear_bits [simp]:
  "rd r (clear_bits r' m b) = (if r = r' then rd r b AND NOT m else rd r b)"
  by (simp add: clear_bits_def)

lemma rd_ticks [simp]: "rd r (b\<lparr>ticks := t\<rparr>) = rd r b"
  by (simp add: rd_def)

lemma trace_simps [simp]:
  "trace (wr r v b) = trace b" "trace (emit e b) = trace b @ [e]"
  "trace (set_bits r v b) = trace b" "trace (clear_bits r v b) = trace b"
  by (simp_all add: wr_def emit_def set_bits_def clear_bits_def)

lemma ticks_simps [simp]:
  "ticks (wr r v b) = ticks b" "ticks (emit e b) = ticks b"
  "ticks (set_bits r v b) = ticks b" "ticks (clear_bits r v b) = ticks b"
  by (simp_all add: wr_def emit_def set_bits_def clear_bits_def)

section \<open>Polling a status flag\<close>

text \<open>
  \<open>while (!(R & m));\<close>: \<open>None\<close> when the flag never comes. \<open>hw_live\<close> is what the reference manual
  promises of a transmitter: its flag comes back again and again.
\<close>

partial_function (option) wait_flag :: "hw \<Rightarrow> reg \<Rightarrow> u32 \<Rightarrow> board \<Rightarrow> board option" where
  "wait_flag h r msk b =
     (let (v, b') = vread h r b in if v AND msk \<noteq> 0 then Some b' else wait_flag h r msk b')"

definition hw_live :: "hw \<Rightarrow> reg \<Rightarrow> u32 \<Rightarrow> bool" where
  "hw_live h r msk \<longleftrightarrow> (\<forall>t. \<exists>t'\<ge>t. h r t' AND msk \<noteq> 0)"

lemma wait_flag_at:
  "h r t AND msk \<noteq> 0 \<Longrightarrow> ticks b \<le> t \<Longrightarrow>
   \<exists>t'. ticks b < t' \<and> t' \<le> Suc t \<and> wait_flag h r msk b = Some (b\<lparr>ticks := t'\<rparr>)"
proof (induction "t - ticks b" arbitrary: b)
  case 0
  then show ?case by (subst wait_flag.simps) (auto simp: vread_def)
next
  case (Suc n)
  show ?case
  proof (cases "h r (ticks b) AND msk = 0")
    case False
    then show ?thesis using Suc.prems by (subst wait_flag.simps) (auto simp: vread_def)
  next
    case True
    have "n = t - Suc (ticks b)" and "Suc (ticks b) \<le> t" using Suc.hyps(2) by linarith+
    then obtain t' where t': "Suc (ticks b) < t'" "t' \<le> Suc t"
        "wait_flag h r msk (b\<lparr>ticks := Suc (ticks b)\<rparr>) = Some (b\<lparr>ticks := t'\<rparr>)"
      using Suc.hyps(1) [of "b\<lparr>ticks := Suc (ticks b)\<rparr>"] Suc.prems(1) by auto
    have "wait_flag h r msk b = Some (b\<lparr>ticks := t'\<rparr>)"
      using True t'(3) by (subst wait_flag.simps) (simp add: vread_def)
    then show ?thesis using t'(1,2) Suc_lessD by blast
  qed
qed

lemma wait_flag_live:
  assumes "hw_live h r msk"
  obtains t where "ticks b < t" "wait_flag h r msk b = Some (b\<lparr>ticks := t\<rparr>)"
proof -
  obtain t where t: "ticks b \<le> t" "h r t AND msk \<noteq> 0"
    using assms unfolding hw_live_def by blast
  show ?thesis using wait_flag_at [of h r t msk b, OF t(2,1)] that by blast
qed

end
