(* ===== verification/Sysinit.thy ===== *)
theory Sysinit
  imports Complex_Main Hardware
begin

text \<open>
  The initialisation of the board, Core/Src/BKEL_sysinit.c, with \<open>HAL_Init\<close>, \<open>HAL_MspInit\<close> and
  \<open>SystemCoreClockUpdate\<close>. The constants are the values of the macros of the file and of
  stm32f103xb.h; the positions are written as shifts as in the code. Loops that wait for the hardware
  are \<open>wait_bits\<close>: the hardware owns the bits under the mask, the program the others. The
  addresses the linker gives the DMA buffers are a parameter.
\<close>

section \<open>Waiting for bits of a register\<close>

partial_function (option) wait_bits :: "hw \<Rightarrow> reg \<Rightarrow> u32 \<Rightarrow> u32 \<Rightarrow> board \<Rightarrow> board option" where
  "wait_bits h r msk val b =
     (let (v, b1) = vread h r b in
      if v AND msk = val then Some (wr r ((rd r b1 AND NOT msk) OR val) b1)
      else wait_bits h r msk val b1)"

definition hw_shows :: "hw \<Rightarrow> reg \<Rightarrow> u32 \<Rightarrow> u32 \<Rightarrow> bool" where
  "hw_shows h r msk val \<longleftrightarrow> (\<forall>t. \<exists>t'\<ge>t. h r t' AND msk = val)"

lemma wait_bits_at:
  "h r t AND msk = val \<Longrightarrow> ticks b \<le> t \<Longrightarrow>
   \<exists>t'. wait_bits h r msk val b = Some (wr r ((rd r b AND NOT msk) OR val) (b\<lparr>ticks := t'\<rparr>))"
proof (induction "t - ticks b" arbitrary: b)
  case 0
  then show ?case by (subst wait_bits.simps) (auto simp: vread_def)
next
  case (Suc n)
  show ?case
  proof (cases "h r (ticks b) AND msk = val")
    case True
    then show ?thesis by (subst wait_bits.simps) (auto simp: vread_def)
  next
    case False
    have "n = t - Suc (ticks b)" and "Suc (ticks b) \<le> t" using Suc.hyps(2) by linarith+
    then show ?thesis using Suc.hyps(1) [of "b\<lparr>ticks := Suc (ticks b)\<rparr>"] Suc.prems(1) False
      by (subst wait_bits.simps) (simp add: vread_def)
  qed
qed

lemma wait_bits_live:
  assumes "hw_shows h r msk val"
  obtains t where "wait_bits h r msk val b = Some (wr r ((rd r b AND NOT msk) OR val) (b\<lparr>ticks := t\<rparr>))"
  using assms wait_bits_at [of h r _ msk val b] unfolding hw_shows_def by blast

section \<open>HAL\<close>

definition HAL_MspInit :: "board \<Rightarrow> board" where
  "HAL_MspInit b =
     (let b1 = set_bits (RCC, APB2ENR) (push_bit 0 1) b;
          b2 = set_bits (RCC, APB1ENR) (push_bit 28 1) b1 in
      wr (AFIO, MAPR) ((rd (AFIO, MAPR) b2 AND NOT (push_bit 24 0x7)) OR push_bit 25 1) b2)"

text \<open>Prefetch, four bits of preemption priority, a SysTick of 1 ms at the clock known so far.\<close>

definition HAL_Init :: "u32 \<Rightarrow> board \<Rightarrow> board" where
  "HAL_Init SystemCoreClock b =
     HAL_MspInit (emit (Irq_priority SysTick_IRQn 15) (emit (Systick_config (SystemCoreClock div 1000))
       (emit (Irq_grouping 4) (set_bits (FLASH, ACR) (push_bit 4 1) b))))"

section \<open>Clocks\<close>

definition AHBPrescTable :: "nat list" where
  "AHBPrescTable = [0, 0, 0, 0, 0, 0, 0, 0, 1, 2, 3, 4, 6, 7, 8, 9]"

definition HSI_VALUE :: u32 where "HSI_VALUE = 8000000"
definition HSE_VALUE :: u32 where "HSE_VALUE = 8000000"

definition SystemCoreClockUpdate :: "board \<Rightarrow> u32" where
  "SystemCoreClockUpdate b =
     (let cfgr = rd (RCC, CFGR) b; tmp = cfgr AND 0xC;
          pllmull = drop_bit 18 (cfgr AND push_bit 18 0xF) + 2;
          pllsource = cfgr AND push_bit 16 1;
          clk = (if tmp = 0 then HSI_VALUE
                 else if tmp = 4 then HSE_VALUE
                 else if tmp = 8 then
                   (if pllsource = 0 then drop_bit 1 HSI_VALUE * pllmull
                    else if cfgr AND push_bit 17 1 \<noteq> 0 then drop_bit 1 HSE_VALUE * pllmull
                    else HSE_VALUE * pllmull)
                 else HSI_VALUE)
      in drop_bit (AHBPrescTable ! unat (drop_bit 4 (cfgr AND 0xF0))) clk)"

definition BKEL_CLK_Init :: "hw \<Rightarrow> board \<Rightarrow> (u32 \<times> board) res" where
  "BKEL_CLK_Init h b =
     (let b1 = set_bits (RCC, CR) (push_bit 16 1)
            (set_bits (FLASH, ACR) 0x2 (clear_bits (FLASH, ACR) 0x7 (set_bits (FLASH, ACR) (push_bit 4 1) b))) in
      bindR (returns (wait_bits h (RCC, CR) (push_bit 17 1) (push_bit 17 1) b1)) (\<lambda>b2.
      let b3 = clear_bits (RCC, CFGR) (push_bit 16 1 OR push_bit 18 0xF) b2;
          b4 = set_bits (RCC, CFGR) (push_bit 18 7) (set_bits (RCC, CFGR) (push_bit 16 1) b3);
          b5 = clear_bits (RCC, CFGR) (push_bit 4 0xF) b4;
          b6 = set_bits (RCC, CFGR) (push_bit 8 0x4) (clear_bits (RCC, CFGR) (push_bit 8 0x7) b5);
          b7 = set_bits (RCC, CFGR) (push_bit 11 0) (clear_bits (RCC, CFGR) (push_bit 11 0x7) b6);
          b8 = set_bits (RCC, CR) (push_bit 24 1) b7 in
      bindR (returns (wait_bits h (RCC, CR) (push_bit 25 1) (push_bit 25 1) b8)) (\<lambda>b9.
      let b10 = set_bits (RCC, CFGR) 0x2 (clear_bits (RCC, CFGR) 0x3 b9) in
      bindR (returns (wait_bits h (RCC, CFGR) (push_bit 2 0x3) (push_bit 2 0x2) b10)) (\<lambda>b11.
      Inr (SystemCoreClockUpdate b11, b11)))))"

section \<open>Pins\<close>

text \<open>The four configuration bits of a pin; \<open>n\<close> is the number in its register, 0 to 7.\<close>

definition set_pin :: "reg \<Rightarrow> nat \<Rightarrow> u32 \<Rightarrow> board \<Rightarrow> board" where
  "set_pin r n mode b = set_bits r (push_bit (n * 4) mode) (clear_bits r (push_bit (n * 4) 0xF) b)"

definition BKEL_GPIO_Init :: "board \<Rightarrow> board" where
  "BKEL_GPIO_Init b =
     (let b1 = wr (RCC, APB2ENR) (push_bit 2 1 OR push_bit 4 1 OR 1) (clear_bits (RCC, APB2ENR) (push_bit 4 0xFF) b);
          b2 = set_pin (GPIOA, CRL) 5 0x1 b1;
          b3 = wr (GPIOC, ODR) 1 (set_pin (GPIOC, CRL) 0 0x8 b2);
          b4 = set_pin (GPIOC, CRL) 1 0x1 b3;
          b5 = set_pin (GPIOC, CRH) (13 - 8) 0x8 b4;
          b6 = set_bits (AFIO, EXTICR3) (push_bit 4 0x2) (clear_bits (AFIO, EXTICR3) (push_bit (1 * 4) 0xF) b5);
          b7 = set_bits (EXTI, IMR) (push_bit 13 1) (clear_bits (EXTI, IMR) (push_bit 13 1) b6);
          b8 = set_bits (EXTI, RTSR) (push_bit 13 1) (clear_bits (EXTI, RTSR) (push_bit 13 1) b7) in
      emit (Irq_enable EXTI15_10_IRQn) (emit (Irq_priority EXTI15_10_IRQn 5) b8))"

section \<open>Serial ports\<close>

record linked =
  adc_dma_buf_addr :: u32
  uart1_rx_dma_buf_addr :: u32
  uart2_rx_dma_buf_addr :: u32

definition nvic_setup :: "irqn \<Rightarrow> nat \<Rightarrow> board \<Rightarrow> board" where
  "nvic_setup q p b = emit (Irq_enable q) (emit (Irq_priority q p) b)"

definition BKEL_USART1_DMA_Init :: "linked \<Rightarrow> board \<Rightarrow> board" where
  "BKEL_USART1_DMA_Init lk b =
     (let b1 = set_bits (RCC, AHBENR) 1 (set_bits (RCC, APB2ENR) (push_bit 2 1) (set_bits (RCC, APB2ENR) (push_bit 14 1) b));
          b2 = clear_bits (GPIOA, CRH) (push_bit 4 0x0F OR push_bit 8 0x0F) b1;
          b3 = set_bits (GPIOA, CRH) (push_bit 8 0x04) (set_bits (GPIOA, CRH) (push_bit 4 0x0B) b2);
          b4 = wr (USART1, BRR) 0x0271 b3;
          b5 = clear_bits (DMA1_Channel5, CCR) 1 b4;
          b6 = wr (DMA1_Channel5, CPAR) 0x40013804 b5;
          b7 = wr (DMA1_Channel5, CMAR) (uart1_rx_dma_buf_addr lk) b6;
          b8 = wr (DMA1_Channel5, CNDTR) 256 b7;
          b9 = wr (DMA1_Channel5, CCR) (push_bit 7 1 OR push_bit 5 1 OR 1) b8;
          b10 = set_bits (USART1, CR1) (push_bit 4 1 OR push_bit 3 1 OR push_bit 2 1) b9;
          b11 = set_bits (USART1, CR1) (push_bit 13 1) (set_bits (USART1, CR3) (push_bit 6 1) b10) in
      nvic_setup DMA1_Channel5_IRQn 5 (nvic_setup USART1_IRQn 5 b11))"

definition BKEL_USART2_DMA_Init :: "linked \<Rightarrow> board \<Rightarrow> board" where
  "BKEL_USART2_DMA_Init lk b =
     (let b1 = set_bits (RCC, AHBENR) 1 (set_bits (RCC, APB1ENR) (push_bit 17 1) b);
          b2 = clear_bits (GPIOA, CRL) (push_bit 8 0x0F OR push_bit 12 0x0F) b1;
          b3 = set_bits (GPIOA, CRL) (push_bit 12 0x04) (set_bits (GPIOA, CRL) (push_bit 8 0x0B) b2);
          b4 = wr (USART2, BRR) 0x139 b3;
          b5 = wr (DMA1_Channel6, CPAR) 0x40004404 b4;
          b6 = wr (DMA1_Channel6, CMAR) (uart2_rx_dma_buf_addr lk) b5;
          b7 = wr (DMA1_Channel6, CNDTR) 256 b6;
          b8 = wr (DMA1_Channel6, CCR) (push_bit 7 1 OR push_bit 5 1 OR 1) b7;
          b9 = set_bits (USART2, CR1) (push_bit 4 1 OR push_bit 3 1 OR push_bit 2 1) b8;
          b10 = set_bits (USART2, CR1) (push_bit 13 1) (set_bits (USART2, CR3) (push_bit 6 1) b9) in
      nvic_setup DMA1_Channel6_IRQn 5 (nvic_setup USART2_IRQn 5 b10))"

section \<open>Analogue inputs\<close>

definition BKEL_ADC1_DMA_Init :: "hw \<Rightarrow> linked \<Rightarrow> board \<Rightarrow> board res" where
  "BKEL_ADC1_DMA_Init h lk b =
     (let b1 = set_bits (RCC, AHBENR) 1 (set_bits (RCC, APB2ENR) (push_bit 4 1 OR push_bit 9 1) b);
          b2 = clear_bits (GPIOC, CRL) (push_bit 16 0xF OR push_bit 20 0xF) b1;
          b3 = set_bits (RCC, CFGR) (push_bit 14 0x2) (clear_bits (RCC, CFGR) (push_bit 14 0x3) b2);
          b4 = clear_bits (DMA1_Channel1, CCR) 1 b3;
          b5 = wr (DMA1_Channel1, CPAR) 0x4001244C b4;
          b6 = wr (DMA1_Channel1, CMAR) (adc_dma_buf_addr lk) b5;
          b7 = wr (DMA1_Channel1, CNDTR) 4 b6;
          b8 = wr (DMA1_Channel1, CCR) 0 b7;
          b9 = set_bits (DMA1_Channel1, CCR) (push_bit 7 1) (set_bits (DMA1_Channel1, CCR) (push_bit 5 1) b8);
          b10 = set_bits (DMA1_Channel1, CCR) (push_bit 10 1) (set_bits (DMA1_Channel1, CCR) (push_bit 8 1) b9);
          b11 = wr (DMA1, IFCR) 0xF b10;
          b12 = set_bits (DMA1_Channel1, CCR) 1 (set_bits (DMA1_Channel1, CCR) (0x4 OR 0x2) b11);
          b13 = nvic_setup DMA1_Channel1_IRQn 5 (emit (Irq_clear_pending DMA1_Channel1_IRQn) b12);
          b14 = set_bits (ADC1, CR1) (push_bit 8 1) (wr (ADC1, CR1) 0 b13);
          b15 = set_bits (ADC1, CR2) (push_bit 8 1) (set_bits (ADC1, CR2) (push_bit 1 1) (wr (ADC1, CR2) 0 b14));
          b16 = clear_bits (ADC1, SMPR1) (push_bit 12 0x7 OR push_bit 15 0x7) b15;
          b17 = set_bits (ADC1, SMPR1) (push_bit 12 0x7 OR push_bit 15 0x7) b16;
          b18 = set_bits (ADC1, SQR1) (push_bit 20 1) (clear_bits (ADC1, SQR1) (push_bit 20 0xF) b17);
          b19 = set_bits (ADC1, SQR3) (push_bit 5 15) (set_bits (ADC1, SQR3) (push_bit 0 14) (wr (ADC1, SQR3) 0 b18));
          b20 = set_bits (ADC1, CR2) 1 (set_bits (ADC1, CR2) 1 b19);
          b21 = set_bits (ADC1, CR2) (push_bit 3 1) b20 in
      bindR (returns (wait_bits h (ADC1, CR2) (push_bit 3 1) 0 b21)) (\<lambda>b22.
      bindR (returns (wait_bits h (ADC1, CR2) (push_bit 2 1) 0 (set_bits (ADC1, CR2) (push_bit 2 1) b22))) (\<lambda>b23.
      Inr (set_bits (ADC1, CR2) (push_bit 22 1) b23))))"

section \<open>Timers\<close>

text \<open>The 50 percent duty cycle is computed in floating point and truncated: \<open>999 * 0.5 + 0.5f\<close>.\<close>

definition BKEL_PWM_Init :: "board \<Rightarrow> board" where
  "BKEL_PWM_Init b =
     (let b1 = set_bits (RCC, APB1ENR) (push_bit 0 1 OR push_bit 1 1) b;
          b2 = set_pin (GPIOA, CRL) 6 0x4 (set_pin (GPIOA, CRL) 0 0xB b1);
          b3 = wr (TIM3, CR1) 0 (wr (TIM2, CR1) 0 b2);
          b4 = wr (TIM2, ARR) (1000 - 1) (wr (TIM2, PSC) (72 - 1) b3);
          b5 = set_bits (TIM2, CCMR1) (push_bit 4 6) (clear_bits (TIM2, CCMR1) (push_bit 4 0x7) b4);
          b6 = set_bits (TIM2, CCMR1) (push_bit 3 1) b5;
          b7 = wr (TIM2, CCR1) (word_of_int \<lfloor>(1000 - 1) * (1 / 2) + 1 / 2 :: rat\<rfloor>) b6;
          b8 = set_bits (TIM2, EGR) 1 (set_bits (TIM2, CCER) 1 b7);
          b9 = set_bits (TIM2, CR1) 1 b8;
          b10 = wr (TIM3, ARR) 0xFFFF (wr (TIM3, PSC) (72 - 1) b9);
          b11 = set_bits (TIM3, CCMR1) (push_bit 9 1) (set_bits (TIM3, CCMR1) 1 (clear_bits (TIM3, CCMR1) 0x3 b10));
          b12 = set_bits (TIM3, CCER) (push_bit 5 1) (clear_bits (TIM3, CCER) (push_bit 1 1) b11);
          b13 = set_bits (TIM3, SMCR) (push_bit 6 1 OR push_bit 4 1) (clear_bits (TIM3, SMCR) (push_bit 4 0x7) b12);
          b14 = set_bits (TIM3, SMCR) (push_bit 2 1) (clear_bits (TIM3, SMCR) 0x7 b13);
          b15 = set_bits (TIM3, CCER) (push_bit 0 1 OR push_bit 4 1) b14 in
      set_bits (TIM3, CR1) 1 b15)"

section \<open>SPI\<close>

definition BKEL_SPI_Init :: "board \<Rightarrow> board" where
  "BKEL_SPI_Init b =
     (let b1 = set_bits (RCC, APB1ENR) (push_bit 14 1) (clear_bits (RCC, APB1ENR) (push_bit 14 1) b);
          b2 = set_bits (RCC, APB2ENR) (push_bit 3 1) (clear_bits (RCC, APB2ENR) (push_bit 3 1) b1);
          b3 = set_pin (GPIOB, CRH) (12 - 8) 0xB b2;
          b4 = set_pin (GPIOB, CRH) (13 - 8) 0xB b3;
          b5 = set_pin (GPIOB, CRH) (14 - 8) 0x4 b4;
          b6 = set_pin (GPIOB, CRH) (15 - 8) 0xB b5;
          b7 = wr (SPI2, CR1) 0 (clear_bits (SPI2, CR1) (push_bit 6 1) b6);
          b8 = set_bits (SPI2, CR1) (push_bit 2 1 OR push_bit 9 1 OR push_bit 8 1) b7;
          b9 = clear_bits (SPI2, CR1) (push_bit 7 1) (clear_bits (SPI2, CR1) (push_bit 11 1) b8);
          b10 = clear_bits (SPI2, CR1) (push_bit 0 1) (clear_bits (SPI2, CR1) (push_bit 1 1) b9);
          b11 = clear_bits (SPI2, CR1) (push_bit 3 0x7) b10 in
      set_bits (SPI2, CR1) (push_bit 6 1) b11)"

section \<open>The whole initialisation\<close>

text \<open>The result is \<open>SystemCoreClock\<close>, which starts as 8000000, and the board.\<close>

definition system_init :: "hw \<Rightarrow> linked \<Rightarrow> board \<Rightarrow> (u32 \<times> board) res" where
  "system_init h lk b =
     bindR (BKEL_CLK_Init h (HAL_Init 8000000 b)) (\<lambda>(clk, b1).
     bindR (BKEL_ADC1_DMA_Init h lk (BKEL_USART2_DMA_Init lk (BKEL_USART1_DMA_Init lk (BKEL_GPIO_Init b1)))) (\<lambda>b2.
     Inr (clk, BKEL_SPI_Init (BKEL_PWM_Init b2))))"

end
