(* ===== verification/KList.thy ===== *)
theory KList
  imports Main
begin

text \<open>
  The kernel's lists, list.c of FreeRTOS. A list is a ring of nodes: one end marker, the items,
  and \<open>pxIndex\<close>, the node the list was last walked to. A ring is written as the list of its
  nodes read from \<open>pxIndex\<close> along \<open>pxNext\<close>, \<open>None\<close> being the end marker \<open>xListEnd\<close>; the delayed,
  suspended and pending lists, whose \<open>pxIndex\<close> never leaves the marker, are plain lists.

  The locale \<open>round_robin\<close> is what the scheduler relies on: the owners that successive walks will
  return form a queue that turns. The ring of list.c is shown to provide it.
\<close>

section \<open>The code\<close>

type_synonym 'a ring = "'a option list"

definition vListInitialise :: "'a ring" where
  "vListInitialise = [None]"

definition listLIST_IS_EMPTY :: "'a ring \<Rightarrow> bool" where
  "listLIST_IS_EMPTY r \<longleftrightarrow> length r = 1"

text \<open>\<open>vListInsertEnd\<close> makes the new item the last one a walk reaches: it goes before \<open>pxIndex\<close>.\<close>

definition vListInsertEnd :: "'a \<Rightarrow> 'a ring \<Rightarrow> 'a ring" where
  "vListInsertEnd x r = r @ [Some x]"

text \<open>\<open>uxListRemove\<close>; when \<open>pxIndex\<close> is at the removed item it moves back to \<open>pxPrevious\<close>.\<close>

definition uxListRemove :: "'a \<Rightarrow> 'a ring \<Rightarrow> 'a ring" where
  "uxListRemove x r =
     (if hd r = Some x then last (tl r) # butlast (tl r) else remove1 (Some x) r)"

text \<open>\<open>listGET_OWNER_OF_NEXT_ENTRY\<close>: one node on, one more when that is the marker.\<close>

definition listGET_OWNER_OF_NEXT_ENTRY :: "'a ring \<Rightarrow> 'a option \<times> 'a ring" where
  "listGET_OWNER_OF_NEXT_ENTRY r =
     (let r1 = rotate1 r; r2 = (if hd r1 = None then rotate1 r1 else r1) in (hd r2, r2))"

text \<open>\<open>vListInsert\<close> on a list read from its marker: in order of the items' values, after the items of
  the same value.\<close>

fun vListInsert :: "('a \<Rightarrow> 'v::linorder) \<Rightarrow> 'a \<Rightarrow> 'a list \<Rightarrow> 'a list" where
  "vListInsert val x [] = [x]"
| "vListInsert val x (y # ys) =
     (if val y \<le> val x then y # vListInsert val x ys else x # y # ys)"

section \<open>The interface: a queue that turns\<close>

locale round_robin =
  fixes empty :: 'l
    and insert :: "'a \<Rightarrow> 'l \<Rightarrow> 'l"
    and remove :: "'a \<Rightarrow> 'l \<Rightarrow> 'l"
    and step :: "'l \<Rightarrow> 'a option \<times> 'l"
    and turn :: "'l \<Rightarrow> 'a list"
    and inv :: "'l \<Rightarrow> bool"
  assumes empty_inv: "inv empty" and empty_turn: "turn empty = []"
    and insert_inv: "inv l \<Longrightarrow> x \<notin> set (turn l) \<Longrightarrow> inv (insert x l)"
    and insert_turn: "inv l \<Longrightarrow> set (turn (insert x l)) = Set.insert x (set (turn l))"
    and remove_inv: "inv l \<Longrightarrow> inv (remove x l)"
    and remove_turn: "inv l \<Longrightarrow> turn (remove x l) = remove1 x (turn l)"
    and step_inv: "inv l \<Longrightarrow> inv (snd (step l))"
    and step_owner: "inv l \<Longrightarrow> turn l \<noteq> [] \<Longrightarrow> fst (step l) = Some (hd (turn l))"
    and step_turn: "inv l \<Longrightarrow> turn (snd (step l)) = rotate1 (turn l)"
    and turn_distinct: "inv l \<Longrightarrow> distinct (turn l)"
begin

lemma steps_inv: "inv l \<Longrightarrow> inv (((\<lambda>l. snd (step l)) ^^ n) l)"
  by (induction n) (simp_all add: step_inv)

lemma steps_turn: "inv l \<Longrightarrow> turn (((\<lambda>l. snd (step l)) ^^ n) l) = rotate n (turn l)"
  by (induction n) (simp_all add: step_turn steps_inv)

lemma nth_owner:
  assumes "inv l" and "turn l \<noteq> []"
  shows "fst (step (((\<lambda>l. snd (step l)) ^^ n) l)) = Some (turn l ! (n mod length (turn l)))"
  using assms by (simp add: step_owner steps_inv steps_turn hd_rotate_conv_nth)

lemma remove_distinct: "inv l \<Longrightarrow> set (turn (remove x l)) = set (turn l) - {x}"
  by (simp add: remove_turn turn_distinct)

end

section \<open>The ring of list.c\<close>

definition ring_items :: "'a ring \<Rightarrow> 'a list" where
  "ring_items r = map the (filter (\<lambda>n. n \<noteq> None) r)"

text \<open>The owners the next walks return, in order.\<close>

definition ring_turn :: "'a ring \<Rightarrow> 'a list" where
  "ring_turn r = (if hd r = None then ring_items r else rotate1 (ring_items r))"

definition ring_inv :: "'a ring \<Rightarrow> bool" where
  "ring_inv r \<longleftrightarrow> None \<in> set r \<and> distinct r"

lemma ring_items_simps [simp]:
  "ring_items [] = []" "ring_items (None # r) = ring_items r"
  "ring_items (Some x # r) = x # ring_items r"
  "ring_items (r @ s) = ring_items r @ ring_items s"
  by (simp_all add: ring_items_def)

lemma set_ring_items [simp]: "x \<in> set (ring_items r) \<longleftrightarrow> Some x \<in> set r"
  by (force simp: ring_items_def image_iff)

lemma set_ring_turn [simp]: "set (ring_turn r) = set (ring_items r)"
  by (simp add: ring_turn_def)

lemma distinct_ring_items: "distinct r \<Longrightarrow> distinct (ring_items r)"
proof (induction r)
  case (Cons n r)
  then show ?case by (cases n) auto
qed simp

lemma ring_items_remove1: "ring_items (remove1 (Some x) r) = remove1 x (ring_items r)"
proof (induction r)
  case (Cons n r)
  then show ?case by (cases n) auto
qed simp

lemma ring_inv_cases:
  assumes "ring_inv r"
  obtains (marker) s where "r = None # s" "None \<notin> set s" "distinct s"
    | (item) x s where "r = Some x # s" "None \<in> set s" "distinct s" "Some x \<notin> set s"
proof (cases r)
  case (Cons n s)
  then show thesis
  proof (cases n)
    case (Some x)
    with Cons assms show thesis by (intro item [of x s]) (auto simp: ring_inv_def)
  qed (use assms in \<open>auto simp: ring_inv_def intro: that\<close>)
qed (use assms in \<open>simp add: ring_inv_def\<close>)

lemma ring_empty_iff:
  assumes "ring_inv r"
  shows "listLIST_IS_EMPTY r \<longleftrightarrow> ring_turn r = []"
  using assms
proof (cases rule: ring_inv_cases)
  case (marker s)
  then show ?thesis
  proof (cases s)
    case (Cons n t)
    with marker show ?thesis by (cases n) (auto simp: listLIST_IS_EMPTY_def ring_turn_def)
  qed (auto simp: listLIST_IS_EMPTY_def ring_turn_def)
next
  case (item x s)
  then show ?thesis by (cases s) (auto simp: listLIST_IS_EMPTY_def ring_turn_def)
qed

lemma ring_remove_inv:
  assumes "ring_inv r"
  shows "ring_inv (uxListRemove x r)"
  using assms
proof (cases rule: ring_inv_cases)
  case (item y s)
  then have "s \<noteq> []" by auto
  then show ?thesis using item
    by (cases s rule: rev_cases) (auto simp: uxListRemove_def ring_inv_def distinct_remove1)
qed (auto simp: uxListRemove_def ring_inv_def)

lemma ring_remove_turn:
  assumes "ring_inv r"
  shows "ring_turn (uxListRemove x r) = remove1 x (ring_turn r)"
  using assms
proof (cases rule: ring_inv_cases)
  case (marker s)
  then show ?thesis
    by (simp add: uxListRemove_def ring_turn_def ring_items_remove1)
next
  case (item y s)
  then have "s \<noteq> []" by auto
  then obtain s' z where s: "s = s' @ [z]" by (cases s rule: rev_cases) auto
  have out: "y \<notin> set (ring_items s)" using item(4) by simp
  show ?thesis
  proof (cases "y = x")
    case True
    then show ?thesis using item s out
      by (cases z) (auto simp: uxListRemove_def ring_turn_def remove1_append)
  next
    case False
    then show ?thesis using item out
      by (simp add: uxListRemove_def ring_turn_def ring_items_remove1 remove1_append)
        (simp add: remove1_idem)
  qed
qed

lemma ring_step:
  assumes "ring_inv r"
  shows "ring_inv (snd (listGET_OWNER_OF_NEXT_ENTRY r))"
    and "ring_turn (snd (listGET_OWNER_OF_NEXT_ENTRY r)) = rotate1 (ring_turn r)"
    and "ring_turn r \<noteq> [] \<Longrightarrow> fst (listGET_OWNER_OF_NEXT_ENTRY r) = Some (hd (ring_turn r))"
proof -
  have "ring_inv (snd (listGET_OWNER_OF_NEXT_ENTRY r)) \<and>
      ring_turn (snd (listGET_OWNER_OF_NEXT_ENTRY r)) = rotate1 (ring_turn r) \<and>
      (ring_turn r \<noteq> [] \<longrightarrow> fst (listGET_OWNER_OF_NEXT_ENTRY r) = Some (hd (ring_turn r)))"
    using assms
proof (cases rule: ring_inv_cases)
  case (marker s)
  then show ?thesis
  proof (cases s)
    case (Cons n t)
    with marker obtain y where "n = Some y" by (cases n) auto
    with Cons marker show ?thesis
      by (auto simp: listGET_OWNER_OF_NEXT_ENTRY_def ring_inv_def ring_turn_def)
  qed (auto simp: listGET_OWNER_OF_NEXT_ENTRY_def ring_inv_def ring_turn_def)
next
  case (item x s)
  show ?thesis
  proof (cases s)
    case (Cons n t)
    show ?thesis
    proof (cases n)
      case None
      with item Cons have "None \<notin> set t" by simp
      then have "hd (t @ [Some x]) \<noteq> None" by (cases t) (auto simp: eq_commute [of None])
      with None item Cons show ?thesis
        by (cases t) (auto simp: listGET_OWNER_OF_NEXT_ENTRY_def ring_inv_def ring_turn_def)
    next
      case (Some y)
      with item Cons show ?thesis
        by (auto simp: listGET_OWNER_OF_NEXT_ENTRY_def ring_inv_def ring_turn_def)
    qed
  qed (use item in simp)
qed
  then show "ring_inv (snd (listGET_OWNER_OF_NEXT_ENTRY r))"
    and "ring_turn (snd (listGET_OWNER_OF_NEXT_ENTRY r)) = rotate1 (ring_turn r)"
    and "ring_turn r \<noteq> [] \<Longrightarrow> fst (listGET_OWNER_OF_NEXT_ENTRY r) = Some (hd (ring_turn r))"
    by simp_all
qed

lemma ring_insert:
  assumes "ring_inv r"
  shows "x \<notin> set (ring_turn r) \<Longrightarrow> ring_inv (vListInsertEnd x r)"
    and "set (ring_turn (vListInsertEnd x r)) = Set.insert x (set (ring_turn r))"
  using assms by (auto simp: ring_inv_def vListInsertEnd_def)

interpretation ring: round_robin vListInitialise vListInsertEnd uxListRemove
    listGET_OWNER_OF_NEXT_ENTRY ring_turn ring_inv
proof
  fix r :: "'a ring" and x :: 'a
  show "ring_inv (vListInitialise :: 'a ring)" "ring_turn (vListInitialise :: 'a ring) = []"
    by (simp_all add: ring_inv_def vListInitialise_def ring_turn_def)
  assume r: "ring_inv r"
  show "x \<notin> set (ring_turn r) \<Longrightarrow> ring_inv (vListInsertEnd x r)"
    "set (ring_turn (vListInsertEnd x r)) = Set.insert x (set (ring_turn r))"
    using ring_insert [OF r] by blast+
  show "ring_inv (uxListRemove x r)" "ring_turn (uxListRemove x r) = remove1 x (ring_turn r)"
    by (rule ring_remove_inv [OF r], rule ring_remove_turn [OF r])
  show "ring_inv (snd (listGET_OWNER_OF_NEXT_ENTRY r))"
    "ring_turn (snd (listGET_OWNER_OF_NEXT_ENTRY r)) = rotate1 (ring_turn r)"
    "ring_turn r \<noteq> [] \<Longrightarrow> fst (listGET_OWNER_OF_NEXT_ENTRY r) = Some (hd (ring_turn r))"
    using ring_step [OF r] by blast+
  show "distinct (ring_turn r)"
    using r by (auto simp: ring_inv_def ring_turn_def intro: distinct_ring_items)
qed

section \<open>The ordered lists\<close>

lemma set_vListInsert [simp]: "set (vListInsert val x ys) = insert x (set ys)"
  by (induction ys) auto

lemma distinct_vListInsert: "x \<notin> set ys \<Longrightarrow> distinct ys \<Longrightarrow> distinct (vListInsert val x ys)"
  by (induction ys) auto

lemma sorted_vListInsert:
  "sorted (map val ys) \<Longrightarrow> sorted (map val (vListInsert val x ys))"
  by (induction ys) (auto simp: less_imp_le intro: order.trans)

lemma vListInsert_cong: "(\<And>y. y \<in> set (x # ys) \<Longrightarrow> val y = val' y) \<Longrightarrow> vListInsert val x ys = vListInsert val' x ys"
  by (induction ys) auto

section \<open>Properties\<close>

text \<open>C18: the ready list of one priority shares the processor fairly: from any state of the list with
  \<open>n\<close> tasks, the \<open>n\<close> next walks return each of them exactly once, and the walk after \<open>n\<close> more
  returns the same task again.\<close>

theorem ready_list_round_robin:
  assumes "ring_inv r" and "Some t \<in> set r"
  shows "\<exists>!k. k < length (ring_turn r) \<and>
    fst (listGET_OWNER_OF_NEXT_ENTRY (((\<lambda>l. snd (listGET_OWNER_OF_NEXT_ENTRY l)) ^^ k) r)) = Some t"
proof -
  have t: "t \<in> set (ring_turn r)" using assms(2) by simp
  then have ne: "ring_turn r \<noteq> []" by force
  have "\<exists>!k. k < length (ring_turn r) \<and> ring_turn r ! k = t"
    using ring.turn_distinct [OF assms(1)] t by (rule distinct_Ex1)
  then show ?thesis
    by (simp add: ring.nth_owner [OF assms(1) ne] cong: conj_cong)
qed

theorem ready_list_round_robin_witness:
  "\<exists>!k. k < 2 \<and>
    fst (listGET_OWNER_OF_NEXT_ENTRY
      (((\<lambda>l. snd (listGET_OWNER_OF_NEXT_ENTRY l)) ^^ k) [Some (3::nat), None, Some 5])) = Some 5"
proof -
  have "ring_inv [Some (3::nat), None, Some 5]" by (simp add: ring_inv_def)
  moreover have "Some 5 \<in> set [Some (3::nat), None, Some 5]" by simp
  ultimately have "\<exists>!k. k < length (ring_turn [Some (3::nat), None, Some 5]) \<and>
    fst (listGET_OWNER_OF_NEXT_ENTRY
      (((\<lambda>l. snd (listGET_OWNER_OF_NEXT_ENTRY l)) ^^ k) [Some (3::nat), None, Some 5])) = Some 5"
    by (rule ready_list_round_robin)
  then show ?thesis by (simp add: ring_turn_def numeral_2_eq_2)
qed

end
