(* ===== verification/Kernel.thy ===== *)
theory Kernel
  imports Prelude KList
begin

text \<open>
  The part of the FreeRTOS kernel the firmware runs on, tasks.c: the ready, delayed, suspended and
  pending-ready lists, the choice of the next task, the tick, the suspension of the scheduler,
  delays, task creation and the notifications that carry packets and wake the tasks. The macros are
  those of the repository's FreeRTOSConfig.h: preemption and time slicing on, generic task
  selection, 56 priorities, 32-bit ticks, \<open>vTaskSuspend\<close> included.

  A task is its handle; the functions that suspend, resume and reprioritise tasks, the event lists
  and the inheritance of priorities are in KernelControl. A yield sets the pending bit of the PendSV exception (\<open>pendsv\<close>); the switch
  itself, \<open>vTaskSwitchContext\<close>, runs when the critical section ends. A call that blocks is split
  where the task gives up the processor: \<open>..._block\<close> is the code before, \<open>..._wake\<close> the code after
  it runs again.
\<close>

section \<open>State\<close>

type_synonym task = nat

datatype notify_state =
  taskNOT_WAITING_NOTIFICATION | taskWAITING_NOTIFICATION | taskNOTIFICATION_RECEIVED

datatype eNotifyAction =
  eNoAction | eSetBits | eIncrement | eSetValueWithOverwrite | eSetValueWithoutOverwrite

text \<open>The list a task's event item is in: the pending-ready list, or one that belongs to a queue or
  an event group; \<open>xEventLists\<close> holds the lists of the latter kind by their addresses.\<close>

datatype event_list = PendingReady | EventList nat

record tcb =
  uxPriority :: nat
  ulNotifiedValue :: u32
  ucNotifyState :: notify_state
  xItemValue :: u32
  xEventContainer :: "event_list option"
  xEventItemValue :: u32
  uxBasePriority :: nat
  uxMutexesHeld :: nat

record kernel =
  tcbs :: "task \<Rightarrow> tcb"
  pxCurrentTCB :: "task option"
  pxReadyTasksLists :: "nat \<Rightarrow> task ring"
  pxDelayedTaskList :: "task list"
  pxOverflowDelayedTaskList :: "task list"
  xSuspendedTaskList :: "task list"
  xPendingReadyList :: "task list"
  xEventLists :: "nat \<Rightarrow> task list"
  xTasksWaitingTermination :: "task list"
  uxDeletedTasksWaitingCleanUp :: nat
  uxCurrentNumberOfTasks :: nat
  uxTopReadyPriority :: nat
  uxSchedulerSuspended :: nat
  xSchedulerRunning :: bool
  xTickCount :: u32
  xPendedTicks :: u32
  xNextTaskUnblockTime :: u32
  xNumOfOverflows :: nat
  xYieldPending :: bool
  pendsv :: bool

definition configMAX_PRIORITIES :: nat where
  "configMAX_PRIORITIES = 56"

definition portMAX_DELAY :: u32 where
  "portMAX_DELAY = 0xFFFFFFFF"

text \<open>The running task; before the first task there is none and a use of \<open>pxCurrentTCB\<close> is a wild read.\<close>

definition current :: "kernel \<Rightarrow> task res" where
  "current k = (case pxCurrentTCB k of None \<Rightarrow> Inl Bounds | Some t \<Rightarrow> Inr t)"

definition upd_tcb :: "task \<Rightarrow> (tcb \<Rightarrow> tcb) \<Rightarrow> kernel \<Rightarrow> kernel" where
  "upd_tcb t f k = k\<lparr>tcbs := (tcbs k)(t := f (tcbs k t))\<rparr>"

definition prio :: "kernel \<Rightarrow> task \<Rightarrow> nat" where
  "prio k t = uxPriority (tcbs k t)"

section \<open>Lists of tasks\<close>

definition prvInitialiseTaskLists :: "kernel \<Rightarrow> kernel" where
  "prvInitialiseTaskLists k =
     k\<lparr>pxReadyTasksLists := \<lambda>_. vListInitialise, pxDelayedTaskList := [],
       pxOverflowDelayedTaskList := [], xSuspendedTaskList := [], xPendingReadyList := [],
       xTasksWaitingTermination := []\<rparr>"

definition prvAddTaskToReadyList :: "task \<Rightarrow> kernel \<Rightarrow> kernel" where
  "prvAddTaskToReadyList t k =
     (let p = prio k t in
      k\<lparr>uxTopReadyPriority := max p (uxTopReadyPriority k),
        pxReadyTasksLists := (pxReadyTasksLists k)
          (p := vListInsertEnd t (pxReadyTasksLists k p))\<rparr>)"

text \<open>\<open>uxListRemove\<close> of the state item: it is in at most one of the lists.\<close>

definition remove_state_item :: "task \<Rightarrow> kernel \<Rightarrow> kernel" where
  "remove_state_item t k =
     k\<lparr>pxReadyTasksLists := \<lambda>p. uxListRemove t (pxReadyTasksLists k p),
       pxDelayedTaskList := remove1 t (pxDelayedTaskList k),
       pxOverflowDelayedTaskList := remove1 t (pxOverflowDelayedTaskList k),
       xSuspendedTaskList := remove1 t (xSuspendedTaskList k),
       xTasksWaitingTermination := remove1 t (xTasksWaitingTermination k)\<rparr>"

text \<open>\<open>uxListRemove\<close> of the event item, likewise.\<close>

definition remove_event_item :: "task \<Rightarrow> kernel \<Rightarrow> kernel" where
  "remove_event_item t k =
     upd_tcb t (\<lambda>c. c\<lparr>xEventContainer := None\<rparr>)
       (k\<lparr>xPendingReadyList := remove1 t (xPendingReadyList k),
          xEventLists := \<lambda>q. remove1 t (xEventLists k q)\<rparr>)"

definition pend_ready :: "task \<Rightarrow> kernel \<Rightarrow> kernel" where
  "pend_ready t k =
     upd_tcb t (\<lambda>c. c\<lparr>xEventContainer := Some PendingReady\<rparr>)
       (k\<lparr>xPendingReadyList := xPendingReadyList k @ [t]\<rparr>)"

definition wake_time :: "kernel \<Rightarrow> task \<Rightarrow> u32" where
  "wake_time k t = xItemValue (tcbs k t)"

definition prvResetNextTaskUnblockTime :: "kernel \<Rightarrow> kernel" where
  "prvResetNextTaskUnblockTime k =
     (case pxDelayedTaskList k of
        [] \<Rightarrow> k\<lparr>xNextTaskUnblockTime := portMAX_DELAY\<rparr>
      | t # _ \<Rightarrow> k\<lparr>xNextTaskUnblockTime := wake_time k t\<rparr>)"

definition taskSWITCH_DELAYED_LISTS :: "kernel \<Rightarrow> kernel res" where
  "taskSWITCH_DELAYED_LISTS k =
     bindR (assertR (pxDelayedTaskList k = [])) (\<lambda>_.
     Inr (prvResetNextTaskUnblockTime
       (k\<lparr>pxDelayedTaskList := pxOverflowDelayedTaskList k,
          pxOverflowDelayedTaskList := pxDelayedTaskList k,
          xNumOfOverflows := Suc (xNumOfOverflows k)\<rparr>)))"

definition prvAddCurrentTaskToDelayedList :: "u32 \<Rightarrow> bool \<Rightarrow> kernel \<Rightarrow> kernel res" where
  "prvAddCurrentTaskToDelayedList xTicksToWait xCanBlockIndefinitely k =
     bindR (current k) (\<lambda>t.
     let k1 = remove_state_item t k in
     if xTicksToWait = portMAX_DELAY \<and> xCanBlockIndefinitely
     then Inr (k1\<lparr>xSuspendedTaskList := xSuspendedTaskList k1 @ [t]\<rparr>)
     else let xTimeToWake = xTickCount k + xTicksToWait;
              k2 = upd_tcb t (\<lambda>c. c\<lparr>xItemValue := xTimeToWake\<rparr>) k1 in
          if xTimeToWake < xTickCount k
          then Inr (k2\<lparr>pxOverflowDelayedTaskList :=
                 vListInsert (wake_time k2) t (pxOverflowDelayedTaskList k2)\<rparr>)
          else let k3 = k2\<lparr>pxDelayedTaskList := vListInsert (wake_time k2) t (pxDelayedTaskList k2)\<rparr>
               in Inr (if xTimeToWake < xNextTaskUnblockTime k3
                       then k3\<lparr>xNextTaskUnblockTime := xTimeToWake\<rparr> else k3))"

section \<open>Choosing a task\<close>

fun find_ready :: "(nat \<Rightarrow> task ring) \<Rightarrow> nat \<Rightarrow> nat res" where
  "find_ready r 0 = (if listLIST_IS_EMPTY (r 0) then Inl Assert_failed else Inr 0)"
| "find_ready r (Suc p) =
     (if listLIST_IS_EMPTY (r (Suc p)) then find_ready r p else Inr (Suc p))"

definition taskSELECT_HIGHEST_PRIORITY_TASK :: "kernel \<Rightarrow> kernel res" where
  "taskSELECT_HIGHEST_PRIORITY_TASK k =
     bindR (find_ready (pxReadyTasksLists k) (uxTopReadyPriority k)) (\<lambda>p.
     let (t, r) = listGET_OWNER_OF_NEXT_ENTRY (pxReadyTasksLists k p) in
     Inr (k\<lparr>pxCurrentTCB := t, pxReadyTasksLists := (pxReadyTasksLists k)(p := r),
            uxTopReadyPriority := p\<rparr>))"

definition vTaskSwitchContext :: "kernel \<Rightarrow> kernel res" where
  "vTaskSwitchContext k =
     (if uxSchedulerSuspended k \<noteq> 0 then Inr (k\<lparr>xYieldPending := True\<rparr>)
      else taskSELECT_HIGHEST_PRIORITY_TASK (k\<lparr>xYieldPending := False\<rparr>))"

definition portYIELD :: "kernel \<Rightarrow> kernel" where
  "portYIELD k = k\<lparr>pendsv := True\<rparr>"

text \<open>What happens when the interrupts are enabled again: a pending PendSV is taken.\<close>

definition take_pendsv :: "kernel \<Rightarrow> kernel res" where
  "take_pendsv k = (if pendsv k then vTaskSwitchContext (k\<lparr>pendsv := False\<rparr>) else Inr k)"

section \<open>The tick and the suspension of the scheduler\<close>

text \<open>The \<open>for(;;)\<close> of \<open>xTaskIncrementTick\<close>: the state, and whether a switch is required.\<close>

definition unblock_head :: "task \<Rightarrow> kernel \<Rightarrow> kernel" where
  "unblock_head t k =
     (let k1 = remove_state_item t k;
          k2 = (if xEventContainer (tcbs k1 t) \<noteq> None then remove_event_item t k1 else k1)
      in prvAddTaskToReadyList t k2)"

lemma unblock_head_delayed [simp]:
  "pxDelayedTaskList (unblock_head t k) = remove1 t (pxDelayedTaskList k)"
  by (simp add: unblock_head_def Let_def prvAddTaskToReadyList_def remove_state_item_def
      remove_event_item_def upd_tcb_def)

function unblock_expired :: "kernel \<Rightarrow> bool \<Rightarrow> (kernel \<times> bool) res" where
  "unblock_expired k sw =
     (case pxDelayedTaskList k of
        [] \<Rightarrow> Inr (k\<lparr>xNextTaskUnblockTime := portMAX_DELAY\<rparr>, sw)
      | t # ts \<Rightarrow>
          if xTickCount k < wake_time k t
          then Inr (k\<lparr>xNextTaskUnblockTime := wake_time k t\<rparr>, sw)
          else bindR (current k) (\<lambda>c.
               unblock_expired (unblock_head t k) (sw \<or> prio k c \<le> prio k t)))"
  by pat_completeness auto
termination
  by (relation "measure (\<lambda>(k, sw). length (pxDelayedTaskList k))") auto

declare unblock_expired.simps [simp del]

definition xTaskIncrementTick :: "kernel \<Rightarrow> (bool \<times> kernel) res" where
  "xTaskIncrementTick k =
     (if uxSchedulerSuspended k = 0 then
        bindR (let k1 = k\<lparr>xTickCount := xTickCount k + 1\<rparr> in
               if xTickCount k1 = 0 then taskSWITCH_DELAYED_LISTS k1 else Inr k1) (\<lambda>k2.
        bindR (if xNextTaskUnblockTime k2 \<le> xTickCount k2
               then unblock_expired k2 False else Inr (k2, False)) (\<lambda>(k3, sw).
        bindR (current k3) (\<lambda>c.
        let more = 2 < length (pxReadyTasksLists k3 (prio k3 c)) in
        Inr (sw \<or> more \<or> xYieldPending k3, k3))))
      else Inr (False, k\<lparr>xPendedTicks := xPendedTicks k + 1\<rparr>))"

text \<open>The SysTick handler of the port: a required switch sets PendSV.\<close>

definition xPortSysTickHandler :: "kernel \<Rightarrow> kernel res" where
  "xPortSysTickHandler k =
     bindR (xTaskIncrementTick k) (\<lambda>(sw, k1). Inr (if sw then portYIELD k1 else k1))"

text \<open>The tick interrupt, stm32f1xx_it.c: \<open>HAL_IncTick\<close> counts the milliseconds of the HAL (\<open>uwTick\<close>); the kernel
  sees the tick only once the scheduler has been started.\<close>

datatype scheduler_state = taskSCHEDULER_SUSPENDED | taskSCHEDULER_NOT_STARTED | taskSCHEDULER_RUNNING

definition xTaskGetSchedulerState :: "kernel \<Rightarrow> scheduler_state" where
  "xTaskGetSchedulerState k =
     (if \<not> xSchedulerRunning k then taskSCHEDULER_NOT_STARTED
      else if uxSchedulerSuspended k = 0 then taskSCHEDULER_RUNNING else taskSCHEDULER_SUSPENDED)"

definition SysTick_Handler :: "u32 \<times> kernel \<Rightarrow> (u32 \<times> kernel) res" where
  "SysTick_Handler = (\<lambda>(uwTick, k).
     bindR (if xTaskGetSchedulerState k \<noteq> taskSCHEDULER_NOT_STARTED then xPortSysTickHandler k else Inr k) (\<lambda>k1.
     Inr (uwTick + 1, k1)))"

definition vTaskSuspendAll :: "kernel \<Rightarrow> kernel" where
  "vTaskSuspendAll k = k\<lparr>uxSchedulerSuspended := Suc (uxSchedulerSuspended k)\<rparr>"

fun move_pending :: "task list \<Rightarrow> kernel \<Rightarrow> kernel res" where
  "move_pending [] k = Inr k"
| "move_pending (t # ts) k =
     bindR (current k) (\<lambda>c.
     let k1 = prvAddTaskToReadyList t (remove_state_item t (remove_event_item t k)) in
     move_pending ts (if prio k c \<le> prio k t then k1\<lparr>xYieldPending := True\<rparr> else k1))"

fun pended_ticks :: "nat \<Rightarrow> kernel \<Rightarrow> kernel res" where
  "pended_ticks 0 k = Inr k"
| "pended_ticks (Suc n) k =
     bindR (xTaskIncrementTick k) (\<lambda>(sw, k1).
     pended_ticks n (if sw then k1\<lparr>xYieldPending := True\<rparr> else k1))"

definition xTaskResumeAll :: "kernel \<Rightarrow> (bool \<times> kernel) res" where
  "xTaskResumeAll k =
     bindR (assertR (uxSchedulerSuspended k \<noteq> 0)) (\<lambda>_.
     let k1 = k\<lparr>uxSchedulerSuspended := uxSchedulerSuspended k - 1\<rparr> in
     if uxSchedulerSuspended k1 = 0 \<and> 0 < uxCurrentNumberOfTasks k1 then
       bindR (move_pending (xPendingReadyList k1) k1) (\<lambda>k2.
       let k3 = (if xPendingReadyList k1 \<noteq> [] then prvResetNextTaskUnblockTime k2 else k2) in
       bindR (if 0 < xPendedTicks k3
              then bindR (pended_ticks (unat (xPendedTicks k3)) k3) (\<lambda>k. Inr (k\<lparr>xPendedTicks := 0\<rparr>))
              else Inr k3) (\<lambda>k4.
       if xYieldPending k4 then Inr (True, portYIELD k4) else Inr (False, k4)))
     else Inr (False, k1))"

definition vTaskDelay_block :: "u32 \<Rightarrow> kernel \<Rightarrow> kernel res" where
  "vTaskDelay_block xTicksToDelay k =
     bindR (if 0 < xTicksToDelay then
              bindR (assertR (uxSchedulerSuspended k = 0)) (\<lambda>_.
              bindR (prvAddCurrentTaskToDelayedList xTicksToDelay False (vTaskSuspendAll k))
                xTaskResumeAll)
            else Inr (False, k)) (\<lambda>(xAlreadyYielded, k1).
     Inr (if xAlreadyYielded then k1 else portYIELD k1))"

section \<open>Creating tasks and starting the scheduler\<close>

definition event_value :: "nat \<Rightarrow> u32" where
  "event_value p = of_nat configMAX_PRIORITIES - of_nat p"

definition new_tcb :: "nat \<Rightarrow> tcb" where
  "new_tcb n =
     (let p = (if configMAX_PRIORITIES \<le> n then configMAX_PRIORITIES - 1 else n) in
      \<lparr>uxPriority = p, ulNotifiedValue = 0, ucNotifyState = taskNOT_WAITING_NOTIFICATION, xItemValue = 0,
       xEventContainer = None, xEventItemValue = event_value p,
       uxBasePriority = p, uxMutexesHeld = 0\<rparr>)"

definition prvAddNewTaskToReadyList :: "task \<Rightarrow> kernel \<Rightarrow> kernel res" where
  "prvAddNewTaskToReadyList t k =
     (let k1 = k\<lparr>uxCurrentNumberOfTasks := Suc (uxCurrentNumberOfTasks k)\<rparr>;
          k2 = (case pxCurrentTCB k1 of
                  None \<Rightarrow> let k' = k1\<lparr>pxCurrentTCB := Some t\<rparr> in
                    if uxCurrentNumberOfTasks k' = 1 then prvInitialiseTaskLists k' else k'
                | Some c \<Rightarrow> if \<not> xSchedulerRunning k1 \<and> prio k1 c \<le> prio k1 t
                    then k1\<lparr>pxCurrentTCB := Some t\<rparr> else k1);
          k3 = prvAddTaskToReadyList t k2
      in if xSchedulerRunning k3 then
           bindR (current k3) (\<lambda>c. Inr (if prio k3 c < prio k3 t then portYIELD k3 else k3))
         else Inr k3)"

text \<open>\<open>xTaskCreateStatic\<close>: \<open>t\<close> is the address of the control block the caller supplies.\<close>

definition xTaskCreateStatic :: "task \<Rightarrow> nat \<Rightarrow> kernel \<Rightarrow> kernel res" where
  "xTaskCreateStatic t p k = prvAddNewTaskToReadyList t (upd_tcb t (\<lambda>_. new_tcb p) k)"

definition kernel_start :: kernel where
  "kernel_start = \<lparr>tcbs = \<lambda>_. new_tcb 0, pxCurrentTCB = None,
     pxReadyTasksLists = \<lambda>_. vListInitialise, pxDelayedTaskList = [],
     pxOverflowDelayedTaskList = [], xSuspendedTaskList = [], xPendingReadyList = [],
     xEventLists = \<lambda>_. [], xTasksWaitingTermination = [], uxDeletedTasksWaitingCleanUp = 0,
     uxCurrentNumberOfTasks = 0, uxTopReadyPriority = 0, uxSchedulerSuspended = 0,
     xSchedulerRunning = False, xTickCount = 0, xPendedTicks = 0, xNextTaskUnblockTime = 0,
     xNumOfOverflows = 0, xYieldPending = False, pendsv = False\<rparr>"

section \<open>Notifications\<close>

definition notify_value :: "eNotifyAction \<Rightarrow> u32 \<Rightarrow> notify_state \<Rightarrow> u32 \<Rightarrow> bool \<times> u32" where
  "notify_value eAction ulValue original old =
     (case eAction of
        eSetBits \<Rightarrow> (True, old OR ulValue)
      | eIncrement \<Rightarrow> (True, old + 1)
      | eSetValueWithOverwrite \<Rightarrow> (True, ulValue)
      | eSetValueWithoutOverwrite \<Rightarrow>
          if original \<noteq> taskNOTIFICATION_RECEIVED then (True, ulValue) else (False, old)
      | eNoAction \<Rightarrow> (True, old))"

text \<open>The result is \<open>xReturn\<close>, the value \<open>*pulPreviousNotificationValue\<close> gets, and the state.\<close>

definition xTaskGenericNotify ::
    "task option \<Rightarrow> u32 \<Rightarrow> eNotifyAction \<Rightarrow> kernel \<Rightarrow> (bool \<times> u32 \<times> kernel) res" where
  "xTaskGenericNotify xTaskToNotify ulValue eAction k =
     (case xTaskToNotify of None \<Rightarrow> Inl Assert_failed
      | Some t \<Rightarrow>
          let original = ucNotifyState (tcbs k t);
              previous = ulNotifiedValue (tcbs k t);
              (xReturn, v) = notify_value eAction ulValue original previous;
              k1 = upd_tcb t (\<lambda>c. c\<lparr>ucNotifyState := taskNOTIFICATION_RECEIVED,
                                    ulNotifiedValue := v\<rparr>) k in
          if original = taskWAITING_NOTIFICATION then
            let k2 = prvAddTaskToReadyList t (remove_state_item t k1) in
            bindR (assertR (xEventContainer (tcbs k2 t) = None)) (\<lambda>_.
            bindR (current k2) (\<lambda>c.
            Inr (xReturn, previous, if prio k2 c < prio k2 t then portYIELD k2 else k2)))
          else Inr (xReturn, previous, k1))"

text \<open>The ISR versions also set \<open>*pxHigherPriorityTaskWoken\<close>, here the last component.\<close>

definition notify_from_isr :: "task \<Rightarrow> notify_state \<Rightarrow> bool \<Rightarrow> kernel \<Rightarrow> (kernel \<times> bool) res" where
  "notify_from_isr t original woken k1 =
     (if original = taskWAITING_NOTIFICATION then
        bindR (assertR (xEventContainer (tcbs k1 t) = None)) (\<lambda>_.
        let k2 = (if uxSchedulerSuspended k1 = 0
                  then prvAddTaskToReadyList t (remove_state_item t k1) else pend_ready t k1) in
        bindR (current k2) (\<lambda>c.
        if prio k2 c < prio k2 t then Inr (k2\<lparr>xYieldPending := True\<rparr>, True)
        else Inr (k2, woken)))
      else Inr (k1, woken))"

definition xTaskGenericNotifyFromISR ::
    "task option \<Rightarrow> u32 \<Rightarrow> eNotifyAction \<Rightarrow> bool \<Rightarrow> kernel \<Rightarrow> (bool \<times> u32 \<times> bool \<times> kernel) res" where
  "xTaskGenericNotifyFromISR xTaskToNotify ulValue eAction woken k =
     (case xTaskToNotify of None \<Rightarrow> Inl Assert_failed
      | Some t \<Rightarrow>
          let original = ucNotifyState (tcbs k t);
              previous = ulNotifiedValue (tcbs k t);
              (xReturn, v) = notify_value eAction ulValue original previous;
              k1 = upd_tcb t (\<lambda>c. c\<lparr>ucNotifyState := taskNOTIFICATION_RECEIVED,
                                    ulNotifiedValue := v\<rparr>) k in
          bindR (notify_from_isr t original woken k1) (\<lambda>(k2, w).
          Inr (xReturn, previous, w, k2)))"

definition vTaskNotifyGiveFromISR :: "task option \<Rightarrow> bool \<Rightarrow> kernel \<Rightarrow> (bool \<times> kernel) res" where
  "vTaskNotifyGiveFromISR xTaskToNotify woken k =
     (case xTaskToNotify of None \<Rightarrow> Inl Assert_failed
      | Some t \<Rightarrow>
          let original = ucNotifyState (tcbs k t);
              k1 = upd_tcb t (\<lambda>c. c\<lparr>ucNotifyState := taskNOTIFICATION_RECEIVED,
                                    ulNotifiedValue := ulNotifiedValue c + 1\<rparr>) k in
          bindR (notify_from_isr t original woken k1) (\<lambda>(k2, w). Inr (w, k2)))"

text \<open>The first critical section of \<open>xTaskNotifyWait\<close>, then the second.\<close>

definition xTaskNotifyWait_block :: "u32 \<Rightarrow> u32 \<Rightarrow> kernel \<Rightarrow> kernel res" where
  "xTaskNotifyWait_block ulBitsToClearOnEntry xTicksToWait k =
     bindR (current k) (\<lambda>t.
     if ucNotifyState (tcbs k t) \<noteq> taskNOTIFICATION_RECEIVED then
       let k1 = upd_tcb t (\<lambda>c. c\<lparr>ulNotifiedValue := ulNotifiedValue c AND NOT ulBitsToClearOnEntry,
                                 ucNotifyState := taskWAITING_NOTIFICATION\<rparr>) k in
       if 0 < xTicksToWait
       then bindR (prvAddCurrentTaskToDelayedList xTicksToWait True k1) (\<lambda>k2. Inr (portYIELD k2))
       else Inr k1
     else Inr k)"

definition xTaskNotifyWait_wake :: "u32 \<Rightarrow> kernel \<Rightarrow> (bool \<times> u32 \<times> kernel) res" where
  "xTaskNotifyWait_wake ulBitsToClearOnExit k =
     bindR (current k) (\<lambda>t.
     let v = ulNotifiedValue (tcbs k t);
         got = (ucNotifyState (tcbs k t) = taskNOTIFICATION_RECEIVED) in
     Inr (got, v, upd_tcb t (\<lambda>c. c\<lparr>ulNotifiedValue :=
            (if got then ulNotifiedValue c AND NOT ulBitsToClearOnExit else ulNotifiedValue c),
            ucNotifyState := taskNOT_WAITING_NOTIFICATION\<rparr>) k))"

definition ulTaskNotifyTake_block :: "u32 \<Rightarrow> kernel \<Rightarrow> kernel res" where
  "ulTaskNotifyTake_block xTicksToWait k =
     bindR (current k) (\<lambda>t.
     if ulNotifiedValue (tcbs k t) = 0 then
       let k1 = upd_tcb t (\<lambda>c. c\<lparr>ucNotifyState := taskWAITING_NOTIFICATION\<rparr>) k in
       if 0 < xTicksToWait
       then bindR (prvAddCurrentTaskToDelayedList xTicksToWait True k1) (\<lambda>k2. Inr (portYIELD k2))
       else Inr k1
     else Inr k)"

definition ulTaskNotifyTake_wake :: "bool \<Rightarrow> kernel \<Rightarrow> (u32 \<times> kernel) res" where
  "ulTaskNotifyTake_wake xClearCountOnExit k =
     bindR (current k) (\<lambda>t.
     let ulReturn = ulNotifiedValue (tcbs k t) in
     Inr (ulReturn, upd_tcb t (\<lambda>c. c\<lparr>ulNotifiedValue :=
            (if ulReturn \<noteq> 0 then (if xClearCountOnExit then 0 else ulReturn - 1) else ulNotifiedValue c),
            ucNotifyState := taskNOT_WAITING_NOTIFICATION\<rparr>) k))"

definition prvGetTCBFromHandle :: "task option \<Rightarrow> kernel \<Rightarrow> task res" where
  "prvGetTCBFromHandle h k = (case h of None \<Rightarrow> current k | Some t \<Rightarrow> Inr t)"

definition xTaskNotifyStateClear :: "task option \<Rightarrow> kernel \<Rightarrow> (bool \<times> kernel) res" where
  "xTaskNotifyStateClear xTask k =
     bindR (prvGetTCBFromHandle xTask k) (\<lambda>t.
     if ucNotifyState (tcbs k t) = taskNOTIFICATION_RECEIVED
     then Inr (True, upd_tcb t (\<lambda>c. c\<lparr>ucNotifyState := taskNOT_WAITING_NOTIFICATION\<rparr>) k)
     else Inr (False, k))"

text \<open>The value returned is the one of the current task, whichever task is cleared.\<close>

definition ulTaskNotifyValueClear :: "task option \<Rightarrow> u32 \<Rightarrow> kernel \<Rightarrow> (u32 \<times> kernel) res" where
  "ulTaskNotifyValueClear xTask ulBitsToClear k =
     bindR (prvGetTCBFromHandle xTask k) (\<lambda>t.
     bindR (current k) (\<lambda>c.
     Inr (ulNotifiedValue (tcbs k c),
          upd_tcb t (\<lambda>c. c\<lparr>ulNotifiedValue := ulNotifiedValue c AND NOT ulBitsToClear\<rparr>) k)))"

section \<open>Deleting tasks and starting the scheduler\<close>

text \<open>\<open>vTaskDelete\<close>. Giving the memory of a task back (\<open>prvDeleteTCB\<close>) does not change the kernel's state.\<close>

definition vTaskDelete :: "task option \<Rightarrow> kernel \<Rightarrow> kernel res" where
  "vTaskDelete xTaskToDelete k =
     bindR (prvGetTCBFromHandle xTaskToDelete k) (\<lambda>t.
     let k1 = remove_state_item t k;
         k2 = (if xEventContainer (tcbs k1 t) \<noteq> None then remove_event_item t k1 else k1);
         k3 = (if Some t = pxCurrentTCB k2
               then k2\<lparr>xTasksWaitingTermination := xTasksWaitingTermination k2 @ [t],
                       uxDeletedTasksWaitingCleanUp := Suc (uxDeletedTasksWaitingCleanUp k2)\<rparr>
               else prvResetNextTaskUnblockTime
                 (k2\<lparr>uxCurrentNumberOfTasks := uxCurrentNumberOfTasks k2 - 1\<rparr>)) in
     if xSchedulerRunning k3 \<and> Some t = pxCurrentTCB k3
     then bindR (assertR (uxSchedulerSuspended k3 = 0)) (\<lambda>_. Inr (portYIELD k3))
     else Inr k3)"

text \<open>\<open>prvCheckTasksWaitingTermination\<close> of the idle task: the argument is \<open>uxDeletedTasksWaitingCleanUp\<close>.\<close>

fun clean_up_tasks :: "nat \<Rightarrow> kernel \<Rightarrow> kernel res" where
  "clean_up_tasks 0 k = Inr k"
| "clean_up_tasks (Suc n) k =
     (case xTasksWaitingTermination k of
        [] \<Rightarrow> Inl Bounds
      | t # _ \<Rightarrow> clean_up_tasks n ((remove_state_item t k)
          \<lparr>uxCurrentNumberOfTasks := uxCurrentNumberOfTasks k - 1, uxDeletedTasksWaitingCleanUp := n\<rparr>))"

definition prvCheckTasksWaitingTermination :: "kernel \<Rightarrow> kernel res" where
  "prvCheckTasksWaitingTermination k = clean_up_tasks (uxDeletedTasksWaitingCleanUp k) k"

text \<open>\<open>xTaskCreate\<close>: \<open>alloc\<close> is the control block when both allocations succeed.\<close>

definition xTaskCreate :: "task option \<Rightarrow> nat \<Rightarrow> kernel \<Rightarrow> (bool \<times> kernel) res" where
  "xTaskCreate alloc p k =
     (case alloc of
        None \<Rightarrow> Inr (False, k)
      | Some t \<Rightarrow> bindR (prvAddNewTaskToReadyList t (upd_tcb t (\<lambda>_. new_tcb p) k)) (\<lambda>k1. Inr (True, k1)))"

definition configTIMER_TASK_PRIORITY :: nat where "configTIMER_TASK_PRIORITY = 2"

text \<open>The idle task at \<open>idle\<close>, the timer service task at \<open>tmr\<close>; \<open>xPortStartScheduler\<close> then runs the first
  task and does not return.\<close>

definition vTaskStartScheduler :: "task \<Rightarrow> task \<Rightarrow> kernel \<Rightarrow> kernel res" where
  "vTaskStartScheduler idle tmr k =
     bindR (xTaskCreateStatic idle 0 k) (\<lambda>k1.
     bindR (xTaskCreateStatic tmr configTIMER_TASK_PRIORITY k1) (\<lambda>k2.
     Inr (k2\<lparr>xNextTaskUnblockTime := portMAX_DELAY, xSchedulerRunning := True, xTickCount := 0\<rparr>)))"

end
