(* ===== verification/StreamBuffer.thy ===== *)
theory StreamBuffer
  imports Kernel
begin

text \<open>
  The stream buffer of FreeRTOS, stream_buffer.c: a ring of bytes between the receive interrupts and
  the command task. Indices are 32-bit words as in the code (\<open>size_t\<close> on the Cortex-M3). A handle is
  \<open>None\<close> for \<open>NULL\<close>. The functions that can make another task ready take and return the kernel; the
  receiver's wait is split into \<open>..._block\<close> and \<open>..._wake\<close>. Message buffers, which store a length
  word before each message, are the same code with a flag and are modelled with it.
\<close>

section \<open>State\<close>

record StreamBuffer_t =
  xTail :: u32
  xHead :: u32
  xLength :: u32
  xTriggerLevelBytes :: u32
  xTaskWaitingToReceive :: "task option"
  xTaskWaitingToSend :: "task option"
  pucBuffer :: "u8 list"
  ucFlags :: u8
  uxStreamBufferNumber :: u32

definition sbBYTES_TO_STORE_MESSAGE_LENGTH :: u32 where
  "sbBYTES_TO_STORE_MESSAGE_LENGTH = 4"

definition sbFLAGS_IS_MESSAGE_BUFFER :: u8 where
  "sbFLAGS_IS_MESSAGE_BUFFER = 1"

definition sbFLAGS_IS_STATICALLY_ALLOCATED :: u8 where
  "sbFLAGS_IS_STATICALLY_ALLOCATED = 2"

definition is_message_buffer :: "StreamBuffer_t \<Rightarrow> bool" where
  "is_message_buffer sb \<longleftrightarrow> ucFlags sb AND sbFLAGS_IS_MESSAGE_BUFFER \<noteq> 0"

text \<open>\<open>configASSERT( pxStreamBuffer )\<close> and the dereference behind it.\<close>

definition deref :: "'a option \<Rightarrow> 'a res" where
  "deref p = (case p of None \<Rightarrow> Inl Assert_failed | Some x \<Rightarrow> Inr x)"

lemma deref_simps [simp]: "deref None = Inl Assert_failed" "deref (Some x) = Inr x"
  by (simp_all add: deref_def)

section \<open>Creation, reset, trigger level\<close>

text \<open>The storage is filled with \<open>0x55\<close> by the assertion in \<open>prvInitialiseNewStreamBuffer\<close>.\<close>

definition prvInitialiseNewStreamBuffer :: "u8 list \<Rightarrow> u32 \<Rightarrow> u32 \<Rightarrow> u8 \<Rightarrow> StreamBuffer_t res" where
  "prvInitialiseNewStreamBuffer puc bytes trigger flags =
     bindR (memcpy_to puc 0 (replicate (unat bytes) 0x55)) (\<lambda>mem.
     Inr \<lparr>xTail = 0, xHead = 0, xLength = bytes, xTriggerLevelBytes = trigger,
       xTaskWaitingToReceive = None, xTaskWaitingToSend = None, pucBuffer = mem, ucFlags = flags,
       uxStreamBufferNumber = 0\<rparr>)"

text \<open>\<open>alloc\<close> is what \<open>pvPortMalloc\<close> returned: the bytes behind the control structure, or \<open>None\<close>.\<close>

definition xStreamBufferGenericCreate ::
    "u8 list option \<Rightarrow> u32 \<Rightarrow> u32 \<Rightarrow> bool \<Rightarrow> StreamBuffer_t option res" where
  "xStreamBufferGenericCreate alloc bytes trigger is_message =
     (let flags = (if is_message then sbFLAGS_IS_MESSAGE_BUFFER else 0) in
      bindR (assertR (if is_message then sbBYTES_TO_STORE_MESSAGE_LENGTH < bytes else 0 < bytes)) (\<lambda>_.
      bindR (assertR (trigger \<le> bytes)) (\<lambda>_.
      let trigger1 = (if trigger = 0 then 1 else trigger); bytes1 = bytes + 1 in
      (case alloc of
         None \<Rightarrow> Inr None
       | Some puc \<Rightarrow> bindR (prvInitialiseNewStreamBuffer puc bytes1 trigger1 flags) (\<lambda>sb. Inr (Some sb))))))"

definition xStreamBufferGenericCreateStatic ::
    "u32 \<Rightarrow> u32 \<Rightarrow> bool \<Rightarrow> u8 list option \<Rightarrow> StreamBuffer_t option res" where
  "xStreamBufferGenericCreateStatic bytes trigger is_message storage =
     bindR (deref storage) (\<lambda>puc.
     bindR (assertR (trigger \<le> bytes)) (\<lambda>_.
     let trigger1 = (if trigger = 0 then 1 else trigger);
         flags = (if is_message then sbFLAGS_IS_MESSAGE_BUFFER OR sbFLAGS_IS_STATICALLY_ALLOCATED
                  else sbFLAGS_IS_STATICALLY_ALLOCATED) in
     bindR (assertR (sbBYTES_TO_STORE_MESSAGE_LENGTH < bytes)) (\<lambda>_.
     bindR (prvInitialiseNewStreamBuffer puc bytes trigger1 flags) (\<lambda>sb.
     Inr (Some (sb\<lparr>ucFlags := ucFlags sb OR sbFLAGS_IS_STATICALLY_ALLOCATED\<rparr>))))))"

definition xStreamBufferReset :: "StreamBuffer_t option \<Rightarrow> (bool \<times> StreamBuffer_t) res" where
  "xStreamBufferReset h =
     bindR (deref h) (\<lambda>sb.
     if xTaskWaitingToReceive sb = None \<and> xTaskWaitingToSend sb = None then
       bindR (prvInitialiseNewStreamBuffer (pucBuffer sb) (xLength sb) (xTriggerLevelBytes sb) (ucFlags sb)) (\<lambda>sb1.
       Inr (True, sb1\<lparr>uxStreamBufferNumber := uxStreamBufferNumber sb\<rparr>))
     else Inr (False, sb))"

definition xStreamBufferSetTriggerLevel :: "StreamBuffer_t option \<Rightarrow> u32 \<Rightarrow> (bool \<times> StreamBuffer_t) res" where
  "xStreamBufferSetTriggerLevel h level =
     bindR (deref h) (\<lambda>sb.
     let level1 = (if level = 0 then 1 else level) in
     Inr (if level1 \<le> xLength sb then (True, sb\<lparr>xTriggerLevelBytes := level1\<rparr>) else (False, sb)))"

text \<open>A static buffer is scrubbed so that later use fails an assertion; a dynamic one is given back.\<close>

definition vStreamBufferDelete :: "StreamBuffer_t option \<Rightarrow> StreamBuffer_t option res" where
  "vStreamBufferDelete h =
     bindR (deref h) (\<lambda>sb.
     if ucFlags sb AND sbFLAGS_IS_STATICALLY_ALLOCATED = 0 then Inr None
     else Inr (Some \<lparr>xTail = 0, xHead = 0, xLength = 0, xTriggerLevelBytes = 0,
       xTaskWaitingToReceive = None, xTaskWaitingToSend = None, pucBuffer = [], ucFlags = 0,
       uxStreamBufferNumber = 0\<rparr>))"

section \<open>Space and contents\<close>

definition prvBytesInBuffer :: "StreamBuffer_t \<Rightarrow> u32" where
  "prvBytesInBuffer sb =
     (let xCount = xLength sb + xHead sb - xTail sb in
      if xLength sb \<le> xCount then xCount - xLength sb else xCount)"

definition spaces_available :: "StreamBuffer_t \<Rightarrow> u32" where
  "spaces_available sb =
     (let xSpace = xLength sb + xTail sb - xHead sb - 1 in
      if xLength sb \<le> xSpace then xSpace - xLength sb else xSpace)"

definition xStreamBufferSpacesAvailable :: "StreamBuffer_t option \<Rightarrow> u32 res" where
  "xStreamBufferSpacesAvailable h = bindR (deref h) (\<lambda>sb. Inr (spaces_available sb))"

definition xStreamBufferBytesAvailable :: "StreamBuffer_t option \<Rightarrow> u32 res" where
  "xStreamBufferBytesAvailable h = bindR (deref h) (\<lambda>sb. Inr (prvBytesInBuffer sb))"

definition xStreamBufferIsEmpty :: "StreamBuffer_t option \<Rightarrow> bool res" where
  "xStreamBufferIsEmpty h = bindR (deref h) (\<lambda>sb. Inr (xHead sb = xTail sb))"

definition message_length_bytes :: "StreamBuffer_t \<Rightarrow> u32" where
  "message_length_bytes sb = (if is_message_buffer sb then sbBYTES_TO_STORE_MESSAGE_LENGTH else 0)"

definition xStreamBufferIsFull :: "StreamBuffer_t option \<Rightarrow> bool res" where
  "xStreamBufferIsFull h =
     bindR (deref h) (\<lambda>sb.
     bindR (xStreamBufferSpacesAvailable h) (\<lambda>xSpace. Inr (xSpace \<le> message_length_bytes sb)))"

section \<open>Copying bytes\<close>

definition prvWriteBytesToBuffer :: "u8 list \<Rightarrow> u32 \<Rightarrow> StreamBuffer_t \<Rightarrow> (u32 \<times> StreamBuffer_t) res" where
  "prvWriteBytesToBuffer pucData xCount sb =
     bindR (assertR (0 < xCount)) (\<lambda>_.
     let xNextHead = xHead sb; xFirstLength = min (xLength sb - xNextHead) xCount in
     bindR (assertR (xNextHead + xFirstLength \<le> xLength sb)) (\<lambda>_.
     bindR (mem_read pucData 0 (unat xFirstLength)) (\<lambda>xs.
     bindR (memcpy_to (pucBuffer sb) (unat xNextHead) xs) (\<lambda>buf1.
     bindR (if xFirstLength < xCount then
              bindR (assertR (xCount - xFirstLength \<le> xLength sb)) (\<lambda>_.
              bindR (mem_read pucData (unat xFirstLength) (unat (xCount - xFirstLength))) (\<lambda>ys.
              memcpy_to buf1 0 ys))
            else Inr buf1) (\<lambda>buf2.
     let xNextHead1 = xNextHead + xCount;
         xNextHead2 = (if xLength sb \<le> xNextHead1 then xNextHead1 - xLength sb else xNextHead1) in
     Inr (xCount, sb\<lparr>pucBuffer := buf2, xHead := xNextHead2\<rparr>))))))"

text \<open>The bytes copied to \<open>pucData\<close> and the buffer after it; their number is the result of the function.\<close>

definition prvReadBytesFromBuffer :: "u32 \<Rightarrow> u32 \<Rightarrow> StreamBuffer_t \<Rightarrow> (u8 list \<times> StreamBuffer_t) res" where
  "prvReadBytesFromBuffer xMaxCount xBytesAvailable sb =
     (let xCount = min xBytesAvailable xMaxCount in
      if 0 < xCount then
        let xNextTail = xTail sb; xFirstLength = min (xLength sb - xNextTail) xCount in
        bindR (assertR (xFirstLength \<le> xMaxCount)) (\<lambda>_.
        bindR (assertR (xNextTail + xFirstLength \<le> xLength sb)) (\<lambda>_.
        bindR (mem_read (pucBuffer sb) (unat xNextTail) (unat xFirstLength)) (\<lambda>xs.
        bindR (if xFirstLength < xCount then
                 bindR (assertR (xCount \<le> xMaxCount)) (\<lambda>_.
                 mem_read (pucBuffer sb) 0 (unat (xCount - xFirstLength)))
               else Inr []) (\<lambda>ys.
        let xNextTail1 = xNextTail + xCount;
            xNextTail2 = (if xLength sb \<le> xNextTail1 then xNextTail1 - xLength sb else xNextTail1) in
        Inr (xs @ ys, sb\<lparr>xTail := xNextTail2\<rparr>)))))
      else Inr ([], sb))"

text \<open>A length word in memory, low byte first.\<close>

definition le32 :: "u32 \<Rightarrow> u8 list" where
  "le32 w = [ucast w, ucast (drop_bit 8 w), ucast (drop_bit 16 w), ucast (drop_bit 24 w)]"

definition of_le32 :: "u8 list \<Rightarrow> u32" where
  "of_le32 xs = ucast (xs ! 0) OR push_bit 8 (ucast (xs ! 1)) OR push_bit 16 (ucast (xs ! 2)) OR
     push_bit 24 (ucast (xs ! 3))"

definition prvWriteMessageToBuffer ::
    "u8 list \<Rightarrow> u32 \<Rightarrow> u32 \<Rightarrow> u32 \<Rightarrow> StreamBuffer_t \<Rightarrow> (u32 \<times> StreamBuffer_t) res" where
  "prvWriteMessageToBuffer pvTxData xDataLengthBytes xSpace xRequiredSpace sb =
     (if xSpace = 0 then Inr (0, sb)
      else if \<not> is_message_buffer sb then prvWriteBytesToBuffer pvTxData (min xDataLengthBytes xSpace) sb
      else if xRequiredSpace \<le> xSpace then
        bindR (prvWriteBytesToBuffer (le32 xDataLengthBytes) sbBYTES_TO_STORE_MESSAGE_LENGTH sb) (\<lambda>(_, sb1).
        prvWriteBytesToBuffer pvTxData xDataLengthBytes sb1)
      else Inr (0, sb))"

definition prvReadMessageFromBuffer ::
    "u32 \<Rightarrow> u32 \<Rightarrow> u32 \<Rightarrow> StreamBuffer_t \<Rightarrow> (u8 list \<times> StreamBuffer_t) res" where
  "prvReadMessageFromBuffer xBufferLengthBytes xBytesAvailable xBytesToStoreMessageLength sb =
     (if xBytesToStoreMessageLength \<noteq> 0 then
        let xOriginalTail = xTail sb in
        bindR (prvReadBytesFromBuffer xBytesToStoreMessageLength xBytesAvailable sb) (\<lambda>(lb, sb1).
        let xNextMessageLength = of_le32 lb;
            xBytesAvailable1 = xBytesAvailable - xBytesToStoreMessageLength in
        if xBufferLengthBytes < xNextMessageLength
        then prvReadBytesFromBuffer 0 xBytesAvailable1 (sb1\<lparr>xTail := xOriginalTail\<rparr>)
        else prvReadBytesFromBuffer xNextMessageLength xBytesAvailable1 sb1)
      else prvReadBytesFromBuffer xBufferLengthBytes xBytesAvailable sb)"

definition xStreamBufferNextMessageLengthBytes :: "StreamBuffer_t option \<Rightarrow> u32 res" where
  "xStreamBufferNextMessageLengthBytes h =
     bindR (deref h) (\<lambda>sb.
     if is_message_buffer sb then
       let xBytesAvailable = prvBytesInBuffer sb in
       if sbBYTES_TO_STORE_MESSAGE_LENGTH < xBytesAvailable then
         bindR (prvReadBytesFromBuffer sbBYTES_TO_STORE_MESSAGE_LENGTH xBytesAvailable sb) (\<lambda>(lb, _).
         Inr (of_le32 lb))
       else bindR (assertR (xBytesAvailable = 0)) (\<lambda>_. Inr 0)
     else Inr 0)"

end
