(* ===== verification/StreamIPC.thy ===== *)
theory StreamIPC
  imports StreamBuffer
begin

text \<open>
  Sending to and receiving from a stream buffer, stream_buffer.c, with the notifications that wake
  the other side. Code a blocking call runs in a critical section or between two points where
  another task or an interrupt can run is one definition: \<open>..._enter\<close> is the critical section that
  looks at the buffer, the wait is \<open>xTaskNotifyWait\<close> of the kernel, \<open>..._leave\<close> and \<open>..._finish\<close> are
  the code after it.
\<close>

section \<open>Time-outs of tasks.c\<close>

record TimeOut_t =
  xOverflowCount :: nat
  xTimeOnEntering :: u32

definition vTaskSetTimeOutState :: "kernel \<Rightarrow> TimeOut_t" where
  "vTaskSetTimeOutState k = \<lparr>xOverflowCount = xNumOfOverflows k, xTimeOnEntering = xTickCount k\<rparr>"

text \<open>Whether the time is over, the new time-out record and the ticks left.\<close>

definition xTaskCheckForTimeOut :: "TimeOut_t \<Rightarrow> u32 \<Rightarrow> kernel \<Rightarrow> bool \<times> TimeOut_t \<times> u32" where
  "xTaskCheckForTimeOut to xTicksToWait k =
     (let xElapsedTime = xTickCount k - xTimeOnEntering to in
      if xTicksToWait = portMAX_DELAY then (False, to, xTicksToWait)
      else if xNumOfOverflows k \<noteq> xOverflowCount to \<and> xTimeOnEntering to \<le> xTickCount k
      then (True, to, xTicksToWait)
      else if xElapsedTime < xTicksToWait
      then (False, vTaskSetTimeOutState k, xTicksToWait - xElapsedTime)
      else (True, to, 0))"

section \<open>Waking the other side\<close>

text \<open>\<open>xTaskNotify( t, 0, eNoAction )\<close> inside the suspended scheduler: the exit of its critical section
  lets a pending switch run, which only latches \<open>xYieldPending\<close>.\<close>

definition notify_suspended :: "task \<Rightarrow> kernel \<Rightarrow> kernel res" where
  "notify_suspended t k =
     bindR (xTaskGenericNotify (Some t) 0 eNoAction k) (\<lambda>(_, _, k1). take_pendsv k1)"

definition sbSEND_COMPLETED :: "StreamBuffer_t \<Rightarrow> kernel \<Rightarrow> (StreamBuffer_t \<times> kernel) res" where
  "sbSEND_COMPLETED sb k =
     bindR (case xTaskWaitingToReceive sb of
              None \<Rightarrow> Inr (vTaskSuspendAll k) | Some t \<Rightarrow> notify_suspended t (vTaskSuspendAll k)) (\<lambda>k1.
     bindR (xTaskResumeAll k1) (\<lambda>(_, k2). Inr (sb\<lparr>xTaskWaitingToReceive := None\<rparr>, k2)))"

definition sbRECEIVE_COMPLETED :: "StreamBuffer_t \<Rightarrow> kernel \<Rightarrow> (StreamBuffer_t \<times> kernel) res" where
  "sbRECEIVE_COMPLETED sb k =
     bindR (case xTaskWaitingToSend sb of
              None \<Rightarrow> Inr (vTaskSuspendAll k) | Some t \<Rightarrow> notify_suspended t (vTaskSuspendAll k)) (\<lambda>k1.
     bindR (xTaskResumeAll k1) (\<lambda>(_, k2). Inr (sb\<lparr>xTaskWaitingToSend := None\<rparr>, k2)))"

text \<open>From an interrupt; \<open>woken\<close> is \<open>*pxHigherPriorityTaskWoken\<close>.\<close>

definition notify_waiting_isr ::
    "task option \<Rightarrow> bool \<Rightarrow> kernel \<Rightarrow> (bool \<times> kernel) res" where
  "notify_waiting_isr w woken k =
     (case w of
        None \<Rightarrow> Inr (woken, k)
      | Some t \<Rightarrow> bindR (xTaskGenericNotifyFromISR (Some t) 0 eNoAction woken k) (\<lambda>(_, _, wo, k1). Inr (wo, k1)))"

definition sbSEND_COMPLETE_FROM_ISR ::
    "StreamBuffer_t \<Rightarrow> bool \<Rightarrow> kernel \<Rightarrow> (StreamBuffer_t \<times> bool \<times> kernel) res" where
  "sbSEND_COMPLETE_FROM_ISR sb woken k =
     bindR (notify_waiting_isr (xTaskWaitingToReceive sb) woken k) (\<lambda>(wo, k1).
     Inr (sb\<lparr>xTaskWaitingToReceive := None\<rparr>, wo, k1))"

definition sbRECEIVE_COMPLETED_FROM_ISR ::
    "StreamBuffer_t \<Rightarrow> bool \<Rightarrow> kernel \<Rightarrow> (StreamBuffer_t \<times> bool \<times> kernel) res" where
  "sbRECEIVE_COMPLETED_FROM_ISR sb woken k =
     bindR (notify_waiting_isr (xTaskWaitingToSend sb) woken k) (\<lambda>(wo, k1).
     Inr (sb\<lparr>xTaskWaitingToSend := None\<rparr>, wo, k1))"

definition xStreamBufferSendCompletedFromISR ::
    "StreamBuffer_t option \<Rightarrow> bool \<Rightarrow> kernel \<Rightarrow> (bool \<times> StreamBuffer_t \<times> bool \<times> kernel) res" where
  "xStreamBufferSendCompletedFromISR h woken k =
     bindR (deref h) (\<lambda>sb.
     bindR (sbSEND_COMPLETE_FROM_ISR sb woken k) (\<lambda>(sb1, wo, k1).
     Inr (xTaskWaitingToReceive sb \<noteq> None, sb1, wo, k1)))"

definition xStreamBufferReceiveCompletedFromISR ::
    "StreamBuffer_t option \<Rightarrow> bool \<Rightarrow> kernel \<Rightarrow> (bool \<times> StreamBuffer_t \<times> bool \<times> kernel) res" where
  "xStreamBufferReceiveCompletedFromISR h woken k =
     bindR (deref h) (\<lambda>sb.
     bindR (sbRECEIVE_COMPLETED_FROM_ISR sb woken k) (\<lambda>(sb1, wo, k1).
     Inr (xTaskWaitingToSend sb \<noteq> None, sb1, wo, k1)))"

section \<open>Sending\<close>

definition required_space :: "StreamBuffer_t \<Rightarrow> u32 \<Rightarrow> u32" where
  "required_space sb n = n + message_length_bytes sb"

definition xStreamBufferSendFromISR ::
    "StreamBuffer_t option \<Rightarrow> u8 list \<Rightarrow> u32 \<Rightarrow> bool \<Rightarrow> kernel \<Rightarrow> (u32 \<times> StreamBuffer_t \<times> bool \<times> kernel) res" where
  "xStreamBufferSendFromISR h pvTxData xDataLengthBytes woken k =
     bindR (deref h) (\<lambda>sb.
     bindR (prvWriteMessageToBuffer pvTxData xDataLengthBytes (spaces_available sb)
              (required_space sb xDataLengthBytes) sb) (\<lambda>(xReturn, sb1).
     if 0 < xReturn \<and> xTriggerLevelBytes sb1 \<le> prvBytesInBuffer sb1 then
       bindR (sbSEND_COMPLETE_FROM_ISR sb1 woken k) (\<lambda>(sb2, wo, k1). Inr (xReturn, sb2, wo, k1))
     else Inr (xReturn, sb1, woken, k)))"

text \<open>\<open>xStreamBufferSend\<close>: the checks at its start, the critical section of its loop (the space seen, and
  whether the task goes to wait), the end of the loop body (whether the loop goes on), and the rest.\<close>

definition xStreamBufferSend_start :: "StreamBuffer_t option \<Rightarrow> u32 \<Rightarrow> u32 res" where
  "xStreamBufferSend_start h xDataLengthBytes =
     bindR (deref h) (\<lambda>sb.
     let xRequiredSpace = required_space sb xDataLengthBytes in
     bindR (assertR (is_message_buffer sb \<longrightarrow> xDataLengthBytes < xRequiredSpace)) (\<lambda>_. Inr xRequiredSpace))"

definition xStreamBufferSend_enter ::
    "StreamBuffer_t option \<Rightarrow> u32 \<Rightarrow> kernel \<Rightarrow> (u32 \<times> bool \<times> StreamBuffer_t \<times> kernel) res" where
  "xStreamBufferSend_enter h xRequiredSpace k =
     bindR (deref h) (\<lambda>sb.
     let xSpace = spaces_available sb in
     if xSpace < xRequiredSpace then
       bindR (xTaskNotifyStateClear None k) (\<lambda>(_, k1).
       bindR (assertR (xTaskWaitingToSend sb = None)) (\<lambda>_.
       Inr (xSpace, True, sb\<lparr>xTaskWaitingToSend := pxCurrentTCB k1\<rparr>, k1)))
     else Inr (xSpace, False, sb, k))"

definition xStreamBufferSend_leave ::
    "StreamBuffer_t option \<Rightarrow> TimeOut_t \<Rightarrow> u32 \<Rightarrow> kernel \<Rightarrow> (bool \<times> TimeOut_t \<times> u32 \<times> StreamBuffer_t \<times> kernel) res" where
  "xStreamBufferSend_leave h to xTicksToWait k =
     bindR (deref h) (\<lambda>sb.
     bindR (xTaskNotifyWait_wake 0 k) (\<lambda>(_, _, k1).
     let (over, to1, ticks1) = xTaskCheckForTimeOut to xTicksToWait k1 in
     Inr (\<not> over, to1, ticks1, sb\<lparr>xTaskWaitingToSend := None\<rparr>, k1)))"

definition xStreamBufferSend_finish ::
    "StreamBuffer_t option \<Rightarrow> u8 list \<Rightarrow> u32 \<Rightarrow> u32 \<Rightarrow> u32 \<Rightarrow> kernel \<Rightarrow> (u32 \<times> StreamBuffer_t \<times> kernel) res" where
  "xStreamBufferSend_finish h pvTxData xDataLengthBytes xSpace xRequiredSpace k =
     bindR (deref h) (\<lambda>sb.
     let xSpace1 = (if xSpace = 0 then spaces_available sb else xSpace) in
     bindR (prvWriteMessageToBuffer pvTxData xDataLengthBytes xSpace1 xRequiredSpace sb) (\<lambda>(xReturn, sb1).
     if 0 < xReturn \<and> xTriggerLevelBytes sb1 \<le> prvBytesInBuffer sb1 then
       bindR (sbSEND_COMPLETED sb1 k) (\<lambda>(sb2, k1). Inr (xReturn, sb2, k1))
     else Inr (xReturn, sb1, k)))"

section \<open>Receiving\<close>

text \<open>The critical section of \<open>xStreamBufferReceive\<close>: the bytes seen, and whether the task goes to wait.\<close>

definition xStreamBufferReceive_enter ::
    "StreamBuffer_t option \<Rightarrow> u32 \<Rightarrow> kernel \<Rightarrow> (u32 \<times> bool \<times> StreamBuffer_t \<times> kernel) res" where
  "xStreamBufferReceive_enter h xTicksToWait k =
     bindR (deref h) (\<lambda>sb.
     let xBytesAvailable = prvBytesInBuffer sb in
     if xTicksToWait \<noteq> 0 \<and> xBytesAvailable \<le> message_length_bytes sb then
       bindR (xTaskNotifyStateClear None k) (\<lambda>(_, k1).
       bindR (assertR (xTaskWaitingToReceive sb = None)) (\<lambda>_.
       Inr (xBytesAvailable, True, sb\<lparr>xTaskWaitingToReceive := pxCurrentTCB k1\<rparr>, k1)))
     else Inr (xBytesAvailable, False, sb, k))"

text \<open>After the wait: what is there now.\<close>

definition xStreamBufferReceive_leave ::
    "StreamBuffer_t option \<Rightarrow> kernel \<Rightarrow> (u32 \<times> StreamBuffer_t \<times> kernel) res" where
  "xStreamBufferReceive_leave h k =
     bindR (deref h) (\<lambda>sb.
     bindR (xTaskNotifyWait_wake 0 k) (\<lambda>(_, _, k1).
     let sb1 = sb\<lparr>xTaskWaitingToReceive := None\<rparr> in Inr (prvBytesInBuffer sb1, sb1, k1)))"

definition xStreamBufferReceive_finish ::
    "StreamBuffer_t option \<Rightarrow> u32 \<Rightarrow> u32 \<Rightarrow> kernel \<Rightarrow> (u8 list \<times> StreamBuffer_t \<times> kernel) res" where
  "xStreamBufferReceive_finish h xBufferLengthBytes xBytesAvailable k =
     bindR (deref h) (\<lambda>sb.
     if message_length_bytes sb < xBytesAvailable then
       bindR (prvReadMessageFromBuffer xBufferLengthBytes xBytesAvailable (message_length_bytes sb) sb)
         (\<lambda>(bytes, sb1).
       if bytes \<noteq> [] then bindR (sbRECEIVE_COMPLETED sb1 k) (\<lambda>(sb2, k1). Inr (bytes, sb2, k1))
       else Inr (bytes, sb1, k))
     else Inr ([], sb, k))"

definition xStreamBufferReceiveFromISR ::
    "StreamBuffer_t option \<Rightarrow> u32 \<Rightarrow> bool \<Rightarrow> kernel \<Rightarrow> (u8 list \<times> StreamBuffer_t \<times> bool \<times> kernel) res" where
  "xStreamBufferReceiveFromISR h xBufferLengthBytes woken k =
     bindR (deref h) (\<lambda>sb.
     let xBytesAvailable = prvBytesInBuffer sb in
     if message_length_bytes sb < xBytesAvailable then
       bindR (prvReadMessageFromBuffer xBufferLengthBytes xBytesAvailable (message_length_bytes sb) sb)
         (\<lambda>(bytes, sb1).
       if bytes \<noteq> [] then
         bindR (sbRECEIVE_COMPLETED_FROM_ISR sb1 woken k) (\<lambda>(sb2, wo, k1). Inr (bytes, sb2, wo, k1))
       else Inr (bytes, sb1, woken, k))
     else Inr ([], sb, woken, k))"

end
