(* ===== verification/Crc8.thy ===== *)
theory Crc8
  imports Prelude
begin

text \<open>
  The checksum of the protocol, \<open>calc_crc8\<close> of ASW/inc/BKEL_APP_crc.h: the bit-serial
  loop as the code has it, and the facts that make it a CRC. \<open>crc_poly\<close> states it as the
  remainder of the message polynomial by \<open>x^8 + x^2 + x + 1\<close> over GF(2), polynomials being
  integers read in binary.
\<close>

section \<open>The code\<close>

definition CRC8_POLY :: u8 where
  "CRC8_POLY = 0x07"

definition crc8_bit :: "u8 \<Rightarrow> u8" where
  "crc8_bit crc =
     (if crc AND 0x80 \<noteq> 0 then push_bit 1 crc XOR CRC8_POLY else push_bit 1 crc)"

definition crc8_byte :: "u8 \<Rightarrow> u8 \<Rightarrow> u8" where
  "crc8_byte crc d = (crc8_bit ^^ 8) (crc XOR d)"

definition calc_crc8 :: "u8 list \<Rightarrow> u8" where
  "calc_crc8 bytes = foldl crc8_byte 0 bytes"

section \<open>Linearity\<close>

lemma msb_test: "(c :: u8) AND 0x80 \<noteq> 0 \<longleftrightarrow> bit c 7"
proof -
  have "c AND push_bit 7 1 = (if bit c 7 then push_bit 7 1 else 0)"
  proof (rule bit_word_eqI)
    fix n :: nat
    assume "n < LENGTH(8)"
    then show "bit (c AND push_bit 7 1) n = bit (if bit c 7 then push_bit 7 1 else 0 :: u8) n"
      by (cases "n = 7") (auto simp del: push_bit_of_1 simp: bit_simps)
  qed
  then show ?thesis by simp
qed

lemma crc8_bit_alt: "crc8_bit c = push_bit 1 c XOR (if bit c 7 then CRC8_POLY else 0)"
  by (simp add: crc8_bit_def msb_test)

lemma crc8_bit_0 [simp]: "crc8_bit 0 = 0"
  by (simp add: crc8_bit_alt)

lemma crc8_bit_xor: "crc8_bit (a XOR b) = crc8_bit a XOR crc8_bit b"
  by (simp add: crc8_bit_alt bit_simps push_bit_xor xor.assoc xor.left_commute xor.commute)

lemma crc8_bits_0 [simp]: "(crc8_bit ^^ n) 0 = 0"
  by (induction n) simp_all

lemma crc8_bits_xor: "(crc8_bit ^^ n) (a XOR b) = (crc8_bit ^^ n) a XOR (crc8_bit ^^ n) b"
  by (induction n) (simp_all add: crc8_bit_xor)

lemma crc8_bit_eq_0: "crc8_bit a = 0 \<Longrightarrow> a = 0"
proof -
  assume z: "crc8_bit a = 0"
  have "bit (crc8_bit a) 0 = bit a 7"
    by (simp add: crc8_bit_alt CRC8_POLY_def bit_0 even_xor_iff)
  then have no7: "\<not> bit a 7" using z by simp
  then have sh: "push_bit 1 a = 0" using z by (simp add: crc8_bit_alt)
  have "\<not> bit a n" for n
  proof (cases "n < 7")
    case True
    have "bit (push_bit 1 a) (Suc n) = bit a n"
      using True by (simp only: bit_push_bit_iff) simp
    then show ?thesis using sh by simp
  next
    case False
    then show ?thesis using no7 by (cases "n = 7") simp_all
  qed
  then show "a = 0" by (intro bit_word_eqI) simp
qed

lemma crc8_bits_eq_0: "(crc8_bit ^^ n) a = 0 \<Longrightarrow> a = 0"
  by (induction n) (auto dest: crc8_bit_eq_0)

lemma crc8_bits_inj: "(crc8_bit ^^ n) a = (crc8_bit ^^ n) b \<longleftrightarrow> a = b"
  using crc8_bits_eq_0 [of n "a XOR b"] by (auto simp: crc8_bits_xor)

lemma crc8_byte_inj_data [simp]: "crc8_byte c d = crc8_byte c d' \<longleftrightarrow> d = d'"
  by (simp add: crc8_byte_def crc8_bits_inj)

lemma crc8_byte_inj_crc [simp]: "crc8_byte c d = crc8_byte c' d \<longleftrightarrow> c = c'"
  by (simp add: crc8_byte_def crc8_bits_inj)

lemma crc8_byte_self [simp]: "crc8_byte c c = 0"
  by (simp add: crc8_byte_def)

lemma calc_crc8_Nil [simp]: "calc_crc8 [] = 0"
  by (simp add: calc_crc8_def)

lemma calc_crc8_snoc: "calc_crc8 (xs @ [d]) = crc8_byte (calc_crc8 xs) d"
  by (simp add: calc_crc8_def)

lemma calc_crc8_append: "calc_crc8 (xs @ ys) = foldl crc8_byte (calc_crc8 xs) ys"
  by (simp add: calc_crc8_def)

lemma crc8_fold_inj: "foldl crc8_byte c ys = foldl crc8_byte c' ys \<longleftrightarrow> c = c'"
  by (induction ys arbitrary: c c') simp_all

section \<open>The checksum as a remainder of polynomials\<close>

definition poly_mult :: "int \<Rightarrow> int" where
  "poly_mult q = push_bit 8 q XOR push_bit 2 q XOR push_bit 1 q XOR q"

definition poly_msg :: "u8 list \<Rightarrow> int" where
  "poly_msg bytes = foldl (\<lambda>m d. push_bit 8 m XOR uint d) 0 bytes"

lemma poly_mult_0 [simp]: "poly_mult 0 = 0"
  by (simp add: poly_mult_def)

lemma poly_mult_xor: "poly_mult (a XOR b) = poly_mult a XOR poly_mult b"
  unfolding poly_mult_def push_bit_xor
  by (simp only: xor.assoc xor.left_commute xor.commute)

lemma poly_mult_push: "poly_mult (push_bit n a) = push_bit n (poly_mult a)"
  by (simp only: poly_mult_def push_bit_xor push_bit_push_bit add.commute)

lemma bit_poly_mult:
  "bit (poly_mult q) n \<longleftrightarrow>
     ((8 \<le> n \<and> bit q (n - 8)) \<noteq> (2 \<le> n \<and> bit q (n - 2))) \<noteq>
     ((1 \<le> n \<and> bit q (n - 1)) \<noteq> bit q n)"
  unfolding poly_mult_def by (simp only: bit_xor_iff bit_push_bit_iff possible_bit_int) blast

lemma poly_msg_snoc: "poly_msg (xs @ [d]) = push_bit 8 (poly_msg xs) XOR uint d"
  by (simp add: poly_msg_def)

lemma poly_msg_nonneg: "0 \<le> poly_msg xs"
  by (induction xs rule: rev_induct) (simp_all add: poly_msg_snoc, simp add: poly_msg_def)

lemma bit_CRC8_POLY: "bit CRC8_POLY n \<longleftrightarrow> n < 3"
proof -
  have "CRC8_POLY = mask 3" by (simp add: CRC8_POLY_def mask_eq_exp_minus_1)
  then have "bit CRC8_POLY n \<longleftrightarrow> bit (mask 3 :: u8) n" by (simp only:)
  also have "\<dots> \<longleftrightarrow> n < 3" by (simp only: bit_mask_iff possible_bit_word) auto
  finally show ?thesis .
qed

lemma bit_crc8_bit:
  "n < 8 \<Longrightarrow> bit (crc8_bit c) n \<longleftrightarrow> (1 \<le> n \<and> bit c (n - 1)) \<noteq> (bit c 7 \<and> n < 3)"
  unfolding crc8_bit_alt by (simp only: bit_xor_iff bit_push_bit_iff) (simp add: bit_CRC8_POLY)

lemma uint_crc8_bit:
  "push_bit 1 (uint c) = poly_mult (if bit c 7 then 1 else 0) XOR uint (crc8_bit c)"
proof (rule bit_eqI)
  fix n :: nat
  consider "n < 8" | "n = 8" | "8 < n" by linarith
  then show "bit (push_bit 1 (uint c)) n =
      bit (poly_mult (if bit c 7 then 1 else 0) XOR uint (crc8_bit c)) n"
  proof cases
    case 1
    then show ?thesis
      by (simp only: bit_push_bit_iff bit_xor_iff bit_uint_iff bit_crc8_bit bit_poly_mult)
        (auto simp: bit_1_iff)
  next
    case 2
    then show ?thesis
      by (simp only: bit_push_bit_iff bit_xor_iff bit_uint_iff bit_poly_mult)
        (auto simp: bit_1_iff)
  next
    case 3
    then show ?thesis
      by (simp only: bit_push_bit_iff bit_xor_iff bit_uint_iff bit_poly_mult)
        (auto simp: bit_1_iff)
  qed
qed

lemma crc8_bits_rem:
  "\<exists>q. 0 \<le> q \<and> push_bit n (uint c) = poly_mult q XOR uint ((crc8_bit ^^ n) c)"
proof (induction n)
  case 0
  show ?case by (rule exI [of _ 0]) simp
next
  case (Suc n)
  then obtain q where q: "0 \<le> q" "push_bit n (uint c) = poly_mult q XOR uint ((crc8_bit ^^ n) c)"
    by blast
  let ?r = "(crc8_bit ^^ n) c"
  let ?b = "if bit ?r 7 then 1 else 0 :: int"
  have "push_bit (Suc n) (uint c) = push_bit 1 (push_bit n (uint c))"
    by (simp only: push_bit_push_bit) simp
  also have "\<dots> = poly_mult (push_bit 1 q) XOR push_bit 1 (uint ?r)"
    by (simp only: q(2) push_bit_xor poly_mult_push)
  also have "\<dots> = poly_mult (push_bit 1 q XOR ?b) XOR uint (crc8_bit ?r)"
    by (simp only: uint_crc8_bit poly_mult_xor xor.assoc)
  finally have "push_bit (Suc n) (uint c) = poly_mult (push_bit 1 q XOR ?b) XOR uint ((crc8_bit ^^ Suc n) c)"
    by simp
  moreover have "0 \<le> push_bit 1 q XOR ?b" using q(1) by simp
  ultimately show ?case by blast
qed

lemma crc8_rem:
  "\<exists>q. 0 \<le> q \<and> push_bit 8 (poly_msg xs) = poly_mult q XOR uint (calc_crc8 xs)"
proof (induction xs rule: rev_induct)
  case Nil
  show ?case by (rule exI [of _ 0]) (simp add: poly_msg_def)
next
  case (snoc d xs)
  then obtain q where q: "0 \<le> q" "push_bit 8 (poly_msg xs) = poly_mult q XOR uint (calc_crc8 xs)"
    by blast
  obtain p where p: "0 \<le> p"
      "push_bit 8 (uint (calc_crc8 xs XOR d)) = poly_mult p XOR uint (calc_crc8 (xs @ [d]))"
    using crc8_bits_rem [of 8 "calc_crc8 xs XOR d"]
    by (auto simp: calc_crc8_snoc crc8_byte_def)
  have "push_bit 8 (poly_msg (xs @ [d])) =
      push_bit 8 (poly_mult q) XOR push_bit 8 (uint (calc_crc8 xs XOR d))"
    by (simp only: poly_msg_snoc q(2) push_bit_xor unsigned_xor_eq xor.assoc)
  also have "\<dots> = poly_mult (push_bit 8 q XOR p) XOR uint (calc_crc8 (xs @ [d]))"
    by (simp only: p(2) poly_mult_push poly_mult_xor xor.assoc)
  finally show ?case
    using q(1) p(1) by (intro exI [of _ "push_bit 8 q XOR p"]) simp
qed

text \<open>A multiple of the polynomial below \<open>x^8\<close> is zero: the top bit of \<open>q\<close> reappears.\<close>

lemma poly_mult_small:
  assumes "0 \<le> q" and "poly_mult q = uint (r :: u8)"
  shows "q = 0 \<and> r = 0"
proof (rule ccontr)
  assume "\<not> (q = 0 \<and> r = 0)"
  then have "q \<noteq> 0" using assms(2) by (auto simp: uint_0_iff)
  then have ne: "{n. bit q n} \<noteq> {}" by (auto simp: bit_eq_iff)
  have fin: "finite {n. bit q n}"
  proof (rule finite_subset)
    have "n \<le> nat q" if "bit q n" for n
    proof -
      from that have "q div 2 ^ n \<noteq> 0" by (auto simp: bit_iff_odd)
      then have "2 ^ n \<le> q" using assms(1) div_pos_pos_trivial [of q "2 ^ n"] by linarith
      moreover have "int n < int (2 ^ n)" by (simp only: of_nat_less_iff less_exp)
      then have "int n < 2 ^ n" by (simp only: of_nat_power of_nat_numeral)
      ultimately have "int n < q" by linarith
      then show ?thesis by simp
    qed
    then show "{n. bit q n} \<subseteq> {..nat q}" by auto
  qed simp
  define k where "k = Max {n. bit q n}"
  have k: "bit q k" using Max_in [OF fin ne] by (simp add: k_def)
  have above: "\<not> bit q n" if "k < n" for n
    using that Max_ge [OF fin, of n] by (auto simp: k_def)
  have "bit (poly_mult q) (k + 8)"
    using k above by (simp add: bit_poly_mult)
  moreover have "\<not> bit (uint r) (k + 8)" by (simp add: bit_uint_iff)
  ultimately show False using assms(2) by simp
qed

lemma poly_mult_push_cancel:
  assumes "0 \<le> q" and "push_bit k b = poly_mult q"
  shows "\<exists>p. 0 \<le> p \<and> b = poly_mult p"
  using assms
proof (induction k arbitrary: q)
  case 0
  then show ?case by auto
next
  case (Suc k)
  have "bit (poly_mult q) 0 \<longleftrightarrow> bit q 0" by (simp only: bit_poly_mult) simp
  moreover have "\<not> bit (push_bit (Suc k) b) 0" by (simp only: bit_push_bit_iff) simp
  ultimately have "\<not> bit q 0" using Suc.prems(2) by simp
  then have q: "q = push_bit 1 (q div 2)" by (simp add: bit_0)
  have "push_bit 1 (push_bit k b) = push_bit 1 (poly_mult (q div 2))"
    using Suc.prems(2) q by (simp only: push_bit_push_bit poly_mult_push [symmetric]) simp
  then have "push_bit k b = poly_mult (q div 2)" by (simp add: push_bit_eq_mult)
  then show ?case using Suc.IH [of "q div 2"] Suc.prems(1) by simp
qed

text \<open>Messages that differ by an error pattern whose remainder is not zero have different checksums.\<close>

lemma crc8_equal_multiple:
  assumes "calc_crc8 xs = calc_crc8 ys"
  shows "\<exists>q. 0 \<le> q \<and> push_bit 8 (poly_msg xs XOR poly_msg ys) = poly_mult q"
proof -
  obtain p where p: "0 \<le> p" "push_bit 8 (poly_msg xs) = poly_mult p XOR uint (calc_crc8 xs)"
    using crc8_rem by blast
  obtain q where q: "0 \<le> q" "push_bit 8 (poly_msg ys) = poly_mult q XOR uint (calc_crc8 ys)"
    using crc8_rem by blast
  have "push_bit 8 (poly_msg xs XOR poly_msg ys) = poly_mult (p XOR q)"
    unfolding push_bit_xor p(2) q(2) poly_mult_xor assms
    by (rule bit_eqI) (auto simp: bit_simps)
  then show ?thesis using p(1) q(1) by (intro exI [of _ "p XOR q"]) simp
qed

lemma crc8_error_remainder:
  assumes "poly_msg xs XOR poly_msg ys = push_bit k e"
    and "0 \<le> p" "e = poly_mult p XOR uint (r :: u8)" "r \<noteq> 0"
  shows "calc_crc8 xs \<noteq> calc_crc8 ys"
proof
  assume "calc_crc8 xs = calc_crc8 ys"
  then obtain q where "0 \<le> q" "push_bit (8 + k) e = poly_mult q"
    using crc8_equal_multiple [of xs ys] assms(1) by (auto simp: push_bit_push_bit)
  then obtain q' where q': "0 \<le> q'" "e = poly_mult q'"
    using poly_mult_push_cancel by blast
  have "poly_mult (p XOR q') = uint r"
    unfolding poly_mult_xor q'(2) [symmetric] assms(3)
    by (rule bit_eqI) (auto simp: bit_simps)
  then show False using poly_mult_small [of "p XOR q'" r] assms(2,4) q'(1) by simp
qed

fun orbit_avoids_1 :: "nat \<Rightarrow> u8 \<Rightarrow> bool" where
  "orbit_avoids_1 0 c = True"
| "orbit_avoids_1 (Suc n) c = (c \<noteq> 1 \<and> orbit_avoids_1 n (crc8_bit c))"

lemma orbit_avoids_1D: "orbit_avoids_1 n c \<Longrightarrow> d < n \<Longrightarrow> (crc8_bit ^^ d) c \<noteq> 1"
proof (induction d arbitrary: n c)
  case 0
  then show ?case by (cases n) auto
next
  case (Suc d)
  then obtain m where m: "n = Suc m" by (cases n) auto
  then have "(crc8_bit ^^ d) (crc8_bit c) \<noteq> 1"
    using Suc.IH [of m "crc8_bit c"] Suc.prems by simp
  then show ?case by (simp only: funpow_Suc_right comp_def) simp
qed

lemma orbit_avoids_1_numeral:
  "orbit_avoids_1 (numeral k) c \<longleftrightarrow> c \<noteq> 1 \<and> orbit_avoids_1 (pred_numeral k) (crc8_bit c)"
  by (simp add: numeral_eq_Suc)

lemma orbit_of_x: "orbit_avoids_1 126 2"
  by (simp add: orbit_avoids_1_numeral crc8_bit_def CRC8_POLY_def)

lemma crc8_x_order:
  assumes "0 < d" and "d < 127"
  shows "(crc8_bit ^^ d) 1 \<noteq> 1"
proof -
  from assms obtain m where m: "d = Suc m" "m < 126" by (cases d) auto
  have "crc8_bit 1 = 2" by (simp add: crc8_bit_def)
  then show ?thesis
    using orbit_avoids_1D [OF orbit_of_x m(2)] by (simp only: m(1) funpow_Suc_right comp_def) simp
qed

text \<open>Rules that evaluate the checksum of a literal message.\<close>

lemma crc8_bits_8:
  "(crc8_bit ^^ 8) c =
     crc8_bit (crc8_bit (crc8_bit (crc8_bit (crc8_bit (crc8_bit (crc8_bit (crc8_bit c)))))))"
  by (simp add: numeral_eq_Suc)

lemmas crc_eval = calc_crc8_def crc8_byte_def crc8_bits_8 crc8_bit_def CRC8_POLY_def

section \<open>Properties\<close>

text \<open>C16: the loop of \<open>calc_crc8\<close> computes the CRC: the checksum of a message is the one
  remainder of its polynomial, shifted by eight bits, on division by
  \<open>x^8 + x^2 + x + 1\<close> over GF(2).\<close>

theorem crc8_is_remainder:
  "(\<exists>q. 0 \<le> q \<and> push_bit 8 (poly_msg xs) = poly_mult q XOR uint r) \<longleftrightarrow> r = calc_crc8 xs"
proof
  assume "\<exists>q. 0 \<le> q \<and> push_bit 8 (poly_msg xs) = poly_mult q XOR uint r"
  then obtain q where q: "0 \<le> q" "push_bit 8 (poly_msg xs) = poly_mult q XOR uint r" by blast
  obtain p where p: "0 \<le> p" "push_bit 8 (poly_msg xs) = poly_mult p XOR uint (calc_crc8 xs)"
    using crc8_rem by blast
  have eq: "poly_mult q XOR uint r = poly_mult p XOR uint (calc_crc8 xs)"
    using q(2) p(2) by simp
  have "poly_mult (p XOR q) = poly_mult q XOR uint r XOR uint r XOR poly_mult p"
    unfolding poly_mult_xor by (rule bit_eqI) (auto simp: bit_simps)
  also have "\<dots> = uint (r XOR calc_crc8 xs)"
  proof (rule bit_eqI)
    fix n
    have "bit (poly_mult q XOR uint r) n = bit (poly_mult p XOR uint (calc_crc8 xs)) n"
      using eq by simp
    then show "bit (poly_mult q XOR uint r XOR uint r XOR poly_mult p) n =
        bit (uint (r XOR calc_crc8 xs)) n"
      by (simp only: unsigned_xor_eq bit_xor_iff) blast
  qed
  finally show "r = calc_crc8 xs"
    using poly_mult_small [of "p XOR q" "r XOR calc_crc8 xs"] p(1) q(1) by simp
next
  assume "r = calc_crc8 xs"
  then show "\<exists>q. 0 \<le> q \<and> push_bit 8 (poly_msg xs) = poly_mult q XOR uint r"
    using crc8_rem by blast
qed

text \<open>C17: every burst of at most eight bits is detected: two messages whose difference is
  confined to eight consecutive bits have different checksums. In particular every single-bit and
  every single-byte error is caught.\<close>

theorem crc8_detects_burst:
  assumes "poly_msg xs XOR poly_msg ys = push_bit k (uint (e :: u8))" and "e \<noteq> 0"
  shows "calc_crc8 xs \<noteq> calc_crc8 ys"
  by (rule crc8_error_remainder [OF assms(1), of 0 e]) (use assms(2) in simp_all)

theorem crc8_detects_burst_witness:
  "calc_crc8 [0x10, 0x01, 0x01, 0x00] \<noteq> calc_crc8 [0x10, 0x01, 0x0B, 0x00]"
proof -
  have "poly_msg [0x10, 0x01, 0x01, 0x00] XOR poly_msg [0x10, 0x01, 0x0B, 0x00] =
      push_bit 9 (uint (5 :: u8))"
    by (simp add: poly_msg_def push_bit_eq_mult)
  then show ?thesis by (rule crc8_detects_burst) simp
qed

text \<open>Two flipped bits are detected as long as they are fewer than 127 bits apart (the order of
  \<open>x\<close> modulo the polynomial), which covers every message of up to 15 bytes, so the
  header, payload and CID of every RPC command.\<close>

theorem crc8_detects_double_bit:
  assumes "poly_msg xs XOR poly_msg ys = push_bit k (1 XOR push_bit d 1)"
    and "0 < d" and "d < 127"
  shows "calc_crc8 xs \<noteq> calc_crc8 ys"
proof -
  let ?r = "(crc8_bit ^^ d) 1"
  obtain q where q: "0 \<le> q" "push_bit d (uint (1 :: u8)) = poly_mult q XOR uint ?r"
    using crc8_bits_rem by blast
  have "1 XOR push_bit d 1 = poly_mult q XOR uint (?r XOR 1)"
    using q(2) by (simp only: unsigned_xor_eq unsigned_1 xor.assoc xor.commute xor.left_commute)
  then show ?thesis
    using crc8_error_remainder [OF assms(1) q(1)] crc8_x_order [OF assms(2,3)] by simp
qed

theorem crc8_detects_double_bit_witness:
  "calc_crc8 [0x12, 0x01, 0x05] \<noteq> calc_crc8 [0x92, 0x01, 0x04]"
proof -
  have "poly_msg [0x12, 0x01, 0x05] XOR poly_msg [0x92, 0x01, 0x04] =
      push_bit 0 (1 XOR push_bit 23 1)"
    by (simp add: poly_msg_def push_bit_eq_mult)
  then show ?thesis by (rule crc8_detects_double_bit) simp_all
qed

end
