(* ===== verification/Cid.thy ===== *)
theory Cid
  imports Hardware
begin

text \<open>
  Connection identifiers, ASW/src/BKEL_APP_cid.c: twelve bits of node id mixed from the chip's
  unique id, then a four-bit sequence number. The locale \<open>cid_source\<close> is what a sender relies on
  (same node, next sequence number); \<open>make_cid\<close> is shown to provide it.
\<close>

section \<open>The code\<close>

text \<open>\<open>seq4\<close> is the file's static variable, \<open>node_id\<close> and \<open>init\<close> the static locals of \<open>make_cid\<close>.\<close>

record cid_state =
  seq4 :: u8
  node_id :: u16
  cid_init :: u8

definition cid_start :: cid_state where
  "cid_start = \<lparr>seq4 = 0, node_id = 0, cid_init = 0\<rparr>"

definition make_node_id_12bit :: "board \<Rightarrow> u16" where
  "make_node_id_12bit b =
     (let u0 = rd (UID, W0) b; u1 = rd (UID, W1) b; u2 = rd (UID, W2) b;
          mixed = u0 XOR u1 XOR u2
      in ucast (mixed AND 0x0FFF))"

definition next_seq4 :: "cid_state \<Rightarrow> u8 \<times> cid_state" where
  "next_seq4 s = (let q = (seq4 s + 1) AND 0x0F in (q, s\<lparr>seq4 := q\<rparr>))"

definition make_cid :: "board \<Rightarrow> cid_state \<Rightarrow> u16 \<times> cid_state" where
  "make_cid b s =
     (let s1 = (if cid_init s = 0
                then (let n = make_node_id_12bit b
                      in s\<lparr>node_id := (if n = 0 then 1 else n), cid_init := 1\<rparr>)
                else s);
          (sq, s2) = next_seq4 s1
      in (push_bit 4 (node_id s2) OR ucast sq, s2))"

section \<open>The interface: a source of connection identifiers\<close>

locale cid_source =
  fixes next_cid :: "'s \<Rightarrow> u16 \<times> 's"
    and node :: "'s \<Rightarrow> u16"
    and seq :: "'s \<Rightarrow> nat"
    and inv :: "'s \<Rightarrow> bool"
  assumes next_inv: "inv s \<Longrightarrow> inv (snd (next_cid s))"
    and next_node: "inv s \<Longrightarrow> node (snd (next_cid s)) = node s"
    and next_seq: "inv s \<Longrightarrow> seq (snd (next_cid s)) = Suc (seq s) mod 16"
    and next_value: "inv s \<Longrightarrow> unat (fst (next_cid s)) = 16 * unat (node s) + Suc (seq s) mod 16"
begin

fun state_after :: "nat \<Rightarrow> 's \<Rightarrow> 's" where
  "state_after 0 s = s"
| "state_after (Suc n) s = state_after n (snd (next_cid s))"

lemma state_after_inv: "inv s \<Longrightarrow> inv (state_after n s)"
  by (induction n arbitrary: s) (simp_all add: next_inv)

lemma state_after_node: "inv s \<Longrightarrow> node (state_after n s) = node s"
  by (induction n arbitrary: s) (simp_all add: next_inv next_node)

lemma state_after_seq: "inv s \<Longrightarrow> seq s < 16 \<Longrightarrow> seq (state_after n s) = (seq s + n) mod 16"
  by (induction n arbitrary: s) (simp_all add: next_inv next_seq mod_simps)

lemma nth_cid:
  assumes "inv s" and "seq s < 16"
  shows "unat (fst (next_cid (state_after n s))) = 16 * unat (node s) + (seq s + Suc n) mod 16"
  using assms by (simp add: next_value state_after_inv state_after_node state_after_seq mod_simps)

lemma nth_cid_eq_iff:
  assumes "inv s" and "seq s < 16"
  shows "fst (next_cid (state_after m s)) = fst (next_cid (state_after n s)) \<longleftrightarrow> m mod 16 = n mod 16"
proof -
  have "fst (next_cid (state_after m s)) = fst (next_cid (state_after n s)) \<longleftrightarrow>
      (seq s + Suc m) mod 16 = (seq s + Suc n) mod 16"
    by (simp add: word_unat_eq_iff nth_cid assms)
  also have "\<dots> \<longleftrightarrow> m mod 16 = n mod 16"
    using mod_add_cancel_nat [of "Suc (seq s)" m 16 n] by simp
  finally show ?thesis .
qed

end

section \<open>The firmware's source\<close>

definition cid_inv :: "cid_state \<Rightarrow> bool" where
  "cid_inv s \<longleftrightarrow> unat (seq4 s) < 16 \<and> (cid_init s \<noteq> 0 \<longrightarrow> 0 < unat (node_id s) \<and> unat (node_id s) < 4096)"

text \<open>The node id a state uses: the stored one, or the one the first call will compute.\<close>

definition cid_node :: "board \<Rightarrow> cid_state \<Rightarrow> u16" where
  "cid_node b s =
     (if cid_init s = 0 then (let n = make_node_id_12bit b in if n = 0 then 1 else n) else node_id s)"

lemma next_seq4_value: "unat (fst (next_seq4 s)) = Suc (unat (seq4 s)) mod 16"
proof -
  have "unat (seq4 s + 1) = Suc (unat (seq4 s)) mod 256"
    by (simp add: unat_word_ariths)
  then show ?thesis by (simp add: next_seq4_def unat_and_mask Let_def mod_mod_cancel)
qed

text \<open>The layout \<open>CID[15:0] : UIDMIX[15:4]SEQNUM[3:0]\<close>.\<close>

lemma cid_layout:
  fixes n :: u16 and q :: u8
  assumes "unat n < 4096" and "unat q < 16"
  shows "unat (push_bit 4 n OR ucast q) = 16 * unat n + unat q"
proof -
  have "q = take_bit 4 q"
    using assms(2) by (simp add: word_unat_eq_iff unsigned_take_bit_eq take_bit_nat_eq_self)
  then have hi: "\<not> bit q k" if "4 \<le> k" for k
    using that by (metis bit_take_bit_iff not_less)
  have disj: "push_bit 4 n AND ucast q = 0"
    by (rule bit_word_eqI) (use hi in \<open>auto simp: bit_simps\<close>)
  have "push_bit 4 n OR ucast q = push_bit 4 n + ucast q"
    by (rule disjunctive_add_eq_or [OF disj, symmetric])
  also have "\<dots> = of_nat (16 * unat n + unat q)"
    by (simp add: push_bit_eq_mult unsigned_ucast_eq)
  finally have "push_bit 4 n OR ucast q = of_nat (16 * unat n + unat q)" .
  moreover have "16 * unat n + unat q < 2 ^ 16" using assms by simp
  ultimately show ?thesis
    by (simp only: unsigned_of_nat) (simp add: take_bit_nat_eq_self)
qed

lemma node_id_12bit: "unat (make_node_id_12bit b) < 4096"
  unfolding make_node_id_12bit_def Let_def
  by (simp add: unsigned_ucast_eq unat_and_mask take_bit_nat_eq_self mod_less_divisor)

lemma cid_node_bounds:
  assumes "cid_inv s"
  shows "0 < unat (cid_node b s)" and "unat (cid_node b s) < 4096"
  using assms node_id_12bit [of b]
  by (auto simp: cid_node_def cid_inv_def Let_def unat_gt_0 word_neq_0_conv)

lemma make_cid_step:
  "make_cid b s =
     (push_bit 4 (cid_node b s) OR ucast (fst (next_seq4 s)),
      s\<lparr>node_id := cid_node b s, cid_init := (if cid_init s = 0 then 1 else cid_init s),
        seq4 := fst (next_seq4 s)\<rparr>)"
  by (cases s) (simp add: make_cid_def cid_node_def next_seq4_def Let_def)

interpretation fw: cid_source "make_cid b" "cid_node b" "\<lambda>s. unat (seq4 s)" cid_inv
proof
  fix s assume inv: "cid_inv s"
  note bnd = cid_node_bounds [OF inv]
  show "cid_inv (snd (make_cid b s))"
    using bnd inv by (simp add: make_cid_step cid_inv_def next_seq4_value)
  show "cid_node b (snd (make_cid b s)) = cid_node b s"
    by (simp add: make_cid_step cid_node_def)
  show "unat (seq4 (snd (make_cid b s))) = Suc (unat (seq4 s)) mod 16"
    by (simp add: make_cid_step next_seq4_value)
  show "unat (fst (make_cid b s)) = 16 * unat (cid_node b s) + Suc (unat (seq4 s)) mod 16"
    using bnd by (simp add: make_cid_step next_seq4_value cid_layout)
qed

lemma cid_start_inv: "cid_inv cid_start"
  by (simp add: cid_inv_def cid_start_def)


section \<open>Properties\<close>

text \<open>The identifier of the \<open>n\<close>-th call from a state.\<close>

definition nth_cid :: "board \<Rightarrow> cid_state \<Rightarrow> nat \<Rightarrow> u16" where
  "nth_cid b s n = fst (make_cid b (((\<lambda>s. snd (make_cid b s)) ^^ n) s))"

lemma state_after_funpow: "fw.state_after b n s = ((\<lambda>s. snd (make_cid b s)) ^^ n) s"
  by (induction n arbitrary: s) (simp_all add: funpow_Suc_right comp_def del: funpow.simps(2))

text \<open>The \<open>n\<close>-th connection identifier of a node that has just started carries its node id,
  never zero, in the upper twelve bits and the call number modulo 16 in the lower four.\<close>

theorem nth_cid_value:
  "unat (nth_cid b cid_start n) = 16 * unat (cid_node b cid_start) + Suc n mod 16 \<and>
   0 < unat (cid_node b cid_start)"
  using fw.nth_cid [OF cid_start_inv, of b n] cid_node_bounds(1) [OF cid_start_inv]
  by (simp add: nth_cid_def state_after_funpow cid_start_def)

text \<open>Two calls of \<open>make_cid\<close> give the same identifier exactly when their numbers agree modulo
  16: sixteen calls in a row are pairwise different, the seventeenth repeats the first.\<close>

theorem nth_cid_unique:
  "nth_cid b cid_start m = nth_cid b cid_start n \<longleftrightarrow> m mod 16 = n mod 16"
  using fw.nth_cid_eq_iff [OF cid_start_inv, of b m n]
  by (simp add: nth_cid_def state_after_funpow cid_start_def)

end
