(* ===== verification/Frame.thy ===== *)
theory Frame
  imports Crc8 Cid
begin

text \<open>
  The frame of the protocol and its builder, \<open>build_frame\<close> of ASW/src/BKEL_APP_protocol.c:
  start byte, service id, type, payload length, payload, connection id and checksum, the 16-bit
  fields little-endian. \<open>frame\<close> is the format as a function on byte lists, the specification the
  builder and the parser are both related to.
\<close>

section \<open>Constants and data\<close>

definition SOF_DATA_VALUE :: u8 where "SOF_DATA_VALUE = 0xAA"
definition BKEL_SOF_SIZE :: nat where "BKEL_SOF_SIZE = 1"
definition BKEL_HDR_SIZE :: nat where "BKEL_HDR_SIZE = 4"
definition BKEL_MAX_DLC :: nat where "BKEL_MAX_DLC = 500"
definition BKEL_CID_SIZE :: nat where "BKEL_CID_SIZE = 2"
definition BKEL_CRC_SIZE :: nat where "BKEL_CRC_SIZE = 1"

lemmas sizes = BKEL_SOF_SIZE_def BKEL_HDR_SIZE_def BKEL_MAX_DLC_def BKEL_CID_SIZE_def BKEL_CRC_SIZE_def

text \<open>The packed header as it lies in memory.\<close>

record BKEL_Data_Frame_Header_t =
  hdr_sid :: u8
  hdr_type :: u8
  hdr_dlc :: u16

definition hdr_bytes :: "BKEL_Data_Frame_Header_t \<Rightarrow> u8 list" where
  "hdr_bytes hdr = [hdr_sid hdr, hdr_type hdr] @ le16 (hdr_dlc hdr)"

definition hdr_of_bytes :: "u8 list \<Rightarrow> BKEL_Data_Frame_Header_t" where
  "hdr_of_bytes xs = \<lparr>hdr_sid = xs ! 0, hdr_type = xs ! 1, hdr_dlc = of_le16 (xs ! 2) (xs ! 3)\<rparr>"

lemma length_hdr_bytes [simp]: "length (hdr_bytes hdr) = 4"
  by (simp add: hdr_bytes_def)

lemma hdr_of_bytes_inverse [simp]: "hdr_of_bytes (hdr_bytes hdr) = hdr"
  by (cases hdr) (simp add: hdr_of_bytes_def hdr_bytes_def le16_def of_le16_le16 numeral_2_eq_2 numeral_3_eq_3)

section \<open>The builder\<close>

text \<open>\<open>size_t\<close> is 32 bits wide; the total is at most 65543, so it does not wrap.\<close>

definition build_frame :: "board \<Rightarrow> u8 list \<Rightarrow> nat \<Rightarrow> u8 \<Rightarrow> u8 \<Rightarrow> u8 list \<Rightarrow> u16 \<Rightarrow> cid_state
    \<Rightarrow> (nat \<times> u8 list \<times> cid_state) res" where
  "build_frame b out_buf out_buf_size sid type payload payload_len s =
     (let total_len = 1 + 4 + unat payload_len + 2 + 1 in
      if out_buf_size < total_len then Inr (0, out_buf, s)
      else
        let hdr = \<lparr>hdr_sid = sid, hdr_type = type, hdr_dlc = payload_len\<rparr> in
        bindR (memcpy_to out_buf 0 [SOF_DATA_VALUE]) (\<lambda>m1.
        bindR (memcpy_to m1 1 (hdr_bytes hdr)) (\<lambda>m2.
        bindR (mem_read payload 0 (unat payload_len)) (\<lambda>pl.
        bindR (memcpy_to m2 5 pl) (\<lambda>m3.
        let (cid, s1) = make_cid b s; offset = 5 + unat payload_len in
        bindR (memcpy_to m3 offset (le16 cid)) (\<lambda>m4.
        bindR (mem_read m4 1 (offset + 2 - 1)) (\<lambda>bytes.
        bindR (memcpy_to m4 (offset + 2) [calc_crc8 bytes]) (\<lambda>m5.
        Inr (offset + 3, m5, s1)))))))))"

section \<open>The format\<close>

definition frame_body :: "u8 \<Rightarrow> u8 \<Rightarrow> u8 list \<Rightarrow> u16 \<Rightarrow> u8 list" where
  "frame_body sid type payload cid =
     hdr_bytes \<lparr>hdr_sid = sid, hdr_type = type, hdr_dlc = of_nat (length payload)\<rparr> @ payload @ le16 cid"

definition frame :: "u8 \<Rightarrow> u8 \<Rightarrow> u8 list \<Rightarrow> u16 \<Rightarrow> u8 list" where
  "frame sid type payload cid =
     SOF_DATA_VALUE # frame_body sid type payload cid @ [calc_crc8 (frame_body sid type payload cid)]"

lemma length_frame_body [simp]: "length (frame_body sid type payload cid) = 6 + length payload"
  by (simp add: frame_body_def)

lemma length_frame [simp]: "length (frame sid type payload cid) = 8 + length payload"
  by (simp add: frame_def)

lemma build_frame_small:
  "out_buf_size < 8 + unat n \<Longrightarrow> build_frame b out_buf out_buf_size sid type payload n s = Inr (0, out_buf, s)"
  by (simp add: build_frame_def)

text \<open>Copies to consecutive offsets extend the written prefix.\<close>

lemma memcpy_extend:
  assumes "i = length ps" and "length xs \<le> length ys"
  shows "memcpy_to (ps @ ys) i xs = Inr ((ps @ xs) @ drop (length xs) ys)"
  using assms by (simp add: mem_put_at_prefix)

lemma build_frame_large:
  assumes "8 + unat n \<le> out_buf_size" and "out_buf_size \<le> length out_buf"
    and "unat n \<le> length payload"
  shows "build_frame b out_buf out_buf_size sid type payload n s =
    Inr (8 + unat n,
         frame sid type (take (unat n) payload) (fst (make_cid b s)) @ drop (8 + unat n) out_buf,
         snd (make_cid b s))"
proof -
  obtain cid s1 where cs: "make_cid b s = (cid, s1)" by fastforce
  let ?hdr = "\<lparr>hdr_sid = sid, hdr_type = type, hdr_dlc = n\<rparr>" and ?pl = "take (unat n) payload"
  let ?body = "hdr_bytes ?hdr @ ?pl @ le16 cid"
  have lp: "length ?pl = unat n" using assms(3) by simp
  have body: "frame_body sid type ?pl cid = ?body"
    unfolding frame_body_def lp by simp
  have m1: "memcpy_to out_buf 0 [SOF_DATA_VALUE] = Inr ([SOF_DATA_VALUE] @ drop 1 out_buf)"
    using assms memcpy_extend [of 0 "[]" "[SOF_DATA_VALUE]" out_buf] by simp
  have m2: "memcpy_to ([SOF_DATA_VALUE] @ drop 1 out_buf) 1 (hdr_bytes ?hdr) =
      Inr (([SOF_DATA_VALUE] @ hdr_bytes ?hdr) @ drop 5 out_buf)"
    using assms memcpy_extend [of 1 "[SOF_DATA_VALUE]" "hdr_bytes ?hdr" "drop 1 out_buf"] by simp
  have m3: "memcpy_to (([SOF_DATA_VALUE] @ hdr_bytes ?hdr) @ drop 5 out_buf) 5 ?pl =
      Inr (([SOF_DATA_VALUE] @ hdr_bytes ?hdr @ ?pl) @ drop (5 + unat n) out_buf)"
    using assms memcpy_extend [of 5 "[SOF_DATA_VALUE] @ hdr_bytes ?hdr" ?pl "drop 5 out_buf"] lp
    by (simp add: add.commute)
  have m4: "memcpy_to (([SOF_DATA_VALUE] @ hdr_bytes ?hdr @ ?pl) @ drop (5 + unat n) out_buf)
        (5 + unat n) (le16 cid) = Inr ((SOF_DATA_VALUE # ?body) @ drop (7 + unat n) out_buf)"
    using assms memcpy_extend [of "5 + unat n" "[SOF_DATA_VALUE] @ hdr_bytes ?hdr @ ?pl" "le16 cid"] lp
    by (simp add: add.commute)
  have r: "mem_read ((SOF_DATA_VALUE # ?body) @ drop (7 + unat n) out_buf) 1 (5 + unat n + 2 - 1) = Inr ?body"
    using assms lp by simp
  have m5: "memcpy_to ((SOF_DATA_VALUE # ?body) @ drop (7 + unat n) out_buf) (5 + unat n + 2) [calc_crc8 ?body] =
      Inr ((SOF_DATA_VALUE # ?body @ [calc_crc8 ?body]) @ drop (8 + unat n) out_buf)"
    using assms memcpy_extend [of "5 + unat n + 2" "SOF_DATA_VALUE # ?body" "[calc_crc8 ?body]"] lp
    by (simp add: add.commute)
  have pl: "mem_read payload 0 (unat n) = Inr ?pl" using assms(3) by simp
  have "\<not> out_buf_size < 1 + 4 + unat n + 2 + 1" using assms(1) by simp
  then show ?thesis
    unfolding build_frame_def Let_def
    by (simp only: if_False m1 m2 pl m3 cs prod.case m4 r m5 bindR.simps frame_def body fst_conv snd_conv) simp
qed

section \<open>Properties\<close>

text \<open>C15: \<open>build_frame\<close> never writes outside its buffer. When the buffer is too small for the frame it
  returns 0 and leaves the buffer and the sequence number alone; otherwise it writes exactly the
  frame of its arguments with the next connection id, returns its length, keeps the rest of the
  buffer, and advances the sequence number once.\<close>

theorem build_frame_correct:
  assumes "out_buf_size \<le> length out_buf" and "unat n \<le> length payload"
  shows "build_frame b out_buf out_buf_size sid type payload n s =
    (if out_buf_size < 8 + unat n then Inr (0, out_buf, s)
     else Inr (8 + unat n,
       frame sid type (take (unat n) payload) (fst (make_cid b s)) @ drop (8 + unat n) out_buf,
       snd (make_cid b s)))"
  using build_frame_small build_frame_large assms by auto

theorem build_frame_correct_witness:
  "\<forall>b. (\<exists>cid s1. build_frame b (replicate 64 0) 64 0x25 0x01 [1] 1 cid_start =
       Inr (9, frame 0x25 0x01 [1] cid @ replicate 55 0, s1)) \<and>
     build_frame b (replicate 4 0) 4 0x25 0x01 [1] 1 cid_start = Inr (0, replicate 4 0, cid_start)"
proof
  fix b
  show "(\<exists>cid s1. build_frame b (replicate 64 0) 64 0x25 0x01 [1] 1 cid_start =
       Inr (9, frame 0x25 0x01 [1] cid @ replicate 55 0, s1)) \<and>
     build_frame b (replicate 4 0) 4 0x25 0x01 [1] 1 cid_start = Inr (0, replicate 4 0, cid_start)"
    using build_frame_correct [of 64 "replicate 64 0" 1 "[1]" b "0x25" "0x01" cid_start]
      build_frame_correct [of 4 "replicate 4 0" 1 "[1]" b "0x25" "0x01" cid_start]
    by simp blast
qed

end
