(* ===== verification/Adc.thy ===== *)
theory Adc
  imports Hardware
begin

text \<open>
  The ADC driver BSW/src/BKEL_BSW_adc.c and the part of the DMA interrupt that hands it a frame
  (\<open>DMA1_Channel1_IRQHandler\<close> of Core/Src/BKEL_isr.c). The DMA fills the two frames of the buffer
  in turn; the interrupt names the finished one; the driver keeps a copy of the last frame it saw.
\<close>

section \<open>The code\<close>

record ADC_ChPair_t =
  ch14 :: u16
  ch15 :: u16

record adc_state =
  adc_dma_buf :: "ADC_ChPair_t list"
  adc_frame_ready :: u8
  adc_frame_idx :: u8
  shadow :: ADC_ChPair_t
  valid :: u8

definition ADC_DMA_FRAME :: nat where
  "ADC_DMA_FRAME = 2"

definition ADC_INVALID_VALUE :: u32 where
  "ADC_INVALID_VALUE = 0xFFFFFFFF"

definition adc_start :: adc_state where
  "adc_start = \<lparr>adc_dma_buf = replicate ADC_DMA_FRAME \<lparr>ch14 = 0, ch15 = 0\<rparr>, adc_frame_ready = 0,
     adc_frame_idx = 0, shadow = \<lparr>ch14 = 0, ch15 = 0\<rparr>, valid = 0\<rparr>"

definition BKEL_BSW_ADC_GetValue :: "adc_state \<Rightarrow> (u32 \<times> adc_state) res" where
  "BKEL_BSW_ADC_GetValue a =
     bindR (if adc_frame_ready a \<noteq> 0 then
              let idx = unat (adc_frame_idx a) in
              if idx < length (adc_dma_buf a)
              then Inr (a\<lparr>shadow := adc_dma_buf a ! idx, adc_frame_ready := 0, valid := 1\<rparr>)
              else Inl Bounds
            else Inr a) (\<lambda>a1.
     Inr (if valid a1 = 0 then ADC_INVALID_VALUE
          else push_bit 16 (ucast (ch14 (shadow a1))) OR ucast (ch15 (shadow a1)), a1))"

text \<open>The interrupt of the DMA channel: frame 0 is complete at half transfer, frame 1 at the end. Each
  test of the status register is a read of its own.\<close>

definition DMA_ISR_HTIF1 :: u32 where "DMA_ISR_HTIF1 = 0x4"
definition DMA_ISR_TCIF1 :: u32 where "DMA_ISR_TCIF1 = 0x2"

definition DMA1_Channel1_IRQHandler :: "hw \<Rightarrow> board \<Rightarrow> adc_state \<Rightarrow> board \<times> adc_state" where
  "DMA1_Channel1_IRQHandler h b a =
     (let (v1, b1) = vread h (DMA1, ISR) b;
          (b2, a2) = (if v1 AND DMA_ISR_HTIF1 \<noteq> 0
                      then (wr (DMA1, IFCR) DMA_ISR_HTIF1 b1, a\<lparr>adc_frame_idx := 0, adc_frame_ready := 1\<rparr>)
                      else (b1, a));
          (v2, b3) = vread h (DMA1, ISR) b2
      in if v2 AND DMA_ISR_TCIF1 \<noteq> 0
         then (wr (DMA1, IFCR) DMA_ISR_TCIF1 b3, a2\<lparr>adc_frame_idx := 1, adc_frame_ready := 1\<rparr>)
         else (b3, a2))"

section \<open>The frames the DMA delivers\<close>

text \<open>The DMA writes a frame of its buffer; the hardware does this, not the code.\<close>

definition dma_writes :: "nat \<Rightarrow> ADC_ChPair_t \<Rightarrow> adc_state \<Rightarrow> adc_state" where
  "dma_writes i p a = a\<lparr>adc_dma_buf := (adc_dma_buf a)[i := p]\<rparr>"

definition adc_inv :: "adc_state \<Rightarrow> bool" where
  "adc_inv a \<longleftrightarrow> length (adc_dma_buf a) = ADC_DMA_FRAME \<and> unat (adc_frame_idx a) < ADC_DMA_FRAME"

definition adc_value :: "ADC_ChPair_t \<Rightarrow> u32" where
  "adc_value p = push_bit 16 (ucast (ch14 p)) OR ucast (ch15 p)"

lemma adc_start_inv: "adc_inv adc_start"
  by (simp add: adc_inv_def adc_start_def ADC_DMA_FRAME_def)

lemma adc_get_ready:
  assumes "adc_inv a" and "adc_frame_ready a \<noteq> 0"
  shows "BKEL_BSW_ADC_GetValue a =
    (let p = adc_dma_buf a ! unat (adc_frame_idx a) in
     Inr (adc_value p, a\<lparr>shadow := p, adc_frame_ready := 0, valid := 1\<rparr>))"
  using assms by (simp add: BKEL_BSW_ADC_GetValue_def adc_inv_def adc_value_def Let_def)

lemma adc_get_idle:
  assumes "adc_frame_ready a = 0"
  shows "BKEL_BSW_ADC_GetValue a =
    Inr (if valid a = 0 then ADC_INVALID_VALUE else adc_value (shadow a), a)"
  using assms by (simp add: BKEL_BSW_ADC_GetValue_def adc_value_def)

lemma adc_get_total:
  assumes "adc_inv a"
  shows "\<exists>v a'. BKEL_BSW_ADC_GetValue a = Inr (v, a') \<and> adc_inv a'"
proof (cases "adc_frame_ready a = 0")
  case True
  then show ?thesis using assms by (simp add: adc_get_idle)
next
  case False
  then show ?thesis using assms by (auto simp: adc_get_ready Let_def) (simp add: adc_inv_def)
qed

lemma adc_isr_inv: "adc_inv a \<Longrightarrow> adc_inv (snd (DMA1_Channel1_IRQHandler h b a))"
  by (simp add: DMA1_Channel1_IRQHandler_def vread_def adc_inv_def ADC_DMA_FRAME_def Let_def)

lemma dma_write_inv: "adc_inv (dma_writes i p a) \<longleftrightarrow> adc_inv a"
  by (simp add: adc_inv_def dma_writes_def)

lemma dma_writes_inv: "adc_inv (fold (\<lambda>(i, p). dma_writes i p) ws a) \<longleftrightarrow> adc_inv a"
  by (induction ws arbitrary: a) (simp_all add: dma_write_inv split: prod.split)

lemma dma_write_frame [simp]:
  "adc_frame_ready (dma_writes i p a) = adc_frame_ready a"
  "valid (dma_writes i p a) = valid a" "shadow (dma_writes i p a) = shadow a"
  by (simp_all add: dma_writes_def)

lemma dma_writes_frame:
  "adc_frame_ready (fold (\<lambda>(i, p). dma_writes i p) ws a) = adc_frame_ready a"
  "valid (fold (\<lambda>(i, p). dma_writes i p) ws a) = valid a"
  "shadow (fold (\<lambda>(i, p). dma_writes i p) ws a) = shadow a"
  by (induction ws arbitrary: a) (simp_all split: prod.split)

text \<open>The two halves of a value are the two channels.\<close>

lemma adc_value_high: "drop_bit 16 (adc_value p) AND 0xFFFF = ucast (ch14 p)"
proof (rule bit_word_eqI)
  fix n assume "n < LENGTH(32)"
  show "bit (drop_bit 16 (adc_value p) AND 0xFFFF) n = bit (ucast (ch14 p) :: u32) n"
    by (simp only: adc_value_def bit_and_iff bit_drop_bit_eq bit_or_iff bit_push_bit_iff
        bit_ucast_iff bit_0xFFFF comp_def possible_bit_word) (auto dest: bit_imp_le_length)
qed

lemma adc_value_low: "adc_value p AND 0xFFFF = ucast (ch15 p)"
proof (rule bit_word_eqI)
  fix n assume "n < LENGTH(32)"
  show "bit (adc_value p AND 0xFFFF) n = bit (ucast (ch15 p) :: u32) n"
    by (simp only: adc_value_def bit_and_iff bit_or_iff bit_push_bit_iff
        bit_ucast_iff bit_0xFFFF possible_bit_word) (auto dest: bit_imp_le_length)
qed

section \<open>Properties\<close>

text \<open>A reading is a consistent snapshot: once the interrupt has announced a frame, \<open>GetValue\<close>
  returns both channels of that frame, and keeps returning them whatever the DMA writes into its
  buffer, until the next interrupt.\<close>

theorem adc_snapshot:
  assumes "adc_inv a" and "adc_frame_ready a \<noteq> 0"
  shows "\<exists>a'. BKEL_BSW_ADC_GetValue a = Inr (adc_value (adc_dma_buf a ! unat (adc_frame_idx a)), a') \<and>
    (\<forall>ws. \<exists>a''. BKEL_BSW_ADC_GetValue (fold (\<lambda>(i, p). dma_writes i p) ws a') =
       Inr (adc_value (adc_dma_buf a ! unat (adc_frame_idx a)), a''))"
  by (simp add: adc_get_ready [OF assms] adc_get_idle dma_writes_frame Let_def)

theorem adc_snapshot_witness:
  "\<exists>a'. BKEL_BSW_ADC_GetValue
      (adc_start\<lparr>adc_dma_buf := [\<lparr>ch14 = 7, ch15 = 9\<rparr>, \<lparr>ch14 = 1, ch15 = 2\<rparr>], adc_frame_ready := 1\<rparr>) =
      Inr (0x00070009, a') \<and>
    (\<forall>ws. \<exists>a''. BKEL_BSW_ADC_GetValue (fold (\<lambda>(i, p). dma_writes i p) ws a') = Inr (0x00070009, a''))"
proof -
  let ?a = "adc_start\<lparr>adc_dma_buf := [\<lparr>ch14 = 7, ch15 = 9\<rparr>, \<lparr>ch14 = 1, ch15 = 2\<rparr>], adc_frame_ready := 1\<rparr>"
  have "adc_inv ?a" "adc_frame_ready ?a \<noteq> 0"
    by (simp_all add: adc_inv_def adc_start_def ADC_DMA_FRAME_def)
  from adc_snapshot [OF this] show ?thesis
    by (simp add: adc_start_def adc_value_def)
qed

end
