(* ===== verification/Printf.thy ===== *)
theory Printf
  imports Hardware "HOL-Library.Char_ord"
begin

text \<open>
  The conversions of \<open>printf\<close> that the firmware uses: two hexadecimal digits in either case and an
  unsigned decimal. A call of \<open>printf\<close> is one \<open>Log\<close> event with the formatted text: newlib's stdio, which
  is not part of the repository, decides when its buffer is handed to \<open>_write\<close> (\<open>write_stub\<close> of \<open>Uart\<close>).
\<close>

definition crlf :: string where
  "crlf = [CHR 0x0D, CHR 0x0A]"

definition hex_char :: "bool \<Rightarrow> nat \<Rightarrow> char" where
  "hex_char upper n = (if upper then ''0123456789ABCDEF'' else ''0123456789abcdef'') ! n"

definition fmt_02X :: "u8 \<Rightarrow> string" where
  "fmt_02X x = [hex_char True (unat x div 16), hex_char True (unat x mod 16)]"

definition fmt_02x :: "u8 \<Rightarrow> string" where
  "fmt_02x x = [hex_char False (unat x div 16), hex_char False (unat x mod 16)]"

fun fmt_dec :: "nat \<Rightarrow> string" where
  "fmt_dec n = (if n < 10 then [hex_char True n] else fmt_dec (n div 10) @ [hex_char True (n mod 10)])"

declare fmt_dec.simps [simp del]

definition printf :: "string \<Rightarrow> board \<Rightarrow> board" where
  "printf s b = emit (Log s) b"

lemma printf_simps [simp]:
  "rd r (printf s b) = rd r b" "trace (printf s b) = trace b @ [Log s]"
  "ticks (printf s b) = ticks b"
  by (simp_all add: printf_def)

end
