(* ===== verification/Firmware.thy ===== *)
theory Firmware
  imports Frame Adc Printf Kernel
begin

text \<open>
  The state the application shares: the board, the connection-id generator, the ADC driver, the
  packet under work, the task handles of BKEL_externs.h and the kernel. \<open>packet_addr\<close> is the
  address the linker gave \<open>parsed_packet\<close>, the value that travels in a notification.

  A notification can hand the processor to another task before the call returns. The operations
  that notify take the parameter \<open>preempt\<close>, what those tasks do to the state until the caller runs
  again; \<open>Tasks\<close> supplies the firmware's own workers for it.
\<close>

record BKEL_Common_Packet_t =
  p_sid :: u8
  p_type :: u8
  p_dlc :: u16
  p_payload :: "u8 list"
  p_cid :: u16

definition packet_zero :: BKEL_Common_Packet_t where
  "packet_zero = \<lparr>p_sid = 0, p_type = 0, p_dlc = 0, p_payload = replicate 16 0, p_cid = 0\<rparr>"

record fw =
  brd :: board
  cids :: cid_state
  adc :: adc_state
  parsed_packet :: BKEL_Common_Packet_t
  packet_addr :: u32
  hSendAdvertiseTask :: "task option"
  hCommandCustomerTask :: "task option"
  hSendDataTask :: "task option"
  hRPCTask :: "task option"
  kern :: kernel

type_synonym preempt = "fw \<Rightarrow> fw res"

definition fw_start :: "board \<Rightarrow> u32 \<Rightarrow> fw" where
  "fw_start b addr = \<lparr>brd = b, cids = cid_start, adc = adc_start, parsed_packet = packet_zero,
     packet_addr = addr, hSendAdvertiseTask = None, hCommandCustomerTask = None,
     hSendDataTask = None, hRPCTask = None, kern = kernel_start\<rparr>"

text \<open>\<open>xTaskNotify\<close> with \<open>eSetValueWithOverwrite\<close>, and what runs before it returns.\<close>

definition notify_packet :: "preempt \<Rightarrow> task option \<Rightarrow> fw \<Rightarrow> fw res" where
  "notify_packet preempt h f =
     bindR (xTaskGenericNotify h (packet_addr f) eSetValueWithOverwrite (kern f)) (\<lambda>(_, _, k).
     preempt (f\<lparr>kern := k\<rparr>))"

text \<open>No task of higher priority runs.\<close>

definition no_preempt :: preempt where
  "no_preempt f = Inr f"

end
