(* ===== verification/Parser.thy ===== *)
theory Parser
  imports Firmware
begin

text \<open>
  The receiving half of ASW/src/BKEL_APP_protocol.c: \<open>parse_packet\<close> walks the receive buffer,
  \<open>parse_one_frame\<close> judges what is at one offset, \<open>handle_frame\<close> checks the service id and its
  length, stores the packet and notifies the worker task. The buffer is the whole array; \<open>off\<close> is
  the pointer into it and \<open>buf_len\<close> the number of bytes received from there on. Bytes of the array
  beyond are what earlier input left there.
\<close>

section \<open>The code\<close>

datatype BKEL_PARSE_RESULT_e = PARSE_OK | PARSE_INCOMPLETE | PARSE_INVALID

definition DIAG_PWM_OUTPUT_VALUE :: u8 where "DIAG_PWM_OUTPUT_VALUE = 0x20"
definition DIAG_PWM_INPUT_VALUE :: u8 where "DIAG_PWM_INPUT_VALUE = 0x21"
definition DIAG_ADC1_GET_VALUE :: u8 where "DIAG_ADC1_GET_VALUE = 0x22"
definition DIAG_ADC2_GET_VALUE :: u8 where "DIAG_ADC2_GET_VALUE = 0x23"
definition DIAG_GPO_PINSTATE :: u8 where "DIAG_GPO_PINSTATE = 0x24"
definition DIAG_GPI_PINSTATE :: u8 where "DIAG_GPI_PINSTATE = 0x25"
definition DIAG_LD2_PINSTATE :: u8 where "DIAG_LD2_PINSTATE = 0x26"
definition RPC_LD2_CONTROL :: u8 where "RPC_LD2_CONTROL = 0x10"
definition RPC_MCU_RESET :: u8 where "RPC_MCU_RESET = 0x11"
definition RPC_SPI_READ :: u8 where "RPC_SPI_READ = 0x12"
definition RPC_PWM_SETOUT :: u8 where "RPC_PWM_SETOUT = 0x13"

lemmas sid_defs = DIAG_PWM_OUTPUT_VALUE_def DIAG_PWM_INPUT_VALUE_def DIAG_ADC1_GET_VALUE_def
  DIAG_ADC2_GET_VALUE_def DIAG_GPO_PINSTATE_def DIAG_GPI_PINSTATE_def DIAG_LD2_PINSTATE_def
  RPC_LD2_CONTROL_def RPC_MCU_RESET_def RPC_SPI_READ_def RPC_PWM_SETOUT_def

text \<open>The first switch of \<open>handle_frame\<close>: whether the length fits, and the board after the log of an
  unknown service.\<close>

definition check_dlc :: "u8 \<Rightarrow> u16 \<Rightarrow> board \<Rightarrow> bool \<times> board" where
  "check_dlc sid dlc b =
     (if sid \<in> {DIAG_GPO_PINSTATE, DIAG_GPI_PINSTATE, DIAG_LD2_PINSTATE, DIAG_PWM_OUTPUT_VALUE,
                DIAG_PWM_INPUT_VALUE, DIAG_ADC1_GET_VALUE, DIAG_ADC2_GET_VALUE} then (True, b)
      else if sid \<in> {RPC_LD2_CONTROL, RPC_MCU_RESET} then (dlc = 1, b)
      else if sid = RPC_PWM_SETOUT then (dlc = 2, b)
      else if sid = RPC_SPI_READ then (dlc = 5, b)
      else (False, printf (''[handle_frame_error] Undefined SID: 0x'' @ fmt_02x sid @ crlf) b))"

definition store_packet :: "u8 \<Rightarrow> u8 \<Rightarrow> u8 list \<Rightarrow> u16 \<Rightarrow> u16 \<Rightarrow> BKEL_Common_Packet_t
    \<Rightarrow> BKEL_Common_Packet_t res" where
  "store_packet sid type payload dlc cid p =
     (let p1 = p\<lparr>p_sid := sid, p_type := type, p_dlc := dlc, p_cid := cid\<rparr>;
          copy_len = (if 16 < dlc then 16 else dlc) in
      if 0 < dlc then
        bindR (mem_read payload 0 (unat copy_len)) (\<lambda>xs.
        bindR (memcpy_to (p_payload p1) 0 xs) (\<lambda>pl. Inr (p1\<lparr>p_payload := pl\<rparr>)))
      else Inr p1)"

definition wake_worker :: "preempt \<Rightarrow> u8 \<Rightarrow> fw \<Rightarrow> fw res" where
  "wake_worker preempt sid f =
     (if 0x10 \<le> sid \<and> sid \<le> 0x1F then
        (if hRPCTask f \<noteq> None then notify_packet preempt (hRPCTask f) f else Inr f)
      else if 0x20 \<le> sid \<and> sid \<le> 0x2F then
        (if hSendDataTask f \<noteq> None then notify_packet preempt (hSendDataTask f) f else Inr f)
      else Inr f)"

definition handle_frame :: "preempt \<Rightarrow> u8 \<Rightarrow> u8 \<Rightarrow> u8 list \<Rightarrow> u16 \<Rightarrow> u16 \<Rightarrow> fw \<Rightarrow> fw res" where
  "handle_frame preempt sid type payload dlc cid f =
     (let (is_valid_dlc, b1) = check_dlc sid dlc (brd f); f1 = f\<lparr>brd := b1\<rparr> in
      if is_valid_dlc then
        bindR (store_packet sid type payload dlc cid (parsed_packet f1)) (\<lambda>p.
        wake_worker preempt sid (f1\<lparr>parsed_packet := p\<rparr>))
      else Inr f1)"

definition parse_one_frame :: "preempt \<Rightarrow> u8 list \<Rightarrow> nat \<Rightarrow> nat \<Rightarrow> fw
    \<Rightarrow> (nat \<times> BKEL_PARSE_RESULT_e \<times> fw) res" where
  "parse_one_frame preempt buf off buf_len f =
     bindR (mem_read buf off 1) (\<lambda>sof.
     if sof \<noteq> [SOF_DATA_VALUE] then Inr (1, PARSE_INVALID, f)
     else if buf_len < BKEL_HDR_SIZE then Inr (0, PARSE_INCOMPLETE, f)
     else
       bindR (mem_read buf (off + BKEL_SOF_SIZE) BKEL_HDR_SIZE) (\<lambda>hb.
       let hdr = hdr_of_bytes hb; dlc = unat (hdr_dlc hdr) in
       if BKEL_MAX_DLC < dlc then Inr (1, PARSE_INVALID, f)
       else
         let frame_len = BKEL_SOF_SIZE + BKEL_HDR_SIZE + dlc + BKEL_CID_SIZE + BKEL_CRC_SIZE in
         if buf_len < frame_len then Inr (0, PARSE_INCOMPLETE, f)
         else
           let payload = off + BKEL_SOF_SIZE + BKEL_HDR_SIZE;
               cid_ptr = payload + dlc;
               crc_ptr = cid_ptr + BKEL_CID_SIZE in
           bindR (mem_read buf cid_ptr 2) (\<lambda>cb.
           bindR (mem_read buf (off + BKEL_SOF_SIZE) (BKEL_HDR_SIZE + dlc + BKEL_CID_SIZE)) (\<lambda>body.
           bindR (mem_read buf crc_ptr 1) (\<lambda>got.
           if calc_crc8 body \<noteq> got ! 0 then Inr (1, PARSE_INVALID, f)
           else
             bindR (handle_frame preempt (hdr_sid hdr) (hdr_type hdr) (drop payload buf) (hdr_dlc hdr)
                      (of_le16 (cb ! 0) (cb ! 1)) f) (\<lambda>f1.
             Inr (frame_len, PARSE_OK, f1)))))))"

lemma consumed_pos:
  "parse_one_frame preempt buf off buf_len f = Inr (consumed, r, f1) \<Longrightarrow> r \<noteq> PARSE_INCOMPLETE
   \<Longrightarrow> 0 < consumed"
  by (auto simp: parse_one_frame_def Let_def bindR_Inr_iff sizes split: if_splits)

text \<open>The \<open>while\<close> loop of \<open>parse_packet\<close>: the offset where it stops.\<close>

function parse_loop :: "preempt \<Rightarrow> u8 list \<Rightarrow> nat \<Rightarrow> nat \<Rightarrow> fw \<Rightarrow> (nat \<times> fw) res" where
  "parse_loop preempt buf len offset f =
     (if offset < len then
        bindR (parse_one_frame preempt buf offset (len - offset) f) (\<lambda>(consumed, r, f1).
        if r = PARSE_INCOMPLETE then Inr (offset, f1)
        else parse_loop preempt buf len (offset + consumed) f1)
      else Inr (offset, f))"
  by pat_completeness auto
termination
  by (relation "measure (\<lambda>(_, _, len, offset, _). len - offset)") (auto dest: consumed_pos)

declare parse_loop.simps [simp del]

definition parse_packet :: "preempt \<Rightarrow> u8 list \<Rightarrow> nat \<Rightarrow> fw \<Rightarrow> (u8 list \<times> nat \<times> fw) res" where
  "parse_packet preempt buf len f =
     bindR (parse_loop preempt buf len 0 f) (\<lambda>(offset, f1).
     if 0 < offset then
       bindR (mem_read buf offset (len - offset)) (\<lambda>rest.
       bindR (memcpy_to buf 0 rest) (\<lambda>buf1. Inr (buf1, len - offset, f1)))
     else Inr (buf, len, f1))"

text \<open>\<open>handle_frame_Test\<close>.\<close>

definition handle_frame_Test :: "preempt \<Rightarrow> fw \<Rightarrow> fw res" where
  "handle_frame_Test preempt f =
     bindR (handle_frame preempt 0x26 0x01 [1, 2] 0 123 (f\<lparr>parsed_packet := packet_zero\<rparr>)) (\<lambda>f1.
     let p = parsed_packet f1 in
     Inr (f1\<lparr>brd := printf (''[Case 1 - Valid DLC Test] Result -> SID: 0x'' @ fmt_02X (p_sid p) @
            '', Payload[0]: '' @ fmt_dec (unat (p_payload p ! 0)) @ '', Payload[1]: '' @
            fmt_dec (unat (p_payload p ! 1)) @ crlf) (brd f1)\<rparr>))"

end
