(* ===== verification/Gpio.thy ===== *)
theory Gpio
  imports Hardware
begin

text \<open>
  The GPIO driver BSW/src/BKEL_BSW_gpio.c and the LED driver on top of it, BSW/src/BKEL_BSW_led.c.
  A pin is a port and a bit mask. The input register follows the pins, so it is read through the
  hardware parameter; a write to \<open>BSRR\<close> or \<open>BRR\<close> sets and clears bits of the output register, as the
  reference manual says.
\<close>

section \<open>The output register\<close>

text \<open>
  RM0008, 9.2.5 and 9.2.6: writing \<open>BSRR\<close>, the upper half-word clears output bits, the lower one sets
  them, and setting wins; writing \<open>BRR\<close> clears.
\<close>

definition bsrr_effect :: "u32 \<Rightarrow> u32 \<Rightarrow> u32" where
  "bsrr_effect odr v = (odr AND NOT (drop_bit 16 v)) OR (v AND 0xFFFF)"

definition write_BSRR :: "periph \<Rightarrow> u32 \<Rightarrow> board \<Rightarrow> board" where
  "write_BSRR p v b = wr (p, ODR) (bsrr_effect (rd (p, ODR) b) v) (wr (p, BSRR) v b)"

definition write_BRR :: "periph \<Rightarrow> u32 \<Rightarrow> board \<Rightarrow> board" where
  "write_BRR p v b = wr (p, ODR) (rd (p, ODR) b AND NOT (v AND 0xFFFF)) (wr (p, BRR) v b)"

section \<open>The code\<close>

datatype BKEL_GPIO_STATE_T = BKEL_GPIO_U_RESET | BKEL_GPIO_U_SET | BKEL_GPIO_U_STATE_END

record BKEL_gpio_pin =
  Pin_Channel :: periph
  Pin_Number :: u16

definition BKEL_read_pin :: "hw \<Rightarrow> BKEL_gpio_pin \<Rightarrow> board \<Rightarrow> BKEL_GPIO_STATE_T \<times> board" where
  "BKEL_read_pin h gpiopin b =
     (let (v, b1) = vread h (Pin_Channel gpiopin, IDR) b in
      (if v AND ucast (Pin_Number gpiopin) \<noteq> 0 then BKEL_GPIO_U_SET else BKEL_GPIO_U_RESET, b1))"

definition BKEL_write_pin :: "BKEL_gpio_pin \<Rightarrow> BKEL_GPIO_STATE_T \<Rightarrow> board \<Rightarrow> board" where
  "BKEL_write_pin gpiopin pinstate b =
     (if pinstate \<noteq> BKEL_GPIO_U_RESET
      then write_BSRR (Pin_Channel gpiopin) (ucast (Pin_Number gpiopin)) b
      else write_BSRR (Pin_Channel gpiopin) (push_bit 16 (ucast (Pin_Number gpiopin))) b)"

definition BKEL_toggle_pin :: "BKEL_gpio_pin \<Rightarrow> board \<Rightarrow> board" where
  "BKEL_toggle_pin gpiopin b =
     (let odr = rd (Pin_Channel gpiopin, ODR) b; n = ucast (Pin_Number gpiopin) in
      write_BSRR (Pin_Channel gpiopin) (push_bit 16 (odr AND n) OR (NOT odr AND n)) b)"

text \<open>The value of the enumeration, as the diagnostics send it.\<close>

fun pin_value :: "BKEL_GPIO_STATE_T \<Rightarrow> u8" where
  "pin_value BKEL_GPIO_U_RESET = 0"
| "pin_value BKEL_GPIO_U_SET = 1"
| "pin_value BKEL_GPIO_U_STATE_END = 2"

definition led :: BKEL_gpio_pin where
  "led = \<lparr>Pin_Channel = GPIOA, Pin_Number = 0x20\<rparr>"

definition BKEL_LD2_On :: "board \<Rightarrow> board" where
  "BKEL_LD2_On b = BKEL_write_pin led BKEL_GPIO_U_SET b"

definition BKEL_LD2_Off :: "board \<Rightarrow> board" where
  "BKEL_LD2_Off b = BKEL_write_pin led BKEL_GPIO_U_RESET b"

definition BKEL_LD2_Toggle :: "board \<Rightarrow> board" where
  "BKEL_LD2_Toggle b = BKEL_toggle_pin led b"

section \<open>The effect on the pins\<close>

lemma bit_bsrr_effect:
  "n < 32 \<Longrightarrow> bit (bsrr_effect odr v) n \<longleftrightarrow>
     (bit odr n \<and> \<not> bit v (n + 16)) \<or> (n < 16 \<and> bit v n)"
  unfolding bsrr_effect_def
  by (simp only: bit_or_iff bit_and_iff bit_not_iff bit_drop_bit_eq bit_0xFFFF comp_def possible_bit_word)
    (auto simp: add.commute)

lemma bsrr_set: "bsrr_effect odr (ucast (n :: u16)) = odr OR ucast n"
proof (rule bit_word_eqI)
  fix k assume k: "k < LENGTH(32)"
  have "\<not> bit n (k + 16)" by simp
  with k show "bit (bsrr_effect odr (ucast n)) k = bit (odr OR ucast n) k"
    by (cases "k < 16") (auto simp: bit_bsrr_effect bit_or_iff bit_ucast_iff possible_bit_word)
qed

lemma bsrr_reset: "bsrr_effect odr (push_bit 16 (ucast (n :: u16))) = odr AND NOT (ucast n)"
proof (rule bit_word_eqI)
  fix k assume k: "k < LENGTH(32)"
  then show "bit (bsrr_effect odr (push_bit 16 (ucast n))) k = bit (odr AND NOT (ucast n)) k"
    by (cases "k < 16")
      (auto simp: bit_bsrr_effect bit_push_bit_iff bit_and_iff bit_not_iff bit_ucast_iff possible_bit_word)
qed

lemma bsrr_toggle:
  "bsrr_effect odr (push_bit 16 (odr AND ucast (n :: u16)) OR (NOT odr AND ucast n)) = odr XOR ucast n"
proof (rule bit_word_eqI)
  fix k assume k: "k < LENGTH(32)"
  then show "bit (bsrr_effect odr (push_bit 16 (odr AND ucast n) OR (NOT odr AND ucast n))) k =
      bit (odr XOR ucast n) k"
    by (cases "k < 16")
      (auto simp: bit_bsrr_effect bit_push_bit_iff bit_and_iff bit_or_iff bit_xor_iff bit_not_iff
        bit_ucast_iff possible_bit_word)
qed

lemma odr_write:
  "rd (Pin_Channel g, ODR) (BKEL_write_pin g s b) =
     (if s = BKEL_GPIO_U_RESET then rd (Pin_Channel g, ODR) b AND NOT (ucast (Pin_Number g))
      else rd (Pin_Channel g, ODR) b OR ucast (Pin_Number g))"
  by (simp add: BKEL_write_pin_def write_BSRR_def bsrr_set bsrr_reset)

lemma odr_toggle:
  "rd (Pin_Channel g, ODR) (BKEL_toggle_pin g b) = rd (Pin_Channel g, ODR) b XOR ucast (Pin_Number g)"
  unfolding BKEL_toggle_pin_def Let_def write_BSRR_def rd_wr
  by (simp only: if_True simp_thms bsrr_toggle)

text \<open>The LED operations change exactly bit 5 of port A's output register: on sets it, off clears
  it, toggle inverts it, and every other pin of the port keeps its level.\<close>

lemma led_changes_pin_5_only:
  "bit (rd (GPIOA, ODR) (BKEL_LD2_On b)) n = (n = 5 \<or> bit (rd (GPIOA, ODR) b) n)"
  "bit (rd (GPIOA, ODR) (BKEL_LD2_Off b)) n = (n \<noteq> 5 \<and> bit (rd (GPIOA, ODR) b) n)"
  "bit (rd (GPIOA, ODR) (BKEL_LD2_Toggle b)) n = ((n = 5) \<noteq> bit (rd (GPIOA, ODR) b) n)"
proof -
  have mask: "bit (0x20 :: u32) k \<longleftrightarrow> k = 5" for k
  proof -
    have "(0x20 :: u32) = push_bit 5 1" by simp
    then show ?thesis
      by (simp only: bit_push_bit_iff bit_1_iff possible_bit_word) auto
  qed
  have "rd (GPIOA, ODR) (BKEL_LD2_On b) = rd (GPIOA, ODR) b OR 0x20"
    "rd (GPIOA, ODR) (BKEL_LD2_Off b) = rd (GPIOA, ODR) b AND NOT 0x20"
    "rd (GPIOA, ODR) (BKEL_LD2_Toggle b) = rd (GPIOA, ODR) b XOR 0x20"
    using odr_write [of led _ b] odr_toggle [of led b]
    by (simp_all add: led_def BKEL_LD2_On_def BKEL_LD2_Off_def BKEL_LD2_Toggle_def)
  then show "bit (rd (GPIOA, ODR) (BKEL_LD2_On b)) n = (n = 5 \<or> bit (rd (GPIOA, ODR) b) n)"
    "bit (rd (GPIOA, ODR) (BKEL_LD2_Off b)) n = (n \<noteq> 5 \<and> bit (rd (GPIOA, ODR) b) n)"
    "bit (rd (GPIOA, ODR) (BKEL_LD2_Toggle b)) n = ((n = 5) \<noteq> bit (rd (GPIOA, ODR) b) n)"
    by (simp_all only: bit_or_iff bit_and_iff bit_not_iff bit_xor_iff mask possible_bit_word)
      (use bit_imp_le_length in force)+
qed

text \<open>Toggling twice gives the old level back: the second toggle reads what the first one wrote.\<close>

lemma led_toggle_twice: "rd (GPIOA, ODR) (BKEL_LD2_Toggle (BKEL_LD2_Toggle b)) = rd (GPIOA, ODR) b"
  using odr_toggle [of led b] odr_toggle [of led "BKEL_toggle_pin led b"]
  by (simp add: led_def BKEL_LD2_Toggle_def xor.assoc)

end
