(* ===== verification/Pwm.thy ===== *)
theory Pwm
  imports Hardware
begin

text \<open>
  The PWM output driver on TIM2, BSW/src/BKEL_BSW_pwm.c: setting the frequency (the argument is in
  kHz) and the duty cycle, and reading both back from the timer's registers. The timer counts at
  1 MHz. Also the test routine of ASW/src/BKEL_APP_pwm.c.
\<close>

section \<open>The code\<close>

definition BKEL_PWM_SetPeriod :: "u8 \<Rightarrow> board \<Rightarrow> board" where
  "BKEL_PWM_SetPeriod period b =
     (if period = 0 then b
      else wr (TIM2, ARR) (of_nat (1000000 div (unat period * 1000))) b)"

definition BKEL_PWM_SetDuty :: "u8 \<Rightarrow> board \<Rightarrow> board" where
  "BKEL_PWM_SetDuty duty_percent b =
     (let d = (if 100 < duty_percent then 100 else duty_percent) in
      wr (TIM2, CCR1) ((rd (TIM2, ARR) b + 1) * ucast d div 100) b)"

definition BKEL_PWM_ReadDuty :: "board \<Rightarrow> u8" where
  "BKEL_PWM_ReadDuty b =
     (let period = ucast (rd (TIM2, ARR) b) :: u16;
          Thigh = ucast (rd (TIM2, CCR1) b) :: u16;
          duty = (if 0 < period then ucast ((ucast Thigh * 100 :: u32) div ucast period) else 999 :: u16)
      in ucast duty)"

definition BKEL_PWM_ReadPeriod :: "board \<Rightarrow> u8" where
  "BKEL_PWM_ReadPeriod b =
     (let period = ucast (rd (TIM2, ARR) b) :: u16;
          period = (if 0 < period then of_nat (1000000 div unat period) else period)
      in ucast ((ucast period :: u32) div 999))"

text \<open>\<open>AppPwmTest\<close>: \<open>duty\<close> is its static variable.\<close>

definition AppPwmTest :: "u8 \<Rightarrow> board \<Rightarrow> u8 \<times> board" where
  "AppPwmTest duty b =
     (let b1 = BKEL_PWM_SetDuty duty b in (if duty < 100 then duty + 10 else 0, b1))"

section \<open>The numbers behind the registers\<close>

definition arr_of :: "nat \<Rightarrow> nat" where
  "arr_of p = 1000 div p"

lemma arr_of_alt: "1000000 div (p * 1000) = arr_of p"
  using div_mult_mult2 [of 1000 1000 p] by (simp add: arr_of_def mult.commute)

lemma arr_of_le: "arr_of p \<le> 1000"
  by (simp add: arr_of_def)

lemma set_period_arr:
  assumes "p \<noteq> 0"
  shows "rd (TIM2, ARR) (BKEL_PWM_SetPeriod p b) = of_nat (arr_of (unat p))"
  using assms by (simp add: BKEL_PWM_SetPeriod_def arr_of_alt)

lemma set_duty_ccr:
  assumes "rd (TIM2, ARR) b = of_nat a" and "a \<le> 1000"
  shows "rd (TIM2, CCR1) (BKEL_PWM_SetDuty d b) = of_nat (Suc a * min (unat d) 100 div 100)"
proof -
  have d: "unat (if 100 < d then 100 else d) = min (unat d) 100"
    by (auto simp: word_less_nat_alt min_def)
  have "unat (if 100 < d then 100 else d) \<le> 100" by (simp only: d)
  then have "Suc a * unat (if 100 < d then 100 else d) \<le> 1001 * 100"
    using assms(2) by (intro mult_mono) auto
  then have lt: "Suc a * unat (if 100 < d then 100 else d) < 2 ^ LENGTH(32)" by simp
  have "(of_nat a + 1) * ucast (if 100 < d then 100 else d) =
      (of_nat (Suc a * unat (if 100 < d then 100 else d)) :: u32)"
    by (simp add: distrib_left distrib_right mult.commute)
  then have "unat (((of_nat a + 1) * ucast (if 100 < d then 100 else d)) div 100 :: u32) =
      Suc a * unat (if 100 < d then 100 else d) div 100"
    by (simp only: unat_div unat_of_nat_small [OF lt]) simp
  then have "(of_nat a + 1) * ucast (if 100 < d then 100 else d) div 100 =
      (of_nat (Suc a * unat (if 100 < d then 100 else d) div 100) :: u32)"
    by (rule eq_of_nat_unat)
  then show ?thesis
    using assms(1) by (simp only: BKEL_PWM_SetDuty_def Let_def rd_wr if_True simp_thms d)
qed

lemma ucast_of_nat_u16: "n < 65536 \<Longrightarrow> unat (ucast (of_nat n :: u32) :: u16) = n"
  by (simp add: unat_ucast_down unat_of_nat_small)

lemma read_duty_value:
  assumes "rd (TIM2, ARR) b = of_nat a" and "rd (TIM2, CCR1) b = of_nat c"
    and "0 < a" and "a \<le> 1000" and "c \<le> 1001" and "c * 100 div a < 256"
  shows "unat (BKEL_PWM_ReadDuty b) = c * 100 div a"
proof -
  let ?p = "ucast (of_nat a :: u32) :: u16" and ?t = "ucast (of_nat c :: u32) :: u16"
  have p: "unat ?p = a" and t: "unat ?t = c"
    using assms(4,5) by (simp_all add: ucast_of_nat_u16)
  have "unat (ucast ?t * 100 :: u32) = c * 100"
    using assms(5) by (simp add: unat_word_ariths unat_ucast_up t)
  then have "unat ((ucast ?t * 100 :: u32) div ucast ?p) = c * 100 div a"
    by (simp add: unat_div p unat_ucast_up)
  then have "unat (ucast (ucast ((ucast ?t * 100 :: u32) div ucast ?p) :: u16) :: u8) = c * 100 div a"
    using assms(6) by (simp add: unat_ucast_down)
  moreover have "0 < ?p" using p assms(3) by (simp add: word_less_nat_alt)
  ultimately show ?thesis
    by (simp only: BKEL_PWM_ReadDuty_def Let_def assms(1,2) if_True)
qed

lemma read_period_value:
  assumes "rd (TIM2, ARR) b = of_nat a" and "0 < a" and "a \<le> 1000"
  shows "unat (BKEL_PWM_ReadPeriod b) = (1000000 div a) mod 65536 div 999"
proof -
  let ?p = "ucast (of_nat a :: u32) :: u16"
  let ?q = "of_nat (1000000 div a) :: u16"
  have p: "unat ?p = a" using assms(3) by (simp add: ucast_of_nat_u16)
  have q: "unat ?q = (1000000 div a) mod 65536"
    by (simp only: unsigned_of_nat) (simp add: take_bit_eq_mod)
  have "unat ((ucast ?q :: u32) div 999) = unat ?q div 999"
    by (simp add: unat_div unat_ucast_up)
  moreover have "unat ?q div 999 < 256" by (simp only: q)
  ultimately have "unat (ucast ((ucast ?q :: u32) div 999) :: u8) = unat ?q div 999"
    by (simp only: unat_ucast_down)
  moreover have "0 < ?p" using p assms(2) by (simp add: word_less_nat_alt)
  ultimately show ?thesis
    by (simp only: BKEL_PWM_ReadPeriod_def Let_def assms(1) if_True p q)
qed

text \<open>What the command \<open>RPC_PWM_SETOUT\<close> does: period, then duty.\<close>

definition pwm_set :: "u8 \<Rightarrow> u8 \<Rightarrow> board \<Rightarrow> board" where
  "pwm_set p d b = BKEL_PWM_SetDuty d (BKEL_PWM_SetPeriod p b)"

lemma pwm_set_regs:
  assumes "p \<noteq> 0"
  shows "rd (TIM2, ARR) (pwm_set p d b) = of_nat (arr_of (unat p))"
    and "rd (TIM2, CCR1) (pwm_set p d b) = of_nat (Suc (arr_of (unat p)) * min (unat d) 100 div 100)"
proof -
  show arr: "rd (TIM2, ARR) (pwm_set p d b) = of_nat (arr_of (unat p))"
    using set_period_arr [OF assms] by (simp add: pwm_set_def BKEL_PWM_SetDuty_def Let_def)
  show "rd (TIM2, CCR1) (pwm_set p d b) = of_nat (Suc (arr_of (unat p)) * min (unat d) 100 div 100)"
    unfolding pwm_set_def
    by (rule set_duty_ccr [OF set_period_arr [OF assms] arr_of_le])
qed

lemma arr_of_bounds:
  assumes "0 < p" and "p < 256"
  shows "3 \<le> arr_of p" and "p \<le> 9 \<Longrightarrow> 111 \<le> arr_of p"
proof -
  have "1000 div 255 \<le> 1000 div p" using assms by (intro div_le_mono2) auto
  then show "3 \<le> arr_of p" by (simp add: arr_of_def)
  assume "p \<le> 9"
  then have "1000 div 9 \<le> 1000 div p" using assms by (intro div_le_mono2) auto
  then show "111 \<le> arr_of p" by (simp add: arr_of_def)
qed

lemma duty_readback_bounds:
  fixes a d :: nat
  assumes "0 < a" and "d \<le> 100"
  shows "(Suc a * d div 100) * 100 div a \<le> d + d div a"
    and "100 < a \<Longrightarrow> d \<le> Suc ((Suc a * d div 100) * 100 div a)"
proof -
  let ?c = "Suc a * d div 100"
  have "?c * 100 \<le> Suc a * d" by simp
  also have "\<dots> = d + d * a" by simp
  finally have "?c * 100 div a \<le> (d + d * a) div a" by (rule div_le_mono)
  then show "?c * 100 div a \<le> d + d div a" using assms(1) by simp
  assume a: "100 < a"
  have "Suc a * d = ?c * 100 + Suc a * d mod 100" by (metis div_mult_mod_eq)
  moreover have "Suc a * d mod 100 < 100" by simp
  ultimately have "d * a < ?c * 100 + a" using a by (simp add: algebra_simps)
  then have "d * a < (?c * 100 div a) * a + a + a"
    using div_mult_mod_eq [of "?c * 100" a] mod_less_divisor [OF assms(1), of "?c * 100"] by linarith
  then have "d * a < (?c * 100 div a + 2) * a" by (simp add: algebra_simps)
  then have "d < ?c * 100 div a + 2" by (simp only: mult_less_cancel2)
  then show "d \<le> Suc (?c * 100 div a)" by simp
qed

lemma period_round:
  assumes "1 \<le> p" and "p \<le> 35"
  shows "1000000 div arr_of p mod 65536 div 999 = p"
proof (cases "p = 1")
  case False
  have "list_all (\<lambda>p. 1000000 div arr_of p mod 65536 div 999 = p) [2..<36]"
    by (simp add: arr_of_def)
  moreover have "p \<in> set [2..<36]" unfolding set_upt using False assms by auto
  ultimately show ?thesis by (simp only: list_all_iff)
qed (simp add: arr_of_def)

section \<open>Properties\<close>

text \<open>for every frequency from 1 to 35 kHz the diagnosis reads back the frequency that was set.\<close>

theorem pwm_period_readback:
  assumes "1 \<le> unat p" and "unat p \<le> 35"
  shows "BKEL_PWM_ReadPeriod (pwm_set p d b) = p"
proof -
  have nz: "p \<noteq> 0" using assms(1) by auto
  have "3 \<le> arr_of (unat p)" using arr_of_bounds(1) [of "unat p"] assms by simp
  then have "unat (BKEL_PWM_ReadPeriod (pwm_set p d b)) = unat p"
    using read_period_value [OF pwm_set_regs(1) [OF nz] _ arr_of_le] period_round [of "unat p"] assms
    by simp
  then show ?thesis by (simp add: word_unat_eq_iff)
qed

theorem pwm_period_readback_witness: "\<forall>b. BKEL_PWM_ReadPeriod (pwm_set 20 50 b) = 20"
  by (intro allI, rule pwm_period_readback) simp_all

text \<open>up to 9 kHz the diagnosis reads back the duty cycle that was set (capped at 100), at most
  one percent lower, and never above it.\<close>

theorem pwm_duty_readback:
  assumes "1 \<le> unat p" and "unat p \<le> 9"
  shows "unat (BKEL_PWM_ReadDuty (pwm_set p d b)) \<le> min (unat d) 100 \<and>
    min (unat d) 100 \<le> Suc (unat (BKEL_PWM_ReadDuty (pwm_set p d b)))"
proof -
  let ?a = "arr_of (unat p)" and ?d = "min (unat d) 100"
  let ?c = "Suc ?a * ?d div 100"
  have nz: "p \<noteq> 0" using assms(1) by auto
  have a: "111 \<le> ?a" using arr_of_bounds(2) [of "unat p"] assms by simp
  have up: "?c * 100 div ?a \<le> ?d" and low: "?d \<le> Suc (?c * 100 div ?a)"
    using duty_readback_bounds [of ?a ?d] a by simp_all
  have "Suc ?a * ?d \<le> 1001 * 100" using arr_of_le [of "unat p"] by (intro mult_mono) auto
  then have "?c \<le> 1001" using div_le_mono [of "Suc ?a * ?d" "1001 * 100" 100] by simp
  moreover have "?c * 100 div ?a < 256" using up by simp
  ultimately have "unat (BKEL_PWM_ReadDuty (pwm_set p d b)) = ?c * 100 div ?a"
    using read_duty_value [OF pwm_set_regs [OF nz] _ arr_of_le] a by simp
  then show ?thesis using up low by simp
qed

theorem pwm_duty_readback_witness:
  "\<forall>b. unat (BKEL_PWM_ReadDuty (pwm_set 7 200 b)) \<le> 100 \<and> 99 \<le> unat (BKEL_PWM_ReadDuty (pwm_set 7 200 b))"
  using pwm_duty_readback [of 7 200] by simp

text \<open>Above 9 kHz a duty cycle of 100 is read back as more than 100: the compare value is
  \<open>ARR + 1\<close> and the reading divides by \<open>ARR\<close>; from 10 kHz on the excess is \<open>100 / ARR\<close>.\<close>

theorem pwm_duty_overshoot:
  assumes "10 \<le> unat p"
  shows "unat (BKEL_PWM_ReadDuty (pwm_set p 100 b)) = 100 + 100 div (1000 div unat p) \<and>
    100 < unat (BKEL_PWM_ReadDuty (pwm_set p 100 b))"
proof -
  let ?a = "arr_of (unat p)"
  have nz: "p \<noteq> 0" using assms by auto
  have p: "unat p < 256" using unsigned_less [of p] by simp
  have "1000 div unat p \<le> 1000 div 10" using assms by (intro div_le_mono2) auto
  then have a: "3 \<le> ?a" "?a \<le> 100"
    using arr_of_bounds(1) [of "unat p"] assms p by (simp_all add: arr_of_def)
  have c: "Suc ?a * 100 div 100 = Suc ?a" by (rule nonzero_mult_div_cancel_right) simp
  have val: "Suc ?a * 100 div ?a = 100 + 100 div ?a"
  proof -
    have "Suc ?a * 100 = 100 + 100 * ?a" by simp
    then show ?thesis using a(1) by (simp only: div_mult_self1)
  qed
  have "100 div ?a \<le> 100 div 3" using a(1) by (intro div_le_mono2) auto
  then have lt: "Suc ?a * 100 div ?a < 256" by (simp only: val)
  have "unat (BKEL_PWM_ReadDuty (pwm_set p 100 b)) = 100 + 100 div ?a"
    unfolding val [symmetric] using read_duty_value [OF pwm_set_regs [OF nz, of 100] _ arr_of_le] a lt c by simp
  moreover have "1 \<le> 100 div ?a" using a div_le_mono [of ?a 100 ?a] by simp
  ultimately show ?thesis by (simp add: arr_of_def)
qed

theorem pwm_duty_overshoot_witness: "\<forall>b. unat (BKEL_PWM_ReadDuty (pwm_set 255 100 b)) = 133"
  using pwm_duty_overshoot [of 255] by simp

text \<open>Frequencies from 63 kHz on are not read back: one million divided by the reload value no
  longer fits the 16-bit variable of \<open>BKEL_PWM_ReadPeriod\<close> and wraps.\<close>

theorem pwm_period_wraps:
  assumes "63 \<le> unat p"
  shows "unat (BKEL_PWM_ReadPeriod (pwm_set p d b)) = 1000000 div (1000 div unat p) mod 65536 div 999 \<and>
    65536 \<le> 1000000 div (1000 div unat p)"
proof -
  have nz: "p \<noteq> 0" using assms by auto
  have p: "unat p < 256" using unsigned_less [of p] by simp
  have "1000 div unat p \<le> 1000 div 63" using assms by (intro div_le_mono2) auto
  then have a: "3 \<le> arr_of (unat p)" "arr_of (unat p) \<le> 15"
    using arr_of_bounds(1) [of "unat p"] assms p by (simp_all add: arr_of_def)
  have "1000000 div 15 \<le> 1000000 div arr_of (unat p)" using a by (intro div_le_mono2) auto
  then show ?thesis
    using read_period_value [OF pwm_set_regs(1) [OF nz] _ arr_of_le, of d b] a
    by (simp add: arr_of_def)
qed

theorem pwm_period_wraps_witness: "\<forall>b. unat (BKEL_PWM_ReadPeriod (pwm_set 100 50 b)) = 34"
  using pwm_period_wraps [of 100 50] by simp

end
