(* ===== verification/PwmInput.thy ===== *)
theory PwmInput
  imports Complex_Main Hardware
begin

text \<open>
  The PWM measurement, \<open>BKEL_PWM_Input_Read_TIM3\<close> of BSW/src/BKEL_BSW_pwm.c. It computes with
  \<open>float\<close>: every operation rounds its exact result to a 24-bit significand, to nearest, ties to
  even. \<open>f32\<close> is that rounding on positive rationals; the values of this code are far from the
  limits of the exponent. The capture registers are written by the timer, so they are read through
  the hardware parameter.
\<close>

section \<open>Single precision\<close>

fun ilog2 :: "nat \<Rightarrow> nat" where
  "ilog2 n = (if n < 2 then 0 else Suc (ilog2 (n div 2)))"

declare ilog2.simps [simp del]

definition f32_exponent :: "rat \<Rightarrow> int" where
  "f32_exponent x =
     (let (p, q) = quotient_of x; e = int (ilog2 (nat p)) - int (ilog2 (nat q))
      in if 2 powi e \<le> x then e else e - 1)"

definition round_half_even :: "rat \<Rightarrow> int" where
  "round_half_even y =
     (let n = \<lfloor>y\<rfloor>; r = y - of_int n in
      if r < 1 / 2 then n else if 1 / 2 < r then n + 1 else if even n then n else n + 1)"

definition f32 :: "rat \<Rightarrow> rat" where
  "f32 x = (if x \<le> 0 then 0 else
     let u = 2 powi (f32_exponent x - 23) in of_int (round_half_even (x / u)) * u)"

section \<open>The code\<close>

record BKEL_BSW_PwmInput_t =
  period_cnt :: u32
  high_cnt :: u32
  duty_percent :: rat
  freq_hz :: rat
  pwm_valid :: u8

definition duty_of :: "u32 \<Rightarrow> u32 \<Rightarrow> rat" where
  "duty_of period high =
     f32 (f32 (f32 (of_nat (unat high)) / f32 (of_nat (unat period))) * 100)"

definition freq_of :: "u32 \<Rightarrow> rat" where
  "freq_of period = f32 (f32 72000000 / f32 (f32 71 * f32 (of_nat (unat period))))"

text \<open>\<open>pOut\<close> is not \<open>NULL\<close> in the firmware; an invalid measurement changes the flag only.\<close>

definition BKEL_PWM_Input_Read_TIM3 :: "hw \<Rightarrow> BKEL_BSW_PwmInput_t \<Rightarrow> board \<Rightarrow> BKEL_BSW_PwmInput_t \<times> board" where
  "BKEL_PWM_Input_Read_TIM3 h pOut b =
     (let (period, b1) = vread h (TIM3, CCR1) b; (high, b2) = vread h (TIM3, CCR2) b1 in
      if period = 0 \<or> period < high then (pOut\<lparr>pwm_valid := 0\<rparr>, b2)
      else (pOut\<lparr>period_cnt := period, high_cnt := high, duty_percent := duty_of period high,
                freq_hz := freq_of period, pwm_valid := 1\<rparr>, b2))"

text \<open>The conversion of a \<open>float\<close> to \<open>uint8_t\<close> truncates; it is undefined from 256 on.\<close>

definition f32_to_u8 :: "rat \<Rightarrow> u8 res" where
  "f32_to_u8 x = (if 0 \<le> x \<and> x < 256 then Inr (of_int \<lfloor>x\<rfloor>) else Inl Undefined)"

section \<open>Rounding\<close>

lemma ilog2_bounds: "0 < n \<Longrightarrow> 2 ^ ilog2 n \<le> n \<and> n < 2 ^ Suc (ilog2 n)"
proof (induction n rule: ilog2.induct)
  case (1 n)
  show ?case
  proof (cases "n < 2")
    case True
    then show ?thesis using 1(2) by (subst (1 2) ilog2.simps) simp
  next
    case False
    have "2 ^ ilog2 (n div 2) \<le> n div 2 \<and> n div 2 < 2 ^ Suc (ilog2 (n div 2))"
      using 1(1) False by simp
    then show ?thesis using False by (subst (1 2) ilog2.simps) auto
  qed
qed

lemma f32_exponent_bounds:
  assumes "0 < x"
  shows "2 powi f32_exponent x \<le> x" and "x < 2 powi (f32_exponent x + 1)"
proof -
  obtain p q where pq: "quotient_of x = (p, q)" by fastforce
  have q: "0 < q" using quotient_of_denom_pos [OF pq] .
  have x: "x = of_int p / of_int q" using quotient_of_div [OF pq] .
  have p: "0 < p" using assms q by (simp add: x zero_less_divide_iff)
  define a c where "a = ilog2 (nat p)" and "c = ilog2 (nat q)"
  have "(2 :: nat) ^ a \<le> nat p \<and> nat p < 2 ^ Suc a" "(2 :: nat) ^ c \<le> nat q \<and> nat q < 2 ^ Suc c"
    using ilog2_bounds [of "nat p"] ilog2_bounds [of "nat q"] p q by (simp_all add: a_def c_def)
  then have "(2 :: int) ^ a \<le> p" "p < 2 ^ Suc a" "(2 :: int) ^ c \<le> q" "q < 2 ^ Suc c"
    using p q by (simp_all add: nat_less_iff le_nat_iff)
  then have P: "(2 :: rat) ^ a \<le> of_int p" "(of_int p :: rat) < 2 ^ Suc a"
    and Q: "(2 :: rat) ^ c \<le> of_int q" "(of_int q :: rat) < 2 ^ Suc c"
    by (metis of_int_le_iff of_int_power of_int_numeral, metis of_int_less_iff of_int_power of_int_numeral,
        metis of_int_le_iff of_int_power of_int_numeral, metis of_int_less_iff of_int_power of_int_numeral)
  have qpos: "(0 :: rat) < of_int q" using q by simp
  have "x < 2 ^ Suc a / 2 ^ c"
    unfolding x using P Q qpos p by (intro frac_less) auto
  moreover have "2 ^ a / 2 ^ Suc c < x"
    unfolding x using P Q qpos p by (intro frac_less2) auto
  moreover have "(2 :: rat) ^ Suc a / 2 ^ c = 2 powi (int a - int c + 1)"
    "(2 :: rat) ^ a / 2 ^ Suc c = 2 powi (int a - int c - 1)"
    by (simp_all add: power_int_add power_int_diff)
  ultimately have b: "2 powi (int a - int c - 1) < x" "x < 2 powi (int a - int c + 1)" by simp_all
  have e: "f32_exponent x = (if 2 powi (int a - int c) \<le> x then int a - int c else int a - int c - 1)"
    by (simp add: f32_exponent_def pq a_def c_def Let_def)
  show "2 powi f32_exponent x \<le> x" using b by (auto simp: e)
  show "x < 2 powi (f32_exponent x + 1)" using b by (auto simp: e not_le)
qed

lemma round_half_even_le: "y \<le> of_int n \<Longrightarrow> round_half_even y \<le> n"
proof -
  assume y: "y \<le> of_int n"
  have "\<lfloor>y\<rfloor> \<le> n" using floor_mono [OF y] by simp
  moreover have "y - of_int \<lfloor>y\<rfloor> \<ge> 1 / 2 \<Longrightarrow> \<lfloor>y\<rfloor> \<noteq> n" using y by auto
  ultimately show ?thesis by (auto simp: round_half_even_def Let_def)
qed

lemma round_half_even_nonneg: "0 \<le> y \<Longrightarrow> 0 \<le> round_half_even y"
  by (auto simp: round_half_even_def Let_def zero_le_floor add_nonneg_nonneg)

lemma round_half_even_int [simp]: "round_half_even (of_int n) = n"
  by (simp add: round_half_even_def)

lemma f32_nonneg: "0 \<le> f32 x"
proof (cases "x \<le> 0")
  case False
  then have "0 \<le> round_half_even (x / 2 powi (f32_exponent x - 23))"
    by (intro round_half_even_nonneg) simp
  then show ?thesis using False by (simp add: f32_def Let_def)
qed (simp add: f32_def)

lemma round_half_even_mono: "x \<le> y \<Longrightarrow> round_half_even x \<le> round_half_even y"
proof -
  assume le: "x \<le> y"
  then have fl: "\<lfloor>x\<rfloor> \<le> \<lfloor>y\<rfloor>" by (rule floor_mono)
  show ?thesis
  proof (cases "\<lfloor>x\<rfloor> = \<lfloor>y\<rfloor>")
    case True
    then show ?thesis using le by (auto simp: round_half_even_def Let_def)
  next
    case False
    then have "\<lfloor>x\<rfloor> + 1 \<le> \<lfloor>y\<rfloor>" using fl by simp
    then show ?thesis by (auto simp: round_half_even_def Let_def)
  qed
qed

text \<open>An integer of at most 24 bits, times a power of two, is a \<open>float\<close>, so rounding does not cross it.\<close>

lemma f32_grid:
  assumes "f32_exponent x \<le> 23 + int k"
  obtains m where "of_nat n * 2 ^ k / (2 :: rat) powi (f32_exponent x - 23) = of_int m"
proof -
  obtain j where j: "23 + int k - f32_exponent x = int j" using assms by (metis nonneg_int_cases diff_ge_0_iff_ge)
  have "(2 :: rat) ^ k / 2 powi (f32_exponent x - 23) = 2 powi (int k - (f32_exponent x - 23))"
    by (simp add: power_int_diff)
  also have "\<dots> = 2 ^ j"
  proof -
    have "int k - (f32_exponent x - 23) = int j" using j by simp
    then show ?thesis by (simp only: power_int_of_nat)
  qed
  finally have "of_nat n * 2 ^ k / (2 :: rat) powi (f32_exponent x - 23) = of_int (int n * 2 ^ j)"
    by (simp only: times_divide_eq_right [symmetric]) simp
  then show ?thesis by (rule that)
qed

lemma f32_exponent_le:
  assumes "0 < x" and "x < 2 ^ n"
  shows "f32_exponent x < int n"
proof -
  have "(2 :: rat) powi f32_exponent x < 2 powi int n" using f32_exponent_bounds(1) [OF assms(1)] assms(2) by simp
  then show ?thesis by (metis linorder_not_le not_less_iff_gr_or_eq numeral_le_one_iff one_le_numeral power_int_increasing)
qed

lemma f32_le_scaled:
  assumes "x \<le> of_nat n * 2 ^ k" and "n < 2 ^ 24"
  shows "f32 x \<le> of_nat n * 2 ^ k"
proof (cases "x \<le> 0")
  case False
  then have x: "0 < x" by simp
  let ?u = "(2 :: rat) powi (f32_exponent x - 23)"
  have n: "(of_nat n :: rat) < 2 ^ 24" using assms(2) by (metis of_nat_less_iff of_nat_numeral of_nat_power)
  have "x < 2 ^ (24 + k)"
    using assms(1) n by (simp only: power_add) (meson le_less_trans mult_strict_right_mono zero_less_numeral zero_less_power)
  then have "f32_exponent x \<le> 23 + int k" using f32_exponent_le [OF x] by fastforce
  then obtain m where m: "of_nat n * 2 ^ k / ?u = of_int m" by (rule f32_grid)
  have u: "0 < ?u" by simp
  have "x / ?u \<le> of_int m" unfolding m [symmetric] using assms(1) u by (simp only: divide_right_mono less_imp_le)
  then have "of_int (round_half_even (x / ?u)) \<le> (of_int m :: rat)" by (simp only: of_int_le_iff round_half_even_le)
  then have "of_int (round_half_even (x / ?u)) * ?u \<le> of_nat n * 2 ^ k"
    unfolding m [symmetric] using u by (simp only: pos_le_divide_eq)
  then show ?thesis using False by (simp add: f32_def Let_def)
qed (simp add: f32_def)

lemma f32_le_nat: "x \<le> of_nat n \<Longrightarrow> n < 2 ^ 24 \<Longrightarrow> f32 x \<le> of_nat n"
  using f32_le_scaled [of x n 0] by simp

lemma f32_binade:
  assumes "0 < x"
  shows "2 powi f32_exponent x \<le> f32 x" and "f32 x \<le> 2 powi (f32_exponent x + 1)"
proof -
  define e where "e = f32_exponent x"
  define u :: rat where "u = 2 powi (e - 23)"
  have u: "0 < u" by (simp add: u_def)
  have p: "(2 :: rat) powi e = of_int (2 ^ 23) * u" "(2 :: rat) powi (e + 1) = of_int (2 ^ 24) * u"
    by (simp_all add: u_def power_int_diff power_int_add)
  have b: "2 powi e \<le> x" "x \<le> 2 powi (e + 1)"
    using f32_exponent_bounds [OF assms] by (simp_all add: e_def)
  have "of_int (2 ^ 23) \<le> x / u" using b(1) u unfolding p by (simp only: pos_le_divide_eq)
  then have "2 ^ 23 \<le> round_half_even (x / u)"
    using round_half_even_mono [of "of_int (2 ^ 23)"] by (simp only: round_half_even_int)
  then have "(of_int (2 ^ 23) :: rat) \<le> of_int (round_half_even (x / u))" by (simp only: of_int_le_iff)
  then have "2 powi e \<le> of_int (round_half_even (x / u)) * u"
    unfolding p using u by (intro mult_right_mono) auto
  moreover have "x / u \<le> of_int (2 ^ 24)" using b(2) u unfolding p by (simp only: pos_divide_le_eq)
  then have "round_half_even (x / u) \<le> 2 ^ 24" by (rule round_half_even_le)
  then have "(of_int (round_half_even (x / u)) :: rat) \<le> of_int (2 ^ 24)" by (simp only: of_int_le_iff)
  then have "of_int (round_half_even (x / u)) * u \<le> 2 powi (e + 1)"
    unfolding p using u by (intro mult_right_mono) auto
  ultimately show "2 powi f32_exponent x \<le> f32 x" and "f32 x \<le> 2 powi (f32_exponent x + 1)"
    using assms by (simp_all add: f32_def Let_def e_def u_def)
qed

lemma f32_pos: "0 < x \<Longrightarrow> 0 < f32 x"
  using f32_binade(1) [of x] zero_less_power_int [of "2 :: rat" "f32_exponent x"] by linarith

lemma f32_mono:
  assumes "x \<le> y"
  shows "f32 x \<le> f32 y"
proof (cases "x \<le> 0")
  case True
  then show ?thesis using f32_nonneg [of y] by (simp add: f32_def)
next
  case False
  then have x: "0 < x" and y: "0 < y" using assms by simp_all
  show ?thesis
  proof (cases "f32_exponent x = f32_exponent y")
    case True
    have "x / 2 powi (f32_exponent x - 23) \<le> y / 2 powi (f32_exponent x - 23)"
      using assms by (simp add: divide_right_mono)
    then have "round_half_even (x / 2 powi (f32_exponent x - 23)) \<le>
        round_half_even (y / 2 powi (f32_exponent x - 23))"
      by (rule round_half_even_mono)
    then show ?thesis using x y True by (simp add: f32_def Let_def mult_right_mono)
  next
    case False
    have "f32_exponent x < f32_exponent y + 1"
    proof (rule ccontr)
      assume "\<not> ?thesis"
      then have "(2 :: rat) powi (f32_exponent y + 1) \<le> 2 powi f32_exponent x"
        by (intro power_int_increasing) simp_all
      then show False using f32_exponent_bounds [OF x] f32_exponent_bounds [OF y] assms by linarith
    qed
    then have "(2 :: rat) powi (f32_exponent x + 1) \<le> 2 powi f32_exponent y"
      using False by (intro power_int_increasing) simp_all
    then show ?thesis using f32_binade(2) [OF x] f32_binade(1) [OF y] by linarith
  qed
qed

lemma f32_ge_scaled:
  assumes "of_nat n * 2 ^ k \<le> x" and "n < 2 ^ 24"
  shows "of_nat n * 2 ^ k \<le> f32 x"
proof (cases "n = 0")
  case False
  then have "0 < of_nat n * (2 :: rat) ^ k" by simp
  then have x: "0 < x" using assms(1) by linarith
  show ?thesis
  proof (cases "f32_exponent x \<le> 23 + int k")
    case True
    let ?u = "(2 :: rat) powi (f32_exponent x - 23)"
    obtain m where m: "of_nat n * 2 ^ k / ?u = of_int m" using f32_grid [OF True] .
    have u: "0 < ?u" by simp
    have "of_int m \<le> x / ?u" unfolding m [symmetric] using assms(1) u by (simp only: divide_right_mono less_imp_le)
    then have "m \<le> round_half_even (x / ?u)" using round_half_even_mono by (metis round_half_even_int)
    then have "(of_int m :: rat) \<le> of_int (round_half_even (x / ?u))" by (simp only: of_int_le_iff)
    then have "of_nat n * 2 ^ k \<le> of_int (round_half_even (x / ?u)) * ?u"
      unfolding m [symmetric] using u by (simp only: pos_divide_le_eq)
    then show ?thesis using x by (simp add: f32_def Let_def)
  next
    case False
    have "(of_nat n :: rat) < 2 ^ 24" using assms(2) by (metis of_nat_less_iff of_nat_numeral of_nat_power)
    then have "of_nat n * 2 ^ k \<le> (2 :: rat) ^ 24 * 2 ^ k" by (intro mult_right_mono) simp_all
    also have "\<dots> = 2 powi (24 + int k)" by (simp add: power_int_add)
    also have "\<dots> \<le> 2 powi f32_exponent x" using False by (intro power_int_increasing) auto
    also have "\<dots> \<le> f32 x" by (rule f32_binade(1) [OF x])
    finally show ?thesis .
  qed
qed (simp add: f32_nonneg)

lemma f32_ge_nat: "of_nat n \<le> x \<Longrightarrow> n < 2 ^ 24 \<Longrightarrow> of_nat n \<le> f32 x"
  using f32_ge_scaled [of n 0 x] by simp

section \<open>The range of the conversions\<close>

text \<open>A period of four counts or more, at most 253.5 kHz, gives a number of kilohertz that fits a byte;
  a shorter period does not.\<close>

lemma period_fits:
  assumes "4 \<le> period"
  shows "\<exists>d. f32_to_u8 (f32 (freq_of period / f32 999)) = Inr d"
proof -
  have 4: "(of_nat 4 :: rat) \<le> of_nat (unat period)" using assms by (simp only: of_nat_le_iff word_le_nat_alt) simp
  have "(of_nat 4 :: rat) \<le> f32 (of_nat (unat period))" by (rule f32_ge_nat [OF 4]) simp
  moreover have "(of_nat 71 :: rat) \<le> f32 71" by (rule f32_ge_nat) simp_all
  ultimately have "(of_nat 284 :: rat) \<le> f32 71 * f32 (of_nat (unat period))"
    using mult_mono [of "of_nat 71 :: rat" "f32 71" "of_nat 4" "f32 (of_nat (unat period))"] by simp
  then have d: "(of_nat 284 :: rat) \<le> f32 (f32 71 * f32 (of_nat (unat period)))" by (rule f32_ge_nat) simp
  have "f32 72000000 \<le> of_nat 9000000 * 2 ^ 3" by (rule f32_le_scaled) simp_all
  then have "f32 72000000 / f32 (f32 71 * f32 (of_nat (unat period))) \<le> 72000000 / of_nat 284"
    using d by (intro frac_le) simp_all
  also have "\<dots> \<le> of_nat 253522" by simp
  finally have q: "freq_of period \<le> of_nat 253522" unfolding freq_of_def by (rule f32_le_nat) simp
  have k: "(of_nat 999 :: rat) \<le> f32 999" by (rule f32_ge_nat) simp_all
  have "freq_of period / f32 999 \<le> of_nat 253522 / of_nat 999" using q k by (intro frac_le) simp_all
  also have "\<dots> \<le> of_nat 254" by simp
  finally have "f32 (freq_of period / f32 999) \<le> of_nat 254" by (rule f32_le_nat) simp
  then show ?thesis by (simp add: f32_to_u8_def f32_nonneg)
qed

lemma period_too_short:
  assumes "0 < period" and "period < 4"
  shows "f32_to_u8 (f32 (freq_of period / f32 999)) = Inl Undefined"
proof -
  have p: "0 < unat period" "unat period \<le> 3" using assms by (simp_all add: word_less_nat_alt)
  then have "(0 :: rat) < of_nat (unat period)" "(of_nat (unat period) :: rat) \<le> of_nat 3"
    by (simp only: of_nat_0_less_iff, simp only: of_nat_le_iff)
  then have "0 < f32 (of_nat (unat period))" "f32 (of_nat (unat period)) \<le> of_nat 3"
    by (simp_all only: f32_pos, intro f32_le_nat) simp_all
  moreover have "0 < f32 71" "f32 71 \<le> of_nat 71" by (simp add: f32_pos, intro f32_le_nat) simp_all
  ultimately have "0 < f32 71 * f32 (of_nat (unat period))" "f32 71 * f32 (of_nat (unat period)) \<le> of_nat 213"
    using mult_mono [of "f32 71" "of_nat 71 :: rat" "f32 (of_nat (unat period))" "of_nat 3"] by simp_all
  then have d: "0 < f32 (f32 71 * f32 (of_nat (unat period)))" "f32 (f32 71 * f32 (of_nat (unat period))) \<le> of_nat 213"
    by (simp_all only: f32_pos, intro f32_le_nat) simp_all
  have "of_nat 9000000 * 2 ^ 3 \<le> f32 72000000" by (rule f32_ge_scaled) simp_all
  then have "72000000 / of_nat 213 \<le> f32 72000000 / f32 (f32 71 * f32 (of_nat (unat period)))"
    using d by (intro frac_le) simp_all
  moreover have "(of_nat 338028 :: rat) \<le> 72000000 / of_nat 213" by simp
  ultimately have "of_nat 338028 \<le> f32 72000000 / f32 (f32 71 * f32 (of_nat (unat period)))" by linarith
  then have q: "of_nat 338028 \<le> freq_of period" unfolding freq_of_def by (rule f32_ge_nat) simp
  have k: "f32 999 \<le> of_nat 999" "0 < f32 999" by (rule f32_le_nat, simp_all add: f32_pos)
  have "of_nat 338028 / of_nat 999 \<le> freq_of period / f32 999" using q k by (intro frac_le) simp_all
  moreover have "(of_nat 338 :: rat) \<le> of_nat 338028 / of_nat 999" by simp
  ultimately have "of_nat 338 \<le> freq_of period / f32 999" by linarith
  then have "of_nat 338 \<le> f32 (freq_of period / f32 999)" by (rule f32_ge_nat) simp
  then show ?thesis by (simp add: f32_to_u8_def)
qed

section \<open>Properties\<close>

text \<open>the measured duty cycle is a percentage: for every capture with a high time of at most the
  period the result lies between 0 and 100, so that its conversion to a byte is defined and is at
  most 100.\<close>

theorem measured_duty_in_range:
  assumes "0 < period" and "high \<le> period"
  shows "0 \<le> duty_of period high \<and> duty_of period high \<le> 100 \<and>
    (\<exists>d. f32_to_u8 (duty_of period high) = Inr d \<and> unat d \<le> 100)"
proof -
  let ?h = "f32 (of_nat (unat high))" and ?p = "f32 (of_nat (unat period))"
  have le: "?h \<le> ?p" 
    by (rule f32_mono) (use assms(2) in \<open>simp only: of_nat_le_iff word_le_nat_alt\<close>)
  have "0 < unat period" using assms(1) by (simp add: word_less_nat_alt)
  then have "(0 :: rat) < of_nat (unat period)" by (simp only: of_nat_0_less_iff)
  then have "?p > 0" by (rule f32_pos)
  then have "?h / ?p \<le> of_nat 1" using le by simp
  then have "f32 (?h / ?p) \<le> of_nat 1" by (rule f32_le_nat) simp
  then have "f32 (?h / ?p) * 100 \<le> of_nat 100" by simp
  then have hi: "duty_of period high \<le> of_nat 100"
    unfolding duty_of_def by (rule f32_le_nat) simp
  have lo: "0 \<le> duty_of period high" by (simp add: duty_of_def f32_nonneg)
  have "0 \<le> \<lfloor>duty_of period high\<rfloor>" and fl: "\<lfloor>duty_of period high\<rfloor> \<le> 100"
    using lo hi floor_mono [OF hi] by simp_all
  then obtain n where n: "\<lfloor>duty_of period high\<rfloor> = int n" "n \<le> 100" by (metis nonneg_int_cases of_nat_le_iff of_nat_numeral)
  have "unat (of_nat n :: u8) = n" using n(2) by (simp add: unat_of_nat_small)
  then show ?thesis using lo hi n by (simp add: f32_to_u8_def)
qed

theorem measured_duty_in_range_witness:
  "\<exists>d. f32_to_u8 (duty_of 3 2) = Inr d \<and> unat d \<le> 100"
  using measured_duty_in_range [of 3 2] by simp

end
