(* ===== verification/Spi.thy ===== *)
theory Spi
  imports Printf Gpio
begin

text \<open>
  The SPI driver BSW/src/BKEL_BSW_spi.c: one byte out and one byte back on SPI2, each direction
  waiting for its flag at most 10000 reads of the status register, and the loopback test.
\<close>

section \<open>The code\<close>

definition SPI_SR_TXE :: u32 where "SPI_SR_TXE = 0x2"
definition SPI_SR_RXNE :: u32 where "SPI_SR_RXNE = 0x1"

text \<open>\<open>while (!(SR & flag)) if (--timeout == 0) return 0;\<close> with \<open>n\<close> the timeout that is left: \<open>True\<close>
  when the flag was seen.\<close>

fun spi_wait :: "hw \<Rightarrow> u32 \<Rightarrow> nat \<Rightarrow> board \<Rightarrow> bool \<times> board" where
  "spi_wait h flag 0 b = (False, b)"
| "spi_wait h flag (Suc n) b =
     (let (v, b1) = vread h (SPI2, SR) b in
      if v AND flag \<noteq> 0 then (True, b1) else spi_wait h flag n b1)"

definition BKEL_SPI2_Transfer :: "hw \<Rightarrow> u8 \<Rightarrow> board \<Rightarrow> u8 \<times> board" where
  "BKEL_SPI2_Transfer h data b =
     (case spi_wait h SPI_SR_TXE 10000 b of
        (False, b1) \<Rightarrow> (0, b1)
      | (True, b1) \<Rightarrow>
          let b2 = emit (Tx SPI2 data) (wr (SPI2, DR) (ucast data) b1) in
          (case spi_wait h SPI_SR_RXNE 10000 b2 of
             (False, b3) \<Rightarrow> (0, b3)
           | (True, b3) \<Rightarrow> let (v, b4) = vread h (SPI2, DR) b3 in (ucast v, b4)))"

text \<open>\<open>BKEL_SPI2_Loopback\<close>: the statics are the count, the next byte to send and the byte received.
  The byte is incremented before it is printed and compared.\<close>

definition BKEL_SPI2_Loopback :: "hw \<Rightarrow> u32 \<times> u8 \<times> u8 \<Rightarrow> board \<Rightarrow> (u32 \<times> u8 \<times> u8) \<times> board" where
  "BKEL_SPI2_Loopback h st b =
     (let (transfer_count, txValue, _) = st;
          (rxValue, b1) = BKEL_SPI2_Transfer h txValue b;
          txValue = txValue + 1;
          transfer_count = transfer_count + 1;
          b2 = printf (''[SPI TEST #'' @ fmt_dec (unat transfer_count) @ ''] TX: 0x'' @ fmt_02X txValue @
                 '', RX: 0x'' @ fmt_02X rxValue @ crlf) b1;
          b3 = (if txValue = rxValue
                then write_BSRR GPIOA 0x20 (emit (Delay 1000) (write_BRR GPIOA 0x20
                       (emit (Delay 1000) (write_BSRR GPIOA 0x20 b2))))
                else write_BRR GPIOA 0x20 b2)
      in ((transfer_count, txValue, rxValue), b3))"

section \<open>Bounded polling\<close>

lemma spi_wait_ticks: "ticks (snd (spi_wait h flag n b)) \<le> ticks b + n"
proof (induction n arbitrary: b)
  case (Suc n)
  then show ?case
    using Suc.IH [of "b\<lparr>ticks := Suc (ticks b)\<rparr>"] by (auto simp: vread_def)
qed simp

lemma spi_wait_frame:
  "trace (snd (spi_wait h flag n b)) = trace b \<and> rd r (snd (spi_wait h flag n b)) = rd r b"
  by (induction n arbitrary: b) (auto simp: vread_def)

text \<open>The flag is seen exactly when one of the first \<open>n\<close> reads shows it.\<close>

lemma spi_wait_iff:
  "fst (spi_wait h flag n b) \<longleftrightarrow> (\<exists>i<n. h (SPI2, SR) (ticks b + i) AND flag \<noteq> 0)"
proof (induction n arbitrary: b)
  case (Suc n)
  show ?case
    using Suc.IH [of "b\<lparr>ticks := Suc (ticks b)\<rparr>"]
    by (auto simp: vread_def less_Suc_eq_0_disj)
qed simp

lemma spi_transfer_ticks: "ticks (snd (BKEL_SPI2_Transfer h data b)) \<le> ticks b + 20001"
proof (cases "spi_wait h SPI_SR_TXE 10000 b")
  case (Pair ok b1)
  have t1: "ticks b1 \<le> ticks b + 10000"
    using spi_wait_ticks [of h SPI_SR_TXE 10000 b] Pair by simp
  let ?b2 = "emit (Tx SPI2 data) (wr (SPI2, DR) (ucast data) b1)"
  show ?thesis
  proof (cases ok)
    case True
    obtain ok2 b3 where w: "spi_wait h SPI_SR_RXNE 10000 ?b2 = (ok2, b3)" by fastforce
    then have "ticks b3 \<le> ticks b1 + 10000"
      using spi_wait_ticks [of h SPI_SR_RXNE 10000 ?b2] by simp
    then show ?thesis
      using t1 Pair True w by (cases ok2) (simp_all add: BKEL_SPI2_Transfer_def vread_def)
  qed (use t1 Pair in \<open>simp add: BKEL_SPI2_Transfer_def\<close>)
qed

lemma spi_transfer_trace:
  "trace (snd (BKEL_SPI2_Transfer h data b)) =
     trace b @ (if \<exists>i<10000. h (SPI2, SR) (ticks b + i) AND SPI_SR_TXE \<noteq> 0 then [Tx SPI2 data] else [])"
proof (cases "spi_wait h SPI_SR_TXE 10000 b")
  case (Pair ok b1)
  have t1: "trace b1 = trace b" using spi_wait_frame [of h SPI_SR_TXE 10000 b] Pair by simp
  have ok: "ok \<longleftrightarrow> (\<exists>i<10000. h (SPI2, SR) (ticks b + i) AND SPI_SR_TXE \<noteq> 0)"
    using spi_wait_iff [of h SPI_SR_TXE 10000 b] Pair by simp
  let ?b2 = "emit (Tx SPI2 data) (wr (SPI2, DR) (ucast data) b1)"
  show ?thesis
  proof (cases ok)
    case True
    obtain ok2 b3 where w: "spi_wait h SPI_SR_RXNE 10000 ?b2 = (ok2, b3)" by fastforce
    then have "trace b3 = trace b @ [Tx SPI2 data]"
      using spi_wait_frame [of h SPI_SR_RXNE 10000 ?b2] t1 by simp
    then have "trace (snd (BKEL_SPI2_Transfer h data b)) = trace b @ [Tx SPI2 data]"
      using Pair True w by (cases ok2) (simp_all add: BKEL_SPI2_Transfer_def vread_def)
    then show ?thesis using True ok by simp
  next
    case False
    then have "trace (snd (BKEL_SPI2_Transfer h data b)) = trace b"
      using t1 Pair by (simp add: BKEL_SPI2_Transfer_def)
    then show ?thesis using False ok by simp
  qed
qed

section \<open>Properties\<close>

text \<open>C19: a transfer always returns, after at most 20001 register reads, whatever the hardware does;
  and it sends its byte exactly when the transmit-empty flag shows up in the first 10000 reads.\<close>

theorem spi_transfer_bounded:
  "ticks (snd (BKEL_SPI2_Transfer h data b)) \<le> ticks b + 20001 \<and>
   trace (snd (BKEL_SPI2_Transfer h data b)) = trace b @
     (if \<exists>i<10000. h (SPI2, SR) (ticks b + i) AND SPI_SR_TXE \<noteq> 0 then [Tx SPI2 data] else [])"
  using spi_transfer_ticks spi_transfer_trace by blast

end
