(* ===== verification/Uart.thy ===== *)
theory Uart
  imports Hardware
begin

text \<open>
  The UART driver, BSW/src/BKEL_BSW_uart.c: every buffer goes out on USART1 and then, again in
  full, on USART2, each byte after the transmit-empty flag (bit 7 of SR) is seen. Also \<open>_write\<close> of
  Core/Src/BKEL_sysinit.c, which sends the text of \<open>printf\<close> through the same driver, and
  \<open>uart_hex_dump\<close>.
\<close>

section \<open>The code\<close>

definition TXE :: u32 where
  "TXE = 0x80"

fun uart_put :: "hw \<Rightarrow> periph \<Rightarrow> u8 list \<Rightarrow> board \<Rightarrow> board option" where
  "uart_put h p [] b = Some b"
| "uart_put h p (x # xs) b =
     Option.bind (wait_flag h (p, SR) TXE b)
       (\<lambda>b1. uart_put h p xs (emit (Tx p x) (wr (p, DR) (ucast x) b1)))"

definition BKEL_UART_Tx :: "hw \<Rightarrow> u8 list \<Rightarrow> u16 \<Rightarrow> board \<Rightarrow> board res" where
  "BKEL_UART_Tx h buf buf_len b =
     bindR (mem_read buf 0 (unat buf_len)) (\<lambda>bytes.
     bindR (returns (uart_put h USART1 bytes b)) (\<lambda>b1.
     returns (uart_put h USART2 bytes b1)))"

text \<open>\<open>_write\<close> ignores the file and reports that everything was written; the length arrives as an
  \<open>int\<close> and is truncated to the \<open>uint16_t\<close> of \<open>BKEL_UART_Tx\<close>.\<close>

definition write_stub :: "hw \<Rightarrow> int \<Rightarrow> u8 list \<Rightarrow> int \<Rightarrow> board \<Rightarrow> (int \<times> board) res" where
  "write_stub h file ptr len b =
     bindR (BKEL_UART_Tx h ptr (word_of_int len) b) (\<lambda>b1. Inr (len, b1))"

definition hex_digit :: "u8 \<Rightarrow> u8" where
  "hex_digit x = (if x < 10 then 0x30 + x else 0x37 + x)"

definition hex2 :: "u8 \<Rightarrow> u8 list" where
  "hex2 x = [hex_digit (drop_bit 4 x), hex_digit (x AND 0x0F)]"

fun hex_dump_lines :: "hw \<Rightarrow> u8 list \<Rightarrow> board \<Rightarrow> board res" where
  "hex_dump_lines h [] b = Inr b"
| "hex_dump_lines h (x # xs) b =
     bindR (BKEL_UART_Tx h (hex2 x @ [0x20]) 3 b) (\<lambda>b1. hex_dump_lines h xs b1)"

definition uart_hex_dump :: "hw \<Rightarrow> u8 list \<Rightarrow> nat \<Rightarrow> board \<Rightarrow> board res" where
  "uart_hex_dump h buf len b =
     bindR (mem_read buf 0 len) (\<lambda>bytes.
     bindR (hex_dump_lines h bytes b) (\<lambda>b1.
     BKEL_UART_Tx h [0x0D, 0x0A] 2 b1))"

section \<open>What a transmission does\<close>

text \<open>\<open>uarts_live\<close>: both transmitters become empty again and again.\<close>

definition uarts_live :: "hw \<Rightarrow> bool" where
  "uarts_live h \<longleftrightarrow> hw_live h (USART1, SR) TXE \<and> hw_live h (USART2, SR) TXE"

text \<open>Everything but the trace, the data registers and the read counter stays as it is.\<close>

definition uart_frame :: "board \<Rightarrow> board \<Rightarrow> bool" where
  "uart_frame b b' \<longleftrightarrow> (\<forall>p r. r \<noteq> DR \<longrightarrow> rd (p, r) b' = rd (p, r) b)"

lemma uart_frame_refl [simp]: "uart_frame b b"
  by (simp add: uart_frame_def)

lemma uart_frame_trans: "uart_frame a b \<Longrightarrow> uart_frame b c \<Longrightarrow> uart_frame a c"
  by (simp add: uart_frame_def)

lemma uart_put_live:
  assumes "hw_live h (p, SR) TXE"
  shows "\<exists>b'. uart_put h p xs b = Some b' \<and> trace b' = trace b @ map (Tx p) xs \<and> uart_frame b b'"
proof (induction xs arbitrary: b)
  case Nil
  show ?case by simp
next
  case (Cons x xs)
  obtain t where t: "wait_flag h (p, SR) TXE b = Some (b\<lparr>ticks := t\<rparr>)"
    using wait_flag_live [OF assms] by blast
  let ?b = "emit (Tx p x) (wr (p, DR) (ucast x) (b\<lparr>ticks := t\<rparr>))"
  obtain b' where b': "uart_put h p xs ?b = Some b'" "trace b' = trace ?b @ map (Tx p) xs"
      "uart_frame ?b b'"
    using Cons.IH by blast
  have "uart_frame b ?b" by (simp add: uart_frame_def)
  then show ?case
    using b' t by (auto intro: uart_frame_trans)
qed

lemma BKEL_UART_Tx_live:
  assumes "uarts_live h" and "unat n \<le> length buf"
  shows "\<exists>b'. BKEL_UART_Tx h buf n b = Inr b' \<and> uart_frame b b' \<and>
    trace b' = trace b @ map (Tx USART1) (take (unat n) buf) @ map (Tx USART2) (take (unat n) buf)"
proof -
  let ?xs = "take (unat n) buf"
  obtain b1 where b1: "uart_put h USART1 ?xs b = Some b1" "uart_frame b b1"
      "trace b1 = trace b @ map (Tx USART1) ?xs"
    using uart_put_live assms(1) unfolding uarts_live_def by blast
  obtain b2 where "uart_put h USART2 ?xs b1 = Some b2" "uart_frame b1 b2"
      "trace b2 = trace b1 @ map (Tx USART2) ?xs"
    using uart_put_live assms(1) unfolding uarts_live_def by blast
  then show ?thesis
    using b1 assms(2) by (auto simp: BKEL_UART_Tx_def intro: uart_frame_trans)
qed

text \<open>Hardware that is always ready, for concrete runs.\<close>

definition ready_hw :: hw where
  "ready_hw r t = 0xFFFFFFFF"

lemma ready_hw_live: "hw_live ready_hw r TXE"
  by (auto simp: hw_live_def ready_hw_def TXE_def)

lemma ready_uarts_live: "uarts_live ready_hw"
  by (simp add: uarts_live_def ready_hw_live)

end
