(* ===== verification/Workers.thy ===== *)
theory Workers
  imports Parser Gpio Pwm PwmInput Spi Uart
begin

text \<open>
  What the worker tasks do with a packet: the remote procedure calls of ASW/src/BKEL_APP_rpc.c, the
  diagnostic answers of ASW/src/BKEL_APP_sendDiagData.c, the service advertisement of
  ASW/src/BKEL_APP_service.c, and the dispatch of the two worker tasks in
  ASW/src/BKEL_APP_TaskM.c. The reset of \<open>NVIC_SystemReset\<close> ends the run.
\<close>

section \<open>Remote procedure calls\<close>

definition LD2_OPCODE_OFF :: u8 where "LD2_OPCODE_OFF = 0x00"
definition LD2_OPCODE_ON :: u8 where "LD2_OPCODE_ON = 0x01"
definition LD2_OPCODE_TOGGLE :: u8 where "LD2_OPCODE_TOGGLE = 0x02"
definition MCU_OPCODE_RESET :: u8 where "MCU_OPCODE_RESET = 0x01"
definition SPI_OPCODE_READ :: u8 where "SPI_OPCODE_READ = 0x00"
definition SPI_OPCODE_WRITE :: u8 where "SPI_OPCODE_WRITE = 0x01"

lemmas opcode_defs = LD2_OPCODE_OFF_def LD2_OPCODE_ON_def LD2_OPCODE_TOGGLE_def
  MCU_OPCODE_RESET_def SPI_OPCODE_READ_def SPI_OPCODE_WRITE_def

definition BKEL_RPC_LD2_Control :: "BKEL_Common_Packet_t \<Rightarrow> board \<Rightarrow> board" where
  "BKEL_RPC_LD2_Control packet b =
     (let cmd = p_payload packet ! 0 in
      if cmd = LD2_OPCODE_OFF then BKEL_LD2_Off (printf (''LD2 OFF'' @ crlf) b)
      else if cmd = LD2_OPCODE_ON then BKEL_LD2_On (printf (''LD2 ON'' @ crlf) b)
      else if cmd = LD2_OPCODE_TOGGLE then BKEL_LD2_Toggle (printf (''LD2 Toggle'' @ crlf) b)
      else printf (''[LD2] invalid cmd: 0x'' @ fmt_02X cmd @ crlf) b)"

text \<open>The reset keeps nothing of the board: \<open>main\<close> starts again.\<close>

definition NVIC_SystemReset :: "board \<Rightarrow> board res" where
  "NVIC_SystemReset b = Inl Reset"

definition BKEL_RPC_MCU_Reset :: "BKEL_Common_Packet_t \<Rightarrow> board \<Rightarrow> board res" where
  "BKEL_RPC_MCU_Reset packet b =
     (let cmd = p_payload packet ! 0 in
      if cmd = MCU_OPCODE_RESET then NVIC_SystemReset (printf (''[MCU_Reset]'' @ crlf) b)
      else Inr (printf (''[MCU] invalid cmd: 0x'' @ fmt_02X cmd @ crlf) b))"

fun spi_read_loop :: "hw \<Rightarrow> nat \<Rightarrow> board \<Rightarrow> board" where
  "spi_read_loop h 0 b = b"
| "spi_read_loop h (Suc n) b =
     (let (rx, b1) = BKEL_SPI2_Transfer h 0x00 b in
      spi_read_loop h n (printf (''RX = 0x'' @ fmt_02X rx @ crlf) b1))"

fun spi_write_loop :: "hw \<Rightarrow> u8 list \<Rightarrow> board \<Rightarrow> board" where
  "spi_write_loop h [] b = b"
| "spi_write_loop h (tx # txs) b =
     (let (rx, b1) = BKEL_SPI2_Transfer h tx b in
      spi_write_loop h txs
        (printf (''TX = 0x'' @ fmt_02X tx @ '', RX(loopback) = 0x'' @ fmt_02X rx @ crlf) b1))"

definition BKEL_RPC_SPI_Read :: "hw \<Rightarrow> BKEL_Common_Packet_t \<Rightarrow> board \<Rightarrow> board" where
  "BKEL_RPC_SPI_Read h packet b =
     (let cmd = p_payload packet ! 0 in
      if cmd = SPI_OPCODE_READ then spi_read_loop h 4 (printf (''[SPI Read]'' @ crlf) b)
      else if cmd = SPI_OPCODE_WRITE then
        spi_write_loop h (take 4 (drop 1 (p_payload packet))) (printf (''[SPI Write]'' @ crlf) b)
      else printf (''[SPI] invalid cmd: 0x'' @ fmt_02X cmd @ crlf) b)"

text \<open>The payload is read as \<open>BKEL_PWM_Payload_t\<close>: duty cycle, then period.\<close>

definition BKEL_RPC_PWM_Setout :: "BKEL_Common_Packet_t \<Rightarrow> board \<Rightarrow> board" where
  "BKEL_RPC_PWM_Setout packet b =
     BKEL_PWM_SetDuty (p_payload packet ! 0)
       (BKEL_PWM_SetPeriod (p_payload packet ! 1) (printf (''[PWM Setout]'' @ crlf) b))"

section \<open>Diagnostic answers\<close>

text \<open>\<open>build_frame\<close> into a local buffer of \<open>n\<close> bytes and \<open>BKEL_UART_Tx\<close> of the result. The buffer is
  not initialised in the code; only bytes \<open>build_frame\<close> has written are sent.\<close>

definition send_frame :: "hw \<Rightarrow> nat \<Rightarrow> u8 \<Rightarrow> u8 \<Rightarrow> u8 list \<Rightarrow> u16 \<Rightarrow> fw \<Rightarrow> fw res" where
  "send_frame h n sid type payload len f =
     bindR (build_frame (brd f) (replicate n 0) n sid type payload len (cids f)) (\<lambda>(frame_len, out_buf, s1).
     bindR (BKEL_UART_Tx h out_buf (of_nat frame_len) (brd f)) (\<lambda>b1.
     Inr (f\<lparr>brd := b1, cids := s1\<rparr>)))"

definition AppSendDiagPWMOut :: "hw \<Rightarrow> fw \<Rightarrow> fw res" where
  "AppSendDiagPWMOut h f =
     send_frame h 64 0x20 0x02 [BKEL_PWM_ReadDuty (brd f), BKEL_PWM_ReadPeriod (brd f)] 2 f"

text \<open>\<open>pwm\<close> is not initialised in the code; when the measurement is valid every field has been set.\<close>

definition AppSendDiagPWMIn :: "hw \<Rightarrow> fw \<Rightarrow> fw res" where
  "AppSendDiagPWMIn h f =
     (let pwm0 = \<lparr>period_cnt = 0, high_cnt = 0, duty_percent = 0, freq_hz = 0, pwm_valid = 0\<rparr>;
          (pwm, b1) = BKEL_PWM_Input_Read_TIM3 h pwm0 (brd f);
          f1 = f\<lparr>brd := b1\<rparr> in
      if pwm_valid pwm \<noteq> 0 then
        bindR (f32_to_u8 (duty_percent pwm)) (\<lambda>readPWM.
        bindR (f32_to_u8 (f32 (freq_hz pwm / f32 999))) (\<lambda>readPeriod.
        send_frame h 64 0x21 0x02 [readPWM, readPeriod] 2 f1))
      else Inr f1)"

definition AppSendDiagADC1Val :: "hw \<Rightarrow> fw \<Rightarrow> fw res" where
  "AppSendDiagADC1Val h f =
     bindR (BKEL_BSW_ADC_GetValue (adc f)) (\<lambda>(u32AdcVal, a).
     send_frame h 64 0x22 0x02 (le16 (ucast (drop_bit 16 u32AdcVal AND 0xFFFF))) 2 (f\<lparr>adc := a\<rparr>))"

definition AppSendDiagADC2Val :: "hw \<Rightarrow> fw \<Rightarrow> fw res" where
  "AppSendDiagADC2Val h f =
     bindR (BKEL_BSW_ADC_GetValue (adc f)) (\<lambda>(u32AdcVal, a).
     send_frame h 64 0x23 0x02 (le16 (ucast (u32AdcVal AND 0xFFFF))) 2 (f\<lparr>adc := a\<rparr>))"

definition AppSendDiagGPOPinState :: "hw \<Rightarrow> fw \<Rightarrow> fw res" where
  "AppSendDiagGPOPinState h f =
     (let (st, b1) = BKEL_read_pin h \<lparr>Pin_Channel = GPIOC, Pin_Number = 0x2\<rparr> (brd f) in
      send_frame h 64 0x24 0x01 [pin_value st] 1 (f\<lparr>brd := b1\<rparr>))"

definition AppSendDiagGPIPinState :: "hw \<Rightarrow> fw \<Rightarrow> fw res" where
  "AppSendDiagGPIPinState h f =
     (let (st, b1) = BKEL_read_pin h \<lparr>Pin_Channel = GPIOC, Pin_Number = 0x1\<rparr> (brd f) in
      send_frame h 64 0x25 0x01 [pin_value st] 1 (f\<lparr>brd := b1\<rparr>))"

definition AppSendDiagLD2PinState :: "hw \<Rightarrow> fw \<Rightarrow> fw res" where
  "AppSendDiagLD2PinState h f =
     (let (st, b1) = BKEL_read_pin h \<lparr>Pin_Channel = GPIOA, Pin_Number = 0x20\<rparr> (brd f) in
      send_frame h 64 0x26 0x01 [pin_value st] 1 (f\<lparr>brd := b1\<rparr>))"

section \<open>The service advertisement\<close>

definition service_advertise_payload :: "string list" where
  "service_advertise_payload =
     [''SOF'',
      ''0x10 : RPC_LD2_Control'', ''0x11 : RPC_MCU_Reset'', ''0x12 : RPC_SPI_Read'', ''0x13 : RPC_PWM_SetOut'',
      ''0x20 : DIAG_PWM_Output_Value'', ''0x21 : DIAG_PWM_Input_Value'', ''0x22 : DIAG_ADC1_GetValue'',
      ''0x23 : DIAG_ADC2_GetValue'', ''0x24 : DIAG_GPO_PinState'', ''0x25 : DIAG_GPI_PinState'',
      ''0x26 : DIAG_LD2_PinState'',
      ''EOF'']"

definition SERVICE_ADVERTISE :: u8 where "SERVICE_ADVERTISE = 0x01"
definition P_DATA_TYPE_CHAR :: u8 where "P_DATA_TYPE_CHAR = 0x03"

definition string_bytes :: "string \<Rightarrow> u8 list" where
  "string_bytes s = map of_char s"

fun advertise_loop :: "hw \<Rightarrow> string list \<Rightarrow> fw \<Rightarrow> fw res" where
  "advertise_loop h [] f = Inr f"
| "advertise_loop h (s # ss) f =
     bindR (build_frame (brd f) (replicate 256 0) 256 SERVICE_ADVERTISE P_DATA_TYPE_CHAR
              (string_bytes s) (of_nat (length s)) (cids f)) (\<lambda>(packet_len, tx_buf, s1).
     if packet_len = 0 then advertise_loop h ss (f\<lparr>cids := s1\<rparr>)
     else bindR (BKEL_UART_Tx h tx_buf (of_nat packet_len) (brd f)) (\<lambda>b1.
          advertise_loop h ss (f\<lparr>brd := b1, cids := s1\<rparr>)))"

definition AppService_SendAdvertise :: "hw \<Rightarrow> fw \<Rightarrow> fw res" where
  "AppService_SendAdvertise h f = advertise_loop h service_advertise_payload f"

section \<open>The dispatch of the two worker tasks\<close>

definition rpc_dispatch :: "hw \<Rightarrow> BKEL_Common_Packet_t \<Rightarrow> fw \<Rightarrow> fw res" where
  "rpc_dispatch h packet f =
     (let sid = p_sid packet in
      if sid = RPC_LD2_CONTROL then Inr (f\<lparr>brd := BKEL_RPC_LD2_Control packet (brd f)\<rparr>)
      else if sid = RPC_MCU_RESET then
        bindR (BKEL_RPC_MCU_Reset packet (brd f)) (\<lambda>b1. Inr (f\<lparr>brd := b1\<rparr>))
      else if sid = RPC_SPI_READ then Inr (f\<lparr>brd := BKEL_RPC_SPI_Read h packet (brd f)\<rparr>)
      else if sid = RPC_PWM_SETOUT then Inr (f\<lparr>brd := BKEL_RPC_PWM_Setout packet (brd f)\<rparr>)
      else Inr f)"

definition diag_dispatch :: "hw \<Rightarrow> BKEL_Common_Packet_t \<Rightarrow> fw \<Rightarrow> fw res" where
  "diag_dispatch h packet f =
     (let sid = p_sid packet in
      if sid = DIAG_PWM_OUTPUT_VALUE then AppSendDiagPWMOut h f
      else if sid = DIAG_PWM_INPUT_VALUE then AppSendDiagPWMIn h f
      else if sid = DIAG_ADC1_GET_VALUE then AppSendDiagADC1Val h f
      else if sid = DIAG_ADC2_GET_VALUE then AppSendDiagADC2Val h f
      else if sid = DIAG_GPO_PINSTATE then AppSendDiagGPOPinState h f
      else if sid = DIAG_GPI_PINSTATE then AppSendDiagGPIPinState h f
      else if sid = DIAG_LD2_PINSTATE then AppSendDiagLD2PinState h f
      else Inr f)"

end
