(* ===== verification/WorkerSpec.thy ===== *)
theory WorkerSpec
  imports Workers
begin

text \<open>
  What the worker operations guarantee: the answers they put on the wire are frames of the format,
  and the effect of every command on the registers. \<open>on_wire\<close> is the trace of one buffer sent by
  the UART driver.
\<close>

section \<open>Frames on the wire\<close>

definition on_wire :: "u8 list \<Rightarrow> event list" where
  "on_wire xs = map (Tx USART1) xs @ map (Tx USART2) xs"

text \<open>Sending a frame: one frame on the wire, one connection id used, nothing else touched.\<close>

definition sent :: "hw \<Rightarrow> u8 \<Rightarrow> u8 \<Rightarrow> u8 list \<Rightarrow> fw \<Rightarrow> fw \<Rightarrow> bool" where
  "sent h sid type payload f f' \<longleftrightarrow>
     trace (brd f') = trace (brd f) @ on_wire (frame sid type payload (fst (make_cid (brd f) (cids f)))) \<and>
     cids f' = snd (make_cid (brd f) (cids f)) \<and> f' = f\<lparr>brd := brd f', cids := cids f'\<rparr> \<and>
     uart_frame (brd f) (brd f')"

lemma build_and_send:
  assumes "uarts_live h" and "length payload = unat len" and "8 + unat len \<le> n" and "n \<le> 1000"
  shows "\<exists>buf b1. build_frame (brd f) (replicate n 0) n sid type payload len (cids f) =
      Inr (8 + unat len, buf, snd (make_cid (brd f) (cids f))) \<and>
    BKEL_UART_Tx h buf (of_nat (8 + unat len)) (brd f) = Inr b1 \<and>
    sent h sid type payload f (f\<lparr>brd := b1, cids := snd (make_cid (brd f) (cids f))\<rparr>)"
proof -
  let ?fr = "frame sid type payload (fst (make_cid (brd f) (cids f)))"
  let ?buf = "?fr @ drop (8 + unat len) (replicate n 0)"
  have bf: "build_frame (brd f) (replicate n 0) n sid type payload len (cids f) =
      Inr (8 + unat len, ?buf, snd (make_cid (brd f) (cids f)))"
    using build_frame_large [of len n "replicate n 0" payload] assms(2,3) by simp
  have l: "unat (of_nat (8 + unat len) :: u16) = 8 + unat len"
    using assms(3,4) by (intro unat_of_nat_small) simp
  have "unat (of_nat (8 + unat len) :: u16) \<le> length ?buf"
    using l assms(2,3) by simp
  from BKEL_UART_Tx_live [OF assms(1) this, of "brd f"] obtain b1 where
      b1: "BKEL_UART_Tx h ?buf (of_nat (8 + unat len)) (brd f) = Inr b1" "uart_frame (brd f) b1"
        "trace b1 = trace (brd f) @ map (Tx USART1) (take (8 + unat len) ?buf) @
          map (Tx USART2) (take (8 + unat len) ?buf)"
    unfolding l by blast
  have "take (8 + unat len) ?buf = ?fr" using assms(2) by simp
  then have "trace b1 = trace (brd f) @ on_wire ?fr" using b1(3) by (simp add: on_wire_def)
  then show ?thesis
    using b1(1,2) bf by (intro exI [of _ ?buf] exI [of _ b1]) (simp add: sent_def)
qed

lemma send_frame_live:
  assumes "uarts_live h" and "length payload = unat len" and "unat len \<le> 56"
  shows "\<exists>f'. send_frame h 64 sid type payload len f = Inr f' \<and> sent h sid type payload f f'"
  using build_and_send [OF assms(1,2), of 64 f sid type] assms(3)
  unfolding send_frame_def by auto

lemma make_cid_uart_frame: "uart_frame b b' \<Longrightarrow> make_cid b' = make_cid b"
  by (rule ext) (simp add: make_cid_def make_node_id_12bit_def uart_frame_def)

text \<open>One frame with the next connection id, and no register but the data registers of the ports changed.\<close>

definition answered :: "u8 \<Rightarrow> u8 \<Rightarrow> u8 list \<Rightarrow> fw \<Rightarrow> fw \<Rightarrow> bool" where
  "answered sid type payload f f' \<longleftrightarrow>
     trace (brd f') = trace (brd f) @ on_wire (frame sid type payload (fst (make_cid (brd f) (cids f)))) \<and>
     cids f' = snd (make_cid (brd f) (cids f)) \<and> uart_frame (brd f) (brd f')"

text \<open>Reads that only advance the read counter, and a new state of the ADC driver, before a frame is sent.\<close>

lemma send_frame_after:
  assumes "uarts_live h" and "length payload = unat len" and "unat len \<le> 56"
    and "brd f1 = (brd f)\<lparr>ticks := t\<rparr>" and "cids f1 = cids f"
  shows "\<exists>f'. send_frame h 64 sid type payload len f1 = Inr f' \<and> answered sid type payload f f'"
proof -
  obtain f' where f': "send_frame h 64 sid type payload len f1 = Inr f'" "sent h sid type payload f1 f'"
    using send_frame_live [OF assms(1-3)] by blast
  have "uart_frame (brd f) (brd f1)" using assms(4) by (simp add: uart_frame_def)
  then have "answered sid type payload f f'"
    using f'(2) assms(4,5) uart_frame_trans [of "brd f" "brd f1" "brd f'"]
    by (auto simp: answered_def sent_def make_cid_uart_frame)
  then show ?thesis using f'(1) by blast
qed

section \<open>What a diagnostic answer carries\<close>

definition pin_level :: "hw \<Rightarrow> periph \<Rightarrow> nat \<Rightarrow> board \<Rightarrow> u8" where
  "pin_level h p n b = (if bit (h (p, IDR) (ticks b)) n then 1 else 0)"

text \<open>The last pair of conversions: the frame the DMA announced last, else the one read before, else all ones.\<close>

definition adc_reading :: "adc_state \<Rightarrow> ADC_ChPair_t" where
  "adc_reading a =
     (if adc_frame_ready a \<noteq> 0 then adc_dma_buf a ! unat (adc_frame_idx a)
      else if valid a \<noteq> 0 then shadow a else \<lparr>ch14 = 0xFFFF, ch15 = 0xFFFF\<rparr>)"

text \<open>The captured period and high time of the input, when they fit together.\<close>

definition captured :: "hw \<Rightarrow> board \<Rightarrow> (u32 \<times> u32) option" where
  "captured h b =
     (let period = h (TIM3, CCR1) (ticks b); high = h (TIM3, CCR2) (Suc (ticks b)) in
      if 0 < period \<and> high \<le> period then Some (period, high) else None)"

text \<open>Type and payload of the answer; \<open>None\<close> when there is none.\<close>

definition diag_answer :: "hw \<Rightarrow> fw \<Rightarrow> u8 \<Rightarrow> (u8 \<times> u8 list) option" where
  "diag_answer h f sid =
     (if sid = 0x20 then Some (2, [BKEL_PWM_ReadDuty (brd f), BKEL_PWM_ReadPeriod (brd f)])
      else if sid = 0x21 then
        map_option (\<lambda>(period, high). (2, [of_int \<lfloor>duty_of period high\<rfloor>, of_int \<lfloor>f32 (freq_of period / f32 999)\<rfloor>]))
          (captured h (brd f))
      else if sid = 0x22 then Some (2, le16 (ch14 (adc_reading (adc f))))
      else if sid = 0x23 then Some (2, le16 (ch15 (adc_reading (adc f))))
      else if sid = 0x24 then Some (1, [pin_level h GPIOC 1 (brd f)])
      else if sid = 0x25 then Some (1, [pin_level h GPIOC 0 (brd f)])
      else if sid = 0x26 then Some (1, [pin_level h GPIOA 5 (brd f)])
      else None)"

lemma pin_answer:
  assumes "uarts_live h" and "of_nat (2 ^ n) = m" and "n < 16"
  shows "\<exists>f'. (let (st, b1) = BKEL_read_pin h \<lparr>Pin_Channel = p, Pin_Number = m\<rparr> (brd f) in
      send_frame h 64 sid 0x01 [pin_value st] 1 (f\<lparr>brd := b1\<rparr>)) = Inr f' \<and>
    answered sid 0x01 [pin_level h p n (brd f)] f f'"
proof -
  have "(ucast m :: u32) = 2 ^ n" using assms(3) unfolding assms(2) [symmetric]
    by (intro bit_word_eqI) (auto simp: bit_simps)
  then have "h (p, IDR) (ticks (brd f)) AND ucast m \<noteq> 0 \<longleftrightarrow> bit (h (p, IDR) (ticks (brd f))) n"
    by (simp add: and_exp_eq_0_iff_not_bit)
  then have "BKEL_read_pin h \<lparr>Pin_Channel = p, Pin_Number = m\<rparr> (brd f) =
      (if bit (h (p, IDR) (ticks (brd f))) n then BKEL_GPIO_U_SET else BKEL_GPIO_U_RESET,
       (brd f)\<lparr>ticks := Suc (ticks (brd f))\<rparr>)"
    by (simp add: BKEL_read_pin_def vread_def)
  moreover have "pin_value (if c then BKEL_GPIO_U_SET else BKEL_GPIO_U_RESET) = (if c then 1 else 0)" for c
    by simp
  ultimately show ?thesis
    using send_frame_after [OF assms(1), of "[pin_level h p n (brd f)]" 1
        "f\<lparr>brd := (brd f)\<lparr>ticks := Suc (ticks (brd f))\<rparr>\<rparr>" "Suc (ticks (brd f))" f sid 1]
    by (simp add: pin_level_def)
qed

lemma adc_get_reading:
  assumes "adc_inv a"
  shows "\<exists>a'. BKEL_BSW_ADC_GetValue a = Inr (adc_value (adc_reading a), a') \<and> adc_inv a'"
proof -
  obtain v a' where g: "BKEL_BSW_ADC_GetValue a = Inr (v, a')" "adc_inv a'" using adc_get_total [OF assms] by blast
  have "adc_value \<lparr>ch14 = 0xFFFF, ch15 = 0xFFFF\<rparr> = ADC_INVALID_VALUE"
    by (simp add: adc_value_def ADC_INVALID_VALUE_def)
  then have "v = adc_value (adc_reading a)"
    using g(1) assms by (cases "adc_frame_ready a = 0") (auto simp: adc_get_ready adc_get_idle adc_reading_def Let_def)
  then show ?thesis using g by blast
qed

lemma adc_answer:
  assumes "uarts_live h" and "adc_inv (adc f)"
  shows "\<exists>f'. bindR (BKEL_BSW_ADC_GetValue (adc f)) (\<lambda>(v, a).
      send_frame h 64 sid 0x02 (le16 (g v)) 2 (f\<lparr>adc := a\<rparr>)) = Inr f' \<and>
    answered sid 0x02 (le16 (g (adc_value (adc_reading (adc f))))) f f'"
proof -
  obtain a where "BKEL_BSW_ADC_GetValue (adc f) = Inr (adc_value (adc_reading (adc f)), a)"
    using adc_get_reading [OF assms(2)] by blast
  then show ?thesis
    using send_frame_after [OF assms(1), of "le16 (g (adc_value (adc_reading (adc f))))" 2 "f\<lparr>adc := a\<rparr>" "ticks (brd f)" f sid 2]
    by simp
qed

lemma ucast_u32_u16 [simp]: "(ucast (ucast (x :: u16) :: u32) :: u16) = x"
  by (intro bit_word_eqI) (auto simp: bit_simps)

lemma pwm_read:
  "BKEL_PWM_Input_Read_TIM3 h pwm b = (case captured h b of
     None \<Rightarrow> (pwm\<lparr>pwm_valid := 0\<rparr>, b\<lparr>ticks := ticks b + 2\<rparr>)
   | Some (period, high) \<Rightarrow> (pwm\<lparr>period_cnt := period, high_cnt := high, duty_percent := duty_of period high,
       freq_hz := freq_of period, pwm_valid := 1\<rparr>, b\<lparr>ticks := ticks b + 2\<rparr>))"
  by (auto simp: BKEL_PWM_Input_Read_TIM3_def captured_def vread_def Let_def not_less word_gt_0)

lemma pwm_in_none:
  "captured h (brd f) = None \<Longrightarrow> AppSendDiagPWMIn h f = Inr (f\<lparr>brd := (brd f)\<lparr>ticks := ticks (brd f) + 2\<rparr>\<rparr>)"
  by (simp add: AppSendDiagPWMIn_def pwm_read)

lemma captured_ok: "captured h b = Some (period, high) \<Longrightarrow> 0 < period \<and> high \<le> period"
  by (simp add: captured_def Let_def split: if_splits)

lemma pwm_in_short:
  assumes "captured h (brd f) = Some (period, high)" and "period < 4"
  shows "AppSendDiagPWMIn h f = Inl Undefined"
  using measured_duty_in_range [of period high] captured_ok [OF assms(1)] period_too_short [of period] assms
  by (auto simp: AppSendDiagPWMIn_def pwm_read)

lemma pwm_in_answer:
  assumes "uarts_live h" and "captured h (brd f) = Some (period, high)" and "4 \<le> period"
  shows "\<exists>f'. AppSendDiagPWMIn h f = Inr f' \<and>
    answered 0x21 0x02 [of_int \<lfloor>duty_of period high\<rfloor>, of_int \<lfloor>f32 (freq_of period / f32 999)\<rfloor>] f f'"
proof -
  have d: "f32_to_u8 (duty_of period high) = Inr (of_int \<lfloor>duty_of period high\<rfloor>)"
    using measured_duty_in_range [of period high] captured_ok [OF assms(2)] by (auto simp: f32_to_u8_def)
  have p: "f32_to_u8 (f32 (freq_of period / f32 999)) = Inr (of_int \<lfloor>f32 (freq_of period / f32 999)\<rfloor>)"
    using period_fits [OF assms(3)] by (auto simp: f32_to_u8_def split: if_splits)
  show ?thesis
    using send_frame_after [OF assms(1), of "[of_int \<lfloor>duty_of period high\<rfloor>, of_int \<lfloor>f32 (freq_of period / f32 999)\<rfloor>]" 2
        "f\<lparr>brd := (brd f)\<lparr>ticks := ticks (brd f) + 2\<rparr>\<rparr>" "ticks (brd f) + 2" f "0x21" 2]
    by (simp add: AppSendDiagPWMIn_def pwm_read assms(2) d p)
qed

section \<open>Properties\<close>

text \<open>C20: the answer to every diagnostic request, byte for byte. Each of the services 0x20 to 0x26 sends exactly one
  frame in full on both ports, with the service id of the request, the next connection id and the payload of
  \<open>diag_answer\<close>: duty cycle and frequency of the output, the two ADC channels (each in its own half), the three
  pins; it changes no register but the data registers of the ports. The service 0x21 is the exception: without a
  valid measurement it sends nothing and uses up no connection id, and below four counts of the period (more
  than 253.5 kHz) the number of kilohertz does not fit its byte and the conversion is undefined.\<close>

theorem diag_request_answered:
  assumes "uarts_live h" and "adc_inv (adc f)" and "p_sid p \<in> {0x20, 0x21, 0x22, 0x23, 0x24, 0x25, 0x26}"
  shows "if p_sid p = 0x21 \<and> (\<exists>period high. captured h (brd f) = Some (period, high) \<and> period < 4)
    then diag_dispatch h p f = Inl Undefined
    else \<exists>f'. diag_dispatch h p f = Inr f' \<and>
      (case diag_answer h f (p_sid p) of
         None \<Rightarrow> p_sid p = 0x21 \<and> captured h (brd f) = None \<and> f' = f\<lparr>brd := (brd f)\<lparr>ticks := ticks (brd f) + 2\<rparr>\<rparr>
       | Some (type, payload) \<Rightarrow> answered (p_sid p) type payload f f')"
proof -
  consider "p_sid p = 0x20" | "p_sid p = 0x21" | "p_sid p = 0x22" | "p_sid p = 0x23" | "p_sid p = 0x24"
    | "p_sid p = 0x25" | "p_sid p = 0x26"
    using assms(3) by blast
  then show ?thesis
  proof cases
    case 1
    then show ?thesis
      using send_frame_after [OF assms(1), of "[BKEL_PWM_ReadDuty (brd f), BKEL_PWM_ReadPeriod (brd f)]" 2 f "ticks (brd f)" f "0x20" 2]
      by (simp add: diag_dispatch_def sid_defs AppSendDiagPWMOut_def diag_answer_def)
  next
    case 2
    then have d: "diag_dispatch h p f = AppSendDiagPWMIn h f" by (simp add: diag_dispatch_def sid_defs)
    show ?thesis
    proof (cases "captured h (brd f)")
      case None
      then show ?thesis using 2 by (simp add: d pwm_in_none diag_answer_def)
    next
      case (Some x)
      obtain period high where x: "x = (period, high)" by fastforce
      show ?thesis
      proof (cases "period < 4")
        case True
        then show ?thesis using 2 Some x by (simp add: d pwm_in_short)
      next
        case False
        then obtain f' where "AppSendDiagPWMIn h f = Inr f'" "answered 0x21 0x02
            [of_int \<lfloor>duty_of period high\<rfloor>, of_int \<lfloor>f32 (freq_of period / f32 999)\<rfloor>] f f'"
          using pwm_in_answer [OF assms(1) Some [unfolded x]] False unfolding not_less by blast
        then show ?thesis using 2 Some x False by (simp add: d diag_answer_def)
      qed
    qed
  next
    case 3
    then show ?thesis
      using adc_answer [OF assms(1,2), of "0x22" "\<lambda>v. ucast (drop_bit 16 v AND 0xFFFF)"]
      by (simp add: diag_dispatch_def sid_defs AppSendDiagADC1Val_def diag_answer_def adc_value_high)
  next
    case 4
    then show ?thesis
      using adc_answer [OF assms(1,2), of "0x23" "\<lambda>v. ucast (v AND 0xFFFF)"]
      by (simp add: diag_dispatch_def sid_defs AppSendDiagADC2Val_def diag_answer_def adc_value_low)
  next
    case 5
    then show ?thesis
      using pin_answer [OF assms(1), of 1 "0x2" GPIOC f "0x24"]
      by (simp add: diag_dispatch_def sid_defs AppSendDiagGPOPinState_def diag_answer_def)
  next
    case 6
    then show ?thesis
      using pin_answer [OF assms(1), of 0 "0x1" GPIOC f "0x25"]
      by (simp add: diag_dispatch_def sid_defs AppSendDiagGPIPinState_def diag_answer_def)
  next
    case 7
    then show ?thesis
      using pin_answer [OF assms(1), of 5 "0x20" GPIOA f "0x26"]
      by (simp add: diag_dispatch_def sid_defs AppSendDiagLD2PinState_def diag_answer_def)
  qed
qed

theorem diag_request_answered_witness:
  "\<forall>b. \<exists>f'. diag_dispatch ready_hw (packet_zero\<lparr>p_sid := 0x25\<rparr>) (fw_start b 0) = Inr f' \<and>
    trace (brd f') = trace b @ on_wire (frame 0x25 1 [1] (fst (make_cid b cid_start)))"
proof
  fix b
  have "adc_inv (adc (fw_start b 0))" by (simp add: fw_start_def adc_start_inv)
  from diag_request_answered [OF ready_uarts_live this, of "packet_zero\<lparr>p_sid := 0x25\<rparr>"]
  show "\<exists>f'. diag_dispatch ready_hw (packet_zero\<lparr>p_sid := 0x25\<rparr>) (fw_start b 0) = Inr f' \<and>
    trace (brd f') = trace b @ on_wire (frame 0x25 1 [1] (fst (make_cid b cid_start)))"
    by (auto simp: fw_start_def diag_answer_def answered_def pin_level_def ready_hw_def)
qed

lemma nth_cid_Suc: "nth_cid b s (Suc i) = nth_cid b (snd (make_cid b s)) i"
  by (simp add: nth_cid_def funpow_Suc_right del: funpow.simps)

lemma nth_cid_uart_frame: "uart_frame b b' \<Longrightarrow> nth_cid b' s i = nth_cid b s i"
  by (simp add: nth_cid_def make_cid_uart_frame)

lemma advertise_loop_live:
  assumes "uarts_live h" and "list_all (\<lambda>s. length s \<le> 248) ss"
  shows "\<exists>f'. advertise_loop h ss f = Inr f' \<and> trace (brd f') = trace (brd f) @
    concat (map (\<lambda>(i, s). on_wire (frame 0x01 0x03 (string_bytes s) (nth_cid (brd f) (cids f) i)))
      (enumerate 0 ss))"
  using assms(2)
proof (induction ss arbitrary: f)
  case Nil
  then show ?case by simp
next
  case (Cons s ss)
  let ?s1 = "snd (make_cid (brd f) (cids f))"
  have len: "unat (of_nat (length s) :: u16) = length s"
    using Cons.prems by (intro unat_of_nat_small) simp
  have "length (string_bytes s) = unat (of_nat (length s) :: u16)"
    unfolding len by (simp add: string_bytes_def)
  moreover have "8 + unat (of_nat (length s) :: u16) \<le> 256" unfolding len using Cons.prems by simp
  ultimately obtain buf b1 where
      "build_frame (brd f) (replicate 256 0) 256 0x01 0x03 (string_bytes s) (of_nat (length s)) (cids f) =
         Inr (8 + length s, buf, ?s1)"
      "BKEL_UART_Tx h buf (of_nat (8 + length s)) (brd f) = Inr b1"
      and st: "sent h 0x01 0x03 (string_bytes s) f (f\<lparr>brd := b1, cids := ?s1\<rparr>)"
    using build_and_send [OF assms(1), of "string_bytes s" "of_nat (length s)" 256 f "0x01" "0x03"]
    unfolding len by auto
  then have b1: "advertise_loop h (s # ss) f = advertise_loop h ss (f\<lparr>brd := b1, cids := ?s1\<rparr>)"
    by (simp add: SERVICE_ADVERTISE_def P_DATA_TYPE_CHAR_def)
  obtain f' where f': "advertise_loop h ss (f\<lparr>brd := b1, cids := ?s1\<rparr>) = Inr f'"
      "trace (brd f') = trace b1 @
        concat (map (\<lambda>(i, s). on_wire (frame 0x01 0x03 (string_bytes s) (nth_cid b1 ?s1 i))) (enumerate 0 ss))"
    using Cons.IH [of "f\<lparr>brd := b1, cids := ?s1\<rparr>"] Cons.prems by auto
  have uf: "uart_frame (brd f) b1" and
    tr: "trace b1 = trace (brd f) @ on_wire (frame 0x01 0x03 (string_bytes s) (nth_cid (brd f) (cids f) 0))"
    using st by (simp_all add: sent_def nth_cid_def)
  have "concat (map (\<lambda>(i, s). on_wire (frame 0x01 0x03 (string_bytes s) (nth_cid (brd f) (cids f) i)))
      (enumerate (Suc 0) ss)) =
    concat (map (\<lambda>(i, s). on_wire (frame 0x01 0x03 (string_bytes s) (nth_cid b1 ?s1 i))) (enumerate 0 ss))"
    by (simp add: enumerate_Suc_eq nth_cid_Suc nth_cid_uart_frame [OF uf] comp_def case_prod_unfold)
  then show ?case using b1 f' tr by simp
qed

text \<open>An advertisement is thirteen frames, the start marker, the eleven services and the end marker,
  in the order of the table, each with service id 1, type \<open>CHAR\<close>, its text as payload and the next
  connection id; none is skipped because of the buffer size.\<close>

theorem advertisement_frames:
  assumes "uarts_live h"
  shows "\<exists>f'. AppService_SendAdvertise h f = Inr f' \<and> trace (brd f') = trace (brd f) @
    concat (map (\<lambda>(i, s). on_wire (frame 0x01 0x03 (string_bytes s) (nth_cid (brd f) (cids f) i)))
      (enumerate 0 service_advertise_payload))"
  unfolding AppService_SendAdvertise_def
  by (rule advertise_loop_live [OF assms]) (simp add: service_advertise_payload_def)

theorem advertisement_frames_witness:
  "\<forall>f. \<exists>f'. AppService_SendAdvertise ready_hw f = Inr f' \<and> trace (brd f') = trace (brd f) @
    concat (map (\<lambda>(i, s). on_wire (frame 0x01 0x03 (string_bytes s) (nth_cid (brd f) (cids f) i)))
      (enumerate 0 service_advertise_payload))"
  using advertisement_frames [OF ready_uarts_live] by blast

end
