(* ===== verification/ParserSpec.thy ===== *)
theory ParserSpec
  imports Parser
begin

text \<open>
  What the parser does. Acceptance is characterised by the frame format: \<open>parse_one_frame\<close> returns
  \<open>PARSE_OK\<close> exactly on the frames of \<open>Frame\<close>. From this follow the round trip with
  \<open>build_frame\<close>, the delivery of a whole input with noise between the frames and a partial frame at
  its end, the bound on what stays in the buffer, memory safety, and the two defects of the test
  for an incomplete header.
\<close>

section \<open>One frame\<close>

lemma of_nat_len_u16: "n \<le> 500 \<Longrightarrow> unat (of_nat n :: u16) = n"
  by (simp add: unat_of_nat_small)

lemma store_packet_prefix:
  assumes "unat dlc \<le> length payload"
  shows "store_packet sid type (payload @ rest) dlc cid p = store_packet sid type payload dlc cid p"
proof -
  have "unat (if 16 < dlc then 16 else dlc) \<le> length payload"
    using assms by (auto simp: word_less_nat_alt)
  then show ?thesis by (simp add: store_packet_def Let_def)
qed

lemma handle_frame_prefix:
  "unat dlc \<le> length payload \<Longrightarrow>
   handle_frame preempt sid type (payload @ rest) dlc cid f = handle_frame preempt sid type payload dlc cid f"
  by (simp add: handle_frame_def store_packet_prefix Let_def split: prod.split)

text \<open>The frame at the front of the bytes an offset points to.\<close>

lemma frame_split:
  "frame sid type pl cid = [SOF_DATA_VALUE] @ hdr_bytes \<lparr>hdr_sid = sid, hdr_type = type,
     hdr_dlc = of_nat (length pl)\<rparr> @ pl @ le16 cid @ [calc_crc8 (frame_body sid type pl cid)]"
  by (simp add: frame_def frame_body_def)

lemma parse_one_frame_accepts:
  assumes "length pl \<le> 500" and "8 + length pl \<le> buf_len"
  shows "parse_one_frame preempt (pre @ frame sid type pl cid @ rest) (length pre) buf_len f =
    bindR (handle_frame preempt sid type pl (of_nat (length pl)) cid f)
      (\<lambda>f1. Inr (8 + length pl, PARSE_OK, f1))"
proof -
  let ?buf = "pre @ frame sid type pl cid @ rest" and ?n = "length pl"
  let ?hdr = "\<lparr>hdr_sid = sid, hdr_type = type, hdr_dlc = of_nat ?n :: u16\<rparr>"
  let ?body = "frame_body sid type pl cid"
  note dlc = of_nat_len_u16 [OF assms(1)]
  have sof: "mem_read ?buf (length pre) 1 = Inr [SOF_DATA_VALUE]"
    by (simp add: frame_split)
  have hb: "mem_read ?buf (length pre + 1) 4 = Inr (hdr_bytes ?hdr)"
    by (simp add: frame_split)
  have cb: "mem_read ?buf (length pre + 1 + 4 + ?n) 2 = Inr (le16 cid)"
    using mem_read_part [of _ "pre @ [SOF_DATA_VALUE] @ hdr_bytes ?hdr @ pl" 2 "le16 cid"]
    by (simp add: frame_split)
  have body: "mem_read ?buf (length pre + 1) (4 + ?n + 2) = Inr ?body"
    using mem_read_part [of _ "pre @ [SOF_DATA_VALUE]" "6 + ?n" ?body]
    by (simp add: frame_def add.commute)
  have crc: "mem_read ?buf (length pre + 1 + 4 + ?n + 2) 1 = Inr [calc_crc8 ?body]"
    using mem_read_part [of _ "pre @ SOF_DATA_VALUE # ?body" 1 "[calc_crc8 ?body]"]
    by (simp add: frame_def add.commute)
  have pl: "drop (length pre + 1 + 4) ?buf = pl @ le16 cid @ [calc_crc8 ?body] @ rest"
    by (simp add: frame_split)
  have cid: "of_le16 (le16 cid ! 0) (le16 cid ! 1) = cid"
    by (simp add: le16_def of_le16_le16)
  have h: "handle_frame preempt sid type (pl @ le16 cid @ [calc_crc8 ?body] @ rest) (of_nat ?n) cid f =
      handle_frame preempt sid type pl (of_nat ?n) cid f"
    by (rule handle_frame_prefix) (simp add: dlc)
  have c: "\<not> buf_len < 4" "\<not> 500 < ?n" "\<not> buf_len < 8 + ?n" "1 + 4 + ?n + 2 + 1 = 8 + ?n"
    using assms by auto
  show ?thesis
    unfolding parse_one_frame_def Let_def sizes
    by (simp only: sof bindR.simps simp_thms if_False c(1) hb hdr_of_bytes_inverse
        BKEL_Data_Frame_Header_t.simps dlc c cb body crc nth_Cons_0 pl cid h)
qed

lemma take_add_drop: "take (m + n) xs = take m xs @ take n (drop m xs)"
  by (simp add: take_add)

lemma parse_one_frame_OK_frame:
  assumes "parse_one_frame preempt buf off buf_len f = Inr (c, PARSE_OK, f1)"
  shows "\<exists>sid type pl cid. take c (drop off buf) = frame sid type pl cid \<and> length pl \<le> 500 \<and>
    c = 8 + length pl \<and> c \<le> buf_len"
proof -
  let ?ys = "drop off buf"
  from assms obtain sof hb cb body got where
      sof: "mem_read buf off 1 = Inr sof" and "sof = [SOF_DATA_VALUE]"
      and hb: "mem_read buf (off + 1) 4 = Inr hb"
      and dlc: "unat (hdr_dlc (hdr_of_bytes hb)) \<le> 500"
      and len: "8 + unat (hdr_dlc (hdr_of_bytes hb)) \<le> buf_len"
      and cb: "mem_read buf (off + 1 + 4 + unat (hdr_dlc (hdr_of_bytes hb))) 2 = Inr cb"
      and body: "mem_read buf (off + 1) (4 + unat (hdr_dlc (hdr_of_bytes hb)) + 2) = Inr body"
      and got: "mem_read buf (off + 1 + 4 + unat (hdr_dlc (hdr_of_bytes hb)) + 2) 1 = Inr got"
      and crc: "calc_crc8 body = got ! 0" and c: "c = 8 + unat (hdr_dlc (hdr_of_bytes hb))"
    unfolding parse_one_frame_def Let_def sizes
    by (auto simp: bindR_Inr_iff split: if_splits)
  define n where "n = unat (hdr_dlc (hdr_of_bytes hb))"
  define pl where "pl = take n (drop 5 ?ys)"
  define cid where "cid = of_le16 (cb ! 0) (cb ! 1)"
  note R = mem_readD [OF sof] mem_readD [OF hb] mem_readD [OF cb]
    mem_readD [OF body] mem_readD [OF got]
  have lpl: "length pl = n" using R n_def by (auto simp: pl_def)
  have lhb: "length hb = 4" and hbe: "hb = take 4 (drop 1 ?ys)" using R by (auto simp: add.commute)
  have hdr: "hdr_bytes \<lparr>hdr_sid = hdr_sid (hdr_of_bytes hb), hdr_type = hdr_type (hdr_of_bytes hb),
      hdr_dlc = of_nat (length pl)\<rparr> = hb"
  proof -
    obtain x0 x1 x2 x3 where x: "hb = [x0, x1, x2, x3]"
      using lhb by (auto simp: length_Suc_conv numeral_eq_Suc)
    have "of_nat (length pl) = hdr_dlc (hdr_of_bytes hb)" by (simp add: lpl n_def)
    then show ?thesis
      by (simp add: x hdr_bytes_def hdr_of_bytes_def le16_of_le16 numeral_2_eq_2 numeral_3_eq_3)
  qed
  have cbe: "cb = take 2 (drop (5 + n) ?ys)" and lcb: "length cb = 2"
    using R by (auto simp: n_def ac_simps)
  have cb2: "le16 cid = cb"
  proof -
    obtain y0 y1 where y: "cb = [y0, y1]" using lcb by (auto simp: length_Suc_conv numeral_eq_Suc)
    show ?thesis by (simp add: cid_def y le16_of_le16)
  qed
  have body2: "body = hb @ pl @ cb"
  proof -
    have "body = take (4 + (n + 2)) (drop 1 ?ys)" using R by (simp add: n_def)
    also have "\<dots> = hb @ pl @ cb"
      by (simp only: hbe pl_def cbe take_add_drop drop_drop) (simp add: ac_simps)
    finally show ?thesis .
  qed
  have gote: "got = take 1 (drop (7 + n) ?ys)" and lgot: "length got = 1"
    using R by (auto simp: n_def ac_simps)
  have g: "got = [got ! 0]" using lgot by (cases got) auto
  have sofe: "take 1 ?ys = [SOF_DATA_VALUE]" using R \<open>sof = [SOF_DATA_VALUE]\<close> by simp
  have "take c ?ys = take 1 ?ys @ take 4 (drop 1 ?ys) @ take n (drop 5 ?ys) @ take 2 (drop (5 + n) ?ys) @
      take 1 (drop (7 + n) ?ys)"
  proof -
    have "c = 1 + (4 + (n + (2 + 1)))" by (simp add: c n_def)
    then show ?thesis by (simp only: take_add_drop drop_drop) (simp add: ac_simps)
  qed
  also have "\<dots> = [SOF_DATA_VALUE] @ hb @ pl @ cb @ [got ! 0]"
    by (simp only: sofe hbe [symmetric] pl_def [symmetric] cbe [symmetric] gote [symmetric] g [symmetric])
  also have "\<dots> = frame (hdr_sid (hdr_of_bytes hb)) (hdr_type (hdr_of_bytes hb)) pl cid"
    unfolding frame_def frame_body_def hdr cb2 crc [symmetric] body2 by simp
  finally have fr: "take c ?ys = frame (hdr_sid (hdr_of_bytes hb)) (hdr_type (hdr_of_bytes hb)) pl cid" .
  show ?thesis
    by (rule exI, rule exI, rule exI [of _ pl], rule exI, rule conjI [OF fr])
      (use dlc len c lpl n_def in simp)
qed

section \<open>The loop\<close>

text \<open>An input as the sender meant it: frames, and single bytes of noise that are no start byte.\<close>

datatype item = Noise u8 | Good u8 u8 "u8 list" u16

fun item_bytes :: "item \<Rightarrow> u8 list" where
  "item_bytes (Noise x) = [x]"
| "item_bytes (Good sid type pl cid) = frame sid type pl cid"

fun item_ok :: "item \<Rightarrow> bool" where
  "item_ok (Noise x) = (x \<noteq> SOF_DATA_VALUE)"
| "item_ok (Good sid type pl cid) = (length pl \<le> 500)"

text \<open>The packets are handled in order, each once.\<close>

fun deliver :: "preempt \<Rightarrow> item list \<Rightarrow> fw \<Rightarrow> fw res" where
  "deliver preempt [] f = Inr f"
| "deliver preempt (Noise x # is) f = deliver preempt is f"
| "deliver preempt (Good sid type pl cid # is) f =
     bindR (handle_frame preempt sid type pl (of_nat (length pl)) cid f) (deliver preempt is)"

lemma parse_one_frame_noise:
  assumes "x \<noteq> SOF_DATA_VALUE"
  shows "parse_one_frame preempt (pre @ x # rest) (length pre) buf_len f = Inr (1, PARSE_INVALID, f)"
  using assms by (simp add: parse_one_frame_def)

lemma parse_loop_noise:
  assumes "x \<noteq> SOF_DATA_VALUE" and "length pre < len"
  shows "parse_loop preempt (pre @ x # rest) len (length pre) f =
    parse_loop preempt (pre @ x # rest) len (length (pre @ [x])) f"
  using assms by (subst parse_loop.simps) (simp add: parse_one_frame_noise)

lemma bindR_assoc: "bindR (bindR m f) g = bindR m (\<lambda>x. bindR (f x) g)"
  by (cases m) simp_all

lemma parse_loop_frame:
  assumes "length pl \<le> 500" and "length pre + 8 + length pl \<le> len"
  shows "parse_loop preempt (pre @ frame sid type pl cid @ rest) len (length pre) f =
    bindR (handle_frame preempt sid type pl (of_nat (length pl)) cid f) (\<lambda>f1.
      parse_loop preempt (pre @ frame sid type pl cid @ rest) len
        (length (pre @ frame sid type pl cid)) f1)"
proof -
  have "8 + length pl \<le> len - length pre" and "length pre < len" using assms(2) by auto
  then show ?thesis
    using assms(1)
    by (subst parse_loop.simps) (simp add: parse_one_frame_accepts bindR_assoc add.assoc)
qed

lemma parse_loop_items:
  assumes "list_all item_ok is" and "length pre + length (concat (map item_bytes is)) \<le> len"
  shows "parse_loop preempt (pre @ concat (map item_bytes is) @ rest) len (length pre) f =
    bindR (deliver preempt is f)
      (parse_loop preempt (pre @ concat (map item_bytes is) @ rest) len
        (length (pre @ concat (map item_bytes is))))"
  using assms
proof (induction "is" arbitrary: pre f)
  case Nil
  then show ?case by simp
next
  case (Cons i "is")
  show ?case
  proof (cases i)
    case (Noise x)
    have "parse_loop preempt (pre @ x # concat (map item_bytes is) @ rest) len (length pre) f =
        parse_loop preempt ((pre @ [x]) @ concat (map item_bytes is) @ rest) len (length (pre @ [x])) f"
      using Cons.prems Noise by (simp add: parse_loop_noise)
    then show ?thesis using Cons.IH [of "pre @ [x]" f] Cons.prems Noise by simp
  next
    case (Good sid type pl cid)
    let ?fr = "frame sid type pl cid"
    have "parse_loop preempt (pre @ ?fr @ concat (map item_bytes is) @ rest) len (length pre) f =
        bindR (handle_frame preempt sid type pl (of_nat (length pl)) cid f) (\<lambda>f1.
          parse_loop preempt ((pre @ ?fr) @ concat (map item_bytes is) @ rest) len (length (pre @ ?fr)) f1)"
      using Cons.prems Good parse_loop_frame [of pl pre len] by simp
    also have "\<dots> = bindR (handle_frame preempt sid type pl (of_nat (length pl)) cid f) (\<lambda>f1.
          bindR (deliver preempt is f1)
            (parse_loop preempt ((pre @ ?fr) @ concat (map item_bytes is) @ rest) len
              (length ((pre @ ?fr) @ concat (map item_bytes is)))))"
      using Cons.IH [of "pre @ ?fr"] Cons.prems Good by (simp add: add.assoc)
    finally show ?thesis using Good by (simp add: bindR_assoc)
  qed
qed

text \<open>The end of the input is a partial frame the parser waits for. With four bytes of it the length
  field is not complete and its high byte is whatever the array holds.\<close>

definition waits :: "u8 list \<Rightarrow> u8 list \<Rightarrow> bool" where
  "waits ts stale \<longleftrightarrow>
     ts = [] \<or>
     (hd ts = SOF_DATA_VALUE \<and>
      (length ts < 4 \<or>
       5 \<le> length (ts @ stale) \<and>
       (let dlc = unat (of_le16 ((ts @ stale) ! 3) ((ts @ stale) ! 4))
        in dlc \<le> 500 \<and> length ts < 8 + dlc)))"

lemma nth_header: "5 \<le> length zs \<Longrightarrow> take 4 (drop 1 zs) ! 2 = zs ! 3"
    "5 \<le> length zs \<Longrightarrow> take 4 (drop 1 zs) ! 3 = zs ! 4"
  by (simp_all add: numeral_3_eq_3 numeral_eq_Suc)

lemma parse_one_frame_waits:
  assumes "waits ts stale" and "ts \<noteq> []"
  shows "parse_one_frame preempt (pre @ ts @ stale) (length pre) (length ts) f = Inr (0, PARSE_INCOMPLETE, f)"
proof -
  obtain t ts' where ts: "ts = t # ts'" using assms(2) by (cases ts) auto
  have sof: "mem_read (pre @ ts @ stale) (length pre) 1 = Inr [t]" by (simp add: ts)
  have t: "t = SOF_DATA_VALUE" using assms by (simp add: waits_def ts)
  show ?thesis
  proof (cases "length ts < 4")
    case True
    then show ?thesis unfolding parse_one_frame_def sof t bindR.simps sizes by simp
  next
    case False
    then have len: "5 \<le> length (ts @ stale)"
      and dlc: "unat (of_le16 ((ts @ stale) ! 3) ((ts @ stale) ! 4)) \<le> 500"
      and lt: "length ts < 8 + unat (of_le16 ((ts @ stale) ! 3) ((ts @ stale) ! 4))"
      using assms by (auto simp: waits_def Let_def)
    let ?hb = "take 4 (drop 1 (ts @ stale))"
    have hb: "mem_read (pre @ ts @ stale) (length pre + 1) 4 = Inr ?hb"
      using len by (simp add: mem_read_def)
    have nth: "?hb ! 2 = (ts @ stale) ! 3" "?hb ! 3 = (ts @ stale) ! 4"
      using nth_header [OF len] .
    have d: "hdr_dlc (hdr_of_bytes ?hb) = of_le16 ((ts @ stale) ! 3) ((ts @ stale) ! 4)"
      by (simp only: hdr_of_bytes_def BKEL_Data_Frame_Header_t.simps nth)
    have c: "length ts < 1 + 4 + unat (of_le16 ((ts @ stale) ! 3) ((ts @ stale) ! 4)) + 2 + 1"
      "\<not> 500 < unat (of_le16 ((ts @ stale) ! 3) ((ts @ stale) ! 4))"
      using lt dlc by simp_all
    show ?thesis
      unfolding parse_one_frame_def sof t bindR.simps sizes hb Let_def d
      using False c by simp
  qed
qed

lemma parse_loop_waits:
  assumes "waits ts stale"
  shows "parse_loop preempt (pre @ ts @ stale) (length pre + length ts) (length pre) f = Inr (length pre, f)"
  using parse_one_frame_waits [OF assms]
  by (cases "ts = []") (subst parse_loop.simps, simp)+

lemma parse_packet_of_loop:
  assumes "parse_loop preempt (xs @ ts @ stale) (length xs + length ts) 0 f =
    bindR d (\<lambda>f1. Inr (length xs, f1))"
  shows "parse_packet preempt (xs @ ts @ stale) (length xs + length ts) f =
    bindR d (\<lambda>f1. Inr (mem_put (xs @ ts @ stale) 0 ts, length ts, f1))"
  using assms by (cases "xs = []") (simp_all add: parse_packet_def bindR_assoc mem_put_def)

lemma parse_packet_items:
  assumes "list_all item_ok is" and "waits ts stale"
  shows "parse_packet preempt (concat (map item_bytes is) @ ts @ stale)
      (length (concat (map item_bytes is)) + length ts) f =
    bindR (deliver preempt is f) (\<lambda>f1.
      Inr (mem_put (concat (map item_bytes is) @ ts @ stale) 0 ts, length ts, f1))"
proof -
  let ?xs = "concat (map item_bytes is)"
  have "parse_loop preempt (?xs @ ts @ stale) (length ?xs + length ts) 0 f =
      bindR (deliver preempt is f)
        (parse_loop preempt (?xs @ ts @ stale) (length ?xs + length ts) (length ?xs))"
    using parse_loop_items [OF assms(1), of "[]"] by simp
  also have "\<dots> = bindR (deliver preempt is f) (\<lambda>f1. Inr (length ?xs, f1))"
    by (rule bindR_cong [OF refl]) (rule parse_loop_waits [OF assms(2)])
  finally have "parse_loop preempt (?xs @ ts @ stale) (length ?xs + length ts) 0 f =
      bindR (deliver preempt is f) (\<lambda>f1. Inr (length ?xs, f1))" .
  then show ?thesis by (rule parse_packet_of_loop)
qed

section \<open>Errors and bounds\<close>

lemma parse_one_frame_incomplete:
  "parse_one_frame preempt buf off buf_len f = Inr (c, PARSE_INCOMPLETE, f1) \<Longrightarrow> buf_len < 508"
  unfolding parse_one_frame_def Let_def sizes
  by (auto simp: bindR_Inr_iff split: if_splits)

lemma parse_one_frame_consumed:
  "parse_one_frame preempt buf off buf_len f = Inr (c, r, f1) \<Longrightarrow> 0 < buf_len \<Longrightarrow> c \<le> buf_len"
  unfolding parse_one_frame_def Let_def sizes
  by (auto simp: bindR_Inr_iff split: if_splits)

lemma parse_loop_stops:
  "parse_loop preempt buf len off f = Inr (off', f1) \<Longrightarrow> off \<le> len \<Longrightarrow>
   off \<le> off' \<and> off' \<le> len \<and> len - off' < 508"
proof (induction preempt buf len off f rule: parse_loop.induct)
  case (1 preempt buf len off f)
  show ?case
  proof (cases "off < len")
    case True
    with 1(2) obtain c r f2 where one: "parse_one_frame preempt buf off (len - off) f = Inr (c, r, f2)"
      and rest: "(if r = PARSE_INCOMPLETE then Inr (off, f2)
                  else parse_loop preempt buf len (off + c) f2) = Inr (off', f1)"
      by (subst (asm) parse_loop.simps) (auto simp: bindR_Inr_iff)
    have c: "c \<le> len - off" using parse_one_frame_consumed [OF one] True by simp
    show ?thesis
    proof (cases "r = PARSE_INCOMPLETE")
      case True
      then show ?thesis using rest parse_one_frame_incomplete one 1(3) by auto
    next
      case False
      then have "off + c \<le> off' \<and> off' \<le> len \<and> len - off' < 508"
        using 1(1) [OF True one refl refl False] rest c True by simp
      then show ?thesis by simp
    qed
  next
    case False
    with 1(2,3) show ?thesis by (subst (asm) parse_loop.simps) simp
  qed
qed

text \<open>Faults: every read of the parser is inside the array as long as one more byte than was received
  is. \<open>ends_well E Q\<close>: a run ends in a state with \<open>Q\<close> or with a fault in \<open>E\<close>. What holds of handling one
  frame holds of a whole input: the parser itself adds no fault.\<close>

definition payload_ok :: "fw \<Rightarrow> bool" where
  "payload_ok f \<longleftrightarrow> length (p_payload (parsed_packet f)) = 16"

definition ends_well :: "fault set \<Rightarrow> ('a \<Rightarrow> bool) \<Rightarrow> 'a res \<Rightarrow> bool" where
  "ends_well E Q m \<longleftrightarrow> (case m of Inl e \<Rightarrow> e \<in> E | Inr x \<Rightarrow> Q x)"

lemma ends_well_simps [simp]: "ends_well E Q (Inl e) \<longleftrightarrow> e \<in> E" "ends_well E Q (Inr x) \<longleftrightarrow> Q x"
  by (simp_all add: ends_well_def)

lemma ends_well_bind:
  assumes "ends_well E P m" and "\<And>x. P x \<Longrightarrow> ends_well E Q (g x)"
  shows "ends_well E Q (bindR m g)"
  using assms by (cases m) simp_all

lemma store_packet_total:
  assumes "unat dlc \<le> length payload" and "length (p_payload p) = 16"
  shows "\<exists>p'. store_packet sid type payload dlc cid p = Inr p' \<and> length (p_payload p') = 16"
proof -
  have "unat (if 16 < dlc then 16 else dlc) \<le> length payload \<and> unat (if 16 < dlc then 16 else dlc) \<le> 16"
    using assms by (auto simp: word_less_nat_alt)
  then show ?thesis using assms(2) by (simp add: store_packet_def Let_def)
qed

lemma parse_one_frame_accepts_at:
  assumes fr: "take c (drop off buf) = frame sid type pl cid"
    and len: "length pl \<le> 500" "c = 8 + length pl" "c \<le> buf_len"
  shows "parse_one_frame preempt buf off buf_len f =
    bindR (handle_frame preempt sid type pl (of_nat (length pl)) cid f)
      (\<lambda>f1. Inr (8 + length pl, PARSE_OK, f1))"
proof -
  have off: "length (take off buf) = off"
  proof (rule ccontr)
    assume "length (take off buf) \<noteq> off"
    then have "take c (drop off buf) = []" by simp
    with fr show False by (simp add: frame_def)
  qed
  have buf: "take off buf @ frame sid type pl cid @ drop c (drop off buf) = buf"
    by (simp only: fr [symmetric] append_take_drop_id)
  show ?thesis
    using parse_one_frame_accepts [of pl buf_len preempt "take off buf" sid type cid "drop c (drop off buf)"]
      len unfolding buf off by simp
qed

definition handles_well :: "fault set \<Rightarrow> (fw \<Rightarrow> bool) \<Rightarrow> preempt \<Rightarrow> bool" where
  "handles_well E Q preempt \<longleftrightarrow> (\<forall>sid type pl cid g. Q g \<longrightarrow> length pl \<le> 500 \<longrightarrow>
     ends_well E Q (handle_frame preempt sid type pl (of_nat (length pl)) cid g))"

lemma parse_one_frame_ends_well:
  assumes "off + buf_len < length buf" and "0 < buf_len" and "Q f" and hw: "handles_well E Q preempt"
  shows "ends_well E (\<lambda>(_, _, f1). Q f1) (parse_one_frame preempt buf off buf_len f)"
proof (cases "parse_one_frame preempt buf off buf_len f")
  case (Inl e)
  obtain sof where sof: "mem_read buf off 1 = Inr sof" using assms(1) by simp
  have "sof = [SOF_DATA_VALUE]" and len4: "\<not> buf_len < 4"
    using Inl unfolding parse_one_frame_def sof bindR.simps sizes by (auto split: if_splits)
  obtain hb where hb: "mem_read buf (off + 1) 4 = Inr hb" using assms(1) len4 by simp
  let ?d = "unat (hdr_dlc (hdr_of_bytes hb))"
  have d: "\<not> 500 < ?d" and len: "\<not> buf_len < 1 + 4 + ?d + 2 + 1"
    using Inl \<open>sof = _\<close> len4
    unfolding parse_one_frame_def sof bindR.simps sizes hb Let_def by (auto split: if_splits)
  obtain cb where cb: "mem_read buf (off + 1 + 4 + ?d) 2 = Inr cb" using assms(1) len by simp
  obtain body where body: "mem_read buf (off + 1) (4 + ?d + 2) = Inr body" using assms(1) len by simp
  obtain got where got: "mem_read buf (off + 1 + 4 + ?d + 2) 1 = Inr got" using assms(1) len by simp
  let ?pl = "take ?d (drop (off + 1 + 4) buf)"
  have fault: "handle_frame preempt (hdr_sid (hdr_of_bytes hb)) (hdr_type (hdr_of_bytes hb)) (drop (off + 1 + 4) buf)
      (hdr_dlc (hdr_of_bytes hb)) (of_le16 (cb ! 0) (cb ! 1)) f = Inl e"
    using Inl \<open>sof = _\<close> len4 d len
    unfolding parse_one_frame_def sof bindR.simps sizes hb Let_def cb body got
    by (auto simp: bindR_Inl_iff split: if_splits)
  have lpl: "length ?pl = ?d" using len assms(1) by simp
  then have "of_nat (length ?pl) = hdr_dlc (hdr_of_bytes hb)" by simp
  moreover have "drop (off + 1 + 4) buf = ?pl @ drop ?d (drop (off + 1 + 4) buf)" by (simp only: append_take_drop_id)
  ultimately have "handle_frame preempt (hdr_sid (hdr_of_bytes hb)) (hdr_type (hdr_of_bytes hb)) ?pl
      (of_nat (length ?pl)) (of_le16 (cb ! 0) (cb ! 1)) f = Inl e"
    using fault handle_frame_prefix [of "hdr_dlc (hdr_of_bytes hb)" ?pl] lpl by (metis order_refl)
  moreover have "length ?pl \<le> 500" using d lpl by simp
  ultimately have "ends_well E Q (Inl e)" using hw assms(3) unfolding handles_well_def by metis
  then show ?thesis using Inl by simp
next
  case (Inr x)
  obtain c r f1 where x: "x = (c, r, f1)" by (cases x) auto
  have "Q f1"
  proof (cases "r = PARSE_OK")
    case True
    then obtain sid type pl cid where fr: "take c (drop off buf) = frame sid type pl cid"
        and len: "length pl \<le> 500" "c = 8 + length pl" "c \<le> buf_len"
      using parse_one_frame_OK_frame Inr x by blast
    have "bindR (handle_frame preempt sid type pl (of_nat (length pl)) cid f)
        (\<lambda>f1. Inr (8 + length pl, PARSE_OK, f1)) = Inr (c, r, f1)"
      using parse_one_frame_accepts_at [OF fr len] Inr x by simp
    then have "handle_frame preempt sid type pl (of_nat (length pl)) cid f = Inr f1"
      by (auto simp: bindR_Inr_iff)
    then show ?thesis using hw assms(3) len(1) unfolding handles_well_def by (metis ends_well_simps(2))
  next
    case False
    then have "f1 = f"
      using Inr x unfolding parse_one_frame_def Let_def
      by (auto simp: bindR_Inr_iff split: if_splits)
    then show ?thesis using assms(3) by simp
  qed
  then show ?thesis using Inr x by simp
qed

lemma parse_loop_ends_well:
  "handles_well E Q preempt \<Longrightarrow> len < length buf \<Longrightarrow> Q f \<Longrightarrow>
   ends_well E (\<lambda>(_, f1). Q f1) (parse_loop preempt buf len off f)"
proof (induction preempt buf len off f rule: parse_loop.induct)
  case (1 preempt buf len off f)
  show ?case
  proof (cases "off < len")
    case True
    show ?thesis
    proof (cases "parse_one_frame preempt buf off (len - off) f")
      case (Inl e)
      then show ?thesis
        using parse_one_frame_ends_well [of off "len - off" buf Q f E preempt] True 1(2-4)
        by (subst parse_loop.simps) simp
    next
      case (Inr x)
      then obtain c r f2 where x: "parse_one_frame preempt buf off (len - off) f = Inr (c, r, f2)"
        by (cases x) auto
      then have "Q f2"
        using parse_one_frame_ends_well [of off "len - off" buf Q f E preempt] True 1(2-4) by simp
      then show ?thesis using 1(1) [OF True x refl refl] 1(2,3) True x
        by (subst parse_loop.simps) simp
    qed
  next
    case False
    then show ?thesis using 1(4) by (subst parse_loop.simps) simp
  qed
qed

section \<open>Damaged frames\<close>

lemma parse_one_frame_bad_crc:
  assumes "length hb = 4" and "unat (hdr_dlc (hdr_of_bytes hb)) = length pl" and "length pl \<le> 500"
    and "length cb = 2" and "8 + length pl \<le> buf_len" and "calc_crc8 (hb @ pl @ cb) \<noteq> g"
  shows "parse_one_frame preempt (pre @ ([SOF_DATA_VALUE] @ hb @ pl @ cb @ [g]) @ rest) (length pre) buf_len f =
    Inr (1, PARSE_INVALID, f)"
proof -
  let ?buf = "pre @ ([SOF_DATA_VALUE] @ hb @ pl @ cb @ [g]) @ rest"
  have sof: "mem_read ?buf (length pre) 1 = Inr [SOF_DATA_VALUE]"
    using mem_read_part [of _ pre 1 "[SOF_DATA_VALUE]"] by simp
  have h: "mem_read ?buf (length pre + 1) 4 = Inr hb"
    using mem_read_part [of _ "pre @ [SOF_DATA_VALUE]" 4 hb] assms(1) by simp
  have cb: "mem_read ?buf (length pre + 1 + 4 + length pl) 2 = Inr cb"
    using mem_read_part [of _ "pre @ [SOF_DATA_VALUE] @ hb @ pl" 2 cb] assms(1,4) by simp
  have body: "mem_read ?buf (length pre + 1) (4 + length pl + 2) = Inr (hb @ pl @ cb)"
    using mem_read_part [of _ "pre @ [SOF_DATA_VALUE]" "4 + length pl + 2" "hb @ pl @ cb"] assms(1,4) by simp
  have g: "mem_read ?buf (length pre + 1 + 4 + length pl + 2) 1 = Inr [g]"
    using mem_read_part [of _ "pre @ [SOF_DATA_VALUE] @ hb @ pl @ cb" 1 "[g]"] assms(1,4)
    by (simp add: ac_simps)
  have c: "\<not> buf_len < 4" "\<not> 500 < length pl" "\<not> buf_len < 1 + 4 + length pl + 2 + 1"
    using assms(3,5) by auto
  show ?thesis
    unfolding parse_one_frame_def Let_def sizes
    by (simp only: sof bindR.simps simp_thms if_False c(1) h assms(2) c(2,3) cb body g nth_Cons_0)
      (simp add: assms(6))
qed

lemma calc_crc8_one_byte:
  assumes "i < length xs" and "xs ! i \<noteq> d"
  shows "calc_crc8 (xs[i := d]) \<noteq> calc_crc8 xs"
proof
  assume eq: "calc_crc8 (xs[i := d]) = calc_crc8 xs"
  have xs: "xs = take i xs @ xs ! i # drop (Suc i) xs" using assms(1) by (rule id_take_nth_drop)
  have up: "xs[i := d] = take i xs @ d # drop (Suc i) xs" using assms(1) by (rule upd_conv_take_nth_drop)
  have "foldl crc8_byte (crc8_byte (calc_crc8 (take i xs)) d) (drop (Suc i) xs) =
      foldl crc8_byte (crc8_byte (calc_crc8 (take i xs)) (xs ! i)) (drop (Suc i) xs)"
    using eq by (subst (asm) xs) (simp only: up calc_crc8_append foldl_Cons)
  then show False using assms(2) by (simp add: crc8_fold_inj)
qed

lemma body_one_byte_rejected:
  assumes "length pl \<le> 500" and "8 + length pl \<le> buf_len"
    and "j < 6 + length pl" and "j \<noteq> 2" and "j \<noteq> 3" and "frame_body sid type pl cid ! j \<noteq> d"
  shows "parse_one_frame preempt (pre @ (SOF_DATA_VALUE # (frame_body sid type pl cid)[j := d] @
      [calc_crc8 (frame_body sid type pl cid)]) @ rest) (length pre) buf_len f = Inr (1, PARSE_INVALID, f)"
proof -
  let ?b = "frame_body sid type pl cid"
  let ?b' = "?b[j := d]"
  define hb pl' cb where "hb = take 4 ?b'" and "pl' = take (length pl) (drop 4 ?b')"
    and "cb = drop (length pl) (drop 4 ?b')"
  have split: "?b' = hb @ pl' @ cb"
    unfolding hb_def pl'_def cb_def by (simp only: append_take_drop_id)
  have len: "length hb = 4" "length pl' = length pl" "length cb = 2"
    by (simp_all add: hb_def pl'_def cb_def)
  have "hb ! 2 = ?b ! 2" "hb ! 3 = ?b ! 3" using assms(4,5) by (simp_all add: hb_def)
  moreover have "?b ! 2 = le16 (of_nat (length pl)) ! 0" "?b ! 3 = le16 (of_nat (length pl)) ! 1"
    by (simp_all add: frame_body_def hdr_bytes_def le16_def numeral_2_eq_2 numeral_3_eq_3)
  ultimately have "hdr_dlc (hdr_of_bytes hb) = of_nat (length pl)"
    by (simp add: hdr_of_bytes_def of_le16_le16)
  then have dlc: "unat (hdr_dlc (hdr_of_bytes hb)) = length pl'"
    using assms(1) by (simp add: of_nat_len_u16 len(2))
  have "calc_crc8 (hb @ pl' @ cb) \<noteq> calc_crc8 ?b"
    unfolding split [symmetric] using assms(3,6) by (intro calc_crc8_one_byte) simp_all
  from parse_one_frame_bad_crc [OF len(1) dlc _ len(3) _ this, of buf_len preempt pre rest f]
  show ?thesis unfolding split using assms(1,2) len(2) by simp
qed

section \<open>Properties\<close>

text \<open>C4: the parser accepts exactly the frames of the format: \<open>parse_one_frame\<close> returns
  \<open>PARSE_OK\<close> when and only when the received bytes at the offset begin with a well-formed frame of
  at most 500 payload bytes, complete and with a matching checksum; it then consumes exactly that
  frame and has handled its service id, type, payload and connection id.\<close>

theorem parser_accepts_exactly_frames:
  "parse_one_frame preempt buf off buf_len f = Inr (c, PARSE_OK, f1) \<longleftrightarrow>
   (\<exists>sid type pl cid. take c (drop off buf) = frame sid type pl cid \<and> length pl \<le> 500 \<and>
      c = 8 + length pl \<and> c \<le> buf_len \<and>
      handle_frame preempt sid type pl (of_nat (length pl)) cid f = Inr f1)"
  (is "?ok \<longleftrightarrow> ?frame")
proof
  assume ?ok
  then obtain sid type pl cid where fr: "take c (drop off buf) = frame sid type pl cid"
      and len: "length pl \<le> 500" "c = 8 + length pl" "c \<le> buf_len"
    using parse_one_frame_OK_frame by blast
  have "bindR (handle_frame preempt sid type pl (of_nat (length pl)) cid f)
      (\<lambda>f1. Inr (8 + length pl, PARSE_OK, f1)) = Inr (c, PARSE_OK, f1)"
    using parse_one_frame_accepts_at [OF fr len, of preempt f] \<open>?ok\<close> by simp
  then have "handle_frame preempt sid type pl (of_nat (length pl)) cid f = Inr f1"
    by (auto simp: bindR_Inr_iff)
  then show ?frame using fr len by blast
next
  assume ?frame
  then show ?ok using parse_one_frame_accepts_at by (auto simp: bindR_Inr_iff)
qed

text \<open>C5: a whole input is delivered. When the receive buffer holds frames with noise bytes (no start
  bytes) between them, followed by the beginning of a frame the parser can wait for,
  \<open>parse_packet\<close> handles every frame once, in order, and leaves exactly that beginning at the front
  of the buffer.\<close>

theorem parse_packet_delivers:
  assumes "list_all item_ok is" and "waits ts stale"
  shows "parse_packet preempt (concat (map item_bytes is) @ ts @ stale)
      (length (concat (map item_bytes is)) + length ts) f =
    bindR (deliver preempt is f) (\<lambda>f1.
      Inr (mem_put (concat (map item_bytes is) @ ts @ stale) 0 ts, length ts, f1))"
  using assms by (rule parse_packet_items)

theorem parse_packet_delivers_witness:
  "\<forall>f. parse_packet no_preempt (concat (map item_bytes [Noise 0x55, Good 0x10 1 [1] 7]) @ [0xAA, 0x20] @ [0, 0, 0])
      (length (concat (map item_bytes [Noise 0x55, Good 0x10 1 [1] 7])) + length [0xAA, 0x20 :: u8]) f =
    bindR (deliver no_preempt [Noise 0x55, Good 0x10 1 [1] 7] f) (\<lambda>f1.
      Inr (mem_put (concat (map item_bytes [Noise 0x55, Good 0x10 1 [1] 7]) @ [0xAA, 0x20] @ [0, 0, 0]) 0
        [0xAA, 0x20], length [0xAA, 0x20 :: u8], f1))"
  by (intro allI, rule parse_packet_delivers) (simp_all add: waits_def SOF_DATA_VALUE_def)

text \<open>C6: round trip: what \<open>build_frame\<close> writes for a payload of at most 500 bytes,
  \<open>parse_packet\<close> takes apart again: the handler gets the same service id, type, payload and the
  connection id of the frame, and the buffer is used up.\<close>

theorem build_then_parse:
  assumes "build_frame b out cap sid type payload n s = Inr (len, buf, s1)" and "len \<noteq> 0"
    and "cap \<le> length out" and "unat n \<le> length payload" and "unat n \<le> 500"
  shows "parse_packet preempt buf len f =
    bindR (handle_frame preempt sid type (take (unat n) payload) n (fst (make_cid b s)) f)
      (\<lambda>f1. Inr (buf, 0, f1))"
proof -
  define pl cid where "pl = take (unat n) payload" and "cid = fst (make_cid b s)"
  have lpl: "length pl = unat n" using assms(4) by (simp add: pl_def)
  have big: "8 + unat n \<le> cap"
    using build_frame_small [of cap n] assms(1,2) by (cases "cap < 8 + unat n") auto
  have len: "len = 8 + unat n" and buf: "buf = frame sid type pl cid @ drop (8 + unat n) out"
    using build_frame_large [OF big assms(3,4)] assms(1) by (auto simp: pl_def cid_def)
  have "list_all item_ok [Good sid type pl cid]" and "waits [] (drop (8 + unat n) out)"
    using assms(5) lpl by (simp_all add: waits_def)
  from parse_packet_items [OF this, of preempt f]
  have "parse_packet preempt buf len f =
      bindR (handle_frame preempt sid type pl (of_nat (unat n)) cid f) (\<lambda>f1. Inr (buf, 0, f1))"
    by (simp add: len buf lpl bindR_assoc)
  then show ?thesis by (simp add: pl_def cid_def)
qed

theorem build_then_parse_witness:
  "\<forall>b f. \<exists>len buf s1. build_frame b (replicate 64 0) 64 0x13 1 [50, 2] 2 cid_start = Inr (len, buf, s1) \<and>
     parse_packet no_preempt buf len f =
       bindR (handle_frame no_preempt 0x13 1 [50, 2] 2 (fst (make_cid b cid_start)) f) (\<lambda>f1. Inr (buf, 0, f1))"
proof (intro allI)
  fix b f
  obtain buf s1 where bf: "build_frame b (replicate 64 0) 64 0x13 1 [50, 2] 2 cid_start = Inr (10, buf, s1)"
    using build_frame_large [of 2 64 "replicate 64 0" "[50, 2]" b "0x13" 1 cid_start] by simp
  show "\<exists>len buf s1. build_frame b (replicate 64 0) 64 0x13 1 [50, 2] 2 cid_start = Inr (len, buf, s1) \<and>
     parse_packet no_preempt buf len f =
       bindR (handle_frame no_preempt 0x13 1 [50, 2] 2 (fst (make_cid b cid_start)) f) (\<lambda>f1. Inr (buf, 0, f1))"
    by (rule exI [of _ 10], rule exI [of _ buf], rule exI [of _ s1], rule conjI [OF bf])
      (use build_then_parse [OF bf] in simp)
qed

text \<open>What stays of the input is its end, moved to the front: fewer bytes than one longest frame.\<close>

lemma parse_packet_keeps_suffix:
  assumes "parse_packet preempt buf len f = Inr (buf', len', f1)" and "len \<le> length buf"
  shows "len' \<le> 507 \<and> len' \<le> len \<and> length buf' = length buf \<and>
    take len' buf' = drop (len - len') (take len buf)"
proof -
  obtain off where loop: "parse_loop preempt buf len 0 f = Inr (off, f1)"
    and rest: "(if 0 < off then bindR (mem_read buf off (len - off)) (\<lambda>rest.
        bindR (memcpy_to buf 0 rest) (\<lambda>buf1. Inr (buf1, len - off, f1))) else Inr (buf, len, f1)) =
      Inr (buf', len', f1)"
    using assms(1) by (auto simp: parse_packet_def bindR_Inr_iff split: if_splits)
  have off: "off \<le> len" "len - off < 508"
    using parse_loop_stops [OF loop] by simp_all
  show ?thesis
  proof (cases "0 < off")
    case True
    have "len' = len - off" and "buf' = mem_put buf 0 (take (len - off) (drop off buf))"
      using rest True off(1) assms(2) by auto
    then show ?thesis using off assms(2)
      by (simp add: mem_put_def drop_take)
  next
    case False
    then show ?thesis using rest off by simp
  qed
qed

lemma parse_packet_ends_well:
  assumes "handles_well E Q preempt" and "len < length buf" and "Q f"
  shows "ends_well E (\<lambda>(_, _, f1). Q f1) (parse_packet preempt buf len f)"
  unfolding parse_packet_def
proof (cases "parse_loop preempt buf len 0 f")
  case (Inl e)
  then show "ends_well E (\<lambda>(_, _, f1). Q f1) (bindR (parse_loop preempt buf len 0 f) (\<lambda>(offset, f1).
     if 0 < offset then
       bindR (mem_read buf offset (len - offset)) (\<lambda>rest.
       bindR (memcpy_to buf 0 rest) (\<lambda>buf1. Inr (buf1, len - offset, f1)))
     else Inr (buf, len, f1)))"
    using parse_loop_ends_well [OF assms, of 0] by simp
next
  case (Inr x)
  obtain off f1 where x: "x = (off, f1)" by fastforce
  have "off \<le> len" using parse_loop_stops [OF Inr [unfolded x]] by simp
  then show "ends_well E (\<lambda>(_, _, f1). Q f1) (bindR (parse_loop preempt buf len 0 f) (\<lambda>(offset, f1).
     if 0 < offset then
       bindR (mem_read buf offset (len - offset)) (\<lambda>rest.
       bindR (memcpy_to buf 0 rest) (\<lambda>buf1. Inr (buf1, len - offset, f1)))
     else Inr (buf, len, f1)))"
    using parse_loop_ends_well [OF assms, of 0] assms(2) Inr x by simp
qed

text \<open>C13: the test \<open>buf_len < BKEL_HDR_SIZE\<close> leaves out the start byte. When the buffer is full and
  its last four bytes are a start byte and three others, the header is read one byte past the end
  of the array.\<close>

theorem full_buffer_overread:
  assumes "list_all (\<lambda>x. x \<noteq> SOF_DATA_VALUE) noise"
  shows "parse_packet preempt (noise @ [SOF_DATA_VALUE, x, y, z]) (length noise + 4) f = Inl Bounds"
proof -
  let ?buf = "noise @ [SOF_DATA_VALUE, x, y, z]"
  have ok: "list_all item_ok (map Noise noise)" and bytes: "concat (map item_bytes (map Noise noise)) = noise"
    using assms by (induction noise) simp_all
  have del: "deliver preempt (map Noise noise) f = Inr f"
    by (induction noise) simp_all
  have "parse_loop preempt ?buf (length noise + 4) 0 f = parse_loop preempt ?buf (length noise + 4) (length noise) f"
    using parse_loop_items [OF ok, of "[]" "length noise + 4" preempt "[SOF_DATA_VALUE, x, y, z]" f]
    by (simp add: bytes [unfolded map_map] bytes del)
  also have "\<dots> = Inl Bounds"
    by (subst parse_loop.simps) (simp add: parse_one_frame_def sizes mem_read_def)
  finally show ?thesis by (simp add: parse_packet_def)
qed

theorem full_buffer_overread_witness:
  "\<forall>f. parse_packet no_preempt (replicate 508 0 @ [SOF_DATA_VALUE, 0x10, 1, 1]) (length (replicate 508 (0 :: u8)) + 4) f =
     Inl Bounds"
  by (intro allI, rule full_buffer_overread) (simp add: list_all_iff SOF_DATA_VALUE_def)

text \<open>C14: the same test loses a frame that arrives in two pieces when the first piece is exactly four
  bytes long and the array still holds 2 or more where the high byte of the length belongs: the
  four bytes are thrown away, although nothing was wrong with them.\<close>

theorem four_byte_piece_lost:
  assumes "length pl \<le> 255" and "2 \<le> unat old"
    and "sid \<noteq> SOF_DATA_VALUE" and "type \<noteq> SOF_DATA_VALUE" and "length pl \<noteq> 0xAA"
  shows "\<exists>buf'. parse_packet preempt (take 4 (frame sid type pl cid) @ old # rest) 4 f = Inr (buf', 0, f)"
proof -
  define lo :: u8 where "lo = ucast (of_nat (length pl) :: u16)"
  have t4: "take 4 (frame sid type pl cid) = [SOF_DATA_VALUE, sid, type, lo]"
    by (simp add: frame_split hdr_bytes_def le16_def lo_def numeral_eq_Suc)
  have "unat (of_nat (length pl) :: u16) = length pl"
    using assms(1) by (simp add: unat_of_nat_small)
  then have lo: "unat lo = length pl" using assms(1) by (simp add: lo_def unat_ucast_down)
  have lo_sof: "lo \<noteq> SOF_DATA_VALUE" using lo assms(5) by (auto simp: SOF_DATA_VALUE_def)
  let ?buf = "[SOF_DATA_VALUE, sid, type, lo] @ old # rest"
  have hb: "mem_read ?buf (0 + 1) 4 = Inr [sid, type, lo, old]"
    by (simp add: mem_read_def numeral_eq_Suc)
  have "unat (of_le16 lo old) = length pl + 256 * unat old" by (simp add: unat_of_le16 lo)
  then have "500 < unat (of_le16 lo old)" using assms(2) by simp
  then have one: "parse_one_frame preempt ?buf 0 (4 - 0) f = Inr (1, PARSE_INVALID, f)"
    unfolding parse_one_frame_def sizes Let_def hb
    by (simp add: hdr_of_bytes_def numeral_2_eq_2 numeral_3_eq_3)
  have ok: "list_all item_ok [Noise sid, Noise type, Noise lo]" using assms(3,4) lo_sof by simp
  have "parse_loop preempt ?buf 4 0 f = parse_loop preempt ?buf 4 1 f"
    by (subst parse_loop.simps) (simp only: one bindR.simps prod.case, simp)
  also have "\<dots> = parse_loop preempt ?buf 4 4 f"
    using parse_loop_items [OF ok, of "[SOF_DATA_VALUE]" 4 preempt "old # rest" f]
    by (simp add: numeral_eq_Suc)
  also have "\<dots> = Inr (4, f)" by (subst parse_loop.simps) simp
  finally show ?thesis unfolding t4 by (simp add: parse_packet_def)
qed

theorem four_byte_piece_lost_witness:
  "\<forall>f. \<exists>buf'. parse_packet no_preempt (take 4 (frame 0x10 1 [1] 0x1234) @ 0x13 # [0, 0, 0]) 4 f = Inr (buf', 0, f)"
  by (intro allI, rule four_byte_piece_lost) (simp_all add: SOF_DATA_VALUE_def)

lemma five_first: "5 \<le> length ys \<Longrightarrow> \<exists>x0 x1 x2 x3 x4 xs. ys = x0 # x1 # x2 # x3 # x4 # xs"
  by (auto simp: numeral_eq_Suc Suc_le_length_iff)

text \<open>A damaged length: the parser goes by the new length \<open>n\<close>.\<close>

lemma length_damaged:
  assumes "length pl \<le> 500" and "i = 3 \<or> i = 4" and "frame sid type pl cid ! i \<noteq> d"
  shows "unat (of_le16 ((frame sid type pl cid)[i := d] ! 3) ((frame sid type pl cid)[i := d] ! 4)) \<noteq> length pl"
proof
  let ?fr = "frame sid type pl cid"
  assume eq: "unat (of_le16 (?fr[i := d] ! 3) (?fr[i := d] ! 4)) = length pl"
  have h: "?fr ! 3 = le16 (of_nat (length pl)) ! 0" "?fr ! 4 = le16 (of_nat (length pl)) ! 1"
    by (simp_all add: frame_split hdr_bytes_def le16_def numeral_eq_Suc)
  have "of_le16 (?fr[i := d] ! 3) (?fr[i := d] ! 4) = (of_nat (length pl) :: u16)"
    unfolding eq [symmetric] by simp
  then have "le16 (of_nat (length pl)) = [?fr[i := d] ! 3, ?fr[i := d] ! 4]"
    by (metis le16_of_le16)
  then have "?fr ! 3 = ?fr[i := d] ! 3" "?fr ! 4 = ?fr[i := d] ! 4" using h by simp_all
  then show False using assms(2,3) by auto
qed

lemma parse_one_frame_other_length:
  assumes "n = unat (of_le16 x3 x4)" and "4 \<le> buf_len" and "fr = SOF_DATA_VALUE # x1 # x2 # x3 # x4 # xs"
  shows "500 < n \<Longrightarrow> parse_one_frame preempt (pre @ fr @ rest) (length pre) buf_len f = Inr (1, PARSE_INVALID, f)"
    and "n \<le> 500 \<Longrightarrow> buf_len < 8 + n \<Longrightarrow>
      parse_one_frame preempt (pre @ fr @ rest) (length pre) buf_len f = Inr (0, PARSE_INCOMPLETE, f)"
    and "parse_one_frame preempt (pre @ fr @ rest) (length pre) buf_len f = Inr (c, PARSE_OK, f1) \<Longrightarrow> c = 8 + n"
proof -
  have sof: "mem_read (pre @ fr @ rest) (length pre) 1 = Inr [SOF_DATA_VALUE]"
    using mem_read_part [of _ pre 1 "[SOF_DATA_VALUE]"] assms(3) by simp
  have h: "mem_read (pre @ fr @ rest) (length pre + 1) 4 = Inr [x1, x2, x3, x4]"
    using mem_read_part [of _ "pre @ [SOF_DATA_VALUE]" 4 "[x1, x2, x3, x4]"] assms(3) by simp
  have dlc: "unat (hdr_dlc (hdr_of_bytes [x1, x2, x3, x4])) = n"
    using assms(1) by (simp add: hdr_of_bytes_def numeral_eq_Suc)
  note run = parse_one_frame_def Let_def sizes sof bindR.simps h dlc
  show "500 < n \<Longrightarrow> parse_one_frame preempt (pre @ fr @ rest) (length pre) buf_len f = Inr (1, PARSE_INVALID, f)"
    using assms(2) unfolding run by simp
  show "n \<le> 500 \<Longrightarrow> buf_len < 8 + n \<Longrightarrow>
      parse_one_frame preempt (pre @ fr @ rest) (length pre) buf_len f = Inr (0, PARSE_INCOMPLETE, f)"
    using assms(2) unfolding run by simp
  show "parse_one_frame preempt (pre @ fr @ rest) (length pre) buf_len f = Inr (c, PARSE_OK, f1) \<Longrightarrow> c = 8 + n"
    unfolding run by (auto simp: bindR_Inr_iff split: if_splits)
qed

text \<open>C11: a frame with one damaged byte is never accepted as the frame it was. When the byte is the start byte
  or any other byte but the two of the length, the parser answers \<open>PARSE_INVALID\<close>, skips one byte to look for
  the next start, and has handled nothing. When it is a byte of the length, the parser goes by another length
  \<open>n\<close>: it rejects the frame above 500, waits for more when \<open>n\<close> asks for more than was received, and what it
  accepts otherwise is a frame of \<open>n\<close> payload bytes whose own checksum fits.\<close>

theorem damaged_byte_rejected:
  assumes "length pl \<le> 500" and "8 + length pl \<le> buf_len"
    and "i < 8 + length pl" and "frame sid type pl cid ! i \<noteq> d"
  shows "let fr = (frame sid type pl cid)[i := d]; n = unat (of_le16 (fr ! 3) (fr ! 4));
       r = parse_one_frame preempt (pre @ fr @ rest) (length pre) buf_len f in
     if i = 3 \<or> i = 4 then
       n \<noteq> length pl \<and>
       (500 < n \<longrightarrow> r = Inr (1, PARSE_INVALID, f)) \<and>
       (n \<le> 500 \<and> buf_len < 8 + n \<longrightarrow> r = Inr (0, PARSE_INCOMPLETE, f)) \<and>
       (\<forall>c f1. r = Inr (c, PARSE_OK, f1) \<longrightarrow> c = 8 + n \<and>
          (\<exists>pl' cid'. length pl' = n \<and> take c (fr @ rest) = frame sid type pl' cid'))
     else r = Inr (1, PARSE_INVALID, f)"
proof -
  let ?b = "frame_body sid type pl cid" and ?fr = "(frame sid type pl cid)[i := d]"
  consider (sof) "i = 0" | (len) "i = 3 \<or> i = 4" | (body) j where "i = Suc j" "j < 6 + length pl" "i \<noteq> 3" "i \<noteq> 4"
    | (crc) "i = 7 + length pl" "i \<noteq> 3" "i \<noteq> 4"
  proof (cases i)
    case (Suc j)
    moreover consider "j < 6 + length pl" | "j = 6 + length pl" using assms(3) Suc by linarith
    ultimately show ?thesis using len body crc by cases auto
  qed (rule sof)
  then show ?thesis
  proof cases
    case sof
    then have "?fr = d # drop 1 ?fr" and "d \<noteq> SOF_DATA_VALUE"
      using assms(4) by (simp_all add: frame_def)
    then have "mem_read (pre @ ?fr @ rest) (length pre) 1 = Inr [d]"
      using mem_read_part [of _ pre 1 "[d]" "drop 1 ?fr @ rest"] by (metis append_Cons append_Nil length_Cons list.size(3) One_nat_def)
    then have "parse_one_frame preempt (pre @ ?fr @ rest) (length pre) buf_len f = Inr (1, PARSE_INVALID, f)"
      using \<open>d \<noteq> SOF_DATA_VALUE\<close> by (simp only: parse_one_frame_def bindR.simps) simp
    then show ?thesis using sof by (simp only: Let_def) simp
  next
    case len
    have "5 \<le> length ?fr" by simp
    then obtain x0 x1 x2 x3 x4 xs where x: "?fr = x0 # x1 # x2 # x3 # x4 # xs"
      using five_first by blast
    have "?fr ! 0 = SOF_DATA_VALUE" "?fr ! 1 = sid" "?fr ! 2 = type"
      using len by (auto simp: frame_split hdr_bytes_def)
    then have x': "x0 = SOF_DATA_VALUE" "x1 = sid" "x2 = type" "?fr ! 3 = x3" "?fr ! 4 = x4"
      unfolding x by (simp_all add: numeral_eq_Suc)
    have fr: "?fr = SOF_DATA_VALUE # sid # type # x3 # x4 # xs" using x x' by simp
    have four: "4 \<le> buf_len" using assms(2) by simp
    note other = parse_one_frame_other_length [OF refl four fr, of preempt pre rest f]
    have "\<exists>pl' cid'. length pl' = unat (of_le16 x3 x4) \<and> take c (?fr @ rest) = frame sid type pl' cid'"
      if ok: "parse_one_frame preempt (pre @ ?fr @ rest) (length pre) buf_len f = Inr (c, PARSE_OK, f1)" for c f1
    proof -
      obtain sid' type' pl' cid' where a: "take c (?fr @ rest) = frame sid' type' pl' cid'" "c = 8 + length pl'"
        using parse_one_frame_OK_frame [OF ok] by auto
      have "take 3 (take c (?fr @ rest)) = [SOF_DATA_VALUE, sid, type]" unfolding fr using a(2) by (simp add: numeral_eq_Suc)
      then have "sid' = sid \<and> type' = type" unfolding a(1) by (simp add: frame_split hdr_bytes_def numeral_eq_Suc)
      then show ?thesis using a other(3) [OF ok] by auto
    qed
    then show ?thesis using other len length_damaged [OF assms(1) len assms(4)] x' by (simp only: Let_def) auto
  next
    case body
    then have up: "?fr = SOF_DATA_VALUE # ?b[j := d] @ [calc_crc8 ?b]" and "?b ! j \<noteq> d"
      using assms(4) by (simp_all add: frame_def list_update_append nth_append)
    then have "parse_one_frame preempt (pre @ ?fr @ rest) (length pre) buf_len f = Inr (1, PARSE_INVALID, f)"
      using body_one_byte_rejected [OF assms(1,2) body(2), of sid type cid d] body by simp
    then show ?thesis using body(3,4) by (simp only: Let_def) simp
  next
    case crc
    let ?hdr = "hdr_bytes \<lparr>hdr_sid = sid, hdr_type = type, hdr_dlc = of_nat (length pl)\<rparr>"
    have up: "?fr = [SOF_DATA_VALUE] @ ?hdr @ pl @ le16 cid @ [d]"
      and ne: "calc_crc8 (?hdr @ pl @ le16 cid) \<noteq> d"
      using assms(4) by (simp_all add: frame_def frame_body_def crc(1) list_update_append nth_append)
    have "parse_one_frame preempt (pre @ ?fr @ rest) (length pre) buf_len f = Inr (1, PARSE_INVALID, f)"
      using parse_one_frame_bad_crc [of ?hdr pl "le16 cid" buf_len d preempt pre rest f] assms(1,2) ne
      unfolding up by (simp add: of_nat_len_u16)
    then show ?thesis using crc(2,3) by (simp only: Let_def) simp
  qed
qed

theorem damaged_byte_rejected_witness:
  "\<forall>f. parse_one_frame no_preempt ([] @ (frame 0x10 1 [1] 7)[5 := 0] @ []) (length ([] :: u8 list)) 9 f =
    Inr (1, PARSE_INVALID, f)"
proof
  fix f
  show "parse_one_frame no_preempt ([] @ (frame 0x10 1 [1] 7)[5 := 0] @ []) (length ([] :: u8 list)) 9 f =
    Inr (1, PARSE_INVALID, f)"
    using damaged_byte_rejected [of "[1]" 9 5 "0x10" 1 7 0 no_preempt "[]" "[]" f]
    by (simp add: frame_split hdr_bytes_def le16_def Let_def)
qed

text \<open>A damaged length can be accepted: the length of this request with three payload bytes is read as 0, and
  the payload holds a connection id and the checksum that fits.\<close>

lemma damaged_length_accepted:
  assumes "hSendDataTask f = None"
  shows "\<exists>f1. parse_one_frame preempt ((frame 0x26 1 [0, 0, 0xAF] 7)[3 := 0]) 0 11 f = Inr (8, PARSE_OK, f1)"
proof -
  have small: "frame 0x26 1 [] 0 = [SOF_DATA_VALUE, 0x26, 1, 0, 0, 0, 0, 0xAF]"
    by (simp add: frame_def frame_body_def hdr_bytes_def le16_def) code_simp
  have big: "frame 0x26 1 [0, 0, 0xAF] 7 =
      [SOF_DATA_VALUE, 0x26, 1, 3, 0, 0, 0, 0xAF] @ le16 7 @ [calc_crc8 (frame_body 0x26 1 [0, 0, 0xAF] 7)]"
    by (simp add: frame_split hdr_bytes_def le16_def)
  have fr: "(frame 0x26 1 [0, 0, 0xAF] 7)[3 := 0] = [] @ frame 0x26 1 [] 0 @ drop 8 (frame 0x26 1 [0, 0, 0xAF] 7)"
    unfolding small big by (simp add: numeral_eq_Suc del: word_of_nat_eq_iff)
  have "\<exists>f1. handle_frame preempt 0x26 1 [] 0 0 f = Inr f1"
    using assms by (simp add: handle_frame_def check_dlc_def sid_defs store_packet_def wake_worker_def)
  then show ?thesis unfolding fr
    using parse_one_frame_accepts [of "[]" 11 preempt "[]" "0x26" 1 0 "drop 8 (frame 0x26 1 [0, 0, 0xAF] 7)" f] by auto
qed

end
