(* ===== verification/KernelSpec.thy ===== *)
theory KernelSpec
  imports Kernel
begin

text \<open>
  What the scheduler and the notifications guarantee: the task chosen is one of the highest ready
  priority, and a notification of a waiting task hands over its value and, when the task has the
  highest priority, the processor.
\<close>

section \<open>The ready lists\<close>

definition rings_ok :: "kernel \<Rightarrow> bool" where
  "rings_ok k \<longleftrightarrow> (\<forall>p. ring_inv (pxReadyTasksLists k p))"

definition ready_at :: "kernel \<Rightarrow> nat \<Rightarrow> task list" where
  "ready_at k p = ring_turn (pxReadyTasksLists k p)"

lemma ready_empty: "rings_ok k \<Longrightarrow> listLIST_IS_EMPTY (pxReadyTasksLists k p) \<longleftrightarrow> ready_at k p = []"
  by (simp add: rings_ok_def ready_at_def ring_empty_iff)

lemma find_ready_highest:
  assumes "\<not> listLIST_IS_EMPTY (r p)" and "p \<le> m"
    and "\<And>q. p < q \<Longrightarrow> q \<le> m \<Longrightarrow> listLIST_IS_EMPTY (r q)"
  shows "find_ready r m = Inr p"
  using assms(2,3)
proof (induction m)
  case 0
  then show ?case using assms(1) by simp
next
  case (Suc m)
  then show ?case using assms(1) by (cases "p = Suc m") auto
qed

lemma find_ready_sound:
  "find_ready r m = Inr p \<Longrightarrow> p \<le> m \<and> \<not> listLIST_IS_EMPTY (r p) \<and>
    (\<forall>q. p < q \<longrightarrow> q \<le> m \<longrightarrow> listLIST_IS_EMPTY (r q))"
  by (induction m) (auto split: if_splits simp: le_Suc_eq)

text \<open>The switch to the task at the head of the highest non-empty ready list.\<close>

lemma switch_to_head:
  assumes "rings_ok k" and "uxSchedulerSuspended k = 0" and "ready_at k p = t # ts"
    and "p \<le> uxTopReadyPriority k" and "\<And>q. p < q \<Longrightarrow> ready_at k q = []"
  shows "\<exists>r. vTaskSwitchContext k = Inr (k\<lparr>xYieldPending := False, pxCurrentTCB := Some t,
      pxReadyTasksLists := (pxReadyTasksLists k)(p := r), uxTopReadyPriority := p\<rparr>) \<and>
    ring_inv r \<and> ring_turn r = ts @ [t]"
proof -
  let ?r = "snd (listGET_OWNER_OF_NEXT_ENTRY (pxReadyTasksLists k p))"
  have "find_ready (pxReadyTasksLists k) (uxTopReadyPriority k) = Inr p"
    using assms by (intro find_ready_highest) (simp_all add: ready_empty)
  moreover have "fst (listGET_OWNER_OF_NEXT_ENTRY (pxReadyTasksLists k p)) = Some t"
    using assms(1,3) ring.step_owner [of "pxReadyTasksLists k p"] by (simp add: rings_ok_def ready_at_def)
  moreover have "ring_inv ?r" using assms(1) ring.step_inv by (auto simp: rings_ok_def)
  moreover have "ring_turn ?r = ts @ [t]"
    using assms(1,3) ring.step_turn [of "pxReadyTasksLists k p"] by (simp add: rings_ok_def ready_at_def)
  ultimately show ?thesis
    using assms(2) by (intro exI [of _ ?r])
      (simp add: vTaskSwitchContext_def taskSELECT_HIGHEST_PRIORITY_TASK_def case_prod_beta)
qed

section \<open>Moving tasks between the lists\<close>

lemma rings_ok_remove: "rings_ok k \<Longrightarrow> rings_ok (remove_state_item t k)"
  by (simp add: rings_ok_def remove_state_item_def ring.remove_inv)

lemma ready_at_remove: "rings_ok k \<Longrightarrow> ready_at (remove_state_item t k) p = remove1 t (ready_at k p)"
  by (simp add: rings_ok_def ready_at_def remove_state_item_def ring.remove_turn)

lemma rings_ok_upd [simp]: "rings_ok (upd_tcb t g k) = rings_ok k" "ready_at (upd_tcb t g k) p = ready_at k p"
  by (simp_all add: rings_ok_def ready_at_def upd_tcb_def)

lemma rings_ok_pendsv [simp]:
  "rings_ok (k\<lparr>pendsv := b\<rparr>) = rings_ok k" "ready_at (k\<lparr>pendsv := b\<rparr>) p = ready_at k p"
  by (simp_all add: rings_ok_def ready_at_def)

lemma distinct_singleton: "distinct xs \<Longrightarrow> set xs = {x} \<Longrightarrow> xs = [x]"
  by (cases xs) (auto simp: subset_singleton_iff)

lemma add_empty_ring:
  assumes "ring_inv r" and "ring_turn r = []"
  shows "ring_turn (vListInsertEnd t r) = [t]"
  using ring.insert_turn [OF assms(1), of t] ring.turn_distinct [OF ring.insert_inv [OF assms(1), of t]] assms(2)
  by (intro distinct_singleton) simp_all

section \<open>A notification that wakes a task\<close>

text \<open>What neither a notification nor a wait changes, and that no switch is left pending.\<close>

definition kernel_frame :: "kernel \<Rightarrow> kernel \<Rightarrow> bool" where
  "kernel_frame k k' \<longleftrightarrow> xPendingReadyList k' = xPendingReadyList k \<and> xPendedTicks k' = xPendedTicks k \<and>
     xSchedulerRunning k' = xSchedulerRunning k \<and> xTickCount k' = xTickCount k \<and>
     \<not> xYieldPending k' \<and> \<not> pendsv k' \<and> uxSchedulerSuspended k' = 0"

text \<open>The state after \<open>t\<close> was woken from the suspended list with value \<open>v\<close> and has the processor.\<close>

definition woken :: "task \<Rightarrow> u32 \<Rightarrow> kernel \<Rightarrow> kernel \<Rightarrow> bool" where
  "woken t v k k' \<longleftrightarrow>
     tcbs k' = (tcbs k)(t := (tcbs k t)\<lparr>ucNotifyState := taskNOTIFICATION_RECEIVED, ulNotifiedValue := v\<rparr>) \<and>
     pxCurrentTCB k' = Some t \<and> rings_ok k' \<and> ready_at k' (prio k t) = [t] \<and>
     (\<forall>q. q \<noteq> prio k t \<longrightarrow> ready_at k' q = remove1 t (ready_at k q)) \<and>
     xSuspendedTaskList k' = remove1 t (xSuspendedTaskList k) \<and>
     kernel_frame k k' \<and> prio k t \<le> uxTopReadyPriority k'"

text \<open>\<open>t\<close> is made ready, whatever was latched before, and the pending switch is taken.\<close>

definition made_ready :: "task \<Rightarrow> u32 \<Rightarrow> kernel \<Rightarrow> kernel" where
  "made_ready t v k = prvAddTaskToReadyList t (remove_state_item t
     (upd_tcb t (\<lambda>c. c\<lparr>ucNotifyState := taskNOTIFICATION_RECEIVED, ulNotifiedValue := v\<rparr>) k))"

lemma prio_made_ready [simp]: "prio (made_ready t v k) = prio k"
  by (auto simp: fun_eq_iff prio_def made_ready_def upd_tcb_def remove_state_item_def
      prvAddTaskToReadyList_def Let_def)

lemma made_ready_fields [simp]:
  "pxCurrentTCB (made_ready t v k) = pxCurrentTCB k"
  "xEventContainer (tcbs (made_ready t v k) t) = xEventContainer (tcbs k t)"
  "uxPriority (tcbs (made_ready t v k) x) = uxPriority (tcbs k x)"
  by (simp_all add: made_ready_def upd_tcb_def remove_state_item_def prvAddTaskToReadyList_def Let_def)

lemma wake_switch:
  assumes "rings_ok k" and "uxSchedulerSuspended k = 0"
    and "\<And>q. prio k t \<le> q \<Longrightarrow> ready_at k q = []"
  shows "\<exists>k2. take_pendsv (portYIELD ((made_ready t v k)\<lparr>xYieldPending := y\<rparr>)) = Inr k2 \<and> woken t v k k2"
proof -
  let ?p = "prio k t"
  let ?ka = "upd_tcb t (\<lambda>c. c\<lparr>ucNotifyState := taskNOTIFICATION_RECEIVED, ulNotifiedValue := v\<rparr>) k"
  let ?kb = "remove_state_item t ?ka"
  let ?kc = "made_ready t v k"
  have pr: "prio ?kb = prio k"
    by (auto simp: fun_eq_iff prio_def upd_tcb_def remove_state_item_def)
  have rb: "rings_ok ?kb" using assms(1) by (simp add: rings_ok_remove)
  have rbq: "ready_at ?kb q = remove1 t (ready_at k q)" for q
    using assms(1) by (simp add: ready_at_remove)
  then have qb: "ready_at ?kb q = []" if "?p \<le> q" for q using that assms(3) by simp
  have rc: "rings_ok ?kc" and pc: "ready_at ?kc ?p = [t]"
    and oc: "\<And>q. q \<noteq> ?p \<Longrightarrow> ready_at ?kc q = ready_at ?kb q"
    using rb qb [of ?p] pr
    by (auto simp: made_ready_def rings_ok_def ready_at_def prvAddTaskToReadyList_def Let_def ring.insert_inv
        add_empty_ring)
  let ?kd = "?kc\<lparr>xYieldPending := y, pendsv := False\<rparr>"
  have d: "rings_ok ?kd" "ready_at ?kd ?p = [t]" "\<And>q. ?p < q \<Longrightarrow> ready_at ?kd q = []"
    using rc pc oc qb by (simp_all add: rings_ok_def ready_at_def)
  have e: "uxSchedulerSuspended ?kd = 0" using assms(2)
    by (simp add: made_ready_def upd_tcb_def remove_state_item_def prvAddTaskToReadyList_def Let_def)
  have "uxTopReadyPriority ?kd = max (prio ?kb t) (uxTopReadyPriority ?kb)"
    by (simp add: made_ready_def prvAddTaskToReadyList_def Let_def)
  then have f: "?p \<le> uxTopReadyPriority ?kd" using pr by simp
  obtain r where sw: "vTaskSwitchContext ?kd = Inr (?kd\<lparr>xYieldPending := False, pxCurrentTCB := Some t,
      pxReadyTasksLists := (pxReadyTasksLists ?kd)(?p := r), uxTopReadyPriority := ?p\<rparr>)"
      "ring_inv r" "ring_turn r = [] @ [t]"
    using switch_to_head [OF d(1) e d(2) f d(3)] by blast
  let ?ke = "?kd\<lparr>xYieldPending := False, pxCurrentTCB := Some t,
      pxReadyTasksLists := (pxReadyTasksLists ?kd)(?p := r), uxTopReadyPriority := ?p\<rparr>"
  have "take_pendsv (portYIELD (?kc\<lparr>xYieldPending := y\<rparr>)) = Inr ?ke"
    using sw(1) by (simp add: take_pendsv_def portYIELD_def)
  moreover have "woken t v k ?ke"
    unfolding woken_def
  proof (intro conjI allI impI)
    show "rings_ok ?ke" using d(1) sw(2) by (simp add: rings_ok_def)
    show "ready_at ?ke (prio k t) = [t]" using sw(3) by (simp add: ready_at_def)
    show "ready_at ?ke q = remove1 t (ready_at k q)" if "q \<noteq> prio k t" for q
    proof -
      have "ready_at ?ke q = ready_at ?kc q" using that by (simp add: ready_at_def)
      then show ?thesis by (simp only: oc [OF that] rbq)
    qed
  qed (use assms(2) in \<open>simp_all add: made_ready_def kernel_frame_def upd_tcb_def remove_state_item_def
      prvAddTaskToReadyList_def Let_def\<close>)
  ultimately show ?thesis by blast
qed

lemma notify_wakes:
  assumes "rings_ok k" and "uxSchedulerSuspended k = 0" and "pxCurrentTCB k = Some c"
    and "ucNotifyState (tcbs k t) = taskWAITING_NOTIFICATION" and "xEventContainer (tcbs k t) = None"
    and "prio k c < prio k t" and "\<And>q. prio k t \<le> q \<Longrightarrow> ready_at k q = []"
  shows "\<exists>k1 k2. xTaskGenericNotify (Some t) v eSetValueWithOverwrite k =
      Inr (True, ulNotifiedValue (tcbs k t), k1) \<and> take_pendsv k1 = Inr k2 \<and> woken t v k k2"
proof -
  let ?kc = "made_ready t v k"
  have "xTaskGenericNotify (Some t) v eSetValueWithOverwrite k =
      Inr (True, ulNotifiedValue (tcbs k t), portYIELD ?kc)"
    using assms(3-6) by (simp add: xTaskGenericNotify_def notify_value_def Let_def current_def
        made_ready_def [symmetric] prio_made_ready)
  moreover have "?kc = ?kc\<lparr>xYieldPending := xYieldPending ?kc\<rparr>" by simp
  ultimately show ?thesis using wake_switch [OF assms(1,2,7)] by metis
qed

text \<open>The same from an interrupt; \<open>eNoAction\<close> leaves the value.\<close>

lemma notify_isr_wakes:
  assumes "rings_ok k" and "uxSchedulerSuspended k = 0" and "pxCurrentTCB k = Some c"
    and "ucNotifyState (tcbs k t) = taskWAITING_NOTIFICATION" and "xEventContainer (tcbs k t) = None"
    and "prio k c < prio k t" and "\<And>q. prio k t \<le> q \<Longrightarrow> ready_at k q = []"
  shows "\<exists>k1 k2. xTaskGenericNotifyFromISR (Some t) v eNoAction w k =
      Inr (True, ulNotifiedValue (tcbs k t), True, k1) \<and> take_pendsv (portYIELD k1) = Inr k2 \<and>
      woken t (ulNotifiedValue (tcbs k t)) k k2"
proof -
  let ?v = "ulNotifiedValue (tcbs k t)"
  let ?ka = "upd_tcb t (\<lambda>c. c\<lparr>ucNotifyState := taskNOTIFICATION_RECEIVED, ulNotifiedValue := ?v\<rparr>) k"
  have sus: "uxSchedulerSuspended ?ka = 0" "xEventContainer (tcbs ?ka t) = None"
    using assms(2,5) by (simp_all add: upd_tcb_def)
  have "notify_from_isr t taskWAITING_NOTIFICATION w ?ka = Inr ((made_ready t ?v k)\<lparr>xYieldPending := True\<rparr>, True)"
    using assms(3,6) sus by (simp add: notify_from_isr_def Let_def current_def made_ready_def [symmetric])
  then have "xTaskGenericNotifyFromISR (Some t) v eNoAction w k =
      Inr (True, ?v, True, (made_ready t ?v k)\<lparr>xYieldPending := True\<rparr>)"
    using assms(4) by (simp add: xTaskGenericNotifyFromISR_def notify_value_def Let_def)
  then show ?thesis using wake_switch [OF assms(1,2,7)] by blast
qed

section \<open>A task that blocks on its next notification\<close>

definition blocked_again :: "task \<Rightarrow> task \<Rightarrow> nat \<Rightarrow> task list \<Rightarrow> kernel \<Rightarrow> kernel \<Rightarrow> bool" where
  "blocked_again t c p cs k k' \<longleftrightarrow>
     tcbs k' = (tcbs k)(t := (tcbs k t)\<lparr>ucNotifyState := taskWAITING_NOTIFICATION\<rparr>) \<and>
     pxCurrentTCB k' = Some c \<and> rings_ok k' \<and> ready_at k' p = cs @ [c] \<and>
     (\<forall>q. q \<noteq> p \<longrightarrow> ready_at k' q = remove1 t (ready_at k q)) \<and>
     xSuspendedTaskList k' = remove1 t (xSuspendedTaskList k) @ [t] \<and>
     kernel_frame k k' \<and> p \<le> uxTopReadyPriority k'"

lemma wait_blocks:
  assumes "rings_ok k" and "uxSchedulerSuspended k = 0" and "pxCurrentTCB k = Some t"
    and "ucNotifyState (tcbs k t) \<noteq> taskNOTIFICATION_RECEIVED"
    and "ready_at k p = c # cs" and "t \<notin> set (c # cs)" and "p \<le> uxTopReadyPriority k"
    and "\<And>q. p < q \<Longrightarrow> set (ready_at k q) \<subseteq> {t}"
  shows "\<exists>k1 k2. xTaskNotifyWait_block 0 portMAX_DELAY k = Inr k1 \<and> take_pendsv k1 = Inr k2 \<and>
    blocked_again t c p cs k k2"
proof -
  let ?ka = "upd_tcb t (\<lambda>c. c\<lparr>ulNotifiedValue := ulNotifiedValue c AND NOT 0,
      ucNotifyState := taskWAITING_NOTIFICATION\<rparr>) k"
  let ?kb = "remove_state_item t ?ka"
  let ?kc = "?kb\<lparr>xSuspendedTaskList := xSuspendedTaskList ?kb @ [t]\<rparr>"
  let ?kd = "?kc\<lparr>pendsv := False\<rparr>"
  have blk: "xTaskNotifyWait_block 0 portMAX_DELAY k = Inr (portYIELD ?kc)"
    using assms(3,4)
    by (simp add: xTaskNotifyWait_block_def current_def portMAX_DELAY_def prvAddCurrentTaskToDelayedList_def
        upd_tcb_def Let_def)
  have ka: "rings_ok ?ka" using assms(1) by simp
  have "ready_at ?kb q = remove1 t (ready_at k q)" for q
    using ready_at_remove [OF ka, of t q] by simp
  then have at: "\<And>q. ready_at ?kd q = remove1 t (ready_at k q)" by (simp add: ready_at_def)
  have rd: "rings_ok ?kd" using rings_ok_remove [OF ka, of t] by (simp add: rings_ok_def)
  have p: "ready_at ?kd p = c # cs" using at [of p] assms(5,6) by (simp add: remove1_idem)
  have above: "ready_at ?kd q = []" if "p < q" for q
  proof -
    have "distinct (ready_at k q)"
      using assms(1) ring.turn_distinct by (auto simp: rings_ok_def ready_at_def)
    then have "set (remove1 t (ready_at k q)) = {}" using assms(8) [OF that] by (auto simp: set_remove1_eq)
    then show ?thesis using at [of q] by simp
  qed
  have s: "uxSchedulerSuspended ?kd = 0" "p \<le> uxTopReadyPriority ?kd"
    using assms(2,7) by (simp_all add: upd_tcb_def remove_state_item_def)
  obtain r where sw: "vTaskSwitchContext ?kd = Inr (?kd\<lparr>xYieldPending := False, pxCurrentTCB := Some c,
      pxReadyTasksLists := (pxReadyTasksLists ?kd)(p := r), uxTopReadyPriority := p\<rparr>)"
      "ring_inv r" "ring_turn r = cs @ [c]"
    using switch_to_head [OF rd s(1) p s(2) above] by blast
  let ?ke = "?kd\<lparr>xYieldPending := False, pxCurrentTCB := Some c,
      pxReadyTasksLists := (pxReadyTasksLists ?kd)(p := r), uxTopReadyPriority := p\<rparr>"
  have "take_pendsv (portYIELD ?kc) = Inr ?ke" using sw(1) by (simp add: take_pendsv_def portYIELD_def)
  moreover have "blocked_again t c p cs k ?ke"
    unfolding blocked_again_def
  proof (intro conjI allI impI)
    show "rings_ok ?ke" using rd sw(2) by (simp add: rings_ok_def)
    show "ready_at ?ke p = cs @ [c]" using sw(3) by (simp add: ready_at_def)
    show "ready_at ?ke q = remove1 t (ready_at k q)" if "q \<noteq> p" for q
      using at [of q] that by (simp add: ready_at_def)
  qed (use assms(2) in \<open>simp_all add: kernel_frame_def upd_tcb_def remove_state_item_def\<close>)
  ultimately show ?thesis using blk by blast
qed

section \<open>Other switches\<close>

text \<open>A pending switch goes to the head \<open>c\<close> of the highest ready list.\<close>

definition switched :: "task \<Rightarrow> nat \<Rightarrow> task list \<Rightarrow> kernel \<Rightarrow> kernel \<Rightarrow> bool" where
  "switched c p cs k k' \<longleftrightarrow>
     tcbs k' = tcbs k \<and> pxCurrentTCB k' = Some c \<and> rings_ok k' \<and> ready_at k' p = cs @ [c] \<and>
     (\<forall>q. q \<noteq> p \<longrightarrow> ready_at k' q = ready_at k q) \<and> kernel_frame k k' \<and> uxTopReadyPriority k' = p"

lemma yield_switches:
  assumes "rings_ok k" and "uxSchedulerSuspended k = 0" and "ready_at k p = c # cs"
    and "p \<le> uxTopReadyPriority k" and "\<And>q. p < q \<Longrightarrow> ready_at k q = []"
  shows "\<exists>k'. take_pendsv (portYIELD k) = Inr k' \<and> switched c p cs k k'"
proof -
  let ?kd = "k\<lparr>pendsv := False\<rparr>"
  have a: "rings_ok ?kd" "uxSchedulerSuspended ?kd = 0" "ready_at ?kd p = c # cs" "p \<le> uxTopReadyPriority ?kd"
    "\<And>q. p < q \<Longrightarrow> ready_at ?kd q = []"
    using assms by simp_all
  obtain r where sw: "vTaskSwitchContext ?kd = Inr (?kd\<lparr>xYieldPending := False, pxCurrentTCB := Some c,
      pxReadyTasksLists := (pxReadyTasksLists ?kd)(p := r), uxTopReadyPriority := p\<rparr>)"
      "ring_inv r" "ring_turn r = cs @ [c]"
    using switch_to_head [OF a] by blast
  let ?ke = "?kd\<lparr>xYieldPending := False, pxCurrentTCB := Some c,
      pxReadyTasksLists := (pxReadyTasksLists ?kd)(p := r), uxTopReadyPriority := p\<rparr>"
  have "take_pendsv (portYIELD k) = Inr ?ke" using sw(1) by (simp add: take_pendsv_def portYIELD_def)
  moreover have "switched c p cs k ?ke"
    unfolding switched_def
  proof (intro conjI allI impI)
    show "rings_ok ?ke" using assms(1) sw(2) by (simp add: rings_ok_def)
    show "ready_at ?ke p = cs @ [c]" using sw(3) by (simp add: ready_at_def)
    show "ready_at ?ke q = ready_at k q" if "q \<noteq> p" for q using that by (simp add: ready_at_def)
  qed (use assms(2) in \<open>simp_all add: kernel_frame_def\<close>)
  ultimately show ?thesis by blast
qed

text \<open>Creating a task, of any priority, while the scheduler runs: whether it wants the processor.\<close>

lemma create_task_ready:
  assumes "rings_ok k" and "xSchedulerRunning k" and "pxCurrentTCB k = Some c" and "c \<noteq> t"
    and "p < configMAX_PRIORITIES" and "\<And>q. t \<notin> set (ready_at k q)"
  shows "\<exists>k1. xTaskCreateStatic t p k = Inr (if prio k c < p then portYIELD k1 else k1) \<and> rings_ok k1 \<and>
    tcbs k1 = (tcbs k)(t := new_tcb p) \<and> pxCurrentTCB k1 = Some c \<and>
    set (ready_at k1 p) = Set.insert t (set (ready_at k p)) \<and> (ready_at k p = [] \<longrightarrow> ready_at k1 p = [t]) \<and>
    (\<forall>q. q \<noteq> p \<longrightarrow> ready_at k1 q = ready_at k q) \<and> uxTopReadyPriority k1 = max p (uxTopReadyPriority k) \<and>
    xPendingReadyList k1 = xPendingReadyList k \<and> xPendedTicks k1 = xPendedTicks k \<and> xSchedulerRunning k1 \<and>
    xYieldPending k1 = xYieldPending k \<and> pendsv k1 = pendsv k \<and> uxSchedulerSuspended k1 = uxSchedulerSuspended k"
proof -
  let ?ka = "(upd_tcb t (\<lambda>_. new_tcb p) k)\<lparr>uxCurrentNumberOfTasks := Suc (uxCurrentNumberOfTasks k)\<rparr>"
  let ?k1 = "prvAddTaskToReadyList t ?ka"
  have pt: "uxPriority (new_tcb p) = p" using assms(5) by (simp add: new_tcb_def Let_def)
  have rg: "pxReadyTasksLists ?k1 = (pxReadyTasksLists k)(p := vListInsertEnd t (pxReadyTasksLists k p))"
    by (simp add: prvAddTaskToReadyList_def upd_tcb_def prio_def pt Let_def)
  have inv: "ring_inv (pxReadyTasksLists k q)" for q using assms(1) by (simp add: rings_ok_def)
  have "ring_inv (vListInsertEnd t (pxReadyTasksLists k p))"
    using ring.insert_inv [OF inv] assms(6) by (simp add: ready_at_def)
  then have "rings_ok ?k1" using assms(1) by (simp add: rings_ok_def rg)
  moreover have "set (ready_at ?k1 p) = Set.insert t (set (ready_at k p))"
    using ring.insert_turn [OF inv] by (simp add: ready_at_def rg)
  moreover have "ready_at ?k1 p = [t]" if "ready_at k p = []"
    using add_empty_ring [OF inv, of p t] that by (simp add: ready_at_def rg)
  moreover have "ready_at ?k1 q = ready_at k q" if "q \<noteq> p" for q using that by (simp add: ready_at_def rg)
  moreover have "xTaskCreateStatic t p k = Inr (if prio k c < p then portYIELD ?k1 else ?k1)"
    using assms(2-4) pt
    by (simp add: xTaskCreateStatic_def prvAddNewTaskToReadyList_def Let_def upd_tcb_def prvAddTaskToReadyList_def
        current_def prio_def)
  ultimately show ?thesis using assms(2,3)
    by (intro exI [of _ ?k1]) (simp add: prvAddTaskToReadyList_def upd_tcb_def prio_def pt Let_def)
qed

text \<open>A delay: the task leaves the ready lists and a switch is pending.\<close>

lemma delay_leaves:
  assumes "rings_ok k" and "uxSchedulerSuspended k = 0" and "pxCurrentTCB k = Some t" and "0 < n"
    and "xPendingReadyList k = []" and "xPendedTicks k = 0" and "\<not> xYieldPending k"
  shows "\<exists>k1 v. vTaskDelay_block n k = Inr (portYIELD k1) \<and> rings_ok k1 \<and>
    tcbs k1 = (tcbs k)(t := (tcbs k t)\<lparr>xItemValue := v\<rparr>) \<and> (\<forall>q. ready_at k1 q = remove1 t (ready_at k q)) \<and>
    kernel_frame k (k1\<lparr>pendsv := False\<rparr>) \<and> uxTopReadyPriority k1 = uxTopReadyPriority k"
proof -
  let ?v = "xTickCount k + n"
  have ready: "pxReadyTasksLists k2 = (\<lambda>p. uxListRemove t (pxReadyTasksLists k p)) \<Longrightarrow> rings_ok k2"
    "pxReadyTasksLists k2 = (\<lambda>p. uxListRemove t (pxReadyTasksLists k p)) \<Longrightarrow> ready_at k2 q = remove1 t (ready_at k q)"
    for k2 q
    using assms(1) by (simp_all add: rings_ok_def ready_at_def ring.remove_inv ring.remove_turn)
  have "\<exists>k2. prvAddCurrentTaskToDelayedList n False (vTaskSuspendAll k) = Inr k2 \<and>
      pxReadyTasksLists k2 = (\<lambda>p. uxListRemove t (pxReadyTasksLists k p)) \<and>
      tcbs k2 = (tcbs k)(t := (tcbs k t)\<lparr>xItemValue := ?v\<rparr>) \<and> uxSchedulerSuspended k2 = 1 \<and>
      xPendingReadyList k2 = [] \<and> xPendedTicks k2 = 0 \<and> \<not> xYieldPending k2 \<and> xTickCount k2 = xTickCount k \<and>
      xSchedulerRunning k2 = xSchedulerRunning k \<and> uxTopReadyPriority k2 = uxTopReadyPriority k"
    using assms
    by (cases "?v < xTickCount k"; cases "?v < xNextTaskUnblockTime k")
      (simp_all add: prvAddCurrentTaskToDelayedList_def current_def vTaskSuspendAll_def upd_tcb_def
        remove_state_item_def Let_def)
  then obtain k2 where k2: "prvAddCurrentTaskToDelayedList n False (vTaskSuspendAll k) = Inr k2"
      "pxReadyTasksLists k2 = (\<lambda>p. uxListRemove t (pxReadyTasksLists k p))"
      "tcbs k2 = (tcbs k)(t := (tcbs k t)\<lparr>xItemValue := ?v\<rparr>)" "uxSchedulerSuspended k2 = 1"
      "xPendingReadyList k2 = []" "xPendedTicks k2 = 0" "\<not> xYieldPending k2" "xTickCount k2 = xTickCount k"
      "xSchedulerRunning k2 = xSchedulerRunning k" "uxTopReadyPriority k2 = uxTopReadyPriority k"
    by blast
  let ?k3 = "k2\<lparr>uxSchedulerSuspended := 0\<rparr>"
  have "xTaskResumeAll k2 = Inr (False, ?k3)"
    using k2 by (simp add: xTaskResumeAll_def Let_def)
  then have "vTaskDelay_block n k = Inr (portYIELD ?k3)"
    using assms(2,4) k2(1) by (simp add: vTaskDelay_block_def)
  moreover have "rings_ok ?k3" "ready_at ?k3 q = remove1 t (ready_at k q)" for q
    using ready [of ?k3] k2(2) by simp_all
  moreover have "kernel_frame k (?k3\<lparr>pendsv := False\<rparr>)"
    using k2 assms(5-7) by (simp add: kernel_frame_def)
  ultimately show ?thesis using k2(3,10) by (intro exI [of _ ?k3] exI [of _ ?v]) simp
qed

end
