(* ===== verification/Tasks.thy ===== *)
theory Tasks
  imports WorkerSpec ParserSpec KernelSpec
begin

text \<open>
  The worker tasks of ASW/src/BKEL_APP_TaskM.c running under the kernel. A worker waits for a
  notification, reads the packet at the address that came with it, does its work and waits again.
  \<open>workers\<close> is what happens when the command task notifies one of them: the kernel switches to it at
  once, because its priority is higher, and back when it waits again. With it in place of the
  parameter \<open>preempt\<close>, parsing and executing are one run, and its theorem covers the way of a
  command from the receive buffer to the registers.
\<close>

section \<open>The code\<close>

text \<open>\<open>(BKEL_Common_Packet_t *)notifiedValue\<close>: the only packet in the program is \<open>parsed_packet\<close>; a read
  through any other address is wild.\<close>

definition read_packet :: "u32 \<Rightarrow> fw \<Rightarrow> BKEL_Common_Packet_t res" where
  "read_packet v f = (if v = packet_addr f then Inr (parsed_packet f) else Inl Bounds)"

text \<open>One round of a worker's loop, from its wake-up to its next wait.\<close>

definition worker_round :: "(BKEL_Common_Packet_t \<Rightarrow> fw \<Rightarrow> fw res) \<Rightarrow> fw \<Rightarrow> fw res" where
  "worker_round dispatch f =
     bindR (xTaskNotifyWait_wake 0xFFFFFFFF (kern f)) (\<lambda>(_, notifiedValue, k).
     bindR (read_packet notifiedValue f) (\<lambda>packet.
     bindR (dispatch packet (f\<lparr>kern := k\<rparr>)) (\<lambda>f1.
     bindR (xTaskNotifyWait_block 0x00000000 portMAX_DELAY (kern f1)) (\<lambda>k1.
     Inr (f1\<lparr>kern := k1\<rparr>)))))"

definition f_RPCTask :: "hw \<Rightarrow> fw \<Rightarrow> fw res" where
  "f_RPCTask h f = worker_round (rpc_dispatch h) f"

definition f_sendDataTask :: "hw \<Rightarrow> fw \<Rightarrow> fw res" where
  "f_sendDataTask h f = worker_round (diag_dispatch h) f"

text \<open>The kernel takes pending switches and the workers run until neither of them is the current task.
  A worker notifies nobody, so each runs at most one round: three steps are enough.\<close>

fun run_workers :: "hw \<Rightarrow> nat \<Rightarrow> fw \<Rightarrow> fw res" where
  "run_workers h 0 f = Inl No_return"
| "run_workers h (Suc n) f =
     bindR (take_pendsv (kern f)) (\<lambda>k.
     let f1 = f\<lparr>kern := k\<rparr> in
     if pxCurrentTCB k \<noteq> None \<and> pxCurrentTCB k = hRPCTask f1
     then bindR (f_RPCTask h f1) (run_workers h n)
     else if pxCurrentTCB k \<noteq> None \<and> pxCurrentTCB k = hSendDataTask f1
     then bindR (f_sendDataTask h f1) (run_workers h n)
     else Inr f1)"

definition workers :: "hw \<Rightarrow> preempt" where
  "workers h f = run_workers h 3 f"

section \<open>Dispatching does not touch the kernel\<close>

definition local_op :: "(fw \<Rightarrow> fw res) \<Rightarrow> bool" where
  "local_op d \<longleftrightarrow> (\<forall>f k. d (f\<lparr>kern := k\<rparr>) = bindR (d f) (\<lambda>f1. Inr (f1\<lparr>kern := k\<rparr>))) \<and>
     (\<forall>f f1. d f = Inr f1 \<longrightarrow> (\<exists>b s a. f1 = f\<lparr>brd := b, cids := s, adc := a\<rparr>))"

lemma local_send_frame:
  "send_frame h n sid type payload len (f\<lparr>kern := k\<rparr>) =
     bindR (send_frame h n sid type payload len f) (\<lambda>f1. Inr (f1\<lparr>kern := k\<rparr>))"
  "send_frame h n sid type payload len f = Inr f1 \<Longrightarrow> \<exists>b s. f1 = f\<lparr>brd := b, cids := s\<rparr>"
  by (cases f, simp add: send_frame_def bindR_assoc case_prod_unfold)
    (auto simp: send_frame_def bindR_Inr_iff)

lemma local_rpc: "local_op (rpc_dispatch h p)"
  unfolding local_op_def
proof (intro conjI allI impI)
  fix f :: fw and k
  show "rpc_dispatch h p (f\<lparr>kern := k\<rparr>) = bindR (rpc_dispatch h p f) (\<lambda>f1. Inr (f1\<lparr>kern := k\<rparr>))"
    by (cases f) (simp add: rpc_dispatch_def bindR_assoc Let_def)
next
  fix f f1 :: fw
  assume "rpc_dispatch h p f = Inr f1"
  then obtain b where "f1 = f\<lparr>brd := b\<rparr> \<or> f1 = f"
    by (auto simp: rpc_dispatch_def bindR_Inr_iff Let_def split: if_splits)
  then show "\<exists>b s a. f1 = f\<lparr>brd := b, cids := s, adc := a\<rparr>"
    by (cases f) (metis fw.update_convs(1-3) fw.surjective)
qed

text \<open>The operations that only send frames, after changes to the board or the ADC state.\<close>

definition app_frame :: "fw \<Rightarrow> fw \<Rightarrow> bool" where
  "app_frame f f1 \<longleftrightarrow> (\<exists>b s a. f1 = f\<lparr>brd := b, cids := s, adc := a\<rparr>)"

lemma app_frameI [intro]:
  "app_frame f f" "app_frame f (f\<lparr>brd := b\<rparr>)" "app_frame f (f\<lparr>brd := b, cids := s\<rparr>)"
  "app_frame f (f\<lparr>brd := b, cids := s, adc := a\<rparr>)" "app_frame f (f\<lparr>adc := a\<rparr>)"
  unfolding app_frame_def by (cases f, metis fw.update_convs(1-3))+

lemma app_frame_trans: "app_frame f g \<Longrightarrow> app_frame g k \<Longrightarrow> app_frame f k"
  by (cases f) (auto simp: app_frame_def)

lemma send_frame_app: "send_frame h n sid type payload len f = Inr f1 \<Longrightarrow> app_frame f f1"
  by (auto dest: local_send_frame(2))

lemma diag_app: "diag_dispatch h p f = Inr f1 \<Longrightarrow> app_frame f f1"
  by (auto simp: diag_dispatch_def AppSendDiagPWMOut_def AppSendDiagPWMIn_def AppSendDiagADC1Val_def
      AppSendDiagADC2Val_def AppSendDiagGPOPinState_def AppSendDiagGPIPinState_def
      AppSendDiagLD2PinState_def bindR_Inr_iff Let_def case_prod_unfold split: if_splits
      dest!: send_frame_app intro: app_frame_trans app_frameI)

lemma adc_kern [simp]: "f\<lparr>kern := k, adc := a\<rparr> = f\<lparr>adc := a, kern := k\<rparr>" for f :: fw
  by (cases f) simp

lemma brd_kern [simp]: "f\<lparr>kern := k, brd := b\<rparr> = f\<lparr>brd := b, kern := k\<rparr>" for f :: fw
  by (cases f) simp

lemma local_diag: "local_op (diag_dispatch h p)"
  unfolding local_op_def
proof (intro conjI allI impI)
  fix f :: fw and k
  show "diag_dispatch h p (f\<lparr>kern := k\<rparr>) = bindR (diag_dispatch h p f) (\<lambda>f1. Inr (f1\<lparr>kern := k\<rparr>))"
    by (simp add: diag_dispatch_def AppSendDiagPWMOut_def AppSendDiagPWMIn_def AppSendDiagADC1Val_def
      AppSendDiagADC2Val_def AppSendDiagGPOPinState_def AppSendDiagGPIPinState_def
      AppSendDiagLD2PinState_def bindR_assoc Let_def case_prod_unfold local_send_frame(1))
next
  fix f f1 :: fw
  assume "diag_dispatch h p f = Inr f1"
  then show "\<exists>b s a. f1 = f\<lparr>brd := b, cids := s, adc := a\<rparr>"
    using diag_app by (simp add: app_frame_def)
qed

section \<open>The steady state\<close>

text \<open>Between two rounds: the command task \<open>c\<close> runs at priority 11, alone there, both workers wait at
  priority 12, nothing of that priority or more is ready, some other task is ready below, and the
  kernel has nothing pending.\<close>

definition low_ready :: "kernel \<Rightarrow> bool" where
  "low_ready k \<longleftrightarrow> (\<exists>p<11. ready_at k p \<noteq> []) \<and> (\<forall>p<11. \<forall>t\<in>set (ready_at k p). prio k t < 11)"

lemma low_ready_cong:
  assumes "\<And>q. q < 11 \<Longrightarrow> ready_at k' q = ready_at k q" and "prio k' = prio k"
  shows "low_ready k' = low_ready k"
proof -
  have "(\<exists>p<11. ready_at k' p \<noteq> []) = (\<exists>p<11. ready_at k p \<noteq> [])" using assms(1) by metis
  then show ?thesis using assms by (simp add: low_ready_def)
qed

lemma low_ready_kept:
  assumes "low_ready k" and "\<not> prio k t < 11" and "prio k' = prio k"
    and "\<And>q. q < 11 \<Longrightarrow> ready_at k' q = remove1 t (ready_at k q)"
  shows "low_ready k'"
proof -
  have "ready_at k' q = ready_at k q" if "q < 11" for q
  proof -
    have "t \<notin> set (ready_at k q)" using assms(1,2) that unfolding low_ready_def by blast
    then show ?thesis using assms(4) [OF that] by (simp add: remove1_idem)
  qed
  then show ?thesis using assms(1,3) low_ready_cong by blast
qed

definition steady_kernel :: "task \<Rightarrow> task \<Rightarrow> task \<Rightarrow> kernel \<Rightarrow> bool" where
  "steady_kernel c r s k \<longleftrightarrow>
     r \<noteq> s \<and> rings_ok k \<and> uxSchedulerSuspended k = 0 \<and> \<not> pendsv k \<and> pxCurrentTCB k = Some c \<and>
     prio k c = 11 \<and> prio k r = 12 \<and> prio k s = 12 \<and>
     ucNotifyState (tcbs k r) = taskWAITING_NOTIFICATION \<and> xEventContainer (tcbs k r) = None \<and>
     ucNotifyState (tcbs k s) = taskWAITING_NOTIFICATION \<and> xEventContainer (tcbs k s) = None \<and>
     ready_at k 11 = [c] \<and> (\<forall>q\<ge>12. ready_at k q = []) \<and>
     low_ready k \<and> xEventContainer (tcbs k c) = None \<and>
     xPendingReadyList k = [] \<and> xPendedTicks k = 0 \<and> \<not> xYieldPending k \<and> 11 \<le> uxTopReadyPriority k"

definition steady :: "task \<Rightarrow> task \<Rightarrow> task \<Rightarrow> fw \<Rightarrow> bool" where
  "steady c r s f \<longleftrightarrow> hRPCTask f = Some r \<and> hSendDataTask f = Some s \<and> payload_ok f \<and>
     steady_kernel c r s (kern f)"

text \<open>The kernel's part of one round of worker \<open>t\<close>: notified (\<open>k1\<close>), running (\<open>k2\<close>), awake (\<open>k3\<close>), waiting
  again (\<open>k4\<close>), and the command task running again (\<open>k5\<close>).\<close>

lemma worker_kernel_round:
  assumes st: "steady_kernel c r s k" and t: "t \<in> {r, s}"
  shows "\<exists>k1 k2 k3 k4 k5.
    xTaskGenericNotify (Some t) v eSetValueWithOverwrite k = Inr (True, ulNotifiedValue (tcbs k t), k1) \<and>
    take_pendsv k1 = Inr k2 \<and> pxCurrentTCB k2 = Some t \<and>
    xTaskNotifyWait_wake 0xFFFFFFFF k2 = Inr (True, v, k3) \<and>
    xTaskNotifyWait_block 0 portMAX_DELAY k3 = Inr k4 \<and> take_pendsv k4 = Inr k5 \<and>
    steady_kernel c r s k5"
proof -
  have p: "prio k t = 12" "prio k c = 11" using st t by (auto simp: steady_kernel_def)
  have ct: "c \<noteq> t" using p by auto
  obtain k1 k2 where k1: "xTaskGenericNotify (Some t) v eSetValueWithOverwrite k =
        Inr (True, ulNotifiedValue (tcbs k t), k1)"
      and k2: "take_pendsv k1 = Inr k2" and w: "woken t v k k2"
    using notify_wakes [of k c t v] st t p by (auto simp: steady_kernel_def)
  define k3 where "k3 = upd_tcb t (\<lambda>c. c\<lparr>ulNotifiedValue := 0, ucNotifyState := taskNOT_WAITING_NOTIFICATION\<rparr>) k2"
  have cur: "pxCurrentTCB k2 = Some t" and tc: "tcbs k2 = (tcbs k)(t := (tcbs k t)
      \<lparr>ucNotifyState := taskNOTIFICATION_RECEIVED, ulNotifiedValue := v\<rparr>)"
    using w by (simp_all add: woken_def)
  have ones: "(- 4294967296 :: u32) = 0" by simp
  have wake: "xTaskNotifyWait_wake 0xFFFFFFFF k2 = Inr (True, v, k3)"
    by (simp add: ones xTaskNotifyWait_wake_def current_def cur tc k3_def upd_tcb_def)
  have r3: "rings_ok k3" "uxSchedulerSuspended k3 = 0" "pxCurrentTCB k3 = Some t" "11 \<le> uxTopReadyPriority k3"
    "ucNotifyState (tcbs k3 t) \<noteq> taskNOTIFICATION_RECEIVED"
    using w p cur by (simp_all add: k3_def woken_def kernel_frame_def upd_tcb_def rings_ok_def)
  have at3: "ready_at k3 12 = [t]" "\<And>q. q \<noteq> 12 \<Longrightarrow> ready_at k3 q = remove1 t (ready_at k q)"
    using w p by (simp_all add: k3_def woken_def)
  have at11: "ready_at k3 11 = [c]" using at3(2) [of 11] st ct by (simp add: steady_kernel_def)
  have "set (ready_at k3 q) \<subseteq> {t}" if "11 < q" for q
    using at3 that st by (cases "q = 12") (auto simp: steady_kernel_def)
  then obtain k4 k5 where k4: "xTaskNotifyWait_block 0 portMAX_DELAY k3 = Inr k4"
      and k5: "take_pendsv k4 = Inr k5" and b: "blocked_again t c 11 [] k3 k5"
    using wait_blocks [of k3 t 11 c "[]"] r3 at11 ct by auto
  have tc5: "tcbs k5 = (tcbs k)(t := (tcbs k t)\<lparr>ulNotifiedValue := 0, ucNotifyState := taskWAITING_NOTIFICATION\<rparr>)"
    using b by (simp add: blocked_again_def k3_def upd_tcb_def tc)
  have "ready_at k5 q = []" if "12 \<le> q" for q
    using b at3 that st by (cases "q = 12") (simp_all add: blocked_again_def steady_kernel_def)
  moreover have "prio k5 = prio k" by (rule ext) (simp add: prio_def tc5)
  moreover have "ucNotifyState (tcbs k5 x) = taskWAITING_NOTIFICATION \<and> xEventContainer (tcbs k5 x) = None"
    if "x \<in> {r, s}" for x
    using that st t unfolding tc5 steady_kernel_def by auto
  moreover have "rings_ok k5" "uxSchedulerSuspended k5 = 0" "\<not> pendsv k5" "pxCurrentTCB k5 = Some c"
    "ready_at k5 11 = [c]" "11 \<le> uxTopReadyPriority k5"
    using b by (simp_all add: blocked_again_def kernel_frame_def)
  moreover have "xPendingReadyList k5 = [] \<and> xPendedTicks k5 = 0 \<and> \<not> xYieldPending k5"
    using b w st by (simp add: blocked_again_def woken_def kernel_frame_def k3_def upd_tcb_def steady_kernel_def)
  moreover have "low_ready k5"
  proof (rule low_ready_kept [of k2 t])
    have pr2: "prio k2 = prio k" by (rule ext) (simp add: prio_def tc)
    show "low_ready k2"
      using low_ready_kept [of k t k2] w st pr2 p by (simp add: woken_def steady_kernel_def)
    show "\<not> prio k2 t < 11" using p pr2 by simp
    show "prio k5 = prio k2" unfolding pr2 by (rule ext) (simp add: prio_def tc5)
    show "ready_at k5 q = remove1 t (ready_at k2 q)" if "q < 11" for q
      using b that by (simp add: blocked_again_def k3_def)
  qed
  moreover have "xEventContainer (tcbs k5 c) = None" using st ct by (simp add: tc5 steady_kernel_def)
  ultimately have "steady_kernel c r s k5"
    using st unfolding steady_kernel_def by simp
  then show ?thesis using k1 k2 cur wake k4 k5 by blast
qed

lemma notify_runs_worker:
  assumes st: "steady c r s f" and t: "t = r \<and> D = rpc_dispatch h \<or> t = s \<and> D = diag_dispatch h"
  shows "\<exists>k. notify_packet (workers h) (Some t) f =
      bindR (D (parsed_packet f) f) (\<lambda>f1. Inr (f1\<lparr>kern := k\<rparr>)) \<and> steady_kernel c r s k"
proof -
  have sk: "steady_kernel c r s (kern f)" and h: "hRPCTask f = Some r" "hSendDataTask f = Some s"
    using st by (simp_all add: steady_def)
  have rs: "r \<noteq> s" "c \<noteq> r" "c \<noteq> s" using sk by (auto simp: steady_kernel_def)
  from worker_kernel_round [OF sk, of t "packet_addr f"] t obtain k1 k2 k3 k4 k5 where
      k1: "xTaskGenericNotify (Some t) (packet_addr f) eSetValueWithOverwrite (kern f) =
        Inr (True, ulNotifiedValue (tcbs (kern f) t), k1)"
      and k2: "take_pendsv k1 = Inr k2" "pxCurrentTCB k2 = Some t"
      and k3: "xTaskNotifyWait_wake 0xFFFFFFFF k2 = Inr (True, packet_addr f, k3)"
      and k4: "xTaskNotifyWait_block 0 portMAX_DELAY k3 = Inr k4" and k5: "take_pendsv k4 = Inr k5"
      and s5: "steady_kernel c r s k5"
    by blast
  have loc: "local_op (D p)" for p using t local_rpc local_diag by auto
  have D: "D p (f\<lparr>kern := k3\<rparr>) = bindR (D p f) (\<lambda>f1. Inr (f1\<lparr>kern := k3\<rparr>))" for p
    using loc by (simp add: local_op_def)
  have once: "worker_round D (f\<lparr>kern := k2\<rparr>) = bindR (D (parsed_packet f) f) (\<lambda>f1. Inr (f1\<lparr>kern := k4\<rparr>))"
    by (simp add: worker_round_def k3 read_packet_def D bindR_assoc k4)
  have c5: "pxCurrentTCB k5 = Some c" using s5 by (simp add: steady_kernel_def)
  have resume: "run_workers h 2 (f1\<lparr>kern := k4\<rparr>) = Inr (f1\<lparr>kern := k5\<rparr>)"
    if run: "D (parsed_packet f) f = Inr f1" for f1
  proof -
    obtain b s' a where "f1 = f\<lparr>brd := b, cids := s', adc := a\<rparr>"
      using loc [of "parsed_packet f"] run unfolding local_op_def by blast
    then show ?thesis using k5 c5 h rs by (simp add: numeral_2_eq_2)
  qed
  have "notify_packet (workers h) (Some t) f = run_workers h 3 (f\<lparr>kern := k1\<rparr>)"
    by (simp add: notify_packet_def k1 workers_def)
  also have "\<dots> = bindR (worker_round D (f\<lparr>kern := k2\<rparr>)) (run_workers h 2)"
    using k2 h rs t by (auto simp: numeral_3_eq_3 numeral_2_eq_2 f_RPCTask_def f_sendDataTask_def)
  also have "\<dots> = bindR (D (parsed_packet f) f) (\<lambda>f1. Inr (f1\<lparr>kern := k5\<rparr>))"
    unfolding once bindR_assoc by (rule bindR_cong [OF refl]) (simp add: resume)
  finally show ?thesis using s5 by blast
qed

end
