(* ===== verification/Gateway.thy ===== *)
theory Gateway
  imports StreamIPC Tasks
begin

text \<open>
  The receive path: the interrupt handlers of Core/Src/BKEL_isr.c, which move what the DMA collected
  into the stream buffer, and the command task of ASW/src/BKEL_APP_TaskM.c, which takes it out and
  parses it. The state is the application with the objects of the path; what the DMA wrote into its
  two buffers is given.
\<close>

record gateway =
  app :: fw
  rxStream :: "StreamBuffer_t option"
  uart1_rx_dma_buf :: "u8 list"
  uart2_rx_dma_buf :: "u8 list"
  rx_buf :: "u8 list"
  rx_len :: nat

definition UART_RX_BUF_SIZE :: u32 where "UART_RX_BUF_SIZE = 256"
definition RX_STREAM_SIZE :: u32 where "RX_STREAM_SIZE = 512"

section \<open>Interrupt handlers\<close>

text \<open>From the stop of the DMA channel to its restart; \<open>PendSV\<close> is set when a task of higher priority
  was woken and is taken after the handler.\<close>

definition forward_rx :: "hw \<Rightarrow> periph \<Rightarrow> u8 list \<Rightarrow> gateway \<Rightarrow> gateway res" where
  "forward_rx h chan dma_buf g =
     (let f = app g;
          (cndtr, b1) = vread h (chan, CNDTR) (clear_bits (chan, CCR) 1 (brd f));
          received_len = (ucast (UART_RX_BUF_SIZE - cndtr) :: u16) in
      bindR (if 0 < received_len then
               bindR (xStreamBufferSendFromISR (rxStream g) dma_buf (ucast received_len) False (kern f))
                 (\<lambda>(_, sb, woken, k). Inr (Some sb, if woken then portYIELD k else k))
             else Inr (rxStream g, kern f)) (\<lambda>(s, k).
      Inr (g\<lparr>rxStream := s, app := f\<lparr>kern := k,
             brd := set_bits (chan, CCR) 1 (wr (chan, CNDTR) UART_RX_BUF_SIZE b1)\<rparr>\<rparr>)))"

text \<open>The status register is read to test the flag, and read again with the data register to clear it.\<close>

definition clear_idle :: "hw \<Rightarrow> periph \<Rightarrow> board \<Rightarrow> board" where
  "clear_idle h p b = (let (_, b1) = vread h (p, SR) b; (_, b2) = vread h (p, DR) b1 in b2)"

definition USART1_IRQHandler :: "hw \<Rightarrow> gateway \<Rightarrow> gateway res" where
  "USART1_IRQHandler h g =
     (let (sr, b1) = vread h (USART1, SR) (brd (app g)) in
      if sr AND push_bit 4 1 \<noteq> 0
      then forward_rx h DMA1_Channel5 (uart1_rx_dma_buf g) (g\<lparr>app := (app g)\<lparr>brd := clear_idle h USART1 b1\<rparr>\<rparr>)
      else Inr (g\<lparr>app := (app g)\<lparr>brd := b1\<rparr>\<rparr>))"

definition USART2_IRQHandler :: "hw \<Rightarrow> gateway \<Rightarrow> gateway res" where
  "USART2_IRQHandler h g =
     (let (sr, b1) = vread h (USART2, SR) (brd (app g)) in
      if sr AND push_bit 4 1 \<noteq> 0
      then forward_rx h DMA1_Channel6 (uart2_rx_dma_buf g) (g\<lparr>app := (app g)\<lparr>brd := clear_idle h USART2 b1\<rparr>\<rparr>)
      else Inr (g\<lparr>app := (app g)\<lparr>brd := b1\<rparr>\<rparr>))"

definition HAL_GPIO_EXTI_Callback :: "u16 \<Rightarrow> gateway \<Rightarrow> gateway" where
  "HAL_GPIO_EXTI_Callback pin g = g"

definition Error_Handler :: "gateway \<Rightarrow> gateway res" where
  "Error_Handler g = Inl No_return"

section \<open>The command task\<close>

text \<open>The body of its loop for the \<open>n\<close> bytes received: append them and parse, or drop everything when
  they do not fit.\<close>

definition command_body :: "preempt \<Rightarrow> u8 list \<Rightarrow> gateway \<Rightarrow> gateway res" where
  "command_body preempt temp g =
     (let n = length temp in
      if 0 < n then
        if 512 < rx_len g + n then Inr (g\<lparr>rx_len := 0\<rparr>)
        else
          bindR (memcpy_to (rx_buf g) (rx_len g) temp) (\<lambda>buf.
          bindR (parse_packet preempt buf (rx_len g + n) (app g)) (\<lambda>(buf1, len1, f1).
          Inr (g\<lparr>rx_buf := buf1, rx_len := len1, app := f1\<rparr>)))
      else Inr g)"

text \<open>\<open>xStreamBufferReceive( rxStream, temp, 64, portMAX_DELAY )\<close> up to the wait, the wait, and after it.\<close>

definition command_enter :: "gateway \<Rightarrow> (u32 \<times> bool \<times> gateway) res" where
  "command_enter g =
     bindR (xStreamBufferReceive_enter (rxStream g) portMAX_DELAY (kern (app g))) (\<lambda>(n, waits, sb, k).
     Inr (n, waits, g\<lparr>rxStream := Some sb, app := (app g)\<lparr>kern := k\<rparr>\<rparr>))"

definition command_block :: "gateway \<Rightarrow> gateway res" where
  "command_block g =
     bindR (xTaskNotifyWait_block 0 portMAX_DELAY (kern (app g))) (\<lambda>k.
     Inr (g\<lparr>app := (app g)\<lparr>kern := k\<rparr>\<rparr>))"

definition command_wake :: "gateway \<Rightarrow> (u32 \<times> gateway) res" where
  "command_wake g =
     bindR (xStreamBufferReceive_leave (rxStream g) (kern (app g))) (\<lambda>(n, sb, k).
     Inr (n, g\<lparr>rxStream := Some sb, app := (app g)\<lparr>kern := k\<rparr>\<rparr>))"

definition command_receive :: "preempt \<Rightarrow> u32 \<Rightarrow> gateway \<Rightarrow> gateway res" where
  "command_receive preempt n g =
     bindR (xStreamBufferReceive_finish (rxStream g) 64 n (kern (app g))) (\<lambda>(temp, sb, k).
     command_body preempt temp (g\<lparr>rxStream := Some sb, app := (app g)\<lparr>kern := k\<rparr>\<rparr>))"

text \<open>The loop of the task until it blocks. Every round takes up to 64 bytes from the stream, which holds
  at most 511: without further interrupts nine rounds are enough.\<close>

fun command_loop :: "preempt \<Rightarrow> nat \<Rightarrow> gateway \<Rightarrow> gateway res" where
  "command_loop preempt 0 g = Inl No_return"
| "command_loop preempt (Suc fuel) g =
     bindR (command_enter g) (\<lambda>(n, waits, g1).
     if waits then command_block g1
     else bindR (command_receive preempt n g1) (command_loop preempt fuel))"

text \<open>The task from its wake-up to its next wait.\<close>

definition f_handleCommandTask :: "preempt \<Rightarrow> gateway \<Rightarrow> gateway res" where
  "f_handleCommandTask preempt g =
     bindR (command_wake g) (\<lambda>(n, g1).
     bindR (command_receive preempt n g1) (command_loop preempt 9))"

section \<open>An interrupt and what runs because of it\<close>

definition gateway_pendsv :: "gateway \<Rightarrow> gateway res" where
  "gateway_pendsv g = bindR (take_pendsv (kern (app g))) (\<lambda>k. Inr (g\<lparr>app := (app g)\<lparr>kern := k\<rparr>\<rparr>))"

text \<open>After a handler: the pending switch, the command task if it got the processor, and the switch back.\<close>

definition after_isr :: "hw \<Rightarrow> gateway \<Rightarrow> gateway res" where
  "after_isr h g =
     bindR (gateway_pendsv g) (\<lambda>g1.
     if pxCurrentTCB (kern (app g1)) \<noteq> None \<and> pxCurrentTCB (kern (app g1)) = hCommandCustomerTask (app g1)
     then bindR (f_handleCommandTask (workers h) g1) gateway_pendsv
     else Inr g1)"

definition uart1_event :: "hw \<Rightarrow> gateway \<Rightarrow> gateway res" where
  "uart1_event h g = bindR (USART1_IRQHandler h g) (after_isr h)"

definition uart2_event :: "hw \<Rightarrow> gateway \<Rightarrow> gateway res" where
  "uart2_event h g = bindR (USART2_IRQHandler h g) (after_isr h)"

end
