(* ===== verification/Startup.thy ===== *)
theory Startup
  imports Gateway
begin

text \<open>
  From \<open>main\<close> to the running system: \<open>f_inittask\<close> and \<open>rtos_taskinit\<close> of ASW/src/BKEL_APP_TaskM.c.
  A task of higher priority that \<open>f_inittask\<close> creates runs at once until it blocks, before the
  handle of the new task is stored; the record \<open>ids\<close> names the control blocks.
\<close>

record ids =
  id_init :: task
  id_adv :: task
  id_cmd :: task
  id_data :: task
  id_rpc :: task
  id_idle :: task
  id_timer :: task

definition BKEL_TASK_PRI_NORMAL_0 :: nat where "BKEL_TASK_PRI_NORMAL_0 = 5"
definition BKEL_TASK_PRI_REALTIME_1 :: nat where "BKEL_TASK_PRI_REALTIME_1 = 11"
definition BKEL_TASK_PRI_REALTIME_2 :: nat where "BKEL_TASK_PRI_REALTIME_2 = 12"

definition on_kernel :: "(kernel \<Rightarrow> kernel res) \<Rightarrow> gateway \<Rightarrow> gateway res" where
  "on_kernel op g = bindR (op (kern (app g))) (\<lambda>k. Inr (g\<lparr>app := (app g)\<lparr>kern := k\<rparr>\<rparr>))"

section \<open>The tasks up to their first wait\<close>

definition f_sendPeriodAdvertiseTask_start :: "gateway \<Rightarrow> gateway res" where
  "f_sendPeriodAdvertiseTask_start g = on_kernel (vTaskDelay_block 5000) g"

text \<open>After the delay: send, and delay again.\<close>

definition f_sendPeriodAdvertiseTask_round :: "hw \<Rightarrow> gateway \<Rightarrow> gateway res" where
  "f_sendPeriodAdvertiseTask_round h g =
     bindR (AppService_SendAdvertise h (app g)) (\<lambda>f.
     on_kernel (vTaskDelay_block 5000) (g\<lparr>app := f\<rparr>))"

definition worker_start :: "gateway \<Rightarrow> gateway res" where
  "worker_start g = on_kernel (xTaskNotifyWait_block 0 portMAX_DELAY) g"

text \<open>The task at \<open>pxCurrentTCB\<close> runs its first part until \<open>f_inittask\<close> has the processor again.\<close>

fun run_until_init :: "hw \<Rightarrow> ids \<Rightarrow> nat \<Rightarrow> gateway \<Rightarrow> gateway res" where
  "run_until_init h i 0 g = Inl No_return"
| "run_until_init h i (Suc n) g =
     bindR (gateway_pendsv g) (\<lambda>g1.
     case pxCurrentTCB (kern (app g1)) of
       None \<Rightarrow> Inl Bounds
     | Some t \<Rightarrow>
         if t = id_init i then Inr g1
         else if t = id_cmd i then bindR (command_loop (workers h) 9 g1) (run_until_init h i n)
         else if t = id_data i \<or> t = id_rpc i then bindR (worker_start g1) (run_until_init h i n)
         else if t = id_adv i then bindR (f_sendPeriodAdvertiseTask_start g1) (run_until_init h i n)
         else Inl No_return)"

text \<open>\<open>xTaskCreateStatic\<close> called by \<open>f_inittask\<close>, and what runs before it returns: at most the new task and
  one other, so four rounds are enough.\<close>

definition create_task :: "hw \<Rightarrow> ids \<Rightarrow> task \<Rightarrow> nat \<Rightarrow> gateway \<Rightarrow> gateway res" where
  "create_task h i t p g = bindR (on_kernel (xTaskCreateStatic t p) g) (run_until_init h i 4)"

section \<open>The initialisation task\<close>

definition rtos_taskinit :: "hw \<Rightarrow> ids \<Rightarrow> u8 list \<Rightarrow> gateway \<Rightarrow> gateway res" where
  "rtos_taskinit h i rxStreamStorage g =
     bindR (xStreamBufferGenericCreateStatic RX_STREAM_SIZE 1 False (Some rxStreamStorage)) (\<lambda>sb.
     bindR (assertR (sb \<noteq> None)) (\<lambda>_.
     bindR (create_task h i (id_adv i) BKEL_TASK_PRI_NORMAL_0 (g\<lparr>rxStream := sb\<rparr>)) (\<lambda>g1.
     bindR (create_task h i (id_cmd i) BKEL_TASK_PRI_REALTIME_1
       (g1\<lparr>app := (app g1)\<lparr>hSendAdvertiseTask := Some (id_adv i)\<rparr>\<rparr>)) (\<lambda>g2.
     bindR (create_task h i (id_data i) BKEL_TASK_PRI_REALTIME_2
       (g2\<lparr>app := (app g2)\<lparr>hCommandCustomerTask := Some (id_cmd i)\<rparr>\<rparr>)) (\<lambda>g3.
     bindR (create_task h i (id_rpc i) BKEL_TASK_PRI_REALTIME_2
       (g3\<lparr>app := (app g3)\<lparr>hSendDataTask := Some (id_data i)\<rparr>\<rparr>)) (\<lambda>g4.
     Inr (g4\<lparr>app := (app g4)\<lparr>hRPCTask := Some (id_rpc i)\<rparr>\<rparr>)))))))"

definition f_inittask :: "hw \<Rightarrow> ids \<Rightarrow> u8 list \<Rightarrow> gateway \<Rightarrow> gateway res" where
  "f_inittask h i rxStreamStorage g =
     bindR (rtos_taskinit h i rxStreamStorage g) (on_kernel (vTaskDelete None))"

text \<open>\<open>main\<close> behind \<open>system_init\<close>, to the switch away from the deleted initialisation task. \<open>alloc\<close>: the
  heap has room for that task; \<open>main\<close> does not look at the result of \<open>xTaskCreate\<close>.\<close>

definition main_tasks :: "hw \<Rightarrow> ids \<Rightarrow> bool \<Rightarrow> u8 list \<Rightarrow> gateway \<Rightarrow> gateway res" where
  "main_tasks h i alloc rxStreamStorage g =
     bindR (xTaskCreate (if alloc then Some (id_init i) else None) BKEL_TASK_PRI_NORMAL_0 (kern (app g))) (\<lambda>(_, k).
     bindR (on_kernel (vTaskStartScheduler (id_idle i) (id_timer i)) (g\<lparr>app := (app g)\<lparr>kern := k\<rparr>\<rparr>)) (\<lambda>g1.
     if pxCurrentTCB (kern (app g1)) = Some (id_init i)
     then bindR (f_inittask h i rxStreamStorage g1) gateway_pendsv
     else Inr g1))"

definition gateway_start :: "board \<Rightarrow> u32 \<Rightarrow> gateway" where
  "gateway_start b addr = \<lparr>app = fw_start b addr, rxStream = None, uart1_rx_dma_buf = replicate 256 0,
     uart2_rx_dma_buf = replicate 256 0, rx_buf = replicate 512 0, rx_len = 0\<rparr>"

end
