(* ===== verification/Execution.thy ===== *)
theory Execution
  imports Tasks
begin

text \<open>
  From the frame in the receive buffer to its effect. \<open>exec_items\<close> says what a sequence of frames asks
  for, without tasks, notifications or a kernel; the run of the parser with the workers under the
  kernel does exactly that, so the hand-over of the one shared packet loses and repeats nothing.
\<close>

section \<open>A command from its frame to its effect\<close>

text \<open>What a frame asks for, without tasks, notifications or a kernel: check it, store it, do it.\<close>

definition exec_frame :: "hw \<Rightarrow> u8 \<Rightarrow> u8 \<Rightarrow> u8 list \<Rightarrow> u16 \<Rightarrow> fw \<Rightarrow> fw res" where
  "exec_frame h sid type pl cid f =
     (let (ok, b1) = check_dlc sid (of_nat (length pl)) (brd f); f1 = f\<lparr>brd := b1\<rparr> in
      if ok then
        bindR (store_packet sid type pl (of_nat (length pl)) cid (parsed_packet f1)) (\<lambda>p.
        let f2 = f1\<lparr>parsed_packet := p\<rparr> in
        if 0x10 \<le> sid \<and> sid \<le> 0x1F then rpc_dispatch h p f2
        else if 0x20 \<le> sid \<and> sid \<le> 0x2F then diag_dispatch h p f2
        else Inr f2)
      else Inr f1)"

fun exec_items :: "hw \<Rightarrow> item list \<Rightarrow> fw \<Rightarrow> fw res" where
  "exec_items h [] f = Inr f"
| "exec_items h (Noise x # is) f = exec_items h is f"
| "exec_items h (Good sid type pl cid # is) f =
     bindR (exec_frame h sid type pl cid f) (exec_items h is)"

text \<open>Neither looks at the kernel, and the packet keeps its shape.\<close>

definition fw_frame :: "fw \<Rightarrow> fw \<Rightarrow> bool" where
  "fw_frame f f1 \<longleftrightarrow> (\<exists>b s a p. f1 = f\<lparr>brd := b, cids := s, adc := a, parsed_packet := p\<rparr> \<and>
     length (p_payload p) = length (p_payload (parsed_packet f)))"

lemma dispatch_kern:
  "rpc_dispatch h p (f\<lparr>kern := k\<rparr>) = bindR (rpc_dispatch h p f) (\<lambda>f1. Inr (f1\<lparr>kern := k\<rparr>))"
  "diag_dispatch h p (f\<lparr>kern := k\<rparr>) = bindR (diag_dispatch h p f) (\<lambda>f1. Inr (f1\<lparr>kern := k\<rparr>))"
  using local_rpc local_diag by (simp_all add: local_op_def)

lemma packet_kern [simp]: "f\<lparr>kern := k, parsed_packet := p\<rparr> = f\<lparr>parsed_packet := p, kern := k\<rparr>" for f :: fw
  by (cases f) simp

lemma exec_frame_kern:
  "exec_frame h sid type pl cid (f\<lparr>kern := k\<rparr>) =
     bindR (exec_frame h sid type pl cid f) (\<lambda>f1. Inr (f1\<lparr>kern := k\<rparr>))"
proof -
  obtain ok b1 where c: "check_dlc sid (of_nat (length pl)) (brd f) = (ok, b1)" by fastforce
  show ?thesis
    by (cases ok) (auto simp: exec_frame_def Let_def c bindR_assoc dispatch_kern intro!: bindR_cong)
qed

lemma exec_items_kern:
  "exec_items h is (f\<lparr>kern := k\<rparr>) = bindR (exec_items h is f) (\<lambda>f1. Inr (f1\<lparr>kern := k\<rparr>))"
  by (induction h "is" f rule: exec_items.induct) (auto simp: exec_frame_kern bindR_assoc intro: bindR_cong)

lemma dispatch_app:
  "rpc_dispatch h p f = Inr f1 \<Longrightarrow> app_frame f f1" "diag_dispatch h p f = Inr f1 \<Longrightarrow> app_frame f f1"
  using local_rpc local_diag by (simp_all add: local_op_def app_frame_def)

lemma store_packet_length:
  "store_packet sid type pl dlc cid p0 = Inr p \<Longrightarrow> length (p_payload p) = length (p_payload p0)"
  by (auto simp: store_packet_def Let_def memcpy_to_def bindR_Inr_iff split: if_splits)

lemma exec_frame_fw: "exec_frame h sid type pl cid f = Inr f1 \<Longrightarrow> fw_frame f f1"
proof -
  assume run: "exec_frame h sid type pl cid f = Inr f1"
  obtain ok b1 where c: "check_dlc sid (of_nat (length pl)) (brd f) = (ok, b1)" by fastforce
  show ?thesis
  proof (cases ok)
    case False
    then have "f1 = f\<lparr>brd := b1\<rparr>" using run c by (simp add: exec_frame_def)
    then show ?thesis unfolding fw_frame_def
      by (intro exI [of _ b1] exI [of _ "cids f"] exI [of _ "adc f"] exI [of _ "parsed_packet f"])
        (cases f, simp)
  next
    case True
    then obtain p where p: "store_packet sid type pl (of_nat (length pl)) cid (parsed_packet f) = Inr p"
        and d: "app_frame (f\<lparr>brd := b1, parsed_packet := p\<rparr>) f1"
      using run c by (auto simp: exec_frame_def Let_def bindR_Inr_iff split: if_splits
          intro: dispatch_app app_frameI)
    from d obtain b s a where "f1 = f\<lparr>brd := b, cids := s, adc := a, parsed_packet := p\<rparr>"
      by (cases f) (auto simp: app_frame_def)
    then show ?thesis using store_packet_length [OF p] unfolding fw_frame_def by blast
  qed
qed

lemma exec_frame_steady:
  assumes "steady c r s f" and "exec_frame h sid type pl cid f = Inr f1" and "steady_kernel c r s k"
  shows "steady c r s (f1\<lparr>kern := k\<rparr>)"
  using exec_frame_fw [OF assms(2)] assms(1,3) by (auto simp: fw_frame_def steady_def payload_ok_def)

lemma handle_frame_executes:
  assumes st: "steady c r s f" and len: "length pl \<le> 500"
  shows "\<exists>k. handle_frame (workers h) sid type pl (of_nat (length pl)) cid f =
      bindR (exec_frame h sid type pl cid f) (\<lambda>f1. Inr (f1\<lparr>kern := k\<rparr>)) \<and> steady_kernel c r s k"
proof -
  let ?dlc = "of_nat (length pl) :: u16"
  obtain ok b1 where c: "check_dlc sid ?dlc (brd f) = (ok, b1)" by fastforce
  have k: "steady_kernel c r s (kern f)" and w: "hRPCTask f = Some r" "hSendDataTask f = Some s"
    and po: "length (p_payload (parsed_packet f)) = 16"
    using st by (simp_all add: steady_def payload_ok_def)
  show ?thesis
  proof (cases ok)
    case False
    then show ?thesis using c k by (intro exI [of _ "kern f"]) (cases f, simp add: handle_frame_def exec_frame_def)
  next
    case True
    obtain p where p: "store_packet sid type pl ?dlc cid (parsed_packet f) = Inr p" "length (p_payload p) = 16"
      using store_packet_total [of ?dlc pl "parsed_packet f" sid type cid] po len
      by (auto simp: of_nat_len_u16)
    let ?g = "f\<lparr>brd := b1, parsed_packet := p\<rparr>"
    have sg: "steady c r s ?g" using st p(2) by (simp add: steady_def payload_ok_def)
    have go: "handle_frame (workers h) sid type pl ?dlc cid f = wake_worker (workers h) sid ?g"
      using True c p(1) by (simp add: handle_frame_def)
    consider (rpc) "0x10 \<le> sid \<and> sid \<le> 0x1F" | (diag) "\<not> (0x10 \<le> sid \<and> sid \<le> 0x1F)" "0x20 \<le> sid \<and> sid \<le> 0x2F"
      | (none) "\<not> (0x10 \<le> sid \<and> sid \<le> 0x1F)" "\<not> (0x20 \<le> sid \<and> sid \<le> 0x2F)" by blast
    then show ?thesis
    proof cases
      case rpc
      have e: "exec_frame h sid type pl cid f = rpc_dispatch h p ?g"
        using True c p(1) rpc by (simp add: exec_frame_def)
      have "wake_worker (workers h) sid ?g = notify_packet (workers h) (Some r) ?g"
        using rpc w by (simp add: wake_worker_def)
      then show ?thesis using notify_runs_worker [OF sg, of r "rpc_dispatch h" h] go e by simp
    next
      case diag
      have e: "exec_frame h sid type pl cid f = diag_dispatch h p ?g"
        using True c p(1) diag by (auto simp: exec_frame_def)
      have "wake_worker (workers h) sid ?g = notify_packet (workers h) (Some s) ?g"
        using diag w by (auto simp: wake_worker_def)
      then show ?thesis using notify_runs_worker [OF sg, of s "diag_dispatch h" h] go e by simp
    next
      case none
      then have "exec_frame h sid type pl cid f = Inr ?g" "wake_worker (workers h) sid ?g = Inr ?g"
        using True c p(1) by (auto simp: exec_frame_def wake_worker_def)
      then show ?thesis using go k by (intro exI [of _ "kern f"]) (cases f, simp)
    qed
  qed
qed

lemma deliver_executes:
  assumes "steady c r s f" and "list_all item_ok is"
  shows "\<exists>k. deliver (workers h) is f = bindR (exec_items h is f) (\<lambda>f1. Inr (f1\<lparr>kern := k\<rparr>)) \<and>
    steady_kernel c r s k"
  using assms
proof (induction "is" arbitrary: f)
  case Nil
  then show ?case by (intro exI [of _ "kern f"]) (cases f, simp add: steady_def)
next
  case (Cons i "is")
  show ?case
  proof (cases i)
    case (Noise x)
    then show ?thesis using Cons by simp
  next
    case (Good sid type pl cid)
    obtain k where k: "handle_frame (workers h) sid type pl (of_nat (length pl)) cid f =
        bindR (exec_frame h sid type pl cid f) (\<lambda>f1. Inr (f1\<lparr>kern := k\<rparr>))" "steady_kernel c r s k"
      using handle_frame_executes [OF Cons.prems(1), of pl h sid type cid] Cons.prems(2) Good by auto
    show ?thesis
    proof (cases "exec_frame h sid type pl cid f")
      case (Inl e)
      then show ?thesis using k Good by (intro exI [of _ k]) simp
    next
      case (Inr f1)
      have "steady c r s (f1\<lparr>kern := k\<rparr>)" using exec_frame_steady Cons.prems(1) Inr k(2) by blast
      then obtain k2 where "deliver (workers h) is (f1\<lparr>kern := k\<rparr>) =
          bindR (exec_items h is (f1\<lparr>kern := k\<rparr>)) (\<lambda>f2. Inr (f2\<lparr>kern := k2\<rparr>))" "steady_kernel c r s k2"
        using Cons.IH Cons.prems(2) by auto
      then show ?thesis using k(1) Inr Good
        by (intro exI [of _ k2]) (simp add: exec_items_kern bindR_assoc)
    qed
  qed
qed

lemma fw_frame_refl: "fw_frame f f"
  unfolding fw_frame_def
  by (intro exI [of _ "brd f"] exI [of _ "cids f"] exI [of _ "adc f"] exI [of _ "parsed_packet f"]) (cases f, simp)

lemma fw_frame_trans: "fw_frame f g \<Longrightarrow> fw_frame g i \<Longrightarrow> fw_frame f i"
  by (cases f) (auto simp: fw_frame_def)

lemma exec_items_fw: "exec_items h is f = Inr f1 \<Longrightarrow> fw_frame f f1"
proof (induction h "is" f arbitrary: f1 rule: exec_items.induct)
  case (1 h f)
  then show ?case by (simp add: fw_frame_refl)
next
  case (2 h x "is" f)
  then show ?case by simp
next
  case (3 h sid type pl cid "is" f)
  then show ?case by (auto simp: bindR_Inr_iff intro: exec_frame_fw fw_frame_trans)
qed

section \<open>Faults\<close>

text \<open>What can end a run in a worker: a transmitter that never becomes empty, the reset that was asked for, and the
  conversion of a measured frequency too high for its byte. Never an access outside an object, never an assertion.\<close>

definition worker_faults :: "fault set" where
  "worker_faults = {No_return, Reset, Undefined}"

abbreviation runs_well :: "fw res \<Rightarrow> bool" where
  "runs_well \<equiv> ends_well worker_faults (\<lambda>f1. adc_inv (adc f1))"

lemma send_frame_ends_well:
  assumes "length payload = unat len" and "unat len \<le> 56" and "adc_inv (adc f)"
  shows "runs_well (send_frame h 64 sid type payload len f)"
proof -
  obtain buf s where bf: "build_frame (brd f) (replicate 64 0) 64 sid type payload len (cids f) = Inr (8 + unat len, buf, s)"
      and l: "length buf = 64"
    using build_frame_large [of len 64 "replicate 64 0" payload "brd f" sid type "cids f"] assms(1,2) by auto
  have n: "unat (of_nat (8 + unat len) :: u16) = 8 + unat len" using assms(2) by (intro unat_of_nat_small) simp
  have rd: "mem_read buf 0 (8 + unat len) = Inr (take (8 + unat len) buf)" using l assms(2) by simp
  show ?thesis using assms(3)
    unfolding send_frame_def bf bindR.simps prod.case BKEL_UART_Tx_def n rd
    by (auto simp: returns_def worker_faults_def split: option.splits)
qed

lemma f32_to_u8_ends_well: "ends_well worker_faults (\<lambda>_. True) (f32_to_u8 x)"
  by (simp add: f32_to_u8_def worker_faults_def)

lemma adc_get_ends_well: "adc_inv a \<Longrightarrow> ends_well worker_faults (\<lambda>(_, a'). adc_inv a') (BKEL_BSW_ADC_GetValue a)"
  using adc_get_total [of a] by auto

lemma pwm_in_ends_well: "adc_inv (adc f) \<Longrightarrow> runs_well (AppSendDiagPWMIn h f)"
  unfolding AppSendDiagPWMIn_def Let_def
  by (auto split: prod.split intro!: ends_well_bind [OF f32_to_u8_ends_well] send_frame_ends_well)

lemma diag_ends_well: "adc_inv (adc f) \<Longrightarrow> runs_well (diag_dispatch h p f)"
  by (auto simp: diag_dispatch_def AppSendDiagPWMOut_def AppSendDiagADC1Val_def AppSendDiagADC2Val_def
      AppSendDiagGPOPinState_def AppSendDiagGPIPinState_def AppSendDiagLD2PinState_def Let_def split: prod.split
      intro!: send_frame_ends_well pwm_in_ends_well ends_well_bind [OF adc_get_ends_well])

lemma rpc_ends_well: "adc_inv (adc f) \<Longrightarrow> runs_well (rpc_dispatch h p f)"
  by (auto simp: rpc_dispatch_def BKEL_RPC_MCU_Reset_def NVIC_SystemReset_def worker_faults_def Let_def)

lemma exec_frame_ends_well:
  assumes "adc_inv (adc f)" and "payload_ok f" and "length pl \<le> 500"
  shows "runs_well (exec_frame h sid type pl cid f)"
proof -
  obtain ok b1 where c: "check_dlc sid (of_nat (length pl)) (brd f) = (ok, b1)" by fastforce
  obtain p where "store_packet sid type pl (of_nat (length pl)) cid (parsed_packet f) = Inr p"
    using store_packet_total [of "of_nat (length pl)" pl "parsed_packet f" sid type cid] assms(2,3)
    by (auto simp: of_nat_len_u16 payload_ok_def)
  then show ?thesis using assms(1) c
    by (cases ok) (auto simp: exec_frame_def Let_def intro: rpc_ends_well diag_ends_well)
qed

lemma workers_handle_well:
  "handles_well worker_faults (\<lambda>f. steady c r s f \<and> adc_inv (adc f)) (workers h)"
  unfolding handles_well_def
proof (intro allI impI)
  fix sid type cid and pl :: "u8 list" and g :: fw
  assume g: "steady c r s g \<and> adc_inv (adc g)" and len: "length pl \<le> 500"
  obtain k where k: "handle_frame (workers h) sid type pl (of_nat (length pl)) cid g =
      bindR (exec_frame h sid type pl cid g) (\<lambda>f1. Inr (f1\<lparr>kern := k\<rparr>))" "steady_kernel c r s k"
    using handle_frame_executes [OF _ len] g by blast
  have "runs_well (exec_frame h sid type pl cid g)"
    using exec_frame_ends_well [OF _ _ len] g by (simp add: steady_def)
  then show "ends_well worker_faults (\<lambda>f. steady c r s f \<and> adc_inv (adc f))
      (handle_frame (workers h) sid type pl (of_nat (length pl)) cid g)"
    unfolding k(1) using exec_frame_steady [OF conjunct1 [OF g] _ k(2)]
    by (cases "exec_frame h sid type pl cid g") auto
qed

text \<open>C12: the parser with the workers behind it is memory-safe on every input. As long as one byte of the array is
  free, whatever the bytes received and whatever the hardware shows, no byte outside the receive array, the
  packet or a frame buffer is read or written and no assertion of the kernel fails: a call ends only in a
  transmitter that hangs, the reset that a frame asked for or the frequency too high for its byte. When it
  returns, the array has kept its size, at most 507 bytes stay, they are the last ones received, moved to the
  front, and the tasks, the packet and the ADC driver are ready for the next input.\<close>

theorem parse_packet_memory_safe:
  assumes "steady c r s f" and "adc_inv (adc f)" and "len < length buf"
  shows "case parse_packet (workers h) buf len f of
      Inl e \<Rightarrow> e \<in> {No_return, Reset, Undefined}
    | Inr (buf', len', f') \<Rightarrow> length buf' = length buf \<and> len' \<le> len \<and> len' \<le> 507 \<and>
        take len' buf' = drop (len - len') (take len buf) \<and> steady c r s f' \<and> adc_inv (adc f')"
proof -
  have "ends_well worker_faults (\<lambda>(_, _, f1). steady c r s f1 \<and> adc_inv (adc f1)) (parse_packet (workers h) buf len f)"
    using parse_packet_ends_well [OF workers_handle_well assms(3)] assms(1,2) by blast
  then show ?thesis using parse_packet_keeps_suffix [of "workers h" buf len f] assms(3)
    by (auto simp: worker_faults_def split: sum.split)
qed

text \<open>A kernel between two rounds: task 3 is the command task, 4 and 5 the workers, 6 the idle task.\<close>

definition kernel_steady :: kernel where
  "kernel_steady = kernel_start\<lparr>
     tcbs := (\<lambda>_. new_tcb 0)(3 := new_tcb 11, 4 := (new_tcb 12)\<lparr>ucNotifyState := taskWAITING_NOTIFICATION\<rparr>,
       5 := (new_tcb 12)\<lparr>ucNotifyState := taskWAITING_NOTIFICATION\<rparr>, 6 := new_tcb 0),
     pxCurrentTCB := Some 3, xSuspendedTaskList := [4, 5],
     pxReadyTasksLists := (\<lambda>_. vListInitialise)(11 := vListInsertEnd 3 vListInitialise,
       0 := vListInsertEnd 6 vListInitialise),
     uxTopReadyPriority := 11, xSchedulerRunning := True\<rparr>"

lemma kernel_steady_ok: "steady_kernel 3 5 4 kernel_steady"
  by (auto simp: steady_kernel_def kernel_steady_def kernel_start_def rings_ok_def ready_at_def low_ready_def prio_def
      new_tcb_def configMAX_PRIORITIES_def vListInitialise_def vListInsertEnd_def ring_inv_def ring_turn_def Let_def
      intro: exI [of _ 0])

text \<open>All but the last byte of a full array received, all start bytes.\<close>

theorem parse_packet_memory_safe_witness:
  "case parse_packet (workers ready_hw) (replicate 512 SOF_DATA_VALUE) 511
       ((fw_start \<lparr>regs = \<lambda>_. 0, ticks = 0, trace = []\<rparr> 0x20000100)\<lparr>hRPCTask := Some 5, hSendDataTask := Some 4,
          kern := kernel_steady\<rparr>) of
      Inl e \<Rightarrow> e \<in> {No_return, Reset, Undefined}
    | Inr (buf', len', f') \<Rightarrow> length buf' = length (replicate 512 SOF_DATA_VALUE) \<and> len' \<le> 511 \<and> len' \<le> 507 \<and>
        take len' buf' = drop (511 - len') (take 511 (replicate 512 SOF_DATA_VALUE)) \<and>
        steady 3 5 4 f' \<and> adc_inv (adc f')"
  by (rule parse_packet_memory_safe)
    (simp_all add: steady_def kernel_steady_ok payload_ok_def fw_start_def packet_zero_def adc_start_inv)

end
