(* ===== verification/StreamSpec.thy ===== *)
theory StreamSpec
  imports StreamIPC
begin

text \<open>
  A stream buffer is a queue of bytes: the ring with its two 32-bit indices refines a list. The
  locale \<open>byte_stream\<close> states the contract of such a queue and derives from it that no byte is lost,
  duplicated or reordered over any sequence of writes and reads; the interpretation discharges the
  contract for the code.
\<close>

section \<open>The contract of a byte queue\<close>

datatype stream_op = Put "u8 list" u32 | Get u32

fun op_ok :: "stream_op \<Rightarrow> bool" where
  "op_ok (Put xs n) = (0 < n \<and> unat n \<le> length xs)"
| "op_ok (Get n) = True"

locale byte_stream =
  fixes inv :: "'s \<Rightarrow> bool" and contents :: "'s \<Rightarrow> u8 list" and capacity :: "'s \<Rightarrow> nat"
    and put :: "u8 list \<Rightarrow> u32 \<Rightarrow> 's \<Rightarrow> 's res" and get :: "u32 \<Rightarrow> 's \<Rightarrow> (u8 list \<times> 's) res"
  assumes bounded: "inv s \<Longrightarrow> length (contents s) \<le> capacity s"
    and put_law: "inv s \<Longrightarrow> op_ok (Put xs n) \<Longrightarrow> \<exists>s'. put xs n s = Inr s' \<and> inv s' \<and>
      capacity s' = capacity s \<and>
      contents s' = contents s @ take (min (unat n) (capacity s - length (contents s))) xs"
    and get_law: "inv s \<Longrightarrow> \<exists>s'. get n s = Inr (take (unat n) (contents s), s') \<and> inv s' \<and>
      capacity s' = capacity s \<and> contents s' = drop (unat n) (contents s)"
begin

text \<open>A run: the bytes the writes accepted and the bytes the reads returned.\<close>

fun run :: "stream_op list \<Rightarrow> 's \<Rightarrow> (u8 list \<times> u8 list \<times> 's) res" where
  "run [] s = Inr ([], [], s)"
| "run (Put xs n # ops) s =
     bindR (put xs n s) (\<lambda>s1. bindR (run ops s1) (\<lambda>(ins, outs, s2).
       Inr (take (min (unat n) (capacity s - length (contents s))) xs @ ins, outs, s2)))"
| "run (Get n # ops) s =
     bindR (get n s) (\<lambda>(ys, s1). bindR (run ops s1) (\<lambda>(ins, outs, s2). Inr (ins, ys @ outs, s2)))"

lemma fifo:
  "inv s \<Longrightarrow> list_all op_ok ops \<Longrightarrow>
   \<exists>ins outs s'. run ops s = Inr (ins, outs, s') \<and> inv s' \<and> contents s @ ins = outs @ contents s'"
proof (induction ops arbitrary: s)
  case Nil
  then show ?case by simp
next
  case (Cons op ops)
  show ?case
  proof (cases op)
    case (Put xs n)
    obtain s1 where s1: "put xs n s = Inr s1" "inv s1"
        "contents s1 = contents s @ take (min (unat n) (capacity s - length (contents s))) xs"
      using put_law [OF Cons.prems(1), of xs n] Cons.prems(2) Put by auto
    from Cons.IH [OF s1(2)] show ?thesis using s1 Put Cons.prems(2) by auto
  next
    case (Get n)
    obtain s1 where s1: "get n s = Inr (take (unat n) (contents s), s1)" "inv s1"
        "contents s1 = drop (unat n) (contents s)"
      using get_law [OF Cons.prems(1)] by blast
    from Cons.IH [OF s1(2)] obtain ins outs s' where
        r: "run ops s1 = Inr (ins, outs, s')" "inv s'" "contents s1 @ ins = outs @ contents s'"
      using Cons.prems(2) by auto
    have "contents s @ ins = (take (unat n) (contents s) @ outs) @ contents s'"
      using r(3) s1(3) append_take_drop_id [of "unat n" "contents s"] by (metis append.assoc)
    then show ?thesis using s1 r Get by auto
  qed
qed

text \<open>While everything fits, nothing is turned away.\<close>

lemma put_all:
  assumes "inv s" and "0 < n" and "unat n \<le> length xs" and "length (contents s) + unat n \<le> capacity s"
  shows "\<exists>s'. put xs n s = Inr s' \<and> inv s' \<and> contents s' = contents s @ take (unat n) xs"
proof -
  have "min (unat n) (capacity s - length (contents s)) = unat n" using assms(4) by simp
  then show ?thesis using put_law [OF assms(1), of xs n] assms(2,3) by auto
qed

end

section \<open>The ring as a queue\<close>

definition sb_len :: "StreamBuffer_t \<Rightarrow> nat" where
  "sb_len sb = unat (xLength sb)"

definition sb_count :: "StreamBuffer_t \<Rightarrow> nat" where
  "sb_count sb = (unat (xHead sb) + sb_len sb - unat (xTail sb)) mod sb_len sb"

definition sb_bytes :: "StreamBuffer_t \<Rightarrow> u8 list" where
  "sb_bytes sb = map (\<lambda>i. pucBuffer sb ! ((unat (xTail sb) + i) mod sb_len sb)) [0..<sb_count sb]"

text \<open>Both indices inside the storage, and the storage below half the address space, so that
  \<open>xLength + xHead\<close> does not wrap.\<close>

definition sb_inv :: "StreamBuffer_t \<Rightarrow> bool" where
  "sb_inv sb \<longleftrightarrow> xTail sb < xLength sb \<and> xHead sb < xLength sb \<and>
     length (pucBuffer sb) = sb_len sb \<and> sb_len sb < 2 ^ 31"

lemma sb_invD:
  assumes "sb_inv sb"
  shows "unat (xTail sb) < sb_len sb" "unat (xHead sb) < sb_len sb" "length (pucBuffer sb) = sb_len sb"
    "sb_len sb < 2 ^ 31" "0 < sb_len sb"
  using assms by (auto simp: sb_inv_def sb_len_def word_less_nat_alt)

lemma length_sb_bytes [simp]: "length (sb_bytes sb) = sb_count sb"
  by (simp add: sb_bytes_def)

lemma nth_sb_bytes: "i < sb_count sb \<Longrightarrow> sb_bytes sb ! i = pucBuffer sb ! ((unat (xTail sb) + i) mod sb_len sb)"
  by (simp add: sb_bytes_def)

lemma sb_count_less: "sb_inv sb \<Longrightarrow> sb_count sb < sb_len sb"
  using sb_invD(5) by (simp add: sb_count_def)

lemma unat_add_small: "unat (a :: u32) + unat b < 2 ^ 32 \<Longrightarrow> unat (a + b) = unat a + unat b"
  by (simp add: unat_word_ariths)

lemma unat_sub_small: "b \<le> (a :: u32) \<Longrightarrow> unat (a - b) = unat a - unat b"
  by (simp add: unat_sub)

lemma mod_once: "(x :: nat) < 2 * n \<Longrightarrow> x mod n = (if n \<le> x then x - n else x)"
  by (simp add: mod_if)

lemma unat_wrap_once:
  assumes "unat a < 2 * unat n"
  shows "unat (if n \<le> a then a - n else a :: u32) = unat a mod unat n"
  using assms by (simp add: mod_once word_le_nat_alt unat_sub)

text \<open>Arithmetic of a ring of \<open>n\<close> places.\<close>

lemma ring_distance: "t < n \<Longrightarrow> k < n \<Longrightarrow> ((t + k) mod n + n - t) mod n = (k :: nat)"
proof -
  assume "t < n" "k < n"
  then have "(t + k) mod n + n - t = (if t + k < n then k + n else k)"
    by (simp add: mod_once)
  then show ?thesis using \<open>k < n\<close> by simp
qed

lemma ring_advance:
  assumes "(n :: nat) > 0" and "c \<le> k" and "k < n"
  shows "((t + k) mod n + n - (t + c) mod n) mod n = k - c"
proof -
  have "(t + k) mod n = ((t + c) mod n + (k - c)) mod n"
  proof -
    have "t + k = t + c + (k - c)" using assms(2) by simp
    then show ?thesis by (simp only: mod_add_left_eq)
  qed
  then show ?thesis using ring_distance [of "(t + c) mod n" n "k - c"] assms by simp
qed

lemma sb_head: "sb_inv sb \<Longrightarrow> unat (xHead sb) = (unat (xTail sb) + sb_count sb) mod sb_len sb"
  using sb_invD [of sb] by (simp add: sb_count_def mod_add_right_eq)

lemma prvBytesInBuffer_count: "sb_inv sb \<Longrightarrow> unat (prvBytesInBuffer sb) = sb_count sb"
proof -
  assume inv: "sb_inv sb"
  note D = sb_invD [OF inv]
  let ?x = "xLength sb + xHead sb - xTail sb"
  have a: "unat (xLength sb + xHead sb) = sb_len sb + unat (xHead sb)"
    using D by (simp add: unat_add_small sb_len_def)
  then have "xTail sb \<le> xLength sb + xHead sb" using D by (simp add: word_le_nat_alt)
  then have x: "unat ?x = unat (xHead sb) + sb_len sb - unat (xTail sb)"
    by (simp only: unat_sub a)
  then have "unat ?x < 2 * unat (xLength sb)" using D by (simp add: sb_len_def)
  from unat_wrap_once [OF this] show ?thesis
    by (simp add: prvBytesInBuffer_def Let_def sb_count_def x sb_len_def)
qed

lemma spaces_available_count: "sb_inv sb \<Longrightarrow> unat (spaces_available sb) = sb_len sb - 1 - sb_count sb"
proof -
  assume inv: "sb_inv sb"
  note D = sb_invD [OF inv]
  let ?t = "unat (xTail sb)" and ?h = "unat (xHead sb)" and ?n = "sb_len sb"
  let ?x = "xLength sb + xTail sb - xHead sb - 1"
  have a: "unat (xLength sb + xTail sb) = ?n + ?t"
    using D by (simp add: unat_add_small sb_len_def)
  then have le: "xHead sb \<le> xLength sb + xTail sb" using D by (simp add: word_le_nat_alt)
  have b: "unat (xLength sb + xTail sb - xHead sb) = ?n + ?t - ?h"
    using unat_sub_small [OF le] a by simp
  then have "1 \<le> xLength sb + xTail sb - xHead sb" using D by (simp add: word_le_nat_alt)
  then have x: "unat ?x = ?n + ?t - ?h - 1" using b by (simp add: unat_sub_small)
  then have "unat ?x < 2 * unat (xLength sb)" using D by (simp add: sb_len_def)
  from unat_wrap_once [OF this] have "unat (spaces_available sb) = (?n + ?t - ?h - 1) mod ?n"
    by (simp add: spaces_available_def Let_def x sb_len_def)
  also have "\<dots> = ?n - 1 - sb_count sb"
  proof (cases "?t \<le> ?h")
    case True
    then have "sb_count sb = ?h - ?t" using D by (simp add: sb_count_def mod_once)
    moreover have "?n + ?t - ?h - 1 < ?n" using True D by linarith
    ultimately show ?thesis using True D by simp
  next
    case False
    then have "sb_count sb = ?h + ?n - ?t" using D by (simp add: sb_count_def mod_once)
    moreover have "(?n + ?t - ?h - 1) mod ?n = ?t - ?h - 1"
    proof -
      have "?n + ?t - ?h - 1 = (?t - ?h - 1) + ?n" using False by linarith
      then show ?thesis using D by (simp only: mod_add_self2) (simp add: less_imp_diff_less)
    qed
    ultimately show ?thesis using False D by simp
  qed
  finally show ?thesis .
qed

section \<open>Writing\<close>

text \<open>The storage after \<open>xs\<close> was written from index \<open>h\<close> on, around the end.\<close>

definition ring_put :: "u8 list \<Rightarrow> nat \<Rightarrow> u8 list \<Rightarrow> u8 list" where
  "ring_put buf h xs =
     (if h + length xs \<le> length buf then mem_put buf h xs
      else mem_put (mem_put buf h (take (length buf - h) xs)) 0 (drop (length buf - h) xs))"

lemma ring_put_props:
  assumes "h < length buf" and "length xs \<le> length buf"
  shows "length (ring_put buf h xs) = length buf"
    and "j < length xs \<Longrightarrow> ring_put buf h xs ! ((h + j) mod length buf) = xs ! j"
    and "length xs \<le> d \<Longrightarrow> d < length buf \<Longrightarrow>
      ring_put buf h xs ! ((h + d) mod length buf) = buf ! ((h + d) mod length buf)"
proof -
  let ?n = "length buf" and ?f = "length buf - h"
  have wrap: "(h + i) mod ?n = (if h + i < ?n then h + i else h + i - ?n)" if "i < ?n" for i
    using that assms(1) by (simp add: mod_if)
  show "length (ring_put buf h xs) = ?n"
    using assms by (simp add: ring_put_def)
  show "ring_put buf h xs ! ((h + j) mod ?n) = xs ! j" if "j < length xs"
  proof (cases "h + j < ?n")
    case True
    then show ?thesis using that assms by (auto simp: ring_put_def nth_mem_put_in nth_mem_put_out wrap)
  next
    case False
    then have "j - ?f = h + j - ?n" "?f + (h + j - ?n) = j" using assms by linarith+
    then show ?thesis using False that assms by (auto simp: ring_put_def nth_mem_put_in wrap)
  qed
  show "ring_put buf h xs ! ((h + d) mod ?n) = buf ! ((h + d) mod ?n)" if "length xs \<le> d" "d < ?n"
  proof (cases "h + d < ?n")
    case True
    then show ?thesis using that assms by (auto simp: ring_put_def nth_mem_put_out wrap)
  next
    case False
    then have "h + d - ?n < h" "length (drop ?f xs) \<le> h + d - ?n" using that assms by auto
    then show ?thesis using False that assms by (auto simp: ring_put_def nth_mem_put_out wrap)
  qed
qed

lemma write_is_ring_put:
  assumes inv: "sb_inv sb" and c: "0 < xCount" "unat xCount \<le> sb_len sb" "unat xCount \<le> length pucData"
  shows "\<exists>h. prvWriteBytesToBuffer pucData xCount sb = Inr (xCount, sb
      \<lparr>pucBuffer := ring_put (pucBuffer sb) (unat (xHead sb)) (take (unat xCount) pucData), xHead := h\<rparr>) \<and>
    unat h = (unat (xHead sb) + unat xCount) mod sb_len sb"
proof -
  note D = sb_invD [OF inv]
  let ?n = "unat (xLength sb)" and ?h = "unat (xHead sb)" and ?c = "unat xCount"
  define g where "g = min (xLength sb - xHead sb) xCount"
  have n: "sb_len sb = ?n" "length (pucBuffer sb) = ?n" using D by (simp_all add: sb_len_def)
  have le: "xHead sb \<le> xLength sb" using inv by (simp add: sb_inv_def order_less_imp_le)
  have f: "unat g = min (?n - ?h) ?c"
    using unat_sub_small [OF le] by (auto simp: g_def min_def word_le_nat_alt)
  have sum: "unat (xHead sb + g) = ?h + unat g"
    using D n f by (intro unat_add_small) auto
  have ok1: "xHead sb + g \<le> xLength sb" using sum f D n by (auto simp: word_le_nat_alt)
  have fc: "g < xCount \<longleftrightarrow> ?n - ?h < ?c" using f by (auto simp: word_less_nat_alt)
  have rest: "unat (xCount - g) = ?c - unat g" by (rule unat_sub_small) (simp add: g_def)
  have ok2: "xCount - g \<le> xLength sb" using rest c(2) n by (simp add: word_le_nat_alt)
  have hsum: "unat (xHead sb + xCount) = ?h + ?c"
    using D n c by (intro unat_add_small) auto
  have wrap: "unat (if xLength sb \<le> xHead sb + xCount then xHead sb + xCount - xLength sb else xHead sb + xCount) =
      (?h + ?c) mod ?n"
    using unat_wrap_once [of "xHead sb + xCount" "xLength sb"] hsum D c(2) n by simp
  have buf: "(if g < xCount then
        bindR (assertR (xCount - g \<le> xLength sb)) (\<lambda>_.
        bindR (mem_read pucData (unat g) (unat (xCount - g))) (\<lambda>ys.
        memcpy_to (mem_put (pucBuffer sb) ?h (take (unat g) pucData)) 0 ys))
      else Inr (mem_put (pucBuffer sb) ?h (take (unat g) pucData))) =
      Inr (ring_put (pucBuffer sb) ?h (take ?c pucData))"
  proof (cases "?n - ?h < ?c")
    case True
    then have uf: "unat g = ?n - ?h" using f by simp
    have "drop (?n - ?h) (take ?c pucData) = take (?c - (?n - ?h)) (drop (?n - ?h) pucData)"
      by (simp add: drop_take)
    moreover have "?n - ?h + (?c - (?n - ?h)) \<le> length pucData" using True c(3) by simp
    moreover have "\<not> ?h + ?c \<le> ?n" using True by simp
    ultimately show ?thesis using True fc ok2 rest uf D n c by (simp add: ring_put_def min_absorb1)
  next
    case False
    then have "unat g = ?c" "?h + ?c \<le> ?n" using f D n by simp_all
    then show ?thesis using False fc n c(3) by (simp add: ring_put_def)
  qed
  have rd: "mem_read pucData 0 (unat g) = Inr (take (unat g) pucData)"
    using f c(3) by simp
  have cp: "memcpy_to (pucBuffer sb) ?h (take (unat g) pucData) =
      Inr (mem_put (pucBuffer sb) ?h (take (unat g) pucData))"
    using f c(3) n D by simp
  show ?thesis
    by (rule exI, rule conjI [OF _ wrap [folded n(1)]],
        unfold prvWriteBytesToBuffer_def Let_def g_def [symmetric]) (use c(1) ok1 rd cp buf in simp)
qed

lemma write_appends:
  assumes inv: "sb_inv sb" and c: "0 < xCount" "unat xCount \<le> length pucData"
    and fits: "sb_count sb + unat xCount < sb_len sb"
  shows "\<exists>sb'. prvWriteBytesToBuffer pucData xCount sb = Inr (xCount, sb') \<and> sb_inv sb' \<and>
    sb_bytes sb' = sb_bytes sb @ take (unat xCount) pucData \<and>
    sb' = sb\<lparr>pucBuffer := pucBuffer sb', xHead := xHead sb'\<rparr>"
proof -
  note D = sb_invD [OF inv]
  let ?n = "sb_len sb" and ?t = "unat (xTail sb)" and ?c = "unat xCount" and ?k = "sb_count sb"
  let ?xs = "take ?c pucData" and ?buf = "ring_put (pucBuffer sb) (unat (xHead sb)) (take ?c pucData)"
  obtain h where w: "prvWriteBytesToBuffer pucData xCount sb = Inr (xCount, sb\<lparr>pucBuffer := ?buf, xHead := h\<rparr>)"
      and h: "unat h = (unat (xHead sb) + ?c) mod ?n"
    using write_is_ring_put [OF inv c(1) _ c(2)] fits by auto
  let ?sb = "sb\<lparr>pucBuffer := ?buf, xHead := h\<rparr>"
  have lx: "length ?xs = ?c" using c(2) by simp
  have len: "sb_len ?sb = ?n" by (simp add: sb_len_def)
  note head = sb_head [OF inv]
  have P: "length ?buf = ?n" "\<And>j. j < ?c \<Longrightarrow> ?buf ! ((unat (xHead sb) + j) mod ?n) = pucData ! j"
    "\<And>d. ?c \<le> d \<Longrightarrow> d < ?n \<Longrightarrow>
      ?buf ! ((unat (xHead sb) + d) mod ?n) = pucBuffer sb ! ((unat (xHead sb) + d) mod ?n)"
    using ring_put_props [of "unat (xHead sb)" "pucBuffer sb" ?xs] D fits lx by simp_all
  have inv': "sb_inv ?sb"
    using inv P(1) h D(5) by (simp add: sb_inv_def sb_len_def word_less_nat_alt)
  have cnt: "sb_count ?sb = ?k + ?c"
  proof -
    have "sb_count ?sb = (unat h + ?n - ?t) mod ?n" by (simp add: sb_count_def sb_len_def)
    also have "unat h = (?t + (?k + ?c)) mod ?n" by (simp add: h head mod_add_left_eq add.assoc)
    also have "((?t + (?k + ?c)) mod ?n + ?n - ?t) mod ?n = ?k + ?c"
      using D fits by (intro ring_distance) simp_all
    finally show ?thesis .
  qed
  have "sb_bytes ?sb = sb_bytes sb @ ?xs"
  proof (rule nth_equalityI)
    show "length (sb_bytes ?sb) = length (sb_bytes sb @ ?xs)" using cnt lx by simp
  next
    fix i assume "i < length (sb_bytes ?sb)"
    then have i: "i < ?k + ?c" using cnt by simp
    have nth: "sb_bytes ?sb ! i = ?buf ! ((?t + i) mod ?n)"
      using i cnt by (simp add: nth_sb_bytes len)
    show "sb_bytes ?sb ! i = (sb_bytes sb @ ?xs) ! i"
    proof (cases "i < ?k")
      case True
      have "(?t + i) mod ?n = (unat (xHead sb) + (?n - ?k + i)) mod ?n"
      proof -
        have "(unat (xHead sb) + (?n - ?k + i)) mod ?n = (?t + ?k + (?n - ?k + i)) mod ?n"
          by (simp add: head mod_add_left_eq)
        also have "?t + ?k + (?n - ?k + i) = ?t + i + ?n" using sb_count_less [OF inv] by simp
        finally show ?thesis by simp
      qed
      then show ?thesis using P(3) [of "?n - ?k + i"] True nth fits sb_count_less [OF inv]
        by (simp add: nth_append nth_sb_bytes)
    next
      case False
      have "(?t + i) mod ?n = (unat (xHead sb) + (i - ?k)) mod ?n"
      proof -
        have "?t + i = ?t + ?k + (i - ?k)" using False by simp
        then show ?thesis by (simp only: head mod_add_left_eq)
      qed
      then show ?thesis using P(2) [of "i - ?k"] False nth i lx by (simp add: nth_append)
    qed
  qed
  then show ?thesis using w inv' by (intro exI [of _ ?sb]) simp
qed

section \<open>Reading\<close>

lemma read_takes:
  assumes inv: "sb_inv sb"
  shows "\<exists>sb'. prvReadBytesFromBuffer m (prvBytesInBuffer sb) sb = Inr (take (unat m) (sb_bytes sb), sb') \<and>
    sb_inv sb' \<and> sb_bytes sb' = drop (unat m) (sb_bytes sb) \<and> sb' = sb\<lparr>xTail := xTail sb'\<rparr>"
proof -
  note D = sb_invD [OF inv]
  let ?c = "min (prvBytesInBuffer sb) m" and ?n = "unat (xLength sb)" and ?t = "unat (xTail sb)"
  let ?k = "sb_count sb"
  have n: "sb_len sb = ?n" "length (pucBuffer sb) = ?n" using D by (simp_all add: sb_len_def)
  have cu: "unat ?c = min ?k (unat m)"
    using prvBytesInBuffer_count [OF inv] by (auto simp: min_def word_le_nat_alt)
  show ?thesis
  proof (cases "0 < ?c")
    case False
    then have "?k = 0 \<or> unat m = 0" using cu by (auto simp: word_gt_0)
    then have "take (unat m) (sb_bytes sb) = []" "drop (unat m) (sb_bytes sb) = sb_bytes sb"
      by (auto simp: sb_bytes_def)
    moreover have "prvReadBytesFromBuffer m (prvBytesInBuffer sb) sb = Inr ([], sb)"
      unfolding prvReadBytesFromBuffer_def Let_def using False by (simp only: if_False)
    ultimately show ?thesis using inv by (intro exI [of _ sb]) simp
  next
    case True
    define c where "c = ?c"
    define g where "g = min (xLength sb - xTail sb) c"
    have kn: "?k < ?n" using sb_count_less [OF inv] n by simp
    have le: "xTail sb \<le> xLength sb" using inv by (simp add: sb_inv_def order_less_imp_le)
    have cu: "unat c = min ?k (unat m)" and c0: "0 < c" using cu True by (simp_all add: c_def)
    have f: "unat g = min (?n - ?t) (unat c)"
      using unat_sub_small [OF le] by (auto simp: g_def min_def word_le_nat_alt)
    have sum: "unat (xTail sb + g) = ?t + unat g"
      using D n f by (intro unat_add_small) auto
    have ok1: "xTail sb + g \<le> xLength sb" using sum f D n by (auto simp: word_le_nat_alt)
    have fc: "g < c \<longleftrightarrow> ?n - ?t < unat c" using f by (auto simp: word_less_nat_alt)
    have rest: "unat (c - g) = unat c - unat g" by (rule unat_sub_small) (simp add: g_def)
    have tsum: "unat (xTail sb + c) = ?t + unat c"
      using D n cu kn by (intro unat_add_small) auto
    define t where "t = (if xLength sb \<le> xTail sb + c then xTail sb + c - xLength sb else xTail sb + c)"
    have t: "unat t = (?t + unat c) mod ?n"
      unfolding t_def using unat_wrap_once [of "xTail sb + c" "xLength sb"] tsum D cu kn n by simp
    let ?xs = "take (unat g) (drop ?t (pucBuffer sb))"
    let ?ys = "if g < c then take (unat (c - g)) (pucBuffer sb) else []"
    have rd: "prvReadBytesFromBuffer m (prvBytesInBuffer sb) sb = Inr (?xs @ ?ys, sb\<lparr>xTail := t\<rparr>)"
    proof -
      have gm: "g \<le> m" and cm: "c \<le> m" by (simp_all add: g_def c_def min.coboundedI2)
      have "?t + unat g \<le> length (pucBuffer sb)" "unat (c - g) \<le> length (pucBuffer sb)"
        unfolding rest f n(2) cu using kn D(1) n by linarith+
      then show ?thesis
        using c0 ok1 unfolding prvReadBytesFromBuffer_def Let_def c_def [symmetric] g_def [symmetric] t_def
        by (simp add: gm cm)
    qed
    have bytes: "?xs @ ?ys = take (unat m) (sb_bytes sb)"
    proof (rule nth_equalityI)
      have lx: "length ?xs = unat g" and ly: "length ?ys = unat c - unat g"
        using f n D rest cu kn fc by (auto simp: word_less_nat_alt not_less)
      have fle: "unat g \<le> unat c" using f by simp
      show "length (?xs @ ?ys) = length (take (unat m) (sb_bytes sb))" using lx ly fle cu by simp
      fix i assume "i < length (?xs @ ?ys)"
      then have i: "i < unat c" using lx ly fle by simp
      then have r: "take (unat m) (sb_bytes sb) ! i = pucBuffer sb ! ((?t + i) mod ?n)"
        using cu by (simp add: nth_sb_bytes n)
      show "(?xs @ ?ys) ! i = take (unat m) (sb_bytes sb) ! i"
      proof (cases "i < unat g")
        case True
        then have "?t + i < ?n" unfolding f using D(1) n by linarith
        then show ?thesis using True lx n r by (simp add: nth_append)
      next
        case False
        then have w: "?n - ?t < unat c" "unat g = ?n - ?t" using f i by (auto simp: min_def split: if_splits)
        then have "?n \<le> ?t + i" "?t + i < 2 * ?n" using False D n i cu kn by linarith+
        then have "(?t + i) mod ?n = i - unat g" using w D(1) n by (simp add: mod_once)
        moreover have "i - unat g < unat (c - g)" using rest i False by linarith
        moreover have "g < c" using fc w by simp
        ultimately show ?thesis using False lx r by (simp add: nth_append)
      qed
    qed
    let ?sb = "sb\<lparr>xTail := t\<rparr>"
    have inv': "sb_inv ?sb" using inv t D(5) n by (simp add: sb_inv_def sb_len_def word_less_nat_alt)
    have cnt: "sb_count ?sb = ?k - unat c"
    proof -
      have "sb_count ?sb = (unat (xHead sb) + ?n - unat t) mod ?n" by (simp add: sb_count_def sb_len_def)
      also have "unat (xHead sb) = (?t + ?k) mod ?n" using sb_head [OF inv] n by simp
      also have "((?t + ?k) mod ?n + ?n - unat t) mod ?n = ?k - unat c"
        unfolding t using D n cu kn by (intro ring_advance) auto
      finally show ?thesis .
    qed
    have "sb_bytes ?sb = drop (unat m) (sb_bytes sb)"
    proof (rule nth_equalityI)
      show "length (sb_bytes ?sb) = length (drop (unat m) (sb_bytes sb))" using cnt cu by simp
      fix i assume "i < length (sb_bytes ?sb)"
      then have i: "i < ?k - unat c" using cnt by simp
      then have um: "unat c = unat m" using cu by (simp add: min_def split: if_splits)
      have "sb_bytes ?sb ! i = pucBuffer sb ! ((unat t + i) mod ?n)"
        using i cnt by (simp add: nth_sb_bytes sb_len_def)
      also have "(unat t + i) mod ?n = (?t + (unat m + i)) mod ?n"
        by (simp add: t um mod_add_left_eq add.assoc)
      also have "pucBuffer sb ! \<dots> = drop (unat m) (sb_bytes sb) ! i"
        using i um by (simp add: nth_sb_bytes n)
      finally show "sb_bytes ?sb ! i = drop (unat m) (sb_bytes sb) ! i" .
    qed
    then show ?thesis using rd bytes inv' by (intro exI [of _ ?sb]) simp
  qed
qed

section \<open>The code keeps the contract\<close>

definition stream_inv :: "StreamBuffer_t \<Rightarrow> bool" where
  "stream_inv sb \<longleftrightarrow> sb_inv sb \<and> \<not> is_message_buffer sb"

definition sb_capacity :: "StreamBuffer_t \<Rightarrow> nat" where
  "sb_capacity sb = sb_len sb - 1"

text \<open>The copying part of a send and of a receive, as both are called.\<close>

definition sb_put :: "u8 list \<Rightarrow> u32 \<Rightarrow> StreamBuffer_t \<Rightarrow> StreamBuffer_t res" where
  "sb_put xs n sb =
     bindR (prvWriteMessageToBuffer xs n (spaces_available sb) (required_space sb n) sb) (\<lambda>(_, sb1). Inr sb1)"

definition sb_get :: "u32 \<Rightarrow> StreamBuffer_t \<Rightarrow> (u8 list \<times> StreamBuffer_t) res" where
  "sb_get n sb = prvReadMessageFromBuffer n (prvBytesInBuffer sb) (message_length_bytes sb) sb"

lemma write_message_law:
  assumes "stream_inv sb" and "0 < n" and "unat n \<le> length xs"
  shows "\<exists>c sb'. prvWriteMessageToBuffer xs n (spaces_available sb) r sb = Inr (c, sb') \<and> stream_inv sb' \<and>
    unat c = min (unat n) (sb_capacity sb - sb_count sb) \<and> sb_bytes sb' = sb_bytes sb @ take (unat c) xs \<and>
    sb' = sb\<lparr>pucBuffer := pucBuffer sb', xHead := xHead sb'\<rparr>"
proof -
  have inv: "sb_inv sb" and str: "\<not> is_message_buffer sb" using assms(1) by (simp_all add: stream_inv_def)
  note space = spaces_available_count [OF inv]
  show ?thesis
  proof (cases "spaces_available sb = 0")
    case True
    then have "sb_capacity sb - sb_count sb = 0" using space by (simp add: sb_capacity_def)
    then show ?thesis using True assms(1)
      by (intro exI [of _ 0] exI [of _ sb]) (simp add: prvWriteMessageToBuffer_def)
  next
    case False
    let ?c = "min n (spaces_available sb)"
    have c: "unat ?c = min (unat n) (sb_capacity sb - sb_count sb)"
      using space by (auto simp: min_def word_le_nat_alt sb_capacity_def)
    have "0 < n \<and> 0 < spaces_available sb" using False assms(2) by (simp add: word_gt_0)
    then have c0: "0 < ?c" by (simp only: min_less_iff_conj)
    then have "0 < unat ?c" by (simp only: word_less_nat_alt unat_0)
    then have fits: "sb_count sb + unat ?c < sb_len sb"
      unfolding c sb_capacity_def using sb_count_less [OF inv] by linarith
    have "unat ?c \<le> length xs" using c assms(3) by simp
    from write_appends [OF inv c0 this fits] obtain sb' where
        w: "prvWriteBytesToBuffer xs ?c sb = Inr (?c, sb')" "sb_inv sb'"
          "sb_bytes sb' = sb_bytes sb @ take (unat ?c) xs"
        and fr: "sb' = sb\<lparr>pucBuffer := pucBuffer sb', xHead := xHead sb'\<rparr>"
      by blast
    have "ucFlags sb' = ucFlags sb" by (subst fr) simp
    then have "stream_inv sb'" using w(2) str by (simp add: stream_inv_def is_message_buffer_def)
    then show ?thesis
      using w False str c fr unfolding prvWriteMessageToBuffer_def
      by (intro exI [of _ ?c] exI [of _ sb']) simp
  qed
qed

lemma sb_put_law:
  assumes "stream_inv sb" and "op_ok (Put xs n)"
  shows "\<exists>sb'. sb_put xs n sb = Inr sb' \<and> stream_inv sb' \<and> sb_capacity sb' = sb_capacity sb \<and>
    sb_bytes sb' = sb_bytes sb @ take (min (unat n) (sb_capacity sb - length (sb_bytes sb))) xs"
proof -
  have n: "0 < n" "unat n \<le> length xs" using assms(2) by simp_all
  obtain c sb' where w: "prvWriteMessageToBuffer xs n (spaces_available sb) (required_space sb n) sb = Inr (c, sb')"
      "stream_inv sb'" "unat c = min (unat n) (sb_capacity sb - sb_count sb)"
      "sb_bytes sb' = sb_bytes sb @ take (unat c) xs"
      and fr: "sb' = sb\<lparr>pucBuffer := pucBuffer sb', xHead := xHead sb'\<rparr>"
    using write_message_law [OF assms(1) n] by blast
  have "sb_capacity sb' = sb_capacity sb" by (subst fr) (simp add: sb_capacity_def sb_len_def)
  then show ?thesis using w by (simp add: sb_put_def)
qed

lemma read_message_law:
  assumes "stream_inv sb"
  shows "\<exists>sb'. prvReadMessageFromBuffer n (prvBytesInBuffer sb) (message_length_bytes sb) sb =
      Inr (take (unat n) (sb_bytes sb), sb') \<and> stream_inv sb' \<and>
    sb_bytes sb' = drop (unat n) (sb_bytes sb) \<and> sb' = sb\<lparr>xTail := xTail sb'\<rparr>"
proof -
  have inv: "sb_inv sb" and str: "\<not> is_message_buffer sb" using assms by (simp_all add: stream_inv_def)
  obtain sb' where r: "prvReadBytesFromBuffer n (prvBytesInBuffer sb) sb = Inr (take (unat n) (sb_bytes sb), sb')"
      "sb_inv sb'" "sb_bytes sb' = drop (unat n) (sb_bytes sb)" and fr: "sb' = sb\<lparr>xTail := xTail sb'\<rparr>"
    using read_takes [OF inv] by blast
  have "ucFlags sb' = ucFlags sb" by (subst fr) simp
  then have "stream_inv sb'" using r(2) str by (simp add: stream_inv_def is_message_buffer_def)
  then show ?thesis using r fr str
    by (intro exI [of _ sb']) (simp add: prvReadMessageFromBuffer_def message_length_bytes_def)
qed

lemma sb_get_law:
  assumes "stream_inv sb"
  shows "\<exists>sb'. sb_get n sb = Inr (take (unat n) (sb_bytes sb), sb') \<and> stream_inv sb' \<and>
    sb_capacity sb' = sb_capacity sb \<and> sb_bytes sb' = drop (unat n) (sb_bytes sb)"
proof -
  obtain sb' where r: "sb_get n sb = Inr (take (unat n) (sb_bytes sb), sb')" "stream_inv sb'"
      "sb_bytes sb' = drop (unat n) (sb_bytes sb)" and fr: "sb' = sb\<lparr>xTail := xTail sb'\<rparr>"
    using read_message_law [OF assms, of n] unfolding sb_get_def by blast
  have "sb_capacity sb' = sb_capacity sb" by (subst fr) (simp add: sb_capacity_def sb_len_def)
  then show ?thesis using r by blast
qed

interpretation stream: byte_stream stream_inv sb_bytes sb_capacity sb_put sb_get
proof unfold_locales
  show "length (sb_bytes s) \<le> sb_capacity s" if "stream_inv s" for s
    using that sb_count_less [of s] by (simp add: stream_inv_def sb_capacity_def)
qed (use sb_put_law sb_get_law in blast)+

section \<open>Properties\<close>

fun stream_run :: "stream_op list \<Rightarrow> StreamBuffer_t \<Rightarrow> (u8 list \<times> u8 list \<times> StreamBuffer_t) res" where
  "stream_run [] sb = Inr ([], [], sb)"
| "stream_run (Put xs n # ops) sb =
     bindR (sb_put xs n sb) (\<lambda>sb1. bindR (stream_run ops sb1) (\<lambda>(ins, outs, sb2).
       Inr (take (min (unat n) (sb_capacity sb - length (sb_bytes sb))) xs @ ins, outs, sb2)))"
| "stream_run (Get n # ops) sb =
     bindR (sb_get n sb) (\<lambda>(ys, sb1). bindR (stream_run ops sb1) (\<lambda>(ins, outs, sb2).
       Inr (ins, ys @ outs, sb2)))"

lemma stream_run_eq: "stream_run ops sb = stream.run ops sb"
  by (induction ops sb rule: stream_run.induct) (auto intro!: bindR_cong)

text \<open>C32: the ring of the stream buffer is a first-in first-out queue: over any sequence of sends and
  receives, with the indices wrapping around the storage as often as they like, no operation fails
  and the bytes received, followed by the bytes still stored, are the bytes stored before,
  followed by the bytes accepted, each once and in order. A send accepts the front of its data up
  to the free space.\<close>

theorem stream_is_fifo:
  assumes "stream_inv sb" and "list_all op_ok ops"
  shows "\<exists>ins outs sb'. stream_run ops sb = Inr (ins, outs, sb') \<and> stream_inv sb' \<and>
    sb_bytes sb @ ins = outs @ sb_bytes sb'"
  unfolding stream_run_eq by (rule stream.fifo [OF assms])

lemma create_static:
  assumes "4 < n" and "trigger \<le> n" and "unat n = length storage" and "unat n < 2 ^ 31"
  shows "\<exists>sb. xStreamBufferGenericCreateStatic n trigger False (Some storage) = Inr (Some sb) \<and>
    stream_inv sb \<and> sb_bytes sb = [] \<and> sb_capacity sb = unat n - 1 \<and>
    xTriggerLevelBytes sb = (if trigger = 0 then 1 else trigger) \<and>
    xTaskWaitingToReceive sb = None \<and> xTaskWaitingToSend sb = None"
proof -
  have "0 < n" using assms(1) by (rule order_le_less_trans [OF _, rotated]) simp
  then show ?thesis using assms
    by (simp add: xStreamBufferGenericCreateStatic_def Let_def sbBYTES_TO_STORE_MESSAGE_LENGTH_def
        prvInitialiseNewStreamBuffer_def stream_inv_def sb_inv_def sb_len_def is_message_buffer_def
        sbFLAGS_IS_MESSAGE_BUFFER_def sbFLAGS_IS_STATICALLY_ALLOCATED_def sb_bytes_def sb_count_def
        sb_capacity_def)
qed

theorem stream_is_fifo_witness:
  "\<exists>sb ins outs sb'. xStreamBufferGenericCreateStatic 8 1 False (Some (replicate 8 0)) = Inr (Some sb) \<and>
    stream_run [Put [1, 2, 3, 4, 5] 5, Get 3, Put [6, 7, 8, 9, 10, 11] 6, Get 64] sb = Inr (ins, outs, sb') \<and>
    ins = outs @ sb_bytes sb'"
proof -
  obtain sb where sb: "xStreamBufferGenericCreateStatic 8 1 False (Some (replicate 8 0)) = Inr (Some sb)"
      "stream_inv sb" "sb_bytes sb = []"
    using create_static [of 8 1 "replicate 8 0"] by auto
  have "list_all op_ok [Put [1, 2, 3, 4, 5] 5, Get 3, Put [6, 7, 8, 9, 10, 11] 6, Get 64]" by simp
  from stream_is_fifo [OF sb(2) this] show ?thesis unfolding sb(3) append_Nil using sb(1) by blast
qed

text \<open>What a send from an interrupt does to the buffer.\<close>

lemma send_from_isr_law:
  assumes "stream_inv sb" and "0 < n" and "unat n \<le> length xs"
    and "xTriggerLevelBytes sb = 1"
  shows "\<exists>c sb'. unat c = min (unat n) (sb_capacity sb - sb_count sb) \<and> stream_inv sb' \<and>
    sb_bytes sb' = sb_bytes sb @ take (unat c) xs \<and> xTriggerLevelBytes sb' = 1 \<and>
    sb_capacity sb' = sb_capacity sb \<and> xTaskWaitingToSend sb' = xTaskWaitingToSend sb \<and>
    xTaskWaitingToReceive sb' = xTaskWaitingToReceive sb \<and>
    xStreamBufferSendFromISR (Some sb) xs n woken k =
      (if 0 < c then bindR (sbSEND_COMPLETE_FROM_ISR sb' woken k) (\<lambda>(sb2, wo, k1). Inr (c, sb2, wo, k1))
       else Inr (c, sb', woken, k))"
proof -
  obtain c sb' where w: "prvWriteMessageToBuffer xs n (spaces_available sb) (required_space sb n) sb = Inr (c, sb')"
      "stream_inv sb'" "unat c = min (unat n) (sb_capacity sb - sb_count sb)"
      "sb_bytes sb' = sb_bytes sb @ take (unat c) xs"
      and fr: "sb' = sb\<lparr>pucBuffer := pucBuffer sb', xHead := xHead sb'\<rparr>"
    using write_message_law [OF assms(1-3)] by blast
  have f: "xTriggerLevelBytes sb' = 1" "sb_capacity sb' = sb_capacity sb"
    "xTaskWaitingToSend sb' = xTaskWaitingToSend sb" "xTaskWaitingToReceive sb' = xTaskWaitingToReceive sb"
    by (subst fr, simp add: assms(4) sb_capacity_def sb_len_def)+
  have "1 \<le> prvBytesInBuffer sb'" if "0 < c"
  proof -
    have "0 < unat c" using that by (simp only: word_less_nat_alt unat_0)
    moreover have "unat (prvBytesInBuffer sb') = sb_count sb + unat c"
    proof -
      have "sb_count sb' = length (sb_bytes sb @ take (unat c) xs)" using w(4) by (metis length_sb_bytes)
      then show ?thesis using prvBytesInBuffer_count [of sb'] w(2,3) assms(3) by (simp add: stream_inv_def)
    qed
    ultimately show ?thesis by (simp add: word_le_nat_alt)
  qed
  then have "xStreamBufferSendFromISR (Some sb) xs n woken k =
      (if 0 < c then bindR (sbSEND_COMPLETE_FROM_ISR sb' woken k) (\<lambda>(sb2, wo, k1). Inr (c, sb2, wo, k1))
       else Inr (c, sb', woken, k))"
    using f(1) w(1) by (auto simp: xStreamBufferSendFromISR_def)
  then show ?thesis using w f by (intro exI [of _ c] exI [of _ sb']) simp
qed

text \<open>C33: no wake-up is lost. When bytes arrive from an interrupt after the receiver has found the buffer
  empty and before it has gone to sleep, its \<open>xTaskNotifyWait\<close> does not block, and the receiver goes
  on with those bytes in the buffer.\<close>

theorem no_lost_wakeup:
  assumes "stream_inv sb" and "sb_bytes sb = []" and "xTriggerLevelBytes sb = 1" and "0 < sb_capacity sb"
    and "xTaskWaitingToReceive sb = None"
    and "pxCurrentTCB k = Some t" and "ucNotifyState (tcbs k t) \<noteq> taskWAITING_NOTIFICATION"
    and "ticks \<noteq> 0" and "0 < n" and "unat n \<le> length xs"
  shows "\<exists>sb1 k1 c sb2 k2 sb3 k3 m.
    xStreamBufferReceive_enter (Some sb) ticks k = Inr (0, True, sb1, k1) \<and>
    xStreamBufferSendFromISR (Some sb1) xs n woken k1 = Inr (c, sb2, woken, k2) \<and>
    xTaskNotifyWait_block 0 ticks k2 = Inr k2 \<and>
    xStreamBufferReceive_leave (Some sb2) k2 = Inr (m, sb3, k3) \<and>
    sb_bytes sb3 = take (unat m) xs \<and> unat m = min (unat n) (sb_capacity sb)"
proof -
  have inv: "sb_inv sb" and str: "message_length_bytes sb = 0"
    using assms(1) by (simp_all add: stream_inv_def message_length_bytes_def)
  have cnt: "sb_count sb = 0" using assms(2) length_sb_bytes [of sb] by simp
  then have none: "prvBytesInBuffer sb = 0"
    using prvBytesInBuffer_count [OF inv] by (simp add: unat_eq_0)
  define k1 where "k1 = (if ucNotifyState (tcbs k t) = taskNOTIFICATION_RECEIVED
      then upd_tcb t (\<lambda>c. c\<lparr>ucNotifyState := taskNOT_WAITING_NOTIFICATION\<rparr>) k else k)"
  have cur: "pxCurrentTCB k1 = Some t" and idle: "ucNotifyState (tcbs k1 t) = taskNOT_WAITING_NOTIFICATION"
    using assms(6,7) by (auto simp: k1_def upd_tcb_def intro: notify_state.exhaust)
  have clear: "xTaskNotifyStateClear None k = Inr (ucNotifyState (tcbs k t) = taskNOTIFICATION_RECEIVED, k1)"
    using assms(6) by (simp add: xTaskNotifyStateClear_def prvGetTCBFromHandle_def current_def k1_def)
  let ?sb1 = "sb\<lparr>xTaskWaitingToReceive := Some t\<rparr>"
  have enter: "xStreamBufferReceive_enter (Some sb) ticks k = Inr (0, True, ?sb1, k1)"
    using none str assms(5,8) clear cur by (simp add: xStreamBufferReceive_enter_def)
  have same: "stream_inv ?sb1" "sb_bytes ?sb1 = []" "sb_capacity ?sb1 = sb_capacity sb" "sb_count ?sb1 = 0"
    using assms(1,2) cnt by (simp_all add: stream_inv_def sb_inv_def sb_len_def sb_bytes_def sb_count_def
        sb_capacity_def is_message_buffer_def)
  obtain c sb' where c: "unat c = min (unat n) (sb_capacity sb)" and sb': "stream_inv sb'"
      "sb_bytes sb' = take (unat c) xs" "xTaskWaitingToReceive sb' = Some t"
      and send: "xStreamBufferSendFromISR (Some ?sb1) xs n woken k1 =
        (if 0 < c then bindR (sbSEND_COMPLETE_FROM_ISR sb' woken k1) (\<lambda>(sb2, wo, k1). Inr (c, sb2, wo, k1))
         else Inr (c, sb', woken, k1))"
    using send_from_isr_law [OF same(1) assms(9,10), of woken k1] assms(3) same by auto
  have c0: "0 < c" using c assms(4,9) by (simp only: word_less_nat_alt unat_0)
  let ?k2 = "upd_tcb t (\<lambda>c. c\<lparr>ucNotifyState := taskNOTIFICATION_RECEIVED\<rparr>) k1"
  let ?sb2 = "sb'\<lparr>xTaskWaitingToReceive := None\<rparr>"
  have note_isr: "xTaskGenericNotifyFromISR (Some t) 0 eNoAction woken k1 =
      Inr (True, ulNotifiedValue (tcbs k1 t), woken, ?k2)"
    using idle by (simp add: xTaskGenericNotifyFromISR_def notify_value_def notify_from_isr_def Let_def upd_tcb_def)
  have sent: "xStreamBufferSendFromISR (Some ?sb1) xs n woken k1 = Inr (c, ?sb2, woken, ?k2)"
    using send c0 sb'(3) note_isr by (simp add: sbSEND_COMPLETE_FROM_ISR_def notify_waiting_isr_def)
  have wait: "xTaskNotifyWait_block 0 ticks ?k2 = Inr ?k2"
    using cur by (simp add: xTaskNotifyWait_block_def current_def upd_tcb_def)
  have same2: "stream_inv ?sb2" "sb_bytes ?sb2 = take (unat c) xs"
    using sb' by (simp_all add: stream_inv_def sb_inv_def sb_len_def sb_bytes_def sb_count_def is_message_buffer_def)
  have "sb_count ?sb2 = unat c"
    using length_sb_bytes [of ?sb2] same2(2) c assms(10) by simp
  then have m: "prvBytesInBuffer ?sb2 = c"
    using prvBytesInBuffer_count [of ?sb2] same2(1) by (simp add: stream_inv_def word_unat_eq_iff)
  have "\<exists>k3. xStreamBufferReceive_leave (Some ?sb2) ?k2 = Inr (c, ?sb2, k3)"
    using cur m by (simp add: xStreamBufferReceive_leave_def xTaskNotifyWait_wake_def current_def upd_tcb_def Let_def)
  then show ?thesis using enter sent wait same2(2) c by blast
qed

theorem no_lost_wakeup_witness:
  "\<exists>sb t k sb1 k1 c sb2 k2 sb3 k3 m.
    xStreamBufferReceive_enter (Some sb) portMAX_DELAY k = Inr (0, True, sb1, k1) \<and>
    xStreamBufferSendFromISR (Some sb1) [0xAA, 0x10] 2 False k1 = Inr (c, sb2, False, k2) \<and>
    xTaskNotifyWait_block 0 portMAX_DELAY k2 = Inr k2 \<and>
    xStreamBufferReceive_leave (Some sb2) k2 = Inr (m, sb3, k3) \<and>
    sb_bytes sb3 = take (unat m) [0xAA, 0x10] \<and> unat m = 2 \<and> pxCurrentTCB k = Some t"
proof -
  obtain sb where sb: "stream_inv sb" "sb_bytes sb = []" "sb_capacity sb = 511"
      "xTriggerLevelBytes sb = 1" "xTaskWaitingToReceive sb = None"
    using create_static [of 512 1 "replicate 512 0"] by auto
  obtain k :: kernel where k: "pxCurrentTCB k = Some 7" "ucNotifyState (tcbs k 7) \<noteq> taskWAITING_NOTIFICATION"
    by (rule that [of "kernel_start\<lparr>pxCurrentTCB := Some 7\<rparr>"]) (simp_all add: kernel_start_def new_tcb_def Let_def)
  have c: "0 < sb_capacity sb" "portMAX_DELAY \<noteq> 0" "(0 :: u32) < 2" "unat (2 :: u32) \<le> length [0xAA, 0x10 :: u8]"
    "min (unat (2 :: u32)) (sb_capacity sb) = 2"
    using sb(3) by (simp_all add: portMAX_DELAY_def)
  from no_lost_wakeup [OF sb(1,2,4) c(1) sb(5) k c(2,3,4), of False] show ?thesis
    unfolding c(5) using k(1) by blast
qed

end
