(* ===== verification/GatewaySpec.thy ===== *)
theory GatewaySpec
  imports Gateway Execution StreamSpec
begin

text \<open>
  The receive path as a whole: between two bursts the gateway is idle, the command task and both
  workers wait; a burst of frames that an interrupt delivers is executed in order and leaves the
  gateway idle again.
\<close>

section \<open>The kernel between two bursts\<close>

definition kernel_idle :: "task \<Rightarrow> task \<Rightarrow> task \<Rightarrow> kernel \<Rightarrow> bool" where
  "kernel_idle c r s k \<longleftrightarrow>
     r \<noteq> s \<and> rings_ok k \<and> uxSchedulerSuspended k = 0 \<and> \<not> pendsv k \<and> \<not> xYieldPending k \<and>
     xPendingReadyList k = [] \<and> xPendedTicks k = 0 \<and>
     (\<exists>x. pxCurrentTCB k = Some x \<and> prio k x < 11) \<and>
     prio k c = 11 \<and> prio k r = 12 \<and> prio k s = 12 \<and>
     (\<forall>t\<in>{c, r, s}. ucNotifyState (tcbs k t) = taskWAITING_NOTIFICATION \<and> xEventContainer (tcbs k t) = None) \<and>
     (\<forall>q\<ge>11. ready_at k q = []) \<and> low_ready k"

lemma idle_to_running:
  assumes idle: "kernel_idle c r s k"
  shows "\<exists>v k1 k2. xTaskGenericNotifyFromISR (Some c) 0 eNoAction w k = Inr (True, v, True, k1) \<and>
    take_pendsv (portYIELD k1) = Inr k2 \<and> steady_kernel c r s k2"
proof -
  obtain x where x: "pxCurrentTCB k = Some x" "prio k x < 11" using idle by (auto simp: kernel_idle_def)
  obtain k1 k2 where k: "xTaskGenericNotifyFromISR (Some c) 0 eNoAction w k =
        Inr (True, ulNotifiedValue (tcbs k c), True, k1)" "take_pendsv (portYIELD k1) = Inr k2"
      and w: "woken c (ulNotifiedValue (tcbs k c)) k k2"
    using notify_isr_wakes [of k x c 0 w] idle x by (auto simp: kernel_idle_def)
  have neq: "c \<noteq> r" "c \<noteq> s" using idle by (auto simp: kernel_idle_def)
  have pr: "prio k2 = prio k" using w by (auto simp: fun_eq_iff prio_def woken_def)
  have "low_ready k2"
    using low_ready_kept [of k c k2] w idle pr by (auto simp: woken_def kernel_idle_def)
  moreover have "ready_at k2 11 = [c]" "\<forall>q\<ge>12. ready_at k2 q = []" "11 \<le> uxTopReadyPriority k2"
    using w idle by (auto simp: woken_def kernel_idle_def)
  ultimately have "steady_kernel c r s k2"
    using w idle pr neq by (simp add: steady_kernel_def kernel_idle_def woken_def kernel_frame_def)
  then show ?thesis using k by blast
qed

lemma running_to_idle:
  assumes st: "steady_kernel c r s k" and n: "ucNotifyState (tcbs k c) \<noteq> taskNOTIFICATION_RECEIVED"
  shows "\<exists>k1 k2. xTaskNotifyWait_block 0 portMAX_DELAY k = Inr k1 \<and> take_pendsv k1 = Inr k2 \<and>
    kernel_idle c r s k2"
proof -
  define p where "p = (GREATEST p. p < 11 \<and> ready_at k p \<noteq> [])"
  have ex: "\<exists>p. p < 11 \<and> ready_at k p \<noteq> []" using st by (auto simp: steady_kernel_def low_ready_def)
  have p: "p < 11 \<and> ready_at k p \<noteq> []"
    unfolding p_def by (rule GreatestI_ex_nat [OF ex, of 11]) simp
  have above: "ready_at k q = []" if "p < q" "q < 11" for q
    using Greatest_le_nat [of "\<lambda>p. p < 11 \<and> ready_at k p \<noteq> []" q 11] that by (auto simp: p_def)
  obtain x xs where xs: "ready_at k p = x # xs" using p by (cases "ready_at k p") auto
  have low: "prio k t < 11" if "t \<in> set (ready_at k q)" "q < 11" for t q
    using st that by (auto simp: steady_kernel_def low_ready_def)
  have cn: "c \<notin> set (x # xs)" using low [of c p] p st xs by (auto simp: steady_kernel_def)
  have sub: "set (ready_at k q) \<subseteq> {c}" if "p < q" for q
    using above [OF that] st by (cases "q < 11"; cases "q = 11") (auto simp: steady_kernel_def)
  obtain k1 k2 where k: "xTaskNotifyWait_block 0 portMAX_DELAY k = Inr k1" "take_pendsv k1 = Inr k2"
      and b: "blocked_again c x p xs k k2"
    using wait_blocks [of k c p x xs, OF _ _ _ n xs cn _ sub] st p by (auto simp: steady_kernel_def)
  have neq: "c \<noteq> r" "c \<noteq> s" using st by (auto simp: steady_kernel_def)
  have pr: "prio k2 = prio k" using b by (auto simp: fun_eq_iff prio_def blocked_again_def)
  have hi: "ready_at k2 q = []" if "11 \<le> q" for q
    using b p st that by (cases "q = 11") (auto simp: blocked_again_def steady_kernel_def)
  have rq: "set (ready_at k2 q) = set (ready_at k q)" if "q < 11" for q
  proof -
    have "c \<notin> set (ready_at k q)" using low [of c q] that st by (auto simp: steady_kernel_def)
    then show ?thesis using b xs by (cases "q = p") (auto simp: blocked_again_def remove1_idem)
  qed
  then have "low_ready k2" using st pr unfolding low_ready_def steady_kernel_def by (metis set_empty)
  moreover have "pxCurrentTCB k2 = Some x" "prio k2 x < 11"
    using b low [of x p] xs p pr by (simp_all add: blocked_again_def)
  ultimately have "kernel_idle c r s k2"
    using b st pr neq hi by (simp add: steady_kernel_def kernel_idle_def blocked_again_def kernel_frame_def)
  then show ?thesis using k by blast
qed

lemma steady_upd:
  assumes "steady_kernel c r s k" and "\<And>x. uxPriority (g x) = uxPriority x"
    and "\<And>x. xEventContainer (g x) = xEventContainer x"
  shows "steady_kernel c r s (upd_tcb c g k)"
proof -
  have pr: "prio (upd_tcb c g k) = prio k" using assms(2) by (auto simp: fun_eq_iff prio_def upd_tcb_def)
  have "low_ready (upd_tcb c g k) = low_ready k" by (rule low_ready_cong) (simp_all add: pr)
  moreover have "c \<noteq> r" "c \<noteq> s" using assms(1) by (auto simp: steady_kernel_def)
  ultimately show ?thesis
    using assms pr by (simp add: steady_kernel_def) (simp add: upd_tcb_def)
qed

lemma receive_completed_idle:
  assumes "steady_kernel c r s k" and "xTaskWaitingToSend sb = None"
  shows "sbRECEIVE_COMPLETED sb k = Inr (sb, k)"
proof -
  have k: "uxSchedulerSuspended k = 0" "xPendingReadyList k = []" "xPendedTicks k = 0" "\<not> xYieldPending k"
    using assms(1) by (simp_all add: steady_kernel_def)
  have same: "k\<lparr>uxSchedulerSuspended := 0\<rparr> = k" using k(1) by (cases k) simp
  have "xTaskResumeAll (vTaskSuspendAll k) = Inr (False, k)"
    using k same by (simp add: xTaskResumeAll_def vTaskSuspendAll_def Let_def)
  moreover have "sb\<lparr>xTaskWaitingToSend := None\<rparr> = sb" using assms(2) by (cases sb) simp
  ultimately show ?thesis using assms(2) by (simp add: sbRECEIVE_COMPLETED_def)
qed

section \<open>The gateway between two bursts\<close>

definition stream_waiting :: "task option \<Rightarrow> u8 list \<Rightarrow> StreamBuffer_t \<Rightarrow> bool" where
  "stream_waiting w xs sb \<longleftrightarrow> stream_inv sb \<and> sb_bytes sb = xs \<and> sb_capacity sb = 511 \<and>
     xTriggerLevelBytes sb = 1 \<and> xTaskWaitingToReceive sb = w \<and> xTaskWaitingToSend sb = None"

definition gateway_idle :: "task \<Rightarrow> task \<Rightarrow> task \<Rightarrow> gateway \<Rightarrow> bool" where
  "gateway_idle c r s g \<longleftrightarrow>
     hCommandCustomerTask (app g) = Some c \<and> hRPCTask (app g) = Some r \<and> hSendDataTask (app g) = Some s \<and>
     payload_ok (app g) \<and> kernel_idle c r s (kern (app g)) \<and> length (rx_buf g) = 512 \<and>
     (\<exists>sb. rxStream g = Some sb \<and> stream_waiting (Some c) [] sb)"

lemma stream_waiting_frame:
  assumes "stream_waiting w xs sb"
  shows "stream_waiting w' xs (sb\<lparr>xTaskWaitingToReceive := w'\<rparr>)"
  using assms by (simp add: stream_waiting_def stream_inv_def sb_inv_def sb_len_def sb_bytes_def sb_count_def
      sb_capacity_def is_message_buffer_def)

lemma stream_waiting_count:
  "stream_waiting w xs sb \<Longrightarrow> unat (prvBytesInBuffer sb) = length xs"
  "stream_waiting w xs sb \<Longrightarrow> message_length_bytes sb = 0"
  using prvBytesInBuffer_count [of sb] length_sb_bytes [of sb]
  by (auto simp: stream_waiting_def stream_inv_def message_length_bytes_def)

text \<open>The command task from the processor to the wait on an empty stream.\<close>

lemma command_waits:
  assumes st: "steady_kernel c r s (kern (app g))" and sb: "rxStream g = Some sb" "stream_waiting None [] sb"
  shows "\<exists>g1 g2 sb1 k. command_loop preempt (Suc fuel) g = Inr g1 \<and> gateway_pendsv g1 = Inr g2 \<and>
    g2 = g\<lparr>rxStream := Some sb1, app := (app g)\<lparr>kern := k\<rparr>\<rparr> \<and> kernel_idle c r s k \<and>
    stream_waiting (Some c) [] sb1"
proof -
  let ?k = "kern (app g)"
  have cur: "pxCurrentTCB ?k = Some c" using st by (simp add: steady_kernel_def)
  have "unat (prvBytesInBuffer sb) = 0" using stream_waiting_count(1) [OF sb(2)] by simp
  then have n: "prvBytesInBuffer sb = 0" by (simp add: unat_eq_0)
  have m: "message_length_bytes sb = 0" using stream_waiting_count(2) [OF sb(2)] .
  define k1 where "k1 = (if ucNotifyState (tcbs ?k c) = taskNOTIFICATION_RECEIVED
      then upd_tcb c (\<lambda>c. c\<lparr>ucNotifyState := taskNOT_WAITING_NOTIFICATION\<rparr>) ?k else ?k)"
  have clear: "xTaskNotifyStateClear None ?k = Inr (ucNotifyState (tcbs ?k c) = taskNOTIFICATION_RECEIVED, k1)"
    using cur by (simp add: xTaskNotifyStateClear_def prvGetTCBFromHandle_def current_def k1_def)
  have s1: "steady_kernel c r s k1" using steady_upd [OF st] st by (simp add: k1_def)
  have n1: "ucNotifyState (tcbs k1 c) \<noteq> taskNOTIFICATION_RECEIVED" by (simp add: k1_def upd_tcb_def)
  let ?sb1 = "sb\<lparr>xTaskWaitingToReceive := Some c\<rparr>"
  have cur1: "pxCurrentTCB k1 = Some c" using s1 by (simp add: steady_kernel_def)
  have enter: "command_enter g = Inr (0, True, g\<lparr>rxStream := Some ?sb1, app := (app g)\<lparr>kern := k1\<rparr>\<rparr>)"
    using clear n m cur1 sb by (auto simp: command_enter_def xStreamBufferReceive_enter_def portMAX_DELAY_def
        stream_waiting_def)
  obtain k2 k3 where k: "xTaskNotifyWait_block 0 portMAX_DELAY k1 = Inr k2" "take_pendsv k2 = Inr k3"
      "kernel_idle c r s k3"
    using running_to_idle [OF s1 n1] by blast
  have "command_loop preempt (Suc fuel) g = Inr (g\<lparr>rxStream := Some ?sb1, app := (app g)\<lparr>kern := k2\<rparr>\<rparr>)"
    using enter k(1) by (simp add: command_block_def)
  moreover have "gateway_pendsv (g\<lparr>rxStream := Some ?sb1, app := (app g)\<lparr>kern := k2\<rparr>\<rparr>) =
      Inr (g\<lparr>rxStream := Some ?sb1, app := (app g)\<lparr>kern := k3\<rparr>\<rparr>)"
    using k(2) by (simp add: gateway_pendsv_def)
  ultimately show ?thesis using k(3) stream_waiting_frame [OF sb(2)] by blast
qed

lemma take_mem_put_front: "take (length xs) (mem_put mem 0 xs) = xs"
  by (simp add: mem_put_def)

text \<open>Receiving and parsing what is in the stream, up to 64 bytes.\<close>

lemma command_receives:
  assumes st: "steady c r s (app g)" and sb: "rxStream g = Some sb" "stream_waiting None bs sb"
    and bs: "0 < length bs" "length bs \<le> 64"
    and buf: "length (rx_buf g) = 512" "take (rx_len g) (rx_buf g) = ts0" "rx_len g + length bs \<le> 512"
    and input: "ts0 @ bs = concat (map item_bytes is) @ ts" "list_all item_ok is"
    and w: "waits ts (drop (rx_len g + length bs) (rx_buf g))"
  shows "\<exists>k sb1 buf1. command_receive (workers h) (prvBytesInBuffer sb) g =
      bindR (exec_items h is (app g)) (\<lambda>f1. Inr (g\<lparr>rxStream := Some sb1, rx_buf := buf1, rx_len := length ts,
        app := f1\<lparr>kern := k\<rparr>\<rparr>)) \<and>
    steady_kernel c r s k \<and> stream_waiting None [] sb1 \<and> length buf1 = 512 \<and> take (length ts) buf1 = ts"
proof -
  let ?k = "kern (app g)"
  have sk: "steady_kernel c r s ?k" using st by (simp add: steady_def)
  have inv: "stream_inv sb" using sb(2) by (simp add: stream_waiting_def)
  have u64: "unat (64 :: u32) = 64" by simp
  obtain sb1 where rd: "prvReadMessageFromBuffer 64 (prvBytesInBuffer sb) (message_length_bytes sb) sb =
        Inr (take (unat (64 :: u32)) (sb_bytes sb), sb1)" "stream_inv sb1"
      "sb_bytes sb1 = drop (unat (64 :: u32)) (sb_bytes sb)" and fr: "sb1 = sb\<lparr>xTail := xTail sb1\<rparr>"
    using read_message_law [OF inv, of 64] by blast
  have bytes: "sb_bytes sb = bs" using sb(2) by (simp add: stream_waiting_def)
  have w1: "stream_waiting None [] sb1"
  proof -
    have "sb_capacity sb1 = sb_capacity sb" "xTriggerLevelBytes sb1 = xTriggerLevelBytes sb"
      "xTaskWaitingToReceive sb1 = xTaskWaitingToReceive sb" "xTaskWaitingToSend sb1 = xTaskWaitingToSend sb"
      by (subst fr, simp add: sb_capacity_def sb_len_def)+
    then show ?thesis using sb(2) rd(2,3) bs(2) bytes by (simp add: stream_waiting_def)
  qed
  have n0: "message_length_bytes sb < prvBytesInBuffer sb"
    using stream_waiting_count [OF sb(2)] bs(1) by (simp add: word_less_nat_alt)
  have completed: "sbRECEIVE_COMPLETED sb1 ?k = Inr (sb1, ?k)"
    using receive_completed_idle [OF sk] w1 by (simp add: stream_waiting_def)
  have fin: "xStreamBufferReceive_finish (rxStream g) 64 (prvBytesInBuffer sb) ?k = Inr (bs, sb1, ?k)"
  proof -
    have "take (unat (64 :: u32)) (sb_bytes sb) = bs" using bs(2) bytes by simp
    then show ?thesis using n0 rd(1) completed bs(1) sb(1) by (simp add: xStreamBufferReceive_finish_def)
  qed
  let ?g = "g\<lparr>rxStream := Some sb1\<rparr>"
  have app: "(app g)\<lparr>kern := ?k\<rparr> = app g" by simp
  let ?buf = "mem_put (rx_buf g) (rx_len g) bs"
  have lts: "length ts0 = rx_len g" using buf by auto
  have shape: "?buf = concat (map item_bytes is) @ ts @ drop (rx_len g + length bs) (rx_buf g)"
    using buf(2) input(1) by (simp add: mem_put_def)
  have len: "rx_len g + length bs = length (concat (map item_bytes is)) + length ts"
    using arg_cong [OF input(1), of length] lts by simp
  obtain k where d: "deliver (workers h) is (app g) =
        bindR (exec_items h is (app g)) (\<lambda>f1. Inr (f1\<lparr>kern := k\<rparr>))" "steady_kernel c r s k"
    using deliver_executes [OF st input(2)] by blast
  let ?buf1 = "mem_put ?buf 0 ts"
  have parse: "parse_packet (workers h) ?buf (rx_len g + length bs) (app g) =
      bindR (exec_items h is (app g)) (\<lambda>f1. Inr (?buf1, length ts, f1\<lparr>kern := k\<rparr>))"
    unfolding shape len parse_packet_items [OF input(2) w [unfolded len], of "workers h" "app g"]
    by (simp only: d(1) bindR_assoc bindR.simps)
  have "command_body (workers h) bs ?g =
      bindR (exec_items h is (app g)) (\<lambda>f1. Inr (?g\<lparr>rx_buf := ?buf1, rx_len := length ts, app := f1\<lparr>kern := k\<rparr>\<rparr>))"
    using bs(1) buf(1,3) parse by (simp add: command_body_def bindR_assoc)
  then have "command_receive (workers h) (prvBytesInBuffer sb) g =
      bindR (exec_items h is (app g)) (\<lambda>f1. Inr (g\<lparr>rxStream := Some sb1, rx_buf := ?buf1, rx_len := length ts,
        app := f1\<lparr>kern := k\<rparr>\<rparr>))"
    using fin app by (simp add: command_receive_def)
  moreover have "length ?buf1 = 512" and "take (length ts) ?buf1 = ts"
  proof -
    have "length ?buf = 512" using buf by simp
    moreover have "length ts \<le> 512" using len buf(3) by simp
    ultimately show "length ?buf1 = 512" by (simp only: length_mem_put add_0)
  qed (rule take_mem_put_front)
  ultimately show ?thesis using d(2) w1 by blast
qed

section \<open>A burst\<close>

text \<open>The board after a handler, and the hardware's side of a burst of \<open>n\<close> bytes: the idle flag is up and
  the DMA counter has gone down by \<open>n\<close>.\<close>

definition rearmed :: "hw \<Rightarrow> periph \<Rightarrow> periph \<Rightarrow> board \<Rightarrow> board" where
  "rearmed h p chan b =
     set_bits (chan, CCR) 1 (wr (chan, CNDTR) UART_RX_BUF_SIZE (snd (vread h (chan, CNDTR)
       (clear_bits (chan, CCR) 1 (clear_idle h p (snd (vread h (p, SR) b)))))))"

definition burst :: "hw \<Rightarrow> periph \<Rightarrow> periph \<Rightarrow> nat \<Rightarrow> board \<Rightarrow> bool" where
  "burst h p chan n b \<longleftrightarrow> h (p, SR) (ticks b) AND push_bit 4 1 \<noteq> 0 \<and>
     h (chan, CNDTR) (ticks b + 3) = UART_RX_BUF_SIZE - of_nat n"

lemma forward_rx_wakes:
  assumes idle: "gateway_idle c r s g" and n: "0 < n" "n \<le> 256" "n \<le> length dma"
    and cnt: "h (chan, CNDTR) (ticks (brd (app g))) = UART_RX_BUF_SIZE - of_nat n"
  shows "\<exists>sb k1 k2. forward_rx h chan dma g = Inr (g\<lparr>rxStream := Some sb, app := (app g)\<lparr>kern := portYIELD k1,
      brd := set_bits (chan, CCR) 1 (wr (chan, CNDTR) UART_RX_BUF_SIZE
        (snd (vread h (chan, CNDTR) (clear_bits (chan, CCR) 1 (brd (app g))))))\<rparr>\<rparr>) \<and>
    take_pendsv (portYIELD k1) = Inr k2 \<and> steady_kernel c r s k2 \<and> stream_waiting None (take n dma) sb"
proof -
  obtain sb where sb: "rxStream g = Some sb" "stream_waiting (Some c) [] sb"
    using idle by (auto simp: gateway_idle_def)
  have ki: "kernel_idle c r s (kern (app g))" using idle by (simp add: gateway_idle_def)
  have u: "unat (of_nat n :: u16) = n" using n(2) by (intro unat_of_nat_small) simp
  have down: "(ucast (of_nat n :: u32) :: u16) = of_nat n"
  proof -
    have "unat (of_nat n :: u32) = n" using n(2) by (intro unat_of_nat_small) simp
    then have "unat (ucast (of_nat n :: u32) :: u16) = n" using n(2) unat_ucast_down(3) [of "of_nat n"] by simp
    then show ?thesis by (rule eq_of_nat_unat)
  qed
  have len: "(ucast (UART_RX_BUF_SIZE - fst (vread h (chan, CNDTR) (clear_bits (chan, CCR) 1 (brd (app g))))) :: u16) =
      of_nat n"
    using cnt down by (simp add: vread_def UART_RX_BUF_SIZE_def)
  have u32: "unat (ucast (of_nat n :: u16) :: u32) = n" using u by (simp only: unat_ucast_up)
  have pos16: "(0 :: u16) < of_nat n" using u n(1) by (simp only: word_less_nat_alt unat_0)
  have pos32: "(0 :: u32) < ucast (of_nat n :: u16)" using u32 n(1) by (simp only: word_less_nat_alt unat_0)
  have inv: "stream_inv sb" "xTriggerLevelBytes sb = 1" "sb_capacity sb = 511" "sb_count sb = 0"
    "sb_bytes sb = []" "xTaskWaitingToReceive sb = Some c"
    using sb(2) length_sb_bytes [of sb] by (auto simp: stream_waiting_def)
  obtain m sb1 where m: "unat m = min n 511" and sb1: "stream_inv sb1" "sb_bytes sb1 = take (unat m) dma"
      "xTriggerLevelBytes sb1 = 1" "sb_capacity sb1 = 511" "xTaskWaitingToSend sb1 = None"
      "xTaskWaitingToReceive sb1 = Some c"
      and send: "xStreamBufferSendFromISR (Some sb) dma (ucast (of_nat n :: u16)) False (kern (app g)) =
        (if 0 < m then bindR (sbSEND_COMPLETE_FROM_ISR sb1 False (kern (app g))) (\<lambda>(sb2, wo, k1). Inr (m, sb2, wo, k1))
         else Inr (m, sb1, False, kern (app g)))"
    using send_from_isr_law [OF inv(1) pos32, of dma False "kern (app g)"] inv n sb(2) u32
    by (auto simp: stream_waiting_def)
  have mn: "unat m = n" using m n(2) by simp
  then have m0: "0 < m" using n(1) by (simp only: word_less_nat_alt unat_0)
  obtain v k1 k2 where k: "xTaskGenericNotifyFromISR (Some c) 0 eNoAction False (kern (app g)) = Inr (True, v, True, k1)"
      "take_pendsv (portYIELD k1) = Inr k2" "steady_kernel c r s k2"
    using idle_to_running [OF ki, of False] by blast
  let ?sb = "sb1\<lparr>xTaskWaitingToReceive := None\<rparr>"
  have sent: "xStreamBufferSendFromISR (Some sb) dma (ucast (of_nat n :: u16)) False (kern (app g)) = Inr (m, ?sb, True, k1)"
    using send m0 sb1(6) k(1) by (simp add: sbSEND_COMPLETE_FROM_ISR_def notify_waiting_isr_def)
  have "stream_waiting (Some c) (take n dma) sb1" using sb1 mn by (simp add: stream_waiting_def)
  then have w: "stream_waiting None (take n dma) ?sb" by (rule stream_waiting_frame)
  have "forward_rx h chan dma g = Inr (g\<lparr>rxStream := Some ?sb, app := (app g)\<lparr>kern := portYIELD k1,
      brd := set_bits (chan, CCR) 1 (wr (chan, CNDTR) UART_RX_BUF_SIZE
        (snd (vread h (chan, CNDTR) (clear_bits (chan, CCR) 1 (brd (app g))))))\<rparr>\<rparr>)"
    unfolding forward_rx_def Let_def case_prod_beta len using pos16 sent sb(1) by simp
  then show ?thesis using k(2,3) w by blast
qed

text \<open>The handlers of both ports.\<close>

definition uart_path :: "(hw \<Rightarrow> gateway \<Rightarrow> gateway res) \<Rightarrow> periph \<Rightarrow> periph \<Rightarrow> (gateway \<Rightarrow> u8 list) \<Rightarrow> bool" where
  "uart_path ev p chan dma \<longleftrightarrow>
     ev = uart1_event \<and> p = USART1 \<and> chan = DMA1_Channel5 \<and> dma = uart1_rx_dma_buf \<or>
     ev = uart2_event \<and> p = USART2 \<and> chan = DMA1_Channel6 \<and> dma = uart2_rx_dma_buf"

lemma uart_event_forward:
  assumes "uart_path ev p chan dma" and "burst h p chan n (brd (app g))"
  shows "ev h g = bindR (forward_rx h chan (dma g)
      (g\<lparr>app := (app g)\<lparr>brd := clear_idle h p (snd (vread h (p, SR) (brd (app g))))\<rparr>\<rparr>)) (after_isr h)"
  using assms by (auto simp: uart_path_def burst_def uart1_event_def uart2_event_def USART1_IRQHandler_def
      USART2_IRQHandler_def vread_def)

lemma burst_wakes:
  assumes path: "uart_path ev p chan dma" and idle: "gateway_idle c r s g"
    and hw: "burst h p chan n (brd (app g))" and n: "0 < n" "n \<le> 256" "n \<le> length (dma g)"
  shows "\<exists>sb k. ev h g = bindR (f_handleCommandTask (workers h) (g\<lparr>rxStream := Some sb,
      app := (app g)\<lparr>brd := rearmed h p chan (brd (app g)), kern := k\<rparr>\<rparr>)) gateway_pendsv \<and>
    steady_kernel c r s k \<and> stream_waiting None (take n (dma g)) sb"
proof -
  let ?b = "clear_idle h p (snd (vread h (p, SR) (brd (app g))))"
  let ?g = "g\<lparr>app := (app g)\<lparr>brd := ?b\<rparr>\<rparr>"
  have idle': "gateway_idle c r s ?g" using idle by (simp add: gateway_idle_def payload_ok_def)
  have t: "ticks ?b = ticks (brd (app g)) + 3" by (simp add: clear_idle_def vread_def)
  have cnt: "h (chan, CNDTR) (ticks (brd (app ?g))) = UART_RX_BUF_SIZE - of_nat n"
    using hw t by (simp add: burst_def)
  from forward_rx_wakes [where dma = "dma g" and h = h and chan = chan, OF idle' n cnt] obtain sb k1 k2 where
      f: "forward_rx h chan (dma g) ?g = Inr (?g\<lparr>rxStream := Some sb, app := (app ?g)\<lparr>kern := portYIELD k1,
        brd := rearmed h p chan (brd (app g))\<rparr>\<rparr>)"
      and k: "take_pendsv (portYIELD k1) = Inr k2" "steady_kernel c r s k2"
      and w: "stream_waiting None (take n (dma g)) sb"
    by (auto simp: rearmed_def)
  have cur: "pxCurrentTCB k2 = Some c" "hCommandCustomerTask (app g) = Some c"
    using k(2) idle by (simp_all add: steady_kernel_def gateway_idle_def)
  have rec: "(app ?g)\<lparr>kern := k2, brd := rearmed h p chan (brd (app g))\<rparr> =
      (app g)\<lparr>brd := rearmed h p chan (brd (app g)), kern := k2\<rparr>"
    by (cases "app g") simp
  have "after_isr h (?g\<lparr>rxStream := Some sb, app := (app ?g)\<lparr>kern := portYIELD k1, brd := rearmed h p chan (brd (app g))\<rparr>\<rparr>) =
      bindR (f_handleCommandTask (workers h) (g\<lparr>rxStream := Some sb,
        app := (app g)\<lparr>brd := rearmed h p chan (brd (app g)), kern := k2\<rparr>\<rparr>)) gateway_pendsv"
    using k(1) cur rec by (simp add: after_isr_def gateway_pendsv_def)
  then show ?thesis using uart_event_forward [OF path hw] f k(2) w by auto
qed

text \<open>C1: what a burst asks for is done, all of it, once and in order. An interrupt of either port finds the
  gateway idle with the beginning of a frame (or nothing) in the receive buffer; at most 64 bytes
  have come in and complete it to frames, noise and the beginning of a next frame. Then the
  interrupt, the switch to the command task, its parsing, the switches to the two workers and back
  and the return to the task that was interrupted execute the commands exactly as the sequential
  description \<open>exec_items\<close> does, keep the incomplete rest, and leave the gateway idle for the next
  burst. In particular no assertion fails and no memory outside an object is touched before the
  commands themselves fault.\<close>

theorem burst_executed:
  assumes path: "uart_path ev p chan dma" and idle: "gateway_idle c r s g"
    and hw: "burst h p chan n (brd (app g))" and n: "0 < n" "n \<le> 64" "n \<le> length (dma g)" "rx_len g + n \<le> 512"
    and input: "take (rx_len g) (rx_buf g) @ take n (dma g) = concat (map item_bytes is) @ ts" "list_all item_ok is"
    and w: "waits ts (drop (rx_len g + n) (rx_buf g))"
  shows "\<exists>sb buf k. ev h g = bindR (exec_items h is ((app g)\<lparr>brd := rearmed h p chan (brd (app g))\<rparr>)) (\<lambda>f1.
      Inr (g\<lparr>rxStream := sb, rx_buf := buf, rx_len := length ts, app := f1\<lparr>kern := k\<rparr>\<rparr>)) \<and>
    take (length ts) buf = ts \<and>
    (\<forall>f1. exec_items h is ((app g)\<lparr>brd := rearmed h p chan (brd (app g))\<rparr>) = Inr f1 \<longrightarrow>
      gateway_idle c r s (g\<lparr>rxStream := sb, rx_buf := buf, rx_len := length ts, app := f1\<lparr>kern := k\<rparr>\<rparr>))"
proof -
  let ?f = "(app g)\<lparr>brd := rearmed h p chan (brd (app g))\<rparr>" and ?bs = "take n (dma g)"
  have n256: "n \<le> 256" and lbs: "length ?bs = n" using n by simp_all
  obtain sb0 k0 where ev: "ev h g = bindR (f_handleCommandTask (workers h)
        (g\<lparr>rxStream := Some sb0, app := ?f\<lparr>kern := k0\<rparr>\<rparr>)) gateway_pendsv"
      and k0: "steady_kernel c r s k0" and sb0: "stream_waiting None ?bs sb0"
    using burst_wakes [OF path idle hw n(1) n256 n(3)] by auto
  define k1 where "k1 = upd_tcb c (\<lambda>x. x\<lparr>ulNotifiedValue := (if ucNotifyState (tcbs k0 c) = taskNOTIFICATION_RECEIVED
      then ulNotifiedValue x AND NOT 0 else ulNotifiedValue x), ucNotifyState := taskNOT_WAITING_NOTIFICATION\<rparr>) k0"
  have k1: "steady_kernel c r s k1" using steady_upd [OF k0] by (simp add: k1_def)
  let ?sb1 = "sb0\<lparr>xTaskWaitingToReceive := None\<rparr>"
  have sb1: "stream_waiting None ?bs ?sb1" using sb0 by (rule stream_waiting_frame)
  let ?g1 = "g\<lparr>rxStream := Some ?sb1, app := ?f\<lparr>kern := k1\<rparr>\<rparr>"
  have "pxCurrentTCB k0 = Some c" using k0 by (simp add: steady_kernel_def)
  then have wake: "command_wake (g\<lparr>rxStream := Some sb0, app := ?f\<lparr>kern := k0\<rparr>\<rparr>) = Inr (prvBytesInBuffer ?sb1, ?g1)"
    by (simp add: command_wake_def xStreamBufferReceive_leave_def xTaskNotifyWait_wake_def current_def Let_def k1_def)
  have st1: "steady c r s (app ?g1)"
    using idle k1 by (simp add: steady_def gateway_idle_def payload_ok_def)
  obtain k2 sb2 buf where rcv: "command_receive (workers h) (prvBytesInBuffer ?sb1) ?g1 =
        bindR (exec_items h is (app ?g1)) (\<lambda>f1. Inr (?g1\<lparr>rxStream := Some sb2, rx_buf := buf, rx_len := length ts,
          app := f1\<lparr>kern := k2\<rparr>\<rparr>))"
      and k2: "steady_kernel c r s k2" and sb2: "stream_waiting None [] sb2" and buf: "length buf = 512" "take (length ts) buf = ts"
    using command_receives [OF st1, of ?sb1 ?bs "take (rx_len g) (rx_buf g)" "is" ts h] sb1 n lbs idle input w
    by (auto simp: gateway_idle_def)
  have run: "f_handleCommandTask (workers h) (g\<lparr>rxStream := Some sb0, app := ?f\<lparr>kern := k0\<rparr>\<rparr>) =
      bindR (exec_items h is ?f) (\<lambda>f1. command_loop (workers h) 9 (g\<lparr>rxStream := Some sb2, rx_buf := buf,
        rx_len := length ts, app := f1\<lparr>kern := k2\<rparr>\<rparr>))"
    using wake rcv by (simp add: f_handleCommandTask_def exec_items_kern bindR_assoc)
  show ?thesis
  proof (cases "exec_items h is ?f")
    case (Inl e)
    then show ?thesis using ev run buf(2) by auto
  next
    case (Inr f1)
    let ?g2 = "g\<lparr>rxStream := Some sb2, rx_buf := buf, rx_len := length ts, app := f1\<lparr>kern := k2\<rparr>\<rparr>"
    obtain g3 sb3 k3 where l: "command_loop (workers h) 9 ?g2 = Inr g3"
        "gateway_pendsv g3 = Inr (?g2\<lparr>rxStream := Some sb3, app := (app ?g2)\<lparr>kern := k3\<rparr>\<rparr>)"
        and k3: "kernel_idle c r s k3" and sb3: "stream_waiting (Some c) [] sb3"
      using command_waits [of c r s ?g2 sb2 "workers h" 8] k2 sb2 by auto
    let ?g3 = "g\<lparr>rxStream := Some sb3, rx_buf := buf, rx_len := length ts, app := f1\<lparr>kern := k3\<rparr>\<rparr>"
    have "fw_frame ?f f1" using Inr by (rule exec_items_fw)
    then have "gateway_idle c r s ?g3"
      using idle k3 sb3 buf(1) by (auto simp: gateway_idle_def fw_frame_def payload_ok_def)
    moreover have "ev h g = Inr ?g3" using ev run Inr l by simp
    ultimately show ?thesis using Inr buf(2) by (intro exI [of _ "Some sb3"] exI [of _ buf] exI [of _ k3]) simp
  qed
qed

end
