(* ===== verification/StartupSpec.thy ===== *)
theory StartupSpec
  imports Startup GatewaySpec
begin

text \<open>
  The start of the system: \<open>main\<close> leads to the idle gateway of \<open>GatewaySpec\<close>, with every task in a known list.
\<close>

section \<open>While the tasks are created\<close>

definition ids_ok :: "ids \<Rightarrow> bool" where
  "ids_ok i \<longleftrightarrow> distinct [id_init i, id_adv i, id_cmd i, id_data i, id_rpc i, id_idle i, id_timer i]"

definition start_prio :: "ids \<Rightarrow> task \<Rightarrow> nat" where
  "start_prio i t = (if t = id_cmd i then 11 else 12)"

definition high_ids :: "ids \<Rightarrow> task set" where
  "high_ids i = {id_cmd i, id_data i, id_rpc i}"

definition low_ready_at :: "ids \<Rightarrow> nat \<Rightarrow> task list" where
  "low_ready_at i q = (if q = 2 then [id_timer i] else if q = 0 then [id_idle i] else [])"

text \<open>The lists a task can wait in: delayed, delayed behind the wrap-around, suspended, deleted; then how many are
  deleted, and the tick count.\<close>

definition parked :: "kernel \<Rightarrow> task list \<times> task list \<times> task list \<times> task list \<times> nat \<times> u32" where
  "parked k = (pxDelayedTaskList k, pxOverflowDelayedTaskList k, xSuspendedTaskList k, xTasksWaitingTermination k,
     uxDeletedTasksWaitingCleanUp k, xTickCount k)"

text \<open>\<open>B\<close>: the tasks above that exist already, each waits for a notification. \<open>L\<close>: the ready list of the priority of
  the initialisation task. \<open>D\<close>: the delayed tasks.\<close>

definition boot :: "ids \<Rightarrow> task list \<Rightarrow> task list \<Rightarrow> task list \<Rightarrow> kernel \<Rightarrow> bool" where
  "boot i B L D k \<longleftrightarrow>
     rings_ok k \<and> uxSchedulerSuspended k = 0 \<and> xSchedulerRunning k \<and> \<not> xYieldPending k \<and> \<not> pendsv k \<and>
     xPendingReadyList k = [] \<and> xPendedTicks k = 0 \<and> 5 \<le> uxTopReadyPriority k \<and>
     (\<forall>q<5. ready_at k q = low_ready_at i q) \<and> ready_at k 5 = L \<and> set L \<subseteq> {id_init i, id_adv i} \<and>
     prio k (id_init i) = 5 \<and> prio k (id_timer i) = 2 \<and> prio k (id_idle i) = 0 \<and>
     xEventContainer (tcbs k (id_init i)) = None \<and>
     (\<forall>t\<in>set B. ucNotifyState (tcbs k t) = taskWAITING_NOTIFICATION \<and> xEventContainer (tcbs k t) = None \<and>
        prio k t = start_prio i t) \<and>
     parked k = (D, [], B, [], 0, 0) \<and> set D \<subseteq> {id_adv i} \<and> (\<forall>t\<in>set D. wake_time k t = 5000)"

definition at_init :: "ids \<Rightarrow> kernel \<Rightarrow> bool" where
  "at_init i k \<longleftrightarrow> pxCurrentTCB k = Some (id_init i) \<and> (\<forall>q>5. ready_at k q = [])"

text \<open>Task \<open>t\<close> of high priority has the processor.\<close>

definition at_high :: "task \<Rightarrow> nat \<Rightarrow> kernel \<Rightarrow> bool" where
  "at_high t p k \<longleftrightarrow> pxCurrentTCB k = Some t \<and> prio k t = p \<and> ready_at k p = [t] \<and>
     (\<forall>q>5. q \<noteq> p \<longrightarrow> ready_at k q = []) \<and> ucNotifyState (tcbs k t) \<noteq> taskNOTIFICATION_RECEIVED \<and>
     xEventContainer (tcbs k t) = None \<and> p \<le> uxTopReadyPriority k"

lemma ids_distinct:
  assumes "ids_ok i"
  shows "id_init i \<notin> high_ids i" "id_adv i \<notin> high_ids i" "id_timer i \<notin> high_ids i" "id_idle i \<notin> high_ids i"
    "id_init i \<noteq> id_adv i" "id_init i \<noteq> id_timer i" "id_init i \<noteq> id_idle i" "id_adv i \<noteq> id_timer i" "id_adv i \<noteq> id_idle i"
    "id_cmd i \<noteq> id_data i" "id_cmd i \<noteq> id_rpc i" "id_data i \<noteq> id_rpc i"
  using assms by (auto simp: ids_ok_def high_ids_def)

lemma start_prio_bounds: "5 < start_prio i t" "start_prio i t < configMAX_PRIORITIES" "start_prio i t \<le> 12"
  by (simp_all add: start_prio_def configMAX_PRIORITIES_def)

lemma low_ready_ids: "t \<in> set (low_ready_at i q) \<Longrightarrow> t = id_timer i \<or> t = id_idle i"
  by (simp add: low_ready_at_def split: if_splits)

section \<open>What the calls do to the lists\<close>

lemma pendsv_parked: "take_pendsv k = Inr k' \<Longrightarrow> parked k' = parked k"
  by (auto simp: take_pendsv_def vTaskSwitchContext_def taskSELECT_HIGHEST_PRIORITY_TASK_def parked_def bindR_Inr_iff
      case_prod_beta Let_def split: if_splits)

lemma parked_simps [simp]: "parked (prvAddTaskToReadyList t k) = parked k" "parked (upd_tcb t f k) = parked k"
  "parked (portYIELD k) = parked k" "parked (k\<lparr>uxCurrentNumberOfTasks := n\<rparr>) = parked k"
  by (simp_all add: parked_def prvAddTaskToReadyList_def upd_tcb_def portYIELD_def Let_def)

lemma create_parked:
  assumes "xSchedulerRunning k" and "pxCurrentTCB k = Some c" and "xTaskCreateStatic t p k = Inr k1"
  shows "parked k1 = parked k"
proof -
  let ?k1 = "upd_tcb t (\<lambda>_. new_tcb p) k" and ?k2 = "(upd_tcb t (\<lambda>_. new_tcb p) k)\<lparr>uxCurrentNumberOfTasks := Suc (uxCurrentNumberOfTasks k)\<rparr>"
  have eq: "xTaskCreateStatic t p k = bindR (current (prvAddTaskToReadyList t ?k2)) (\<lambda>c.
      Inr (if prio (prvAddTaskToReadyList t ?k2) c < uxPriority (tcbs (prvAddTaskToReadyList t ?k2) t)
           then portYIELD (prvAddTaskToReadyList t ?k2) else prvAddTaskToReadyList t ?k2))"
    using assms(1,2) by (simp add: xTaskCreateStatic_def prvAddNewTaskToReadyList_def Let_def upd_tcb_def
        prvAddTaskToReadyList_def prio_def cong del: if_weak_cong)
  show ?thesis using assms(3) unfolding eq by (auto simp: bindR_Inr_iff split: if_splits)
qed

lemma wait_parked:
  assumes "pxCurrentTCB k = Some t" and "ucNotifyState (tcbs k t) \<noteq> taskNOTIFICATION_RECEIVED"
    and "xTaskNotifyWait_block 0 portMAX_DELAY k = Inr k1" and "parked k = (D, [], B, [], n, w)" and "t \<notin> set D" and "t \<notin> set B"
  shows "parked k1 = (D, [], B @ [t], [], n, w)"
  using assms by (auto simp: xTaskNotifyWait_block_def current_def portMAX_DELAY_def prvAddCurrentTaskToDelayedList_def
      remove_state_item_def upd_tcb_def parked_def portYIELD_def Let_def remove1_idem)

lemma delay_parked:
  assumes "pxCurrentTCB k = Some t" and "vTaskDelay_block 5000 k = Inr k1" and "parked k = ([], [], B, [], n, 0)" and "t \<notin> set B"
    and "uxSchedulerSuspended k = 0" and "xPendingReadyList k = []" and "xPendedTicks k = 0"
  shows "parked k1 = ([t], [], B, [], n, 0)" "wake_time k1 t = 5000"
proof -
  obtain k2 where k2: "prvAddCurrentTaskToDelayedList 5000 False (vTaskSuspendAll k) = Inr k2" "parked k2 = ([t], [], B, [], n, 0)"
      "wake_time k2 t = 5000" "xPendingReadyList k2 = []" "xPendedTicks k2 = 0" "uxSchedulerSuspended k2 = 1"
    using assms by (simp add: prvAddCurrentTaskToDelayedList_def current_def vTaskSuspendAll_def upd_tcb_def
        remove_state_item_def parked_def wake_time_def remove1_idem Let_def)
  define k3 where "k3 = k2\<lparr>uxSchedulerSuspended := 0\<rparr>"
  have "xTaskResumeAll k2 = Inr (True, portYIELD k3) \<or> xTaskResumeAll k2 = Inr (False, k3)"
    using k2(4-6) by (simp add: xTaskResumeAll_def Let_def k3_def)
  then have "k1 = portYIELD k3" using assms(2,5) k2(1) by (auto simp: vTaskDelay_block_def)
  then show "parked k1 = ([t], [], B, [], n, 0)" "wake_time k1 t = 5000"
    using k2(2,3) by (simp_all add: k3_def parked_def wake_time_def portYIELD_def)
qed

section \<open>A task of high priority starts and waits\<close>

lemma high_starts:
  assumes ids: "ids_ok i" and t: "t \<in> high_ids i" "t \<notin> set B" and b: "boot i B L D k" and a: "at_init i k"
  shows "\<exists>k1 k2. xTaskCreateStatic t (start_prio i t) k = Inr k1 \<and> take_pendsv k1 = Inr k2 \<and>
    boot i B L D k2 \<and> at_high t (start_prio i t) k2 \<and> ucNotifyState (tcbs k2 t) = taskNOT_WAITING_NOTIFICATION"
proof -
  let ?p = "start_prio i t"
  note p = start_prio_bounds [of i t] and d = ids_distinct [OF ids]
  have low: "ready_at k q = []" if "5 < q" for q using a that by (simp add: at_init_def)
  have ne: "t \<noteq> id_init i" "t \<noteq> id_adv i" "t \<noteq> id_timer i" "t \<noteq> id_idle i" using d(1-4) t(1) by auto
  have notin: "t \<notin> set (ready_at k q)" for q
  proof (cases "q < 5")
    case True
    then show ?thesis using b ne low_ready_ids [of t i q] by (auto simp: boot_def)
  next
    case False
    then show ?thesis using b ne low [of q] by (cases "q = 5") (auto simp: boot_def)
  qed
  obtain k1 where k1: "xTaskCreateStatic t ?p k = Inr (if prio k (id_init i) < ?p then portYIELD k1 else k1)"
      "rings_ok k1" "tcbs k1 = (tcbs k)(t := new_tcb ?p)" "ready_at k1 ?p = [t]"
      "\<And>q. q \<noteq> ?p \<Longrightarrow> ready_at k1 q = ready_at k q" "uxTopReadyPriority k1 = max ?p (uxTopReadyPriority k)"
      "xPendingReadyList k1 = []" "xPendedTicks k1 = 0" "xSchedulerRunning k1" "\<not> xYieldPending k1"
      "uxSchedulerSuspended k1 = 0"
    using create_task_ready [of k "id_init i" t ?p] b a ne p(2) notin low [OF p(1)]
    by (auto simp: boot_def at_init_def)
  have yes: "prio k (id_init i) < ?p" using b p(1) by (simp add: boot_def)
  have hi: "ready_at k1 q = []" if "?p < q" for q
    using k1(5) [of q] low [of q] that p(1) by simp
  obtain k2 where k2: "take_pendsv (portYIELD k1) = Inr k2" and s: "switched t ?p [] k1 k2"
    using yield_switches [of k1 ?p t "[]"] k1 hi by auto
  have c1: "xTaskCreateStatic t ?p k = Inr (portYIELD k1)" using k1(1) yes by simp
  have pk: "parked k2 = parked k"
    using pendsv_parked [OF k2] create_parked [OF _ _ c1] b a by (simp add: boot_def at_init_def)
  have pr: "prio k2 x = (if x = t then ?p else prio k x)" for x
    using s k1(3) p(2) by (simp add: prio_def switched_def new_tcb_def Let_def)
  have wt: "wake_time k2 x = wake_time k x" if "x \<noteq> t" for x using s k1(3) that by (simp add: wake_time_def switched_def)
  have rq: "ready_at k2 q = ready_at k q" if "q \<noteq> ?p" for q
    using s k1(5) that by (simp add: switched_def)
  have "boot i B L D k2"
    unfolding boot_def
  proof (intro conjI)
    show "\<forall>q<5. ready_at k2 q = low_ready_at i q" using b rq p(1) by (simp add: boot_def)
    show "\<forall>x\<in>set B. ucNotifyState (tcbs k2 x) = taskWAITING_NOTIFICATION \<and> xEventContainer (tcbs k2 x) = None \<and>
        prio k2 x = start_prio i x"
      using b t(2) s k1(3) pr by (auto simp: boot_def switched_def)
    show "\<forall>x\<in>set D. wake_time k2 x = 5000" using b wt ne by (auto simp: boot_def)
  qed (use b s k1 rq [of 5] p(1) pr ne pk in \<open>simp_all add: boot_def switched_def kernel_frame_def\<close>)
  moreover have "at_high t ?p k2"
    unfolding at_high_def
    using s rq low p pr k1(3) by (auto simp: switched_def new_tcb_def Let_def)
  moreover have "ucNotifyState (tcbs k2 t) = taskNOT_WAITING_NOTIFICATION"
    using s k1(3) by (simp add: switched_def new_tcb_def Let_def)
  ultimately show ?thesis using c1 k2 by blast
qed

lemma high_blocks:
  assumes ids: "ids_ok i" and t: "t \<in> high_ids i" "t \<notin> set B" and b: "boot i B (x # xs) D k" and a: "at_high t (start_prio i t) k"
  shows "\<exists>k1 k2. xTaskNotifyWait_block 0 portMAX_DELAY k = Inr k1 \<and> take_pendsv k1 = Inr k2 \<and>
    boot i (B @ [t]) (xs @ [x]) D k2 \<and> pxCurrentTCB k2 = Some x \<and> (\<forall>q>5. ready_at k2 q = [])"
proof -
  let ?p = "start_prio i t"
  note p = start_prio_bounds [of i t] and d = ids_distinct [OF ids]
  have ne: "t \<noteq> id_init i" "t \<noteq> id_adv i" "t \<noteq> id_timer i" "t \<noteq> id_idle i" using d(1-4) t(1) by auto
  have xs: "ready_at k 5 = x # xs" using b by (simp add: boot_def)
  have sub: "set (x # xs) \<subseteq> {id_init i, id_adv i}" using b by (simp add: boot_def)
  then have tn: "t \<notin> set (x # xs)" using ne by auto
  have up: "set (ready_at k q) \<subseteq> {t}" if "5 < q" for q using a that by (cases "q = ?p") (auto simp: at_high_def)
  obtain k1 k2 where k: "xTaskNotifyWait_block 0 portMAX_DELAY k = Inr k1" "take_pendsv k1 = Inr k2"
      and bl: "blocked_again t x 5 xs k k2"
    using wait_blocks [of k t 5 x xs, OF _ _ _ _ xs tn _ up] a b by (auto simp: at_high_def boot_def)
  have pr: "prio k2 = prio k" and wt: "wake_time k2 = wake_time k"
    using bl by (auto simp: fun_eq_iff prio_def wake_time_def blocked_again_def)
  have td: "t \<notin> set D" using b ne by (auto simp: boot_def)
  have pk: "parked k = (D, [], B, [], 0, 0)" using b by (simp add: boot_def)
  have cur: "pxCurrentTCB k = Some t" "ucNotifyState (tcbs k t) \<noteq> taskNOTIFICATION_RECEIVED" using a by (simp_all add: at_high_def)
  have pk2: "parked k2 = (D, [], B @ [t], [], 0, 0)"
    using wait_parked [OF cur k(1) pk td t(2)] pendsv_parked [OF k(2)] by simp
  have rq: "ready_at k2 q = low_ready_at i q" if "q < 5" for q
  proof -
    have "ready_at k q = low_ready_at i q" using b that by (simp add: boot_def)
    moreover have "t \<notin> set (low_ready_at i q)" using low_ready_ids [of t i q] ne by auto
    ultimately show ?thesis using bl that by (simp add: blocked_again_def remove1_idem)
  qed
  have "boot i (B @ [t]) (xs @ [x]) D k2"
    unfolding boot_def
  proof (intro conjI)
    show "\<forall>y\<in>set (B @ [t]). ucNotifyState (tcbs k2 y) = taskWAITING_NOTIFICATION \<and>
        xEventContainer (tcbs k2 y) = None \<and> prio k2 y = start_prio i y"
      using b a bl pr by (auto simp: boot_def at_high_def blocked_again_def)
    show "xEventContainer (tcbs k2 (id_init i)) = None" using b bl ne by (auto simp: boot_def blocked_again_def)
    show "\<forall>q<5. ready_at k2 q = low_ready_at i q" using rq by blast
    show "set (xs @ [x]) \<subseteq> {id_init i, id_adv i}" using sub by auto
  qed (use b bl pr wt pk2 in \<open>simp_all add: boot_def blocked_again_def kernel_frame_def\<close>)
  moreover have "ready_at k2 q = []" if "5 < q" for q
    using bl a that by (cases "q = ?p") (auto simp: blocked_again_def at_high_def)
  ultimately show ?thesis using k bl by (auto simp: blocked_again_def)
qed

text \<open>The advertisement task, ready behind the initialisation task, gets the processor and delays itself.\<close>

lemma adv_delays:
  assumes ids: "ids_ok i" and b: "boot i B [id_init i, id_adv i] [] k" and B: "set B \<subseteq> high_ids i" and c: "pxCurrentTCB k = Some (id_adv i)"
    and up: "\<And>q. 5 < q \<Longrightarrow> ready_at k q = []"
  shows "\<exists>k1 k2. vTaskDelay_block 5000 k = Inr k1 \<and> take_pendsv k1 = Inr k2 \<and> boot i B [id_init i] [id_adv i] k2 \<and> at_init i k2"
proof -
  let ?t = "id_adv i"
  note d = ids_distinct [OF ids]
  obtain k1 v where k1: "vTaskDelay_block 5000 k = Inr (portYIELD k1)" "rings_ok k1"
      "tcbs k1 = (tcbs k)(?t := (tcbs k ?t)\<lparr>xItemValue := v\<rparr>)" "\<And>q. ready_at k1 q = remove1 ?t (ready_at k q)"
      "kernel_frame k (k1\<lparr>pendsv := False\<rparr>)" "uxTopReadyPriority k1 = uxTopReadyPriority k"
    using delay_leaves [of k ?t 5000] b c by (auto simp: boot_def)
  have tB: "?t \<notin> set B" using B d(2) by auto
  have pk: "parked k = ([], [], B, [], 0, 0)" using b by (simp add: boot_def)
  have dp: "parked (portYIELD k1) = ([?t], [], B, [], 0, 0)" "wake_time (portYIELD k1) ?t = 5000"
    using delay_parked [OF c k1(1) pk tB] b by (simp_all add: boot_def)
  have r5: "ready_at k1 5 = [id_init i]" using k1(4) [of 5] b d(5) by (simp add: boot_def)
  have hi: "ready_at k1 q = []" if "5 < q" for q unfolding k1(4) up [OF that] by simp
  have sus: "uxSchedulerSuspended k1 = 0" "5 \<le> uxTopReadyPriority k1"
    using k1(5,6) b by (simp_all add: kernel_frame_def boot_def)
  obtain k2 where k2: "take_pendsv (portYIELD k1) = Inr k2" and s: "switched (id_init i) 5 [] k1 k2"
    using yield_switches [OF k1(2) sus(1) r5 sus(2) hi] by blast
  have t2: "tcbs k2 = (tcbs k)(?t := (tcbs k ?t)\<lparr>xItemValue := v\<rparr>)" using s k1(3) by (simp add: switched_def)
  have pr: "prio k2 = prio k" by (simp add: fun_eq_iff prio_def t2)
  have tc: "ucNotifyState (tcbs k2 x) = ucNotifyState (tcbs k x)" "xEventContainer (tcbs k2 x) = xEventContainer (tcbs k x)"
    for x by (simp_all add: t2)
  have wt: "wake_time k2 ?t = 5000" using dp(2) s by (simp add: wake_time_def switched_def portYIELD_def)
  have rq: "ready_at k2 q = low_ready_at i q" if "q < 5" for q
  proof -
    have "ready_at k q = low_ready_at i q" using b that by (simp add: boot_def)
    moreover have "?t \<notin> set (low_ready_at i q)" using low_ready_ids [of ?t i q] d(8,9) by auto
    ultimately show ?thesis using s k1(4) [of q] that by (simp add: switched_def remove1_idem)
  qed
  have pk2: "parked k2 = ([?t], [], B, [], 0, 0)" using pendsv_parked [OF k2] dp(1) by simp
  have "boot i B [id_init i] [?t] k2"
    unfolding boot_def
  proof (intro conjI)
    show "\<forall>q<5. ready_at k2 q = low_ready_at i q" using rq by blast
  qed (use b s k1(5,6) pr tc wt pk2 in \<open>simp_all add: boot_def switched_def kernel_frame_def\<close>)
  moreover have "at_init i k2" using s hi by (auto simp: at_init_def switched_def)
  ultimately show ?thesis using k1(1) k2 by blast
qed

section \<open>The tasks of the firmware\<close>

abbreviation with_kern :: "gateway \<Rightarrow> kernel \<Rightarrow> gateway" where
  "with_kern g k \<equiv> g\<lparr>app := (app g)\<lparr>kern := k\<rparr>\<rparr>"

lemma run_after_block:
  assumes ids: "ids_ok i" and sw: "take_pendsv k1 = Inr k2" and b: "boot i B L D k2" and B: "set B \<subseteq> high_ids i"
    and x: "x = id_init i \<and> L' = L \<and> D' = D \<or>
      x = id_adv i \<and> L = [id_init i, id_adv i] \<and> D = [] \<and> L' = [id_init i] \<and> D' = [id_adv i]"
    and c: "pxCurrentTCB k2 = Some x" and up: "\<And>q. 5 < q \<Longrightarrow> ready_at k2 q = []"
  shows "\<exists>k3. run_until_init h i (Suc (Suc n)) (with_kern g k1) = Inr (with_kern g k3) \<and> boot i B L' D' k3 \<and> at_init i k3"
  using x
proof
  assume x: "x = id_init i \<and> L' = L \<and> D' = D"
  then have "run_until_init h i (Suc (Suc n)) (with_kern g k1) = Inr (with_kern g k2)"
    using sw c by (simp add: gateway_pendsv_def)
  moreover have "at_init i k2" using x c up by (simp add: at_init_def)
  ultimately show ?thesis using b x by blast
next
  assume x: "x = id_adv i \<and> L = [id_init i, id_adv i] \<and> D = [] \<and> L' = [id_init i] \<and> D' = [id_adv i]"
  then have b': "boot i B [id_init i, id_adv i] [] k2" and c': "pxCurrentTCB k2 = Some (id_adv i)" using b c by simp_all
  obtain k3 k4 where k: "vTaskDelay_block 5000 k2 = Inr k3" "take_pendsv k3 = Inr k4"
      "boot i B [id_init i] [id_adv i] k4" "at_init i k4"
    using adv_delays [OF ids b' B c' up] by blast
  have ne: "id_adv i \<noteq> id_cmd i" "id_adv i \<noteq> id_data i" "id_adv i \<noteq> id_rpc i" "id_adv i \<noteq> id_init i"
    using ids by (auto simp: ids_ok_def)
  have "run_until_init h i (Suc (Suc n)) (with_kern g k1) = Inr (with_kern g k4)"
    using sw c' k ne
    by (simp add: gateway_pendsv_def f_sendPeriodAdvertiseTask_start_def on_kernel_def at_init_def)
  then show ?thesis using k x by blast
qed

text \<open>\<open>y\<close> gets the processor when the new task waits; it is the advertisement task once.\<close>

lemma create_worker:
  assumes ids: "ids_ok i" and t: "t = id_data i \<or> t = id_rpc i" "t \<notin> set B" and B: "set B \<subseteq> high_ids i"
    and b: "boot i B (y # ys) D (kern (app g))" and a: "at_init i (kern (app g))"
    and y: "y = id_init i \<and> L' = ys @ [y] \<and> D' = D \<or>
      y = id_adv i \<and> ys @ [y] = [id_init i, id_adv i] \<and> D = [] \<and> L' = [id_init i] \<and> D' = [id_adv i]"
  shows "\<exists>k. create_task h i t BKEL_TASK_PRI_REALTIME_2 g = Inr (with_kern g k) \<and>
    boot i (B @ [t]) L' D' k \<and> at_init i k"
proof -
  have th: "t \<in> high_ids i" and ne: "t \<noteq> id_init i" "t \<noteq> id_cmd i"
    using t(1) ids by (auto simp: high_ids_def ids_ok_def)
  have p: "start_prio i t = BKEL_TASK_PRI_REALTIME_2" using ne by (simp add: start_prio_def BKEL_TASK_PRI_REALTIME_2_def)
  obtain k1 k2 where k: "xTaskCreateStatic t (start_prio i t) (kern (app g)) = Inr k1" "take_pendsv k1 = Inr k2"
      "boot i B (y # ys) D k2" "at_high t (start_prio i t) k2"
    using high_starts [OF ids th t(2) b a] by blast
  obtain k3 k4 where w: "xTaskNotifyWait_block 0 portMAX_DELAY k2 = Inr k3" "take_pendsv k3 = Inr k4"
      "boot i (B @ [t]) (ys @ [y]) D k4" "pxCurrentTCB k4 = Some y" "\<forall>q>5. ready_at k4 q = []"
    using high_blocks [OF ids th t(2) k(3,4)] by blast
  have B': "set (B @ [t]) \<subseteq> high_ids i" using B th by simp
  obtain k5 where r: "run_until_init h i (Suc (Suc 1)) (with_kern g k3) = Inr (with_kern g k5)"
      "boot i (B @ [t]) L' D' k5" "at_init i k5"
    using run_after_block [OF ids w(2,3) B' y w(4)] w(5) by blast
  have cur: "pxCurrentTCB k2 = Some t" using k(4) by (simp add: at_high_def)
  have "run_until_init h i (Suc (Suc (Suc 1))) (with_kern g k1) =
      run_until_init h i (Suc (Suc 1)) (with_kern g k3)"
    by (subst run_until_init.simps(2)) (use k(2) cur ne t(1) w(1) in
      \<open>simp add: gateway_pendsv_def worker_start_def on_kernel_def del: run_until_init.simps\<close>)
  then have "create_task h i t BKEL_TASK_PRI_REALTIME_2 g = Inr (with_kern g k5)"
    using k(1) r(1) p by (simp add: create_task_def on_kernel_def numeral_eq_Suc del: run_until_init.simps)
  then show ?thesis using r(2,3) by blast
qed

text \<open>The command task finds the stream empty, enters its handle in it and waits.\<close>

lemma create_command:
  assumes ids: "ids_ok i" and b: "boot i [] (id_init i # ys) [] (kern (app g))" and a: "at_init i (kern (app g))"
    and sb: "rxStream g = Some sb" "stream_waiting None [] sb"
  shows "\<exists>k. create_task h i (id_cmd i) BKEL_TASK_PRI_REALTIME_1 g =
      Inr ((with_kern g k)\<lparr>rxStream := Some (sb\<lparr>xTaskWaitingToReceive := Some (id_cmd i)\<rparr>)\<rparr>) \<and>
    boot i [id_cmd i] (ys @ [id_init i]) [] k \<and> at_init i k"
proof -
  let ?t = "id_cmd i" and ?sb = "sb\<lparr>xTaskWaitingToReceive := Some (id_cmd i)\<rparr>"
  have th: "?t \<in> high_ids i" and ne: "?t \<noteq> id_init i" and tB: "?t \<notin> set []" using ids by (auto simp: high_ids_def ids_ok_def)
  have p: "start_prio i ?t = BKEL_TASK_PRI_REALTIME_1" by (simp add: start_prio_def BKEL_TASK_PRI_REALTIME_1_def)
  obtain k1 k2 where k: "xTaskCreateStatic ?t (start_prio i ?t) (kern (app g)) = Inr k1" "take_pendsv k1 = Inr k2"
      "boot i [] (id_init i # ys) [] k2" "at_high ?t (start_prio i ?t) k2" "ucNotifyState (tcbs k2 ?t) = taskNOT_WAITING_NOTIFICATION"
    using high_starts [OF ids th tB b a] by blast
  obtain k3 k4 where w: "xTaskNotifyWait_block 0 portMAX_DELAY k2 = Inr k3" "take_pendsv k3 = Inr k4"
      "boot i [?t] (ys @ [id_init i]) [] k4" "pxCurrentTCB k4 = Some (id_init i)" "\<forall>q>5. ready_at k4 q = []"
    using high_blocks [OF ids th tB k(3,4)] by auto
  have B': "set [?t] \<subseteq> high_ids i" using th by simp
  let ?g = "g\<lparr>rxStream := Some ?sb\<rparr>"
  obtain k5 where r: "run_until_init h i (Suc (Suc 1)) (with_kern ?g k3) = Inr (with_kern ?g k5)"
      "boot i [?t] (ys @ [id_init i]) [] k5" "at_init i k5"
    using run_after_block [OF ids w(2,3) B' _ w(4), where L' = "ys @ [id_init i]" and D' = "[]"] w(5) by blast
  have cur: "pxCurrentTCB k2 = Some ?t" using k(4) by (simp add: at_high_def)
  have "unat (prvBytesInBuffer sb) = 0" using stream_waiting_count(1) [OF sb(2)] by simp
  then have n: "prvBytesInBuffer sb = 0" by (simp add: unat_eq_0)
  have m: "message_length_bytes sb = 0" using stream_waiting_count(2) [OF sb(2)] .
  have clear: "xTaskNotifyStateClear None k2 = Inr (False, k2)"
    using cur k(5) by (simp add: xTaskNotifyStateClear_def prvGetTCBFromHandle_def current_def)
  have "command_enter (with_kern g k2) = Inr (0, True, with_kern ?g k2)"
    using clear n m cur sb
    by (simp add: command_enter_def xStreamBufferReceive_enter_def portMAX_DELAY_def stream_waiting_def)
  then have "command_loop (workers h) 9 (with_kern g k2) = Inr (with_kern ?g k3)"
    using w(1) by (simp add: numeral_eq_Suc command_block_def)
  then have "run_until_init h i (Suc (Suc (Suc 1))) (with_kern g k1) =
      run_until_init h i (Suc (Suc 1)) (with_kern ?g k3)"
    by (subst run_until_init.simps(2)) (use k(2) cur ne in
      \<open>simp add: gateway_pendsv_def del: run_until_init.simps command_loop.simps\<close>)
  then have "create_task h i ?t BKEL_TASK_PRI_REALTIME_1 g = Inr (with_kern ?g k5)"
    using k(1) r(1) p by (simp add: create_task_def on_kernel_def numeral_eq_Suc del: run_until_init.simps)
  then show ?thesis using r(2,3) by (intro exI [of _ k5]) simp
qed

section \<open>The start of the kernel\<close>

lemma ring_of_one: "ring_inv (vListInsertEnd t vListInitialise)" "ring_turn (vListInsertEnd t vListInitialise) = [t]"
  "ring_inv vListInitialise" "ring_turn vListInitialise = []"
  by (simp_all add: vListInitialise_def vListInsertEnd_def ring_inv_def ring_turn_def)

definition booted :: "ids \<Rightarrow> kernel" where
  "booted i = kernel_start\<lparr>
     tcbs := (\<lambda>_. new_tcb 0)(id_init i := new_tcb 5, id_idle i := new_tcb 0, id_timer i := new_tcb 2),
     pxCurrentTCB := Some (id_init i),
     pxReadyTasksLists := (\<lambda>_. vListInitialise)(5 := vListInsertEnd (id_init i) vListInitialise,
       0 := vListInsertEnd (id_idle i) vListInitialise, 2 := vListInsertEnd (id_timer i) vListInitialise),
     uxCurrentNumberOfTasks := 3, uxTopReadyPriority := 5, xNextTaskUnblockTime := portMAX_DELAY,
     xSchedulerRunning := True\<rparr>"

lemma kernel_boots:
  assumes "ids_ok i"
  shows "\<exists>k0. xTaskCreate (Some (id_init i)) BKEL_TASK_PRI_NORMAL_0 kernel_start = Inr (True, k0) \<and>
    vTaskStartScheduler (id_idle i) (id_timer i) k0 = Inr (booted i)"
  using assms
  by (simp add: xTaskCreate_def vTaskStartScheduler_def xTaskCreateStatic_def prvAddNewTaskToReadyList_def
      prvAddTaskToReadyList_def prvInitialiseTaskLists_def kernel_start_def BKEL_TASK_PRI_NORMAL_0_def
      configTIMER_TASK_PRIORITY_def upd_tcb_def prio_def new_tcb_def Let_def configMAX_PRIORITIES_def Let_def booted_def ids_ok_def)

lemma booted_ready:
  "ready_at (booted i) q = (if q = 5 then [id_init i] else if q = 2 then [id_timer i] else if q = 0 then [id_idle i] else [])"
  by (simp add: ready_at_def booted_def ring_of_one)

lemma booted_boot:
  assumes "ids_ok i"
  shows "boot i [] [id_init i] [] (booted i)" "at_init i (booted i)"
proof -
  have ne: "id_init i \<noteq> id_idle i" "id_init i \<noteq> id_timer i" "id_idle i \<noteq> id_timer i"
    using assms by (auto simp: ids_ok_def)
  have pr: "prio (booted i) (id_init i) = 5" "prio (booted i) (id_idle i) = 0" "prio (booted i) (id_timer i) = 2"
    using ne by (simp_all add: prio_def booted_def new_tcb_def Let_def configMAX_PRIORITIES_def)
  have "rings_ok (booted i)" by (simp add: rings_ok_def booted_def ring_of_one)
  moreover have "xEventContainer (tcbs (booted i) (id_init i)) = None" using ne by (simp add: booted_def new_tcb_def Let_def)
  moreover have "uxSchedulerSuspended (booted i) = 0 \<and> xSchedulerRunning (booted i) \<and> \<not> xYieldPending (booted i) \<and>
      \<not> pendsv (booted i) \<and> xPendingReadyList (booted i) = [] \<and> xPendedTicks (booted i) = 0 \<and>
      uxTopReadyPriority (booted i) = 5 \<and> parked (booted i) = ([], [], [], [], 0, 0)"
    by (simp add: booted_def kernel_start_def parked_def)
  ultimately show "boot i [] [id_init i] [] (booted i)" using pr by (simp add: boot_def booted_ready low_ready_at_def)
  show "at_init i (booted i)" by (simp add: at_init_def booted_ready) (simp add: booted_def)
qed

text \<open>The advertisement task has the priority of its creator and waits for its turn behind it.\<close>

lemma create_advertise:
  assumes ids: "ids_ok i" and g: "kern (app g) = booted i"
  shows "\<exists>k. create_task h i (id_adv i) BKEL_TASK_PRI_NORMAL_0 g = Inr (with_kern g k) \<and>
    boot i [] [id_init i, id_adv i] [] k \<and> at_init i k"
proof -
  let ?k = "booted i" and ?t = "id_adv i"
  note b = booted_boot(1) [OF ids] and a = booted_boot(2) [OF ids]
  have ne: "id_init i \<noteq> ?t" "id_idle i \<noteq> ?t" "id_timer i \<noteq> ?t" using ids by (auto simp: ids_ok_def)
  have new: "?t \<notin> set (ready_at ?k q)" for q using ne by (simp add: booted_ready)
  obtain k1 where k1: "xTaskCreateStatic ?t 5 ?k = Inr (if prio ?k (id_init i) < 5 then portYIELD k1 else k1)"
      "rings_ok k1" "tcbs k1 = (tcbs ?k)(?t := new_tcb 5)" "pxCurrentTCB k1 = Some (id_init i)"
      "\<And>q. q \<noteq> 5 \<Longrightarrow> ready_at k1 q = ready_at ?k q" "uxTopReadyPriority k1 = max 5 (uxTopReadyPriority ?k)"
      "xPendingReadyList k1 = xPendingReadyList ?k" "xPendedTicks k1 = xPendedTicks ?k" "xSchedulerRunning k1"
      "xYieldPending k1 = xYieldPending ?k" "pendsv k1 = pendsv ?k" "uxSchedulerSuspended k1 = uxSchedulerSuspended ?k"
    using create_task_ready [of ?k "id_init i" ?t 5] b a ne(1) new
    by (auto simp: boot_def at_init_def configMAX_PRIORITIES_def)
  have low: "\<not> prio ?k (id_init i) < 5" using b by (simp add: boot_def)
  then have c1: "xTaskCreateStatic ?t 5 ?k = Inr k1" using k1(1) by simp
  have ring: "pxReadyTasksLists k1 5 = vListInsertEnd ?t (pxReadyTasksLists ?k 5)"
    using c1 b a ne(1) by (auto simp: xTaskCreateStatic_def prvAddNewTaskToReadyList_def prvAddTaskToReadyList_def upd_tcb_def
        prio_def new_tcb_def boot_def at_init_def Let_def configMAX_PRIORITIES_def portYIELD_def current_def split: if_splits)
  have r5: "ready_at k1 5 = [id_init i, ?t]"
    by (simp add: ready_at_def ring) (simp add: booted_def vListInitialise_def vListInsertEnd_def ring_turn_def)
  have pk: "parked k1 = parked ?k"
    using create_parked [OF _ _ c1] b a by (simp add: boot_def at_init_def)
  have pr: "prio k1 x = (if x = ?t then 5 else prio ?k x)" for x
    by (simp add: prio_def k1(3) new_tcb_def Let_def configMAX_PRIORITIES_def)
  have "boot i [] [id_init i, ?t] [] k1"
    unfolding boot_def
  proof (intro conjI)
    show "\<forall>q<5. ready_at k1 q = low_ready_at i q" using b k1(5) by (simp add: boot_def)
    show "xEventContainer (tcbs k1 (id_init i)) = None" using b k1(3) ne(1) by (simp add: boot_def)
  qed (use b k1(2,6-12) pr ne r5 pk in \<open>simp_all add: boot_def\<close>)
  moreover have "at_init i k1" using a k1(4,5) by (simp add: at_init_def)
  moreover have "\<not> pendsv k1" using b k1(11) by (simp add: boot_def)
  then have "create_task h i ?t BKEL_TASK_PRI_NORMAL_0 g = Inr (with_kern g k1)"
    using c1 k1(4) g by (simp add: create_task_def on_kernel_def BKEL_TASK_PRI_NORMAL_0_def gateway_pendsv_def
        take_pendsv_def numeral_eq_Suc)
  ultimately show ?thesis by blast
qed

section \<open>The end of the initialisation task\<close>

text \<open>Where every task is when \<open>f_inittask\<close> has ended: the timer task has the processor, the idle task is ready,
  the advertisement task sleeps up to tick 5000, the command task and the workers wait without a time limit, and
  the control block of the initialisation task waits to be freed by the idle task.\<close>

definition startup_done :: "ids \<Rightarrow> kernel \<Rightarrow> bool" where
  "startup_done i k \<longleftrightarrow>
     pxCurrentTCB k = Some (id_timer i) \<and>
     (\<forall>q. ready_at k q = (if q = 2 then [id_timer i] else if q = 0 then [id_idle i] else [])) \<and>
     xSuspendedTaskList k = [id_cmd i, id_data i, id_rpc i] \<and>
     pxDelayedTaskList k = [id_adv i] \<and> wake_time k (id_adv i) = 5000 \<and> xTickCount k = 0 \<and>
     pxOverflowDelayedTaskList k = [] \<and>
     xTasksWaitingTermination k = [id_init i] \<and> uxDeletedTasksWaitingCleanUp k = 1"

lemma init_deleted:
  assumes ids: "ids_ok i" and b: "boot i [id_cmd i, id_data i, id_rpc i] [id_init i] [id_adv i] k" and a: "at_init i k"
  shows "\<exists>k1 k2. vTaskDelete None k = Inr k1 \<and> take_pendsv k1 = Inr k2 \<and>
    kernel_idle (id_cmd i) (id_rpc i) (id_data i) k2 \<and> startup_done i k2"
proof -
  let ?t = "id_init i"
  let ?k1 = "(remove_state_item ?t k)\<lparr>xTasksWaitingTermination :=
      xTasksWaitingTermination (remove_state_item ?t k) @ [?t],
      uxDeletedTasksWaitingCleanUp := Suc (uxDeletedTasksWaitingCleanUp k)\<rparr>"
  note d = ids_distinct [OF ids]
  have r: "rings_ok k" using b by (simp add: boot_def)
  have del: "vTaskDelete None k = Inr (portYIELD ?k1)"
    using a b by (simp add: vTaskDelete_def prvGetTCBFromHandle_def current_def at_init_def boot_def Let_def
        remove_state_item_def)
  have rd: "ready_at ?k1 q = (if q = 2 then [id_timer i] else if q = 0 then [id_idle i] else [])" for q
  proof -
    have "ready_at ?k1 q = remove1 ?t (ready_at k q)" using ready_at_remove [OF r, of ?t q] by (simp add: ready_at_def)
    moreover consider "q < 5" | "q = 5" | "5 < q" by linarith
    then have "remove1 ?t (ready_at k q) = low_ready_at i q"
    proof cases
      case 1
      moreover have "?t \<notin> set (low_ready_at i q)" using low_ready_ids [of ?t i q] d(6,7) by auto
      ultimately show ?thesis using b by (simp add: boot_def remove1_idem)
    qed (use a b in \<open>simp_all add: boot_def at_init_def low_ready_at_def\<close>)
    ultimately show ?thesis by (simp add: low_ready_at_def)
  qed
  have inv: "rings_ok ?k1" using rings_ok_remove [OF r, of ?t] by (simp add: rings_ok_def)
  have pk: "parked ?k1 = ([id_adv i], [], [id_cmd i, id_data i, id_rpc i], [?t], 1, 0)"
  proof -
    have "parked k = ([id_adv i], [], [id_cmd i, id_data i, id_rpc i], [], 0, 0)" using b by (simp add: boot_def)
    moreover have "?t \<noteq> id_cmd i" "?t \<noteq> id_data i" "?t \<noteq> id_rpc i" using d(1) by (auto simp: high_ids_def)
    ultimately show ?thesis using d(5) by (simp add: parked_def remove_state_item_def)
  qed
  have sus: "uxSchedulerSuspended ?k1 = 0" "2 \<le> uxTopReadyPriority ?k1" "ready_at ?k1 2 = [id_timer i]"
    using b rd by (simp_all add: boot_def remove_state_item_def)
  obtain k2 where k2: "take_pendsv (portYIELD ?k1) = Inr k2" and s: "switched (id_timer i) 2 [] ?k1 k2"
    using yield_switches [OF inv sus(1,3,2)] rd by auto
  have t2: "tcbs k2 = tcbs k" using s by (simp add: switched_def remove_state_item_def)
  then have pr: "prio k2 = prio k" by (simp add: fun_eq_iff prio_def)
  have rd2: "ready_at k2 q = (if q = 2 then [id_timer i] else if q = 0 then [id_idle i] else [])" for q
    using s rd by (cases "q = 2") (simp_all add: switched_def)
  have pl: "prio k2 (id_timer i) = 2" "prio k2 (id_idle i) = 0" using b pr by (simp_all add: boot_def)
  have "low_ready k2"
    unfolding low_ready_def rd2 using pl by (auto intro: exI [of _ 2])
  moreover have "\<exists>x. pxCurrentTCB k2 = Some x \<and> prio k2 x < 11" using s pl by (simp add: switched_def)
  moreover have "id_rpc i \<noteq> id_data i" "id_cmd i \<noteq> id_rpc i" "id_cmd i \<noteq> id_data i" using d by auto
  moreover have "\<forall>t\<in>{id_cmd i, id_rpc i, id_data i}. ucNotifyState (tcbs k2 t) = taskWAITING_NOTIFICATION \<and>
      xEventContainer (tcbs k2 t) = None \<and> prio k2 t = start_prio i t"
    using b t2 pr by (simp add: boot_def)
  moreover have "kernel_frame ?k1 k2" using s by (simp add: switched_def)
  then have "\<not> pendsv k2 \<and> \<not> xYieldPending k2 \<and> xPendingReadyList k2 = [] \<and> xPendedTicks k2 = 0 \<and>
      uxSchedulerSuspended k2 = 0"
    using b by (simp add: kernel_frame_def boot_def remove_state_item_def)
  moreover have "rings_ok k2" using s by (simp add: switched_def)
  ultimately have "kernel_idle (id_cmd i) (id_rpc i) (id_data i) k2"
    unfolding kernel_idle_def by (auto simp: start_prio_def rd2)
  moreover have "startup_done i k2"
    using s rd2 pendsv_parked [OF k2] pk b t2 by (simp add: startup_done_def switched_def parked_def portYIELD_def wake_time_def boot_def)
  ultimately show ?thesis using del k2 by blast
qed

section \<open>From main to the idle gateway\<close>

lemma taskinit_boots:
  assumes ids: "ids_ok i" and st: "length storage = 512" and k: "kern (app g) = booted i"
  shows "\<exists>k sb. rtos_taskinit h i storage g = Inr (g\<lparr>rxStream := Some sb, app := (app g)\<lparr>kern := k,
      hSendAdvertiseTask := Some (id_adv i), hCommandCustomerTask := Some (id_cmd i),
      hSendDataTask := Some (id_data i), hRPCTask := Some (id_rpc i)\<rparr>\<rparr>) \<and>
    boot i [id_cmd i, id_data i, id_rpc i] [id_init i] [id_adv i] k \<and> at_init i k \<and> stream_waiting (Some (id_cmd i)) [] sb"
proof -
  obtain sb where sb: "xStreamBufferGenericCreateStatic RX_STREAM_SIZE 1 False (Some storage) = Inr (Some sb)"
      "stream_waiting None [] sb"
    using create_static [of RX_STREAM_SIZE 1 storage] st by (auto simp: RX_STREAM_SIZE_def stream_waiting_def)
  let ?g0 = "g\<lparr>rxStream := Some sb\<rparr>" and ?sb = "sb\<lparr>xTaskWaitingToReceive := Some (id_cmd i)\<rparr>"
  obtain k1 where k1: "create_task h i (id_adv i) BKEL_TASK_PRI_NORMAL_0 ?g0 = Inr (with_kern ?g0 k1)"
      "boot i [] [id_init i, id_adv i] [] k1" "at_init i k1"
    using create_advertise [OF ids, of ?g0 h] k by auto
  let ?g1 = "(with_kern ?g0 k1)\<lparr>app := (app (with_kern ?g0 k1))\<lparr>hSendAdvertiseTask := Some (id_adv i)\<rparr>\<rparr>"
  obtain k2 where k2: "create_task h i (id_cmd i) BKEL_TASK_PRI_REALTIME_1 ?g1 = Inr ((with_kern ?g1 k2)\<lparr>rxStream := Some ?sb\<rparr>)"
      "boot i [id_cmd i] [id_adv i, id_init i] [] k2" "at_init i k2"
    using create_command [OF ids, of "[id_adv i]" ?g1 sb h] k1 sb(2) by auto
  let ?g2 = "(with_kern ?g1 k2)\<lparr>rxStream := Some ?sb, app := (app (with_kern ?g1 k2))\<lparr>hCommandCustomerTask := Some (id_cmd i)\<rparr>\<rparr>"
  have ne: "id_data i \<notin> set [id_cmd i]" "id_rpc i \<notin> set [id_cmd i, id_data i]" "set [id_cmd i] \<subseteq> high_ids i"
    "set [id_cmd i, id_data i] \<subseteq> high_ids i"
    using ids by (auto simp: ids_ok_def high_ids_def)
  obtain k3 where k3: "create_task h i (id_data i) BKEL_TASK_PRI_REALTIME_2 ?g2 = Inr (with_kern ?g2 k3)"
      "boot i [id_cmd i, id_data i] [id_init i] [id_adv i] k3" "at_init i k3"
    using create_worker [OF ids _ ne(1,3), of "id_adv i" "[id_init i]" "[]" ?g2 "[id_init i]" "[id_adv i]" h] k2 by auto
  let ?g3 = "(with_kern ?g2 k3)\<lparr>app := (app (with_kern ?g2 k3))\<lparr>hSendDataTask := Some (id_data i)\<rparr>\<rparr>"
  obtain k4 where k4: "create_task h i (id_rpc i) BKEL_TASK_PRI_REALTIME_2 ?g3 = Inr (with_kern ?g3 k4)"
      "boot i [id_cmd i, id_data i, id_rpc i] [id_init i] [id_adv i] k4" "at_init i k4"
    using create_worker [OF ids _ ne(2,4), of "id_init i" "[]" "[id_adv i]" ?g3 "[id_init i]" "[id_adv i]" h] k3 by auto
  have "stream_waiting (Some (id_cmd i)) [] ?sb" using sb(2) by (rule stream_waiting_frame)
  then show ?thesis using sb(1) k1(1) k2(1) k3(1) k4
    by (intro exI [of _ k4] exI [of _ ?sb]) (simp add: rtos_taskinit_def)
qed

lemma main_idle:
  assumes "ids_ok i" and "length storage = 512"
  shows "\<exists>g. main_tasks h i True storage (gateway_start b addr) = Inr g \<and>
    gateway_idle (id_cmd i) (id_rpc i) (id_data i) g \<and> rx_len g = 0 \<and>
    hSendAdvertiseTask (app g) = Some (id_adv i) \<and> brd (app g) = b \<and> startup_done i (kern (app g))"
proof -
  let ?g0 = "gateway_start b addr"
  have k0: "kern (app ?g0) = kernel_start" "payload_ok (app ?g0)"
    by (simp_all add: gateway_start_def fw_start_def payload_ok_def packet_zero_def)
  obtain k where k: "xTaskCreate (Some (id_init i)) BKEL_TASK_PRI_NORMAL_0 kernel_start = Inr (True, k)"
      "vTaskStartScheduler (id_idle i) (id_timer i) k = Inr (booted i)"
    using kernel_boots [OF assms(1)] by blast
  let ?g1 = "with_kern ?g0 (booted i)"
  obtain k1 sb where t: "rtos_taskinit h i storage ?g1 = Inr (?g1\<lparr>rxStream := Some sb, app := (app ?g1)\<lparr>kern := k1,
      hSendAdvertiseTask := Some (id_adv i), hCommandCustomerTask := Some (id_cmd i),
      hSendDataTask := Some (id_data i), hRPCTask := Some (id_rpc i)\<rparr>\<rparr>)"
      "boot i [id_cmd i, id_data i, id_rpc i] [id_init i] [id_adv i] k1" "at_init i k1" "stream_waiting (Some (id_cmd i)) [] sb"
    using taskinit_boots [OF assms, of ?g1 h] by auto
  obtain k2 k3 where d: "vTaskDelete None k1 = Inr k2" "take_pendsv k2 = Inr k3"
      "kernel_idle (id_cmd i) (id_rpc i) (id_data i) k3" "startup_done i k3"
    using init_deleted [OF assms(1) t(2,3)] by blast
  have cur: "pxCurrentTCB (booted i) = Some (id_init i)" by (simp add: booted_def)
  let ?g2 = "with_kern (?g1\<lparr>rxStream := Some sb, app := (app ?g1)\<lparr>kern := k1,
      hSendAdvertiseTask := Some (id_adv i), hCommandCustomerTask := Some (id_cmd i),
      hSendDataTask := Some (id_data i), hRPCTask := Some (id_rpc i)\<rparr>\<rparr>) k3"
  have "main_tasks h i True storage ?g0 = Inr ?g2"
    using k k0(1) t(1) d(1,2) cur
    by (simp add: main_tasks_def f_inittask_def on_kernel_def gateway_pendsv_def)
  moreover have "gateway_idle (id_cmd i) (id_rpc i) (id_data i) ?g2"
    using d(3) t(4) k0(2) by (simp add: gateway_idle_def payload_ok_def gateway_start_def)
  ultimately show ?thesis using d(4) by (intro exI [of _ ?g2]) (simp add: gateway_start_def fw_start_def)
qed

text \<open>C2: \<open>main\<close> always ends in the idle gateway. Whatever the hardware does, with the stream storage of
  512 bytes and room for the initialisation task on the heap, every assertion on the way holds, the four
  tasks exist and their handles are stored, the command task waits in the stream buffer and both
  workers wait for a notification, and the receive buffer is empty: the state in which a burst of frames
  is executed. Every task is in exactly one known place: the timer task has the processor and only the idle
  task is ready beside it, the command task and the workers are suspended in this order, the advertisement
  task sleeps up to tick 5000, and the initialisation task is in no ready list any more, deleted and waiting
  to be freed.\<close>

theorem startup_reaches_idle:
  assumes "ids_ok i" and "length storage = 512"
  shows "\<exists>g. main_tasks h i True storage (gateway_start b addr) = Inr g \<and>
    gateway_idle (id_cmd i) (id_rpc i) (id_data i) g \<and> rx_len g = 0 \<and>
    hSendAdvertiseTask (app g) = Some (id_adv i) \<and> brd (app g) = b \<and> startup_done i (kern (app g))"
  using assms by (rule main_idle)

definition ids_example :: ids where
  "ids_example = \<lparr>id_init = 1, id_adv = 2, id_cmd = 3, id_data = 4, id_rpc = 5, id_idle = 6, id_timer = 7\<rparr>"

definition board_zero :: board where
  "board_zero = \<lparr>regs = \<lambda>_. 0, ticks = 0, trace = []\<rparr>"

text \<open>The idle flag of port 1 is up and nine bytes have come in; the transmitters are ready.\<close>

definition hw_nine :: hw where
  "hw_nine r t = (if r = (USART1, SR) then 0x90 else if r = (DMA1_Channel5, CNDTR) then 247 else 0x80)"

theorem startup_reaches_idle_witness:
  "\<exists>g. main_tasks hw_nine ids_example True (replicate 512 0) (gateway_start board_zero 0x20000000) = Inr g \<and>
    gateway_idle (id_cmd ids_example) (id_rpc ids_example) (id_data ids_example) g \<and> rx_len g = 0 \<and>
    hSendAdvertiseTask (app g) = Some (id_adv ids_example) \<and> brd (app g) = board_zero \<and>
    startup_done ids_example (kern (app g))"
  by (rule startup_reaches_idle) (simp_all add: ids_ok_def ids_example_def)

lemma led_on_executes:
  assumes "payload_ok f"
  shows "\<exists>f1. exec_items h [Good 0x10 1 [1] cid] f = Inr f1 \<and> rd (GPIOA, BSRR) (brd f1) = push_bit 5 1"
proof -
  let ?p = "(parsed_packet f)\<lparr>p_sid := 0x10, p_type := 1, p_dlc := 1, p_cid := cid,
      p_payload := mem_put (p_payload (parsed_packet f)) 0 [1]\<rparr>"
  have "store_packet 0x10 1 [1] 1 cid (parsed_packet f) = Inr ?p"
    using assms by (simp add: store_packet_def payload_ok_def memcpy_to_def)
  moreover have "mem_put (p_payload (parsed_packet f)) 0 [1] ! 0 = 1"
    using assms by (simp add: payload_ok_def mem_put_def)
  ultimately show ?thesis
    by (simp add: exec_frame_def check_dlc_def sid_defs rpc_dispatch_def BKEL_RPC_LD2_Control_def opcode_defs
        BKEL_LD2_On_def BKEL_write_pin_def write_BSRR_def led_def)
qed

text \<open>The command that switches the LED on, from the wire to the register.\<close>

theorem burst_executed_witness:
  "\<exists>g g1. main_tasks hw_nine ids_example True (replicate 512 0) (gateway_start board_zero 0x20000000) = Inr g \<and>
    uart1_event hw_nine (g\<lparr>uart1_rx_dma_buf := frame 0x10 1 [1] 7 @ replicate 247 0\<rparr>) = Inr g1 \<and>
    rd (GPIOA, BSRR) (brd (app g1)) = push_bit 5 1 \<and> gateway_idle 3 5 4 g1 \<and> rx_len g1 = 0"
proof -
  obtain g where g: "main_tasks hw_nine ids_example True (replicate 512 0) (gateway_start board_zero 0x20000000) = Inr g"
      "gateway_idle 3 5 4 g" "rx_len g = 0" "brd (app g) = board_zero"
    using main_idle [where i = ids_example and storage = "replicate 512 0" and h = hw_nine and b = board_zero
      and addr = "0x20000000"]
    by (auto simp: ids_ok_def ids_example_def)
  let ?g = "g\<lparr>uart1_rx_dma_buf := frame 0x10 1 [1] 7 @ replicate 247 0\<rparr>" and ?is = "[Good 0x10 1 [1] 7]"
  let ?f = "(app ?g)\<lparr>brd := rearmed hw_nine USART1 DMA1_Channel5 (brd (app ?g))\<rparr>"
  have idle: "gateway_idle 3 5 4 ?g" using g(2) by (simp add: gateway_idle_def)
  have path: "uart_path uart1_event USART1 DMA1_Channel5 uart1_rx_dma_buf" by (simp add: uart_path_def)
  have hw: "burst hw_nine USART1 DMA1_Channel5 9 (brd (app ?g))"
    using g(4) by (simp add: burst_def hw_nine_def UART_RX_BUF_SIZE_def board_zero_def)
  have len: "length (frame 0x10 1 [1] 7) = 9" by simp
  have input: "take (rx_len ?g) (rx_buf ?g) @ take 9 (uart1_rx_dma_buf ?g) = concat (map item_bytes ?is) @ []"
    using g(3) len by simp
  obtain sb buf k where ev: "uart1_event hw_nine ?g = bindR (exec_items hw_nine ?is ?f) (\<lambda>f1.
        Inr (?g\<lparr>rxStream := sb, rx_buf := buf, rx_len := length [], app := f1\<lparr>kern := k\<rparr>\<rparr>))"
      "\<forall>f1. exec_items hw_nine ?is ?f = Inr f1 \<longrightarrow>
        gateway_idle 3 5 4 (?g\<lparr>rxStream := sb, rx_buf := buf, rx_len := length [], app := f1\<lparr>kern := k\<rparr>\<rparr>)"
    using burst_executed [OF path idle hw _ _ _ _ input] g(3) len by (auto simp: waits_def)
  have "payload_ok ?f" using g(2) by (simp add: gateway_idle_def payload_ok_def)
  then obtain f1 where "exec_items hw_nine ?is ?f = Inr f1" "rd (GPIOA, BSRR) (brd f1) = push_bit 5 1"
    using led_on_executes [of ?f] by blast
  then show ?thesis using ev g(1)
    by (intro exI [of _ g] exI [of _ "?g\<lparr>rxStream := sb, rx_buf := buf, rx_len := 0, app := f1\<lparr>kern := k\<rparr>\<rparr>"])
      (simp del: exec_items.simps)
qed

end
