(* ===== verification/SysinitSpec.thy ===== *)
theory SysinitSpec
  imports Sysinit StartupSpec
begin

text \<open>
  What the initialisation leaves behind, and that its eight functions do not undo each other.
\<close>

section \<open>Pins and clocks\<close>

definition pin_mode :: "board \<Rightarrow> periph \<Rightarrow> nat \<Rightarrow> u32" where
  "pin_mode b port n = take_bit 4 (drop_bit (4 * (n mod 8)) (rd (port, if n < 8 then CRL else CRH) b))"

lemma take_bit_4_and [simp]: "take_bit 4 w AND 15 = take_bit 4 (w :: u32)"
  by (simp add: take_bit_eq_mask mask_numeral)

definition pin_table :: "(periph \<times> nat \<times> u32) list" where
  "pin_table = [(GPIOA, 0, 0xB), (GPIOA, 2, 0xB), (GPIOA, 3, 0x4), (GPIOA, 5, 0x1), (GPIOA, 6, 0x4),
     (GPIOA, 9, 0xB), (GPIOA, 10, 0x4), (GPIOB, 12, 0xB), (GPIOB, 13, 0xB), (GPIOB, 14, 0x4), (GPIOB, 15, 0xB),
     (GPIOC, 0, 0x8), (GPIOC, 1, 0x1), (GPIOC, 4, 0x0), (GPIOC, 5, 0x0), (GPIOC, 13, 0x8)]"

lemmas init_defs = BKEL_GPIO_Init_def BKEL_USART1_DMA_Init_def BKEL_USART2_DMA_Init_def BKEL_PWM_Init_def
  BKEL_SPI_Init_def set_pin_def nvic_setup_def Let_def

lemma wait_bits_fun:
  assumes "hw_shows h r msk val"
  shows "\<exists>t. \<forall>x. wait_bits h r msk val x = Some (wr r ((rd r x AND NOT msk) OR val) (x\<lparr>ticks := t x\<rparr>))"
  by (rule choice) (use wait_bits_live [OF assms] in blast)

lemma trace_ticks [simp]: "trace (b\<lparr>ticks := t\<rparr>) = trace b"
  by simp

text \<open>The board when the last wait of \<open>BKEL_ADC1_DMA_Init\<close> is over, with the reads done until then.\<close>

lemma adc_init_live:
  assumes "hw_shows h (ADC1, CR2) (push_bit 3 1) 0" and "hw_shows h (ADC1, CR2) (push_bit 2 1) 0"
  shows "\<exists>b1. BKEL_ADC1_DMA_Init h lk b = Inr b1 \<and>
    (\<forall>p r. p \<notin> {RCC, GPIOC, DMA1, DMA1_Channel1, ADC1} \<longrightarrow> rd (p, r) b1 = rd (p, r) b) \<and>
    (\<forall>n\<in>{0, 1, 13}. pin_mode b1 GPIOC n = pin_mode b GPIOC n) \<and> pin_mode b1 GPIOC 4 = 0 \<and>
    pin_mode b1 GPIOC 5 = 0 \<and>
    rd (RCC, APB2ENR) b1 = rd (RCC, APB2ENR) b OR 0x210 \<and> rd (RCC, AHBENR) b1 = rd (RCC, AHBENR) b OR 1 \<and>
    rd (RCC, APB1ENR) b1 = rd (RCC, APB1ENR) b \<and>
    rd (DMA1_Channel1, CPAR) b1 = 0x4001244C \<and> rd (DMA1_Channel1, CMAR) b1 = adc_dma_buf_addr lk \<and>
    rd (DMA1_Channel1, CNDTR) b1 = 4 \<and> rd (DMA1_Channel1, CCR) b1 = 0x5A7 \<and>
    rd (ADC1, SQR3) b1 = 0x1EE \<and> rd (ADC1, CR2) b1 = 0x400103 \<and> rd (ADC1, CR1) b1 = 0x100 \<and>
    take_bit 6 (drop_bit 12 (rd (ADC1, SMPR1) b1)) = 0x3F \<and> take_bit 4 (drop_bit 20 (rd (ADC1, SQR1) b1)) = 1 \<and>
    rd (RCC, CFGR) b1 = (rd (RCC, CFGR) b AND NOT 0xC000) OR 0x8000 \<and>
    trace b1 = trace b @ [Irq_clear_pending DMA1_Channel1_IRQn, Irq_priority DMA1_Channel1_IRQn 5,
      Irq_enable DMA1_Channel1_IRQn]"
proof -
  obtain t1 where 1: "\<And>x. wait_bits h (ADC1, CR2) (push_bit 3 1) 0 x =
      Some (wr (ADC1, CR2) ((rd (ADC1, CR2) x AND NOT (push_bit 3 1)) OR 0) (x\<lparr>ticks := t1 x\<rparr>))"
    using wait_bits_fun [OF assms(1)] by blast
  obtain t2 where 2: "\<And>x. wait_bits h (ADC1, CR2) (push_bit 2 1) 0 x =
      Some (wr (ADC1, CR2) ((rd (ADC1, CR2) x AND NOT (push_bit 2 1)) OR 0) (x\<lparr>ticks := t2 x\<rparr>))"
    using wait_bits_fun [OF assms(2)] by blast
  show ?thesis
    unfolding BKEL_ADC1_DMA_Init_def Let_def 1 2 returns_simps bindR.simps
    by (rule exI, rule conjI, rule refl) (simp add: nvic_setup_def pin_mode_def)
qed

lemma exI_pair: "f x = c \<Longrightarrow> P x \<Longrightarrow> \<exists>y. Inr (f x, x) = Inr (c, y) \<and> P y"
  by blast

lemma clk_init_live:
  assumes "hw_shows h (RCC, CR) (push_bit 17 1) (push_bit 17 1)" and "hw_shows h (RCC, CR) (push_bit 25 1) (push_bit 25 1)"
    and "hw_shows h (RCC, CFGR) (push_bit 2 3) (push_bit 2 2)" and "rd (RCC, CFGR) b = 0"
  shows "\<exists>b1. BKEL_CLK_Init h b = Inr (72000000, b1) \<and>
    (\<forall>p r. p \<notin> {RCC, FLASH} \<longrightarrow> rd (p, r) b1 = rd (p, r) b) \<and>
    (\<forall>r. r \<notin> {CR, CFGR} \<longrightarrow> rd (RCC, r) b1 = rd (RCC, r) b) \<and>
    rd (RCC, CFGR) b1 = 0x1D040A \<and> take_bit 3 (rd (FLASH, ACR) b1) = 2 \<and> trace b1 = trace b"
proof -
  obtain t1 where 1: "\<And>x. wait_bits h (RCC, CR) (push_bit 17 1) (push_bit 17 1) x =
      Some (wr (RCC, CR) ((rd (RCC, CR) x AND NOT (push_bit 17 1)) OR push_bit 17 1) (x\<lparr>ticks := t1 x\<rparr>))"
    using wait_bits_fun [OF assms(1)] by blast
  obtain t2 where 2: "\<And>x. wait_bits h (RCC, CR) (push_bit 25 1) (push_bit 25 1) x =
      Some (wr (RCC, CR) ((rd (RCC, CR) x AND NOT (push_bit 25 1)) OR push_bit 25 1) (x\<lparr>ticks := t2 x\<rparr>))"
    using wait_bits_fun [OF assms(2)] by blast
  obtain t3 where 3: "\<And>x. wait_bits h (RCC, CFGR) (push_bit 2 3) (push_bit 2 2) x =
      Some (wr (RCC, CFGR) ((rd (RCC, CFGR) x AND NOT (push_bit 2 3)) OR push_bit 2 2) (x\<lparr>ticks := t3 x\<rparr>))"
    using wait_bits_fun [OF assms(3)] by blast
  have clk: "SystemCoreClockUpdate x = 72000000" if "rd (RCC, CFGR) x = 0x1D040A" for x
    by (simp add: SystemCoreClockUpdate_def that HSE_VALUE_def AHBPrescTable_def)
  show ?thesis
    unfolding BKEL_CLK_Init_def Let_def 1 2 3 returns_simps bindR.simps
    by (rule exI_pair [where f = SystemCoreClockUpdate]) (simp_all add: clk assms(4))
qed

section \<open>The whole initialisation\<close>

text \<open>The hardware answers: oscillator, PLL and clock switch become ready, the calibration of the ADC
  ends.\<close>

definition clocks_live :: "hw \<Rightarrow> bool" where
  "clocks_live h \<longleftrightarrow>
     hw_shows h (RCC, CR) (push_bit 17 1) (push_bit 17 1) \<and> hw_shows h (RCC, CR) (push_bit 25 1) (push_bit 25 1) \<and>
     hw_shows h (RCC, CFGR) (push_bit 2 3) (push_bit 2 2) \<and>
     hw_shows h (ADC1, CR2) (push_bit 3 1) 0 \<and> hw_shows h (ADC1, CR2) (push_bit 2 1) 0"

text \<open>A serial port: receiver, transmitter, idle interrupt and port enabled, reception by DMA, circular,
  incrementing, from the data register at \<open>dr\<close> to the buffer at \<open>buf\<close> of 256 bytes.\<close>

definition serial_ready :: "board \<Rightarrow> periph \<Rightarrow> periph \<Rightarrow> u32 \<Rightarrow> u32 \<Rightarrow> bool" where
  "serial_ready b p chan dr buf \<longleftrightarrow>
     (\<forall>n\<in>{2, 3, 4, 13}. bit (rd (p, CR1) b) n) \<and> bit (rd (p, CR3) b) 6 \<and>
     rd (chan, CPAR) b = dr \<and> rd (chan, CMAR) b = buf \<and> rd (chan, CNDTR) b = 256 \<and> rd (chan, CCR) b = 0xA1"

lemma system_init_steps:
  assumes "clocks_live h" and "rd (RCC, CFGR) b = 0"
  shows "\<exists>b1 b3. let b0 = HAL_Init 8000000 b;
      b2 = BKEL_USART2_DMA_Init lk (BKEL_USART1_DMA_Init lk (BKEL_GPIO_Init b1)) in
    system_init h lk b = Inr (72000000, BKEL_SPI_Init (BKEL_PWM_Init b3)) \<and>
    BKEL_CLK_Init h b0 = Inr (72000000, b1) \<and> BKEL_ADC1_DMA_Init h lk b2 = Inr b3 \<and>
    (\<forall>p r. p \<notin> {RCC, FLASH} \<longrightarrow> rd (p, r) b1 = rd (p, r) b0) \<and> trace b1 = trace b0 \<and>
    (\<forall>p r. p \<notin> {RCC, GPIOC, DMA1, DMA1_Channel1, ADC1} \<longrightarrow> rd (p, r) b3 = rd (p, r) b2)"
proof -
  let ?b0 = "HAL_Init 8000000 b"
  have 0: "rd (RCC, CFGR) ?b0 = 0" using assms(2) by (simp add: HAL_Init_def HAL_MspInit_def Let_def)
  obtain b1 where b1: "BKEL_CLK_Init h ?b0 = Inr (72000000, b1)"
      "\<forall>p r. p \<notin> {RCC, FLASH} \<longrightarrow> rd (p, r) b1 = rd (p, r) ?b0" "trace b1 = trace ?b0"
    using clk_init_live [OF _ _ _ 0] assms(1) unfolding clocks_live_def by blast
  let ?b2 = "BKEL_USART2_DMA_Init lk (BKEL_USART1_DMA_Init lk (BKEL_GPIO_Init b1))"
  have live: "hw_shows h (ADC1, CR2) (push_bit 3 1) 0" "hw_shows h (ADC1, CR2) (push_bit 2 1) 0"
    using assms(1) by (simp_all only: clocks_live_def)
  obtain b3 where b3: "BKEL_ADC1_DMA_Init h lk ?b2 = Inr b3"
      "\<forall>p r. p \<notin> {RCC, GPIOC, DMA1, DMA1_Channel1, ADC1} \<longrightarrow> rd (p, r) b3 = rd (p, r) ?b2"
    using adc_init_live [OF live, of lk ?b2] by blast
  have "system_init h lk b = Inr (72000000, BKEL_SPI_Init (BKEL_PWM_Init b3))"
    using b1(1) b3(1) by (simp add: system_init_def)
  then show ?thesis unfolding Let_def using b1 b3 by blast
qed

section \<open>Interrupts\<close>

text \<open>\<open>P\<close>: the priorities set so far. An interrupt that calls the kernel must not be more urgent than
  \<open>configLIBRARY_MAX_SYSCALL_INTERRUPT_PRIORITY\<close>; a smaller number is more urgent.\<close>

definition configLIBRARY_MAX_SYSCALL_INTERRUPT_PRIORITY :: nat where
  "configLIBRARY_MAX_SYSCALL_INTERRUPT_PRIORITY = 5"

fun irqs_ok :: "(irqn \<Rightarrow> nat option) \<Rightarrow> event list \<Rightarrow> bool" where
  "irqs_ok P [] = True"
| "irqs_ok P (Irq_priority q p # es) = irqs_ok (P(q := Some p)) es"
| "irqs_ok P (Irq_enable q # es) =
     ((case P q of None \<Rightarrow> False | Some p \<Rightarrow> configLIBRARY_MAX_SYSCALL_INTERRUPT_PRIORITY \<le> p \<and> p < 16) \<and> irqs_ok P es)"
| "irqs_ok P (e # es) = irqs_ok P es"

text \<open>Every interrupt the initialisation enables has a priority by then, and one at which the handler
  may call the kernel: the receive handlers do. The interrupts enabled are those of the two ports and their DMA
  channels, of the ADC's DMA and of the button.\<close>

lemma init_irq_priorities:
  assumes "clocks_live h" and "rd (RCC, CFGR) b = 0"
  shows "\<exists>clk b' es. system_init h lk b = Inr (clk, b') \<and> trace b' = trace b @ es \<and> irqs_ok Map.empty es \<and>
    {q. Irq_enable q \<in> set es} = {EXTI15_10_IRQn, USART1_IRQn, DMA1_Channel5_IRQn, USART2_IRQn, DMA1_Channel6_IRQn,
      DMA1_Channel1_IRQn}"
proof -
  obtain b1 b3 where sys: "system_init h lk b = Inr (72000000, BKEL_SPI_Init (BKEL_PWM_Init b3))"
      and b1: "trace b1 = trace (HAL_Init 8000000 b)"
      and adc: "BKEL_ADC1_DMA_Init h lk (BKEL_USART2_DMA_Init lk (BKEL_USART1_DMA_Init lk (BKEL_GPIO_Init b1))) = Inr b3"
    using system_init_steps [OF assms, of lk] unfolding Let_def by blast
  have live: "hw_shows h (ADC1, CR2) (push_bit 3 1) 0" "hw_shows h (ADC1, CR2) (push_bit 2 1) 0"
    using assms(1) by (simp_all only: clocks_live_def)
  have t3: "trace b3 = trace (BKEL_USART2_DMA_Init lk (BKEL_USART1_DMA_Init lk (BKEL_GPIO_Init b1))) @
      [Irq_clear_pending DMA1_Channel1_IRQn, Irq_priority DMA1_Channel1_IRQn 5, Irq_enable DMA1_Channel1_IRQn]"
    using adc_init_live [OF live, of lk "BKEL_USART2_DMA_Init lk (BKEL_USART1_DMA_Init lk (BKEL_GPIO_Init b1))"] adc by auto
  show ?thesis unfolding sys
    by (intro exI conjI, rule refl)
      (auto simp: t3 b1 init_defs HAL_Init_def HAL_MspInit_def configLIBRARY_MAX_SYSCALL_INTERRUPT_PRIORITY_def)
qed

section \<open>What the drivers find\<close>

text \<open>The ADC: scan of the two channels 14 and 15 at the longest sampling time, powered, continuous, conversion
  started, and its DMA channel fills the four samples of \<open>buf\<close>, circular, with an interrupt at half and end.\<close>

definition adc_ready :: "board \<Rightarrow> u32 \<Rightarrow> bool" where
  "adc_ready b buf \<longleftrightarrow>
     rd (ADC1, CR1) b = push_bit 8 1 \<and> rd (ADC1, CR2) b = push_bit 22 1 OR push_bit 8 1 OR push_bit 1 1 OR 1 \<and>
     take_bit 6 (drop_bit 12 (rd (ADC1, SMPR1) b)) = 0x3F \<and> take_bit 4 (drop_bit 20 (rd (ADC1, SQR1) b)) = 1 \<and>
     rd (ADC1, SQR3) b = 14 OR push_bit 5 15 \<and>
     rd (DMA1_Channel1, CPAR) b = 0x4001244C \<and> rd (DMA1_Channel1, CMAR) b = buf \<and>
     rd (DMA1_Channel1, CNDTR) b = 4 \<and> rd (DMA1_Channel1, CCR) b = 0x5A7"

text \<open>PWM output: channel 1 of TIM2 in PWM mode 1 with preload, output enabled, registers loaded by an update, timer
  running at 1 MHz with 1000 counts and 500 of them high.\<close>

definition pwm_out_ready :: "board \<Rightarrow> bool" where
  "pwm_out_ready b \<longleftrightarrow>
     rd (TIM2, PSC) b = 71 \<and> rd (TIM2, ARR) b = 999 \<and> rd (TIM2, CCR1) b = 500 \<and>
     take_bit 3 (drop_bit 4 (rd (TIM2, CCMR1) b)) = 6 \<and> bit (rd (TIM2, CCMR1) b) 3 \<and> bit (rd (TIM2, CCER) b) 0 \<and>
     bit (rd (TIM2, EGR) b) 0 \<and> rd (TIM2, CR1) b = 1"

text \<open>PWM input: TIM3 runs, is reset by the rising edge and captures both edges of its first input.\<close>

definition pwm_in_ready :: "board \<Rightarrow> bool" where
  "pwm_in_ready b \<longleftrightarrow>
     rd (TIM3, PSC) b = 71 \<and> rd (TIM3, ARR) b = 0xFFFF \<and> rd (TIM3, CCMR1) b = 0x201 \<and>
     rd (TIM3, CCER) b = 0x31 \<and> rd (TIM3, SMCR) b = 0x54 \<and> rd (TIM3, CR1) b = 1"

text \<open>The button: a rising edge of pin 13 of port C interrupts.\<close>

definition button_ready :: "board \<Rightarrow> bool" where
  "button_ready b \<longleftrightarrow> take_bit 4 (drop_bit 4 (rd (AFIO, EXTICR3) b)) = 2 \<and> bit (rd (EXTI, IMR) b) 13 \<and> bit (rd (EXTI, RTSR) b) 13"

lemma clk_result:
  assumes "clocks_live h" and "rd (RCC, CFGR) b = 0" and "BKEL_CLK_Init h (HAL_Init 8000000 b) = Inr (clk, b1)"
  shows "rd (RCC, CFGR) b1 = 0x1D040A" "take_bit 3 (rd (FLASH, ACR) b1) = 2"
proof -
  have "rd (RCC, CFGR) (HAL_Init 8000000 b) = 0" using assms(2) by (simp add: HAL_Init_def HAL_MspInit_def Let_def)
  then show "rd (RCC, CFGR) b1 = 0x1D040A" "take_bit 3 (rd (FLASH, ACR) b1) = 2"
    using clk_init_live [of h "HAL_Init 8000000 b"] assms(1,3) unfolding clocks_live_def by auto
qed

text \<open>C39: the initialisation does what the drivers rely on, and none of its parts undoes another. When the
  hardware answers, it returns with a core clock of 72 MHz from the PLL (two wait states of the flash, the ADC
  at a sixth of it); every pin the firmware uses has its mode (push-pull alternate function for the outputs of
  the ports, PWM and SPI, floating input for theirs, pull for button and input, analogue for both ADC
  channels); the clocks of all peripherals run; both serial ports receive by DMA into their buffers of 256
  bytes, at 115200 baud exactly for port 1 and 36 MHz / 313 for port 2; the ADC is converting and its DMA fills
  its buffer; the PWM output is running in PWM mode with its output enabled, the PWM input is capturing, SPI is
  enabled as master, the button interrupts; and every interrupt is enabled behind a priority at which its
  handler may call the kernel.\<close>

theorem system_init_configures:
  assumes "clocks_live h" and "rd (RCC, CFGR) b = 0" and "\<And>r. rd (TIM3, r) b = 0"
  shows "\<exists>b' es. system_init h lk b = Inr (72000000, b') \<and>
    rd (RCC, CFGR) b' = 0x1D840A \<and> take_bit 3 (rd (FLASH, ACR) b') = 2 \<and>
    (\<forall>(port, n, m)\<in>set pin_table. pin_mode b' port n = m) \<and>
    (\<forall>n\<in>{0, 2, 3, 4, 9, 14}. bit (rd (RCC, APB2ENR) b') n) \<and>
    (\<forall>n\<in>{0, 1, 14, 17}. bit (rd (RCC, APB1ENR) b') n) \<and> bit (rd (RCC, AHBENR) b') 0 \<and>
    serial_ready b' USART1 DMA1_Channel5 0x40013804 (uart1_rx_dma_buf_addr lk) \<and>
    serial_ready b' USART2 DMA1_Channel6 0x40004404 (uart2_rx_dma_buf_addr lk) \<and>
    rd (USART1, BRR) b' * 115200 = 72000000 \<and> rd (USART2, BRR) b' = 313 \<and>
    adc_ready b' (adc_dma_buf_addr lk) \<and> pwm_out_ready b' \<and> pwm_in_ready b' \<and>
    rd (SPI2, CR1) b' = 0x344 \<and> button_ready b' \<and>
    trace b' = trace b @ es \<and> irqs_ok Map.empty es \<and>
    {q. Irq_enable q \<in> set es} = {EXTI15_10_IRQn, USART1_IRQn, DMA1_Channel5_IRQn, USART2_IRQn, DMA1_Channel6_IRQn,
      DMA1_Channel1_IRQn}"
proof -
  obtain b1 b3 where sys: "system_init h lk b = Inr (72000000, BKEL_SPI_Init (BKEL_PWM_Init b3))"
      and clk: "BKEL_CLK_Init h (HAL_Init 8000000 b) = Inr (72000000, b1)"
      and b1: "\<And>p r. p \<notin> {RCC, FLASH} \<Longrightarrow> rd (p, r) b1 = rd (p, r) (HAL_Init 8000000 b)"
      and adc: "BKEL_ADC1_DMA_Init h lk (BKEL_USART2_DMA_Init lk (BKEL_USART1_DMA_Init lk (BKEL_GPIO_Init b1))) = Inr b3"
    using system_init_steps [OF assms(1,2), of lk] unfolding Let_def by blast
  let ?b2 = "BKEL_USART2_DMA_Init lk (BKEL_USART1_DMA_Init lk (BKEL_GPIO_Init b1))"
  have live: "hw_shows h (ADC1, CR2) (push_bit 3 1) 0" "hw_shows h (ADC1, CR2) (push_bit 2 1) 0"
    using assms(1) by (simp_all only: clocks_live_def)
  have b3: "p \<notin> {RCC, GPIOC, DMA1, DMA1_Channel1, ADC1} \<Longrightarrow> rd (p, r) b3 = rd (p, r) ?b2"
      "n \<in> {0, 1, 13} \<Longrightarrow> pin_mode b3 GPIOC n = pin_mode ?b2 GPIOC n" "pin_mode b3 GPIOC 4 = 0"
      "pin_mode b3 GPIOC 5 = 0" "rd (RCC, APB2ENR) b3 = rd (RCC, APB2ENR) ?b2 OR 0x210"
      "rd (RCC, AHBENR) b3 = rd (RCC, AHBENR) ?b2 OR 1" "rd (RCC, APB1ENR) b3 = rd (RCC, APB1ENR) ?b2"
      "rd (RCC, CFGR) b3 = (rd (RCC, CFGR) ?b2 AND NOT 0xC000) OR 0x8000"
      and b3a: "rd (DMA1_Channel1, CPAR) b3 = 0x4001244C" "rd (DMA1_Channel1, CMAR) b3 = adc_dma_buf_addr lk"
      "rd (DMA1_Channel1, CNDTR) b3 = 4" "rd (DMA1_Channel1, CCR) b3 = 0x5A7" "rd (ADC1, SQR3) b3 = 0x1EE"
      "rd (ADC1, CR2) b3 = 0x400103" "rd (ADC1, CR1) b3 = 0x100"
      "take_bit 6 (drop_bit 12 (rd (ADC1, SMPR1) b3)) = 0x3F" "take_bit 4 (drop_bit 20 (rd (ADC1, SQR1) b3)) = 1" for p r n
    using adc_init_live [OF live, of lk ?b2] adc by auto
  let ?b4 = "BKEL_SPI_Init (BKEL_PWM_Init b3)"
  obtain es where es: "trace ?b4 = trace b @ es" "irqs_ok Map.empty es" "{q. Irq_enable q \<in> set es} = {EXTI15_10_IRQn,
      USART1_IRQn, DMA1_Channel5_IRQn, USART2_IRQn, DMA1_Channel6_IRQn, DMA1_Channel1_IRQn}"
    using init_irq_priorities [OF assms(1,2), of lk] sys by auto
  have t3: "rd (TIM3, r) b3 = 0" for r
    using b3(1) [of TIM3 r] b1 [of TIM3 r] assms(3) [of r]
    by (simp add: init_defs HAL_Init_def HAL_MspInit_def)
  have pins_a: "pin_mode ?b4 GPIOA 0 = 0xB" "pin_mode ?b4 GPIOA 6 = 4" "pin_mode ?b4 GPIOB 12 = 0xB"
      "pin_mode ?b4 GPIOB 13 = 0xB" "pin_mode ?b4 GPIOB 14 = 4" "pin_mode ?b4 GPIOB 15 = 0xB"
    by (simp_all add: pin_mode_def init_defs)
  have pins_b: "pin_mode ?b4 GPIOA n = pin_mode ?b2 GPIOA n" if "n \<in> {2, 3, 5, 9, 10}" for n
    using b3(1) [of GPIOA] that by (auto simp: pin_mode_def init_defs)
  have pins_c: "pin_mode ?b4 GPIOC n = pin_mode b3 GPIOC n" for n
    by (simp add: pin_mode_def init_defs)
  have pins_d: "pin_mode ?b2 GPIOA 2 = 0xB" "pin_mode ?b2 GPIOA 3 = 4" "pin_mode ?b2 GPIOA 5 = 1"
      "pin_mode ?b2 GPIOA 9 = 0xB" "pin_mode ?b2 GPIOA 10 = 4" "pin_mode ?b2 GPIOC 0 = 8"
      "pin_mode ?b2 GPIOC 1 = 1" "pin_mode ?b2 GPIOC 13 = 8"
    by (simp_all add: pin_mode_def init_defs)
  have pins: "\<forall>(port, n, m)\<in>set pin_table. pin_mode ?b4 port n = m"
    using pins_a pins_b pins_c pins_d b3(2-4) by (simp add: pin_table_def)
  have ser: "serial_ready ?b4 USART1 DMA1_Channel5 0x40013804 (uart1_rx_dma_buf_addr lk)"
      "serial_ready ?b4 USART2 DMA1_Channel6 0x40004404 (uart2_rx_dma_buf_addr lk)"
    using b3(1) by (simp_all add: serial_ready_def init_defs bit_simps)
  have a: "adc_ready ?b4 (adc_dma_buf_addr lk)" using b3a by (simp add: adc_ready_def init_defs)
  have out: "pwm_out_ready ?b4" by (simp add: pwm_out_ready_def init_defs bit_simps)
  have "in": "pwm_in_ready ?b4" using t3 by (simp add: pwm_in_ready_def init_defs)
  have but: "button_ready ?b4" using b3(1) by (simp add: button_ready_def init_defs bit_simps)
  have c: "rd (RCC, CFGR) ?b4 = 0x1D840A" "take_bit 3 (rd (FLASH, ACR) ?b4) = 2"
    using clk_result [OF assms(1,2) clk] b3(1,8) by (simp_all add: init_defs)
  have en: "\<forall>n\<in>{0, 2, 3, 4, 9, 14}. bit (rd (RCC, APB2ENR) ?b4) n" "\<forall>n\<in>{0, 1, 14, 17}. bit (rd (RCC, APB1ENR) ?b4) n"
      "bit (rd (RCC, AHBENR) ?b4) 0" "rd (USART1, BRR) ?b4 * 115200 = 72000000" "rd (USART2, BRR) ?b4 = 313"
      "rd (SPI2, CR1) ?b4 = 0x344"
    using b3 by (simp_all add: init_defs bit_simps)
  show ?thesis
    using pins ser sys a out "in" but c en es by blast
qed

text \<open>Hardware that is ready at once.\<close>

definition hw_ready :: hw where
  "hw_ready r t = (if r = (RCC, CR) then 0x2020000 else if r = (RCC, CFGR) then 8 else 0)"

lemma hw_ready_live: "clocks_live hw_ready"
  by (auto simp: clocks_live_def hw_shows_def hw_ready_def)

definition board_reset :: board where
  "board_reset = \<lparr>regs = \<lambda>_. 0, ticks = 0, trace = []\<rparr>"

definition linked_example :: linked where
  "linked_example = \<lparr>adc_dma_buf_addr = 0x20000100, uart1_rx_dma_buf_addr = 0x20000200, uart2_rx_dma_buf_addr = 0x20000300\<rparr>"

theorem system_init_configures_witness:
  "\<exists>b'. system_init hw_ready linked_example board_reset = Inr (72000000, b') \<and> pin_mode b' GPIOA 5 = 1 \<and>
    serial_ready b' USART1 DMA1_Channel5 0x40013804 0x20000200"
proof -
  have "rd r board_reset = 0" for r by (simp add: board_reset_def rd_def)
  from system_init_configures [OF hw_ready_live this this, of linked_example] show ?thesis
    by (fastforce simp: pin_table_def linked_example_def)
qed

section \<open>What the rest of the firmware finds\<close>

text \<open>The PWM output starts as the drivers report it: right after the initialisation the diagnosis
  reads back 1 kHz and a duty cycle of 50 percent.\<close>

lemma init_pwm_readback:
  assumes "clocks_live h" and "rd (RCC, CFGR) b = 0"
  shows "\<exists>clk b'. system_init h lk b = Inr (clk, b') \<and> BKEL_PWM_ReadPeriod b' = 1 \<and> BKEL_PWM_ReadDuty b' = 50"
proof -
  obtain b3 where sys: "system_init h lk b = Inr (72000000, BKEL_SPI_Init (BKEL_PWM_Init b3))"
    using system_init_steps [OF assms, of lk] unfolding Let_def by blast
  have "rd (TIM2, ARR) (BKEL_SPI_Init (BKEL_PWM_Init b3)) = 999" "rd (TIM2, CCR1) (BKEL_SPI_Init (BKEL_PWM_Init b3)) = 500"
    by (simp_all add: init_defs)
  then show ?thesis
    by (simp add: sys BKEL_PWM_ReadPeriod_def BKEL_PWM_ReadDuty_def)
qed

text \<open>C40: the initialisation enables the receive interrupts before the stream buffer exists. Bytes that
  arrive on either port between \<open>system_init\<close> and the creation of the stream in \<open>rtos_taskinit\<close> make
  the handler pass a null handle to \<open>xStreamBufferSendFromISR\<close>, whose assertion stops the system.\<close>

theorem interrupt_before_stream:
  assumes "uart_path ev p chan dma" and "rxStream g = None"
    and "burst h p chan n (brd (app g))" and "0 < n" and "n \<le> 256"
  shows "ev h g = Inl Assert_failed"
proof -
  let ?b = "clear_idle h p (snd (vread h (p, SR) (brd (app g))))"
  have t: "ticks ?b = ticks (brd (app g)) + 3" by (simp add: clear_idle_def vread_def)
  have "h (chan, CNDTR) (ticks ?b) = UART_RX_BUF_SIZE - of_nat n" using assms(3) t by (simp add: burst_def)
  then have "ucast (UART_RX_BUF_SIZE - fst (vread h (chan, CNDTR) (clear_bits (chan, CCR) 1 ?b))) =
      (ucast (of_nat n :: u32) :: u16)"
    by (simp add: vread_def)
  moreover have "(0 :: u16) < ucast (of_nat n :: u32)"
    using assms(4,5) ucast_of_nat_u16 [of n] by (simp only: word_less_nat_alt unat_0)
  ultimately have "forward_rx h chan (dma g) (g\<lparr>app := (app g)\<lparr>brd := ?b\<rparr>\<rparr>) = Inl Assert_failed"
    using assms(2) by (simp add: forward_rx_def case_prod_beta Let_def xStreamBufferSendFromISR_def)
  then show ?thesis by (simp add: uart_event_forward [OF assms(1,3)])
qed

theorem interrupt_before_stream_witness:
  "uart1_event hw_nine (gateway_start board_zero 0x20000000) = Inl Assert_failed"
  by (rule interrupt_before_stream [where p = USART1 and chan = DMA1_Channel5 and dma = uart1_rx_dma_buf and n = 9])
    (simp_all add: uart_path_def gateway_start_def fw_start_def burst_def hw_nine_def UART_RX_BUF_SIZE_def board_zero_def)

end
