(* ===== verification/KernelInv.thy ===== *)
theory KernelInv
  imports KernelSpec
begin

text \<open>
  The invariant of the scheduler's lists. A task is in at most one of them; a ready list holds tasks
  of its own priority; nothing is ready above \<open>uxTopReadyPriority\<close>; both lists of delayed tasks are in
  order of the wake-up times, those of the first after the current tick and not before
  \<open>xNextTaskUnblockTime\<close>, those of the second behind the next overflow of the tick count. Every kernel
  call of the model keeps it.
\<close>

section \<open>The invariant\<close>

definition waiting :: "kernel \<Rightarrow> task list" where
  "waiting k = pxDelayedTaskList k @ pxOverflowDelayedTaskList k @ xSuspendedTaskList k @ xTasksWaitingTermination k"

definition lists_inv :: "kernel \<Rightarrow> bool" where
  "lists_inv k \<longleftrightarrow>
     rings_ok k \<and> distinct (waiting k) \<and>
     (\<forall>p. \<forall>t\<in>set (ready_at k p). prio k t = p \<and> t \<notin> set (waiting k)) \<and>
     (\<forall>p. ready_at k p \<noteq> [] \<longrightarrow> p \<le> uxTopReadyPriority k)"

definition sorted_inv :: "kernel \<Rightarrow> bool" where
  "sorted_inv k \<longleftrightarrow>
     sorted (map (wake_time k) (pxDelayedTaskList k)) \<and> sorted (map (wake_time k) (pxOverflowDelayedTaskList k)) \<and>
     (\<forall>t\<in>set (pxDelayedTaskList k). xNextTaskUnblockTime k \<le> wake_time k t)"

definition time_inv :: "kernel \<Rightarrow> bool" where
  "time_inv k \<longleftrightarrow>
     sorted_inv k \<and> (\<forall>t\<in>set (pxDelayedTaskList k). xTickCount k < wake_time k t) \<and>
     (\<forall>t\<in>set (pxOverflowDelayedTaskList k). wake_time k t < xTickCount k)"

definition kernel_inv :: "kernel \<Rightarrow> bool" where
  "kernel_inv k \<longleftrightarrow> lists_inv k \<and> time_inv k"

definition is_ready :: "kernel \<Rightarrow> task \<Rightarrow> bool" where
  "is_ready k t \<longleftrightarrow> t \<in> set (ready_at k (prio k t))"

lemmas inv_defs = lists_inv_def sorted_inv_def time_inv_def kernel_inv_def

lemma lists_invD:
  assumes "lists_inv k"
  shows "rings_ok k" "distinct (waiting k)" "\<And>t p. t \<in> set (ready_at k p) \<Longrightarrow> prio k t = p"
    "\<And>t p. t \<in> set (ready_at k p) \<Longrightarrow> t \<notin> set (waiting k)" "\<And>p. ready_at k p \<noteq> [] \<Longrightarrow> p \<le> uxTopReadyPriority k"
  using assms by (auto simp: lists_inv_def)

lemma ready_iff: "lists_inv k \<Longrightarrow> t \<in> set (ready_at k p) \<longleftrightarrow> is_ready k t \<and> prio k t = p"
  by (auto simp: is_ready_def dest: lists_invD(3))

text \<open>The invariant looks at the lists, the priorities, the wake-up times and the tick only.\<close>

lemma lists_inv_cong:
  assumes "pxReadyTasksLists k' = pxReadyTasksLists k" "\<And>t. prio k' t = prio k t" "waiting k' = waiting k"
    "uxTopReadyPriority k' = uxTopReadyPriority k"
  shows "lists_inv k' = lists_inv k" "is_ready k' = is_ready k"
  using assms by (auto simp: lists_inv_def rings_ok_def ready_at_def is_ready_def fun_eq_iff)

lemma time_inv_cong:
  assumes "\<And>t. wake_time k' t = wake_time k t" "pxDelayedTaskList k' = pxDelayedTaskList k"
    "pxOverflowDelayedTaskList k' = pxOverflowDelayedTaskList k" "xTickCount k' = xTickCount k"
    "xNextTaskUnblockTime k' = xNextTaskUnblockTime k"
  shows "sorted_inv k' = sorted_inv k" "time_inv k' = time_inv k"
proof -
  have "wake_time k' = wake_time k" using assms(1) by blast
  then show "sorted_inv k' = sorted_inv k" "time_inv k' = time_inv k"
    using assms(2-) by (simp_all add: sorted_inv_def time_inv_def)
qed

section \<open>Moving one task\<close>

lemma in_set_remove1D: "x \<in> set (remove1 y xs) \<Longrightarrow> x \<in> set xs"
  using set_remove1_subset by fast

lemma waiting_remove: "distinct (waiting k) \<Longrightarrow> set (waiting (remove_state_item t k)) = set (waiting k) - {t}"
  by (auto simp: waiting_def remove_state_item_def)

lemma distinct_waiting_remove: "distinct (waiting k) \<Longrightarrow> distinct (waiting (remove_state_item t k))"
  by (auto simp: waiting_def remove_state_item_def dest: in_set_remove1D)

lemma remove_fields [simp]:
  "tcbs (remove_state_item t k) = tcbs k" "uxTopReadyPriority (remove_state_item t k) = uxTopReadyPriority k"
  "xTickCount (remove_state_item t k) = xTickCount k" "prio (remove_state_item t k) = prio k"
  "wake_time (remove_state_item t k) = wake_time k"
  "xNextTaskUnblockTime (remove_state_item t k) = xNextTaskUnblockTime k"
  "pxCurrentTCB (remove_state_item t k) = pxCurrentTCB k"
  by (simp_all add: remove_state_item_def prio_def wake_time_def fun_eq_iff)

lemma remove_lists_inv:
  assumes "lists_inv k"
  shows "lists_inv (remove_state_item t k)" "is_ready (remove_state_item t k) x \<longleftrightarrow> x \<noteq> t \<and> is_ready k x"
    "t \<notin> set (waiting (remove_state_item t k))"
proof -
  note k = lists_invD [OF assms]
  have d: "distinct (ready_at k p)" for p
    using k(1) ring.turn_distinct by (auto simp: rings_ok_def ready_at_def)
  have r: "set (ready_at (remove_state_item t k) p) = set (ready_at k p) - {t}" for p
    using ready_at_remove [OF k(1)] d by (simp add: set_remove1_eq)
  have "ready_at k p \<noteq> []" if "ready_at (remove_state_item t k) p \<noteq> []" for p
    using that r [of p] by fastforce
  then show "lists_inv (remove_state_item t k)"
    using k rings_ok_remove distinct_waiting_remove waiting_remove by (auto simp: lists_inv_def r)
  show "is_ready (remove_state_item t k) x \<longleftrightarrow> x \<noteq> t \<and> is_ready k x" by (auto simp: is_ready_def r)
  show "t \<notin> set (waiting (remove_state_item t k))" using waiting_remove [OF k(2)] by simp
qed

lemma sorted_map_remove1: "sorted (map f xs) \<Longrightarrow> sorted (map f (remove1 x xs))"
  by (induction xs) (auto dest: in_set_remove1D)

lemma remove_time_inv:
  "sorted_inv k \<Longrightarrow> sorted_inv (remove_state_item t k)" "time_inv k \<Longrightarrow> time_inv (remove_state_item t k)"
  by (auto simp: sorted_inv_def time_inv_def remove_state_item_def wake_time_def [abs_def]
      intro: sorted_map_remove1 dest: in_set_remove1D)

lemma add_ready_inv:
  assumes "lists_inv k" and "t \<notin> set (waiting k)" and "\<not> is_ready k t"
  shows "lists_inv (prvAddTaskToReadyList t k)" "is_ready (prvAddTaskToReadyList t k) x \<longleftrightarrow> x = t \<or> is_ready k x"
proof -
  note k = lists_invD [OF assms(1)]
  let ?k = "prvAddTaskToReadyList t k"
  have pr: "prio ?k = prio k" by (simp add: prvAddTaskToReadyList_def Let_def prio_def fun_eq_iff)
  have inv: "ring_inv (pxReadyTasksLists k q)" for q using k(1) by (simp add: rings_ok_def)
  have r: "set (ready_at ?k q) = (if q = prio k t then Set.insert t (set (ready_at k q)) else set (ready_at k q))" for q
    using ring.insert_turn [OF inv] by (simp add: prvAddTaskToReadyList_def Let_def ready_at_def)
  have "t \<notin> set (ready_at k (prio k t))" using assms(3) by (simp add: is_ready_def)
  then have "ring_inv (vListInsertEnd t (pxReadyTasksLists k (prio k t)))"
    using ring.insert_inv [OF inv] by (simp add: ready_at_def)
  then have "rings_ok ?k" using k(1) by (simp add: rings_ok_def prvAddTaskToReadyList_def Let_def)
  moreover have "waiting ?k = waiting k" by (simp add: waiting_def prvAddTaskToReadyList_def Let_def)
  moreover have "p \<le> uxTopReadyPriority ?k" if "ready_at ?k p \<noteq> []" for p
  proof -
    have "p = prio k t \<or> ready_at k p \<noteq> []" using that r [of p] by (cases "p = prio k t") auto
    then show ?thesis using k(5) [of p] by (auto simp: prvAddTaskToReadyList_def Let_def)
  qed
  ultimately show "lists_inv ?k" using k(2-4) assms(2) by (auto simp: lists_inv_def r pr)
  show "is_ready ?k x \<longleftrightarrow> x = t \<or> is_ready k x" by (auto simp: is_ready_def r pr)
qed

lemma add_ready_time [simp]:
  "sorted_inv (prvAddTaskToReadyList t k) = sorted_inv k" "time_inv (prvAddTaskToReadyList t k) = time_inv k"
  by (rule time_inv_cong; simp add: prvAddTaskToReadyList_def Let_def wake_time_def)+

text \<open>A task is made ready from wherever it was.\<close>

lemma move_ready:
  assumes "lists_inv k"
  shows "lists_inv (prvAddTaskToReadyList t (remove_state_item t k))"
    "is_ready (prvAddTaskToReadyList t (remove_state_item t k)) x \<longleftrightarrow> x = t \<or> is_ready k x"
  using add_ready_inv [OF remove_lists_inv(1,3) [OF assms], of t] remove_lists_inv(2) [OF assms] by auto

lemma move_ready_kernel_inv:
  "kernel_inv k \<Longrightarrow> kernel_inv (prvAddTaskToReadyList t (remove_state_item t k))"
  by (simp add: kernel_inv_def move_ready(1) remove_time_inv(2))

section \<open>Changes the invariant does not see\<close>

lemma upd_tcb_inv [simp]:
  assumes "\<And>c. uxPriority (f c) = uxPriority c" and "\<And>c. xItemValue (f c) = xItemValue c"
  shows "lists_inv (upd_tcb t f k) = lists_inv k" "sorted_inv (upd_tcb t f k) = sorted_inv k"
    "time_inv (upd_tcb t f k) = time_inv k" "kernel_inv (upd_tcb t f k) = kernel_inv k"
    "is_ready (upd_tcb t f k) = is_ready k" "wake_time (upd_tcb t f k) = wake_time k" "prio (upd_tcb t f k) = prio k"
proof -
  have p: "prio (upd_tcb t f k) x = prio k x" "wake_time (upd_tcb t f k) x = wake_time k x" for x
    using assms by (simp_all add: prio_def wake_time_def upd_tcb_def)
  have u: "pxReadyTasksLists (upd_tcb t f k) = pxReadyTasksLists k" "waiting (upd_tcb t f k) = waiting k"
    "uxTopReadyPriority (upd_tcb t f k) = uxTopReadyPriority k" "pxDelayedTaskList (upd_tcb t f k) = pxDelayedTaskList k"
    "pxOverflowDelayedTaskList (upd_tcb t f k) = pxOverflowDelayedTaskList k" "xTickCount (upd_tcb t f k) = xTickCount k"
    "xNextTaskUnblockTime (upd_tcb t f k) = xNextTaskUnblockTime k"
    by (simp_all add: upd_tcb_def waiting_def)
  show l: "lists_inv (upd_tcb t f k) = lists_inv k" and "is_ready (upd_tcb t f k) = is_ready k"
    using lists_inv_cong [OF u(1) p(1) u(2,3)] by blast+
  show "sorted_inv (upd_tcb t f k) = sorted_inv k" and t: "time_inv (upd_tcb t f k) = time_inv k"
    using time_inv_cong [OF p(2) u(4-7)] by blast+
  show "kernel_inv (upd_tcb t f k) = kernel_inv k" using l t by (simp add: kernel_inv_def)
  show "wake_time (upd_tcb t f k) = wake_time k" "prio (upd_tcb t f k) = prio k" using p by auto
qed

lemma field_inv [simp]:
  "kernel_inv (k\<lparr>pendsv := b\<rparr>) = kernel_inv k" "kernel_inv (k\<lparr>xYieldPending := b\<rparr>) = kernel_inv k"
  "kernel_inv (k\<lparr>uxSchedulerSuspended := n\<rparr>) = kernel_inv k" "kernel_inv (k\<lparr>xPendingReadyList := ts\<rparr>) = kernel_inv k" "kernel_inv (k\<lparr>xPendingReadyList := ts, xEventLists := es\<rparr>) = kernel_inv k"
  "kernel_inv (k\<lparr>pxCurrentTCB := c\<rparr>) = kernel_inv k" "kernel_inv (k\<lparr>xPendedTicks := v\<rparr>) = kernel_inv k"
  "kernel_inv (k\<lparr>uxCurrentNumberOfTasks := n\<rparr>) = kernel_inv k"
  "kernel_inv (k\<lparr>uxDeletedTasksWaitingCleanUp := n\<rparr>) = kernel_inv k"
  by (simp_all add: inv_defs rings_ok_def ready_at_def waiting_def prio_def wake_time_def [abs_def])

lemma field_lists_inv [simp]:
  "lists_inv (k\<lparr>pendsv := b\<rparr>) = lists_inv k" "lists_inv (k\<lparr>xYieldPending := b\<rparr>) = lists_inv k"
  "lists_inv (k\<lparr>uxSchedulerSuspended := n\<rparr>) = lists_inv k" "lists_inv (k\<lparr>xPendingReadyList := ts\<rparr>) = lists_inv k" "lists_inv (k\<lparr>xPendingReadyList := ts, xEventLists := es\<rparr>) = lists_inv k"
  "lists_inv (k\<lparr>pxCurrentTCB := c\<rparr>) = lists_inv k" "lists_inv (k\<lparr>xTickCount := v\<rparr>) = lists_inv k"
  "lists_inv (k\<lparr>xNextTaskUnblockTime := v\<rparr>) = lists_inv k" "lists_inv (k\<lparr>xNumOfOverflows := n\<rparr>) = lists_inv k"
  by (simp_all add: lists_inv_def rings_ok_def ready_at_def waiting_def prio_def)

lemma field_is_ready [simp]:
  "is_ready (k\<lparr>pendsv := b\<rparr>) = is_ready k" "is_ready (k\<lparr>xYieldPending := b\<rparr>) = is_ready k"
  "is_ready (k\<lparr>uxSchedulerSuspended := n\<rparr>) = is_ready k" "is_ready (k\<lparr>xPendingReadyList := ts\<rparr>) = is_ready k" "is_ready (k\<lparr>xPendingReadyList := ts, xEventLists := es\<rparr>) = is_ready k"
  "is_ready (k\<lparr>pxCurrentTCB := c\<rparr>) = is_ready k" "is_ready (k\<lparr>xTickCount := v\<rparr>) = is_ready k"
  "is_ready (k\<lparr>xNextTaskUnblockTime := v\<rparr>) = is_ready k" "is_ready (k\<lparr>xNumOfOverflows := n\<rparr>) = is_ready k"
  by (simp_all add: is_ready_def [abs_def] ready_at_def prio_def)

lemma field_time [simp]:
  "wake_time (k\<lparr>xNextTaskUnblockTime := v\<rparr>) = wake_time k" "wake_time (k\<lparr>xTickCount := w\<rparr>) = wake_time k"
  by (simp_all add: wake_time_def fun_eq_iff)

lemma pending_list_inv [simp]:
  "lists_inv (remove_event_item t k) = lists_inv k" "sorted_inv (remove_event_item t k) = sorted_inv k"
  "is_ready (remove_event_item t k) = is_ready k" "kernel_inv (remove_event_item t k) = kernel_inv k"
  "kernel_inv (pend_ready t k) = kernel_inv k" "waiting (remove_event_item t k) = waiting k"
  "sorted_inv (k\<lparr>xPendingReadyList := ts\<rparr>) = sorted_inv k"
  "sorted_inv (k\<lparr>xPendingReadyList := ts, xEventLists := es\<rparr>) = sorted_inv k"
proof -
  show s: "sorted_inv (k\<lparr>xPendingReadyList := ts\<rparr>) = sorted_inv k"
    "sorted_inv (k\<lparr>xPendingReadyList := ts, xEventLists := es\<rparr>) = sorted_inv k" for ts es
    by (simp_all add: sorted_inv_def wake_time_def [abs_def])
  show "lists_inv (remove_event_item t k) = lists_inv k" "sorted_inv (remove_event_item t k) = sorted_inv k"
    "is_ready (remove_event_item t k) = is_ready k" "kernel_inv (remove_event_item t k) = kernel_inv k"
    "kernel_inv (pend_ready t k) = kernel_inv k"
    using s by (simp_all add: remove_event_item_def pend_ready_def)
  show "waiting (remove_event_item t k) = waiting k" by (simp add: remove_event_item_def waiting_def upd_tcb_def)
qed

section \<open>The tick\<close>

text \<open>The task at the head of the delayed list is made ready.\<close>

lemma unblock_head_inv:
  assumes "lists_inv k" and "sorted_inv k"
  shows "lists_inv (unblock_head t k)" "sorted_inv (unblock_head t k)"
    "is_ready (unblock_head t k) x \<longleftrightarrow> x = t \<or> is_ready k x"
    "wake_time (unblock_head t k) = wake_time k" "xTickCount (unblock_head t k) = xTickCount k"
    "pxCurrentTCB (unblock_head t k) = pxCurrentTCB k" "prio (unblock_head t k) = prio k"
    "uxSchedulerSuspended (unblock_head t k) = uxSchedulerSuspended k" "pendsv (unblock_head t k) = pendsv k"
    "xSchedulerRunning (unblock_head t k) = xSchedulerRunning k"
    "pxOverflowDelayedTaskList (unblock_head t k) = remove1 t (pxOverflowDelayedTaskList k)"
proof -
  let ?k1 = "remove_state_item t k"
  let ?k2 = "if xEventContainer (tcbs ?k1 t) \<noteq> None then remove_event_item t ?k1 else ?k1"
  have u: "unblock_head t k = prvAddTaskToReadyList t ?k2" by (simp add: unblock_head_def Let_def)
  have k1: "lists_inv ?k1" "sorted_inv ?k1" "t \<notin> set (waiting ?k1)" "\<not> is_ready ?k1 t"
    using remove_lists_inv [OF assms(1), of t] remove_time_inv(1) [OF assms(2)] by auto
  have k2: "lists_inv ?k2" "sorted_inv ?k2" "waiting ?k2 = waiting ?k1" "is_ready ?k2 = is_ready ?k1"
    using k1 by simp_all
  show "lists_inv (unblock_head t k)" "sorted_inv (unblock_head t k)"
    "is_ready (unblock_head t k) x \<longleftrightarrow> x = t \<or> is_ready k x"
    using add_ready_inv [OF k2(1), of t] k1(3,4) k2 remove_lists_inv(2) [OF assms(1), of t x] by (auto simp: u)
  show "wake_time (unblock_head t k) = wake_time k" "prio (unblock_head t k) = prio k"
    by (simp_all add: u prvAddTaskToReadyList_def Let_def remove_event_item_def upd_tcb_def wake_time_def prio_def fun_eq_iff
        remove_state_item_def)
  show "xTickCount (unblock_head t k) = xTickCount k" "pxCurrentTCB (unblock_head t k) = pxCurrentTCB k"
    "uxSchedulerSuspended (unblock_head t k) = uxSchedulerSuspended k" "pendsv (unblock_head t k) = pendsv k"
    "xSchedulerRunning (unblock_head t k) = xSchedulerRunning k"
    "pxOverflowDelayedTaskList (unblock_head t k) = remove1 t (pxOverflowDelayedTaskList k)"
    by (simp_all add: u prvAddTaskToReadyList_def Let_def remove_event_item_def upd_tcb_def remove_state_item_def)
qed

definition same_time :: "kernel \<Rightarrow> kernel \<Rightarrow> bool" where
  "same_time k k' \<longleftrightarrow> wake_time k' = wake_time k \<and> prio k' = prio k \<and> xTickCount k' = xTickCount k \<and>
     pxCurrentTCB k' = pxCurrentTCB k \<and> pxOverflowDelayedTaskList k' = pxOverflowDelayedTaskList k \<and>
     uxSchedulerSuspended k' = uxSchedulerSuspended k \<and> pendsv k' = pendsv k \<and> xSchedulerRunning k' = xSchedulerRunning k"

lemma unblock_expired_inv:
  assumes "lists_inv k" and "sorted_inv k" and "pxCurrentTCB k = Some c"
  shows "\<exists>k' sw'. unblock_expired k sw = Inr (k', sw') \<and> lists_inv k' \<and> sorted_inv k' \<and> same_time k k' \<and>
    pxDelayedTaskList k' = filter (\<lambda>t. xTickCount k < wake_time k t) (pxDelayedTaskList k) \<and>
    (\<forall>t. is_ready k' t \<longleftrightarrow> is_ready k t \<or> t \<in> set (pxDelayedTaskList k) \<and> wake_time k t \<le> xTickCount k)"
  using assms
proof (induction k sw rule: unblock_expired.induct)
  case (1 k sw)
  show ?case
  proof (cases "pxDelayedTaskList k")
    case Nil
    then show ?thesis using 1
      by (subst unblock_expired.simps) (simp add: same_time_def sorted_inv_def prio_def fun_eq_iff)
  next
    case (Cons t ts)
    have after: "wake_time k t \<le> wake_time k x" if "x \<in> set ts" for x
      using 1(3) that by (simp add: sorted_inv_def Cons)
    show ?thesis
    proof (cases "xTickCount k < wake_time k t")
      case True
      then have "filter (\<lambda>x. xTickCount k < wake_time k x) ts = ts"
        using after by (fastforce simp: filter_id_conv)
      moreover have "\<not> wake_time k x \<le> xTickCount k" if "x \<in> set (pxDelayedTaskList k)" for x
        using True after [of x] that Cons by fastforce
      ultimately show ?thesis using 1 Cons True after
        by (subst unblock_expired.simps) (auto simp: same_time_def sorted_inv_def prio_def fun_eq_iff)
    next
      case False
      let ?k = "unblock_head t k"
      note h = unblock_head_inv [OF 1(2,3), of t]
      have "distinct (waiting k)" using 1(2) by (simp add: lists_inv_def)
      then have t: "t \<notin> set ts" "t \<notin> set (pxOverflowDelayedTaskList k)" by (auto simp: waiting_def Cons)
      have cur: "current k = Inr c" using 1(4) by (simp add: current_def)
      have d: "pxDelayedTaskList ?k = ts" by (simp add: Cons)
      have "\<exists>k' sw'. unblock_expired ?k (sw \<or> prio k c \<le> prio k t) = Inr (k', sw') \<and> lists_inv k' \<and> sorted_inv k' \<and>
          same_time ?k k' \<and> pxDelayedTaskList k' = filter (\<lambda>t. xTickCount ?k < wake_time ?k t) (pxDelayedTaskList ?k) \<and>
          (\<forall>x. is_ready k' x \<longleftrightarrow> is_ready ?k x \<or> x \<in> set (pxDelayedTaskList ?k) \<and> wake_time ?k x \<le> xTickCount ?k)"
        by (rule 1(1) [OF Cons False cur]) (use h 1(4) in simp_all)
      then obtain k' sw' where k': "unblock_expired ?k (sw \<or> prio k c \<le> prio k t) = Inr (k', sw')" "lists_inv k'"
          "sorted_inv k'" "same_time ?k k'" "pxDelayedTaskList k' = filter (\<lambda>t. xTickCount k < wake_time k t) ts"
          "\<forall>x. is_ready k' x \<longleftrightarrow> is_ready ?k x \<or> x \<in> set ts \<and> wake_time k x \<le> xTickCount k"
        using h(4,5) d by auto
      have "unblock_expired k sw = Inr (k', sw')"
        using k'(1) Cons False cur by (subst unblock_expired.simps) simp
      moreover have "same_time k k'" using k'(4) h(4-11) t(2) by (simp add: same_time_def remove1_idem)
      moreover have "is_ready k' x \<longleftrightarrow> is_ready k x \<or> x \<in> set (t # ts) \<and> wake_time k x \<le> xTickCount k" for x
        using k'(6) h(3) [of x] False by auto
      ultimately show ?thesis using k'(2,3,5) False Cons by auto
    qed
  qed
qed

text \<open>The lists are exchanged when the tick count starts again at zero: the invariant says that no task
  is left in the first, so the assertion holds.\<close>

lemma reset_next:
  "\<exists>v. prvResetNextTaskUnblockTime k = k\<lparr>xNextTaskUnblockTime := v\<rparr> \<and>
    (sorted (map (wake_time k) (pxDelayedTaskList k)) \<longrightarrow> (\<forall>t\<in>set (pxDelayedTaskList k). v \<le> wake_time k t))"
  by (cases "pxDelayedTaskList k") (auto simp: prvResetNextTaskUnblockTime_def)

definition mid_inv :: "kernel \<Rightarrow> bool" where
  "mid_inv k \<longleftrightarrow> lists_inv k \<and> sorted_inv k \<and> (\<forall>t\<in>set (pxOverflowDelayedTaskList k). wake_time k t < xTickCount k)"

lemma less_plus_one: "w + 1 \<noteq> 0 \<Longrightarrow> w < w + (1 :: u32)"
  using unatSuc [of w] by (simp add: word_less_nat_alt add.commute)

lemma advance_tick:
  assumes "kernel_inv k"
  shows "\<exists>k2. (let k1 = k\<lparr>xTickCount := xTickCount k + 1\<rparr> in
      if xTickCount k1 = 0 then taskSWITCH_DELAYED_LISTS k1 else Inr k1) = Inr k2 \<and> mid_inv k2 \<and>
    xTickCount k2 = xTickCount k + 1 \<and> wake_time k2 = wake_time k \<and> prio k2 = prio k \<and> is_ready k2 = is_ready k \<and>
    pxCurrentTCB k2 = pxCurrentTCB k \<and> uxSchedulerSuspended k2 = uxSchedulerSuspended k \<and> pendsv k2 = pendsv k \<and>
    xSchedulerRunning k2 = xSchedulerRunning k \<and> pxDelayedTaskList k2 = (if xTickCount k + 1 = 0 then pxOverflowDelayedTaskList k else pxDelayedTaskList k) \<and>
    pxOverflowDelayedTaskList k2 = (if xTickCount k + 1 = 0 then [] else pxOverflowDelayedTaskList k)"
proof (cases "xTickCount k + 1 = 0")
  case True
  let ?k1 = "k\<lparr>xTickCount := 0\<rparr>"
  let ?k2 = "?k1\<lparr>pxDelayedTaskList := pxOverflowDelayedTaskList k, pxOverflowDelayedTaskList := [],
      xNumOfOverflows := Suc (xNumOfOverflows k)\<rparr>"
  have "xTickCount k = - 1" using True by (simp only: eq_neg_iff_add_eq_0)
  then have "\<not> xTickCount k < w" for w :: u32 by (simp add: word_not_simps)
  then have empty: "pxDelayedTaskList k = []"
    using assms by (cases "pxDelayedTaskList k") (auto simp: kernel_inv_def time_inv_def)
  have w: "set (waiting ?k2) = set (waiting k)" "distinct (waiting ?k2) = distinct (waiting k)"
    using empty by (auto simp: waiting_def)
  have l: "lists_inv ?k2"
    using assms w by (simp add: kernel_inv_def lists_inv_def rings_ok_def ready_at_def prio_def)
  have srt: "sorted (map (wake_time k) (pxOverflowDelayedTaskList k))"
    using assms by (simp add: kernel_inv_def time_inv_def sorted_inv_def)
  have wt: "wake_time ?k2 = wake_time k" by (simp add: wake_time_def fun_eq_iff)
  then obtain v where v: "prvResetNextTaskUnblockTime ?k2 = ?k2\<lparr>xNextTaskUnblockTime := v\<rparr>"
      "\<forall>t\<in>set (pxOverflowDelayedTaskList k). v \<le> wake_time k t"
    using reset_next [of ?k2] srt by auto
  let ?k3 = "?k2\<lparr>xNextTaskUnblockTime := v\<rparr>"
  have "lists_inv ?k3 \<and> sorted_inv ?k3 \<and> xTickCount ?k3 = 0 \<and> wake_time ?k3 = wake_time k \<and> prio ?k3 = prio k \<and>
      is_ready ?k3 = is_ready k \<and> pxCurrentTCB ?k3 = pxCurrentTCB k \<and>
      pxDelayedTaskList ?k3 = pxOverflowDelayedTaskList k \<and> pxOverflowDelayedTaskList ?k3 = []"
    using l srt v(2) by (simp add: sorted_inv_def prio_def fun_eq_iff is_ready_def ready_at_def wake_time_def [abs_def])
  moreover have "taskSWITCH_DELAYED_LISTS ?k1 = Inr ?k3"
    using empty v(1) by (simp add: taskSWITCH_DELAYED_LISTS_def)
  ultimately show ?thesis using True by (auto simp: mid_inv_def)
next
  case False
  have "xTickCount k < xTickCount k + 1" using False by (rule less_plus_one)
  then have "mid_inv (k\<lparr>xTickCount := xTickCount k + 1\<rparr>)"
    using assms by (auto simp: mid_inv_def kernel_inv_def time_inv_def sorted_inv_def)
  then show ?thesis using False by (auto simp: prio_def)
qed

definition blocked :: "kernel \<Rightarrow> task \<Rightarrow> bool" where
  "blocked k t \<longleftrightarrow> t \<in> set (pxDelayedTaskList k @ pxOverflowDelayedTaskList k)"

definition tick_frame :: "kernel \<Rightarrow> kernel \<Rightarrow> bool" where
  "tick_frame k k' \<longleftrightarrow> wake_time k' = wake_time k \<and> prio k' = prio k \<and> pxCurrentTCB k' = pxCurrentTCB k \<and>
     uxSchedulerSuspended k' = uxSchedulerSuspended k \<and> pendsv k' = pendsv k \<and> xSchedulerRunning k' = xSchedulerRunning k"

text \<open>One tick: the tasks whose time has come are ready, and no other change.\<close>

lemma tick_step:
  assumes inv: "kernel_inv k" and sus: "uxSchedulerSuspended k = 0" and cur: "pxCurrentTCB k = Some c"
  shows "\<exists>sw k'. xTaskIncrementTick k = Inr (sw, k') \<and> kernel_inv k' \<and> tick_frame k k' \<and>
    xTickCount k' = xTickCount k + 1 \<and>
    (\<forall>t. is_ready k' t \<longleftrightarrow> is_ready k t \<or> blocked k t \<and> wake_time k t = xTickCount k + 1) \<and>
    (\<forall>t. blocked k' t \<longleftrightarrow> blocked k t \<and> wake_time k t \<noteq> xTickCount k + 1)"
proof -
  obtain k2 where a: "(let k1 = k\<lparr>xTickCount := xTickCount k + 1\<rparr> in
      if xTickCount k1 = 0 then taskSWITCH_DELAYED_LISTS k1 else Inr k1) = Inr k2" and m: "mid_inv k2"
    and f: "xTickCount k2 = xTickCount k + 1" "wake_time k2 = wake_time k" "prio k2 = prio k" "is_ready k2 = is_ready k"
      "pxCurrentTCB k2 = pxCurrentTCB k" "uxSchedulerSuspended k2 = uxSchedulerSuspended k" "pendsv k2 = pendsv k"
      "xSchedulerRunning k2 = xSchedulerRunning k"
      "pxDelayedTaskList k2 = (if xTickCount k + 1 = 0 then pxOverflowDelayedTaskList k else pxDelayedTaskList k)"
      "pxOverflowDelayedTaskList k2 = (if xTickCount k + 1 = 0 then [] else pxOverflowDelayedTaskList k)"
    using advance_tick [OF inv] by blast
  have l2: "lists_inv k2" "sorted_inv k2" using m by (simp_all add: mid_inv_def)
  have c2: "pxCurrentTCB k2 = Some c" using f(5) cur by simp
  have "\<exists>k3 sw. (if xNextTaskUnblockTime k2 \<le> xTickCount k2 then unblock_expired k2 False else Inr (k2, False)) = Inr (k3, sw) \<and>
      lists_inv k3 \<and> sorted_inv k3 \<and> same_time k2 k3 \<and>
      pxDelayedTaskList k3 = filter (\<lambda>t. xTickCount k2 < wake_time k2 t) (pxDelayedTaskList k2) \<and>
      (\<forall>t. is_ready k3 t \<longleftrightarrow> is_ready k2 t \<or> t \<in> set (pxDelayedTaskList k2) \<and> wake_time k2 t \<le> xTickCount k2)"
  proof (cases "xNextTaskUnblockTime k2 \<le> xTickCount k2")
    case True
    then show ?thesis using unblock_expired_inv [OF l2 c2, of False] by auto
  next
    case False
    then have lt: "xTickCount k2 < wake_time k2 t" if "t \<in> set (pxDelayedTaskList k2)" for t
      using l2(2) that by (fastforce simp: sorted_inv_def)
    then have "\<not> (t \<in> set (pxDelayedTaskList k2) \<and> wake_time k2 t \<le> xTickCount k2)" for t
      using linorder_not_le by blast
    then have "\<forall>t. is_ready k2 t \<longleftrightarrow> is_ready k2 t \<or> t \<in> set (pxDelayedTaskList k2) \<and> wake_time k2 t \<le> xTickCount k2"
      by blast
    then show ?thesis using False l2 lt by (intro exI [of _ k2] exI [of _ False]) (simp add: same_time_def filter_id_conv)
  qed
  then obtain k3 sw where k3: "(if xNextTaskUnblockTime k2 \<le> xTickCount k2 then unblock_expired k2 False
        else Inr (k2, False)) = Inr (k3, sw)"
      "lists_inv k3" "sorted_inv k3" "same_time k2 k3"
      "pxDelayedTaskList k3 = filter (\<lambda>t. xTickCount k2 < wake_time k2 t) (pxDelayedTaskList k2)"
      "\<And>t. is_ready k3 t \<longleftrightarrow> is_ready k2 t \<or> t \<in> set (pxDelayedTaskList k2) \<and> wake_time k2 t \<le> xTickCount k2"
    by blast
  have cur3: "current k3 = Inr c" using k3(4) c2 by (simp add: current_def same_time_def)
  have "\<exists>s. xTaskIncrementTick k = Inr (s, k3)"
    unfolding xTaskIncrementTick_def using sus a k3(1) cur3 by (simp add: Let_def del: split_paired_Ex)
  moreover have "kernel_inv k3"
    using k3(2-5) m by (auto simp: kernel_inv_def time_inv_def mid_inv_def same_time_def)
  moreover have "tick_frame k k3" using k3(4) f cur by (simp add: tick_frame_def same_time_def)
  moreover have "xTickCount k3 = xTickCount k + 1" using k3(4) f(1) by (simp add: same_time_def)
  moreover
  have due: "t \<in> set (pxDelayedTaskList k2) \<and> wake_time k t \<le> xTickCount k + 1 \<longleftrightarrow>
      blocked k t \<and> wake_time k t = xTickCount k + 1" for t
  proof (cases "xTickCount k + 1 = 0")
    case True
    then have "xTickCount k = - 1" by (simp only: eq_neg_iff_add_eq_0)
    then have "pxDelayedTaskList k = []"
      using inv by (cases "pxDelayedTaskList k") (auto simp: kernel_inv_def time_inv_def word_not_simps)
    then show ?thesis using True f(9) by (auto simp: blocked_def)
  next
    case False
    then have n: "xTickCount k < xTickCount k + 1" by (rule less_plus_one)
    have "wake_time k t \<noteq> xTickCount k + 1" if "t \<in> set (pxOverflowDelayedTaskList k)"
      using inv that n by (fastforce simp: kernel_inv_def time_inv_def)
    moreover have "xTickCount k + 1 \<le> wake_time k t" if "t \<in> set (pxDelayedTaskList k)"
      using inv that by (auto simp: kernel_inv_def time_inv_def intro: inc_le)
    ultimately show ?thesis using False f(9) by (auto simp: blocked_def)
  qed
  moreover have "blocked k3 t \<longleftrightarrow> blocked k t \<and> wake_time k t \<noteq> xTickCount k + 1" for t
  proof -
    have "blocked k2 t \<longleftrightarrow> blocked k t"
    proof (cases "xTickCount k + 1 = 0")
      case True
      then have "xTickCount k = - 1" by (simp only: eq_neg_iff_add_eq_0)
      then have "pxDelayedTaskList k = []"
        using inv by (cases "pxDelayedTaskList k") (auto simp: kernel_inv_def time_inv_def word_not_simps)
      then show ?thesis using True f(9,10) by (simp add: blocked_def)
    qed (use f(9,10) in \<open>simp add: blocked_def\<close>)
    moreover have "blocked k3 t \<longleftrightarrow> blocked k2 t \<and> \<not> (t \<in> set (pxDelayedTaskList k2) \<and> wake_time k t \<le> xTickCount k + 1)"
    proof -
      have "t \<notin> set (pxDelayedTaskList k2)" if "t \<in> set (pxOverflowDelayedTaskList k2)"
        using l2(1) that by (auto simp: lists_inv_def waiting_def)
      then show ?thesis using k3(4,5) f(1,2) by (auto simp: blocked_def same_time_def)
    qed
    ultimately show ?thesis using due by blast
  qed
  moreover have "is_ready k3 t \<longleftrightarrow> is_ready k t \<or> blocked k t \<and> wake_time k t = xTickCount k + 1" for t
    using k3(6) [of t] due [of t] by (simp add: f(1,2,4))
  ultimately show ?thesis by blast
qed

section \<open>The switch\<close>

text \<open>Whatever ran before, the task that gets the processor is ready and no ready task has a higher
  priority.\<close>

lemma switch_step:
  assumes inv: "lists_inv k" and sus: "uxSchedulerSuspended k = 0" and r: "is_ready k x"
  shows "\<exists>k' c. vTaskSwitchContext k = Inr k' \<and> pxCurrentTCB k' = Some c \<and> is_ready k c \<and>
    (\<forall>t. is_ready k t \<longrightarrow> prio k t \<le> prio k c) \<and> lists_inv k' \<and> is_ready k' = is_ready k \<and>
    ready_at k' (prio k c) = rotate1 (ready_at k (prio k c)) \<and> (\<forall>q. q \<noteq> prio k c \<longrightarrow> ready_at k' q = ready_at k q) \<and>
    (\<exists>q rs. k' = k\<lparr>xYieldPending := False, pxCurrentTCB := Some c, pxReadyTasksLists := rs, uxTopReadyPriority := q\<rparr>)"
proof -
  note k = lists_invD [OF inv]
  let ?P = "\<lambda>p. ready_at k p \<noteq> []"
  have ex: "?P (prio k x)" using r by (auto simp: is_ready_def)
  define p where "p = (GREATEST p. ?P p)"
  have p: "?P p" unfolding p_def by (rule GreatestI_nat [where P = ?P, OF ex]) (use k(5) in blast)
  have above: "ready_at k q = []" if "p < q" for q
  proof (rule ccontr)
    assume "?P q"
    then have "q \<le> p" unfolding p_def by (rule Greatest_le_nat) (use k(5) in blast)
    then show False using that by simp
  qed
  obtain c cs where c: "ready_at k p = c # cs" using p by (cases "ready_at k p") auto
  obtain r' where sw: "vTaskSwitchContext k = Inr (k\<lparr>xYieldPending := False, pxCurrentTCB := Some c,
      pxReadyTasksLists := (pxReadyTasksLists k)(p := r'), uxTopReadyPriority := p\<rparr>)" "ring_inv r'" "ring_turn r' = cs @ [c]"
    using switch_to_head [OF k(1) sus c k(5) [OF p] above] by blast
  let ?k = "k\<lparr>xYieldPending := False, pxCurrentTCB := Some c,
      pxReadyTasksLists := (pxReadyTasksLists k)(p := r'), uxTopReadyPriority := p\<rparr>"
  have sets: "set (ready_at ?k q) = set (ready_at k q)" for q
    using sw(3) c by (cases "q = p") (auto simp: ready_at_def)
  have top: "q \<le> p" if "ready_at ?k q \<noteq> []" for q
    using above [of q] sets [of q] that by (cases "p < q") auto
  have "lists_inv ?k"
    using k(1-4) sw(2) top sets unfolding lists_inv_def by (auto simp: rings_ok_def waiting_def prio_def)
  moreover have "is_ready ?k = is_ready k"
    using sets by (simp add: is_ready_def [abs_def] prio_def)
  moreover have pc: "is_ready k c" "prio k c = p" using k(3) [of c p] c by (simp_all add: is_ready_def)
  moreover have "prio k t \<le> p" if "is_ready k t" for t
    using above [of "prio k t"] that by (cases "p < prio k t") (auto simp: is_ready_def)
  moreover have "ready_at ?k p = rotate1 (ready_at k p)" using sw(3) c by (simp add: ready_at_def)
  moreover have "ready_at ?k q = ready_at k q" if "q \<noteq> p" for q using that by (simp add: ready_at_def)
  ultimately show ?thesis using sw(1) by (intro exI [of _ ?k] exI [of _ c]) auto
qed

section \<open>Blocking\<close>

definition call_frame :: "kernel \<Rightarrow> kernel \<Rightarrow> bool" where
  "call_frame k k' \<longleftrightarrow> xPendingReadyList k' = xPendingReadyList k \<and> xPendedTicks k' = xPendedTicks k \<and>
     xYieldPending k' = xYieldPending k \<and> uxSchedulerSuspended k' = uxSchedulerSuspended k \<and>
     pxCurrentTCB k' = pxCurrentTCB k \<and> xTickCount k' = xTickCount k \<and> pendsv k' = pendsv k"

lemma tick_plus: "0 < n \<Longrightarrow> \<not> a + n < a \<Longrightarrow> a < a + (n :: u32)"
  by (metis add_cancel_right_right less_irrefl linorder_less_linear)

lemma add_delayed:
  assumes inv: "kernel_inv k" and cur: "pxCurrentTCB k = Some t" and n: "0 < n"
  shows "\<exists>k1. prvAddCurrentTaskToDelayedList n b k = Inr k1 \<and> kernel_inv k1 \<and> call_frame k k1 \<and> prio k1 = prio k \<and>
    (\<forall>x. is_ready k1 x \<longleftrightarrow> x \<noteq> t \<and> is_ready k x) \<and>
    (n = portMAX_DELAY \<and> b \<or> blocked k1 t \<and> wake_time k1 t = xTickCount k + n)"
proof -
  have l: "lists_inv k" and tm: "time_inv k" using inv by (simp_all add: kernel_inv_def)
  let ?k1 = "remove_state_item t k" and ?w = "xTickCount k + n"
  have k1: "lists_inv ?k1" "time_inv ?k1" "t \<notin> set (waiting ?k1)" "\<And>x. is_ready ?k1 x \<longleftrightarrow> x \<noteq> t \<and> is_ready k x"
    using remove_lists_inv [OF l] remove_time_inv(2) [OF tm] by auto
  have fr: "call_frame k ?k1" by (simp add: call_frame_def remove_state_item_def)
  have noready: "t \<notin> set (ready_at ?k1 p)" for p
    using k1(4) [of t] ready_iff [OF k1(1), of t p] by simp
  have ins: "lists_inv k'" "is_ready k' = is_ready ?k1"
    if "pxReadyTasksLists k' = pxReadyTasksLists ?k1" "prio k' = prio ?k1" "uxTopReadyPriority k' = uxTopReadyPriority ?k1"
      "set (waiting k') = Set.insert t (set (waiting ?k1))" "distinct (waiting k')" for k'
  proof -
    have r: "ready_at k' = ready_at ?k1" using that(1) by (simp add: ready_at_def [abs_def])
    show "lists_inv k'" using k1(1) that noready unfolding lists_inv_def by (simp add: rings_ok_def r) metis
    show "is_ready k' = is_ready ?k1" using that(2) r by (simp add: is_ready_def [abs_def])
  qed
  have dw: "distinct (waiting ?k1)" using k1(1) by (simp add: lists_inv_def)
  show ?thesis
  proof (cases "n = portMAX_DELAY \<and> b")
    case True
    let ?k2 = "?k1\<lparr>xSuspendedTaskList := xSuspendedTaskList ?k1 @ [t]\<rparr>"
    have "lists_inv ?k2 \<and> is_ready ?k2 = is_ready ?k1"
      using dw k1(3) by (intro conjI ins) (auto simp: waiting_def prio_def)
    moreover have "time_inv ?k2" using k1(2) time_inv_cong(2) [of ?k2 ?k1] by (simp add: wake_time_def)
    moreover have "prvAddCurrentTaskToDelayedList n b k = Inr ?k2"
      using True cur by (simp add: prvAddCurrentTaskToDelayedList_def current_def Let_def)
    ultimately show ?thesis using True fr k1(4)
      by (intro exI [of _ ?k2]) (simp add: kernel_inv_def call_frame_def prio_def fun_eq_iff)
  next
    case False
    then have nf: "(n = portMAX_DELAY \<and> b) = False" by blast
    let ?k2 = "upd_tcb t (\<lambda>c. c\<lparr>xItemValue := ?w\<rparr>) ?k1"
    have w2: "wake_time ?k2 = (wake_time k)(t := ?w)" and p2: "prio ?k2 = prio ?k1"
      by (simp_all add: wake_time_def prio_def upd_tcb_def remove_state_item_def fun_eq_iff)
    have f2: "pxDelayedTaskList ?k2 = pxDelayedTaskList ?k1" "pxOverflowDelayedTaskList ?k2 = pxOverflowDelayedTaskList ?k1"
      "xNextTaskUnblockTime ?k2 = xNextTaskUnblockTime ?k1" "xTickCount ?k2 = xTickCount k"
      "xSuspendedTaskList ?k2 = xSuspendedTaskList ?k1" "xTasksWaitingTermination ?k2 = xTasksWaitingTermination ?k1"
      "pxReadyTasksLists ?k2 = pxReadyTasksLists ?k1" "uxTopReadyPriority ?k2 = uxTopReadyPriority ?k1"
      by (simp_all add: upd_tcb_def remove_state_item_def)
    have dd: "distinct (vListInsert f t (pxDelayedTaskList ?k1))" "distinct (vListInsert f t (pxOverflowDelayedTaskList ?k1))" for f
      using dw k1(3) by (auto simp: waiting_def intro: distinct_vListInsert)
    have tn: "t \<notin> set (pxDelayedTaskList ?k1)" "t \<notin> set (pxOverflowDelayedTaskList ?k1)"
      using k1(3) by (simp_all add: waiting_def)
    have old: "sorted (map ((wake_time k)(t := ?w)) (pxDelayedTaskList ?k1))"
      "sorted (map ((wake_time k)(t := ?w)) (pxOverflowDelayedTaskList ?k1))"
      using k1(2) tn by (simp_all add: time_inv_def sorted_inv_def)
    show ?thesis
    proof (cases "?w < xTickCount k")
      case True
      let ?k3 = "?k2\<lparr>pxOverflowDelayedTaskList := vListInsert ((wake_time k)(t := ?w)) t (pxOverflowDelayedTaskList ?k1)\<rparr>"
      have w3: "wake_time ?k3 = (wake_time k)(t := ?w)" using w2 by (simp add: wake_time_def fun_eq_iff)
      have wt: "set (waiting ?k3) = Set.insert t (set (waiting ?k1))" "distinct (waiting ?k3)"
        using dw k1(3) dd by (auto simp: waiting_def f2)
      have p3: "prio ?k3 = prio ?k1" by (simp add: prio_def upd_tcb_def fun_eq_iff)
      have "lists_inv ?k3 \<and> is_ready ?k3 = is_ready ?k1"
        using ins [OF _ p3 _ wt] f2 by simp
      moreover have "time_inv ?k3"
        using k1(2) True tn old sorted_vListInsert [OF old(2), of t]
        by (auto simp: time_inv_def sorted_inv_def w3 f2)
      moreover have "prvAddCurrentTaskToDelayedList n b k = Inr ?k3"
        using True cur by (simp add: nf prvAddCurrentTaskToDelayedList_def current_def Let_def w2 f2)
      moreover have "blocked ?k3 t" "prio ?k3 = prio k" by (simp_all add: blocked_def prio_def upd_tcb_def fun_eq_iff)
      ultimately show ?thesis using fr k1(4) w3
        by (intro exI [of _ ?k3]) (simp add: kernel_inv_def call_frame_def upd_tcb_def)
    next
      case notover: False
      let ?k3 = "?k2\<lparr>pxDelayedTaskList := vListInsert ((wake_time k)(t := ?w)) t (pxDelayedTaskList ?k1)\<rparr>"
      let ?k4 = "?k3\<lparr>xNextTaskUnblockTime := min ?w (xNextTaskUnblockTime k)\<rparr>"
      have later: "xTickCount k < ?w" using tick_plus [OF n notover] .
      have w4: "wake_time ?k3 = (wake_time k)(t := ?w)" using w2 by (simp add: wake_time_def fun_eq_iff)
      have d4: "pxDelayedTaskList ?k4 = vListInsert ((wake_time k)(t := ?w)) t (pxDelayedTaskList ?k1)"
        "pxOverflowDelayedTaskList ?k4 = pxOverflowDelayedTaskList ?k1" "xTickCount ?k4 = xTickCount k"
        using f2 by simp_all
      have wt: "set (waiting ?k4) = Set.insert t (set (waiting ?k1))" "distinct (waiting ?k4)"
        using dw k1(3) dd by (auto simp: waiting_def f2)
      have p4: "prio ?k4 = prio ?k1" by (simp add: prio_def upd_tcb_def fun_eq_iff)
      have "lists_inv ?k4 \<and> is_ready ?k4 = is_ready ?k1"
        using ins [OF _ p4 _ wt] f2 by simp
      moreover have "time_inv ?k4"
        using k1(2) later tn old sorted_vListInsert [OF old(1), of t]
        by (auto simp: time_inv_def sorted_inv_def w4 d4 f2 min_le_iff_disj)
      moreover have "prvAddCurrentTaskToDelayedList n b k = Inr ?k4"
      proof -
        have same: "?k3\<lparr>xNextTaskUnblockTime := xNextTaskUnblockTime k\<rparr> = ?k3" using f2(3) by simp
        have "(if ?w < xNextTaskUnblockTime k then ?k3\<lparr>xNextTaskUnblockTime := ?w\<rparr> else ?k3) = ?k4"
        proof (cases "?w < xNextTaskUnblockTime k")
          case False
          then have "min ?w (xNextTaskUnblockTime k) = xNextTaskUnblockTime k" by (simp add: min_def)
          then show ?thesis using False by (simp only: if_False same)
        qed (simp add: min_def)
        then show ?thesis
          using notover cur by (simp add: nf prvAddCurrentTaskToDelayedList_def current_def Let_def w2 f2 if_distrib)
      qed
      moreover have "blocked ?k4 t" "prio ?k4 = prio k"
        by (simp_all add: blocked_def d4 prio_def upd_tcb_def fun_eq_iff)
      ultimately show ?thesis using fr k1(4) w4
        by (intro exI [of _ ?k4]) (simp add: kernel_inv_def call_frame_def upd_tcb_def)
    qed
  qed
qed

end
