(* ===== verification/KernelTime.thy ===== *)
theory KernelTime
  imports KernelInv StartupSpec
begin

text \<open>
  Time and the choice of the next task: the tick interrupt with the switch it asks for, as a step on
  the states that keep the invariant; a delay lasts exactly as many ticks as asked for; the
  processor goes to a ready task of the highest priority.
\<close>

section \<open>A delay, tick by tick\<close>

text \<open>The tick interrupt, and the switch it may ask for. Before the scheduler runs the interrupt leaves
  the kernel alone; from then on it is the handler of the port.\<close>

definition tick_interrupt :: "kernel \<Rightarrow> kernel res" where
  "tick_interrupt k = bindR (xPortSysTickHandler k) take_pendsv"

lemma tick_before_start: "\<not> xSchedulerRunning k \<Longrightarrow> SysTick_Handler (u, k) = Inr (u + 1, k)"
  by (simp add: SysTick_Handler_def xTaskGetSchedulerState_def)

lemma tick_while_running:
  "xSchedulerRunning k \<Longrightarrow> SysTick_Handler (u, k) = bindR (xPortSysTickHandler k) (\<lambda>k1. Inr (u + 1, k1))"
  by (simp add: SysTick_Handler_def xTaskGetSchedulerState_def)

fun tick_interrupts :: "nat \<Rightarrow> kernel \<Rightarrow> kernel res" where
  "tick_interrupts 0 k = Inr k"
| "tick_interrupts (Suc n) k = bindR (tick_interrupts n k) tick_interrupt"

definition runs :: "kernel \<Rightarrow> bool" where
  "runs k \<longleftrightarrow> kernel_inv k \<and> uxSchedulerSuspended k = 0 \<and> \<not> pendsv k \<and>
     (\<exists>c. pxCurrentTCB k = Some c \<and> is_ready k c)"

lemma time_frame:
  "time_inv (k\<lparr>xYieldPending := y, pxCurrentTCB := c, pxReadyTasksLists := rs, uxTopReadyPriority := q\<rparr>) = time_inv k"
  "blocked (k\<lparr>xYieldPending := y, pxCurrentTCB := c, pxReadyTasksLists := rs, uxTopReadyPriority := q\<rparr>) = blocked k"
  "wake_time (k\<lparr>xYieldPending := y, pxCurrentTCB := c, pxReadyTasksLists := rs, uxTopReadyPriority := q\<rparr>) = wake_time k"
  by (simp_all add: time_inv_def sorted_inv_def wake_time_def [abs_def] blocked_def [abs_def])

text \<open>A switch in a state that keeps the invariant.\<close>

lemma pendsv_step:
  assumes inv: "kernel_inv k" and sus: "uxSchedulerSuspended k = 0" and r: "is_ready k x"
  shows "\<exists>k'. take_pendsv (portYIELD k) = Inr k' \<and> runs k' \<and> is_ready k' = is_ready k \<and> blocked k' = blocked k \<and>
    wake_time k' = wake_time k \<and> xTickCount k' = xTickCount k \<and> prio k' = prio k"
proof -
  let ?k = "k\<lparr>pendsv := False\<rparr>"
  have a: "lists_inv ?k" "uxSchedulerSuspended ?k = 0" "is_ready ?k x" using inv sus r by (simp_all add: kernel_inv_def)
  obtain k' c q rs where k': "vTaskSwitchContext ?k = Inr k'" "pxCurrentTCB k' = Some c" "is_ready ?k c" "lists_inv k'"
      "is_ready k' = is_ready ?k"
      "k' = ?k\<lparr>xYieldPending := False, pxCurrentTCB := Some c, pxReadyTasksLists := rs, uxTopReadyPriority := q\<rparr>"
    using switch_step [OF a] by blast
  have "kernel_inv ?k" using inv by simp
  then have "time_inv ?k" by (simp only: kernel_inv_def)
  then have "kernel_inv k'" using k'(4) k'(6) time_frame(1) [where k = ?k] by (simp add: kernel_inv_def)
  moreover have "blocked k' = blocked k" "wake_time k' = wake_time k" "xTickCount k' = xTickCount k" "prio k' = prio k"
    using k'(6) by (simp_all add: blocked_def [abs_def] wake_time_def [abs_def] prio_def [abs_def])
  moreover have "uxSchedulerSuspended k' = 0" "\<not> pendsv k'" using k'(6) sus by simp_all
  ultimately show ?thesis using k'(1-3,5)
    by (intro exI [of _ k']) (simp add: take_pendsv_def portYIELD_def runs_def)
qed

lemma tick_interrupt_step:
  assumes "runs k"
  shows "\<exists>k'. tick_interrupt k = Inr k' \<and> runs k' \<and> wake_time k' = wake_time k \<and> prio k' = prio k \<and>
    xTickCount k' = xTickCount k + 1 \<and>
    (\<forall>t. is_ready k' t \<longleftrightarrow> is_ready k t \<or> blocked k t \<and> wake_time k t = xTickCount k + 1) \<and>
    (\<forall>t. blocked k' t \<longleftrightarrow> blocked k t \<and> wake_time k t \<noteq> xTickCount k + 1)"
proof -
  obtain c where c: "pxCurrentTCB k = Some c" "is_ready k c" using assms by (auto simp: runs_def)
  have inv: "kernel_inv k" "uxSchedulerSuspended k = 0" "\<not> pendsv k" using assms by (simp_all add: runs_def)
  obtain sw k1 where k1: "xTaskIncrementTick k = Inr (sw, k1)" "kernel_inv k1" "tick_frame k k1"
      "xTickCount k1 = xTickCount k + 1"
      "\<And>t. is_ready k1 t \<longleftrightarrow> is_ready k t \<or> blocked k t \<and> wake_time k t = xTickCount k + 1"
      "\<And>t. blocked k1 t \<longleftrightarrow> blocked k t \<and> wake_time k t \<noteq> xTickCount k + 1"
    using tick_step [OF inv(1,2) c(1)] by blast
  have f: "wake_time k1 = wake_time k" "prio k1 = prio k" "pxCurrentTCB k1 = Some c" "uxSchedulerSuspended k1 = 0" "\<not> pendsv k1"
    using k1(3) c inv by (simp_all add: tick_frame_def)
  have rc: "is_ready k1 c" using k1(5) c(2) by blast
  show ?thesis
  proof (cases sw)
    case True
    obtain k2 where "take_pendsv (portYIELD k1) = Inr k2" "runs k2" "is_ready k2 = is_ready k1" "blocked k2 = blocked k1"
        "wake_time k2 = wake_time k1" "xTickCount k2 = xTickCount k1" "prio k2 = prio k1"
      using pendsv_step [OF k1(2) f(4) rc] by blast
    then show ?thesis using True k1 f
      by (intro exI [of _ k2]) (simp add: tick_interrupt_def xPortSysTickHandler_def)
  next
    case False
    then have "tick_interrupt k = Inr k1"
      using k1(1) f(5) by (simp add: tick_interrupt_def xPortSysTickHandler_def take_pendsv_def)
    moreover have "runs k1" using k1(2) f rc by (simp add: runs_def)
    ultimately show ?thesis using k1(4-6) f by blast
  qed
qed

text \<open>After \<open>i\<close> ticks the tasks that had at most \<open>i\<close> ticks left are ready.\<close>

lemma ticks_elapse:
  assumes "runs k" and "i < 2 ^ 32"
  shows "\<exists>k'. tick_interrupts i k = Inr k' \<and> runs k' \<and> wake_time k' = wake_time k \<and> prio k' = prio k \<and>
    xTickCount k' = xTickCount k + of_nat i \<and>
    (\<forall>t. blocked k t \<longrightarrow> wake_time k t \<noteq> xTickCount k \<longrightarrow>
      (is_ready k' t \<longleftrightarrow> is_ready k t \<or> unat (wake_time k t - xTickCount k) \<le> i) \<and>
      (blocked k' t \<longleftrightarrow> i < unat (wake_time k t - xTickCount k)))"
  using assms(2)
proof (induction i)
  case 0
  show ?case using assms(1) by (intro exI [of _ k]) (auto simp: unat_eq_0 unat_gt_0)
next
  case (Suc i)
  obtain k1 where k1: "tick_interrupts i k = Inr k1" "runs k1" "wake_time k1 = wake_time k" "prio k1 = prio k"
      "xTickCount k1 = xTickCount k + of_nat i"
      "\<And>t. blocked k t \<Longrightarrow> wake_time k t \<noteq> xTickCount k \<Longrightarrow>
        (is_ready k1 t \<longleftrightarrow> is_ready k t \<or> unat (wake_time k t - xTickCount k) \<le> i) \<and>
        (blocked k1 t \<longleftrightarrow> i < unat (wake_time k t - xTickCount k))"
    using Suc by auto
  obtain k2 where k2: "tick_interrupt k1 = Inr k2" "runs k2" "wake_time k2 = wake_time k1" "prio k2 = prio k1"
      "xTickCount k2 = xTickCount k1 + 1"
      "\<And>t. is_ready k2 t \<longleftrightarrow> is_ready k1 t \<or> blocked k1 t \<and> wake_time k1 t = xTickCount k1 + 1"
      "\<And>t. blocked k2 t \<longleftrightarrow> blocked k1 t \<and> wake_time k1 t \<noteq> xTickCount k1 + 1"
    using tick_interrupt_step [OF k1(2)] by blast
  have due: "wake_time k t = xTickCount k1 + 1 \<longleftrightarrow> unat (wake_time k t - xTickCount k) = Suc i" for t
  proof -
    have "wake_time k t = xTickCount k1 + 1 \<longleftrightarrow> wake_time k t - xTickCount k = of_nat (Suc i)"
      by (auto simp: k1(5) algebra_simps)
    also have "\<dots> \<longleftrightarrow> unat (wake_time k t - xTickCount k) = Suc i"
      using Suc.prems unat_of_nat_small [of "Suc i", where 'a = 32] by (simp only: word_unat_eq_iff) simp
    finally show ?thesis .
  qed
  show ?case
  proof (intro exI [of _ k2] conjI allI impI)
    fix t assume b: "blocked k t" "wake_time k t \<noteq> xTickCount k"
    show "is_ready k2 t \<longleftrightarrow> is_ready k t \<or> unat (wake_time k t - xTickCount k) \<le> Suc i"
      using k1(6) [OF b] k2(6) [of t] due [of t] k1(3) by auto
    show "blocked k2 t \<longleftrightarrow> Suc i < unat (wake_time k t - xTickCount k)"
      using k1(6) [OF b] k2(7) [of t] due [of t] k1(3) by auto
  qed (use k1 k2 in \<open>simp_all add: algebra_simps\<close>)
qed

section \<open>Starting a delay\<close>

text \<open>A task delays itself while another task is ready.\<close>

lemma delay_step:
  assumes "runs k" and "pxCurrentTCB k = Some t" and "is_ready k x" and "x \<noteq> t" and "0 < n"
    and "xPendingReadyList k = []" and "xPendedTicks k = 0"
  shows "\<exists>k1 k2. vTaskDelay_block n k = Inr k1 \<and> take_pendsv k1 = Inr k2 \<and> runs k2 \<and> \<not> is_ready k2 t \<and>
    blocked k2 t \<and> wake_time k2 t = xTickCount k + n \<and> xTickCount k2 = xTickCount k \<and> prio k2 = prio k"
proof -
  let ?ks = "vTaskSuspendAll k"
  have k: "kernel_inv k" "uxSchedulerSuspended k = 0" using assms(1) by (simp_all add: runs_def)
  have ks: "kernel_inv ?ks" "pxCurrentTCB ?ks = Some t" "is_ready ?ks = is_ready k" "xTickCount ?ks = xTickCount k"
    "prio ?ks = prio k"
    using k assms(2) by (simp_all add: vTaskSuspendAll_def prio_def fun_eq_iff)
  obtain k1 where k1: "prvAddCurrentTaskToDelayedList n False ?ks = Inr k1" "kernel_inv k1" "call_frame ?ks k1"
      "prio k1 = prio k" "\<And>y. is_ready k1 y \<longleftrightarrow> y \<noteq> t \<and> is_ready k y" "blocked k1 t" "wake_time k1 t = xTickCount k + n"
    using add_delayed [OF ks(1,2) assms(5), of False] ks(3-5) by auto
  let ?k2 = "k1\<lparr>uxSchedulerSuspended := 0\<rparr>"
  have f: "uxSchedulerSuspended k1 = 1" "xPendingReadyList k1 = []" "xPendedTicks k1 = 0" "xTickCount k1 = xTickCount k"
    using k1(3) k(2) assms(6,7) by (simp_all add: call_frame_def vTaskSuspendAll_def)
  have "xTaskResumeAll k1 = Inr (uxCurrentNumberOfTasks k1 \<noteq> 0 \<and> xYieldPending k1,
      if uxCurrentNumberOfTasks k1 \<noteq> 0 \<and> xYieldPending k1 then portYIELD ?k2 else ?k2)"
    using f by (simp add: xTaskResumeAll_def Let_def)
  then have d: "vTaskDelay_block n k = Inr (portYIELD ?k2)"
    using k(2) k1(1) assms(5) by (simp add: vTaskDelay_block_def)
  have "is_ready ?k2 x" using k1(5) assms(3,4) by simp
  then obtain k3 where k3: "take_pendsv (portYIELD ?k2) = Inr k3" "runs k3" "is_ready k3 = is_ready ?k2"
      "blocked k3 = blocked ?k2" "wake_time k3 = wake_time ?k2" "xTickCount k3 = xTickCount ?k2" "prio k3 = prio ?k2"
    using pendsv_step [of ?k2 x] k1(2) by auto
  have "blocked ?k2 t" "wake_time ?k2 t = xTickCount k + n" "prio ?k2 = prio k1" "\<not> is_ready ?k2 t"
    using k1(5-7) by (simp_all add: blocked_def wake_time_def prio_def fun_eq_iff)
  then show ?thesis using d k3 k1(4) f(4) by (intro exI [of _ "portYIELD ?k2"] exI [of _ k3]) simp
qed

text \<open>C10: a delay lasts exactly as long as asked for, also when the tick count wraps around. From any state
  that keeps the invariant, with some other task ready, \<open>vTaskDelay\<close> gives the processor to another
  task; after each of the next \<open>n - 1\<close> tick interrupts the task is neither ready nor running, after the
  \<open>n\<close>-th it is ready. No interrupt on the way fails an assertion, and whenever a switch is asked for
  it finds a task.\<close>

theorem delay_is_exact:
  assumes "runs k" and "pxCurrentTCB k = Some t" and "is_ready k x" and "x \<noteq> t" and "0 < n"
    and "xPendingReadyList k = []" and "xPendedTicks k = 0"
  shows "\<exists>k1 k2. vTaskDelay_block n k = Inr k1 \<and> take_pendsv k1 = Inr k2 \<and>
    (\<forall>i<unat n. \<exists>ki. tick_interrupts i k2 = Inr ki \<and> \<not> is_ready ki t \<and> pxCurrentTCB ki \<noteq> Some t) \<and>
    (\<exists>kn. tick_interrupts (unat n) k2 = Inr kn \<and> is_ready kn t \<and> kernel_inv kn)"
proof -
  obtain k1 k2 where k: "vTaskDelay_block n k = Inr k1" "take_pendsv k1 = Inr k2" "runs k2" "\<not> is_ready k2 t"
      "blocked k2 t" "wake_time k2 t = xTickCount k + n" "xTickCount k2 = xTickCount k"
    using delay_step [OF assms] by blast
  have due: "wake_time k2 t \<noteq> xTickCount k2" "unat (wake_time k2 t - xTickCount k2) = unat n"
    using k(6,7) assms(5) by auto
  have steps: "\<exists>ki. tick_interrupts i k2 = Inr ki \<and> runs ki \<and> (is_ready ki t \<longleftrightarrow> unat n \<le> i)" if "i \<le> unat n" for i
  proof -
    have "unat n < 2 ^ LENGTH(32)" by (rule unsigned_less)
    then have "i < 2 ^ 32" using that by simp
    from ticks_elapse [OF k(3) this] show ?thesis using due k(4,5) by auto
  qed
  have "\<exists>ki. tick_interrupts i k2 = Inr ki \<and> \<not> is_ready ki t \<and> pxCurrentTCB ki \<noteq> Some t" if "i < unat n" for i
    using steps [of i] that by (auto simp: runs_def)
  moreover have "\<exists>kn. tick_interrupts (unat n) k2 = Inr kn \<and> is_ready kn t \<and> kernel_inv kn"
    using steps [of "unat n"] by (auto simp: runs_def)
  ultimately show ?thesis using k(1,2) by blast
qed

text \<open>The kernel that \<open>main\<close> starts keeps the invariant.\<close>

lemma booted_runs:
  assumes "ids_ok i"
  shows "runs (booted i)" "is_ready (booted i) (id_timer i)" "is_ready (booted i) (id_idle i)"
proof -
  have ne: "id_init i \<noteq> id_idle i" "id_init i \<noteq> id_timer i" "id_idle i \<noteq> id_timer i" using assms by (auto simp: ids_ok_def)
  have pr: "prio (booted i) (id_init i) = 5" "prio (booted i) (id_idle i) = 0" "prio (booted i) (id_timer i) = 2"
    using ne by (simp_all add: prio_def booted_def new_tcb_def Let_def configMAX_PRIORITIES_def)
  have e: "waiting (booted i) = []" "pxDelayedTaskList (booted i) = []" "pxOverflowDelayedTaskList (booted i) = []"
    "uxTopReadyPriority (booted i) = 5"
    by (simp_all add: waiting_def booted_def kernel_start_def)
  have "rings_ok (booted i)" using booted_boot(1) [OF assms] by (simp add: boot_def)
  then have "kernel_inv (booted i)"
    using pr e by (simp add: kernel_inv_def lists_inv_def time_inv_def sorted_inv_def booted_ready)
  moreover show "is_ready (booted i) (id_timer i)" "is_ready (booted i) (id_idle i)"
    using pr by (simp_all add: is_ready_def booted_ready)
  moreover have "is_ready (booted i) (id_init i)" using pr by (simp add: is_ready_def booted_ready)
  ultimately show "runs (booted i)" by (simp add: runs_def) (simp add: booted_def kernel_start_def)
qed

theorem delay_is_exact_witness:
  "\<exists>k1 k2. vTaskDelay_block 5000 (booted ids_example) = Inr k1 \<and> take_pendsv k1 = Inr k2 \<and>
    (\<forall>i<unat (5000 :: u32). \<exists>ki. tick_interrupts i k2 = Inr ki \<and> \<not> is_ready ki 1 \<and> pxCurrentTCB ki \<noteq> Some 1) \<and>
    (\<exists>kn. tick_interrupts (unat (5000 :: u32)) k2 = Inr kn \<and> is_ready kn 1 \<and> kernel_inv kn)"
proof (rule delay_is_exact)
  have ids: "ids_ok ids_example" by (simp add: ids_ok_def ids_example_def)
  show "runs (booted ids_example)" "is_ready (booted ids_example) (id_idle ids_example)"
    using booted_runs [OF ids] by simp_all
  show "pxCurrentTCB (booted ids_example) = Some 1" "id_idle ids_example \<noteq> 1"
    by (simp_all add: booted_def ids_example_def)
qed (simp_all add: booted_def kernel_start_def)

section \<open>The choice of the next task\<close>

text \<open>C9: the scheduler never lets a task run while one of higher priority is ready. In every state that
  keeps the invariant, with the scheduler not suspended and some task ready (the idle task always is),
  the switch returns; the task it chooses is ready, no ready task has a higher priority, it goes to
  the end of its ready list, and no list gains or loses a task.\<close>

theorem context_switch_picks_highest:
  assumes "kernel_inv k" and "uxSchedulerSuspended k = 0" and "is_ready k x"
  shows "\<exists>k' c. vTaskSwitchContext k = Inr k' \<and> pxCurrentTCB k' = Some c \<and> is_ready k c \<and>
    (\<forall>t. is_ready k t \<longrightarrow> prio k t \<le> prio k c) \<and> ready_at k' (prio k c) = rotate1 (ready_at k (prio k c)) \<and>
    (\<forall>q. q \<noteq> prio k c \<longrightarrow> ready_at k' q = ready_at k q) \<and> kernel_inv k'"
proof -
  obtain k' c q rs where s: "vTaskSwitchContext k = Inr k'" "pxCurrentTCB k' = Some c" "is_ready k c"
      "\<forall>t. is_ready k t \<longrightarrow> prio k t \<le> prio k c" "lists_inv k'"
      "ready_at k' (prio k c) = rotate1 (ready_at k (prio k c))" "\<forall>q. q \<noteq> prio k c \<longrightarrow> ready_at k' q = ready_at k q"
      "k' = k\<lparr>xYieldPending := False, pxCurrentTCB := Some c, pxReadyTasksLists := rs, uxTopReadyPriority := q\<rparr>"
    using switch_step [of k x] assms unfolding kernel_inv_def by blast
  moreover have "time_inv k'" unfolding s(8) time_frame using assms(1) by (simp add: kernel_inv_def)
  ultimately show ?thesis by (auto simp: kernel_inv_def)
qed

theorem context_switch_picks_highest_witness:
  "\<exists>k' c. vTaskSwitchContext (booted ids_example) = Inr k' \<and> pxCurrentTCB k' = Some c \<and> is_ready (booted ids_example) c \<and>
    (\<forall>t. is_ready (booted ids_example) t \<longrightarrow> prio (booted ids_example) t \<le> prio (booted ids_example) c)"
proof -
  have "ids_ok ids_example" by (simp add: ids_ok_def ids_example_def)
  note b = booted_runs [OF this]
  have "kernel_inv (booted ids_example)" "uxSchedulerSuspended (booted ids_example) = 0"
    using b(1) by (simp_all add: runs_def)
  from context_switch_picks_highest [OF this b(2)] show ?thesis by blast
qed

end
