(* ===== verification/KernelControl.thy ===== *)
theory KernelControl
  imports Kernel
begin

text \<open>
  The rest of tasks.c: the suspension and resumption of single tasks, priorities changed while the
  system runs, periodic delays, the state queries, the event lists that queues and event groups block
  tasks on, and the inheritance of priorities by the holder of a mutex.
\<close>

section \<open>Queries\<close>

definition xTaskGetTickCount :: "kernel \<Rightarrow> u32" where
  "xTaskGetTickCount k = xTickCount k"

definition uxTaskGetNumberOfTasks :: "kernel \<Rightarrow> nat" where
  "uxTaskGetNumberOfTasks k = uxCurrentNumberOfTasks k"

definition xTaskGetCurrentTaskHandle :: "kernel \<Rightarrow> task option" where
  "xTaskGetCurrentTaskHandle k = pxCurrentTCB k"

definition uxTaskPriorityGet :: "task option \<Rightarrow> kernel \<Rightarrow> nat res" where
  "uxTaskPriorityGet xTask k = bindR (prvGetTCBFromHandle xTask k) (\<lambda>t. Inr (uxPriority (tcbs k t)))"

text \<open>\<open>listIS_CONTAINED_WITHIN\<close> for the state item and a ready list.\<close>

definition in_ready_list :: "nat \<Rightarrow> task \<Rightarrow> kernel \<Rightarrow> bool" where
  "in_ready_list p t k = (Some t \<in> set (pxReadyTasksLists k p))"

datatype eTaskState = eRunning | eReady | eBlocked | eSuspended | eDeleted | eInvalid

definition eTaskGetState :: "task option \<Rightarrow> kernel \<Rightarrow> eTaskState res" where
  "eTaskGetState xTask k =
     (case xTask of None \<Rightarrow> Inl Assert_failed
      | Some t \<Rightarrow> Inr
         (if Some t = pxCurrentTCB k then eRunning
          else if t \<in> set (pxDelayedTaskList k) \<or> t \<in> set (pxOverflowDelayedTaskList k) then eBlocked
          else if t \<in> set (xSuspendedTaskList k) then
            (if xEventContainer (tcbs k t) = None then
               (if ucNotifyState (tcbs k t) = taskWAITING_NOTIFICATION then eBlocked else eSuspended)
             else eBlocked)
          else if t \<in> set (xTasksWaitingTermination k) \<or>
                  \<not> list_ex (\<lambda>p. in_ready_list p t k) [0..<configMAX_PRIORITIES] then eDeleted
          else eReady))"

section \<open>Suspending and resuming a task\<close>

text \<open>What \<open>vTaskSuspend\<close> does to the lists, in its two critical sections.\<close>

definition suspend_task :: "task \<Rightarrow> kernel \<Rightarrow> kernel" where
  "suspend_task t k =
     (let k1 = remove_state_item t k;
          k2 = (if xEventContainer (tcbs k1 t) \<noteq> None then remove_event_item t k1 else k1);
          k3 = k2\<lparr>xSuspendedTaskList := xSuspendedTaskList k2 @ [t]\<rparr>;
          k4 = (if ucNotifyState (tcbs k3 t) = taskWAITING_NOTIFICATION
                then upd_tcb t (\<lambda>c. c\<lparr>ucNotifyState := taskNOT_WAITING_NOTIFICATION\<rparr>) k3 else k3)
      in if xSchedulerRunning k4 then prvResetNextTaskUnblockTime k4 else k4)"

definition vTaskSuspend :: "task option \<Rightarrow> kernel \<Rightarrow> kernel res" where
  "vTaskSuspend xTaskToSuspend k =
     bindR (prvGetTCBFromHandle xTaskToSuspend k) (\<lambda>t.
     let k1 = suspend_task t k in
     if Some t = pxCurrentTCB k1 then
       if xSchedulerRunning k1
       then bindR (assertR (uxSchedulerSuspended k1 = 0)) (\<lambda>_. Inr (portYIELD k1))
       else if length (xSuspendedTaskList k1) = uxCurrentNumberOfTasks k1
       then Inr (k1\<lparr>pxCurrentTCB := None\<rparr>)
       else vTaskSwitchContext k1
     else Inr k1)"

definition prvTaskIsTaskSuspended :: "task \<Rightarrow> kernel \<Rightarrow> bool" where
  "prvTaskIsTaskSuspended t k \<longleftrightarrow>
     t \<in> set (xSuspendedTaskList k) \<and> xEventContainer (tcbs k t) \<noteq> Some PendingReady \<and>
     xEventContainer (tcbs k t) = None"

definition vTaskResume :: "task option \<Rightarrow> kernel \<Rightarrow> kernel res" where
  "vTaskResume xTaskToResume k =
     (case xTaskToResume of None \<Rightarrow> Inl Assert_failed
      | Some t \<Rightarrow>
          if Some t \<noteq> pxCurrentTCB k \<and> prvTaskIsTaskSuspended t k then
            let k1 = prvAddTaskToReadyList t (remove_state_item t k) in
            bindR (current k1) (\<lambda>c. Inr (if prio k1 c \<le> prio k1 t then portYIELD k1 else k1))
          else Inr k)"

text \<open>The result says whether the interrupt should ask for a switch.\<close>

definition xTaskResumeFromISR :: "task option \<Rightarrow> kernel \<Rightarrow> (bool \<times> kernel) res" where
  "xTaskResumeFromISR xTaskToResume k =
     (case xTaskToResume of None \<Rightarrow> Inl Assert_failed
      | Some t \<Rightarrow>
          if prvTaskIsTaskSuspended t k then
            if uxSchedulerSuspended k = 0
            then bindR (current k) (\<lambda>c.
                 Inr (prio k c \<le> prio k t, prvAddTaskToReadyList t (remove_state_item t k)))
            else Inr (False, pend_ready t k)
          else Inr (False, k))"

section \<open>Changing a priority\<close>

definition taskEVENT_LIST_ITEM_VALUE_IN_USE :: u32 where
  "taskEVENT_LIST_ITEM_VALUE_IN_USE = 0x80000000"

text \<open>The value of the event item follows the priority unless an event group is using it.\<close>

definition set_event_value :: "nat \<Rightarrow> tcb \<Rightarrow> tcb" where
  "set_event_value p c =
     (if xEventItemValue c AND taskEVENT_LIST_ITEM_VALUE_IN_USE = 0
      then c\<lparr>xEventItemValue := event_value p\<rparr> else c)"

text \<open>A task whose priority has changed moves to the ready list of the new one if it was in the ready list
  of the priority \<open>p\<close> it had.\<close>

definition requeue :: "nat \<Rightarrow> task \<Rightarrow> kernel \<Rightarrow> kernel" where
  "requeue p t k =
     (if in_ready_list p t k then prvAddTaskToReadyList t (remove_state_item t k) else k)"

text \<open>A priority above the highest does not pass the assertion, so the clipping after it does nothing.\<close>

definition vTaskPrioritySet :: "task option \<Rightarrow> nat \<Rightarrow> kernel \<Rightarrow> kernel res" where
  "vTaskPrioritySet xTask uxNewPriority k =
     bindR (assertR (uxNewPriority < configMAX_PRIORITIES)) (\<lambda>_.
     bindR (prvGetTCBFromHandle xTask k) (\<lambda>t.
     let uxCurrentBasePriority = uxBasePriority (tcbs k t) in
     if uxCurrentBasePriority \<noteq> uxNewPriority then
       bindR (if uxCurrentBasePriority < uxNewPriority
              then (if Some t \<noteq> pxCurrentTCB k
                    then bindR (current k) (\<lambda>c. Inr (prio k c \<le> uxNewPriority)) else Inr False)
              else Inr (Some t = pxCurrentTCB k)) (\<lambda>xYieldRequired.
       let uxPriorityUsedOnEntry = uxPriority (tcbs k t);
           k1 = upd_tcb t (\<lambda>c. c\<lparr>uxPriority :=
                  (if uxBasePriority c = uxPriority c then uxNewPriority else uxPriority c),
                  uxBasePriority := uxNewPriority\<rparr>) k;
           k2 = upd_tcb t (set_event_value uxNewPriority) k1;
           k3 = requeue uxPriorityUsedOnEntry t k2 in
       Inr (if xYieldRequired then portYIELD k3 else k3))
     else Inr k))"

section \<open>Periodic delays and lost ticks\<close>

text \<open>\<open>*pxPreviousWakeTime\<close> is an argument and a result.\<close>

definition vTaskDelayUntil_block :: "u32 \<Rightarrow> u32 \<Rightarrow> kernel \<Rightarrow> (u32 \<times> kernel) res" where
  "vTaskDelayUntil_block pxPreviousWakeTime xTimeIncrement k =
     bindR (assertR (0 < xTimeIncrement)) (\<lambda>_.
     bindR (assertR (uxSchedulerSuspended k = 0)) (\<lambda>_.
     let k1 = vTaskSuspendAll k;
         xConstTickCount = xTickCount k1;
         xTimeToWake = pxPreviousWakeTime + xTimeIncrement;
         xShouldDelay =
           (if xConstTickCount < pxPreviousWakeTime
            then xTimeToWake < pxPreviousWakeTime \<and> xConstTickCount < xTimeToWake
            else xTimeToWake < pxPreviousWakeTime \<or> xConstTickCount < xTimeToWake) in
     bindR (if xShouldDelay
            then prvAddCurrentTaskToDelayedList (xTimeToWake - xConstTickCount) False k1 else Inr k1) (\<lambda>k2.
     bindR (xTaskResumeAll k2) (\<lambda>(xAlreadyYielded, k3).
     Inr (xTimeToWake, if xAlreadyYielded then k3 else portYIELD k3)))))"

definition xTaskCatchUpTicks :: "u32 \<Rightarrow> kernel \<Rightarrow> (bool \<times> kernel) res" where
  "xTaskCatchUpTicks xTicksToCatchUp k =
     bindR (assertR (uxSchedulerSuspended k = 0)) (\<lambda>_.
     let k1 = vTaskSuspendAll k in
     xTaskResumeAll (k1\<lparr>xPendedTicks := xPendedTicks k1 + xTicksToCatchUp\<rparr>))"

definition vTaskMissedYield :: "kernel \<Rightarrow> kernel" where
  "vTaskMissedYield k = k\<lparr>xYieldPending := True\<rparr>"

text \<open>One turn of the idle task's loop.\<close>

definition prvIdleTask_step :: "kernel \<Rightarrow> kernel res" where
  "prvIdleTask_step k =
     bindR (prvCheckTasksWaitingTermination k) (\<lambda>k1.
     Inr (if 2 < length (pxReadyTasksLists k1 0) then portYIELD k1 else k1))"

section \<open>Event lists\<close>

text \<open>The list at address \<open>q\<close> takes the event item of the task; the item knows its list.\<close>

definition put_event_list :: "nat \<Rightarrow> task list \<Rightarrow> task \<Rightarrow> kernel \<Rightarrow> kernel" where
  "put_event_list q l t k =
     upd_tcb t (\<lambda>c. c\<lparr>xEventContainer := Some (EventList q)\<rparr>) (k\<lparr>xEventLists := (xEventLists k)(q := l)\<rparr>)"

definition vTaskPlaceOnEventList :: "nat \<Rightarrow> u32 \<Rightarrow> kernel \<Rightarrow> kernel res" where
  "vTaskPlaceOnEventList q xTicksToWait k =
     bindR (current k) (\<lambda>t.
     prvAddCurrentTaskToDelayedList xTicksToWait True
       (put_event_list q (vListInsert (\<lambda>t. xEventItemValue (tcbs k t)) t (xEventLists k q)) t k))"

definition vTaskPlaceOnUnorderedEventList :: "nat \<Rightarrow> u32 \<Rightarrow> u32 \<Rightarrow> kernel \<Rightarrow> kernel res" where
  "vTaskPlaceOnUnorderedEventList q v xTicksToWait k =
     bindR (assertR (uxSchedulerSuspended k \<noteq> 0)) (\<lambda>_.
     bindR (current k) (\<lambda>t.
     let k1 = upd_tcb t (\<lambda>c. c\<lparr>xEventItemValue := v OR taskEVENT_LIST_ITEM_VALUE_IN_USE\<rparr>) k in
     prvAddCurrentTaskToDelayedList xTicksToWait True (put_event_list q (xEventLists k1 q @ [t]) t k1)))"

definition vTaskPlaceOnEventListRestricted :: "nat \<Rightarrow> u32 \<Rightarrow> bool \<Rightarrow> kernel \<Rightarrow> kernel res" where
  "vTaskPlaceOnEventListRestricted q xTicksToWait xWaitIndefinitely k =
     bindR (current k) (\<lambda>t.
     prvAddCurrentTaskToDelayedList (if xWaitIndefinitely then portMAX_DELAY else xTicksToWait) xWaitIndefinitely
       (put_event_list q (xEventLists k q @ [t]) t k))"

text \<open>The callers have seen that the list is not empty; the head of an empty one is a wild read.\<close>

definition xTaskRemoveFromEventList :: "nat \<Rightarrow> kernel \<Rightarrow> (bool \<times> kernel) res" where
  "xTaskRemoveFromEventList q k =
     (case xEventLists k q of [] \<Rightarrow> Inl Bounds
      | t # _ \<Rightarrow>
          let k1 = remove_event_item t k;
              k2 = (if uxSchedulerSuspended k1 = 0
                    then prvAddTaskToReadyList t (remove_state_item t k1) else pend_ready t k1) in
          bindR (current k2) (\<lambda>c.
          Inr (if prio k2 c < prio k2 t then (True, k2\<lparr>xYieldPending := True\<rparr>) else (False, k2))))"

definition vTaskRemoveFromUnorderedEventList :: "task \<Rightarrow> u32 \<Rightarrow> kernel \<Rightarrow> kernel res" where
  "vTaskRemoveFromUnorderedEventList t v k =
     bindR (assertR (uxSchedulerSuspended k \<noteq> 0)) (\<lambda>_.
     let k1 = upd_tcb t (\<lambda>c. c\<lparr>xEventItemValue := v OR taskEVENT_LIST_ITEM_VALUE_IN_USE\<rparr>) k;
         k2 = prvAddTaskToReadyList t (remove_state_item t (remove_event_item t k1)) in
     bindR (current k2) (\<lambda>c. Inr (if prio k2 c < prio k2 t then k2\<lparr>xYieldPending := True\<rparr> else k2)))"

definition uxTaskResetEventItemValue :: "kernel \<Rightarrow> (u32 \<times> kernel) res" where
  "uxTaskResetEventItemValue k =
     bindR (current k) (\<lambda>t.
     Inr (xEventItemValue (tcbs k t),
          upd_tcb t (\<lambda>c. c\<lparr>xEventItemValue := event_value (uxPriority c)\<rparr>) k))"

section \<open>Mutexes and inherited priorities\<close>

definition pvTaskIncrementMutexHeldCount :: "kernel \<Rightarrow> task option \<times> kernel" where
  "pvTaskIncrementMutexHeldCount k =
     (case pxCurrentTCB k of None \<Rightarrow> (None, k)
      | Some t \<Rightarrow> (Some t, upd_tcb t (\<lambda>c. c\<lparr>uxMutexesHeld := Suc (uxMutexesHeld c)\<rparr>) k))"

definition xTaskPriorityInherit :: "task option \<Rightarrow> kernel \<Rightarrow> (bool \<times> kernel) res" where
  "xTaskPriorityInherit pxMutexHolder k =
     (case pxMutexHolder of None \<Rightarrow> Inr (False, k)
      | Some h \<Rightarrow>
          bindR (current k) (\<lambda>c.
          if prio k h < prio k c then
            let k1 = upd_tcb h (set_event_value (prio k c)) k;
                k2 = upd_tcb h (\<lambda>x. x\<lparr>uxPriority := prio k c\<rparr>) k1 in
            Inr (True, requeue (prio k h) h k2)
          else Inr (uxBasePriority (tcbs k h) < prio k c, k)))"

definition xTaskPriorityDisinherit :: "task option \<Rightarrow> kernel \<Rightarrow> (bool \<times> kernel) res" where
  "xTaskPriorityDisinherit pxMutexHolder k =
     (case pxMutexHolder of None \<Rightarrow> Inr (False, k)
      | Some t \<Rightarrow>
          bindR (assertR (Some t = pxCurrentTCB k)) (\<lambda>_.
          bindR (assertR (uxMutexesHeld (tcbs k t) \<noteq> 0)) (\<lambda>_.
          let k1 = upd_tcb t (\<lambda>c. c\<lparr>uxMutexesHeld := uxMutexesHeld c - 1\<rparr>) k in
          if uxPriority (tcbs k1 t) \<noteq> uxBasePriority (tcbs k1 t) \<and> uxMutexesHeld (tcbs k1 t) = 0 then
            let k2 = remove_state_item t k1;
                k3 = upd_tcb t (\<lambda>c. c\<lparr>uxPriority := uxBasePriority c,
                       xEventItemValue := event_value (uxBasePriority c)\<rparr>) k2 in
            Inr (True, prvAddTaskToReadyList t k3)
          else Inr (False, k1))))"

definition vTaskPriorityDisinheritAfterTimeout :: "task option \<Rightarrow> nat \<Rightarrow> kernel \<Rightarrow> kernel res" where
  "vTaskPriorityDisinheritAfterTimeout pxMutexHolder uxHighestPriorityWaitingTask k =
     (case pxMutexHolder of None \<Rightarrow> Inr k
      | Some t \<Rightarrow>
          bindR (assertR (uxMutexesHeld (tcbs k t) \<noteq> 0)) (\<lambda>_.
          let uxPriorityToUse = max (uxBasePriority (tcbs k t)) uxHighestPriorityWaitingTask in
          if uxPriority (tcbs k t) \<noteq> uxPriorityToUse \<and> uxMutexesHeld (tcbs k t) = 1 then
            bindR (assertR (Some t \<noteq> pxCurrentTCB k)) (\<lambda>_.
            let uxPriorityUsedOnEntry = uxPriority (tcbs k t);
                k1 = upd_tcb t (\<lambda>c. c\<lparr>uxPriority := uxPriorityToUse\<rparr>) k;
                k2 = upd_tcb t (set_event_value uxPriorityToUse) k1 in
            Inr (requeue uxPriorityUsedOnEntry t k2))
          else Inr k))"

end
