(* ===== verification/KernelOk.thy ===== *)
theory KernelOk
  imports KernelTime KernelControl
begin

text \<open>
  Each call of the kernel keeps the invariant, whatever the state it is made in: the calls of Kernel.
  \<open>kernel_ok\<close> adds to the invariant that the scheduler has been started, so that some task is current.
\<close>

definition kernel_ok :: "kernel \<Rightarrow> bool" where
  "kernel_ok k \<longleftrightarrow> kernel_inv k \<and> pxCurrentTCB k \<noteq> None \<and> xSchedulerRunning k"

section \<open>Each call keeps the invariant\<close>

lemma running_frames [simp]:
  "xSchedulerRunning (remove_state_item t k) = xSchedulerRunning k"
  "xSchedulerRunning (prvAddTaskToReadyList t k) = xSchedulerRunning k"
  "xSchedulerRunning (upd_tcb t f k) = xSchedulerRunning k"
  "xSchedulerRunning (remove_event_item t k) = xSchedulerRunning k"
  "xSchedulerRunning (pend_ready t k) = xSchedulerRunning k"
  by (simp_all add: remove_state_item_def prvAddTaskToReadyList_def upd_tcb_def remove_event_item_def pend_ready_def Let_def)

lemma running_delayed:
  "prvAddCurrentTaskToDelayedList n b k = Inr k' \<Longrightarrow> xSchedulerRunning k' = xSchedulerRunning k"
  by (auto simp: prvAddCurrentTaskToDelayedList_def Let_def bindR_Inr_iff split: if_splits)

lemma portYIELD_ok [simp]: "kernel_ok (portYIELD k) = kernel_ok k"
  by (simp add: kernel_ok_def portYIELD_def)

lemma ok_frames [simp]:
  "kernel_ok (k\<lparr>pendsv := b\<rparr>) = kernel_ok k" "kernel_ok (k\<lparr>xYieldPending := b\<rparr>) = kernel_ok k"
  "kernel_ok (k\<lparr>uxSchedulerSuspended := n\<rparr>) = kernel_ok k" "kernel_ok (k\<lparr>xPendedTicks := v\<rparr>) = kernel_ok k"
  "kernel_ok (remove_event_item t k) = kernel_ok k" "kernel_ok (pend_ready t k) = kernel_ok k"
  by (simp_all add: kernel_ok_def) (simp_all add: remove_event_item_def pend_ready_def upd_tcb_def)

lemma ok_upd [simp]:
  "(\<And>c. uxPriority (f c) = uxPriority c) \<Longrightarrow> (\<And>c. xItemValue (f c) = xItemValue c) \<Longrightarrow>
   kernel_ok (upd_tcb t f k) = kernel_ok k"
  by (simp add: kernel_ok_def) (simp add: upd_tcb_def)

lemma ok_move: "kernel_ok k \<Longrightarrow> kernel_ok (prvAddTaskToReadyList t (remove_state_item t k))"
  by (simp add: kernel_ok_def move_ready_kernel_inv)
    (simp add: prvAddTaskToReadyList_def Let_def remove_state_item_def)

lemma ok_current: "kernel_ok k \<Longrightarrow> \<exists>c. pxCurrentTCB k = Some c \<and> current k = Inr c"
  by (auto simp: kernel_ok_def current_def)

lemma ok_reset: "kernel_ok k \<Longrightarrow> kernel_ok (prvResetNextTaskUnblockTime k)"
proof -
  assume k: "kernel_ok k"
  obtain v where v: "prvResetNextTaskUnblockTime k = k\<lparr>xNextTaskUnblockTime := v\<rparr>"
      "sorted (map (wake_time k) (pxDelayedTaskList k)) \<longrightarrow> (\<forall>t\<in>set (pxDelayedTaskList k). v \<le> wake_time k t)"
    using reset_next by blast
  show ?thesis using k v(2) unfolding v(1)
    by (auto simp: kernel_ok_def kernel_inv_def time_inv_def sorted_inv_def)
qed

lemma ok_tick: "kernel_ok k \<Longrightarrow> \<exists>sw k'. xTaskIncrementTick k = Inr (sw, k') \<and> kernel_ok k'"
proof (cases "uxSchedulerSuspended k = 0")
  case True
  assume k: "kernel_ok k"
  then obtain c where c: "pxCurrentTCB k = Some c" "kernel_inv k" by (auto simp: kernel_ok_def)
  show ?thesis using tick_step [OF c(2) True c(1)] c(1) k by (fastforce simp: kernel_ok_def tick_frame_def)
qed (auto simp: xTaskIncrementTick_def)

lemma ok_switch: "kernel_ok k \<Longrightarrow> vTaskSwitchContext k = Inr k' \<Longrightarrow> kernel_ok k'"
proof (cases "uxSchedulerSuspended k = 0")
  case True
  assume k: "kernel_ok k" and s: "vTaskSwitchContext k = Inr k'"
  have inv: "lists_inv k" "time_inv k" using k by (simp_all add: kernel_ok_def kernel_inv_def)
  obtain p where "find_ready (pxReadyTasksLists k) (uxTopReadyPriority k) = Inr p"
    using s True by (auto simp: vTaskSwitchContext_def taskSELECT_HIGHEST_PRIORITY_TASK_def bindR_Inr_iff)
  then have "ready_at k p \<noteq> []" using find_ready_sound ready_empty lists_invD(1) [OF inv(1)] by blast
  then have "is_ready k (hd (ready_at k p))" using ready_iff [OF inv(1)] hd_in_set by blast
  from switch_step [OF inv(1) True this] obtain c q rs where "pxCurrentTCB k' = Some c" "lists_inv k'"
      "k' = k\<lparr>xYieldPending := False, pxCurrentTCB := Some c, pxReadyTasksLists := rs, uxTopReadyPriority := q\<rparr>"
    using s by auto
  then show ?thesis using inv(2) k time_frame(1) by (simp add: kernel_ok_def kernel_inv_def)
qed (auto simp: vTaskSwitchContext_def)

lemma ok_pendsv: "kernel_ok k \<Longrightarrow> take_pendsv k = Inr k' \<Longrightarrow> kernel_ok k'"
  by (auto simp: take_pendsv_def split: if_splits intro: ok_switch [rotated])

lemma ok_move_pending: "kernel_ok k \<Longrightarrow> move_pending ts k = Inr k' \<Longrightarrow> kernel_ok k'"
proof (induction ts arbitrary: k)
  case (Cons t ts)
  let ?k1 = "prvAddTaskToReadyList t (remove_state_item t (remove_event_item t k))"
  have k1: "kernel_ok ?k1" using Cons.prems(1) ok_move [of "remove_event_item t k" t] by simp
  obtain c where "current k = Inr c" using ok_current [OF Cons.prems(1)] by blast
  then have "move_pending ts (if prio k c \<le> prio k t then ?k1\<lparr>xYieldPending := True\<rparr> else ?k1) = Inr k'"
    using Cons.prems(2) by (simp add: Let_def)
  from Cons.IH [OF _ this] k1 show ?case by simp
qed simp

lemma ok_pended_ticks: "kernel_ok k \<Longrightarrow> \<exists>k'. pended_ticks n k = Inr k' \<and> kernel_ok k'"
proof (induction n arbitrary: k)
  case (Suc n)
  obtain sw k1 where "xTaskIncrementTick k = Inr (sw, k1)" "kernel_ok k1" using ok_tick [OF Suc.prems] by blast
  then show ?case using Suc.IH [of "if sw then k1\<lparr>xYieldPending := True\<rparr> else k1"] by auto
qed simp

text \<open>The steps of \<open>xTaskResumeAll\<close>.\<close>

lemma resume_steps:
  assumes k: "kernel_ok k" and r: "xTaskResumeAll k = Inr (b, k')"
  defines "k1 \<equiv> k\<lparr>uxSchedulerSuspended := uxSchedulerSuspended k - 1\<rparr>"
  shows "\<not> b \<and> k' = k1 \<or>
    (\<exists>k2 k3 k4. move_pending (xPendingReadyList k1) k1 = Inr k2 \<and> kernel_ok k2 \<and>
      (k3 = k2 \<or> k3 = prvResetNextTaskUnblockTime k2) \<and> kernel_ok k3 \<and>
      (k4 = k3 \<or> (\<exists>k5. pended_ticks (unat (xPendedTicks k3)) k3 = Inr k5 \<and> kernel_ok k5 \<and> k4 = k5\<lparr>xPendedTicks := 0\<rparr>)) \<and>
      (b \<and> k' = portYIELD k4 \<or> \<not> b \<and> k' = k4))"
proof (cases "uxSchedulerSuspended k1 = 0 \<and> 0 < uxCurrentNumberOfTasks k1")
  case False
  then show ?thesis using r by (auto simp: xTaskResumeAll_def Let_def bindR_Inr_iff k1_def)
next
  case True
  let ?ticks = "\<lambda>k3. if 0 < xPendedTicks k3
    then bindR (pended_ticks (unat (xPendedTicks k3)) k3) (\<lambda>k. Inr (k\<lparr>xPendedTicks := 0\<rparr>)) else Inr k3"
  let ?finish = "\<lambda>k4. if xYieldPending k4 then Inr (True, portYIELD k4) else Inr (False, k4)"
  have "uxSchedulerSuspended k \<noteq> 0"
  proof
    assume "uxSchedulerSuspended k = 0"
    then show False using r by (simp add: xTaskResumeAll_def)
  qed
  then have "bindR (move_pending (xPendingReadyList k1) k1) (\<lambda>k2.
      bindR (?ticks (if xPendingReadyList k1 \<noteq> [] then prvResetNextTaskUnblockTime k2 else k2)) ?finish) = Inr (b, k')"
    using r True unfolding xTaskResumeAll_def k1_def by (simp only: Let_def) simp
  then obtain k2 where k2: "move_pending (xPendingReadyList k1) k1 = Inr k2"
      and r2: "bindR (?ticks (if xPendingReadyList k1 \<noteq> [] then prvResetNextTaskUnblockTime k2 else k2)) ?finish = Inr (b, k')"
    by (auto simp only: bindR_Inr_iff)
  define k3 where "k3 = (if xPendingReadyList k1 \<noteq> [] then prvResetNextTaskUnblockTime k2 else k2)"
  have ok2: "kernel_ok k2" using ok_move_pending [OF _ k2] k by (simp add: k1_def)
  then have k3: "kernel_ok k3" using ok_reset by (simp add: k3_def)
  obtain k5 where k5: "pended_ticks (unat (xPendedTicks k3)) k3 = Inr k5" "kernel_ok k5"
    using ok_pended_ticks [OF k3] by blast
  define k4 where "k4 = (if 0 < xPendedTicks k3 then k5\<lparr>xPendedTicks := 0\<rparr> else k3)"
  have "?finish k4 = (Inr (b, k') :: (bool \<times> kernel) res)"
    using r2 k5(1) unfolding k3_def [symmetric] k4_def by (cases "0 < xPendedTicks k3") (simp_all split: if_splits)
  then have "b \<and> k' = portYIELD k4 \<or> \<not> b \<and> k' = k4" by (auto split: if_splits)
  moreover have "k4 = k3 \<or> (\<exists>k5. pended_ticks (unat (xPendedTicks k3)) k3 = Inr k5 \<and> kernel_ok k5 \<and> k4 = k5\<lparr>xPendedTicks := 0\<rparr>)"
    using k5 by (auto simp: k4_def)
  moreover have "k3 = k2 \<or> k3 = prvResetNextTaskUnblockTime k2" by (simp add: k3_def)
  ultimately show ?thesis using k2 ok2 k3 by blast
qed

lemma ok_resume: "kernel_ok k \<Longrightarrow> xTaskResumeAll k = Inr (b, k') \<Longrightarrow> kernel_ok k'"
  using resume_steps [of k b k'] by auto

text \<open>The steps of a tick that is not held back.\<close>

lemma tick_steps:
  assumes r: "xTaskIncrementTick k = Inr (sw, k')" and s: "uxSchedulerSuspended k = 0"
  shows "\<exists>k2 s3. (k2 = k\<lparr>xTickCount := xTickCount k + 1\<rparr> \<or> taskSWITCH_DELAYED_LISTS (k\<lparr>xTickCount := xTickCount k + 1\<rparr>) = Inr k2) \<and>
    (kernel_inv k \<longrightarrow> mid_inv k2) \<and> (k' = k2 \<and> \<not> s3 \<or> unblock_expired k2 False = Inr (k', s3)) \<and> (s3 \<or> xYieldPending k' \<longrightarrow> sw)"
proof -
  define A where "A = (let k1 = k\<lparr>xTickCount := xTickCount k + 1\<rparr> in
      if xTickCount k1 = 0 then taskSWITCH_DELAYED_LISTS k1 else Inr k1)"
  have "bindR A (\<lambda>k2. bindR (if xNextTaskUnblockTime k2 \<le> xTickCount k2 then unblock_expired k2 False else Inr (k2, False)) (\<lambda>(k3, sw).
      bindR (current k3) (\<lambda>c. Inr (sw \<or> 2 < length (pxReadyTasksLists k3 (prio k3 c)) \<or> xYieldPending k3, k3)))) = Inr (sw, k')"
    using r unfolding xTaskIncrementTick_def if_P [OF s] A_def Let_def .
  then obtain k2 s3 where a: "A = Inr k2" and s3: "(if xNextTaskUnblockTime k2 \<le> xTickCount k2 then unblock_expired k2 False else Inr (k2, False)) = Inr (k', s3)"
      and e: "s3 \<or> xYieldPending k' \<longrightarrow> sw"
    by (auto simp: bindR_Inr_iff)
  have "mid_inv k2" if "kernel_inv k" using advance_tick [OF that] a unfolding A_def by auto
  then show ?thesis using a s3 e by (intro exI [of _ k2] exI [of _ s3]) (auto simp: A_def Let_def split: if_splits)
qed

lemma ok_delayed:
  assumes "kernel_ok k" and "0 < n"
  shows "\<exists>k1. prvAddCurrentTaskToDelayedList n b k = Inr k1 \<and> kernel_ok k1"
proof -
  obtain c where c: "pxCurrentTCB k = Some c" "kernel_inv k" using assms(1) by (auto simp: kernel_ok_def)
  show ?thesis using add_delayed [OF c(2,1) assms(2), of b] c(1) assms(1) running_delayed [of n b k]
    by (auto simp: kernel_ok_def call_frame_def)
qed

lemma ok_delay: "kernel_ok k \<Longrightarrow> vTaskDelay_block n k = Inr k' \<Longrightarrow> kernel_ok k'"
proof (cases "0 < n")
  case True
  assume k: "kernel_ok k" and d: "vTaskDelay_block n k = Inr k'"
  obtain k1 where k1: "prvAddCurrentTaskToDelayedList n False (vTaskSuspendAll k) = Inr k1" "kernel_ok k1"
    using ok_delayed [OF _ True, of "vTaskSuspendAll k" False] k by (auto simp: vTaskSuspendAll_def)
  have "uxSchedulerSuspended k = 0"
  proof (rule ccontr)
    assume "uxSchedulerSuspended k \<noteq> 0"
    then show False using d True by (simp add: vTaskDelay_block_def)
  qed
  then have "vTaskDelay_block n k = bindR (xTaskResumeAll k1) (\<lambda>(b, k2). Inr (if b then k2 else portYIELD k2))"
    unfolding vTaskDelay_block_def using True k1(1) by simp
  then have "bindR (xTaskResumeAll k1) (\<lambda>(b, k2). Inr (if b then k2 else portYIELD k2)) = Inr k'" using d by metis
  then obtain b k2 where k2: "xTaskResumeAll k1 = Inr (b, k2)" and e: "k' = (if b then k2 else portYIELD k2)"
    by (cases "xTaskResumeAll k1") auto
  show ?thesis using ok_resume [OF k1(2) k2] e by simp
qed (auto simp: vTaskDelay_block_def)

lemma ok_notify_isr:
  "kernel_ok k \<Longrightarrow> notify_from_isr t s w k = Inr (k', w') \<Longrightarrow> kernel_ok k'"
proof (cases "s = taskWAITING_NOTIFICATION \<and> xEventContainer (tcbs k t) = None")
  case True
  assume k: "kernel_ok k" and r: "notify_from_isr t s w k = Inr (k', w')"
  define k2 where "k2 = (if uxSchedulerSuspended k = 0 then prvAddTaskToReadyList t (remove_state_item t k) else pend_ready t k)"
  have k2: "kernel_ok k2" using ok_move [OF k] k by (simp add: k2_def)
  obtain c where "current k2 = Inr c" using ok_current [OF k2] by blast
  then show ?thesis
    using True r k2 unfolding notify_from_isr_def k2_def [symmetric] Let_def by (auto split: if_splits)
qed (auto simp: notify_from_isr_def split: if_splits)

lemma ok_wait:
  assumes "kernel_ok k" and "(if 0 < n then bindR (prvAddCurrentTaskToDelayedList n True k) (\<lambda>k2. Inr (portYIELD k2)) else Inr k) = Inr k'"
  shows "kernel_ok k'"
proof (cases "0 < n")
  case True
  then show ?thesis using ok_delayed [OF assms(1) True, of True] assms(2) by auto
qed (use assms in simp)

lemma ok_new:
  assumes "kernel_ok k" and "t \<notin> set (waiting k)" and "\<not> is_ready k t"
  shows "kernel_ok (upd_tcb t (\<lambda>_. new_tcb p) k)" "t \<notin> set (waiting (upd_tcb t (\<lambda>_. new_tcb p) k))"
    "\<not> is_ready (upd_tcb t (\<lambda>_. new_tcb p) k) t"
proof -
  let ?k = "upd_tcb t (\<lambda>_. new_tcb p) k"
  have l: "lists_inv k" and tm: "time_inv k" using assms(1) by (simp_all add: kernel_ok_def kernel_inv_def)
  have u: "ready_at ?k = ready_at k" "waiting ?k = waiting k" "rings_ok ?k = rings_ok k"
    "uxTopReadyPriority ?k = uxTopReadyPriority k" "pxCurrentTCB ?k = pxCurrentTCB k"
    by (simp_all add: upd_tcb_def waiting_def ready_at_def [abs_def] rings_ok_def)
  have t: "t \<notin> set (ready_at k q)" for q using ready_iff [OF l] assms(3) by blast
  have pr: "prio ?k x = prio k x" if "x \<noteq> t" for x using that by (simp add: upd_tcb_def prio_def)
  have w: "wake_time ?k = (wake_time k)(t := 0)" by (simp add: upd_tcb_def wake_time_def new_tcb_def Let_def fun_eq_iff)
  have "lists_inv ?k" using l t pr unfolding lists_inv_def u by metis
  moreover have "t \<notin> set (pxDelayedTaskList k)" "t \<notin> set (pxOverflowDelayedTaskList k)"
    using assms(2) by (simp_all add: waiting_def)
  moreover have "pxDelayedTaskList ?k = pxDelayedTaskList k" "pxOverflowDelayedTaskList ?k = pxOverflowDelayedTaskList k"
    "xTickCount ?k = xTickCount k" "xNextTaskUnblockTime ?k = xNextTaskUnblockTime k" by (simp_all add: upd_tcb_def)
  ultimately have "lists_inv ?k" "time_inv ?k" using tm by (auto simp: time_inv_def sorted_inv_def w)
  then show "kernel_ok ?k" using assms(1) u(5) by (simp add: kernel_ok_def kernel_inv_def)
  show "t \<notin> set (waiting ?k)" "\<not> is_ready ?k t" using assms(2) t by (simp_all add: u is_ready_def)
qed

text \<open>The other notifications change fields the invariant does not see.\<close>

lemma ok_notify: "kernel_ok k \<Longrightarrow> xTaskGenericNotify x v a k = Inr (b, p, k') \<Longrightarrow> kernel_ok k'"
proof (cases x)
  case (Some t)
  assume k: "kernel_ok k" and r: "xTaskGenericNotify x v a k = Inr (b, p, k')"
  obtain xr w where nv: "notify_value a v (ucNotifyState (tcbs k t)) (ulNotifiedValue (tcbs k t)) = (xr, w)"
    by (cases "notify_value a v (ucNotifyState (tcbs k t)) (ulNotifiedValue (tcbs k t))")
  define k1 where "k1 = upd_tcb t (\<lambda>c. c\<lparr>ucNotifyState := taskNOTIFICATION_RECEIVED, ulNotifiedValue := w\<rparr>) k"
  define k2 where "k2 = prvAddTaskToReadyList t (remove_state_item t k1)"
  have k1: "kernel_ok k1" using k by (simp add: k1_def)
  then have k2: "kernel_ok k2" using ok_move by (simp add: k2_def)
  obtain c where c: "current k2 = Inr c" using ok_current [OF k2] by blast
  have "(if ucNotifyState (tcbs k t) = taskWAITING_NOTIFICATION
      then bindR (assertR (xEventContainer (tcbs k2 t) = None)) (\<lambda>_.
           bindR (current k2) (\<lambda>c. Inr (xr, ulNotifiedValue (tcbs k t), if prio k2 c < prio k2 t then portYIELD k2 else k2)))
      else Inr (xr, ulNotifiedValue (tcbs k t), k1)) = Inr (b, p, k')"
    using r unfolding Some xTaskGenericNotify_def Let_def option.case nv prod.case k1_def [symmetric] k2_def [symmetric] .
  then show ?thesis using k1 k2 c by (auto simp: assertR_def split: if_splits)
qed (simp add: xTaskGenericNotify_def)

lemma ok_notify_from_isr: "kernel_ok k \<Longrightarrow> xTaskGenericNotifyFromISR x v a w k = Inr (b, p, w', k') \<Longrightarrow> kernel_ok k'"
proof (cases x)
  case (Some t)
  assume k: "kernel_ok k" and r: "xTaskGenericNotifyFromISR x v a w k = Inr (b, p, w', k')"
  obtain xr y where nv: "notify_value a v (ucNotifyState (tcbs k t)) (ulNotifiedValue (tcbs k t)) = (xr, y)"
    by (cases "notify_value a v (ucNotifyState (tcbs k t)) (ulNotifiedValue (tcbs k t))")
  define k1 where "k1 = upd_tcb t (\<lambda>c. c\<lparr>ucNotifyState := taskNOTIFICATION_RECEIVED, ulNotifiedValue := y\<rparr>) k"
  have k1: "kernel_ok k1" using k by (simp add: k1_def)
  have "notify_from_isr t (ucNotifyState (tcbs k t)) w k1 = Inr (k', w')"
    using r unfolding Some xTaskGenericNotifyFromISR_def Let_def
    by (cases "notify_from_isr t (ucNotifyState (tcbs k t)) w k1") (auto simp: nv k1_def [symmetric])
  then show ?thesis by (rule ok_notify_isr [OF k1])
qed (simp add: xTaskGenericNotifyFromISR_def)

lemma ok_give: "kernel_ok k \<Longrightarrow> vTaskNotifyGiveFromISR x w k = Inr (w', k') \<Longrightarrow> kernel_ok k'"
proof (cases x)
  case (Some t)
  assume k: "kernel_ok k" and r: "vTaskNotifyGiveFromISR x w k = Inr (w', k')"
  define k1 where "k1 = upd_tcb t (\<lambda>c. c\<lparr>ucNotifyState := taskNOTIFICATION_RECEIVED, ulNotifiedValue := ulNotifiedValue c + 1\<rparr>) k"
  have k1: "kernel_ok k1" using k by (simp add: k1_def)
  have "notify_from_isr t (ucNotifyState (tcbs k t)) w k1 = Inr (k', w')"
    using r unfolding Some vTaskNotifyGiveFromISR_def Let_def
    by (cases "notify_from_isr t (ucNotifyState (tcbs k t)) w k1") (auto simp: k1_def [symmetric])
  then show ?thesis by (rule ok_notify_isr [OF k1])
qed (simp add: vTaskNotifyGiveFromISR_def)

lemma ok_wait_block: "kernel_ok k \<Longrightarrow> xTaskNotifyWait_block bits n k = Inr k' \<Longrightarrow> kernel_ok k'"
proof -
  assume k: "kernel_ok k" and r: "xTaskNotifyWait_block bits n k = Inr k'"
  obtain t where t: "current k = Inr t" using ok_current [OF k] by blast
  define k1 where "k1 = upd_tcb t (\<lambda>c. c\<lparr>ulNotifiedValue := ulNotifiedValue c AND NOT bits,
    ucNotifyState := taskWAITING_NOTIFICATION\<rparr>) k"
  have k1: "kernel_ok k1" using k by (simp add: k1_def)
  show ?thesis
  proof (cases "ucNotifyState (tcbs k t) = taskNOTIFICATION_RECEIVED")
    case False
    then show ?thesis using r t by (intro ok_wait [OF k1, of n k']) (simp add: xTaskNotifyWait_block_def Let_def k1_def split: if_splits)
  qed (use r t k in \<open>simp add: xTaskNotifyWait_block_def\<close>)
qed

lemma ok_take_block: "kernel_ok k \<Longrightarrow> ulTaskNotifyTake_block n k = Inr k' \<Longrightarrow> kernel_ok k'"
proof -
  assume k: "kernel_ok k" and r: "ulTaskNotifyTake_block n k = Inr k'"
  obtain t where t: "current k = Inr t" using ok_current [OF k] by blast
  define k1 where "k1 = upd_tcb t (\<lambda>c. c\<lparr>ucNotifyState := taskWAITING_NOTIFICATION\<rparr>) k"
  have k1: "kernel_ok k1" using k by (simp add: k1_def)
  show ?thesis
  proof (cases "ulNotifiedValue (tcbs k t) = 0")
    case True
    then show ?thesis using r t by (intro ok_wait [OF k1, of n k']) (simp add: ulTaskNotifyTake_block_def Let_def k1_def split: if_splits)
  qed (use r t k in \<open>simp add: ulTaskNotifyTake_block_def\<close>)
qed

lemma ok_ends:
  assumes k: "kernel_ok k"
  shows "xTaskNotifyWait_wake bits k = Inr (b, v, k') \<Longrightarrow> kernel_ok k'"
    "ulTaskNotifyTake_wake c k = Inr (v, k') \<Longrightarrow> kernel_ok k'"
    "xTaskNotifyStateClear h k = Inr (b, k') \<Longrightarrow> kernel_ok k'"
    "ulTaskNotifyValueClear h w k = Inr (v, k') \<Longrightarrow> kernel_ok k'"
proof -
  obtain t where t: "current k = Inr t" using ok_current [OF k] by blast
  show "xTaskNotifyWait_wake bits k = Inr (b, v, k') \<Longrightarrow> kernel_ok k'"
    "ulTaskNotifyTake_wake c k = Inr (v, k') \<Longrightarrow> kernel_ok k'"
    using t k by (auto simp: xTaskNotifyWait_wake_def ulTaskNotifyTake_wake_def Let_def)
  show "xTaskNotifyStateClear h k = Inr (b, k') \<Longrightarrow> kernel_ok k'" "ulTaskNotifyValueClear h w k = Inr (v, k') \<Longrightarrow> kernel_ok k'"
    using t k by (cases h; auto simp: xTaskNotifyStateClear_def ulTaskNotifyValueClear_def prvGetTCBFromHandle_def split: if_splits)+
qed

lemma ok_create:
  assumes "kernel_ok k" and "t \<notin> set (waiting k)" and "\<not> is_ready k t" and r: "xTaskCreateStatic t p k = Inr k'"
  shows "kernel_ok k'"
proof -
  define k1 where "k1 = (upd_tcb t (\<lambda>_. new_tcb p) k)\<lparr>uxCurrentNumberOfTasks := Suc (uxCurrentNumberOfTasks (upd_tcb t (\<lambda>_. new_tcb p) k))\<rparr>"
  have f: "lists_inv (kk\<lparr>uxCurrentNumberOfTasks := n\<rparr>) = lists_inv kk" "is_ready (kk\<lparr>uxCurrentNumberOfTasks := n\<rparr>) = is_ready kk"
    "waiting (kk\<lparr>uxCurrentNumberOfTasks := n\<rparr>) = waiting kk" "is_ready (kk\<lparr>pxCurrentTCB := v\<rparr>) = is_ready kk"
    "waiting (kk\<lparr>pxCurrentTCB := v\<rparr>) = waiting kk" for kk n v
    by (simp_all add: lists_inv_def rings_ok_def ready_at_def waiting_def prio_def is_ready_def [abs_def])
  obtain c where c: "pxCurrentTCB k1 = Some c"
    using assms(1) by (auto simp: k1_def upd_tcb_def kernel_ok_def)
  have k1: "kernel_inv k1" "t \<notin> set (waiting k1)" "\<not> is_ready k1 t"
    using ok_new [OF assms(1-3), of p] by (simp_all add: k1_def kernel_ok_def f)
  define k2 where "k2 = (if \<not> xSchedulerRunning k1 \<and> prio k1 c \<le> prio k1 t then k1\<lparr>pxCurrentTCB := Some t\<rparr> else k1)"
  have k2: "kernel_inv k2" "t \<notin> set (waiting k2)" "\<not> is_ready k2 t" "pxCurrentTCB k2 \<noteq> None" "xSchedulerRunning k2"
    using k1 c assms(1) by (simp_all add: k2_def f) (simp add: k1_def kernel_ok_def)
  define k3 where "k3 = prvAddTaskToReadyList t k2"
  have k3: "kernel_ok k3"
    using add_ready_inv(1) [OF _ k2(2,3)] k2(1,4,5) unfolding k3_def
    by (simp add: kernel_ok_def kernel_inv_def) (simp add: prvAddTaskToReadyList_def Let_def)
  obtain d where d: "current k3 = Inr d" using ok_current [OF k3] by blast
  have "(if xSchedulerRunning k3 then bindR (current k3) (\<lambda>c. Inr (if prio k3 c < prio k3 t then portYIELD k3 else k3))
      else Inr k3) = Inr k'"
    using r unfolding xTaskCreateStatic_def prvAddNewTaskToReadyList_def Let_def k1_def [symmetric] c option.case
      k2_def [symmetric] k3_def [symmetric] .
  then show ?thesis using k3 d by (auto split: if_splits)
qed

lemma ok_terminate:
  assumes k: "kernel_ok k" and t: "t \<notin> set (waiting k)" "\<not> is_ready k t"
  shows "kernel_ok (k\<lparr>xTasksWaitingTermination := xTasksWaitingTermination k @ [t], uxDeletedTasksWaitingCleanUp := n\<rparr>)"
proof -
  let ?k = "k\<lparr>xTasksWaitingTermination := xTasksWaitingTermination k @ [t], uxDeletedTasksWaitingCleanUp := n\<rparr>"
  have l: "lists_inv k" "time_inv k" using k by (simp_all add: kernel_ok_def kernel_inv_def)
  have u: "ready_at ?k = ready_at k" "rings_ok ?k = rings_ok k" "prio ?k = prio k"
    by (simp_all add: ready_at_def [abs_def] rings_ok_def prio_def fun_eq_iff)
  have w: "set (waiting ?k) = Set.insert t (set (waiting k))" "distinct (waiting ?k)"
    using l(1) t(1) by (auto simp: waiting_def lists_inv_def)
  have "t \<notin> set (ready_at k p)" for p using ready_iff [OF l(1)] t(2) by blast
  then have "lists_inv ?k" using l(1) w unfolding lists_inv_def by (simp add: u) metis
  moreover have "time_inv ?k" using l(2) by (simp add: time_inv_def sorted_inv_def wake_time_def [abs_def])
  ultimately show ?thesis using k by (simp add: kernel_ok_def kernel_inv_def)
qed

lemma ok_remove:
  "kernel_ok k \<Longrightarrow> kernel_ok (remove_state_item t k)"
  by (simp add: kernel_ok_def kernel_inv_def remove_lists_inv(1) remove_time_inv(2))

lemma ok_delete: "kernel_ok k \<Longrightarrow> vTaskDelete h k = Inr k' \<Longrightarrow> kernel_ok k'"
proof -
  assume k: "kernel_ok k" and r: "vTaskDelete h k = Inr k'"
  obtain t where t: "prvGetTCBFromHandle h k = Inr t" using ok_current [OF k] by (cases h) (auto simp: prvGetTCBFromHandle_def)
  define k1 where "k1 = remove_state_item t k"
  define k2 where "k2 = (if xEventContainer (tcbs k1 t) \<noteq> None then remove_event_item t k1 else k1)"
  define k3 where "k3 = (if Some t = pxCurrentTCB k2
    then k2\<lparr>xTasksWaitingTermination := xTasksWaitingTermination k2 @ [t],
            uxDeletedTasksWaitingCleanUp := Suc (uxDeletedTasksWaitingCleanUp k2)\<rparr>
    else prvResetNextTaskUnblockTime (k2\<lparr>uxCurrentNumberOfTasks := uxCurrentNumberOfTasks k2 - 1\<rparr>))"
  have l: "lists_inv k" using k by (simp add: kernel_ok_def kernel_inv_def)
  have k1: "kernel_ok k1" "t \<notin> set (waiting k1)" "\<not> is_ready k1 t"
    using ok_remove [OF k] remove_lists_inv(2,3) [OF l, of t] by (simp_all add: k1_def)
  then have k2: "kernel_ok k2" "t \<notin> set (waiting k2)" "\<not> is_ready k2 t" by (simp_all add: k2_def)
  have num: "kernel_ok (k2\<lparr>uxCurrentNumberOfTasks := n\<rparr>)" for n using k2(1) by (simp add: kernel_ok_def)
  have k3: "kernel_ok k3" using ok_terminate [OF k2] ok_reset [OF num] by (simp add: k3_def)
  have "(if xSchedulerRunning k3 \<and> Some t = pxCurrentTCB k3
      then bindR (assertR (uxSchedulerSuspended k3 = 0)) (\<lambda>_. Inr (portYIELD k3)) else Inr k3) = Inr k'"
    using r unfolding vTaskDelete_def t bindR.simps Let_def k1_def [symmetric] k2_def [symmetric] k3_def [symmetric] .
  then show ?thesis using k3 by (auto simp: assertR_def split: if_splits)
qed

lemma ok_clean_up: "kernel_ok k \<Longrightarrow> clean_up_tasks n k = Inr k' \<Longrightarrow> kernel_ok k'"
proof (induction n arbitrary: k)
  case (Suc n)
  obtain t ts where t: "xTasksWaitingTermination k = t # ts" using Suc.prems(2) by (cases "xTasksWaitingTermination k") auto
  have "kernel_ok ((remove_state_item t k)\<lparr>uxCurrentNumberOfTasks := a, uxDeletedTasksWaitingCleanUp := b\<rparr>)" for a b
    using ok_remove [OF Suc.prems(1), of t] by (simp add: kernel_ok_def)
  then show ?case by (rule Suc.IH) (use Suc.prems(2) t in simp)
qed simp

end
