(* ===== verification/ControlInv.thy ===== *)
theory ControlInv
  imports KernelOk
begin

text \<open>
  The calls of KernelControl keep the invariant of the scheduler: suspending and resuming a task,
  changing its priority or letting it inherit one, periodic delays, event lists.
\<close>

section \<open>Suspending and resuming\<close>

lemma ok_into_suspended:
  assumes k: "kernel_ok k" and t: "t \<notin> set (waiting k)" "\<not> is_ready k t"
  shows "kernel_ok (k\<lparr>xSuspendedTaskList := xSuspendedTaskList k @ [t]\<rparr>)"
proof -
  let ?k = "k\<lparr>xSuspendedTaskList := xSuspendedTaskList k @ [t]\<rparr>"
  have l: "lists_inv k" "time_inv k" using k by (simp_all add: kernel_ok_def kernel_inv_def)
  have u: "ready_at ?k = ready_at k" "rings_ok ?k = rings_ok k" "prio ?k = prio k"
    by (simp_all add: ready_at_def [abs_def] rings_ok_def prio_def fun_eq_iff)
  have w: "set (waiting ?k) = Set.insert t (set (waiting k))" "distinct (waiting ?k)"
    using l(1) t(1) by (auto simp: waiting_def lists_inv_def)
  have "t \<notin> set (ready_at k p)" for p using ready_iff [OF l(1)] t(2) by blast
  then have "lists_inv ?k" using l(1) w unfolding lists_inv_def by (simp add: u) metis
  moreover have "time_inv ?k" using l(2) by (simp add: time_inv_def sorted_inv_def wake_time_def [abs_def])
  ultimately show ?thesis using k by (simp add: kernel_ok_def kernel_inv_def)
qed

lemma ok_handle: "kernel_ok k \<Longrightarrow> \<exists>t. prvGetTCBFromHandle h k = Inr t"
  using ok_current by (cases h) (auto simp: prvGetTCBFromHandle_def)

lemma ok_suspend_task: "kernel_ok k \<Longrightarrow> kernel_ok (suspend_task t k)"
proof -
  assume k: "kernel_ok k"
  define k1 where "k1 = remove_state_item t k"
  define k2 where "k2 = (if xEventContainer (tcbs k1 t) \<noteq> None then remove_event_item t k1 else k1)"
  have l: "lists_inv k" using k by (simp add: kernel_ok_def kernel_inv_def)
  have k1: "kernel_ok k1" "t \<notin> set (waiting k1)" "\<not> is_ready k1 t"
    using ok_remove [OF k] remove_lists_inv(2,3) [OF l, of t] by (simp_all add: k1_def)
  then have k2: "kernel_ok k2" "t \<notin> set (waiting k2)" "\<not> is_ready k2 t" by (simp_all add: k2_def)
  from ok_into_suspended [OF this] show ?thesis using ok_reset
    unfolding suspend_task_def Let_def k1_def [symmetric] k2_def [symmetric] by simp
qed

lemma reset_fields [simp]:
  "pxCurrentTCB (prvResetNextTaskUnblockTime k) = pxCurrentTCB k"
  "xSchedulerRunning (prvResetNextTaskUnblockTime k) = xSchedulerRunning k"
  by (simp_all add: prvResetNextTaskUnblockTime_def split: list.split)

lemma suspend_task_fields [simp]:
  "pxCurrentTCB (suspend_task t k) = pxCurrentTCB k" "xSchedulerRunning (suspend_task t k) = xSchedulerRunning k"
  by (simp_all add: suspend_task_def Let_def) (simp_all add: remove_event_item_def upd_tcb_def)

text \<open>Once the scheduler runs, a task that suspends itself asks for a switch.\<close>

lemma suspend_steps:
  assumes "kernel_ok k" and r: "vTaskSuspend h k = Inr k'"
  shows "\<exists>t. prvGetTCBFromHandle h k = Inr t \<and>
    (Some t = pxCurrentTCB k \<and> uxSchedulerSuspended (suspend_task t k) = 0 \<and> k' = portYIELD (suspend_task t k) \<or>
     Some t \<noteq> pxCurrentTCB k \<and> k' = suspend_task t k)"
proof -
  obtain t where t: "prvGetTCBFromHandle h k = Inr t" using ok_handle [OF assms(1)] by blast
  have "xSchedulerRunning k" using assms(1) by (simp add: kernel_ok_def)
  then show ?thesis using r unfolding vTaskSuspend_def t bindR.simps Let_def
    by (intro exI [of _ t]) (auto simp: t assertR_def split: if_splits)
qed

lemma ok_suspend: "kernel_ok k \<Longrightarrow> vTaskSuspend h k = Inr k' \<Longrightarrow> kernel_ok k'"
  using suspend_steps [of k h k'] ok_suspend_task by auto

lemma ok_task_resume: "kernel_ok k \<Longrightarrow> vTaskResume h k = Inr k' \<Longrightarrow> kernel_ok k'"
proof (cases h)
  case (Some t)
  assume k: "kernel_ok k" and r: "vTaskResume h k = Inr k'"
  let ?k1 = "prvAddTaskToReadyList t (remove_state_item t k)"
  have k1: "kernel_ok ?k1" using ok_move [OF k] .
  obtain c where "current ?k1 = Inr c" using ok_current [OF k1] by blast
  then show ?thesis using r k k1 Some by (auto simp: vTaskResume_def Let_def split: if_splits)
qed (simp add: vTaskResume_def)

lemma ok_resume_isr: "kernel_ok k \<Longrightarrow> xTaskResumeFromISR h k = Inr (b, k') \<Longrightarrow> kernel_ok k'"
proof (cases h)
  case (Some t)
  assume k: "kernel_ok k" and r: "xTaskResumeFromISR h k = Inr (b, k')"
  obtain c where "current k = Inr c" using ok_current [OF k] by blast
  then show ?thesis using r k ok_move [OF k, of t] Some by (auto simp: xTaskResumeFromISR_def split: if_splits)
qed (simp add: xTaskResumeFromISR_def)

section \<open>Priorities\<close>

text \<open>A task in no ready list may change its priority.\<close>

lemma lists_inv_upd:
  assumes l: "lists_inv k" and n: "\<not> is_ready k t"
  shows "lists_inv (upd_tcb t f k)" "\<not> is_ready (upd_tcb t f k) t" "waiting (upd_tcb t f k) = waiting k"
proof -
  have u: "ready_at (upd_tcb t f k) = ready_at k" "waiting (upd_tcb t f k) = waiting k"
    "rings_ok (upd_tcb t f k) = rings_ok k" "uxTopReadyPriority (upd_tcb t f k) = uxTopReadyPriority k"
    by (simp_all add: upd_tcb_def waiting_def ready_at_def [abs_def] rings_ok_def)
  have t: "t \<notin> set (ready_at k q)" for q using ready_iff [OF l] n by blast
  have pr: "prio (upd_tcb t f k) x = prio k x" if "x \<noteq> t" for x using that by (simp add: upd_tcb_def prio_def)
  show "lists_inv (upd_tcb t f k)" using l t pr unfolding lists_inv_def u by metis
  show "\<not> is_ready (upd_tcb t f k) t" using t by (simp add: is_ready_def u)
  show "waiting (upd_tcb t f k) = waiting k" by (rule u)
qed

lemma upd_time_inv:
  assumes "\<And>c. xItemValue (f c) = xItemValue c"
  shows "time_inv (upd_tcb t f k) = time_inv k"
  by (rule time_inv_cong(2)) (simp_all add: upd_tcb_def wake_time_def assms)

lemma remove_upd: "remove_state_item t (upd_tcb u f k) = upd_tcb u f (remove_state_item t k)"
  by (simp add: remove_state_item_def upd_tcb_def)

lemma in_ready_iff: "in_ready_list p t k \<longleftrightarrow> t \<in> set (ready_at k p)"
  by (simp add: in_ready_list_def ready_at_def)

lemma in_ready_upd [simp]: "in_ready_list p t (upd_tcb u f k) = in_ready_list p t k"
  by (simp add: in_ready_list_def upd_tcb_def)

lemma ok_change:
  assumes k: "kernel_ok k" and f: "\<And>c. xItemValue (f c) = xItemValue c"
  shows "kernel_ok (requeue (prio k t) t (upd_tcb t f k))" "kernel_ok (prvAddTaskToReadyList t (upd_tcb t f (remove_state_item t k)))"
proof -
  have l: "lists_inv k" "time_inv k" using k by (simp_all add: kernel_ok_def kernel_inv_def)
  have cur: "pxCurrentTCB (upd_tcb t f k) = pxCurrentTCB k" for k by (simp add: upd_tcb_def)
  let ?k1 = "remove_state_item t k"
  have k1: "lists_inv ?k1" "t \<notin> set (waiting ?k1)" "\<not> is_ready ?k1 t" "time_inv ?k1"
    using remove_lists_inv [OF l(1), of t] remove_time_inv(2) [OF l(2)] by auto
  note k2 = lists_inv_upd [OF k1(1,3), of f]
  have "lists_inv (prvAddTaskToReadyList t (upd_tcb t f ?k1))"
    by (rule add_ready_inv(1)) (use k2 k1(2) in simp_all)
  moreover have "pxCurrentTCB (prvAddTaskToReadyList t k) = pxCurrentTCB k" for k
    by (simp add: prvAddTaskToReadyList_def Let_def)
  ultimately show a: "kernel_ok (prvAddTaskToReadyList t (upd_tcb t f ?k1))"
    using k k1(4) upd_time_inv [OF f] by (simp add: kernel_ok_def kernel_inv_def cur)
  show "kernel_ok (requeue (prio k t) t (upd_tcb t f k))"
  proof (cases "in_ready_list (prio k t) t k")
    case True
    then show ?thesis using a by (simp add: requeue_def remove_upd)
  next
    case False
    then have "\<not> is_ready k t" by (simp add: in_ready_iff is_ready_def)
    then show ?thesis using lists_inv_upd(1) [OF l(1)] l(2) k False upd_time_inv [OF f]
      by (simp add: requeue_def kernel_ok_def kernel_inv_def cur)
  qed
qed

lemma set_event_value_fields [simp]:
  "uxPriority (set_event_value p c) = uxPriority c" "xItemValue (set_event_value p c) = xItemValue c"
  "uxBasePriority (set_event_value p c) = uxBasePriority c" "uxMutexesHeld (set_event_value p c) = uxMutexesHeld c"
  "ucNotifyState (set_event_value p c) = ucNotifyState c" "xEventContainer (set_event_value p c) = xEventContainer c"
  by (simp_all add: set_event_value_def)

lemma upd_upd: "upd_tcb t g (upd_tcb t f k) = upd_tcb t (g \<circ> f) k"
  by (simp add: upd_tcb_def)

lemma ok_priority_set: "kernel_ok k \<Longrightarrow> vTaskPrioritySet h n k = Inr k' \<Longrightarrow> kernel_ok k'"
proof -
  assume k: "kernel_ok k" and r: "vTaskPrioritySet h n k = Inr k'"
  obtain t where t: "prvGetTCBFromHandle h k = Inr t" using ok_handle [OF k] by blast
  let ?f = "\<lambda>c. c\<lparr>uxPriority := (if uxBasePriority c = uxPriority c then n else uxPriority c), uxBasePriority := n\<rparr>"
  define k3 where "k3 = requeue (prio k t) t (upd_tcb t (set_event_value n) (upd_tcb t ?f k))"
  have k3: "kernel_ok k3" unfolding k3_def upd_upd by (rule ok_change(1) [OF k]) simp
  have "k' = k \<or> k' = k3 \<or> k' = portYIELD k3"
    using r by (auto simp: vTaskPrioritySet_def t bindR_Inr_iff assertR_def Let_def k3_def prio_def split: if_splits)
  then show ?thesis using k k3 by auto
qed

lemma ok_inherit: "kernel_ok k \<Longrightarrow> xTaskPriorityInherit h k = Inr (b, k') \<Longrightarrow> kernel_ok k'"
proof (cases h)
  case (Some t)
  assume k: "kernel_ok k" and r: "xTaskPriorityInherit h k = Inr (b, k')"
  obtain c where c: "current k = Inr c" using ok_current [OF k] by blast
  have "kernel_ok (requeue (prio k t) t (upd_tcb t (\<lambda>x. x\<lparr>uxPriority := p\<rparr>) (upd_tcb t (set_event_value p) k)))" for p
    unfolding upd_upd by (rule ok_change(1) [OF k]) simp
  then show ?thesis using r c k Some by (auto simp: xTaskPriorityInherit_def Let_def split: if_splits)
qed (simp add: xTaskPriorityInherit_def)

lemma ok_disinherit: "kernel_ok k \<Longrightarrow> xTaskPriorityDisinherit h k = Inr (b, k') \<Longrightarrow> kernel_ok k'"
proof (cases h)
  case (Some t)
  assume k: "kernel_ok k" and r: "xTaskPriorityDisinherit h k = Inr (b, k')"
  define k1 where "k1 = upd_tcb t (\<lambda>c. c\<lparr>uxMutexesHeld := uxMutexesHeld c - 1\<rparr>) k"
  let ?f = "\<lambda>c. c\<lparr>uxPriority := uxBasePriority c, xEventItemValue := event_value (uxBasePriority c)\<rparr>"
  have k1: "kernel_ok k1" using k by (simp add: k1_def)
  have k2: "kernel_ok (prvAddTaskToReadyList t (upd_tcb t ?f (remove_state_item t k1)))" by (rule ok_change(2) [OF k1]) simp
  have "k' = k1 \<or> k' = prvAddTaskToReadyList t (upd_tcb t ?f (remove_state_item t k1))"
    using r unfolding Some xTaskPriorityDisinherit_def Let_def option.case k1_def [symmetric]
    by (auto simp: assertR_def bindR_Inr_iff split: if_splits)
  then show ?thesis using k1 k2 by blast
qed (simp add: xTaskPriorityDisinherit_def)

lemma ok_disinherit_timeout: "kernel_ok k \<Longrightarrow> vTaskPriorityDisinheritAfterTimeout h p k = Inr k' \<Longrightarrow> kernel_ok k'"
proof (cases h)
  case (Some t)
  assume k: "kernel_ok k" and r: "vTaskPriorityDisinheritAfterTimeout h p k = Inr k'"
  have "kernel_ok (requeue (prio k t) t (upd_tcb t (set_event_value q) (upd_tcb t (\<lambda>c. c\<lparr>uxPriority := q\<rparr>) k)))" for q
    unfolding upd_upd by (rule ok_change(1) [OF k]) simp
  then show ?thesis using r k Some
    by (auto simp: vTaskPriorityDisinheritAfterTimeout_def Let_def prio_def assertR_def bindR_Inr_iff split: if_splits)
qed (simp add: vTaskPriorityDisinheritAfterTimeout_def)

section \<open>Delays and lost ticks\<close>

text \<open>A wake-up time that is taken to lie ahead is not the present.\<close>

lemma should_delay_pos:
  assumes "if c < p then w < p \<and> c < w else w < p \<or> c < (w :: u32)"
  shows "0 < w - c"
proof -
  have "w \<noteq> c" using assms by (auto split: if_splits)
  then show ?thesis by (simp add: word_neq_0_conv [symmetric])
qed

lemma delay_until_end:
  assumes k: "kernel_ok k" and r: "vTaskDelayUntil_block p n k = Inr (w, k')"
  shows "\<exists>k2 y k3. kernel_ok k2 \<and> xTaskResumeAll k2 = Inr (y, k3) \<and> k' = (if y then k3 else portYIELD k3) \<and>
    (k2 = vTaskSuspendAll k \<or> (\<exists>m. prvAddCurrentTaskToDelayedList m False (vTaskSuspendAll k) = Inr k2))"
proof -
  define k1 where "k1 = vTaskSuspendAll k"
  define d where "d = (if xTickCount k1 < p then p + n < p \<and> xTickCount k1 < p + n else p + n < p \<or> xTickCount k1 < p + n)"
  have k1: "kernel_ok k1" using k by (simp add: k1_def vTaskSuspendAll_def)
  obtain k2 where k2: "(if d then prvAddCurrentTaskToDelayedList (p + n - xTickCount k1) False k1 else Inr k1) = Inr k2"
      "kernel_ok k2"
  proof (cases d)
    case True
    have "0 < p + n - xTickCount k1" by (rule should_delay_pos) (use True in \<open>simp add: d_def\<close>)
    then show ?thesis using ok_delayed [OF k1, of _ False] True that by auto
  qed (use k1 that in auto)
  have "bindR (assertR (0 < n)) (\<lambda>_. bindR (assertR (uxSchedulerSuspended k = 0)) (\<lambda>_.
      bindR (if d then prvAddCurrentTaskToDelayedList (p + n - xTickCount k1) False k1 else Inr k1) (\<lambda>k2.
      bindR (xTaskResumeAll k2) (\<lambda>(y, k3). Inr (p + n, if y then k3 else portYIELD k3))))) = Inr (w, k')"
    using r unfolding vTaskDelayUntil_block_def Let_def k1_def [symmetric] d_def [symmetric] .
  then obtain y k3 where "xTaskResumeAll k2 = Inr (y, k3)" "k' = (if y then k3 else portYIELD k3)"
    unfolding k2(1) by (auto simp: bindR_Inr_iff)
  moreover have "k2 = k1 \<or> prvAddCurrentTaskToDelayedList (p + n - xTickCount k1) False k1 = Inr k2"
    using k2(1) by (auto split: if_splits)
  ultimately show ?thesis using k2(2) unfolding k1_def by blast
qed

lemma ok_delay_until: "kernel_ok k \<Longrightarrow> vTaskDelayUntil_block p n k = Inr (w, k') \<Longrightarrow> kernel_ok k'"
  using delay_until_end ok_resume by fastforce

lemma ok_catch_up: "kernel_ok k \<Longrightarrow> xTaskCatchUpTicks n k = Inr (b, k') \<Longrightarrow> kernel_ok k'"
  using ok_resume [of "(vTaskSuspendAll k)\<lparr>xPendedTicks := xPendedTicks (vTaskSuspendAll k) + n\<rparr>" b k']
  by (simp add: xTaskCatchUpTicks_def bindR_Inr_iff assertR_def Let_def split: if_splits) (simp add: vTaskSuspendAll_def)

lemma ok_idle: "kernel_ok k \<Longrightarrow> prvIdleTask_step k = Inr k' \<Longrightarrow> kernel_ok k'"
  by (auto simp: prvIdleTask_step_def bindR_Inr_iff prvCheckTasksWaitingTermination_def dest!: ok_clean_up [rotated])

section \<open>Event lists\<close>

lemma ok_put_event_list [simp]: "kernel_ok (put_event_list q l t k) = kernel_ok k"
proof -
  have f: "kernel_ok (k\<lparr>xEventLists := e\<rparr>) = kernel_ok k" for e
  proof -
    have "lists_inv (k\<lparr>xEventLists := e\<rparr>) = lists_inv k"
      by (rule lists_inv_cong(1)) (simp_all add: prio_def waiting_def)
    moreover have "time_inv (k\<lparr>xEventLists := e\<rparr>) = time_inv k"
      by (rule time_inv_cong(2)) (simp_all add: wake_time_def)
    ultimately show ?thesis by (simp add: kernel_ok_def kernel_inv_def)
  qed
  show ?thesis by (simp add: put_event_list_def f)
qed

lemma ok_place:
  assumes "kernel_ok k" and "0 < n"
  shows "vTaskPlaceOnEventList q n k = Inr k' \<Longrightarrow> kernel_ok k'"
    "vTaskPlaceOnUnorderedEventList q v n k = Inr k' \<Longrightarrow> kernel_ok k'"
    "vTaskPlaceOnEventListRestricted q n b k = Inr k' \<Longrightarrow> kernel_ok k'"
proof -
  obtain t where t: "current k = Inr t" using ok_current [OF assms(1)] by blast
  have d: "prvAddCurrentTaskToDelayedList m c kk = Inr k' \<Longrightarrow> kernel_ok kk \<Longrightarrow> 0 < m \<Longrightarrow> kernel_ok k'" for m c kk
    using ok_delayed [of kk m c] by auto
  show "vTaskPlaceOnEventList q n k = Inr k' \<Longrightarrow> kernel_ok k'"
  proof (rule d [OF _ _ assms(2)])
    let ?l = "vListInsert (\<lambda>t. xEventItemValue (tcbs k t)) t (xEventLists k q)"
    show "kernel_ok (put_event_list q ?l t k)" using assms by simp
    show "vTaskPlaceOnEventList q n k = Inr k' \<Longrightarrow> prvAddCurrentTaskToDelayedList n True (put_event_list q ?l t k) = Inr k'"
      using t by (simp add: vTaskPlaceOnEventList_def)
  qed
  show "vTaskPlaceOnUnorderedEventList q v n k = Inr k' \<Longrightarrow> kernel_ok k'"
  proof (rule d [OF _ _ assms(2)])
    let ?k1 = "upd_tcb t (\<lambda>c. c\<lparr>xEventItemValue := v OR taskEVENT_LIST_ITEM_VALUE_IN_USE\<rparr>) k"
    show "kernel_ok (put_event_list q (xEventLists ?k1 q @ [t]) t ?k1)" using assms by simp
    show "vTaskPlaceOnUnorderedEventList q v n k = Inr k' \<Longrightarrow>
      prvAddCurrentTaskToDelayedList n True (put_event_list q (xEventLists ?k1 q @ [t]) t ?k1) = Inr k'"
      using t by (simp add: vTaskPlaceOnUnorderedEventList_def assertR_def Let_def bindR_Inr_iff split: if_splits)
  qed
  show "vTaskPlaceOnEventListRestricted q n b k = Inr k' \<Longrightarrow> kernel_ok k'"
  proof (rule d)
    show "kernel_ok (put_event_list q (xEventLists k q @ [t]) t k)" using assms by simp
    show "0 < (if b then portMAX_DELAY else n)" using assms(2) by (simp add: portMAX_DELAY_def)
    show "vTaskPlaceOnEventListRestricted q n b k = Inr k' \<Longrightarrow>
      prvAddCurrentTaskToDelayedList (if b then portMAX_DELAY else n) b (put_event_list q (xEventLists k q @ [t]) t k) = Inr k'"
      using t by (simp add: vTaskPlaceOnEventListRestricted_def)
  qed
qed

lemma ok_remove_event: "kernel_ok k \<Longrightarrow> xTaskRemoveFromEventList q k = Inr (b, k') \<Longrightarrow> kernel_ok k'"
proof -
  assume k: "kernel_ok k" and r: "xTaskRemoveFromEventList q k = Inr (b, k')"
  then obtain t ts where t: "xEventLists k q = t # ts" by (cases "xEventLists k q") (auto simp: xTaskRemoveFromEventList_def)
  define k1 where "k1 = remove_event_item t k"
  define k2 where "k2 = (if uxSchedulerSuspended k1 = 0 then prvAddTaskToReadyList t (remove_state_item t k1) else pend_ready t k1)"
  have k1: "kernel_ok k1" using k by (simp add: k1_def)
  have k2: "kernel_ok k2" using ok_move [OF k1] k1 by (simp add: k2_def)
  obtain c where "current k2 = Inr c" using ok_current [OF k2] by blast
  then show ?thesis using r k2 unfolding xTaskRemoveFromEventList_def t list.case Let_def k1_def [symmetric] k2_def [symmetric]
    by (auto split: if_splits)
qed

lemma ok_remove_unordered: "kernel_ok k \<Longrightarrow> vTaskRemoveFromUnorderedEventList t v k = Inr k' \<Longrightarrow> kernel_ok k'"
proof -
  assume k: "kernel_ok k" and r: "vTaskRemoveFromUnorderedEventList t v k = Inr k'"
  define k2 where "k2 = prvAddTaskToReadyList t (remove_state_item t (remove_event_item t
    (upd_tcb t (\<lambda>c. c\<lparr>xEventItemValue := v OR taskEVENT_LIST_ITEM_VALUE_IN_USE\<rparr>) k)))"
  have k2: "kernel_ok k2" unfolding k2_def by (rule ok_move) (use k in simp)
  obtain c where "current k2 = Inr c" using ok_current [OF k2] by blast
  then show ?thesis using r k2 unfolding vTaskRemoveFromUnorderedEventList_def Let_def k2_def [symmetric]
    by (auto simp: assertR_def split: if_splits)
qed

lemma ok_reset_item: "kernel_ok k \<Longrightarrow> uxTaskResetEventItemValue k = Inr (v, k') \<Longrightarrow> kernel_ok k'"
  using ok_current [of k] by (auto simp: uxTaskResetEventItemValue_def)

lemma ok_mutex_count: "kernel_ok k \<Longrightarrow> pvTaskIncrementMutexHeldCount k = (h, k') \<Longrightarrow> kernel_ok k'"
  by (auto simp: pvTaskIncrementMutexHeldCount_def split: option.splits)

end
