(* ===== verification/KernelCalls.thy ===== *)
theory KernelCalls
  imports ControlInv
begin

text \<open>
  Every call of the kernel keeps the invariant, in any order and from tasks and interrupts alike: the
  kernel as a transition system whose steps are the calls, its reachable states, and the invariant by
  rule induction.
\<close>

section \<open>The calls\<close>

datatype kernel_call =
    Tick | Switch | Suspend_all | Resume_all | Delay u32
  | Notify "task option" u32 eNotifyAction | Notify_isr "task option" u32 eNotifyAction | Give_isr "task option"
  | Wait u32 u32 | Wait_end u32 | Take u32 | Take_end bool | Clear_state "task option" | Clear_value "task option" u32
  | Create task nat | Delete "task option" | Clean_up | Idle
  | Suspend "task option" | Resume "task option" | Resume_isr "task option" | Set_priority "task option" nat
  | Delay_until u32 u32 | Catch_up u32 | Missed_yield
  | Place nat u32 | Place_unordered nat u32 u32 | Place_restricted nat u32 bool
  | Unblock nat | Unblock_unordered task u32 | Reset_item
  | Take_mutex | Inherit "task option" | Disinherit "task option" | Disinherit_timeout "task option" nat

fun run_call :: "kernel_call \<Rightarrow> kernel \<Rightarrow> kernel res" where
  "run_call Tick k = xPortSysTickHandler k"
| "run_call Switch k = take_pendsv k"
| "run_call Suspend_all k = Inr (vTaskSuspendAll k)"
| "run_call Resume_all k = bindR (xTaskResumeAll k) (\<lambda>(_, k1). Inr k1)"
| "run_call (Delay n) k = vTaskDelay_block n k"
| "run_call (Notify t v a) k = bindR (xTaskGenericNotify t v a k) (\<lambda>(_, _, k1). Inr k1)"
| "run_call (Notify_isr t v a) k = bindR (xTaskGenericNotifyFromISR t v a False k) (\<lambda>(_, _, _, k1). Inr k1)"
| "run_call (Give_isr t) k = bindR (vTaskNotifyGiveFromISR t False k) (\<lambda>(_, k1). Inr k1)"
| "run_call (Wait bits n) k = xTaskNotifyWait_block bits n k"
| "run_call (Wait_end bits) k = bindR (xTaskNotifyWait_wake bits k) (\<lambda>(_, _, k1). Inr k1)"
| "run_call (Take n) k = ulTaskNotifyTake_block n k"
| "run_call (Take_end c) k = bindR (ulTaskNotifyTake_wake c k) (\<lambda>(_, k1). Inr k1)"
| "run_call (Clear_state t) k = bindR (xTaskNotifyStateClear t k) (\<lambda>(_, k1). Inr k1)"
| "run_call (Clear_value t v) k = bindR (ulTaskNotifyValueClear t v k) (\<lambda>(_, k1). Inr k1)"
| "run_call (Create t p) k = xTaskCreateStatic t p k"
| "run_call (Delete t) k = vTaskDelete t k"
| "run_call Clean_up k = prvCheckTasksWaitingTermination k"
| "run_call Idle k = prvIdleTask_step k"
| "run_call (Suspend t) k = vTaskSuspend t k"
| "run_call (Resume t) k = vTaskResume t k"
| "run_call (Resume_isr t) k = bindR (xTaskResumeFromISR t k) (\<lambda>(_, k1). Inr k1)"
| "run_call (Set_priority t p) k = vTaskPrioritySet t p k"
| "run_call (Delay_until p n) k = bindR (vTaskDelayUntil_block p n k) (\<lambda>(_, k1). Inr k1)"
| "run_call (Catch_up n) k = bindR (xTaskCatchUpTicks n k) (\<lambda>(_, k1). Inr k1)"
| "run_call Missed_yield k = Inr (vTaskMissedYield k)"
| "run_call (Place q n) k = vTaskPlaceOnEventList q n k"
| "run_call (Place_unordered q v n) k = vTaskPlaceOnUnorderedEventList q v n k"
| "run_call (Place_restricted q n b) k = vTaskPlaceOnEventListRestricted q n b k"
| "run_call (Unblock q) k = bindR (xTaskRemoveFromEventList q k) (\<lambda>(_, k1). Inr k1)"
| "run_call (Unblock_unordered t v) k = vTaskRemoveFromUnorderedEventList t v k"
| "run_call Reset_item k = bindR (uxTaskResetEventItemValue k) (\<lambda>(_, k1). Inr k1)"
| "run_call Take_mutex k = Inr (snd (pvTaskIncrementMutexHeldCount k))"
| "run_call (Inherit h) k = bindR (xTaskPriorityInherit h k) (\<lambda>(_, k1). Inr k1)"
| "run_call (Disinherit h) k = bindR (xTaskPriorityDisinherit h k) (\<lambda>(_, k1). Inr k1)"
| "run_call (Disinherit_timeout h p) k = vTaskPriorityDisinheritAfterTimeout h p k"

text \<open>The conditions: the control block of a new task is not that of a task in the lists, and a task that is
  put on an event list waits at least one tick (queue.c and event_groups.c test for that before).\<close>

fun call_ok :: "kernel_call \<Rightarrow> kernel \<Rightarrow> bool" where
  "call_ok (Create t p) k = (t \<notin> set (waiting k) \<and> \<not> is_ready k t)"
| "call_ok (Place q n) k = (0 < n)"
| "call_ok (Place_unordered q v n) k = (0 < n)"
| "call_ok (Place_restricted q n b) k = (0 < n)"
| "call_ok _ k = True"

section \<open>The kernel as a transition system\<close>

text \<open>The states the kernel can be in once \<open>main\<close> has started the scheduler: any sequence of calls.\<close>

inductive kernel_reach :: "ids \<Rightarrow> kernel \<Rightarrow> bool" for i where
  started: "kernel_reach i (booted i)"
| called: "kernel_reach i k \<Longrightarrow> call_ok c k \<Longrightarrow> run_call c k = Inr k' \<Longrightarrow> kernel_reach i k'"

lemma run_call_ok:
  assumes k: "kernel_ok k" and c: "call_ok c k" and r: "run_call c k = Inr k'"
  shows "kernel_ok k'"
proof (cases c)
  case Tick
  then show ?thesis using ok_tick [OF k] r by (auto simp: xPortSysTickHandler_def)
next
  case Suspend_all
  then show ?thesis using k r by (auto simp: vTaskSuspendAll_def)
next
  case Resume_all
  then show ?thesis using ok_resume [OF k] r by (auto simp: bindR_Inr_iff)
next
  case (Notify x v a)
  then show ?thesis using ok_notify [OF k] r by (auto simp: bindR_Inr_iff)
next
  case (Notify_isr x v a)
  then show ?thesis using ok_notify_from_isr [OF k] r by (auto simp: bindR_Inr_iff)
next
  case (Give_isr x)
  then show ?thesis using ok_give [OF k] r by (auto simp: bindR_Inr_iff)
next
  case (Wait_end bits)
  then show ?thesis using ok_ends(1) [OF k] r by (auto simp: bindR_Inr_iff)
next
  case (Take_end b)
  then show ?thesis using ok_ends(2) [OF k] r by (auto simp: bindR_Inr_iff)
next
  case (Clear_state x)
  then show ?thesis using ok_ends(3) [OF k] r by (auto simp: bindR_Inr_iff)
next
  case (Clear_value x v)
  then show ?thesis using ok_ends(4) [OF k] r by (auto simp: bindR_Inr_iff)
next
  case (Resume_isr x)
  then show ?thesis using ok_resume_isr [OF k] r by (auto simp: bindR_Inr_iff)
next
  case (Delay_until p n)
  then show ?thesis using ok_delay_until [OF k] r by (auto simp: bindR_Inr_iff)
next
  case (Catch_up n)
  then show ?thesis using ok_catch_up [OF k] r by (auto simp: bindR_Inr_iff)
next
  case (Unblock q)
  then show ?thesis using ok_remove_event [OF k] r by (auto simp: bindR_Inr_iff)
next
  case Reset_item
  then show ?thesis using ok_reset_item [OF k] r by (auto simp: bindR_Inr_iff)
next
  case Take_mutex
  then show ?thesis using ok_mutex_count [OF k] r by (auto simp: prod_eq_iff)
next
  case (Inherit h)
  then show ?thesis using ok_inherit [OF k] r by (auto simp: bindR_Inr_iff)
next
  case (Disinherit h)
  then show ?thesis using ok_disinherit [OF k] r by (auto simp: bindR_Inr_iff)
next
  case (Place q n)
  then show ?thesis using ok_place(1) [OF k] r c by simp
next
  case (Place_unordered q v n)
  then show ?thesis using ok_place(2) [OF k] r c by simp
next
  case (Place_restricted q n b)
  then show ?thesis using ok_place(3) [OF k] r c by simp
next
  case Missed_yield
  then show ?thesis using k r by (auto simp: vTaskMissedYield_def)
next
  case (Create t p)
  then show ?thesis using ok_create [OF k] c r by auto
qed (use r ok_pendsv [OF k] ok_delay [OF k] ok_wait_block [OF k] ok_take_block [OF k] ok_delete [OF k] ok_clean_up [OF k]
    ok_idle [OF k] ok_suspend [OF k] ok_task_resume [OF k] ok_priority_set [OF k] ok_remove_unordered [OF k] ok_disinherit_timeout [OF k]
    in \<open>simp_all add: prvCheckTasksWaitingTermination_def\<close>)

lemma kernel_reach_ok: "kernel_reach i k \<Longrightarrow> ids_ok i \<Longrightarrow> kernel_ok k"
proof (induction rule: kernel_reach.induct)
  case started
  then show ?case using booted_runs(1) [of i] by (auto simp: runs_def kernel_ok_def) (simp add: booted_def kernel_start_def)
qed (blast intro: run_call_ok)

text \<open>C3: the invariant of the scheduler. In every state the kernel reaches from the start of the scheduler by
  any sequence of calls of tasks.c (ticks, switches, delays, notifications, waits, event lists, creations,
  deletions, suspensions and resumptions of tasks, changed and inherited priorities), no task is in two lists, each ready list holds tasks of its own priority, nothing is ready
  above \<open>uxTopReadyPriority\<close>, the delayed lists are sorted by wake-up times that lie ahead (those of the
  overflow list behind the next wrap-around of the tick count), \<open>xNextTaskUnblockTime\<close> is not later than
  any of them, and the next tick interrupt fails no assertion: at a wrap-around the list of delayed
  tasks is empty.\<close>

theorem kernel_invariant:
  assumes "ids_ok i" and "kernel_reach i k"
  shows "kernel_inv k \<and> pxCurrentTCB k \<noteq> None \<and> (\<exists>k'. xPortSysTickHandler k = Inr k' \<and> kernel_inv k')"
proof -
  have "kernel_ok k" using kernel_reach_ok assms by blast
  then show ?thesis using ok_tick [of k] by (fastforce simp: kernel_ok_def xPortSysTickHandler_def portYIELD_def)
qed

theorem kernel_invariant_witness:
  "\<exists>k. run_call (Delay 5000) (booted ids_example) = Inr k \<and> kernel_inv k \<and> (\<exists>k'. xPortSysTickHandler k = Inr k')"
proof -
  have ids: "ids_ok ids_example" by (simp add: ids_ok_def ids_example_def)
  have "kernel_ok (booted ids_example)" using kernel_reach_ok [OF started ids] .
  then obtain k1 where k1: "prvAddCurrentTaskToDelayedList 5000 False (vTaskSuspendAll (booted ids_example)) = Inr k1"
      "call_frame (vTaskSuspendAll (booted ids_example)) k1"
    using add_delayed [of "vTaskSuspendAll (booted ids_example)" _ 5000 False]
    by (auto simp: kernel_ok_def vTaskSuspendAll_def)
  then have "uxSchedulerSuspended k1 = 1" "xPendingReadyList k1 = []" "xPendedTicks k1 = 0"
    by (simp_all add: call_frame_def vTaskSuspendAll_def booted_def kernel_start_def)
  then have "\<exists>k. run_call (Delay 5000) (booted ids_example) = Inr k"
    using k1 by (simp add: vTaskDelay_block_def xTaskResumeAll_def Let_def booted_def kernel_start_def)
  then obtain k where k: "run_call (Delay 5000) (booted ids_example) = Inr k" by blast
  have "kernel_reach ids_example k" by (rule called [OF started _ k]) simp
  from kernel_invariant [OF ids this] show ?thesis using k by blast
qed

end
