(* ===== verification/KernelPreempt.thy ===== *)
theory KernelPreempt
  imports KernelCalls
begin

text \<open>
  Preemption: after every call of the kernel either a switch has been asked for or the running task is
  a ready task of the highest priority.
\<close>

section \<open>The property and what it does not depend on\<close>

definition highest :: "kernel \<Rightarrow> bool" where
  "highest k \<longleftrightarrow> (\<exists>c. pxCurrentTCB k = Some c \<and> is_ready k c \<and> (\<forall>t. is_ready k t \<longrightarrow> prio k t \<le> prio k c))"

definition switch_due :: "kernel \<Rightarrow> bool" where
  "switch_due k \<longleftrightarrow> xYieldPending k \<or> pendsv k"

definition preemptive :: "kernel \<Rightarrow> bool" where
  "preemptive k \<longleftrightarrow> switch_due k \<or> highest k"

lemma asked [simp]:
  "preemptive (portYIELD k)" "preemptive (k\<lparr>xYieldPending := True\<rparr>)" "preemptive (k\<lparr>pendsv := True\<rparr>)"
  by (simp_all add: preemptive_def switch_due_def portYIELD_def)

lemma preemptive_cong:
  assumes "pxCurrentTCB k' = pxCurrentTCB k" "pxReadyTasksLists k' = pxReadyTasksLists k" "\<And>t. prio k' t = prio k t"
    "xYieldPending k' = xYieldPending k" "pendsv k' = pendsv k"
  shows "preemptive k' = preemptive k"
  using assms by (simp add: preemptive_def switch_due_def highest_def is_ready_def ready_at_def)

lemma preemptive_fields [simp]:
  "preemptive (k\<lparr>uxSchedulerSuspended := n\<rparr>) = preemptive k" "preemptive (k\<lparr>xPendingReadyList := ts\<rparr>) = preemptive k"
  "preemptive (k\<lparr>xPendedTicks := v\<rparr>) = preemptive k" "preemptive (k\<lparr>xNextTaskUnblockTime := v\<rparr>) = preemptive k"
  "preemptive (k\<lparr>xSuspendedTaskList := ts\<rparr>) = preemptive k" "preemptive (k\<lparr>uxCurrentNumberOfTasks := n\<rparr>) = preemptive k"
  "preemptive (k\<lparr>xTasksWaitingTermination := ts, uxDeletedTasksWaitingCleanUp := n\<rparr>) = preemptive k"
  "preemptive (k\<lparr>uxCurrentNumberOfTasks := n, uxDeletedTasksWaitingCleanUp := m\<rparr>) = preemptive k"
  "preemptive (k\<lparr>xTickCount := v\<rparr>) = preemptive k" "preemptive (k\<lparr>xEventLists := e\<rparr>) = preemptive k"
  "preemptive (k\<lparr>pxDelayedTaskList := ts, pxOverflowDelayedTaskList := us, xNumOfOverflows := n\<rparr>) = preemptive k"
  "preemptive (remove_event_item t k) = preemptive k" "preemptive (pend_ready t k) = preemptive k"
  "preemptive (put_event_list q l t k) = preemptive k" "preemptive (vTaskSuspendAll k) = preemptive k"
  by (rule preemptive_cong;
      simp add: prio_def remove_event_item_def pend_ready_def put_event_list_def upd_tcb_def vTaskSuspendAll_def)+

lemma preemptive_upd [simp]:
  "(\<And>c. uxPriority (f c) = uxPriority c) \<Longrightarrow> preemptive (upd_tcb t f k) = preemptive k"
  by (rule preemptive_cong) (simp_all add: prio_def upd_tcb_def)

lemma preemptive_reset [simp]: "preemptive (prvResetNextTaskUnblockTime k) = preemptive k"
  by (simp add: prvResetNextTaskUnblockTime_def split: list.split)

lemma list_frames [simp]:
  "pxCurrentTCB (prvAddTaskToReadyList t k) = pxCurrentTCB k" "prio (prvAddTaskToReadyList t k) = prio k"
  "pendsv (prvAddTaskToReadyList t k) = pendsv k" "xYieldPending (prvAddTaskToReadyList t k) = xYieldPending k"
  "pendsv (remove_state_item t k) = pendsv k" "xYieldPending (remove_state_item t k) = xYieldPending k"
  "pxCurrentTCB (upd_tcb t f k) = pxCurrentTCB k" "pendsv (upd_tcb t f k) = pendsv k"
  "xYieldPending (upd_tcb t f k) = xYieldPending k" "switch_due (prvAddTaskToReadyList t k) = switch_due k"
  "switch_due (remove_state_item t k) = switch_due k" "switch_due (upd_tcb t f k) = switch_due k"
  by (simp_all add: prvAddTaskToReadyList_def remove_state_item_def Let_def upd_tcb_def prio_def fun_eq_iff switch_due_def)

section \<open>Moving tasks\<close>

lemma highestD: "highest k \<Longrightarrow> pxCurrentTCB k = Some c \<Longrightarrow> is_ready k c \<and> (\<forall>t. is_ready k t \<longrightarrow> prio k t \<le> prio k c)"
  by (auto simp: highest_def)

lemma pre_add:
  assumes "lists_inv k" "t \<notin> set (waiting k)" "\<not> is_ready k t"
    and "preemptive k" "pxCurrentTCB k = Some c" "prio k t \<le> prio k c"
  shows "preemptive (prvAddTaskToReadyList t k)"
  using assms(4-6) add_ready_inv(2) [OF assms(1-3)] by (auto simp: preemptive_def highest_def)

lemma pre_remove:
  assumes "lists_inv k" "preemptive k" "pxCurrentTCB k \<noteq> Some t \<or> \<not> is_ready k t"
  shows "preemptive (remove_state_item t k)"
  using assms(2,3) remove_lists_inv(2) [OF assms(1)] by (auto simp: preemptive_def highest_def)

lemma pre_move:
  assumes "lists_inv k" "preemptive k" "pxCurrentTCB k = Some c" "prio k t \<le> prio k c"
  shows "preemptive (prvAddTaskToReadyList t (remove_state_item t k))"
  using assms(2-) move_ready(2) [OF assms(1)] by (auto simp: preemptive_def highest_def)

text \<open>The usual end of a call that has made \<open>t\<close> ready.\<close>

lemma pre_made_ready:
  assumes "kernel_ok k" "preemptive k" "current k = Inr c"
  shows "\<not> prio k c < prio k t \<Longrightarrow> preemptive (prvAddTaskToReadyList t (remove_state_item t k))"
    "\<not> prio k c \<le> prio k t \<Longrightarrow> preemptive (prvAddTaskToReadyList t (remove_state_item t k))"
  using assms pre_move [of k c t] by (auto simp: kernel_ok_def kernel_inv_def current_def split: option.splits)

lemma moved_current [simp]:
  "current (prvAddTaskToReadyList t (remove_state_item t k)) = current k" "current (upd_tcb t f k) = current k"
  "current (remove_event_item t k) = current k" "current (pend_ready t k) = current k"
  by (simp_all add: current_def) (simp_all add: remove_event_item_def pend_ready_def upd_tcb_def)

lemma event_prio [simp]: "prio (remove_event_item t k) = prio k" "prio (pend_ready t k) = prio k"
  by (simp_all add: remove_event_item_def pend_ready_def upd_tcb_def prio_def fun_eq_iff)

text \<open>A task whose priority changes.\<close>

lemma requeue_ready:
  assumes "kernel_ok k"
  shows "is_ready (requeue (prio k t) t (upd_tcb t f k)) x \<longleftrightarrow> is_ready k x"
    "prio (requeue (prio k t) t (upd_tcb t f k)) x = (if x = t then uxPriority (f (tcbs k t)) else prio k x)"
    "pxCurrentTCB (requeue (prio k t) t (upd_tcb t f k)) = pxCurrentTCB k"
    "switch_due (requeue (prio k t) t (upd_tcb t f k)) = switch_due k"
proof -
  have l: "lists_inv k" using assms by (simp add: kernel_ok_def kernel_inv_def)
  let ?k1 = "remove_state_item t k"
  have k1: "lists_inv ?k1" "t \<notin> set (waiting ?k1)" "\<not> is_ready ?k1 t"
    using remove_lists_inv [OF l, of t] by auto
  note k2 = lists_inv_upd [OF k1(1,3), of f]
  have ready: "is_ready (upd_tcb t f kk) x = is_ready kk x" if "x \<noteq> t" for kk
    using that by (simp add: is_ready_def ready_at_def upd_tcb_def prio_def)
  have n: "t \<notin> set (ready_at k p)" if "\<not> is_ready k t" for p using ready_iff [OF l] that by blast
  show "is_ready (requeue (prio k t) t (upd_tcb t f k)) x \<longleftrightarrow> is_ready k x"
  proof (cases "in_ready_list (prio k t) t k")
    case True
    then have "is_ready k t" by (simp add: in_ready_iff is_ready_def)
    moreover have "is_ready (prvAddTaskToReadyList t (upd_tcb t f ?k1)) x \<longleftrightarrow> x = t \<or> is_ready (upd_tcb t f ?k1) x"
      by (rule add_ready_inv(2)) (use k2 k1(2) in simp_all)
    moreover have "is_ready (upd_tcb t f ?k1) x \<longleftrightarrow> x \<noteq> t \<and> is_ready k x"
      using k2(2) ready [of ?k1] remove_lists_inv(2) [OF l, of t x] by (cases "x = t") auto
    ultimately show ?thesis using True by (auto simp: requeue_def remove_upd)
  next
    case False
    then have "\<not> is_ready k t" by (simp add: in_ready_iff is_ready_def)
    then show ?thesis using False ready [of k] lists_inv_upd(2) [OF l, of t f] by (cases "x = t") (auto simp: requeue_def)
  qed
  have p: "prio (upd_tcb t f k) x = (if x = t then uxPriority (f (tcbs k t)) else prio k x)"
    by (simp add: prio_def upd_tcb_def)
  show "prio (requeue (prio k t) t (upd_tcb t f k)) x = (if x = t then uxPriority (f (tcbs k t)) else prio k x)"
    using p by (cases "x = t") (simp_all add: requeue_def)
  show "pxCurrentTCB (requeue (prio k t) t (upd_tcb t f k)) = pxCurrentTCB k"
    "switch_due (requeue (prio k t) t (upd_tcb t f k)) = switch_due k" by (simp_all add: requeue_def)
qed

lemma pre_change:
  assumes k: "kernel_ok k" "preemptive k" and c: "pxCurrentTCB k = Some c"
    and p: "if t = c then prio k c \<le> uxPriority (f (tcbs k t))
      else uxPriority (f (tcbs k t)) \<le> prio k c \<or> uxPriority (f (tcbs k t)) \<le> prio k t"
  shows "preemptive (requeue (prio k t) t (upd_tcb t f k))"
proof (cases "switch_due k")
  case False
  note r = requeue_ready [OF k(1), of t f]
  have h: "is_ready k c" "\<And>x. is_ready k x \<Longrightarrow> prio k x \<le> prio k c"
    using False k(2) c highestD by (auto simp: preemptive_def)
  have "prio (requeue (prio k t) t (upd_tcb t f k)) x \<le> prio (requeue (prio k t) t (upd_tcb t f k)) c" if "is_ready k x" for x
    using p h(2) [OF that] by (auto simp: r(2) split: if_splits)
  then show ?thesis using h(1) c by (auto simp: preemptive_def highest_def r(1,3))
qed (use requeue_ready(4) [OF k(1)] in \<open>simp add: preemptive_def\<close>)

section \<open>The tick\<close>

lemma pre_unblock_expired:
  "unblock_expired k sw = Inr (k', sw') \<Longrightarrow> lists_inv k \<Longrightarrow> sorted_inv k \<Longrightarrow> sw \<or> preemptive k \<Longrightarrow> sw' \<or> preemptive k'"
proof (induction k sw rule: unblock_expired.induct)
  case (1 k sw)
  show ?case
  proof (cases "pxDelayedTaskList k")
    case Nil
    then show ?thesis using 1(2,5) by (subst (asm) (1) unblock_expired.simps) auto
  next
    case (Cons t ts)
    show ?thesis
    proof (cases "xTickCount k < wake_time k t")
      case True
      then show ?thesis using 1(2,5) Cons by (subst (asm) (1) unblock_expired.simps) auto
    next
      case False
      then obtain c where c: "current k = Inr c" and u: "unblock_expired (unblock_head t k) (sw \<or> prio k c \<le> prio k t) = Inr (k', sw')"
        using 1(2) Cons by (subst (asm) (1) unblock_expired.simps) (auto simp: bindR_Inr_iff)
      note h = unblock_head_inv [OF 1(3,4), of t]
      have "pxCurrentTCB k = Some c" using c by (auto simp: current_def split: option.splits)
      moreover have "switch_due (unblock_head t k) = switch_due k"
        by (simp add: unblock_head_def Let_def switch_due_def remove_event_item_def)
      ultimately have "(sw \<or> prio k c \<le> prio k t) \<or> preemptive (unblock_head t k)"
        using 1(5) h(3,6,7) by (auto simp: preemptive_def highest_def)
      then show ?thesis using 1(1) [OF Cons False c u h(1,2)] by blast
    qed
  qed
qed

lemma pre_tick: "kernel_ok k \<Longrightarrow> preemptive k \<Longrightarrow> xTaskIncrementTick k = Inr (sw, k') \<Longrightarrow> sw \<or> preemptive k'"
proof (cases "uxSchedulerSuspended k = 0")
  case True
  assume k: "kernel_ok k" "preemptive k" and r: "xTaskIncrementTick k = Inr (sw, k')"
  then obtain k2 s3 where s: "k2 = k\<lparr>xTickCount := xTickCount k + 1\<rparr> \<or> taskSWITCH_DELAYED_LISTS (k\<lparr>xTickCount := xTickCount k + 1\<rparr>) = Inr k2"
      "mid_inv k2" "k' = k2 \<and> \<not> s3 \<or> unblock_expired k2 False = Inr (k', s3)" "s3 \<or> xYieldPending k' \<longrightarrow> sw"
    using tick_steps [OF r True] by (auto simp: kernel_ok_def)
  have "preemptive k2" using s(1) k(2) by (auto simp: taskSWITCH_DELAYED_LISTS_def bindR_Inr_iff)
  then have "s3 \<or> preemptive k'" using s(3) pre_unblock_expired [of k2 False k' s3] s(2) by (auto simp: mid_inv_def)
  then show ?thesis using s(4) by blast
qed (auto simp: xTaskIncrementTick_def)

lemma pre_pended_ticks: "kernel_ok k \<Longrightarrow> preemptive k \<Longrightarrow> pended_ticks n k = Inr k' \<Longrightarrow> preemptive k'"
proof (induction n arbitrary: k)
  case (Suc n)
  obtain sw k1 where t: "xTaskIncrementTick k = Inr (sw, k1)" "kernel_ok k1" using ok_tick [OF Suc.prems(1)] by blast
  have "preemptive (if sw then k1\<lparr>xYieldPending := True\<rparr> else k1)" using pre_tick [OF Suc.prems(1,2) t(1)] by auto
  then show ?case using Suc.IH [of "if sw then k1\<lparr>xYieldPending := True\<rparr> else k1"] Suc.prems(3) t by simp
qed simp

lemma pre_move_pending: "kernel_ok k \<Longrightarrow> preemptive k \<Longrightarrow> move_pending ts k = Inr k' \<Longrightarrow> preemptive k'"
proof (induction ts arbitrary: k)
  case (Cons t ts)
  let ?k0 = "remove_event_item t k"
  let ?k1 = "prvAddTaskToReadyList t (remove_state_item t ?k0)"
  have k0: "kernel_ok ?k0" "preemptive ?k0" using Cons.prems by simp_all
  obtain c where c: "current k = Inr c" using ok_current [OF Cons.prems(1)] by blast
  let ?k2 = "if prio k c \<le> prio k t then ?k1\<lparr>xYieldPending := True\<rparr> else ?k1"
  have "preemptive ?k2" using pre_made_ready(2) [OF k0, of c t] c by simp
  moreover have "kernel_ok ?k2" using ok_move [OF k0(1)] by simp
  moreover have "move_pending ts ?k2 = Inr k'" using Cons.prems(3) c by (simp add: Let_def)
  ultimately show ?case using Cons.IH by blast
qed simp

text \<open>A switch that was noted is asked for by the next tick.\<close>

lemma unblock_expired_pending: "unblock_expired k sw = Inr (k', sw') \<Longrightarrow> xYieldPending k' = xYieldPending k"
proof (induction k sw rule: unblock_expired.induct)
  case (1 k sw)
  have h: "xYieldPending (unblock_head t k) = xYieldPending k" for t
    by (simp add: unblock_head_def Let_def) (simp add: remove_event_item_def)
  show ?case
  proof (cases "pxDelayedTaskList k")
    case Nil
    then show ?thesis using 1(2) by (subst (asm) (1) unblock_expired.simps) auto
  next
    case (Cons t ts)
    then show ?thesis using 1(2) 1(1) [OF Cons] h
      by (subst (asm) (1) unblock_expired.simps) (auto simp: bindR_Inr_iff split: if_splits)
  qed
qed

lemma tick_yields:
  assumes r: "xTaskIncrementTick k = Inr (sw, k')" and y: "xYieldPending k" "uxSchedulerSuspended k = 0"
  shows sw
proof -
  obtain k2 s3 where s: "k2 = k\<lparr>xTickCount := xTickCount k + 1\<rparr> \<or> taskSWITCH_DELAYED_LISTS (k\<lparr>xTickCount := xTickCount k + 1\<rparr>) = Inr k2"
      "k' = k2 \<and> \<not> s3 \<or> unblock_expired k2 False = Inr (k', s3)" "s3 \<or> xYieldPending k' \<longrightarrow> sw"
    using tick_steps [OF r y(2)] by blast
  have "xYieldPending k2"
    using s(1) y(1) by (auto simp: taskSWITCH_DELAYED_LISTS_def bindR_Inr_iff prvResetNextTaskUnblockTime_def split: list.splits)
  then show sw using s(2,3) unblock_expired_pending by blast
qed

text \<open>\<open>xTaskResumeAll\<close> keeps the property, and asks for a switch when it returns \<open>pdTRUE\<close>.\<close>

lemma pre_resume:
  assumes k: "kernel_ok k" and r: "xTaskResumeAll k = Inr (b, k')"
  shows "preemptive k \<Longrightarrow> preemptive k'" "b \<Longrightarrow> preemptive k'"
proof -
  let ?k1 = "k\<lparr>uxSchedulerSuspended := uxSchedulerSuspended k - 1\<rparr>"
  have k1: "kernel_ok ?k1" "preemptive ?k1 = preemptive k" using k by simp_all
  consider "\<not> b" "k' = ?k1"
    | k2 k3 k4 where "move_pending (xPendingReadyList ?k1) ?k1 = Inr k2" "k3 = k2 \<or> k3 = prvResetNextTaskUnblockTime k2"
      "kernel_ok k3" "k4 = k3 \<or> (\<exists>k5. pended_ticks (unat (xPendedTicks k3)) k3 = Inr k5 \<and> k4 = k5\<lparr>xPendedTicks := 0\<rparr>)"
      "b \<and> k' = portYIELD k4 \<or> \<not> b \<and> k' = k4"
    using resume_steps [OF k r] by blast
  then have "(b \<longrightarrow> preemptive k') \<and> (preemptive k \<longrightarrow> preemptive k')"
  proof cases
    case 2
    have "preemptive k4" if "preemptive k"
    proof -
      have "preemptive k3" using pre_move_pending [OF k1(1) _ 2(1)] k1(2) that 2(2) by auto
      then show ?thesis using 2(4) pre_pended_ticks [OF 2(3)] by auto
    qed
    then show ?thesis using 2(5) by auto
  qed (use k1 in simp)
  then show "preemptive k \<Longrightarrow> preemptive k'" "b \<Longrightarrow> preemptive k'" by blast+
qed

text \<open>A switch that returns has found a ready task of the highest priority.\<close>

lemma switch_steps:
  assumes l: "lists_inv k" and sus: "uxSchedulerSuspended k = 0" and s: "vTaskSwitchContext k = Inr k'"
  shows "\<exists>c q rs. pxCurrentTCB k' = Some c \<and> is_ready k c \<and> (\<forall>t. is_ready k t \<longrightarrow> prio k t \<le> prio k c) \<and> is_ready k' = is_ready k \<and>
    k' = k\<lparr>xYieldPending := False, pxCurrentTCB := Some c, pxReadyTasksLists := rs, uxTopReadyPriority := q\<rparr>"
proof -
  obtain p where "find_ready (pxReadyTasksLists k) (uxTopReadyPriority k) = Inr p"
    using s sus by (auto simp: vTaskSwitchContext_def taskSELECT_HIGHEST_PRIORITY_TASK_def bindR_Inr_iff)
  then have "ready_at k p \<noteq> []" using find_ready_sound ready_empty lists_invD(1) [OF l] by blast
  then have x: "is_ready k (hd (ready_at k p))" using ready_iff [OF l] hd_in_set by blast
  show ?thesis using switch_step [OF l sus x] s by auto
qed

lemma pre_switch: "kernel_ok k \<Longrightarrow> preemptive k \<Longrightarrow> take_pendsv k = Inr k' \<Longrightarrow> preemptive k'"
proof (cases "pendsv k \<and> uxSchedulerSuspended k = 0")
  case True
  assume k: "kernel_ok k" and r: "take_pendsv k = Inr k'"
  let ?k = "k\<lparr>pendsv := False\<rparr>"
  have s: "vTaskSwitchContext ?k = Inr k'" "uxSchedulerSuspended ?k = 0" using r True by (simp_all add: take_pendsv_def)
  have l: "lists_inv ?k" using k by (simp add: kernel_ok_def kernel_inv_def)
  obtain c q rs where sw: "pxCurrentTCB k' = Some c" "is_ready ?k c" "\<forall>t. is_ready ?k t \<longrightarrow> prio ?k t \<le> prio ?k c"
      "is_ready k' = is_ready ?k"
      "k' = ?k\<lparr>xYieldPending := False, pxCurrentTCB := Some c, pxReadyTasksLists := rs, uxTopReadyPriority := q\<rparr>"
    using switch_steps [OF l s(2,1)] by blast
  have "prio k' = prio ?k" using sw(5) by (simp add: prio_def fun_eq_iff)
  then show ?thesis using sw(1-4) by (auto simp: preemptive_def highest_def)
qed (auto simp: take_pendsv_def vTaskSwitchContext_def split: if_splits)

section \<open>The calls\<close>

lemma pre_delay: "kernel_ok k \<Longrightarrow> preemptive k \<Longrightarrow> vTaskDelay_block n k = Inr k' \<Longrightarrow> preemptive k'"
proof (cases "0 < n")
  case True
  assume k: "kernel_ok k" and d: "vTaskDelay_block n k = Inr k'"
  obtain k1 where k1: "prvAddCurrentTaskToDelayedList n False (vTaskSuspendAll k) = Inr k1" "kernel_ok k1"
    using ok_delayed [OF _ True, of "vTaskSuspendAll k" False] k by (auto simp: vTaskSuspendAll_def)
  have "bindR (xTaskResumeAll k1) (\<lambda>(b, k2). Inr (if b then k2 else portYIELD k2)) = Inr k'"
    using d True k1(1) by (simp add: vTaskDelay_block_def bindR_Inr_iff assertR_def split: if_splits)
  then obtain b k2 where "xTaskResumeAll k1 = Inr (b, k2)" "k' = (if b then k2 else portYIELD k2)"
    by (cases "xTaskResumeAll k1") auto
  then show ?thesis using pre_resume(2) [OF k1(2)] by simp
qed (auto simp: vTaskDelay_block_def)

lemma pre_delay_until: "kernel_ok k \<Longrightarrow> vTaskDelayUntil_block p n k = Inr (w, k') \<Longrightarrow> preemptive k'"
proof -
  assume k: "kernel_ok k" and r: "vTaskDelayUntil_block p n k = Inr (w, k')"
  obtain k2 b k3 where "kernel_ok k2" "xTaskResumeAll k2 = Inr (b, k3)" "k' = (if b then k3 else portYIELD k3)"
    using delay_until_end [OF k r] by blast
  then show ?thesis using pre_resume(2) by simp
qed

lemma pre_catch_up: "kernel_ok k \<Longrightarrow> preemptive k \<Longrightarrow> xTaskCatchUpTicks n k = Inr (b, k') \<Longrightarrow> preemptive k'"
  using pre_resume(1) [of "(vTaskSuspendAll k)\<lparr>xPendedTicks := xPendedTicks (vTaskSuspendAll k) + n\<rparr>" b k']
  by (simp add: xTaskCatchUpTicks_def bindR_Inr_iff assertR_def Let_def split: if_splits) (simp add: vTaskSuspendAll_def)

lemma pre_notify: "kernel_ok k \<Longrightarrow> preemptive k \<Longrightarrow> xTaskGenericNotify x v a k = Inr (b, p, k') \<Longrightarrow> preemptive k'"
proof (cases x)
  case (Some t)
  assume k: "kernel_ok k" "preemptive k" and r: "xTaskGenericNotify x v a k = Inr (b, p, k')"
  obtain xr w where nv: "notify_value a v (ucNotifyState (tcbs k t)) (ulNotifiedValue (tcbs k t)) = (xr, w)"
    by (cases "notify_value a v (ucNotifyState (tcbs k t)) (ulNotifiedValue (tcbs k t))")
  define k1 where "k1 = upd_tcb t (\<lambda>c. c\<lparr>ucNotifyState := taskNOTIFICATION_RECEIVED, ulNotifiedValue := w\<rparr>) k"
  have k1: "kernel_ok k1" "preemptive k1" using k by (simp_all add: k1_def)
  obtain c where c: "current k1 = Inr c" using ok_current [OF k1(1)] by blast
  have "(if ucNotifyState (tcbs k t) = taskWAITING_NOTIFICATION
      then bindR (assertR (xEventContainer (tcbs (prvAddTaskToReadyList t (remove_state_item t k1)) t) = None)) (\<lambda>_.
           bindR (current (prvAddTaskToReadyList t (remove_state_item t k1))) (\<lambda>c. Inr (xr, ulNotifiedValue (tcbs k t),
             if prio (prvAddTaskToReadyList t (remove_state_item t k1)) c < prio (prvAddTaskToReadyList t (remove_state_item t k1)) t
             then portYIELD (prvAddTaskToReadyList t (remove_state_item t k1)) else prvAddTaskToReadyList t (remove_state_item t k1))))
      else Inr (xr, ulNotifiedValue (tcbs k t), k1)) = Inr (b, p, k')"
    using r unfolding Some xTaskGenericNotify_def Let_def option.case nv prod.case k1_def [symmetric] .
  then show ?thesis using k1 c pre_made_ready(1) [OF k1 c, of t] by (auto simp: assertR_def split: if_splits)
qed (simp add: xTaskGenericNotify_def)

lemma pre_notify_isr:
  "kernel_ok k \<Longrightarrow> preemptive k \<Longrightarrow> notify_from_isr t s w k = Inr (k', w') \<Longrightarrow> preemptive k'"
proof -
  assume k: "kernel_ok k" "preemptive k" and r: "notify_from_isr t s w k = Inr (k', w')"
  obtain c where c: "current k = Inr c" using ok_current [OF k(1)] by blast
  show ?thesis using r k c pre_made_ready(1) [OF k c, of t]
    by (auto simp: notify_from_isr_def Let_def bindR_Inr_iff assertR_def split: if_splits)
qed

lemma pre_generic_isr: "kernel_ok k \<Longrightarrow> preemptive k \<Longrightarrow> xTaskGenericNotifyFromISR x v a w k = Inr (b, p, w', k') \<Longrightarrow> preemptive k'"
proof (cases x)
  case (Some t)
  assume k: "kernel_ok k" "preemptive k" and r: "xTaskGenericNotifyFromISR x v a w k = Inr (b, p, w', k')"
  obtain xr y where nv: "notify_value a v (ucNotifyState (tcbs k t)) (ulNotifiedValue (tcbs k t)) = (xr, y)"
    by (cases "notify_value a v (ucNotifyState (tcbs k t)) (ulNotifiedValue (tcbs k t))")
  define k1 where "k1 = upd_tcb t (\<lambda>c. c\<lparr>ucNotifyState := taskNOTIFICATION_RECEIVED, ulNotifiedValue := y\<rparr>) k"
  have k1: "kernel_ok k1" "preemptive k1" using k by (simp_all add: k1_def)
  have "notify_from_isr t (ucNotifyState (tcbs k t)) w k1 = Inr (k', w')"
    using r unfolding Some xTaskGenericNotifyFromISR_def Let_def
    by (cases "notify_from_isr t (ucNotifyState (tcbs k t)) w k1") (auto simp: nv k1_def [symmetric])
  then show ?thesis by (rule pre_notify_isr [OF k1])
qed (simp add: xTaskGenericNotifyFromISR_def)

lemma pre_give: "kernel_ok k \<Longrightarrow> preemptive k \<Longrightarrow> vTaskNotifyGiveFromISR x w k = Inr (w', k') \<Longrightarrow> preemptive k'"
proof (cases x)
  case (Some t)
  assume k: "kernel_ok k" "preemptive k" and r: "vTaskNotifyGiveFromISR x w k = Inr (w', k')"
  define k1 where "k1 = upd_tcb t (\<lambda>c. c\<lparr>ucNotifyState := taskNOTIFICATION_RECEIVED, ulNotifiedValue := ulNotifiedValue c + 1\<rparr>) k"
  have k1: "kernel_ok k1" "preemptive k1" using k by (simp_all add: k1_def)
  have "notify_from_isr t (ucNotifyState (tcbs k t)) w k1 = Inr (k', w')"
    using r unfolding Some vTaskNotifyGiveFromISR_def Let_def
    by (cases "notify_from_isr t (ucNotifyState (tcbs k t)) w k1") (auto simp: k1_def [symmetric])
  then show ?thesis by (rule pre_notify_isr [OF k1])
qed (simp add: vTaskNotifyGiveFromISR_def)

lemma pre_wait:
  assumes "kernel_ok k" "preemptive k"
  shows "xTaskNotifyWait_block bits n k = Inr k' \<Longrightarrow> preemptive k'" "ulTaskNotifyTake_block n k = Inr k' \<Longrightarrow> preemptive k'"
    "xTaskNotifyWait_wake bits k = Inr (b, v, k') \<Longrightarrow> preemptive k'" "ulTaskNotifyTake_wake cl k = Inr (w, k') \<Longrightarrow> preemptive k'"
    "xTaskNotifyStateClear h k = Inr (b, k') \<Longrightarrow> preemptive k'" "ulTaskNotifyValueClear h u k = Inr (w, k') \<Longrightarrow> preemptive k'"
  using assms
  by (auto simp: xTaskNotifyWait_block_def ulTaskNotifyTake_block_def xTaskNotifyWait_wake_def ulTaskNotifyTake_wake_def
      xTaskNotifyStateClear_def ulTaskNotifyValueClear_def Let_def bindR_Inr_iff split: if_splits)

lemma pre_create:
  assumes k: "kernel_ok k" "preemptive k" and t: "t \<notin> set (waiting k)" "\<not> is_ready k t"
    and r: "xTaskCreateStatic t p k = Inr k'"
  shows "preemptive k'"
proof -
  let ?k0 = "upd_tcb t (\<lambda>_. new_tcb p) k"
  define k1 where "k1 = ?k0\<lparr>uxCurrentNumberOfTasks := Suc (uxCurrentNumberOfTasks ?k0)\<rparr>"
  obtain c where c: "pxCurrentTCB k = Some c" using ok_current [OF k(1)] by blast
  have l: "lists_inv k" using k(1) by (simp add: kernel_ok_def kernel_inv_def)
  note l0 = lists_inv_upd [OF l t(2), of "\<lambda>_. new_tcb p"]
  have "is_ready ?k0 x = is_ready k x" "prio ?k0 x = prio k x" if "x \<noteq> t" for x
    using that by (simp_all add: is_ready_def ready_at_def upd_tcb_def prio_def)
  then have p0: "preemptive ?k0" using k(2) l0(2) t(2) c unfolding preemptive_def highest_def by (cases "c = t") fastforce+
  have f: "lists_inv k1 = lists_inv ?k0" "is_ready k1 = is_ready ?k0"
    by (rule lists_inv_cong; simp add: k1_def prio_def waiting_def)+
  have w: "waiting k1 = waiting k" using l0(3) by (simp add: k1_def waiting_def)
  have run: "xSchedulerRunning k1" "pxCurrentTCB k1 = Some c" using k(1) c by (simp_all add: k1_def kernel_ok_def)
  define k3 where "k3 = prvAddTaskToReadyList t k1"
  have "preemptive k3" if "\<not> prio k3 c < prio k3 t"
    unfolding k3_def
  proof (rule pre_add [OF _ _ _ _ run(2)])
    show "lists_inv k1" "\<not> is_ready k1 t" using l0 by (simp_all add: f)
    show "t \<notin> set (waiting k1)" using t w by simp
    show "preemptive k1" using p0 by (simp add: k1_def)
    show "prio k1 t \<le> prio k1 c" using that by (simp add: k3_def)
  qed
  moreover have k2: "\<not> (\<not> xSchedulerRunning k1 \<and> prio k1 c \<le> prio k1 t)" using run by simp
  have "k' = (if prio k3 c < prio k3 t then portYIELD k3 else k3)"
    using r unfolding xTaskCreateStatic_def prvAddNewTaskToReadyList_def Let_def k1_def [symmetric] run(2) option.case
      if_not_P [OF k2] k3_def [symmetric] using run by (simp add: k3_def current_def)
  ultimately show ?thesis by simp
qed

text \<open>Calls that take a task other than the running one out of the ready lists, or ask for a switch.\<close>

lemma pre_delete: "kernel_ok k \<Longrightarrow> preemptive k \<Longrightarrow> vTaskDelete h k = Inr k' \<Longrightarrow> preemptive k'"
proof -
  assume k: "kernel_ok k" "preemptive k" and r: "vTaskDelete h k = Inr k'"
  obtain t where t: "prvGetTCBFromHandle h k = Inr t" using ok_handle [OF k(1)] by blast
  have l: "lists_inv k" "xSchedulerRunning k" using k(1) by (simp_all add: kernel_ok_def kernel_inv_def)
  define k1 where "k1 = remove_state_item t k"
  define k2 where "k2 = (if xEventContainer (tcbs k1 t) \<noteq> None then remove_event_item t k1 else k1)"
  have e: "pxCurrentTCB k2 = pxCurrentTCB k" "xSchedulerRunning k2"
    using l(2) by (simp_all add: k2_def k1_def) (simp add: remove_event_item_def)
  have p: "preemptive k2" if "Some t \<noteq> pxCurrentTCB k" using pre_remove [OF l(1) k(2), of t] that by (auto simp: k2_def k1_def)
  show ?thesis
  proof (cases "Some t = pxCurrentTCB k")
    case True
    then show ?thesis using r e unfolding vTaskDelete_def t bindR.simps Let_def k1_def [symmetric] k2_def [symmetric]
      by (auto simp: assertR_def split: if_splits)
  next
    case False
    have "k' = prvResetNextTaskUnblockTime (k2\<lparr>uxCurrentNumberOfTasks := uxCurrentNumberOfTasks k2 - 1\<rparr>)"
      using r e False unfolding vTaskDelete_def t bindR.simps Let_def k1_def [symmetric] k2_def [symmetric]
      by (simp split: if_splits)
    then show ?thesis using p [OF False] by simp
  qed
qed

lemma pre_clean_up: "kernel_ok k \<Longrightarrow> preemptive k \<Longrightarrow> clean_up_tasks n k = Inr k' \<Longrightarrow> preemptive k'"
proof (induction n arbitrary: k)
  case (Suc n)
  obtain t ts where t: "xTasksWaitingTermination k = t # ts" using Suc.prems(3) by (cases "xTasksWaitingTermination k") auto
  have l: "lists_inv k" using Suc.prems(1) by (simp add: kernel_ok_def kernel_inv_def)
  have "t \<in> set (waiting k)" by (simp add: waiting_def t)
  then have n: "\<not> is_ready k t" using lists_invD(4) [OF l] by (auto simp: is_ready_def)
  let ?k = "(remove_state_item t k)\<lparr>uxCurrentNumberOfTasks := uxCurrentNumberOfTasks k - 1, uxDeletedTasksWaitingCleanUp := n\<rparr>"
  have "kernel_ok ?k" using ok_remove [OF Suc.prems(1), of t] by (simp add: kernel_ok_def)
  moreover have "preemptive ?k" using pre_remove [OF l Suc.prems(2)] n by simp
  ultimately show ?case by (rule Suc.IH) (use Suc.prems(3) t in simp)
qed simp

lemma pre_idle: "kernel_ok k \<Longrightarrow> preemptive k \<Longrightarrow> prvIdleTask_step k = Inr k' \<Longrightarrow> preemptive k'"
  using pre_clean_up [of k "uxDeletedTasksWaitingCleanUp k"]
  by (auto simp: prvIdleTask_step_def bindR_Inr_iff prvCheckTasksWaitingTermination_def)

lemma pre_suspend: "kernel_ok k \<Longrightarrow> preemptive k \<Longrightarrow> vTaskSuspend h k = Inr k' \<Longrightarrow> preemptive k'"
proof -
  assume k: "kernel_ok k" "preemptive k" and r: "vTaskSuspend h k = Inr k'"
  have l: "lists_inv k" using k(1) by (simp add: kernel_ok_def kernel_inv_def)
  have "preemptive (suspend_task t k)" if "Some t \<noteq> pxCurrentTCB k" for t
    using pre_remove [OF l k(2), of t] that by (auto simp: suspend_task_def Let_def)
  then show ?thesis using suspend_steps [OF k(1) r] by auto
qed

lemma pre_task_resume: "kernel_ok k \<Longrightarrow> preemptive k \<Longrightarrow> vTaskResume h k = Inr k' \<Longrightarrow> preemptive k'"
proof (cases h)
  case (Some t)
  assume k: "kernel_ok k" "preemptive k" and r: "vTaskResume h k = Inr k'"
  obtain c where c: "current k = Inr c" using ok_current [OF k(1)] by blast
  show ?thesis using r k c pre_made_ready(2) [OF k c, of t] Some by (auto simp: vTaskResume_def Let_def split: if_splits)
qed (simp add: vTaskResume_def)

text \<open>The case analysis of \<open>vTaskPrioritySet\<close> asks for a switch whenever one is needed.\<close>

lemma pre_priority_set: "kernel_ok k \<Longrightarrow> preemptive k \<Longrightarrow> vTaskPrioritySet h n k = Inr k' \<Longrightarrow> preemptive k'"
proof -
  assume k: "kernel_ok k" "preemptive k" and r: "vTaskPrioritySet h n k = Inr k'"
  obtain t where t: "prvGetTCBFromHandle h k = Inr t" using ok_handle [OF k(1)] by blast
  obtain c where c: "pxCurrentTCB k = Some c" "current k = Inr c" using ok_current [OF k(1)] by blast
  let ?f = "\<lambda>c. c\<lparr>uxPriority := (if uxBasePriority c = uxPriority c then n else uxPriority c), uxBasePriority := n\<rparr>"
  let ?g = "set_event_value n \<circ> ?f"
  define k3 where "k3 = requeue (prio k t) t (upd_tcb t ?g k)"
  have e: "k' = k \<or> k' = portYIELD k3 \<or> k' = k3 \<and>
      (if uxBasePriority (tcbs k t) < n then t = c \<or> \<not> prio k c \<le> n else t \<noteq> c)"
    using r c by (auto simp: vTaskPrioritySet_def t bindR_Inr_iff assertR_def Let_def k3_def prio_def upd_upd split: if_splits)
  have "preemptive k3" if "if uxBasePriority (tcbs k t) < n then t = c \<or> \<not> prio k c \<le> n else t \<noteq> c"
    unfolding k3_def by (rule pre_change [OF k c(1)]) (use that in \<open>auto simp: prio_def split: if_splits\<close>)
  then show ?thesis using e k(2) by auto
qed

lemma pre_inherit: "kernel_ok k \<Longrightarrow> preemptive k \<Longrightarrow> xTaskPriorityInherit h k = Inr (b, k') \<Longrightarrow> preemptive k'"
proof (cases h)
  case (Some t)
  assume k: "kernel_ok k" "preemptive k" and r: "xTaskPriorityInherit h k = Inr (b, k')"
  obtain c where c: "pxCurrentTCB k = Some c" "current k = Inr c" using ok_current [OF k(1)] by blast
  let ?g = "(\<lambda>x. x\<lparr>uxPriority := prio k c\<rparr>) \<circ> set_event_value (prio k c)"
  have "preemptive (requeue (prio k t) t (upd_tcb t ?g k))"
    by (rule pre_change [OF k c(1)]) simp
  then show ?thesis using r c k Some by (auto simp: xTaskPriorityInherit_def Let_def upd_upd split: if_splits)
qed (simp add: xTaskPriorityInherit_def)

lemma pre_remove_event: "kernel_ok k \<Longrightarrow> preemptive k \<Longrightarrow> xTaskRemoveFromEventList q k = Inr (b, k') \<Longrightarrow> preemptive k'"
proof -
  assume k: "kernel_ok k" "preemptive k" and r: "xTaskRemoveFromEventList q k = Inr (b, k')"
  then obtain t ts where t: "xEventLists k q = t # ts" by (cases "xEventLists k q") (auto simp: xTaskRemoveFromEventList_def)
  define k1 where "k1 = remove_event_item t k"
  have k1: "kernel_ok k1" "preemptive k1" using k by (simp_all add: k1_def)
  obtain c where c: "current k1 = Inr c" using ok_current [OF k1(1)] by blast
  show ?thesis using r k1 c pre_made_ready(1) [OF k1 c, of t]
    unfolding xTaskRemoveFromEventList_def t list.case Let_def k1_def [symmetric] by (auto split: if_splits)
qed

lemma pre_remove_unordered: "kernel_ok k \<Longrightarrow> preemptive k \<Longrightarrow> vTaskRemoveFromUnorderedEventList t v k = Inr k' \<Longrightarrow> preemptive k'"
proof -
  assume k: "kernel_ok k" "preemptive k" and r: "vTaskRemoveFromUnorderedEventList t v k = Inr k'"
  define k1 where "k1 = remove_event_item t (upd_tcb t (\<lambda>c. c\<lparr>xEventItemValue := v OR taskEVENT_LIST_ITEM_VALUE_IN_USE\<rparr>) k)"
  have k1: "kernel_ok k1" "preemptive k1" using k by (simp_all add: k1_def)
  obtain c where c: "current k1 = Inr c" using ok_current [OF k1(1)] by blast
  show ?thesis using r k1 c pre_made_ready(1) [OF k1 c, of t]
    unfolding vTaskRemoveFromUnorderedEventList_def Let_def k1_def [symmetric] by (auto simp: assertR_def split: if_splits)
qed

section \<open>Preemption in every reachable state\<close>

text \<open>The calls that leave asking for the switch to their caller: a task that has put itself on an event list
  gives up the processor in a second step, and the giver of a mutex and \<open>xTaskResumeFromISR\<close> report by
  their result that a switch is needed.\<close>

fun asks_itself :: "kernel_call \<Rightarrow> bool" where
  "asks_itself (Place q n) = False"
| "asks_itself (Place_unordered q v n) = False"
| "asks_itself (Place_restricted q n b) = False"
| "asks_itself (Resume_isr t) = False"
| "asks_itself (Disinherit h) = False"
| "asks_itself (Disinherit_timeout h p) = False"
| "asks_itself _ = True"

inductive calls_from :: "kernel \<Rightarrow> kernel \<Rightarrow> bool" for k where
  no_call: "calls_from k k"
| one_more: "calls_from k k1 \<Longrightarrow> call_ok c k1 \<Longrightarrow> asks_itself c \<Longrightarrow> run_call c k1 = Inr k2 \<Longrightarrow> calls_from k k2"

lemma run_call_preemptive:
  assumes k: "kernel_ok k" and p: "preemptive k" and c: "call_ok c k" "asks_itself c" and r: "run_call c k = Inr k'"
  shows "preemptive k'"
proof (cases c)
  case Tick
  then obtain sw k1 where t: "xTaskIncrementTick k = Inr (sw, k1)" "k' = (if sw then portYIELD k1 else k1)"
    using r by (auto simp: xPortSysTickHandler_def bindR_Inr_iff)
  then show ?thesis using pre_tick [OF k p t(1)] by auto
next
  case Suspend_all
  then show ?thesis using p r by auto
next
  case Resume_all
  then show ?thesis using pre_resume(1) [OF k _ p] r by (auto simp: bindR_Inr_iff)
next
  case (Notify x v a)
  then show ?thesis using pre_notify [OF k p] r by (auto simp: bindR_Inr_iff)
next
  case (Notify_isr x v a)
  then show ?thesis using pre_generic_isr [OF k p] r by (auto simp: bindR_Inr_iff)
next
  case (Give_isr x)
  then show ?thesis using pre_give [OF k p] r by (auto simp: bindR_Inr_iff)
next
  case (Wait bits n)
  then show ?thesis using pre_wait(1) [OF k p] r by simp
next
  case (Take n)
  then show ?thesis using pre_wait(2) [OF k p] r by simp
next
  case (Wait_end bits)
  then show ?thesis using pre_wait(3) [OF k p] r by (auto simp: bindR_Inr_iff)
next
  case (Take_end b)
  then show ?thesis using pre_wait(4) [OF k p] r by (auto simp: bindR_Inr_iff)
next
  case (Clear_state x)
  then show ?thesis using pre_wait(5) [OF k p] r by (auto simp: bindR_Inr_iff)
next
  case (Clear_value x v)
  then show ?thesis using pre_wait(6) [OF k p] r by (auto simp: bindR_Inr_iff)
next
  case (Create t q)
  then show ?thesis using pre_create [OF k p, of t q k'] c r by simp
next
  case (Delay_until q n)
  then show ?thesis using pre_delay_until [OF k] r by (auto simp: bindR_Inr_iff)
next
  case (Catch_up n)
  then show ?thesis using pre_catch_up [OF k p] r by (auto simp: bindR_Inr_iff)
next
  case (Unblock q)
  then show ?thesis using pre_remove_event [OF k p] r by (auto simp: bindR_Inr_iff)
next
  case (Inherit h)
  then show ?thesis using pre_inherit [OF k p] r by (auto simp: bindR_Inr_iff)
next
  case Reset_item
  then show ?thesis using p r by (auto simp: uxTaskResetEventItemValue_def bindR_Inr_iff)
next
  case Take_mutex
  then show ?thesis using p r by (auto simp: pvTaskIncrementMutexHeldCount_def split: option.splits)
next
  case Missed_yield
  then show ?thesis using r by (auto simp: vTaskMissedYield_def)
next
  case Clean_up
  then show ?thesis using pre_clean_up [OF k p] r by (simp add: prvCheckTasksWaitingTermination_def)
qed (use r c pre_switch [OF k p] pre_delay [OF k p] pre_delete [OF k p] pre_idle [OF k p] pre_suspend [OF k p]
    pre_task_resume [OF k p] pre_priority_set [OF k p] pre_remove_unordered [OF k p] in simp_all)

lemma booted_highest: "ids_ok i \<Longrightarrow> highest (booted i)"
proof -
  assume i: "ids_ok i"
  then have ne: "id_init i \<noteq> id_idle i" "id_init i \<noteq> id_timer i" "id_idle i \<noteq> id_timer i" by (auto simp: ids_ok_def)
  have pr: "prio (booted i) (id_init i) = 5" "prio (booted i) (id_idle i) = 0" "prio (booted i) (id_timer i) = 2"
    using ne by (simp_all add: prio_def booted_def new_tcb_def Let_def configMAX_PRIORITIES_def)
  have "t \<in> {id_init i, id_idle i, id_timer i}" if "is_ready (booted i) t" for t
    using that by (auto simp: is_ready_def booted_ready split: if_splits)
  then have "prio (booted i) t \<le> 5" if "is_ready (booted i) t" for t using that pr by fastforce
  moreover have "is_ready (booted i) (id_init i)" using pr by (simp add: is_ready_def booted_ready)
  moreover have "pxCurrentTCB (booted i) = Some (id_init i)" by (simp add: booted_def)
  ultimately show ?thesis using pr by (auto simp: highest_def)
qed

lemma calls_preemptive: "calls_from (booted i) k \<Longrightarrow> ids_ok i \<Longrightarrow> kernel_ok k \<and> preemptive k"
proof (induction rule: calls_from.induct)
  case no_call
  then show ?case using booted_highest kernel_reach_ok [OF started] by (auto simp: preemptive_def)
qed (blast intro: run_call_ok run_call_preemptive)

text \<open>C7: preemption is never missed. After the start of the scheduler and any sequence of calls from tasks and
  interrupts (ticks, switches, notifications, delays, creations, deletions, suspensions, changes of
  priorities, and so on; in any order, also while the scheduler is suspended), whenever no switch has
  been asked for the running task is ready and no ready task has a higher priority. When a switch was
  only noted (\<open>xYieldPending\<close>), the next tick interrupt asks for it.\<close>

theorem preemption_never_missed:
  assumes "ids_ok i" and "calls_from (booted i) k"
  shows "(pendsv k \<or> xYieldPending k \<or>
      (\<exists>c. pxCurrentTCB k = Some c \<and> is_ready k c \<and> (\<forall>t. is_ready k t \<longrightarrow> prio k t \<le> prio k c))) \<and>
    (xYieldPending k \<longrightarrow> uxSchedulerSuspended k = 0 \<longrightarrow> (\<exists>k'. xPortSysTickHandler k = Inr k' \<and> pendsv k'))"
proof -
  have k: "kernel_ok k" "preemptive k" using calls_preemptive assms by blast+
  have "\<exists>k'. xPortSysTickHandler k = Inr k' \<and> pendsv k'" if y: "xYieldPending k" "uxSchedulerSuspended k = 0"
  proof -
    obtain sw k1 where t: "xTaskIncrementTick k = Inr (sw, k1)" using ok_tick [OF k(1)] by blast
    have "sw" using tick_yields [OF t y] .
    then show ?thesis using t by (simp add: xPortSysTickHandler_def portYIELD_def)
  qed
  then show ?thesis using k(2) by (auto simp: preemptive_def switch_due_def highest_def)
qed

text \<open>The timer task is given a priority above that of the initialisation task: it runs at once.\<close>

definition raised :: "kernel res" where
  "raised = bindR (run_call (Set_priority (Some (id_timer ids_example)) 7) (booted ids_example)) (run_call Switch)"

lemma raised_runs:
  "case raised of Inl _ \<Rightarrow> False | Inr k \<Rightarrow> \<not> pendsv k \<and> \<not> xYieldPending k \<and> pxCurrentTCB k = Some (id_timer ids_example)"
  by code_simp

theorem preemption_never_missed_witness:
  "\<exists>k. raised = Inr k \<and> pxCurrentTCB k = Some (id_timer ids_example) \<and> is_ready k (id_timer ids_example) \<and>
    (\<forall>t. is_ready k t \<longrightarrow> prio k t \<le> prio k (id_timer ids_example))"
proof -
  have ids: "ids_ok ids_example" by (simp add: ids_ok_def ids_example_def)
  obtain k where k: "raised = Inr k" "\<not> pendsv k" "\<not> xYieldPending k" "pxCurrentTCB k = Some (id_timer ids_example)"
    using raised_runs by (auto split: sum.splits)
  then obtain k1 where k1: "run_call (Set_priority (Some (id_timer ids_example)) 7) (booted ids_example) = Inr k1"
      "run_call Switch k1 = Inr k"
    by (auto simp: raised_def bindR_Inr_iff simp del: run_call.simps)
  have "calls_from (booted ids_example) k1" by (rule one_more [OF no_call _ _ k1(1)]) simp_all
  then have "calls_from (booted ids_example) k" by (rule one_more [OF _ _ _ k1(2)]) simp_all
  from preemption_never_missed [OF ids this] show ?thesis using k by auto
qed

end
