(* ===== verification/KernelAside.thy ===== *)
theory KernelAside
  imports KernelPreempt
begin

text \<open>
  A suspended task stays suspended: only the calls that name it bring it back.
\<close>

definition aside :: "task \<Rightarrow> kernel \<Rightarrow> bool" where
  "aside t k \<longleftrightarrow> t \<in> set (xSuspendedTaskList k) \<and> xEventContainer (tcbs k t) = None \<and>
     ucNotifyState (tcbs k t) \<noteq> taskWAITING_NOTIFICATION \<and> t \<notin> set (xPendingReadyList k) \<and>
     (\<forall>q. t \<notin> set (xEventLists k q)) \<and> pxCurrentTCB k \<noteq> Some t"

lemma aside_cong:
  assumes "xSuspendedTaskList k' = xSuspendedTaskList k" "tcbs k' t = tcbs k t" "xPendingReadyList k' = xPendingReadyList k"
    "xEventLists k' = xEventLists k" "pxCurrentTCB k' = pxCurrentTCB k"
  shows "aside t k' = aside t k"
  using assms by (simp add: aside_def)

lemma aside_fields [simp]:
  "aside t (k\<lparr>uxSchedulerSuspended := n\<rparr>) = aside t k" "aside t (k\<lparr>xPendedTicks := v\<rparr>) = aside t k"
  "aside t (k\<lparr>xNextTaskUnblockTime := v\<rparr>) = aside t k" "aside t (k\<lparr>uxCurrentNumberOfTasks := n\<rparr>) = aside t k"
  "aside t (k\<lparr>xTasksWaitingTermination := ts, uxDeletedTasksWaitingCleanUp := n\<rparr>) = aside t k"
  "aside t (k\<lparr>uxCurrentNumberOfTasks := n, uxDeletedTasksWaitingCleanUp := m\<rparr>) = aside t k"
  "aside t (k\<lparr>xTickCount := v\<rparr>) = aside t k" "aside t (k\<lparr>xYieldPending := b\<rparr>) = aside t k"
  "aside t (k\<lparr>pendsv := b\<rparr>) = aside t k" "aside t (portYIELD k) = aside t k" "aside t (vTaskSuspendAll k) = aside t k"
  "aside t (k\<lparr>pxDelayedTaskList := ts, pxOverflowDelayedTaskList := us, xNumOfOverflows := n\<rparr>) = aside t k"
  "aside t (k\<lparr>pxDelayedTaskList := ts\<rparr>) = aside t k" "aside t (k\<lparr>pxOverflowDelayedTaskList := ts\<rparr>) = aside t k"
  "aside t (prvAddTaskToReadyList u k) = aside t k" "aside t (prvResetNextTaskUnblockTime k) = aside t k"
  by (rule aside_cong; simp add: portYIELD_def vTaskSuspendAll_def prvAddTaskToReadyList_def Let_def
      prvResetNextTaskUnblockTime_def split: list.split)+

lemma aside_others [simp]:
  assumes "u \<noteq> t"
  shows "aside t (remove_state_item u k) = aside t k" "aside t (remove_event_item u k) = aside t k"
    "aside t (pend_ready u k) = aside t k" "aside t (upd_tcb u f k) = aside t k"
    "aside t (k\<lparr>xSuspendedTaskList := xSuspendedTaskList k @ [u]\<rparr>) = aside t k"
  using assms by (auto simp: aside_def remove_state_item_def remove_event_item_def pend_ready_def upd_tcb_def)

lemma aside_upd:
  "aside t k \<Longrightarrow> xEventContainer (f (tcbs k t)) = xEventContainer (tcbs k t) \<Longrightarrow>
   ucNotifyState (f (tcbs k t)) = ucNotifyState (tcbs k t) \<or> ucNotifyState (f (tcbs k t)) \<noteq> taskWAITING_NOTIFICATION \<Longrightarrow>
   aside t (upd_tcb t f k)"
  by (auto simp: aside_def upd_tcb_def)

lemma aside_upd_any:
  "aside t k \<Longrightarrow> (\<And>c. xEventContainer (f c) = xEventContainer c) \<Longrightarrow> (\<And>c. ucNotifyState (f c) = ucNotifyState c) \<Longrightarrow>
   aside t (upd_tcb u f k)"
  using aside_upd [of t k f] by (cases "u = t") auto

lemma aside_not_ready:
  assumes "kernel_ok k" "aside t k"
  shows "\<not> is_ready k t" "t \<notin> set (pxDelayedTaskList k)" "t \<notin> set (pxOverflowDelayedTaskList k)"
    "t \<notin> set (xTasksWaitingTermination k)" "t \<in> set (waiting k)"
proof -
  have l: "lists_inv k" using assms(1) by (simp add: kernel_ok_def kernel_inv_def)
  show w: "t \<in> set (waiting k)" using assms(2) by (simp add: aside_def waiting_def)
  then show "\<not> is_ready k t" using lists_invD(4) [OF l] by (auto simp: is_ready_def)
  show "t \<notin> set (pxDelayedTaskList k)" "t \<notin> set (pxOverflowDelayedTaskList k)" "t \<notin> set (xTasksWaitingTermination k)"
    using lists_invD(2) [OF l] assms(2) by (auto simp: waiting_def aside_def)
qed

section \<open>Suspending a task\<close>

text \<open>Before the call the event item of the task is in at most one list, the one it knows of.\<close>

definition event_item_ok :: "task \<Rightarrow> kernel \<Rightarrow> bool" where
  "event_item_ok t k \<longleftrightarrow> distinct (xPendingReadyList k) \<and> (\<forall>q. distinct (xEventLists k q)) \<and>
     (xEventContainer (tcbs k t) = None \<longrightarrow> t \<notin> set (xPendingReadyList k) \<and> (\<forall>q. t \<notin> set (xEventLists k q)))"

lemma suspend_task_aside:
  assumes "event_item_ok t k" "pxCurrentTCB k \<noteq> Some t"
  shows "aside t (suspend_task t k)"
proof -
  define k1 where "k1 = remove_state_item t k"
  define k2 where "k2 = (if xEventContainer (tcbs k1 t) \<noteq> None then remove_event_item t k1 else k1)"
  have "xEventContainer (tcbs k2 t) = None" "t \<notin> set (xPendingReadyList k2)" "\<forall>q. t \<notin> set (xEventLists k2 q)"
    "pxCurrentTCB k2 = pxCurrentTCB k"
    using assms(1) by (auto simp: k2_def k1_def event_item_ok_def remove_event_item_def upd_tcb_def remove_state_item_def)
  then show ?thesis using assms(2) unfolding suspend_task_def Let_def k1_def [symmetric] k2_def [symmetric]
    by (auto simp: aside_def upd_tcb_def prvResetNextTaskUnblockTime_def split: list.split)
qed

section \<open>The tick and the resumption of the scheduler\<close>

lemma aside_unblock_expired:
  "unblock_expired k sw = Inr (k', sw') \<Longrightarrow> lists_inv k \<Longrightarrow> sorted_inv k \<Longrightarrow> aside t k \<Longrightarrow> aside t k'"
proof (induction k sw rule: unblock_expired.induct)
  case (1 k sw)
  show ?case
  proof (cases "pxDelayedTaskList k")
    case Nil
    then show ?thesis using 1(2,5) by (subst (asm) (1) unblock_expired.simps) auto
  next
    case (Cons u us)
    show ?thesis
    proof (cases "xTickCount k < wake_time k u")
      case True
      then show ?thesis using 1(2,5) Cons by (subst (asm) (1) unblock_expired.simps) auto
    next
      case False
      then obtain c where c: "current k = Inr c" and u: "unblock_expired (unblock_head u k) (sw \<or> prio k c \<le> prio k u) = Inr (k', sw')"
        using 1(2) Cons by (subst (asm) (1) unblock_expired.simps) (auto simp: bindR_Inr_iff)
      have "u \<noteq> t" using lists_invD(2) [OF 1(3)] 1(5) Cons by (auto simp: waiting_def aside_def)
      then have "aside t (unblock_head u k)" using 1(5) by (simp add: unblock_head_def Let_def)
      then show ?thesis using 1(1) [OF Cons False c u unblock_head_inv(1,2) [OF 1(3,4)]] by blast
    qed
  qed
qed

lemma aside_tick: "kernel_ok k \<Longrightarrow> aside t k \<Longrightarrow> xTaskIncrementTick k = Inr (sw, k') \<Longrightarrow> aside t k'"
proof (cases "uxSchedulerSuspended k = 0")
  case True
  assume k: "kernel_ok k" "aside t k" and r: "xTaskIncrementTick k = Inr (sw, k')"
  then obtain k2 s3 where s: "k2 = k\<lparr>xTickCount := xTickCount k + 1\<rparr> \<or> taskSWITCH_DELAYED_LISTS (k\<lparr>xTickCount := xTickCount k + 1\<rparr>) = Inr k2"
      "mid_inv k2" "k' = k2 \<and> \<not> s3 \<or> unblock_expired k2 False = Inr (k', s3)"
    using tick_steps [OF r True] by (auto simp: kernel_ok_def)
  have "aside t k2" using s(1) k(2) by (auto simp: taskSWITCH_DELAYED_LISTS_def bindR_Inr_iff)
  then show ?thesis using s(3) aside_unblock_expired [of k2 False k' s3] s(2) by (auto simp: mid_inv_def)
qed (auto simp: xTaskIncrementTick_def)

lemma aside_pended_ticks: "kernel_ok k \<Longrightarrow> aside t k \<Longrightarrow> pended_ticks n k = Inr k' \<Longrightarrow> aside t k'"
proof (induction n arbitrary: k)
  case (Suc n)
  obtain sw k1 where t: "xTaskIncrementTick k = Inr (sw, k1)" "kernel_ok k1" using ok_tick [OF Suc.prems(1)] by blast
  then show ?case using Suc.IH [of "if sw then k1\<lparr>xYieldPending := True\<rparr> else k1"] Suc.prems(3) aside_tick [OF Suc.prems(1,2) t(1)]
    by simp
qed simp

lemma aside_move_pending: "t \<notin> set us \<Longrightarrow> aside t k \<Longrightarrow> move_pending us k = Inr k' \<Longrightarrow> aside t k'"
proof (induction us arbitrary: k)
  case (Cons u us)
  let ?k1 = "prvAddTaskToReadyList u (remove_state_item u (remove_event_item u k))"
  obtain c where "move_pending us (if prio k c \<le> prio k u then ?k1\<lparr>xYieldPending := True\<rparr> else ?k1) = Inr k'"
    using Cons.prems(3) by (auto simp: bindR_Inr_iff Let_def)
  then show ?case using Cons.IH [of "if prio k c \<le> prio k u then ?k1\<lparr>xYieldPending := True\<rparr> else ?k1"] Cons.prems(1,2)
    by (cases "prio k c \<le> prio k u") auto
qed simp

lemma aside_resume: "kernel_ok k \<Longrightarrow> aside t k \<Longrightarrow> xTaskResumeAll k = Inr (b, k') \<Longrightarrow> aside t k'"
proof -
  assume k: "kernel_ok k" "aside t k" and r: "xTaskResumeAll k = Inr (b, k')"
  let ?k1 = "k\<lparr>uxSchedulerSuspended := uxSchedulerSuspended k - 1\<rparr>"
  have k1: "aside t ?k1" "t \<notin> set (xPendingReadyList ?k1)" using k(2) by (simp_all add: aside_def)
  consider "k' = ?k1"
    | k2 k3 k4 where "move_pending (xPendingReadyList ?k1) ?k1 = Inr k2" "k3 = k2 \<or> k3 = prvResetNextTaskUnblockTime k2"
      "kernel_ok k3" "k4 = k3 \<or> (\<exists>k5. pended_ticks (unat (xPendedTicks k3)) k3 = Inr k5 \<and> k4 = k5\<lparr>xPendedTicks := 0\<rparr>)"
      "k' = portYIELD k4 \<or> k' = k4"
    using resume_steps [OF k(1) r] by blast
  then show "aside t k'"
  proof cases
    case 2
    have "aside t k3" using aside_move_pending [OF k1(2,1) 2(1)] 2(2) by auto
    then have "aside t k4" using 2(4) aside_pended_ticks [OF 2(3)] by auto
    then show ?thesis using 2(5) by auto
  qed (use k1 in simp)
qed

section \<open>The other calls\<close>

lemma aside_switch: "kernel_ok k \<Longrightarrow> aside t k \<Longrightarrow> take_pendsv k = Inr k' \<Longrightarrow> aside t k'"
proof (cases "pendsv k \<and> uxSchedulerSuspended k = 0")
  case True
  assume k: "kernel_ok k" "aside t k" and r: "take_pendsv k = Inr k'"
  let ?k = "k\<lparr>pendsv := False\<rparr>"
  have s: "vTaskSwitchContext ?k = Inr k'" and sus: "uxSchedulerSuspended ?k = 0" using r True by (simp_all add: take_pendsv_def)
  have l: "lists_inv ?k" using k(1) by (simp add: kernel_ok_def kernel_inv_def)
  obtain c q rs where sw: "is_ready ?k c"
      "k' = ?k\<lparr>xYieldPending := False, pxCurrentTCB := Some c, pxReadyTasksLists := rs, uxTopReadyPriority := q\<rparr>"
    using switch_steps [OF l sus s] by blast
  have "c \<noteq> t" using sw(1) aside_not_ready(1) [OF k] by auto
  then show ?thesis using k(2) by (auto simp: sw(2) aside_def)
qed (auto simp: take_pendsv_def vTaskSwitchContext_def split: if_splits)

lemma aside_delayed: "aside t k \<Longrightarrow> prvAddCurrentTaskToDelayedList n b k = Inr k' \<Longrightarrow> aside t k'"
proof -
  assume k: "aside t k" and r: "prvAddCurrentTaskToDelayedList n b k = Inr k'"
  then obtain c where c: "current k = Inr c" "c \<noteq> t"
    by (auto simp: prvAddCurrentTaskToDelayedList_def bindR_Inr_iff aside_def current_def split: option.splits)
  have rc: "aside t (remove_state_item c k)" using k c(2) by simp
  then have s: "aside t ((remove_state_item c k)\<lparr>xSuspendedTaskList := xSuspendedTaskList (remove_state_item c k) @ [c]\<rparr>)"
    using aside_others(5) [OF c(2)] by blast
  show ?thesis using r rc s c by (auto simp: prvAddCurrentTaskToDelayedList_def Let_def split: if_splits)
qed

lemma aside_put [simp]: "u \<noteq> t \<Longrightarrow> t \<notin> set l \<Longrightarrow> aside t k \<Longrightarrow> aside t (put_event_list q l u k)"
  by (simp add: put_event_list_def) (simp add: aside_def)

lemma aside_current: "aside t k \<Longrightarrow> current k = Inr c \<Longrightarrow> c \<noteq> t"
  by (auto simp: aside_def current_def split: option.splits)

lemma aside_handle: "aside t k \<Longrightarrow> h \<noteq> Some t \<Longrightarrow> prvGetTCBFromHandle h k = Inr u \<Longrightarrow> u \<noteq> t"
  by (cases h) (auto simp: prvGetTCBFromHandle_def dest: aside_current)

lemma aside_delay: "kernel_ok k \<Longrightarrow> aside t k \<Longrightarrow> vTaskDelay_block n k = Inr k' \<Longrightarrow> aside t k'"
proof (cases "0 < n")
  case True
  assume k: "kernel_ok k" "aside t k" and d: "vTaskDelay_block n k = Inr k'"
  obtain k1 where k1: "prvAddCurrentTaskToDelayedList n False (vTaskSuspendAll k) = Inr k1" "kernel_ok k1"
    using ok_delayed [OF _ True, of "vTaskSuspendAll k" False] k by (auto simp: vTaskSuspendAll_def)
  have "bindR (xTaskResumeAll k1) (\<lambda>(b, k2). Inr (if b then k2 else portYIELD k2)) = Inr k'"
    using d True k1(1) by (simp add: vTaskDelay_block_def bindR_Inr_iff assertR_def split: if_splits)
  then obtain b k2 where "xTaskResumeAll k1 = Inr (b, k2)" "k' = (if b then k2 else portYIELD k2)"
    by (cases "xTaskResumeAll k1") auto
  then show ?thesis using aside_resume [OF k1(2) aside_delayed [OF _ k1(1)]] k(2) by simp
qed (auto simp: vTaskDelay_block_def)

lemma aside_delay_until: "kernel_ok k \<Longrightarrow> aside t k \<Longrightarrow> vTaskDelayUntil_block p n k = Inr (w, k') \<Longrightarrow> aside t k'"
proof -
  assume k: "kernel_ok k" "aside t k" and r: "vTaskDelayUntil_block p n k = Inr (w, k')"
  obtain k2 b k3 where k2: "kernel_ok k2" "xTaskResumeAll k2 = Inr (b, k3)" "k' = (if b then k3 else portYIELD k3)"
      "k2 = vTaskSuspendAll k \<or> (\<exists>m. prvAddCurrentTaskToDelayedList m False (vTaskSuspendAll k) = Inr k2)"
    using delay_until_end [OF k(1) r] by blast
  then have "aside t k2" using k(2) aside_delayed [of t "vTaskSuspendAll k"] by auto
  then show ?thesis using aside_resume [OF k2(1) _ k2(2)] k2(3) by simp
qed

lemma aside_catch_up: "kernel_ok k \<Longrightarrow> aside t k \<Longrightarrow> xTaskCatchUpTicks n k = Inr (b, k') \<Longrightarrow> aside t k'"
  using aside_resume [of "(vTaskSuspendAll k)\<lparr>xPendedTicks := xPendedTicks (vTaskSuspendAll k) + n\<rparr>" t b k']
  by (simp add: xTaskCatchUpTicks_def bindR_Inr_iff assertR_def Let_def split: if_splits) (simp add: vTaskSuspendAll_def)

text \<open>A notification is recorded, but does not wake a task that is not waiting for one.\<close>

lemma aside_notify: "aside t k \<Longrightarrow> xTaskGenericNotify x v a k = Inr (b, p, k') \<Longrightarrow> aside t k'"
proof (cases x)
  case (Some u)
  assume k: "aside t k" and r: "xTaskGenericNotify x v a k = Inr (b, p, k')"
  obtain xr w where nv: "notify_value a v (ucNotifyState (tcbs k u)) (ulNotifiedValue (tcbs k u)) = (xr, w)"
    by (cases "notify_value a v (ucNotifyState (tcbs k u)) (ulNotifiedValue (tcbs k u))")
  define k1 where "k1 = upd_tcb u (\<lambda>c. c\<lparr>ucNotifyState := taskNOTIFICATION_RECEIVED, ulNotifiedValue := w\<rparr>) k"
  have k1: "aside t k1" using k aside_upd [OF k] by (cases "u = t") (simp_all add: k1_def)
  have "u \<noteq> t" if "ucNotifyState (tcbs k u) = taskWAITING_NOTIFICATION" using k that by (auto simp: aside_def)
  moreover have "k' = k1 \<or> ucNotifyState (tcbs k u) = taskWAITING_NOTIFICATION \<and>
      (k' = prvAddTaskToReadyList u (remove_state_item u k1) \<or> k' = portYIELD (prvAddTaskToReadyList u (remove_state_item u k1)))"
    using r unfolding Some xTaskGenericNotify_def Let_def option.case nv prod.case k1_def [symmetric]
    by (auto simp: bindR_Inr_iff split: if_splits)
  ultimately show ?thesis using k1 by auto
qed (simp add: xTaskGenericNotify_def)

lemma aside_notify_isr:
  "aside t k \<Longrightarrow> s = taskWAITING_NOTIFICATION \<longrightarrow> u \<noteq> t \<Longrightarrow> notify_from_isr u s w k = Inr (k', w') \<Longrightarrow> aside t k'"
proof (cases "s = taskWAITING_NOTIFICATION")
  case True
  assume k: "aside t k" and "s = taskWAITING_NOTIFICATION \<longrightarrow> u \<noteq> t" and r: "notify_from_isr u s w k = Inr (k', w')"
  then have ne: "u \<noteq> t" using True by blast
  define k2 where "k2 = (if uxSchedulerSuspended k = 0 then prvAddTaskToReadyList u (remove_state_item u k) else pend_ready u k)"
  have "aside t k2" using k ne by (simp add: k2_def)
  then show ?thesis using r True unfolding notify_from_isr_def Let_def k2_def [symmetric]
    by (auto simp: bindR_Inr_iff split: if_splits)
qed (simp add: notify_from_isr_def)

lemma aside_generic_isr: "aside t k \<Longrightarrow> xTaskGenericNotifyFromISR x v a w k = Inr (b, p, w', k') \<Longrightarrow> aside t k'"
proof (cases x)
  case (Some u)
  assume k: "aside t k" and r: "xTaskGenericNotifyFromISR x v a w k = Inr (b, p, w', k')"
  obtain xr y where nv: "notify_value a v (ucNotifyState (tcbs k u)) (ulNotifiedValue (tcbs k u)) = (xr, y)"
    by (cases "notify_value a v (ucNotifyState (tcbs k u)) (ulNotifiedValue (tcbs k u))")
  define k1 where "k1 = upd_tcb u (\<lambda>c. c\<lparr>ucNotifyState := taskNOTIFICATION_RECEIVED, ulNotifiedValue := y\<rparr>) k"
  have k1: "aside t k1" using k aside_upd [OF k] by (cases "u = t") (simp_all add: k1_def)
  have "notify_from_isr u (ucNotifyState (tcbs k u)) w k1 = Inr (k', w')"
    using r unfolding Some xTaskGenericNotifyFromISR_def Let_def
    by (cases "notify_from_isr u (ucNotifyState (tcbs k u)) w k1") (auto simp: nv k1_def [symmetric])
  moreover have "ucNotifyState (tcbs k u) = taskWAITING_NOTIFICATION \<longrightarrow> u \<noteq> t" using k by (auto simp: aside_def)
  ultimately show ?thesis using aside_notify_isr [OF k1] by blast
qed (simp add: xTaskGenericNotifyFromISR_def)

lemma aside_give: "aside t k \<Longrightarrow> vTaskNotifyGiveFromISR x w k = Inr (w', k') \<Longrightarrow> aside t k'"
proof (cases x)
  case (Some u)
  assume k: "aside t k" and r: "vTaskNotifyGiveFromISR x w k = Inr (w', k')"
  define k1 where "k1 = upd_tcb u (\<lambda>c. c\<lparr>ucNotifyState := taskNOTIFICATION_RECEIVED, ulNotifiedValue := ulNotifiedValue c + 1\<rparr>) k"
  have k1: "aside t k1" using k aside_upd [OF k] by (cases "u = t") (simp_all add: k1_def)
  have "notify_from_isr u (ucNotifyState (tcbs k u)) w k1 = Inr (k', w')"
    using r unfolding Some vTaskNotifyGiveFromISR_def Let_def
    by (cases "notify_from_isr u (ucNotifyState (tcbs k u)) w k1") (auto simp: k1_def [symmetric])
  moreover have "ucNotifyState (tcbs k u) = taskWAITING_NOTIFICATION \<longrightarrow> u \<noteq> t" using k by (auto simp: aside_def)
  ultimately show ?thesis using aside_notify_isr [OF k1] by blast
qed (simp add: vTaskNotifyGiveFromISR_def)

lemma aside_waits:
  assumes k: "aside t k"
  shows "xTaskNotifyWait_block bits n k = Inr k' \<Longrightarrow> aside t k'" "ulTaskNotifyTake_block n k = Inr k' \<Longrightarrow> aside t k'"
    "xTaskNotifyWait_wake bits k = Inr (b, v, k') \<Longrightarrow> aside t k'" "ulTaskNotifyTake_wake cl k = Inr (w, k') \<Longrightarrow> aside t k'"
    "xTaskNotifyStateClear h k = Inr (b, k') \<Longrightarrow> aside t k'" "ulTaskNotifyValueClear h u k = Inr (w, k') \<Longrightarrow> aside t k'"
proof -
  have f: "aside t (upd_tcb c f k)" if "current k = Inr c" for c f using aside_current [OF k that] k by simp
  show "xTaskNotifyWait_block bits n k = Inr k' \<Longrightarrow> aside t k'"
    using k by (auto simp: xTaskNotifyWait_block_def Let_def bindR_Inr_iff intro: f aside_delayed [OF f] split: if_splits)
  show "ulTaskNotifyTake_block n k = Inr k' \<Longrightarrow> aside t k'"
    using k by (auto simp: ulTaskNotifyTake_block_def Let_def bindR_Inr_iff intro: f aside_delayed [OF f] split: if_splits)
  show "xTaskNotifyWait_wake bits k = Inr (b, v, k') \<Longrightarrow> aside t k'"
    using f by (auto simp: xTaskNotifyWait_wake_def Let_def bindR_Inr_iff)
  show "ulTaskNotifyTake_wake cl k = Inr (w, k') \<Longrightarrow> aside t k'"
    using f by (auto simp: ulTaskNotifyTake_wake_def Let_def bindR_Inr_iff)
  show "ulTaskNotifyValueClear h u k = Inr (w, k') \<Longrightarrow> aside t k'"
    using aside_upd_any [OF k] by (auto simp: ulTaskNotifyValueClear_def bindR_Inr_iff)
  have "aside t (upd_tcb x (\<lambda>c. c\<lparr>ucNotifyState := taskNOT_WAITING_NOTIFICATION\<rparr>) k)" for x
    using k aside_upd [OF k] by (cases "x = t") simp_all
  then show "xTaskNotifyStateClear h k = Inr (b, k') \<Longrightarrow> aside t k'"
    using k by (auto simp: xTaskNotifyStateClear_def bindR_Inr_iff split: if_splits)
qed

lemma aside_create: "kernel_ok k \<Longrightarrow> aside t k \<Longrightarrow> u \<notin> set (waiting k) \<Longrightarrow> xTaskCreateStatic u p k = Inr k' \<Longrightarrow> aside t k'"
proof -
  assume k: "kernel_ok k" "aside t k" and u: "u \<notin> set (waiting k)" and r: "xTaskCreateStatic u p k = Inr k'"
  have ne: "u \<noteq> t" using aside_not_ready(5) [OF k] u by blast
  let ?k0 = "upd_tcb u (\<lambda>_. new_tcb p) k"
  define k1 where "k1 = ?k0\<lparr>uxCurrentNumberOfTasks := Suc (uxCurrentNumberOfTasks ?k0)\<rparr>"
  obtain c where c: "pxCurrentTCB k1 = Some c" "xSchedulerRunning k1"
    using k(1) by (auto simp: k1_def kernel_ok_def)
  have k1: "aside t k1" using k(2) ne by (simp add: k1_def)
  have n: "\<not> (\<not> xSchedulerRunning k1 \<and> prio k1 c \<le> prio k1 u)" using c(2) by simp
  show ?thesis
    using r unfolding xTaskCreateStatic_def prvAddNewTaskToReadyList_def Let_def k1_def [symmetric] c(1) option.case if_not_P [OF n]
    using k1 by (auto simp: bindR_Inr_iff split: if_splits)
qed

lemma aside_delete: "kernel_ok k \<Longrightarrow> aside t k \<Longrightarrow> h \<noteq> Some t \<Longrightarrow> vTaskDelete h k = Inr k' \<Longrightarrow> aside t k'"
proof -
  assume k: "kernel_ok k" "aside t k" and h: "h \<noteq> Some t" and r: "vTaskDelete h k = Inr k'"
  obtain u where u: "prvGetTCBFromHandle h k = Inr u" using ok_handle [OF k(1)] by blast
  have ne: "u \<noteq> t" using aside_handle [OF k(2) h u] .
  define k1 where "k1 = remove_state_item u k"
  define k2 where "k2 = (if xEventContainer (tcbs k1 u) \<noteq> None then remove_event_item u k1 else k1)"
  have k2: "aside t k2" using k(2) ne by (simp add: k2_def k1_def)
  show ?thesis using r k2 unfolding vTaskDelete_def u bindR.simps Let_def k1_def [symmetric] k2_def [symmetric]
    by (auto simp: bindR_Inr_iff split: if_splits)
qed

lemma aside_clean_up: "kernel_ok k \<Longrightarrow> aside t k \<Longrightarrow> clean_up_tasks n k = Inr k' \<Longrightarrow> aside t k'"
proof (induction n arbitrary: k)
  case (Suc n)
  obtain u us where u: "xTasksWaitingTermination k = u # us" using Suc.prems(3) by (cases "xTasksWaitingTermination k") auto
  have ne: "u \<noteq> t" using aside_not_ready(4) [OF Suc.prems(1,2)] u by auto
  let ?k = "(remove_state_item u k)\<lparr>uxCurrentNumberOfTasks := uxCurrentNumberOfTasks k - 1, uxDeletedTasksWaitingCleanUp := n\<rparr>"
  have "kernel_ok ?k" using ok_remove [OF Suc.prems(1), of u] by (simp add: kernel_ok_def)
  moreover have "aside t ?k" using Suc.prems(2) ne by simp
  ultimately show ?case by (rule Suc.IH) (use Suc.prems(3) u in simp)
qed simp

lemma aside_idle: "kernel_ok k \<Longrightarrow> aside t k \<Longrightarrow> prvIdleTask_step k = Inr k' \<Longrightarrow> aside t k'"
  using aside_clean_up [of k t "uxDeletedTasksWaitingCleanUp k"]
  by (auto simp: prvIdleTask_step_def bindR_Inr_iff prvCheckTasksWaitingTermination_def)

lemma aside_suspend: "kernel_ok k \<Longrightarrow> aside t k \<Longrightarrow> vTaskSuspend h k = Inr k' \<Longrightarrow> aside t k'"
proof -
  assume k: "kernel_ok k" "aside t k" and r: "vTaskSuspend h k = Inr k'"
  have "aside t (suspend_task u k)" for u
  proof (cases "u = t")
    case True
    then show ?thesis using k(2)
      by (auto simp: suspend_task_def Let_def aside_def remove_state_item_def prvResetNextTaskUnblockTime_def split: list.split)
  next
    case False
    have "aside t ((remove_event_item u kk)\<lparr>xSuspendedTaskList := xSuspendedTaskList (remove_event_item u kk) @ [u]\<rparr>)"
      if "aside t kk" for kk using that aside_others(2,5) [OF False] by blast
    then show ?thesis using k(2) False aside_others(5) [OF False] by (simp add: suspend_task_def Let_def)
  qed
  then show ?thesis using suspend_steps [OF k(1) r] by auto
qed

lemma aside_resumes:
  assumes "aside t k" "h \<noteq> Some t"
  shows "vTaskResume h k = Inr k' \<Longrightarrow> aside t k'" "xTaskResumeFromISR h k = Inr (b, k') \<Longrightarrow> aside t k'"
  using assms by (auto simp: vTaskResume_def xTaskResumeFromISR_def Let_def bindR_Inr_iff split: option.splits if_splits)

lemma aside_requeue:
  assumes k: "kernel_ok k" "aside t k" and f: "\<And>c. xEventContainer (f c) = xEventContainer c" "\<And>c. ucNotifyState (f c) = ucNotifyState c"
  shows "aside t (requeue p u (upd_tcb u f k))"
proof -
  have l: "lists_inv k" using k(1) by (simp add: kernel_ok_def kernel_inv_def)
  have "\<not> in_ready_list p t k" using aside_not_ready(1) [OF k] ready_iff [OF l] by (simp add: in_ready_iff)
  moreover have "aside t (upd_tcb u f k)" by (rule aside_upd_any [OF k(2) f])
  ultimately show ?thesis by (cases "u = t") (simp_all add: requeue_def)
qed

lemma aside_priorities:
  assumes k: "kernel_ok k" "aside t k"
  shows "vTaskPrioritySet h n k = Inr k' \<Longrightarrow> aside t k'" "xTaskPriorityInherit h k = Inr (b, k') \<Longrightarrow> aside t k'"
    "vTaskPriorityDisinheritAfterTimeout h n k = Inr k' \<Longrightarrow> aside t k'" "xTaskPriorityDisinherit h k = Inr (b, k') \<Longrightarrow> aside t k'"
proof -
  have q: "aside t (requeue p u (upd_tcb u (set_event_value n \<circ> (\<lambda>c. c\<lparr>uxPriority := g c, uxBasePriority := n\<rparr>)) k))" for p u g
    by (rule aside_requeue [OF k]) simp_all
  show "vTaskPrioritySet h n k = Inr k' \<Longrightarrow> aside t k'"
    using k(2) q by (auto simp: vTaskPrioritySet_def bindR_Inr_iff Let_def upd_upd split: if_splits)
  have q: "aside t (requeue p u (upd_tcb u ((\<lambda>x. x\<lparr>uxPriority := n\<rparr>) \<circ> set_event_value n) k))"
    "aside t (requeue p u (upd_tcb u (set_event_value n \<circ> (\<lambda>x. x\<lparr>uxPriority := n\<rparr>)) k))" for p u n
    by (rule aside_requeue [OF k]; simp)+
  show "xTaskPriorityInherit h k = Inr (b, k') \<Longrightarrow> aside t k'"
    using k(2) q(1) by (cases h) (auto simp: xTaskPriorityInherit_def bindR_Inr_iff Let_def upd_upd split: if_splits)
  show "vTaskPriorityDisinheritAfterTimeout h n k = Inr k' \<Longrightarrow> aside t k'"
    using k(2) q(2) by (cases h) (auto simp: vTaskPriorityDisinheritAfterTimeout_def bindR_Inr_iff Let_def upd_upd split: if_splits)
  have c: "u \<noteq> t" if "Some u = pxCurrentTCB k" for u using k(2) that by (auto simp: aside_def)
  show "xTaskPriorityDisinherit h k = Inr (b, k') \<Longrightarrow> aside t k'"
    using k(2) by (cases h) (auto simp: xTaskPriorityDisinherit_def bindR_Inr_iff Let_def assertR_def dest!: c split: if_splits)
qed

lemma set_vListInsert_eq [simp]: "set (vListInsert f x xs) = Set.insert x (set xs)"
  by (induction xs) auto

lemma aside_places:
  assumes k: "aside t k"
  shows "vTaskPlaceOnEventList q n k = Inr k' \<Longrightarrow> aside t k'" "vTaskPlaceOnUnorderedEventList q v n k = Inr k' \<Longrightarrow> aside t k'"
    "vTaskPlaceOnEventListRestricted q n b k = Inr k' \<Longrightarrow> aside t k'"
proof -
  have l: "t \<notin> set (xEventLists k q)" using k by (simp add: aside_def)
  have f: "aside t (upd_tcb c f k)" "c \<noteq> t" if "current k = Inr c" for c f using aside_current [OF k that] k by simp_all
  have p: "aside t (put_event_list q (vListInsert g c (xEventLists k q)) c k)"
    "aside t (put_event_list q (xEventLists k q @ [c]) c k)" if "current k = Inr c" for c g
    using f [OF that] l k by simp_all
  show "vTaskPlaceOnEventList q n k = Inr k' \<Longrightarrow> aside t k'"
    by (auto simp: vTaskPlaceOnEventList_def bindR_Inr_iff intro: aside_delayed [OF p(1)])
  show "vTaskPlaceOnEventListRestricted q n b k = Inr k' \<Longrightarrow> aside t k'"
    by (auto simp: vTaskPlaceOnEventListRestricted_def bindR_Inr_iff intro: aside_delayed [OF p(2)])
  have u: "aside t (put_event_list q (xEventLists (upd_tcb c g k) q @ [c]) c (upd_tcb c g k))" if "current k = Inr c" for c g
    using f(1) [OF that, of g] f(2) [OF that] l by (simp add: upd_tcb_def)
  show "vTaskPlaceOnUnorderedEventList q v n k = Inr k' \<Longrightarrow> aside t k'"
    by (auto simp: vTaskPlaceOnUnorderedEventList_def bindR_Inr_iff Let_def intro: aside_delayed [OF u])
qed

lemma aside_unblock: "aside t k \<Longrightarrow> xTaskRemoveFromEventList q k = Inr (b, k') \<Longrightarrow> aside t k'"
proof (cases "xEventLists k q")
  case (Cons u us)
  assume k: "aside t k" and r: "xTaskRemoveFromEventList q k = Inr (b, k')"
  have ne: "u \<noteq> t" using k Cons by (auto simp: aside_def dest: spec [of _ q])
  define k1 where "k1 = remove_event_item u k"
  define k2 where "k2 = (if uxSchedulerSuspended k1 = 0 then prvAddTaskToReadyList u (remove_state_item u k1) else pend_ready u k1)"
  have "aside t k1" using k ne by (simp add: k1_def)
  then have "aside t k2" using ne by (simp add: k2_def)
  then show ?thesis using r unfolding xTaskRemoveFromEventList_def Cons list.case Let_def k1_def [symmetric] k2_def [symmetric]
    by (auto simp: bindR_Inr_iff split: if_splits)
qed (simp add: xTaskRemoveFromEventList_def)

lemma aside_unblock_unordered:
  "aside t k \<Longrightarrow> u \<noteq> t \<Longrightarrow> vTaskRemoveFromUnorderedEventList u v k = Inr k' \<Longrightarrow> aside t k'"
proof -
  assume k: "aside t k" and ne: "u \<noteq> t" and r: "vTaskRemoveFromUnorderedEventList u v k = Inr k'"
  define k2 where "k2 = prvAddTaskToReadyList u (remove_state_item u (remove_event_item u
    (upd_tcb u (\<lambda>c. c\<lparr>xEventItemValue := v OR taskEVENT_LIST_ITEM_VALUE_IN_USE\<rparr>) k)))"
  have "aside t k2" using k ne by (simp add: k2_def)
  then show ?thesis using r unfolding vTaskRemoveFromUnorderedEventList_def Let_def k2_def [symmetric]
    by (auto simp: bindR_Inr_iff split: if_splits)
qed

section \<open>Any sequence of calls\<close>

text \<open>The calls that may bring \<open>t\<close> back: those made for that task.\<close>

fun names :: "task \<Rightarrow> kernel_call \<Rightarrow> bool" where
  "names t (Resume h) = (h = Some t)"
| "names t (Resume_isr h) = (h = Some t)"
| "names t (Delete h) = (h = Some t)"
| "names t (Unblock_unordered u v) = (u = t)"
| "names t _ = False"

inductive others_call :: "task \<Rightarrow> kernel \<Rightarrow> kernel \<Rightarrow> bool" for t k where
  none: "others_call t k k"
| another: "others_call t k k1 \<Longrightarrow> call_ok c k1 \<Longrightarrow> \<not> names t c \<Longrightarrow> run_call c k1 = Inr k2 \<Longrightarrow> others_call t k k2"

lemma run_call_aside:
  assumes k: "kernel_ok k" and a: "aside t k" and c: "call_ok c k" "\<not> names t c" and r: "run_call c k = Inr k'"
  shows "aside t k'"
proof (cases c)
  case Tick
  then show ?thesis using aside_tick [OF k a] r by (auto simp: xPortSysTickHandler_def bindR_Inr_iff)
next
  case Suspend_all
  then show ?thesis using a r by auto
next
  case Resume_all
  then show ?thesis using aside_resume [OF k a] r by (auto simp: bindR_Inr_iff)
next
  case (Notify x v y)
  then show ?thesis using aside_notify [OF a] r by (auto simp: bindR_Inr_iff)
next
  case (Notify_isr x v y)
  then show ?thesis using aside_generic_isr [OF a] r by (auto simp: bindR_Inr_iff)
next
  case (Give_isr x)
  then show ?thesis using aside_give [OF a] r by (auto simp: bindR_Inr_iff)
next
  case (Wait bits n)
  then show ?thesis using aside_waits(1) [OF a] r by simp
next
  case (Take n)
  then show ?thesis using aside_waits(2) [OF a] r by simp
next
  case (Wait_end bits)
  then show ?thesis using aside_waits(3) [OF a] r by (auto simp: bindR_Inr_iff)
next
  case (Take_end b)
  then show ?thesis using aside_waits(4) [OF a] r by (auto simp: bindR_Inr_iff)
next
  case (Clear_state x)
  then show ?thesis using aside_waits(5) [OF a] r by (auto simp: bindR_Inr_iff)
next
  case (Clear_value x v)
  then show ?thesis using aside_waits(6) [OF a] r by (auto simp: bindR_Inr_iff)
next
  case (Create u q)
  then show ?thesis using aside_create [OF k a, of u q k'] c r by simp
next
  case (Delete h)
  then show ?thesis using aside_delete [OF k a, of h k'] c r by simp
next
  case (Delay_until q n)
  then show ?thesis using aside_delay_until [OF k a] r by (auto simp: bindR_Inr_iff)
next
  case (Catch_up n)
  then show ?thesis using aside_catch_up [OF k a] r by (auto simp: bindR_Inr_iff)
next
  case (Resume h)
  then show ?thesis using aside_resumes(1) [OF a, of h k'] c r by simp
next
  case (Resume_isr h)
  then show ?thesis using aside_resumes(2) [OF a, of h] c r by (auto simp: bindR_Inr_iff)
next
  case (Set_priority h n)
  then show ?thesis using aside_priorities(1) [OF k a] r by simp
next
  case (Inherit h)
  then show ?thesis using aside_priorities(2) [OF k a] r by (auto simp: bindR_Inr_iff)
next
  case (Disinherit_timeout h n)
  then show ?thesis using aside_priorities(3) [OF k a] r by simp
next
  case (Disinherit h)
  then show ?thesis using aside_priorities(4) [OF k a] r by (auto simp: bindR_Inr_iff)
next
  case (Place q n)
  then show ?thesis using aside_places(1) [OF a] r by simp
next
  case (Place_unordered q v n)
  then show ?thesis using aside_places(2) [OF a] r by simp
next
  case (Place_restricted q n b)
  then show ?thesis using aside_places(3) [OF a] r by simp
next
  case (Unblock q)
  then show ?thesis using aside_unblock [OF a] r by (auto simp: bindR_Inr_iff)
next
  case (Unblock_unordered u v)
  then show ?thesis using aside_unblock_unordered [OF a, of u v k'] c r by simp
next
  case Reset_item
  then show ?thesis using aside_upd_any [OF a] r by (auto simp: uxTaskResetEventItemValue_def bindR_Inr_iff)
next
  case Take_mutex
  then show ?thesis using a aside_upd_any [OF a] r by (auto simp: pvTaskIncrementMutexHeldCount_def split: option.splits)
next
  case Missed_yield
  then show ?thesis using a r by (auto simp: vTaskMissedYield_def)
next
  case Clean_up
  then show ?thesis using aside_clean_up [OF k a] r by (simp add: prvCheckTasksWaitingTermination_def)
next
  case Idle
  then show ?thesis using aside_idle [OF k a] r by simp
next
  case (Suspend h)
  then show ?thesis using aside_suspend [OF k a] r by simp
next
  case (Delay n)
  then show ?thesis using aside_delay [OF k a] r by simp
next
  case Switch
  then show ?thesis using aside_switch [OF k a] r by simp
qed

lemma others_aside: "others_call t k k' \<Longrightarrow> kernel_ok k \<Longrightarrow> aside t k \<Longrightarrow> kernel_ok k' \<and> aside t k'"
proof (induction rule: others_call.induct)
  case (another k1 c k2)
  then show ?case using run_call_ok run_call_aside by blast
qed simp

text \<open>C8: a suspended task does not run. When a task of the running system has been suspended by another one
  (in any reachable state, whatever it was doing: ready, delayed, or blocked on a queue or a
  notification), then after any sequence of calls that does not resume, delete or unblock that very
  task it is neither ready nor running, and \<open>eTaskGetState\<close> reports it suspended: no tick, no time-out,
  no notification and no change of its priority wakes it.\<close>

theorem suspended_task_stays:
  assumes "ids_ok i" and "kernel_reach i k" and "event_item_ok t k" and "pxCurrentTCB k \<noteq> Some t"
    and "vTaskSuspend (Some t) k = Inr k1" and "others_call t k1 k2"
  shows "\<not> is_ready k2 t \<and> pxCurrentTCB k2 \<noteq> Some t \<and> eTaskGetState (Some t) k2 = Inr eSuspended"
proof -
  have k: "kernel_ok k" using kernel_reach_ok [OF assms(2,1)] .
  have k1: "kernel_ok k1" using ok_suspend [OF k assms(5)] .
  have "k1 = suspend_task t k" using suspend_steps [OF k assms(5)] assms(4) by (auto simp: prvGetTCBFromHandle_def)
  then have "aside t k1" using suspend_task_aside [OF assms(3,4)] by simp
  then have k2: "kernel_ok k2" "aside t k2" using others_aside [OF assms(6) k1] by simp_all
  then show ?thesis using aside_not_ready [OF k2] by (auto simp: eTaskGetState_def aside_def)
qed

text \<open>The timer task is suspended by the initialisation task, is notified and gets the highest priority: it
  does not run.\<close>

definition held :: "kernel res" where
  "held = bindR (vTaskSuspend (Some (id_timer ids_example)) (booted ids_example)) (\<lambda>k.
     bindR (run_call (Notify (Some (id_timer ids_example)) 5 eSetBits) k) (run_call (Set_priority (Some (id_timer ids_example)) 9)))"

lemma held_runs: "case held of Inl _ \<Rightarrow> False | Inr k \<Rightarrow> prio k (id_timer ids_example) = 9"
  by code_simp

theorem suspended_task_stays_witness:
  "\<exists>k. held = Inr k \<and> prio k (id_timer ids_example) = 9 \<and> \<not> is_ready k (id_timer ids_example) \<and>
    eTaskGetState (Some (id_timer ids_example)) k = Inr eSuspended"
proof -
  let ?t = "id_timer ids_example"
  have ids: "ids_ok ids_example" by (simp add: ids_ok_def ids_example_def)
  have e: "event_item_ok ?t (booted ids_example)" "pxCurrentTCB (booted ids_example) \<noteq> Some ?t"
    by (simp_all add: event_item_ok_def booted_def kernel_start_def ids_example_def)
  obtain k where k: "held = Inr k" "prio k ?t = 9" using held_runs by (auto split: sum.splits)
  then obtain k1 k2 where k1: "vTaskSuspend (Some ?t) (booted ids_example) = Inr k1" "run_call (Notify (Some ?t) 5 eSetBits) k1 = Inr k2"
      "run_call (Set_priority (Some ?t) 9) k2 = Inr k"
    by (auto simp: held_def bindR_Inr_iff simp del: run_call.simps)
  have "others_call ?t k1 k2" by (rule another [OF none _ _ k1(2)]) simp_all
  then have "others_call ?t k1 k" by (rule another [OF _ _ _ k1(3)]) simp_all
  from suspended_task_stays [OF ids started e k1(1) this] show ?thesis using k by blast
qed

end
