(* ===== verification/KernelClock.thy ===== *)
theory KernelClock
  imports KernelTime KernelControl
begin

text \<open>
  The time-outs of blocking calls. The kernel keeps the time as a 32-bit tick count and a count of its
  wrap-arounds; a call that waits stores both and compares them again after every wake-up. The
  comparison is right as long as the tick count has not come round twice. A periodic delay compares
  the time it is called, the last wake-up and the next one modulo the tick count's range.
\<close>

section \<open>The wrap-arounds\<close>

lemma reset_overflows: "xNumOfOverflows (prvResetNextTaskUnblockTime k) = xNumOfOverflows k"
  by (simp add: prvResetNextTaskUnblockTime_def split: list.split)

lemma unblock_head_overflows: "xNumOfOverflows (unblock_head t k) = xNumOfOverflows k"
  by (simp add: unblock_head_def Let_def prvAddTaskToReadyList_def remove_state_item_def remove_event_item_def upd_tcb_def)

lemma unblock_expired_overflows: "unblock_expired k sw = Inr (k', sw') \<Longrightarrow> xNumOfOverflows k' = xNumOfOverflows k"
proof (induction k sw rule: unblock_expired.induct)
  case (1 k sw)
  show ?case
  proof (cases "pxDelayedTaskList k")
    case Nil
    then show ?thesis using "1.prems" by (auto simp: unblock_expired.simps [of k])
  next
    case (Cons t ts)
    show ?thesis
    proof (cases "xTickCount k < wake_time k t")
      case True
      then show ?thesis using "1.prems" Cons by (auto simp: unblock_expired.simps [of k])
    next
      case False
      then obtain c where c: "current k = Inr c" using "1.prems" Cons
        by (auto simp: unblock_expired.simps [of k] bindR_Inr_iff)
      then show ?thesis using "1.IH" [OF Cons False c] "1.prems" Cons False
        by (simp add: unblock_expired.simps [of k] unblock_head_overflows)
    qed
  qed
qed

lemma tick_overflows:
  assumes "uxSchedulerSuspended k = 0" and "xTaskIncrementTick k = Inr (sw, k')"
  shows "xNumOfOverflows k' = xNumOfOverflows k + (if xTickCount k + 1 = 0 then 1 else 0)"
proof -
  let ?k1 = "k\<lparr>xTickCount := xTickCount k + 1\<rparr>"
  obtain k2 k3 s where k2: "(if xTickCount k + 1 = 0 then taskSWITCH_DELAYED_LISTS ?k1 else Inr ?k1) = Inr k2"
      and k3: "(if xNextTaskUnblockTime k2 \<le> xTickCount k2 then unblock_expired k2 False else Inr (k2, False)) = Inr (k3, s)"
      and "k' = k3"
    using assms by (auto simp: xTaskIncrementTick_def Let_def bindR_Inr_iff)
  moreover have "xNumOfOverflows k3 = xNumOfOverflows k2"
    using k3 unblock_expired_overflows by (auto split: if_splits)
  moreover have "xNumOfOverflows k2 = xNumOfOverflows k + (if xTickCount k + 1 = 0 then 1 else 0)"
    using k2 by (auto simp: taskSWITCH_DELAYED_LISTS_def assertR_def reset_overflows split: if_splits)
  ultimately show ?thesis by simp
qed

lemma switch_overflows: "vTaskSwitchContext k = Inr k' \<Longrightarrow> xNumOfOverflows k' = xNumOfOverflows k"
  by (auto simp: vTaskSwitchContext_def taskSELECT_HIGHEST_PRIORITY_TASK_def bindR_Inr_iff case_prod_beta split: if_splits)

lemma tick_interrupt_overflows:
  assumes "uxSchedulerSuspended k = 0" and "tick_interrupt k = Inr k'"
  shows "xNumOfOverflows k' = xNumOfOverflows k + (if xTickCount k + 1 = 0 then 1 else 0)"
proof -
  obtain sw k1 where k1: "xTaskIncrementTick k = Inr (sw, k1)"
      and k': "take_pendsv (if sw then portYIELD k1 else k1) = Inr k'"
    using assms(2) by (auto simp: tick_interrupt_def xPortSysTickHandler_def bindR_Inr_iff)
  have "xNumOfOverflows k' = xNumOfOverflows k1"
    using k' by (auto simp: take_pendsv_def portYIELD_def dest!: switch_overflows split: if_splits)
  then show ?thesis using tick_overflows [OF assms(1) k1] by simp
qed

lemma clock_after_ticks:
  assumes "runs k"
  shows "\<exists>k'. tick_interrupts i k = Inr k' \<and> runs k' \<and> xTickCount k' = xTickCount k + of_nat i \<and>
    xNumOfOverflows k' = xNumOfOverflows k + (unat (xTickCount k) + i) div 2 ^ 32"
proof (induction i)
  case 0
  have "unat (xTickCount k) < 2 ^ LENGTH(32)" by (rule unsigned_less)
  then show ?case using assms by simp
next
  case (Suc i)
  let ?t = "unat (xTickCount k) + i"
  obtain k1 where k1: "tick_interrupts i k = Inr k1" "runs k1" "xTickCount k1 = xTickCount k + of_nat i"
      "xNumOfOverflows k1 = xNumOfOverflows k + ?t div 2 ^ 32" using Suc by blast
  obtain k2 where k2: "tick_interrupt k1 = Inr k2" "runs k2" "xTickCount k2 = xTickCount k1 + 1"
    using tick_interrupt_step [OF k1(2)] by blast
  have "xTickCount k1 + 1 = of_nat (Suc ?t)" using k1(3) by (simp add: add.commute)
  moreover have "(of_nat (Suc ?t) :: u32) = 0 \<longleftrightarrow> 2 ^ 32 dvd Suc ?t"
    using word_of_nat_eq_0_iff [of "Suc ?t", where 'a = 32] by (simp del: of_nat_Suc)
  ultimately have "xTickCount k1 + 1 = 0 \<longleftrightarrow> 2 ^ 32 dvd Suc ?t" by (simp only:)
  moreover have "Suc ?t div 2 ^ 32 = ?t div 2 ^ 32 + (if 2 ^ 32 dvd Suc ?t then 1 else 0)"
    using div_Suc [of ?t "2 ^ 32"] by (simp add: dvd_eq_mod_eq_0)
  moreover have "uxSchedulerSuspended k1 = 0" using k1(2) by (simp add: runs_def)
  ultimately have "xNumOfOverflows k2 = xNumOfOverflows k + Suc ?t div 2 ^ 32"
    using tick_interrupt_overflows [OF _ k2(1)] k1(4) by simp
  then show ?case using k1 k2 by (intro exI [of _ k2]) (simp add: algebra_simps)
qed

section \<open>The comparison\<close>

text \<open>C35: the time-out of a blocking call is that of unbounded time. A call stores the time in state \<open>k\<close>;
  \<open>i\<close> tick interrupts later, wrap-arounds of the 32-bit tick count on the way, \<open>xTaskCheckForTimeOut\<close>
  reports a time-out exactly when \<open>i\<close> is at least the \<open>n\<close> ticks of the call, and otherwise leaves
  exactly the \<open>n - i\<close> that remain. The bound is the one of the design: the tick count must not have come
  round twice, which is 49 days or more at 1 kHz.\<close>

theorem time_out_is_exact:
  assumes "runs k" and "n \<noteq> portMAX_DELAY" and "unat (xTickCount k) + i < 2 * 2 ^ 32"
  shows "\<exists>k'. tick_interrupts i k = Inr k' \<and>
    xTaskCheckForTimeOut (vTaskSetTimeOutState k) n k' =
      (if i < unat n then (False, vTaskSetTimeOutState k', n - of_nat i)
       else (True, vTaskSetTimeOutState k, if i < 2 ^ 32 then 0 else n))"
proof -
  let ?T = "unat (xTickCount k)"
  obtain k' where k': "tick_interrupts i k = Inr k'" "xTickCount k' = xTickCount k + of_nat i"
      "xNumOfOverflows k' = xNumOfOverflows k + (?T + i) div 2 ^ 32"
    using clock_after_ticks [OF assms(1)] by blast
  have b: "?T < 2 ^ 32" "unat n < 2 ^ 32" using unsigned_less [of "xTickCount k"] unsigned_less [of n] by simp_all
  have tick: "unat (xTickCount k') = (?T + i) mod 2 ^ 32"
    by (simp add: k'(2) unat_word_ariths(1) unsigned_of_nat take_bit_eq_mod mod_add_right_eq)
  have elapsed: "xTickCount k' - xTickCount k = of_nat i" by (simp add: k'(2))
  have less: "(of_nat i :: u32) < n \<longleftrightarrow> i mod 2 ^ 32 < unat n"
    by (simp add: word_less_nat_alt unsigned_of_nat take_bit_eq_mod)
  have late: "xNumOfOverflows k' \<noteq> xNumOfOverflows k \<and> xTickCount k \<le> xTickCount k' \<longleftrightarrow> 2 ^ 32 \<le> i"
  proof -
    have "xTickCount k \<le> xTickCount k' \<longleftrightarrow> ?T \<le> (?T + i) mod 2 ^ 32" by (simp add: word_le_nat_alt tick)
    moreover have "(?T + i) mod 2 ^ 32 = (if ?T + i < 2 ^ 32 then ?T + i else ?T + i - 2 ^ 32)"
      using assms(3) by (simp add: mod_if)
    moreover have "(?T + i) div 2 ^ 32 = 0 \<longleftrightarrow> ?T + i < 2 ^ 32" by (simp add: div_eq_0_iff)
    ultimately show ?thesis using k'(3) b(1) by auto
  qed
  show ?thesis
  proof (intro exI [of _ k'] conjI k'(1))
    show "xTaskCheckForTimeOut (vTaskSetTimeOutState k) n k' =
      (if i < unat n then (False, vTaskSetTimeOutState k', n - of_nat i)
       else (True, vTaskSetTimeOutState k, if i < 2 ^ 32 then 0 else n))"
    proof (cases "i < 2 ^ 32")
      case True
      then have "\<not> (xNumOfOverflows k' \<noteq> xNumOfOverflows k \<and> xTickCount k \<le> xTickCount k')" using late by simp
      then show ?thesis using True assms(2) less elapsed
        by (auto simp: xTaskCheckForTimeOut_def vTaskSetTimeOutState_def Let_def)
    next
      case False
      then have "xNumOfOverflows k' \<noteq> xNumOfOverflows k \<and> xTickCount k \<le> xTickCount k'" "\<not> i < unat n"
        using late b(2) by auto
      then show ?thesis using False assms(2)
        by (simp add: xTaskCheckForTimeOut_def vTaskSetTimeOutState_def Let_def)
    qed
  qed
qed

theorem time_out_is_exact_witness:
  "\<exists>k'. tick_interrupts 4 (booted ids_example) = Inr k' \<and>
    xTaskCheckForTimeOut (vTaskSetTimeOutState (booted ids_example)) 10 k' = (False, vTaskSetTimeOutState k', 6)"
proof -
  have "ids_ok ids_example" by (simp add: ids_ok_def ids_example_def)
  then have "runs (booted ids_example)" by (rule booted_runs)
  from time_out_is_exact [OF this, of 10 4] show ?thesis
    by (simp add: booted_def kernel_start_def portMAX_DELAY_def)
qed

section \<open>Periodic delays\<close>

text \<open>The test of \<open>vTaskDelayUntil\<close> is a comparison of distances from the last wake-up.\<close>

lemma due_iff:
  fixes c p n :: u32
  shows "(if c < p then p + n < p \<and> c < p + n else p + n < p \<or> c < p + n) \<longleftrightarrow> unat (c - p) < unat n"
proof -
  define a b d where abd: "a = unat p" "b = unat c" "d = unat n"
  have l: "a < 2 ^ 32" "b < 2 ^ 32" "d < 2 ^ 32"
    using unsigned_less [of p] unsigned_less [of c] unsigned_less [of n] by (simp_all add: abd)
  have s: "unat (p + n) = (if a + d < 2 ^ 32 then a + d else a + d - 2 ^ 32)"
    using l by (simp add: unat_word_ariths(1) mod_if abd)
  have m: "unat (c - p) = (if a \<le> b then b - a else b + 2 ^ 32 - a)"
    using l unat_sub_if' [of c p] by (simp add: abd)
  show ?thesis unfolding word_less_nat_alt s m abd(1,2) [symmetric] abd(3) [symmetric] using l by auto
qed

text \<open>C34: \<open>vTaskDelayUntil\<close> is a delay up to an instant of unbounded time. Let the last wake-up be at tick \<open>P\<close> and
  the call at tick \<open>N\<close>, less than one round of the 32-bit tick count later. When \<open>P + xTimeIncrement\<close> lies
  ahead the task is delayed for exactly the ticks that are left, otherwise (the period has been
  missed) it is not delayed; in both cases the next call counts from \<open>P + xTimeIncrement\<close>, so that
  delays of the task do not add up.\<close>

theorem delay_until_is_periodic:
  assumes "xTickCount k = of_nat N" and "P \<le> N" and "N < P + 2 ^ 32" and "0 < xTimeIncrement"
  shows "vTaskDelayUntil_block (of_nat P) xTimeIncrement k =
    (if N < P + unat xTimeIncrement
     then bindR (vTaskDelay_block (of_nat (P + unat xTimeIncrement - N)) k) (\<lambda>k'. Inr (of_nat (P + unat xTimeIncrement), k'))
     else bindR (assertR (uxSchedulerSuspended k = 0)) (\<lambda>_.
          bindR (xTaskResumeAll (vTaskSuspendAll k)) (\<lambda>(y, k').
          Inr (of_nat (P + unat xTimeIncrement), if y then k' else portYIELD k'))))"
proof -
  let ?n = xTimeIncrement and ?c = "of_nat N :: u32" and ?p = "of_nat P :: u32"
  have t: "xTickCount (vTaskSuspendAll k) = ?c" using assms(1) by (simp add: vTaskSuspendAll_def)
  have w: "of_nat (P + unat ?n) = ?p + ?n" by simp
  have "?c - ?p = of_nat (N - P)" using assms(2) by (simp add: of_nat_diff)
  moreover have "N - P < 2 ^ LENGTH(32)" using assms(2,3) by simp
  ultimately have "unat (?c - ?p) = N - P" using unat_of_nat_small by metis
  then have due: "(if ?c < ?p then ?p + ?n < ?p \<and> ?c < ?p + ?n else ?p + ?n < ?p \<or> ?c < ?p + ?n) \<longleftrightarrow> N < P + unat ?n"
    unfolding due_iff using assms(2) by auto
  show ?thesis
  proof (cases "N < P + unat ?n")
    case True
    define d :: u32 where "d = of_nat (P + unat ?n - N)"
    have d: "?p + ?n - ?c = d" using True by (simp add: d_def of_nat_diff)
    have "?p + ?n \<noteq> ?c"
    proof
      assume e: "?p + ?n = ?c"
      show False using due True unfolding e by (auto split: if_splits)
    qed
    then have pos: "0 < d" unfolding d [symmetric] by (simp add: word_neq_0_conv [symmetric])
    let ?X = "prvAddCurrentTaskToDelayedList d False (vTaskSuspendAll k)" and ?w = "of_nat (P + unat ?n) :: u32"
    have "vTaskDelayUntil_block ?p ?n k = bindR (assertR (uxSchedulerSuspended k = 0)) (\<lambda>_. bindR ?X (\<lambda>k2.
        bindR (xTaskResumeAll k2) (\<lambda>(y, k3). Inr (?w, if y then k3 else portYIELD k3))))"
      unfolding vTaskDelayUntil_block_def Let_def t due w d using True assms(4) by (simp add: assertR_def)
    also have "\<dots> = bindR (vTaskDelay_block d k) (\<lambda>k'. Inr (?w, k'))"
      unfolding vTaskDelay_block_def if_P [OF pos]
      by (cases "uxSchedulerSuspended k = 0"; cases ?X; cases "xTaskResumeAll (projr ?X)") (auto simp: assertR_def)
    finally show ?thesis using True unfolding d_def by (simp only: if_True)
  next
    case False
    then show ?thesis unfolding vTaskDelayUntil_block_def Let_def t due w using assms(4) by (simp add: assertR_def)
  qed
qed

text \<open>The tick count has just wrapped to 0; the last wake-up was ten ticks earlier and the period is 25.\<close>

theorem delay_until_is_periodic_witness:
  "vTaskDelayUntil_block (of_nat (2 ^ 32 - 10)) 25 (booted ids_example) =
    bindR (vTaskDelay_block 15 (booted ids_example)) (\<lambda>k'. Inr (15, k'))"
proof -
  have t: "xTickCount (booted ids_example) = of_nat (2 ^ 32)" by (simp add: booted_def kernel_start_def)
  have "(of_nat 4294967311 :: u32) = of_nat 15" unfolding word_of_nat_eq_iff by (simp add: take_bit_eq_mod)
  then have w: "of_nat (2 ^ 32 - 10 + unat (25 :: u32)) = (15 :: u32)" by simp
  have n: "of_nat (2 ^ 32 - 10 + unat (25 :: u32) - 2 ^ 32) = (15 :: u32)" by simp
  have l: "2 ^ 32 < 2 ^ 32 - 10 + unat (25 :: u32)" "(2 :: nat) ^ 32 - 10 \<le> 2 ^ 32" "(2 :: nat) ^ 32 < 2 ^ 32 - 10 + 2 ^ 32" "0 < (25 :: u32)"
    by simp_all
  show ?thesis using delay_until_is_periodic [OF t l(2,3,4)] unfolding w n if_P [OF l(1)] .
qed

end
