(* ===== verification/Heap4.thy ===== *)
theory Heap4
  imports Prelude Kernel
begin

text \<open>
  The memory allocator of the kernel, heap_4.c: first fit over a list of the free blocks in address
  order, with neighbouring free blocks joined when a block is freed. The task that \<open>main\<close> creates takes
  its stack and its control block from it.

  The memory is seen through its block headers only: \<open>links\<close> gives the \<open>BlockLink_t\<close> at an address. An
  application that stays in the memory it was given does not change any of them. Where the linker puts
  \<open>ucHeap\<close> and \<open>xStart\<close> is a parameter. A loop over the free list that never ends is the value None.
\<close>

section \<open>State\<close>

record BlockLink_t =
  pxNextFreeBlock :: u32
  xBlockSize :: u32

record placement =
  ucHeap :: u32
  xStart :: u32

record heap4 =
  links :: "u32 \<Rightarrow> BlockLink_t"
  pxEnd :: u32
  xFreeBytesRemaining :: u32
  xMinimumEverFreeBytesRemaining :: u32
  xNumberOfSuccessfulAllocations :: u32
  xNumberOfSuccessfulFrees :: u32
  xBlockAllocatedBit :: u32

definition heap4_start :: heap4 where
  "heap4_start = \<lparr>links = \<lambda>_. \<lparr>pxNextFreeBlock = 0, xBlockSize = 0\<rparr>, pxEnd = 0, xFreeBytesRemaining = 0,
     xMinimumEverFreeBytesRemaining = 0, xNumberOfSuccessfulAllocations = 0, xNumberOfSuccessfulFrees = 0,
     xBlockAllocatedBit = 0\<rparr>"

definition portBYTE_ALIGNMENT :: u32 where "portBYTE_ALIGNMENT = 8"
definition portBYTE_ALIGNMENT_MASK :: u32 where "portBYTE_ALIGNMENT_MASK = 7"
definition configTOTAL_HEAP_SIZE :: u32 where "configTOTAL_HEAP_SIZE = 2048"

text \<open>A pointer and a \<open>size_t\<close> have four bytes.\<close>

definition sizeof_BlockLink_t :: u32 where "sizeof_BlockLink_t = 8"

definition xHeapStructSize :: u32 where
  "xHeapStructSize = (sizeof_BlockLink_t + (portBYTE_ALIGNMENT - 1)) AND NOT portBYTE_ALIGNMENT_MASK"

definition heapMINIMUM_BLOCK_SIZE :: u32 where
  "heapMINIMUM_BLOCK_SIZE = push_bit 1 xHeapStructSize"

definition prvHeapInit :: "placement \<Rightarrow> heap4 \<Rightarrow> heap4" where
  "prvHeapInit pl h =
     (let (pucAlignedHeap, xTotalHeapSize) =
            (if ucHeap pl AND portBYTE_ALIGNMENT_MASK \<noteq> 0
             then let uxAddress = (ucHeap pl + (portBYTE_ALIGNMENT - 1)) AND NOT portBYTE_ALIGNMENT_MASK
                  in (uxAddress, configTOTAL_HEAP_SIZE - (uxAddress - ucHeap pl))
             else (ucHeap pl, configTOTAL_HEAP_SIZE));
          uxAddress = (pucAlignedHeap + xTotalHeapSize - xHeapStructSize) AND NOT portBYTE_ALIGNMENT_MASK;
          size = uxAddress - pucAlignedHeap in
      h\<lparr>links := (links h)(xStart pl := \<lparr>pxNextFreeBlock = pucAlignedHeap, xBlockSize = 0\<rparr>,
          uxAddress := \<lparr>pxNextFreeBlock = 0, xBlockSize = 0\<rparr>,
          pucAlignedHeap := \<lparr>pxNextFreeBlock = uxAddress, xBlockSize = size\<rparr>),
        pxEnd := uxAddress, xMinimumEverFreeBytesRemaining := size, xFreeBytesRemaining := size,
        xBlockAllocatedBit := push_bit 31 1\<rparr>)"

section \<open>The list of free blocks\<close>

text \<open>The \<open>for\<close> of \<open>prvInsertBlockIntoFreeList\<close>: the last block of the list below the new one.\<close>

partial_function (option) insert_place :: "(u32 \<Rightarrow> BlockLink_t) \<Rightarrow> u32 \<Rightarrow> u32 \<Rightarrow> u32 option" where
  "insert_place m b pxIterator =
     (if pxNextFreeBlock (m pxIterator) < b then insert_place m b (pxNextFreeBlock (m pxIterator))
      else Some pxIterator)"

definition join_blocks :: "u32 \<Rightarrow> u32 \<Rightarrow> u32 \<Rightarrow> (u32 \<Rightarrow> BlockLink_t) \<Rightarrow> (u32 \<Rightarrow> BlockLink_t)" where
  "join_blocks e it b m =
     (let (m1, ins) =
            (if it + xBlockSize (m it) = b
             then (m(it := (m it)\<lparr>xBlockSize := xBlockSize (m it) + xBlockSize (m b)\<rparr>), it) else (m, b));
          nx = pxNextFreeBlock (m1 it);
          m2 = (if ins + xBlockSize (m1 ins) = nx then
                  if nx \<noteq> e
                  then m1(ins := \<lparr>pxNextFreeBlock = pxNextFreeBlock (m1 nx),
                                  xBlockSize = xBlockSize (m1 ins) + xBlockSize (m1 nx)\<rparr>)
                  else m1(ins := (m1 ins)\<lparr>pxNextFreeBlock := e\<rparr>)
                else m1(ins := (m1 ins)\<lparr>pxNextFreeBlock := nx\<rparr>))
      in if it \<noteq> ins then m2(it := (m2 it)\<lparr>pxNextFreeBlock := ins\<rparr>) else m2)"

definition prvInsertBlockIntoFreeList :: "placement \<Rightarrow> u32 \<Rightarrow> heap4 \<Rightarrow> heap4 res" where
  "prvInsertBlockIntoFreeList pl pxBlockToInsert h =
     bindR (returns (insert_place (links h) pxBlockToInsert (xStart pl))) (\<lambda>it.
     Inr (h\<lparr>links := join_blocks (pxEnd h) it pxBlockToInsert (links h)\<rparr>))"

section \<open>Allocation\<close>

text \<open>The \<open>while\<close> of \<open>pvPortMalloc\<close>: the block it stops at and the one before.\<close>

partial_function (option) find_block :: "(u32 \<Rightarrow> BlockLink_t) \<Rightarrow> u32 \<Rightarrow> u32 \<Rightarrow> u32 \<Rightarrow> (u32 \<times> u32) option" where
  "find_block m xWantedSize pxPreviousBlock pxBlock =
     (if xBlockSize (m pxBlock) < xWantedSize \<and> pxNextFreeBlock (m pxBlock) \<noteq> 0
      then find_block m xWantedSize pxBlock (pxNextFreeBlock (m pxBlock))
      else Some (pxPreviousBlock, pxBlock))"

definition wanted_size :: "u32 \<Rightarrow> u32 res" where
  "wanted_size xWantedSize =
     (if 0 < xWantedSize then
        let w = xWantedSize + xHeapStructSize in
        if w AND portBYTE_ALIGNMENT_MASK \<noteq> 0 then
          let w' = w + (portBYTE_ALIGNMENT - (w AND portBYTE_ALIGNMENT_MASK)) in
          bindR (assertR (w' AND portBYTE_ALIGNMENT_MASK = 0)) (\<lambda>_. Inr w')
        else Inr w
      else Inr xWantedSize)"

definition split_block :: "placement \<Rightarrow> u32 \<Rightarrow> u32 \<Rightarrow> heap4 \<Rightarrow> heap4 res" where
  "split_block pl pxBlock xWantedSize h =
     (let m = links h; rest = xBlockSize (m pxBlock) - xWantedSize in
      if heapMINIMUM_BLOCK_SIZE < rest then
        let pxNewBlockLink = pxBlock + xWantedSize;
            m1 = m(pxNewBlockLink := (m pxNewBlockLink)\<lparr>xBlockSize := rest\<rparr>);
            m2 = m1(pxBlock := (m1 pxBlock)\<lparr>xBlockSize := xWantedSize\<rparr>) in
        bindR (assertR (pxNewBlockLink AND portBYTE_ALIGNMENT_MASK = 0)) (\<lambda>_.
        prvInsertBlockIntoFreeList pl pxNewBlockLink (h\<lparr>links := m2\<rparr>))
      else Inr h)"

definition take_block :: "placement \<Rightarrow> u32 \<Rightarrow> u32 \<Rightarrow> u32 \<Rightarrow> heap4 \<Rightarrow> (u32 \<times> heap4) res" where
  "take_block pl pxPreviousBlock pxBlock xWantedSize h =
     (let m = links h;
          pvReturn = pxNextFreeBlock (m pxPreviousBlock) + xHeapStructSize;
          m1 = m(pxPreviousBlock := (m pxPreviousBlock)\<lparr>pxNextFreeBlock := pxNextFreeBlock (m pxBlock)\<rparr>) in
      bindR (split_block pl pxBlock xWantedSize (h\<lparr>links := m1\<rparr>)) (\<lambda>h2.
      let left = xFreeBytesRemaining h2 - xBlockSize (links h2 pxBlock) in
      Inr (pvReturn, h2\<lparr>
        xFreeBytesRemaining := left,
        xMinimumEverFreeBytesRemaining :=
          (if left < xMinimumEverFreeBytesRemaining h2 then left else xMinimumEverFreeBytesRemaining h2),
        links := (links h2)(pxBlock := \<lparr>pxNextFreeBlock = 0,
          xBlockSize = xBlockSize (links h2 pxBlock) OR xBlockAllocatedBit h2\<rparr>),
        xNumberOfSuccessfulAllocations := xNumberOfSuccessfulAllocations h2 + 1\<rparr>)))"

text \<open>What \<open>pvPortMalloc\<close> does while the scheduler is suspended.\<close>

definition heap_malloc :: "placement \<Rightarrow> u32 \<Rightarrow> heap4 \<Rightarrow> (u32 \<times> heap4) res" where
  "heap_malloc pl xWantedSize h0 =
     (let h = (if pxEnd h0 = 0 then prvHeapInit pl h0 else h0) in
      if xWantedSize AND xBlockAllocatedBit h = 0 then
        bindR (wanted_size xWantedSize) (\<lambda>w.
        if 0 < w \<and> w \<le> xFreeBytesRemaining h then
          bindR (returns (find_block (links h) w (xStart pl) (pxNextFreeBlock (links h (xStart pl))))) (\<lambda>(prev, b).
          if b \<noteq> pxEnd h then take_block pl prev b w h else Inr (0, h))
        else Inr (0, h))
      else Inr (0, h))"

definition pvPortMalloc :: "placement \<Rightarrow> u32 \<Rightarrow> heap4 \<times> kernel \<Rightarrow> (u32 \<times> heap4 \<times> kernel) res" where
  "pvPortMalloc pl xWantedSize = (\<lambda>(h, k).
     let k1 = vTaskSuspendAll k in
     bindR (heap_malloc pl xWantedSize h) (\<lambda>(pvReturn, h1).
     bindR (xTaskResumeAll k1) (\<lambda>(_, k2).
     bindR (assertR (pvReturn AND portBYTE_ALIGNMENT_MASK = 0)) (\<lambda>_. Inr (pvReturn, h1, k2)))))"

section \<open>Giving memory back\<close>

text \<open>\<open>vPortFree\<close> before it suspends the scheduler: the header must say that the block is in use. The
  two tests behind the assertions repeat them.\<close>

definition free_check :: "u32 \<Rightarrow> heap4 \<Rightarrow> heap4 res" where
  "free_check pxLink h =
     (let l = links h pxLink in
      bindR (assertR (xBlockSize l AND xBlockAllocatedBit h \<noteq> 0)) (\<lambda>_.
      bindR (assertR (pxNextFreeBlock l = 0)) (\<lambda>_.
      Inr (h\<lparr>links := (links h)(pxLink := l\<lparr>xBlockSize := xBlockSize l AND NOT (xBlockAllocatedBit h)\<rparr>)\<rparr>))))"

definition free_insert :: "placement \<Rightarrow> u32 \<Rightarrow> heap4 \<Rightarrow> heap4 res" where
  "free_insert pl pxLink h =
     bindR (prvInsertBlockIntoFreeList pl pxLink
       (h\<lparr>xFreeBytesRemaining := xFreeBytesRemaining h + xBlockSize (links h pxLink)\<rparr>)) (\<lambda>h1.
     Inr (h1\<lparr>xNumberOfSuccessfulFrees := xNumberOfSuccessfulFrees h1 + 1\<rparr>))"

definition vPortFree :: "placement \<Rightarrow> u32 \<Rightarrow> heap4 \<times> kernel \<Rightarrow> (heap4 \<times> kernel) res" where
  "vPortFree pl pv = (\<lambda>(h, k).
     if pv \<noteq> 0 then
       let pxLink = pv - xHeapStructSize in
       bindR (free_check pxLink h) (\<lambda>h1.
       let k1 = vTaskSuspendAll k in
       bindR (free_insert pl pxLink h1) (\<lambda>h2.
       bindR (xTaskResumeAll k1) (\<lambda>(_, k2). Inr (h2, k2))))
     else Inr (h, k))"

text \<open>The memory of a task created by \<open>xTaskCreate\<close> of tasks.c: its stack first, then its control block, and the
  stack goes back when there is no room for the control block. With the configuration of the
  repository \<open>TCB_t\<close> has 92 bytes: two pointers, two list items of 20, five words, the name of 16 and the
  notification state with two flags, padded to words.\<close>

definition sizeof_StackType_t :: u32 where "sizeof_StackType_t = 4"
definition sizeof_TCB_t :: u32 where "sizeof_TCB_t = 92"

definition alloc_task :: "placement \<Rightarrow> u16 \<Rightarrow> heap4 \<times> kernel \<Rightarrow> (u32 option \<times> heap4 \<times> kernel) res" where
  "alloc_task pl usStackDepth s =
     bindR (pvPortMalloc pl (ucast usStackDepth * sizeof_StackType_t) s) (\<lambda>(pxStack, s1).
     if pxStack \<noteq> 0 then
       bindR (pvPortMalloc pl sizeof_TCB_t s1) (\<lambda>(pxNewTCB, s2).
       if pxNewTCB \<noteq> 0 then Inr (Some pxNewTCB, s2)
       else bindR (vPortFree pl pxStack s2) (\<lambda>s3. Inr (None, s3)))
     else Inr (None, s1))"

section \<open>Questions about the heap\<close>

definition xPortGetFreeHeapSize :: "heap4 \<Rightarrow> u32" where
  "xPortGetFreeHeapSize h = xFreeBytesRemaining h"

definition xPortGetMinimumEverFreeHeapSize :: "heap4 \<Rightarrow> u32" where
  "xPortGetMinimumEverFreeHeapSize h = xMinimumEverFreeBytesRemaining h"

record HeapStats_t =
  xAvailableHeapSpaceInBytes :: u32
  xSizeOfLargestFreeBlockInBytes :: u32
  xSizeOfSmallestFreeBlockInBytes :: u32
  xNumberOfFreeBlocks :: u32
  xMinimumEverFreeBytesRemaining_stat :: u32
  xNumberOfSuccessfulAllocations_stat :: u32
  xNumberOfSuccessfulFrees_stat :: u32

text \<open>The \<open>do ... while\<close> of \<open>vPortGetHeapStats\<close>: number, largest and smallest. A null pointer is a wild read.\<close>

partial_function (option) stats_loop ::
    "heap4 \<Rightarrow> u32 \<Rightarrow> u32 \<Rightarrow> u32 \<Rightarrow> u32 \<Rightarrow> (u32 \<times> u32 \<times> u32) res option" where
  "stats_loop h pxBlock xBlocks xMaxSize xMinSize =
     (if pxBlock = 0 then Some (Inl Bounds)
      else
        let size = xBlockSize (links h pxBlock);
            next = pxNextFreeBlock (links h pxBlock);
            big = (if xMaxSize < size then size else xMaxSize);
            small = (if size < xMinSize then size else xMinSize) in
        if next \<noteq> pxEnd h then stats_loop h next (xBlocks + 1) big small
        else Some (Inr (xBlocks + 1, big, small)))"

definition vPortGetHeapStats :: "placement \<Rightarrow> heap4 \<times> kernel \<Rightarrow> (HeapStats_t \<times> kernel) res" where
  "vPortGetHeapStats pl = (\<lambda>(h, k).
     let k1 = vTaskSuspendAll k; b = pxNextFreeBlock (links h (xStart pl)) in
     bindR (if b \<noteq> 0 then bindR (returns (stats_loop h b 0 0 portMAX_DELAY)) (\<lambda>r. r)
            else Inr (0, 0, portMAX_DELAY)) (\<lambda>(xBlocks, xMaxSize, xMinSize).
     bindR (xTaskResumeAll k1) (\<lambda>(_, k2).
     Inr (\<lparr>xAvailableHeapSpaceInBytes = xFreeBytesRemaining h,
           xSizeOfLargestFreeBlockInBytes = xMaxSize, xSizeOfSmallestFreeBlockInBytes = xMinSize,
           xNumberOfFreeBlocks = xBlocks,
           xMinimumEverFreeBytesRemaining_stat = xMinimumEverFreeBytesRemaining h,
           xNumberOfSuccessfulAllocations_stat = xNumberOfSuccessfulAllocations h,
           xNumberOfSuccessfulFrees_stat = xNumberOfSuccessfulFrees h\<rparr>, k2))))"

end
