(* ===== verification/Queue.thy ===== *)
theory Queue
  imports KernelControl StreamIPC Heap4
begin

text \<open>
  Queues, semaphores and mutexes, queue.c of FreeRTOS, as configured here (no queue sets, no
  co-routines). A queue is its control block together with its storage area; the pointers into the
  storage are offsets from \<open>pcHead\<close>. The two lists of waiting tasks belong to the kernel
  (\<open>xEventLists\<close>), the queue has their addresses.

  A blocking call is split where other tasks and interrupts can run: \<open>..._try\<close> is the critical section
  that looks at the queue, \<open>wait_begin\<close> suspends the scheduler and locks the queue, \<open>..._check\<close> looks at
  the time and at the queue again and puts the task on the list, \<open>wait_end\<close> unlocks the queue and
  resumes the scheduler. The loop of the call begins with \<open>..._try\<close> again.
\<close>

section \<open>The data\<close>

datatype position = queueSEND_TO_BACK | queueSEND_TO_FRONT | queueOVERWRITE

text \<open>The union \<open>u\<close> holds \<open>pcTail\<close> and \<open>pcReadFrom\<close> of a queue, \<open>xMutexHolder\<close> and \<open>uxRecursiveCallCount\<close> of a
  mutex (\<open>is_mutex\<close>: \<open>pcHead\<close> is \<open>NULL\<close>).\<close>

record Queue_t =
  is_mutex :: bool
  storage :: "u8 list"
  pcWriteTo :: int
  pcTail :: int
  pcReadFrom :: int
  xMutexHolder :: "task option"
  uxRecursiveCallCount :: u32
  xTasksWaitingToSend :: nat
  xTasksWaitingToReceive :: nat
  uxMessagesWaiting :: nat
  uxLength :: nat
  uxItemSize :: nat
  cRxLock :: "8 word"
  cTxLock :: "8 word"

definition queueUNLOCKED :: "8 word" where
  "queueUNLOCKED = - 1"

definition queueLOCKED_UNMODIFIED :: "8 word" where
  "queueLOCKED_UNMODIFIED = 0"

section \<open>Copying an item in and out\<close>

definition copy_in :: "int \<Rightarrow> u8 list \<Rightarrow> Queue_t \<Rightarrow> Queue_t res" where
  "copy_in p item q =
     (if p < 0 then Inl Bounds
      else bindR (mem_read item 0 (uxItemSize q)) (\<lambda>bytes.
           bindR (memcpy_to (storage q) (nat p) bytes) (\<lambda>m. Inr (q\<lparr>storage := m\<rparr>))))"

definition prvCopyDataToQueue :: "u8 list \<Rightarrow> position \<Rightarrow> Queue_t \<Rightarrow> kernel \<Rightarrow> (bool \<times> Queue_t \<times> kernel) res" where
  "prvCopyDataToQueue pvItemToQueue xPosition q k =
     (let d = int (uxItemSize q); n = uxMessagesWaiting q in
      if uxItemSize q = 0 then
        if is_mutex q then
          bindR (xTaskPriorityDisinherit (xMutexHolder q) k) (\<lambda>(xReturn, k1).
          Inr (xReturn, q\<lparr>xMutexHolder := None, uxMessagesWaiting := n + 1\<rparr>, k1))
        else Inr (False, q\<lparr>uxMessagesWaiting := n + 1\<rparr>, k)
      else if xPosition = queueSEND_TO_BACK then
        bindR (copy_in (pcWriteTo q) pvItemToQueue q) (\<lambda>q1.
        let w = pcWriteTo q1 + d in
        Inr (False, q1\<lparr>pcWriteTo := (if pcTail q1 \<le> w then 0 else w), uxMessagesWaiting := n + 1\<rparr>, k))
      else
        bindR (copy_in (pcReadFrom q) pvItemToQueue q) (\<lambda>q1.
        let r = pcReadFrom q1 - d;
            n1 = (if xPosition = queueOVERWRITE \<and> 0 < n then n - 1 else n) in
        Inr (False, q1\<lparr>pcReadFrom := (if r < 0 then pcTail q1 - d else r), uxMessagesWaiting := n1 + 1\<rparr>, k)))"

text \<open>The bytes that reach \<open>pvBuffer\<close>, and the queue.\<close>

definition prvCopyDataFromQueue :: "Queue_t \<Rightarrow> (u8 list \<times> Queue_t) res" where
  "prvCopyDataFromQueue q =
     (if uxItemSize q \<noteq> 0 then
        let r = pcReadFrom q + int (uxItemSize q);
            r1 = (if pcTail q \<le> r then 0 else r) in
        if r1 < 0 then Inl Bounds
        else bindR (mem_read (storage q) (nat r1) (uxItemSize q)) (\<lambda>bytes. Inr (bytes, q\<lparr>pcReadFrom := r1\<rparr>))
      else Inr ([], q))"

section \<open>Waking a waiting task, locking\<close>

text \<open>If a task waits on the list, the first one is taken off; the result says whether a switch is needed.\<close>

definition wake_waiting :: "nat \<Rightarrow> kernel \<Rightarrow> (bool \<times> kernel) res" where
  "wake_waiting l k = (if xEventLists k l \<noteq> [] then xTaskRemoveFromEventList l k else Inr (False, k))"

definition wake_and_yield :: "nat \<Rightarrow> kernel \<Rightarrow> kernel res" where
  "wake_and_yield l k = bindR (wake_waiting l k) (\<lambda>(y, k1). Inr (if y then portYIELD k1 else k1))"

definition prvLockQueue :: "Queue_t \<Rightarrow> Queue_t" where
  "prvLockQueue q =
     q\<lparr>cRxLock := (if cRxLock q = queueUNLOCKED then queueLOCKED_UNMODIFIED else cRxLock q),
       cTxLock := (if cTxLock q = queueUNLOCKED then queueLOCKED_UNMODIFIED else cTxLock q)\<rparr>"

text \<open>A loop of \<open>prvUnlockQueue\<close>: as many tasks are woken as the lock counts, while there are any. The
  argument is the count as long as it is positive.\<close>

fun unlock_loop :: "nat \<Rightarrow> nat \<Rightarrow> kernel \<Rightarrow> kernel res" where
  "unlock_loop l 0 k = Inr k"
| "unlock_loop l (Suc n) k =
     (if xEventLists k l \<noteq> [] then
        bindR (xTaskRemoveFromEventList l k) (\<lambda>(y, k1).
        unlock_loop l n (if y then vTaskMissedYield k1 else k1))
      else Inr k)"

definition lock_count :: "8 word \<Rightarrow> nat" where
  "lock_count c = nat (sint c)"

text \<open>\<open>prvUnlockQueue\<close> has a critical section for each of the two counts; an interrupt can come between them.\<close>

definition unlock_tx :: "Queue_t \<Rightarrow> kernel \<Rightarrow> (Queue_t \<times> kernel) res" where
  "unlock_tx q k =
     bindR (unlock_loop (xTasksWaitingToReceive q) (lock_count (cTxLock q)) k) (\<lambda>k1.
     Inr (q\<lparr>cTxLock := queueUNLOCKED\<rparr>, k1))"

definition unlock_rx :: "Queue_t \<Rightarrow> kernel \<Rightarrow> (Queue_t \<times> kernel) res" where
  "unlock_rx q k =
     bindR (unlock_loop (xTasksWaitingToSend q) (lock_count (cRxLock q)) k) (\<lambda>k1.
     Inr (q\<lparr>cRxLock := queueUNLOCKED\<rparr>, k1))"

definition prvUnlockQueue :: "Queue_t \<Rightarrow> kernel \<Rightarrow> (Queue_t \<times> kernel) res" where
  "prvUnlockQueue q k = bindR (unlock_tx q k) (\<lambda>(q1, k1). unlock_rx q1 k1)"

definition prvIsQueueEmpty :: "Queue_t \<Rightarrow> bool" where
  "prvIsQueueEmpty q \<longleftrightarrow> uxMessagesWaiting q = 0"

definition prvIsQueueFull :: "Queue_t \<Rightarrow> bool" where
  "prvIsQueueFull q \<longleftrightarrow> uxMessagesWaiting q = uxLength q"

section \<open>Creation\<close>

text \<open>A product of two lengths, in 32 bits.\<close>

definition size32 :: "nat \<Rightarrow> nat \<Rightarrow> int" where
  "size32 n d = uint (of_nat n * of_nat d :: u32)"

text \<open>On a mutex the pointers lie over the holder and the count of the calls, and \<open>pcHead\<close> is \<open>NULL\<close>.\<close>

definition xQueueGenericReset :: "bool \<Rightarrow> Queue_t \<Rightarrow> kernel \<Rightarrow> (Queue_t \<times> kernel) res" where
  "xQueueGenericReset xNewQueue q k =
     (let q1 = q\<lparr>pcTail := size32 (uxLength q) (uxItemSize q), uxMessagesWaiting := 0, pcWriteTo := 0,
                 pcReadFrom := size32 (uxLength q - 1) (uxItemSize q),
                 cRxLock := queueUNLOCKED, cTxLock := queueUNLOCKED,
                 xMutexHolder := (if is_mutex q then None else xMutexHolder q),
                 uxRecursiveCallCount := (if is_mutex q then 0 else uxRecursiveCallCount q)\<rparr> in
      if xNewQueue then
        Inr (q1, k\<lparr>xEventLists := (xEventLists k)(xTasksWaitingToSend q := [], xTasksWaitingToReceive q := [])\<rparr>)
      else bindR (wake_and_yield (xTasksWaitingToSend q) k) (\<lambda>k1. Inr (q1, k1)))"

text \<open>The control block \<open>q\<close> before it is filled in: its lists are where they are, the storage has its old contents.\<close>

definition prvInitialiseNewQueue :: "nat \<Rightarrow> nat \<Rightarrow> Queue_t \<Rightarrow> kernel \<Rightarrow> (Queue_t \<times> kernel) res" where
  "prvInitialiseNewQueue uxQueueLength itemSize q k =
     xQueueGenericReset True (q\<lparr>is_mutex := False, uxLength := uxQueueLength, uxItemSize := itemSize\<rparr>) k"

definition xQueueGenericCreateStatic ::
    "nat \<Rightarrow> nat \<Rightarrow> u8 list option \<Rightarrow> Queue_t option \<Rightarrow> kernel \<Rightarrow> (Queue_t \<times> kernel) res" where
  "xQueueGenericCreateStatic uxQueueLength itemSize pucQueueStorage pxStaticQueue k =
     bindR (assertR (0 < uxQueueLength)) (\<lambda>_.
     case pxStaticQueue of None \<Rightarrow> Inl Assert_failed
     | Some q \<Rightarrow>
         bindR (assertR (\<not> (pucQueueStorage \<noteq> None \<and> itemSize = 0))) (\<lambda>_.
         bindR (assertR (\<not> (pucQueueStorage = None \<and> itemSize \<noteq> 0))) (\<lambda>_.
         prvInitialiseNewQueue uxQueueLength itemSize
           (q\<lparr>storage := (case pucQueueStorage of None \<Rightarrow> [] | Some m \<Rightarrow> m)\<rparr>) k)))"

definition sizeof_Queue_t :: u32 where "sizeof_Queue_t = 80"

text \<open>The control block and the storage are one block of the heap; \<open>mem\<close> is the memory before, \<open>blank a\<close> the
  control block at address \<open>a\<close>.\<close>

definition xQueueGenericCreate ::
    "placement \<Rightarrow> (u32 \<Rightarrow> u8) \<Rightarrow> (u32 \<Rightarrow> Queue_t) \<Rightarrow> u32 \<Rightarrow> u32 \<Rightarrow> heap4 \<times> kernel \<Rightarrow>
     (Queue_t option \<times> heap4 \<times> kernel) res" where
  "xQueueGenericCreate pl mem blank uxQueueLength itemSize s =
     bindR (assertR (0 < uxQueueLength)) (\<lambda>_.
     let xQueueSizeInBytes = uxQueueLength * itemSize in
     bindR (pvPortMalloc pl (sizeof_Queue_t + xQueueSizeInBytes) s) (\<lambda>(p, h, k).
     if p \<noteq> 0 then
       let pucQueueStorage = p + sizeof_Queue_t;
           bytes = map (\<lambda>i. mem (pucQueueStorage + of_nat i)) [0..<unat xQueueSizeInBytes] in
       bindR (prvInitialiseNewQueue (unat uxQueueLength) (unat itemSize) ((blank p)\<lparr>storage := bytes\<rparr>) k) (\<lambda>(q, k1).
       Inr (Some q, h, k1))
     else Inr (None, h, k)))"

section \<open>Sending\<close>

datatype 'a outcome = Finished 'a | Must_wait TimeOut_t

definition send_asserts :: "u8 list option \<Rightarrow> u32 \<Rightarrow> position \<Rightarrow> Queue_t \<Rightarrow> kernel \<Rightarrow> unit res" where
  "send_asserts pvItemToQueue xTicksToWait xCopyPosition q k =
     bindR (assertR (\<not> (pvItemToQueue = None \<and> uxItemSize q \<noteq> 0))) (\<lambda>_.
     bindR (assertR (\<not> (xCopyPosition = queueOVERWRITE \<and> uxLength q \<noteq> 1))) (\<lambda>_.
     assertR (\<not> (xTaskGetSchedulerState k = taskSCHEDULER_SUSPENDED \<and> xTicksToWait \<noteq> 0))))"

text \<open>The bytes at the item's address; only the first \<open>uxItemSize\<close> of them are looked at.\<close>

definition sent_bytes :: "u8 list option \<Rightarrow> u8 list" where
  "sent_bytes p = (case p of None \<Rightarrow> [] | Some bytes \<Rightarrow> bytes)"

text \<open>The time-out record is set in the first round only.\<close>

definition set_timeout :: "TimeOut_t option \<Rightarrow> kernel \<Rightarrow> TimeOut_t" where
  "set_timeout xTimeOut k = (case xTimeOut of None \<Rightarrow> vTaskSetTimeOutState k | Some t \<Rightarrow> t)"

definition xQueueGenericSend_try ::
    "u8 list option \<Rightarrow> u32 \<Rightarrow> position \<Rightarrow> TimeOut_t option \<Rightarrow> Queue_t \<Rightarrow> kernel \<Rightarrow> (bool outcome \<times> Queue_t \<times> kernel) res" where
  "xQueueGenericSend_try pvItemToQueue xTicksToWait xCopyPosition xTimeOut q k =
     (if uxMessagesWaiting q < uxLength q \<or> xCopyPosition = queueOVERWRITE then
        bindR (prvCopyDataToQueue (sent_bytes pvItemToQueue) xCopyPosition q k) (\<lambda>(xYieldRequired, q1, k1).
        if xEventLists k1 (xTasksWaitingToReceive q1) \<noteq> []
        then bindR (wake_and_yield (xTasksWaitingToReceive q1) k1) (\<lambda>k2. Inr (Finished True, q1, k2))
        else Inr (Finished True, q1, if xYieldRequired then portYIELD k1 else k1))
      else if xTicksToWait = 0 then Inr (Finished False, q, k)
      else Inr (Must_wait (set_timeout xTimeOut k), q, k))"

text \<open>A call with no block time.\<close>

definition xQueueGenericSend_now ::
    "u8 list option \<Rightarrow> position \<Rightarrow> Queue_t \<Rightarrow> kernel \<Rightarrow> (bool outcome \<times> Queue_t \<times> kernel) res" where
  "xQueueGenericSend_now pvItemToQueue xCopyPosition q k =
     bindR (send_asserts pvItemToQueue 0 xCopyPosition q k) (\<lambda>_.
     xQueueGenericSend_try pvItemToQueue 0 xCopyPosition None q k)"

section \<open>Waiting\<close>

text \<open>The part of the loops behind the first critical section, the same in all four blocking calls but for the
  list and the condition. The scheduler is suspended and the queue locked by \<open>wait_begin\<close>.\<close>

definition wait_begin :: "Queue_t \<Rightarrow> kernel \<Rightarrow> Queue_t \<times> kernel" where
  "wait_begin q k = (prvLockQueue q, vTaskSuspendAll k)"

datatype decision = Blocked | Try_again | Timed_out

text \<open>\<open>must_block\<close> is \<open>prvIsQueueFull\<close> or \<open>prvIsQueueEmpty\<close> and \<open>l\<close> the list of its side. The new time-out record and
  the ticks left are for the next round.\<close>

definition wait_check ::
    "nat \<Rightarrow> bool \<Rightarrow> TimeOut_t \<Rightarrow> u32 \<Rightarrow> kernel \<Rightarrow> (decision \<times> TimeOut_t \<times> u32 \<times> kernel) res" where
  "wait_check l must_block xTimeOut xTicksToWait k =
     (let (over, to1, ticks1) = xTaskCheckForTimeOut xTimeOut xTicksToWait k in
      if over then Inr (Timed_out, to1, ticks1, k)
      else if must_block then bindR (vTaskPlaceOnEventList l ticks1 k) (\<lambda>k1. Inr (Blocked, to1, ticks1, k1))
      else Inr (Try_again, to1, ticks1, k))"

definition send_check ::
    "TimeOut_t \<Rightarrow> u32 \<Rightarrow> Queue_t \<Rightarrow> kernel \<Rightarrow> (decision \<times> TimeOut_t \<times> u32 \<times> kernel) res" where
  "send_check xTimeOut xTicksToWait q k =
     wait_check (xTasksWaitingToSend q) (prvIsQueueFull q) xTimeOut xTicksToWait k"

definition receive_check ::
    "TimeOut_t \<Rightarrow> u32 \<Rightarrow> Queue_t \<Rightarrow> kernel \<Rightarrow> (decision \<times> TimeOut_t \<times> u32 \<times> kernel) res" where
  "receive_check xTimeOut xTicksToWait q k =
     wait_check (xTasksWaitingToReceive q) (prvIsQueueEmpty q) xTimeOut xTicksToWait k"

text \<open>Before it waits for a mutex the task lends its priority to the holder; the first component says that it did.\<close>

definition take_check ::
    "bool \<Rightarrow> TimeOut_t \<Rightarrow> u32 \<Rightarrow> Queue_t \<Rightarrow> kernel \<Rightarrow> (bool \<times> decision \<times> TimeOut_t \<times> u32 \<times> kernel) res" where
  "take_check xInheritanceOccurred xTimeOut xTicksToWait q k =
     (let (over, to1, ticks1) = xTaskCheckForTimeOut xTimeOut xTicksToWait k in
      if over then Inr (xInheritanceOccurred, Timed_out, to1, ticks1, k)
      else if prvIsQueueEmpty q then
        bindR (if is_mutex q then xTaskPriorityInherit (xMutexHolder q) k else Inr (xInheritanceOccurred, k)) (\<lambda>(inh, k1).
        bindR (vTaskPlaceOnEventList (xTasksWaitingToReceive q) ticks1 k1) (\<lambda>k2.
        Inr (inh, Blocked, to1, ticks1, k2)))
      else Inr (xInheritanceOccurred, Try_again, to1, ticks1, k))"

definition wait_resume :: "decision \<Rightarrow> kernel \<Rightarrow> kernel res" where
  "wait_resume d k =
     bindR (xTaskResumeAll k) (\<lambda>(xAlreadyYielded, k1).
     Inr (if d = Blocked \<and> \<not> xAlreadyYielded then portYIELD k1 else k1))"

definition wait_end :: "decision \<Rightarrow> Queue_t \<Rightarrow> kernel \<Rightarrow> (Queue_t \<times> kernel) res" where
  "wait_end d q k = bindR (prvUnlockQueue q k) (\<lambda>(q1, k1). bindR (wait_resume d k1) (\<lambda>k2. Inr (q1, k2)))"

text \<open>After the time is over a sender gives up; a receiver looks at the queue once more, and goes back to the
  beginning of the loop when there is something in it.\<close>

definition gives_up_sending :: "decision \<Rightarrow> bool" where
  "gives_up_sending d \<longleftrightarrow> d = Timed_out"

definition gives_up_receiving :: "decision \<Rightarrow> Queue_t \<Rightarrow> bool" where
  "gives_up_receiving d q \<longleftrightarrow> d = Timed_out \<and> prvIsQueueEmpty q"

section \<open>Receiving\<close>

definition receive_asserts :: "bool \<Rightarrow> u32 \<Rightarrow> Queue_t \<Rightarrow> kernel \<Rightarrow> unit res" where
  "receive_asserts pvBuffer_NULL xTicksToWait q k =
     bindR (assertR (\<not> (pvBuffer_NULL \<and> uxItemSize q \<noteq> 0))) (\<lambda>_.
     assertR (\<not> (xTaskGetSchedulerState k = taskSCHEDULER_SUSPENDED \<and> xTicksToWait \<noteq> 0)))"

definition xQueueReceive_try ::
    "u32 \<Rightarrow> TimeOut_t option \<Rightarrow> Queue_t \<Rightarrow> kernel \<Rightarrow> (u8 list option outcome \<times> Queue_t \<times> kernel) res" where
  "xQueueReceive_try xTicksToWait xTimeOut q k =
     (let n = uxMessagesWaiting q in
      if 0 < n then
        bindR (prvCopyDataFromQueue q) (\<lambda>(bytes, q1).
        bindR (wake_and_yield (xTasksWaitingToSend q1) k) (\<lambda>k1.
        Inr (Finished (Some bytes), q1\<lparr>uxMessagesWaiting := n - 1\<rparr>, k1)))
      else if xTicksToWait = 0 then Inr (Finished None, q, k)
      else Inr (Must_wait (set_timeout xTimeOut k), q, k))"

text \<open>Peeking wakes another receiver, because the item is still there.\<close>

definition xQueuePeek_try ::
    "u32 \<Rightarrow> TimeOut_t option \<Rightarrow> Queue_t \<Rightarrow> kernel \<Rightarrow> (u8 list option outcome \<times> Queue_t \<times> kernel) res" where
  "xQueuePeek_try xTicksToWait xTimeOut q k =
     (if 0 < uxMessagesWaiting q then
        bindR (prvCopyDataFromQueue q) (\<lambda>(bytes, q1).
        bindR (wake_and_yield (xTasksWaitingToReceive q1) k) (\<lambda>k1.
        Inr (Finished (Some bytes), q1\<lparr>pcReadFrom := pcReadFrom q\<rparr>, k1)))
      else if xTicksToWait = 0 then Inr (Finished None, q, k)
      else Inr (Must_wait (set_timeout xTimeOut k), q, k))"

definition take_asserts :: "u32 \<Rightarrow> Queue_t \<Rightarrow> kernel \<Rightarrow> unit res" where
  "take_asserts xTicksToWait q k =
     bindR (assertR (uxItemSize q = 0)) (\<lambda>_.
     assertR (\<not> (xTaskGetSchedulerState k = taskSCHEDULER_SUSPENDED \<and> xTicksToWait \<noteq> 0)))"

definition xQueueSemaphoreTake_try ::
    "bool \<Rightarrow> u32 \<Rightarrow> TimeOut_t option \<Rightarrow> Queue_t \<Rightarrow> kernel \<Rightarrow> (bool outcome \<times> Queue_t \<times> kernel) res" where
  "xQueueSemaphoreTake_try xInheritanceOccurred xTicksToWait xTimeOut q k =
     (let n = uxMessagesWaiting q in
      if 0 < n then
        let q1 = q\<lparr>uxMessagesWaiting := n - 1\<rparr>;
            (q2, k2) = (if is_mutex q1
              then let (h, k1) = pvTaskIncrementMutexHeldCount k in (q1\<lparr>xMutexHolder := h\<rparr>, k1) else (q1, k)) in
        bindR (wake_and_yield (xTasksWaitingToSend q2) k2) (\<lambda>k3. Inr (Finished True, q2, k3))
      else if xTicksToWait = 0 then bindR (assertR (\<not> xInheritanceOccurred)) (\<lambda>_. Inr (Finished False, q, k))
      else Inr (Must_wait (set_timeout xTimeOut k), q, k))"

text \<open>The priority of the most important task that still waits for the mutex: its event item holds 56 minus it.\<close>

definition prvGetDisinheritPriorityAfterTimeout :: "Queue_t \<Rightarrow> kernel \<Rightarrow> nat" where
  "prvGetDisinheritPriorityAfterTimeout q k =
     (case xEventLists k (xTasksWaitingToReceive q) of
        [] \<Rightarrow> 0
      | t # _ \<Rightarrow> unat (of_nat configMAX_PRIORITIES - xEventItemValue (tcbs k t)))"

text \<open>The task that lent its priority gives up.\<close>

definition take_timeout :: "bool \<Rightarrow> Queue_t \<Rightarrow> kernel \<Rightarrow> kernel res" where
  "take_timeout xInheritanceOccurred q k =
     (if xInheritanceOccurred
      then vTaskPriorityDisinheritAfterTimeout (xMutexHolder q) (prvGetDisinheritPriorityAfterTimeout q k) k
      else Inr k)"

section \<open>From an interrupt\<close>

text \<open>While the queue is locked the lists are left alone and the event is counted, in 8 bits. The last component
  is \<open>*pxHigherPriorityTaskWoken\<close>.\<close>

definition isr_posted :: "bool \<Rightarrow> Queue_t \<Rightarrow> kernel \<Rightarrow> (Queue_t \<times> kernel \<times> bool) res" where
  "isr_posted woken q k =
     (if cTxLock q = queueUNLOCKED
      then bindR (wake_waiting (xTasksWaitingToReceive q) k) (\<lambda>(y, k1). Inr (q, k1, woken \<or> y))
      else Inr (q\<lparr>cTxLock := cTxLock q + 1\<rparr>, k, woken))"

definition xQueueGenericSendFromISR ::
    "u8 list option \<Rightarrow> position \<Rightarrow> bool \<Rightarrow> Queue_t \<Rightarrow> kernel \<Rightarrow> (bool \<times> Queue_t \<times> kernel \<times> bool) res" where
  "xQueueGenericSendFromISR pvItemToQueue xCopyPosition woken q k =
     bindR (assertR (\<not> (pvItemToQueue = None \<and> uxItemSize q \<noteq> 0))) (\<lambda>_.
     bindR (assertR (\<not> (xCopyPosition = queueOVERWRITE \<and> uxLength q \<noteq> 1))) (\<lambda>_.
     if uxMessagesWaiting q < uxLength q \<or> xCopyPosition = queueOVERWRITE then
       bindR (prvCopyDataToQueue (sent_bytes pvItemToQueue) xCopyPosition q k) (\<lambda>(_, q1, k1).
       bindR (isr_posted woken q1 k1) (\<lambda>r. Inr (True, r)))
     else Inr (False, q, k, woken)))"

definition xQueueGiveFromISR :: "bool \<Rightarrow> Queue_t \<Rightarrow> kernel \<Rightarrow> (bool \<times> Queue_t \<times> kernel \<times> bool) res" where
  "xQueueGiveFromISR woken q k =
     bindR (assertR (uxItemSize q = 0)) (\<lambda>_.
     bindR (assertR (\<not> (is_mutex q \<and> xMutexHolder q \<noteq> None))) (\<lambda>_.
     if uxMessagesWaiting q < uxLength q then
       bindR (isr_posted woken (q\<lparr>uxMessagesWaiting := uxMessagesWaiting q + 1\<rparr>) k) (\<lambda>r. Inr (True, r))
     else Inr (False, q, k, woken)))"

definition xQueueReceiveFromISR ::
    "bool \<Rightarrow> bool \<Rightarrow> Queue_t \<Rightarrow> kernel \<Rightarrow> (u8 list option \<times> Queue_t \<times> kernel \<times> bool) res" where
  "xQueueReceiveFromISR pvBuffer_NULL woken q k =
     bindR (assertR (\<not> (pvBuffer_NULL \<and> uxItemSize q \<noteq> 0))) (\<lambda>_.
     let n = uxMessagesWaiting q in
     if 0 < n then
       bindR (prvCopyDataFromQueue q) (\<lambda>(bytes, q1).
       let q2 = q1\<lparr>uxMessagesWaiting := n - 1\<rparr> in
       if cRxLock q = queueUNLOCKED
       then bindR (wake_waiting (xTasksWaitingToSend q2) k) (\<lambda>(y, k1). Inr (Some bytes, q2, k1, woken \<or> y))
       else Inr (Some bytes, q2\<lparr>cRxLock := cRxLock q + 1\<rparr>, k, woken))
     else Inr (None, q, k, woken))"

definition xQueuePeekFromISR :: "bool \<Rightarrow> Queue_t \<Rightarrow> u8 list option res" where
  "xQueuePeekFromISR pvBuffer_NULL q =
     bindR (assertR (\<not> (pvBuffer_NULL \<and> uxItemSize q \<noteq> 0))) (\<lambda>_.
     bindR (assertR (uxItemSize q \<noteq> 0)) (\<lambda>_.
     if 0 < uxMessagesWaiting q then bindR (prvCopyDataFromQueue q) (\<lambda>(bytes, _). Inr (Some bytes))
     else Inr None))"

section \<open>Mutexes and counting semaphores\<close>

definition prvInitialiseMutex :: "Queue_t \<times> kernel \<Rightarrow> (Queue_t \<times> kernel) res" where
  "prvInitialiseMutex = (\<lambda>(q, k).
     bindR (xQueueGenericSend_now None queueSEND_TO_BACK
       (q\<lparr>xMutexHolder := None, is_mutex := True, uxRecursiveCallCount := 0\<rparr>) k) (\<lambda>(_, q1, k1). Inr (q1, k1)))"

definition xQueueCreateMutex ::
    "placement \<Rightarrow> (u32 \<Rightarrow> u8) \<Rightarrow> (u32 \<Rightarrow> Queue_t) \<Rightarrow> heap4 \<times> kernel \<Rightarrow> (Queue_t option \<times> heap4 \<times> kernel) res" where
  "xQueueCreateMutex pl mem blank s =
     bindR (xQueueGenericCreate pl mem blank 1 0 s) (\<lambda>(xNewQueue, h, k).
     case xNewQueue of None \<Rightarrow> Inr (None, h, k)
     | Some q \<Rightarrow> bindR (prvInitialiseMutex (q, k)) (\<lambda>(q1, k1). Inr (Some q1, h, k1)))"

definition xQueueCreateMutexStatic :: "Queue_t option \<Rightarrow> kernel \<Rightarrow> (Queue_t \<times> kernel) res" where
  "xQueueCreateMutexStatic pxStaticQueue k =
     bindR (xQueueGenericCreateStatic 1 0 None pxStaticQueue k) prvInitialiseMutex"

definition xQueueGetMutexHolder :: "Queue_t \<Rightarrow> task option" where
  "xQueueGetMutexHolder q = (if is_mutex q then xMutexHolder q else None)"

definition xQueueGiveMutexRecursive :: "Queue_t \<Rightarrow> kernel \<Rightarrow> (bool \<times> Queue_t \<times> kernel) res" where
  "xQueueGiveMutexRecursive q k =
     (if xMutexHolder q = xTaskGetCurrentTaskHandle k then
        let q1 = q\<lparr>uxRecursiveCallCount := uxRecursiveCallCount q - 1\<rparr> in
        if uxRecursiveCallCount q1 = 0
        then bindR (xQueueGenericSend_now None queueSEND_TO_BACK q1 k) (\<lambda>(_, q2, k2). Inr (True, q2, k2))
        else Inr (True, q1, k)
      else Inr (False, q, k))"

text \<open>The first round of \<open>xQueueTakeMutexRecursive\<close>, and what it does when \<open>xQueueSemaphoreTake\<close> has returned \<open>got\<close>.\<close>

definition take_recursive_end :: "bool \<Rightarrow> Queue_t \<Rightarrow> Queue_t" where
  "take_recursive_end got q =
     (if got then q\<lparr>uxRecursiveCallCount := uxRecursiveCallCount q + 1\<rparr> else q)"

definition xQueueTakeMutexRecursive_try :: "u32 \<Rightarrow> Queue_t \<Rightarrow> kernel \<Rightarrow> (bool outcome \<times> Queue_t \<times> kernel) res" where
  "xQueueTakeMutexRecursive_try xTicksToWait q k =
     (if xMutexHolder q = xTaskGetCurrentTaskHandle k
      then Inr (Finished True, q\<lparr>uxRecursiveCallCount := uxRecursiveCallCount q + 1\<rparr>, k)
      else bindR (take_asserts xTicksToWait q k) (\<lambda>_.
           bindR (xQueueSemaphoreTake_try False xTicksToWait None q k) (\<lambda>(r, q1, k1).
           Inr (r, take_recursive_end (r = Finished True) q1, k1))))"

definition xQueueCreateCountingSemaphoreStatic ::
    "nat \<Rightarrow> nat \<Rightarrow> Queue_t option \<Rightarrow> kernel \<Rightarrow> (Queue_t \<times> kernel) res" where
  "xQueueCreateCountingSemaphoreStatic uxMaxCount uxInitialCount pxStaticQueue k =
     bindR (assertR (uxMaxCount \<noteq> 0)) (\<lambda>_.
     bindR (assertR (uxInitialCount \<le> uxMaxCount)) (\<lambda>_.
     bindR (xQueueGenericCreateStatic uxMaxCount 0 None pxStaticQueue k) (\<lambda>(q, k1).
     Inr (q\<lparr>uxMessagesWaiting := uxInitialCount\<rparr>, k1))))"

definition xQueueCreateCountingSemaphore ::
    "placement \<Rightarrow> (u32 \<Rightarrow> u8) \<Rightarrow> (u32 \<Rightarrow> Queue_t) \<Rightarrow> u32 \<Rightarrow> u32 \<Rightarrow> heap4 \<times> kernel \<Rightarrow>
     (Queue_t option \<times> heap4 \<times> kernel) res" where
  "xQueueCreateCountingSemaphore pl mem blank uxMaxCount uxInitialCount s =
     bindR (assertR (uxMaxCount \<noteq> 0)) (\<lambda>_.
     bindR (assertR (uxInitialCount \<le> uxMaxCount)) (\<lambda>_.
     bindR (xQueueGenericCreate pl mem blank uxMaxCount 0 s) (\<lambda>(xHandle, h, k).
     Inr (map_option (\<lambda>q. q\<lparr>uxMessagesWaiting := unat uxInitialCount\<rparr>) xHandle, h, k))))"

section \<open>Questions, the timer task's wait, the registry\<close>

definition uxQueueMessagesWaiting :: "Queue_t \<Rightarrow> nat" where
  "uxQueueMessagesWaiting q = uxMessagesWaiting q"

definition uxQueueSpacesAvailable :: "Queue_t \<Rightarrow> u32" where
  "uxQueueSpacesAvailable q = of_nat (uxLength q) - of_nat (uxMessagesWaiting q)"

definition vQueueWaitForMessageRestricted :: "u32 \<Rightarrow> bool \<Rightarrow> Queue_t \<Rightarrow> kernel \<Rightarrow> (Queue_t \<times> kernel) res" where
  "vQueueWaitForMessageRestricted xTicksToWait xWaitIndefinitely q k =
     (let q1 = prvLockQueue q in
      bindR (if uxMessagesWaiting q1 = 0
             then vTaskPlaceOnEventListRestricted (xTasksWaitingToReceive q1) xTicksToWait xWaitIndefinitely k
             else Inr k) (\<lambda>k1.
      prvUnlockQueue q1 k1))"

text \<open>The registry has eight slots, each a name (or \<open>NULL\<close>) and the address of a queue.\<close>

type_synonym registry = "(string option \<times> u32) list"

fun vQueueAddToRegistry :: "u32 \<Rightarrow> string option \<Rightarrow> registry \<Rightarrow> registry" where
  "vQueueAddToRegistry xQueue name [] = []"
| "vQueueAddToRegistry xQueue name ((n, h) # r) =
     (if n = None then (name, xQueue) # r else (n, h) # vQueueAddToRegistry xQueue name r)"

fun pcQueueGetName :: "u32 \<Rightarrow> registry \<Rightarrow> string option" where
  "pcQueueGetName xQueue [] = None"
| "pcQueueGetName xQueue ((n, h) # r) = (if h = xQueue then n else pcQueueGetName xQueue r)"

fun vQueueUnregisterQueue :: "u32 \<Rightarrow> registry \<Rightarrow> registry" where
  "vQueueUnregisterQueue xQueue [] = []"
| "vQueueUnregisterQueue xQueue ((n, h) # r) =
     (if h = xQueue then (None, 0) # r else (n, h) # vQueueUnregisterQueue xQueue r)"

definition vQueueDelete ::
    "placement \<Rightarrow> u32 \<Rightarrow> bool \<Rightarrow> registry \<Rightarrow> heap4 \<times> kernel \<Rightarrow> (registry \<times> heap4 \<times> kernel) res" where
  "vQueueDelete pl xQueue ucStaticallyAllocated r s =
     (let r1 = vQueueUnregisterQueue xQueue r in
      if \<not> ucStaticallyAllocated then bindR (vPortFree pl xQueue s) (\<lambda>s1. Inr (r1, s1)) else Inr (r1, s))"

section \<open>Interrupts in the middle of a call\<close>

text \<open>What can happen to the queue while a task is inside a blocking call with the scheduler suspended: the
  interrupts that send, give and receive, and the tick. A handler whose call woke a more important task asks
  for a switch, which is taken when it returns. The first component says that an item was put in.\<close>

datatype isr = Isr_send "u8 list" position | Isr_give | Isr_receive | Isr_tick

definition isr_return :: "bool \<Rightarrow> kernel \<Rightarrow> kernel res" where
  "isr_return xHigherPriorityTaskWoken k = take_pendsv (if xHigherPriorityTaskWoken then portYIELD k else k)"

fun run_isr :: "isr \<Rightarrow> Queue_t \<times> kernel \<Rightarrow> (bool \<times> Queue_t \<times> kernel) res" where
  "run_isr (Isr_send x p) (q, k) =
     bindR (xQueueGenericSendFromISR (Some x) p False q k) (\<lambda>(b, q1, k1, w). bindR (isr_return w k1) (\<lambda>k2. Inr (b, q1, k2)))"
| "run_isr Isr_give (q, k) =
     bindR (xQueueGiveFromISR False q k) (\<lambda>(b, q1, k1, w). bindR (isr_return w k1) (\<lambda>k2. Inr (b, q1, k2)))"
| "run_isr Isr_receive (q, k) =
     bindR (xQueueReceiveFromISR False False q k) (\<lambda>(_, q1, k1, w). bindR (isr_return w k1) (\<lambda>k2. Inr (False, q1, k2)))"
| "run_isr Isr_tick (q, k) = bindR (xPortSysTickHandler k) (\<lambda>k1. bindR (take_pendsv k1) (\<lambda>k2. Inr (False, q, k2)))"

text \<open>The number of items put in.\<close>

fun run_isrs :: "isr list \<Rightarrow> Queue_t \<times> kernel \<Rightarrow> (nat \<times> Queue_t \<times> kernel) res" where
  "run_isrs [] s = Inr (0, s)"
| "run_isrs (i # is) s =
     bindR (run_isr i s) (\<lambda>(b, s1). bindR (run_isrs is s1) (\<lambda>(n, s2). Inr ((if b then Suc n else n), s2)))"

text \<open>The second half of a round of \<open>xQueueReceive\<close> (or \<open>xQueuePeek\<close>), with interrupts wherever they can come: after
  the queue is locked, after the task is on the list, between the two halves of \<open>prvUnlockQueue\<close> and before the
  scheduler is resumed.\<close>

record gaps =
  locked_gap :: "isr list"
  placed_gap :: "isr list"
  unlock_gap :: "isr list"
  unlocked_gap :: "isr list"

definition receive_round ::
    "gaps \<Rightarrow> TimeOut_t \<Rightarrow> u32 \<Rightarrow> Queue_t \<Rightarrow> kernel \<Rightarrow> (decision \<times> TimeOut_t \<times> u32 \<times> Queue_t \<times> kernel) res" where
  "receive_round g xTimeOut xTicksToWait q k =
     bindR (run_isrs (locked_gap g) (wait_begin q k)) (\<lambda>(_, q1, k1).
     bindR (receive_check xTimeOut xTicksToWait q1 k1) (\<lambda>(d, to1, ticks1, k2).
     bindR (run_isrs (placed_gap g) (q1, k2)) (\<lambda>(_, q3, k3).
     bindR (unlock_tx q3 k3) (\<lambda>s4.
     bindR (run_isrs (unlock_gap g) s4) (\<lambda>(_, q5, k5).
     bindR (unlock_rx q5 k5) (\<lambda>s6.
     bindR (run_isrs (unlocked_gap g) s6) (\<lambda>(_, q7, k7).
     bindR (wait_resume d k7) (\<lambda>k8. Inr (d, to1, ticks1, q7, k8)))))))))"

end
