(* ===== verification/QueueDeque.thy ===== *)
theory QueueDeque
  imports Queue KernelCalls
begin

text \<open>
  A queue of queue.c is a bounded double-ended queue: the ring of slots in the storage area, with the
  read position one slot before the first item, refines a list. The contract is the locale
  \<open>deque_impl\<close>, proved of the calls of tasks and of interrupts in any order.
\<close>

section \<open>The contract\<close>

datatype 'a deque_op = Push_back 'a | Push_front 'a | Overwrite 'a | Pop | Look | Clear

datatype 'a answer = Done bool | Item "'a option"

text \<open>What the calls promise, of a queue that has room for \<open>n\<close> items.\<close>

fun deque_step :: "nat \<Rightarrow> 'a deque_op \<Rightarrow> 'a list \<Rightarrow> 'a answer \<times> 'a list" where
  "deque_step n (Push_back x) xs = (if length xs < n then (Done True, xs @ [x]) else (Done False, xs))"
| "deque_step n (Push_front x) xs = (if length xs < n then (Done True, x # xs) else (Done False, xs))"
| "deque_step n (Overwrite x) xs = (Done True, [x])"
| "deque_step n Pop xs = (case xs of [] \<Rightarrow> (Item None, []) | x # ys \<Rightarrow> (Item (Some x), ys))"
| "deque_step n Look xs = (Item (case xs of [] \<Rightarrow> None | x # _ \<Rightarrow> Some x), xs)"
| "deque_step n Clear xs = (Done True, [])"

fun deque_run :: "nat \<Rightarrow> 'a deque_op list \<Rightarrow> 'a list \<Rightarrow> 'a answer list \<times> 'a list" where
  "deque_run n [] xs = ([], xs)"
| "deque_run n (c # cs) xs =
     (let (a, ys) = deque_step n c xs; (as, zs) = deque_run n cs ys in (a # as, zs))"

fun run_all :: "('c \<Rightarrow> 's \<Rightarrow> ('b \<times> 's) res) \<Rightarrow> 'c list \<Rightarrow> 's \<Rightarrow> ('b list \<times> 's) res" where
  "run_all f [] s = Inr ([], s)"
| "run_all f (c # cs) s = bindR (f c s) (\<lambda>(a, s1). bindR (run_all f cs s1) (\<lambda>(as, s2). Inr (a # as, s2)))"

locale deque_impl =
  fixes inv :: "'s \<Rightarrow> bool" and items :: "'s \<Rightarrow> 'a list" and room :: "'s \<Rightarrow> nat"
    and fits :: "'s \<Rightarrow> 'c \<Rightarrow> bool" and meaning :: "'c \<Rightarrow> 'a deque_op"
    and step :: "'c \<Rightarrow> 's \<Rightarrow> ('a answer \<times> 's) res"
  assumes step_ok: "inv s \<Longrightarrow> fits s c \<Longrightarrow>
      \<exists>s'. step c s = Inr (fst (deque_step (room s) (meaning c) (items s)), s') \<and> inv s' \<and>
           items s' = snd (deque_step (room s) (meaning c) (items s)) \<and> room s' = room s \<and> fits s' = fits s"
begin

lemma run_ok:
  "inv s \<Longrightarrow> \<forall>c\<in>set cs. fits s c \<Longrightarrow>
   \<exists>s'. run_all step cs s = Inr (fst (deque_run (room s) (map meaning cs) (items s)), s') \<and> inv s' \<and>
        items s' = snd (deque_run (room s) (map meaning cs) (items s)) \<and> room s' = room s"
proof (induction cs arbitrary: s)
  case (Cons c cs)
  obtain s1 where s1: "step c s = Inr (fst (deque_step (room s) (meaning c) (items s)), s1)" "inv s1"
      "items s1 = snd (deque_step (room s) (meaning c) (items s))" "room s1 = room s" "fits s1 = fits s"
    using step_ok [OF Cons.prems(1), of c] Cons.prems(2) by auto
  have "\<forall>c\<in>set cs. fits s1 c" using Cons.prems(2) s1(5) by simp
  from Cons.IH [OF s1(2) this] show ?case using s1 by (auto simp: split_beta Let_def)
qed simp

end

text \<open>As a queue it is first-in first-out: what goes in at the back comes out at the front, in order.\<close>

lemma deque_fifo:
  "length xs \<le> n \<Longrightarrow> deque_run n (map Push_back xs @ map (\<lambda>_. Pop) xs) [] =
   (map (\<lambda>_. Done True) xs @ map (\<lambda>x. Item (Some x)) xs, [])"
proof -
  have pops: "deque_run n (map (\<lambda>_. Pop) ys) ys = (map (\<lambda>x. Item (Some x)) ys, [])" for ys :: "'a list"
    by (induction ys) auto
  have "deque_run n (map Push_back zs @ map (\<lambda>_. Pop) ys) as = (map (\<lambda>_. Done True) zs @ map (\<lambda>x. Item (Some x)) ys, [])"
    if "as @ zs = ys" "length ys \<le> n" for as zs ys :: "'a list"
    using that
  proof (induction zs arbitrary: as)
    case (Cons z zs)
    from Cons.IH [of "as @ [z]"] Cons.prems show ?case by auto
  qed (simp add: pops)
  from this [of "[]" xs xs] show "length xs \<le> n \<Longrightarrow> ?thesis" by simp
qed

section \<open>The slots of the storage area\<close>

definition cell :: "nat \<Rightarrow> 'a list \<Rightarrow> nat \<Rightarrow> 'a list" where
  "cell d m i = take d (drop (i * d) m)"

lemma cell_bound: "i < n \<Longrightarrow> length m = n * d \<Longrightarrow> i * d + d \<le> length m"
proof -
  assume "i < n" "length m = n * d"
  then have "Suc i * d \<le> n * d" by (intro mult_le_mono1) simp
  then show ?thesis using \<open>length m = n * d\<close> by (simp add: add.commute)
qed

lemma cell_put:
  assumes "length m = n * d" and "length x = d" and "j < n" and "i < n"
  shows "cell d (mem_put m (j * d) x) i = (if i = j then x else cell d m i)"
proof (cases "i = j")
  case True
  then show ?thesis using cell_bound [OF assms(3,1)] assms(2) by (simp add: cell_def mem_put_def)
next
  case False
  have len: "length (mem_put m (j * d) x) = length m" using cell_bound [OF assms(3,1)] assms(2) by simp
  have b: "i * d + d \<le> length m" by (rule cell_bound [OF assms(4,1)])
  show ?thesis
  proof (rule nth_equalityI)
    fix p assume "p < length (cell d (mem_put m (j * d) x) i)"
    then have p: "p < d" by (simp add: cell_def)
    have "i * d + p < j * d \<or> j * d + d \<le> i * d + p"
    proof (cases "i < j")
      case True
      then have "Suc i * d \<le> j * d" by (intro mult_le_mono1) simp
      then show ?thesis using p by simp
    next
      case F: False
      then have "Suc j * d \<le> i * d" using False by (intro mult_le_mono1) simp
      then show ?thesis by simp
    qed
    then show "cell d (mem_put m (j * d) x) i ! p = (if i = j then x else cell d m i) ! p"
      using False p b cell_bound [OF assms(3,1)] assms(2) len
      by (simp add: cell_def nth_mem_put_out)
  qed (use False b len in \<open>simp add: cell_def\<close>)
qed

section \<open>The ring of slots\<close>

definition read_slot :: "Queue_t \<Rightarrow> nat" where
  "read_slot q = nat (pcReadFrom q) div uxItemSize q"

definition item_at :: "Queue_t \<Rightarrow> nat \<Rightarrow> u8 list" where
  "item_at q i = cell (uxItemSize q) (storage q) ((read_slot q + 1 + i) mod uxLength q)"

definition queue_items :: "Queue_t \<Rightarrow> u8 list list" where
  "queue_items q = map (item_at q) [0..<uxMessagesWaiting q]"

definition queue_inv :: "Queue_t \<Rightarrow> bool" where
  "queue_inv q \<longleftrightarrow>
     \<not> is_mutex q \<and> 0 < uxLength q \<and> uxMessagesWaiting q \<le> uxLength q \<and>
     length (storage q) = uxLength q * uxItemSize q \<and> uxLength q * uxItemSize q < 2 ^ 32 \<and> pcTail q = int (uxLength q * uxItemSize q) \<and>
     read_slot q < uxLength q \<and> pcReadFrom q = int (read_slot q * uxItemSize q) \<and>
     pcWriteTo q = int ((read_slot q + 1 + uxMessagesWaiting q) mod uxLength q * uxItemSize q)"

lemma queue_invD:
  assumes "queue_inv q"
  shows "\<not> is_mutex q" "0 < uxLength q" "uxMessagesWaiting q \<le> uxLength q"
    "length (storage q) = uxLength q * uxItemSize q" "pcTail q = int (uxLength q * uxItemSize q)"
    "read_slot q < uxLength q" "pcReadFrom q = int (read_slot q * uxItemSize q)"
    "pcWriteTo q = int ((read_slot q + 1 + uxMessagesWaiting q) mod uxLength q * uxItemSize q)"
    "uxLength q * uxItemSize q < 2 ^ 32"
  using assms by (simp_all add: queue_inv_def)

lemma queue_items_length [simp]: "length (queue_items q) = uxMessagesWaiting q"
  by (simp add: queue_items_def)

text \<open>The invariant and the items from the slot read last, the count and the cells.\<close>

lemma queue_invI:
  assumes "\<not> is_mutex q" "0 < uxLength q" "uxMessagesWaiting q \<le> uxLength q"
    "length (storage q) = uxLength q * uxItemSize q" "pcTail q = int (uxLength q * uxItemSize q)"
    "r < uxLength q" "pcReadFrom q = int (r * uxItemSize q)"
    "pcWriteTo q = int ((r + 1 + uxMessagesWaiting q) mod uxLength q * uxItemSize q)"
    "uxLength q * uxItemSize q < 2 ^ 32"
  shows "queue_inv q" "uxItemSize q \<noteq> 0 \<Longrightarrow> read_slot q = r"
proof -
  show "uxItemSize q \<noteq> 0 \<Longrightarrow> read_slot q = r" using assms(7) by (simp add: read_slot_def nat_mult_distrib)
  then show "queue_inv q" using assms by (cases "uxItemSize q = 0") (auto simp: queue_inv_def read_slot_def)
qed

lemma size32_exact: "n * d < 2 ^ 32 \<Longrightarrow> size32 n d = int (n * d)"
proof -
  assume "n * d < 2 ^ 32"
  then have "take_bit LENGTH(32) (n * d) = n * d" by (simp add: take_bit_nat_eq_self)
  moreover have "size32 n d = uint (of_nat (n * d) :: u32)" by (simp add: size32_def)
  ultimately show ?thesis by (simp only: unsigned_of_nat)
qed

lemma size32_pred: "n * d < 2 ^ 32 \<Longrightarrow> size32 (n - 1) d = int ((n - 1) * d)"
  by (rule size32_exact) (meson diff_le_self le_less_trans mult_le_mono1)

lemma item_at_length: "queue_inv q \<Longrightarrow> length (item_at q i) = uxItemSize q"
  using cell_bound [of "(read_slot q + 1 + i) mod uxLength q" "uxLength q" "storage q" "uxItemSize q"]
  by (simp add: item_at_def cell_def queue_inv_def)

lemma slot_next: "r < (n::nat) \<Longrightarrow> (if n \<le> r + 1 then 0 else r + 1) = (r + 1) mod n"
  by (cases "r + 1 = n") auto

lemma slot_prev: "r < (n::nat) \<Longrightarrow> ((if r = 0 then n - 1 else r - 1) + 1 + i) mod n = (r + i) mod n"
  by (cases r) (auto simp: mod_add_self1)

lemma slot_inj_le: "i \<le> j \<Longrightarrow> j < (n::nat) \<Longrightarrow> (a + j) mod n = (a + i) mod n \<Longrightarrow> i = j"
  using mod_eq_dvd_iff_nat [of "a + i" "a + j" n] nat_dvd_not_less [of "j - i" n] by fastforce

lemma slot_inj: "i < (n::nat) \<Longrightarrow> j < n \<Longrightarrow> (a + i) mod n = (a + j) mod n \<longleftrightarrow> i = j"
  using slot_inj_le [of i j n a] slot_inj_le [of j i n a] by (cases "i \<le> j") auto

section \<open>Copying refines the list operations\<close>

text \<open>What no copy changes.\<close>

definition same_queue :: "Queue_t \<Rightarrow> Queue_t \<Rightarrow> bool" where
  "same_queue q q' \<longleftrightarrow>
     uxLength q' = uxLength q \<and> uxItemSize q' = uxItemSize q \<and> is_mutex q' = is_mutex q \<and>
     xTasksWaitingToSend q' = xTasksWaitingToSend q \<and> xTasksWaitingToReceive q' = xTasksWaitingToReceive q \<and>
     cRxLock q' = cRxLock q \<and> cTxLock q' = cTxLock q"

lemma no_bytes: "queue_inv q \<Longrightarrow> uxItemSize q = 0 \<Longrightarrow> queue_items q = replicate (uxMessagesWaiting q) []"
  by (intro replicate_eqI) (auto simp: queue_items_def item_at_def cell_def)

lemma count_inv: "queue_inv q \<Longrightarrow> uxItemSize q = 0 \<Longrightarrow> n \<le> uxLength q \<Longrightarrow> queue_inv (q\<lparr>uxMessagesWaiting := n\<rparr>)"
  by (simp add: queue_inv_def read_slot_def)

lemma copy_in_slot:
  assumes "queue_inv q" and "length x = uxItemSize q" and "j < uxLength q"
  shows "copy_in (int (j * uxItemSize q)) x q = Inr (q\<lparr>storage := mem_put (storage q) (j * uxItemSize q) x\<rparr>)"
  using cell_bound [OF assms(3) queue_invD(4) [OF assms(1)]] assms(2) by (simp add: copy_in_def del: of_nat_mult)

lemma copy_back:
  assumes q: "queue_inv q" and n: "uxMessagesWaiting q < uxLength q" and x: "length x = uxItemSize q"
  shows "\<exists>q'. prvCopyDataToQueue x queueSEND_TO_BACK q k = Inr (False, q', k) \<and> queue_inv q' \<and>
    queue_items q' = queue_items q @ [x] \<and> same_queue q q'"
proof (cases "uxItemSize q = 0")
  case True
  let ?q = "q\<lparr>uxMessagesWaiting := uxMessagesWaiting q + 1\<rparr>"
  have "queue_inv ?q" using count_inv [OF q True] n by simp
  moreover have "queue_items ?q = queue_items q @ [x]"
    using no_bytes [OF \<open>queue_inv ?q\<close>] no_bytes [OF q True] True x by (simp add: replicate_append_same)
  ultimately show ?thesis
    using True queue_invD(1) [OF q] by (simp add: prvCopyDataToQueue_def same_queue_def)
next
  case False
  note d = queue_invD [OF q]
  let ?d = "uxItemSize q" and ?n = "uxMessagesWaiting q" and ?len = "uxLength q" and ?r = "read_slot q"
  define w where "w = (?r + 1 + ?n) mod ?len"
  define q' where "q' = q\<lparr>storage := mem_put (storage q) (w * ?d) x, pcWriteTo := int ((w + 1) mod ?len * ?d), uxMessagesWaiting := ?n + 1\<rparr>"
  have w: "w < ?len" using d(2) by (simp add: w_def)
  have wrap: "(if int (?len * ?d) \<le> int (w * ?d) + int ?d then 0 else int (w * ?d) + int ?d) = int ((w + 1) mod ?len * ?d)"
  proof -
    have "int (?len * ?d) \<le> int (w * ?d) + int ?d \<longleftrightarrow> ?len * ?d \<le> (w + 1) * ?d" by (simp add: algebra_simps flip: of_nat_add of_nat_mult)
    also have "\<dots> \<longleftrightarrow> ?len \<le> w + 1" using False by (simp only: mult_le_cancel2) simp
    finally show ?thesis using slot_next [OF w] by (auto simp: algebra_simps)
  qed
  have pw: "pcWriteTo q = int (w * ?d)" using d(8) by (simp only: w_def)
  have run: "prvCopyDataToQueue x queueSEND_TO_BACK q k = Inr (False, q', k)"
    using False copy_in_slot [OF q x w] wrap d(5) pw
    by (simp add: prvCopyDataToQueue_def Let_def q'_def del: of_nat_mult split: if_splits)
  have wn: "(w + 1) mod ?len = (?r + 1 + (?n + 1)) mod ?len" by (simp add: w_def mod_simps add.assoc)
  have len: "length (mem_put (storage q) (w * ?d) x) = ?len * ?d" using cell_bound [OF w d(4)] x d(4) by simp
  have inv: "queue_inv q'" and r: "read_slot q' = ?r"
    using queue_invI [of q' ?r] d n wn len False by (simp_all add: q'_def)
  have at: "item_at q' i = (if i = ?n then x else item_at q i)" if "i \<le> ?n" for i
  proof -
    have "cell ?d (storage q') ((?r + 1 + i) mod ?len) = (if (?r + 1 + i) mod ?len = w then x else cell ?d (storage q) ((?r + 1 + i) mod ?len))"
      using cell_put [OF d(4) x w, of "(?r + 1 + i) mod ?len"] d(2) by (simp add: q'_def)
    moreover have "(?r + 1 + i) mod ?len = w \<longleftrightarrow> i = ?n" unfolding w_def by (rule slot_inj) (use that n in simp_all)
    ultimately show ?thesis unfolding item_at_def r by (simp add: q'_def)
  qed
  have "queue_items q' = queue_items q @ [x]" using at by (simp add: queue_items_def) (simp add: q'_def at)
  then show ?thesis using run inv by (auto simp: same_queue_def q'_def)
qed

text \<open>At the front: the slot read last takes the item, and the one before becomes the slot read last.\<close>

lemma copy_front:
  assumes q: "queue_inv q" and x: "length x = uxItemSize q" and p: "pos \<noteq> queueSEND_TO_BACK"
    and d0: "uxItemSize q \<noteq> 0"
    and n: "n = (if pos = queueOVERWRITE \<and> 0 < uxMessagesWaiting q then uxMessagesWaiting q - 1 else uxMessagesWaiting q)"
    and room: "n < uxLength q" and one: "pos = queueOVERWRITE \<Longrightarrow> uxLength q = 1"
  shows "\<exists>q'. prvCopyDataToQueue x pos q k = Inr (False, q', k) \<and> queue_inv q' \<and>
    queue_items q' = x # take n (queue_items q) \<and> same_queue q q'"
proof -
  note d = queue_invD [OF q]
  let ?d = "uxItemSize q" and ?len = "uxLength q" and ?r = "read_slot q"
  define r where "r = (if ?r = 0 then ?len - 1 else ?r - 1)"
  define q' where "q' = q\<lparr>storage := mem_put (storage q) (?r * ?d) x, pcReadFrom := int (r * ?d), uxMessagesWaiting := n + 1\<rparr>"
  have r: "r < ?len" using d(6) unfolding r_def by arith
  have wrap: "(if int (?r * ?d) - int ?d < 0 then int (?len * ?d) - int ?d else int (?r * ?d) - int ?d) = int (r * ?d)"
    using d0 d(2) by (cases ?r; cases ?len) (simp_all add: r_def algebra_simps mult_less_0_iff)
  have run: "prvCopyDataToQueue x pos q k = Inr (False, q', k)"
    using d0 copy_in_slot [OF q x d(6)] wrap d(5,7) p n
    by (simp add: prvCopyDataToQueue_def Let_def q'_def del: of_nat_mult split: if_splits)
  have next_slot: "(r + 1 + i) mod ?len = (?r + i) mod ?len" for i unfolding r_def by (rule slot_prev [OF d(6)])
  have len: "length (mem_put (storage q) (?r * ?d) x) = ?len * ?d" using cell_bound [OF d(6,4)] x d(4) by simp
  have same_len: "(?r + 1 + n) mod ?len = (?r + 1 + uxMessagesWaiting q) mod ?len" using n one by auto
  then have w: "(r + 1 + (n + 1)) mod ?len = (?r + 1 + uxMessagesWaiting q) mod ?len"
    using next_slot [of "n + 1"] by (simp add: add.assoc)
  have inv: "queue_inv q'" and r': "read_slot q' = r"
    using queue_invI [of q' r] d w len r room d0 by (simp_all add: q'_def)
  have at: "item_at q' i = (if i = 0 then x else item_at q (i - 1))" if "i \<le> n" for i
  proof -
    have "item_at q' i = cell ?d (mem_put (storage q) (?r * ?d) x) ((?r + i) mod ?len)"
      unfolding item_at_def r' using next_slot [of i] by (simp add: q'_def)
    also have "\<dots> = (if (?r + i) mod ?len = ?r then x else cell ?d (storage q) ((?r + i) mod ?len))"
      using cell_put [OF d(4) x d(6)] d(2) by simp
    also have "(?r + i) mod ?len = ?r \<longleftrightarrow> i = 0"
      using slot_inj [of i ?len 0 ?r] that room d(2,6) by simp
    finally show ?thesis by (cases i) (simp_all add: item_at_def)
  qed
  have "queue_items q' = x # map (item_at q) [0..<n]"
  proof -
    have "queue_items q' = map (item_at q') [0..<Suc n]" by (simp add: queue_items_def q'_def del: upt_Suc)
    also have "\<dots> = x # map (item_at q) [0..<n]" using at by (simp add: map_upt_Suc del: upt_Suc)
    finally show ?thesis .
  qed
  moreover have "map (item_at q) [0..<n] = take n (queue_items q)" using n by (auto simp: queue_items_def take_map)
  ultimately show ?thesis using run inv by (auto simp: same_queue_def q'_def)
qed

lemma copy_front_empty:
  assumes q: "queue_inv q" and d: "uxItemSize q = 0" and n: "uxMessagesWaiting q < uxLength q"
  shows "\<exists>q'. prvCopyDataToQueue [] pos q k = Inr (False, q', k) \<and> queue_inv q' \<and>
    queue_items q' = [] # queue_items q \<and> same_queue q q'"
proof -
  let ?q = "q\<lparr>uxMessagesWaiting := uxMessagesWaiting q + 1\<rparr>"
  have "queue_inv ?q" using count_inv [OF q d] n by simp
  moreover have "queue_items ?q = [] # queue_items q"
    using no_bytes [OF \<open>queue_inv ?q\<close>] no_bytes [OF q d] d by simp
  ultimately show ?thesis
    using d queue_invD(1) [OF q] by (simp add: prvCopyDataToQueue_def same_queue_def)
qed

text \<open>The first item is read; with the count lowered it is gone.\<close>

lemma copy_out:
  assumes q: "queue_inv q" and n: "0 < uxMessagesWaiting q"
  shows "\<exists>q'. prvCopyDataFromQueue q = Inr (hd (queue_items q), q') \<and> q'\<lparr>pcReadFrom := pcReadFrom q\<rparr> = q \<and>
    queue_inv (q'\<lparr>uxMessagesWaiting := uxMessagesWaiting q - 1\<rparr>) \<and>
    queue_items (q'\<lparr>uxMessagesWaiting := uxMessagesWaiting q - 1\<rparr>) = tl (queue_items q) \<and> same_queue q q'"
proof (cases "uxItemSize q = 0")
  case True
  let ?q = "q\<lparr>uxMessagesWaiting := uxMessagesWaiting q - 1\<rparr>"
  have inv: "queue_inv ?q" using count_inv [OF q True] queue_invD(3) [OF q] by simp
  have "queue_items ?q = tl (queue_items q)" "hd (queue_items q) = []"
    using no_bytes [OF inv] no_bytes [OF q True] True n by (cases "uxMessagesWaiting q"; simp)+
  then show ?thesis using True inv by (simp add: prvCopyDataFromQueue_def same_queue_def)
next
  case False
  note d = queue_invD [OF q]
  let ?d = "uxItemSize q" and ?len = "uxLength q" and ?r = "read_slot q" and ?n = "uxMessagesWaiting q"
  define r where "r = (?r + 1) mod ?len"
  define q' where "q' = q\<lparr>pcReadFrom := int (r * ?d)\<rparr>"
  have r: "r < ?len" using d(2) by (simp add: r_def)
  have wrap: "(if int (?len * ?d) \<le> int (?r * ?d) + int ?d then 0 else int (?r * ?d) + int ?d) = int (r * ?d)"
  proof -
    have "int (?len * ?d) \<le> int (?r * ?d) + int ?d \<longleftrightarrow> ?len * ?d \<le> (?r + 1) * ?d" by (simp add: algebra_simps flip: of_nat_add of_nat_mult)
    also have "\<dots> \<longleftrightarrow> ?len \<le> ?r + 1" using False by (simp only: mult_le_cancel2) simp
    finally show ?thesis using slot_next [OF d(6)] unfolding r_def by (auto simp: algebra_simps)
  qed
  have first: "hd (queue_items q) = cell ?d (storage q) r"
    using n by (cases ?n) (simp_all add: queue_items_def item_at_def r_def upt_conv_Cons del: upt_Suc)
  have run: "prvCopyDataFromQueue q = Inr (hd (queue_items q), q')"
  proof -
    have "prvCopyDataFromQueue q = bindR (mem_read (storage q) (nat (int (r * ?d))) ?d) (\<lambda>bytes. Inr (bytes, q'))"
      using False unfolding prvCopyDataFromQueue_def d(5,7) Let_def wrap q'_def by (simp del: of_nat_mult)
    also have "\<dots> = Inr (hd (queue_items q), q')"
      using cell_bound [OF r d(4)] unfolding first cell_def nat_int by (simp del: of_nat_mult)
    finally show ?thesis .
  qed
  let ?q = "q'\<lparr>uxMessagesWaiting := ?n - 1\<rparr>"
  have w: "(r + 1 + (?n - 1)) mod ?len = (?r + 1 + ?n) mod ?len" using n by (simp add: r_def mod_simps add.commute)
  have inv: "queue_inv ?q" and r': "read_slot ?q = r"
    using queue_invI [of ?q r] d w r False by (simp_all add: q'_def)
  have "item_at ?q i = item_at q (Suc i)" for i
  proof -
    have "(r + 1 + i) mod ?len = (?r + 1 + Suc i) mod ?len"
      using mod_add_left_eq [of "?r + 1" ?len "1 + i"] by (simp add: r_def)
    then show ?thesis unfolding item_at_def r' by (simp add: q'_def)
  qed
  then have "queue_items ?q = tl (queue_items q)"
    by (cases ?n) (simp_all add: queue_items_def q'_def upt_conv_Cons map_Suc_upt [symmetric] comp_def del: upt_Suc)
  then show ?thesis using run inv by (simp add: same_queue_def q'_def)
qed

section \<open>The calls\<close>

datatype queue_call =
    Send_call "u8 list" position | Send_isr "u8 list" position | Give_isr_call
  | Receive_call | Receive_isr | Peek_call | Peek_isr | Take_call | Reset_call

definition finished :: "('a \<Rightarrow> 'b) \<Rightarrow> ('a outcome \<times> Queue_t \<times> kernel) res \<Rightarrow> ('b \<times> Queue_t \<times> kernel) res" where
  "finished f m = bindR m (\<lambda>(r, q, k). case r of Finished a \<Rightarrow> Inr (f a, q, k) | Must_wait _ \<Rightarrow> Inl No_return)"

fun queue_step :: "queue_call \<Rightarrow> Queue_t \<times> kernel \<Rightarrow> (u8 list answer \<times> Queue_t \<times> kernel) res" where
  "queue_step (Send_call x p) (q, k) = finished Done (xQueueGenericSend_now (Some x) p q k)"
| "queue_step (Send_isr x p) (q, k) =
     bindR (xQueueGenericSendFromISR (Some x) p False q k) (\<lambda>(b, q1, k1, _). Inr (Done b, q1, k1))"
| "queue_step Give_isr_call (q, k) =
     bindR (xQueueGiveFromISR False q k) (\<lambda>(b, q1, k1, _). Inr (Done b, q1, k1))"
| "queue_step Receive_call (q, k) =
     bindR (receive_asserts False 0 q k) (\<lambda>_. finished Item (xQueueReceive_try 0 None q k))"
| "queue_step Receive_isr (q, k) =
     bindR (xQueueReceiveFromISR False False q k) (\<lambda>(x, q1, k1, _). Inr (Item x, q1, k1))"
| "queue_step Peek_call (q, k) =
     bindR (receive_asserts False 0 q k) (\<lambda>_. finished Item (xQueuePeek_try 0 None q k))"
| "queue_step Peek_isr (q, k) = bindR (xQueuePeekFromISR False q) (\<lambda>x. Inr (Item x, q, k))"
| "queue_step Take_call (q, k) =
     bindR (take_asserts 0 q k) (\<lambda>_.
     finished (\<lambda>b. Item (if b then Some [] else None)) (xQueueSemaphoreTake_try False 0 None q k))"
| "queue_step Reset_call (q, k) = bindR (xQueueGenericReset False q k) (\<lambda>s. Inr (Done True, s))"

definition push_at :: "position \<Rightarrow> 'a \<Rightarrow> 'a deque_op" where
  "push_at p x =
     (case p of queueSEND_TO_BACK \<Rightarrow> Push_back x | queueSEND_TO_FRONT \<Rightarrow> Push_front x | queueOVERWRITE \<Rightarrow> Overwrite x)"

fun call_meaning :: "queue_call \<Rightarrow> u8 list deque_op" where
  "call_meaning (Send_call x p) = push_at p x"
| "call_meaning (Send_isr x p) = push_at p x"
| "call_meaning Give_isr_call = Push_back []"
| "call_meaning Receive_call = Pop"
| "call_meaning Receive_isr = Pop"
| "call_meaning Peek_call = Look"
| "call_meaning Peek_isr = Look"
| "call_meaning Take_call = Pop"
| "call_meaning Reset_call = Clear"

text \<open>What the assertions ask for, and no overwriting where there is no data.\<close>

fun call_fits :: "nat \<Rightarrow> nat \<Rightarrow> queue_call \<Rightarrow> bool" where
  "call_fits n d (Send_call x p) = (length x = d \<and> (p = queueOVERWRITE \<longrightarrow> n = 1 \<and> d \<noteq> 0))"
| "call_fits n d (Send_isr x p) = (length x = d \<and> (p = queueOVERWRITE \<longrightarrow> n = 1 \<and> d \<noteq> 0))"
| "call_fits n d Give_isr_call = (d = 0)"
| "call_fits n d Take_call = (d = 0)"
| "call_fits n d Peek_isr = (d \<noteq> 0)"
| "call_fits n d _ = True"

lemma ok_wake: "kernel_ok k \<Longrightarrow> \<exists>y k1. wake_waiting l k = Inr (y, k1) \<and> kernel_ok k1"
proof (cases "xEventLists k l")
  case (Cons t ts)
  assume k: "kernel_ok k"
  obtain y k1 where "xTaskRemoveFromEventList l k = Inr (y, k1)"
  proof -
    define k1 where "k1 = remove_event_item t k"
    define k2 where "k2 = (if uxSchedulerSuspended k1 = 0 then prvAddTaskToReadyList t (remove_state_item t k1) else pend_ready t k1)"
    have k1: "kernel_ok k1" using k by (simp add: k1_def)
    have k2: "kernel_ok k2" using ok_move [OF k1] k1 by (simp add: k2_def)
    obtain c where "current k2 = Inr c" using ok_current [OF k2] by blast
    then show ?thesis using that unfolding xTaskRemoveFromEventList_def Cons list.case Let_def k1_def [symmetric] k2_def [symmetric]
      by (cases "prio k2 c < prio k2 t") auto
  qed
  then show ?thesis using ok_remove_event [OF k] Cons by (auto simp: wake_waiting_def)
qed (auto simp: wake_waiting_def)

lemma ok_wake_yield: "kernel_ok k \<Longrightarrow> \<exists>k1. wake_and_yield l k = Inr k1 \<and> kernel_ok k1"
  using ok_wake [of k l] by (auto simp: wake_and_yield_def)

text \<open>One copy in, whichever end.\<close>

lemma copy_in_meaning:
  assumes q: "queue_inv q" and f: "call_fits (uxLength q) (uxItemSize q) (Send_call x p)"
    and room: "uxMessagesWaiting q < uxLength q \<or> p = queueOVERWRITE"
  shows "\<exists>q'. prvCopyDataToQueue x p q k = Inr (False, q', k) \<and> queue_inv q' \<and> same_queue q q' \<and>
    deque_step (uxLength q) (push_at p x) (queue_items q) = (Done True, queue_items q')"
proof (cases "p = queueSEND_TO_BACK")
  case True
  then show ?thesis using copy_back [OF q, of x k] f room by (auto simp: push_at_def)
next
  case False
  show ?thesis
  proof (cases "uxItemSize q = 0")
    case True
    then show ?thesis using copy_front_empty [OF q True, of p k] f room False by (cases p) (auto simp: push_at_def)
  next
    case d: False
    define n where "n = (if p = queueOVERWRITE \<and> 0 < uxMessagesWaiting q then uxMessagesWaiting q - 1 else uxMessagesWaiting q)"
    have "n < uxLength q" using room queue_invD(2,3) [OF q] by (auto simp: n_def)
    moreover have "take n (queue_items q) = (if p = queueOVERWRITE then [] else queue_items q)"
      using f queue_invD(3) [OF q] by (auto simp: n_def)
    ultimately show ?thesis
      using copy_front [OF q _ False d n_def, of x k] f room False by (cases p) (auto simp: push_at_def)
  qed
qed

lemma lock_frames [simp]:
  "queue_inv (q\<lparr>cTxLock := c\<rparr>) = queue_inv q" "queue_items (q\<lparr>cTxLock := c\<rparr>) = queue_items q"
  "queue_inv (q\<lparr>cRxLock := c\<rparr>) = queue_inv q" "queue_items (q\<lparr>cRxLock := c\<rparr>) = queue_items q"
  by (simp_all add: queue_inv_def queue_items_def item_at_def [abs_def] read_slot_def)

lemma ok_isr_posted:
  "kernel_ok k \<Longrightarrow> \<exists>q' k' y. isr_posted w q k = Inr (q', k', y) \<and> kernel_ok k' \<and> (q' = q \<or> q' = q\<lparr>cTxLock := cTxLock q + 1\<rparr>)"
  using ok_wake [of k "xTasksWaitingToReceive q"] by (auto simp: isr_posted_def)

text \<open>The state after a call and its answer are those of the list.\<close>

definition refined :: "Queue_t \<Rightarrow> u8 list deque_op \<Rightarrow> (u8 list answer \<times> Queue_t \<times> kernel) res \<Rightarrow> bool" where
  "refined q c m \<longleftrightarrow> (\<exists>q' k'. m = Inr (fst (deque_step (uxLength q) c (queue_items q)), q', k') \<and> queue_inv q' \<and> kernel_ok k' \<and>
     queue_items q' = snd (deque_step (uxLength q) c (queue_items q)) \<and> uxLength q' = uxLength q \<and> uxItemSize q' = uxItemSize q)"

lemma full_push: "queue_inv q \<Longrightarrow> \<not> uxMessagesWaiting q < uxLength q \<Longrightarrow> p \<noteq> queueOVERWRITE \<Longrightarrow>
  deque_step (uxLength q) (push_at p x) (queue_items q) = (Done False, queue_items q)"
  by (cases p) (auto simp: push_at_def)

lemma send_now_refined:
  assumes q: "queue_inv q" and k: "kernel_ok k" and f: "call_fits (uxLength q) (uxItemSize q) (Send_call x p)"
  shows "refined q (push_at p x) (finished Done (xQueueGenericSend_now (Some x) p q k))"
proof (cases "uxMessagesWaiting q < uxLength q \<or> p = queueOVERWRITE")
  case True
  obtain q' where q': "prvCopyDataToQueue x p q k = Inr (False, q', k)" "queue_inv q'" "same_queue q q'"
      "deque_step (uxLength q) (push_at p x) (queue_items q) = (Done True, queue_items q')"
    using copy_in_meaning [OF q f True] by blast
  obtain k1 where k1: "wake_and_yield (xTasksWaitingToReceive q') k = Inr k1" "kernel_ok k1" using ok_wake_yield [OF k] by blast
  have "xQueueGenericSend_now (Some x) p q k = Inr (Finished True, q', if xEventLists k (xTasksWaitingToReceive q') \<noteq> [] then k1 else k)"
    using f q'(1) k1(1) True by (auto simp: xQueueGenericSend_now_def send_asserts_def xQueueGenericSend_try_def sent_bytes_def)
  then show ?thesis using q' k1(2) k by (auto simp: refined_def finished_def same_queue_def)
next
  case False
  then have "xQueueGenericSend_now (Some x) p q k = Inr (Finished False, q, k)"
    using f by (simp add: xQueueGenericSend_now_def send_asserts_def xQueueGenericSend_try_def)
  then show ?thesis using full_push [OF q, of p x] False q k by (simp add: refined_def finished_def)
qed

lemma send_isr_refined:
  assumes q: "queue_inv q" and k: "kernel_ok k" and f: "call_fits (uxLength q) (uxItemSize q) (Send_isr x p)"
  shows "refined q (push_at p x) (queue_step (Send_isr x p) (q, k))"
proof (cases "uxMessagesWaiting q < uxLength q \<or> p = queueOVERWRITE")
  case True
  obtain q' where q': "prvCopyDataToQueue x p q k = Inr (False, q', k)" "queue_inv q'" "same_queue q q'"
      "deque_step (uxLength q) (push_at p x) (queue_items q) = (Done True, queue_items q')"
    using copy_in_meaning [OF q _ True] f by auto
  obtain q1 k1 y where k1: "isr_posted False q' k = Inr (q1, k1, y)" "kernel_ok k1" "q1 = q' \<or> q1 = q'\<lparr>cTxLock := cTxLock q' + 1\<rparr>"
    using ok_isr_posted [OF k] by blast
  have "queue_step (Send_isr x p) (q, k) = Inr (Done True, q1, k1)"
    using f q'(1) k1(1) True by (auto simp: xQueueGenericSendFromISR_def sent_bytes_def)
  then show ?thesis using q' k1(2,3) by (auto simp: refined_def same_queue_def)
next
  case False
  then have "queue_step (Send_isr x p) (q, k) = Inr (Done False, q, k)" using f by (simp add: xQueueGenericSendFromISR_def)
  then show ?thesis using full_push [OF q, of p x] False q k by (simp add: refined_def)
qed

lemma give_isr_refined:
  assumes q: "queue_inv q" and k: "kernel_ok k" and d: "uxItemSize q = 0"
  shows "refined q (Push_back []) (queue_step Give_isr_call (q, k))"
proof (cases "uxMessagesWaiting q < uxLength q")
  case True
  let ?q = "q\<lparr>uxMessagesWaiting := uxMessagesWaiting q + 1\<rparr>"
  obtain q1 k1 y where k1: "isr_posted False ?q k = Inr (q1, k1, y)" "kernel_ok k1" "q1 = ?q \<or> q1 = ?q\<lparr>cTxLock := cTxLock ?q + 1\<rparr>"
    using ok_isr_posted [OF k] by blast
  have inv: "queue_inv ?q" using count_inv [OF q d] True by simp
  have items: "queue_items ?q = queue_items q @ [[]]"
    using no_bytes [OF inv] no_bytes [OF q d] d by (simp add: replicate_append_same)
  have "queue_step Give_isr_call (q, k) = Inr (Done True, q1, k1)"
    using d k1(1) True queue_invD(1) [OF q] by (simp add: xQueueGiveFromISR_def)
  moreover have "queue_inv q1" "queue_items q1 = queue_items q @ [[]]" "uxLength q1 = uxLength q" "uxItemSize q1 = uxItemSize q"
    using k1(3) inv items by auto
  ultimately show ?thesis using True k1(2) by (simp add: refined_def)
next
  case False
  then have "queue_step Give_isr_call (q, k) = Inr (Done False, q, k)"
    using d queue_invD(1) [OF q] by (simp add: xQueueGiveFromISR_def)
  then show ?thesis using False q k by (simp add: refined_def)
qed

lemma pop_cases:
  assumes q: "queue_inv q"
  obtains (empty) "uxMessagesWaiting q = 0" "queue_items q = []"
  | (some) x xs q' where "0 < uxMessagesWaiting q" "queue_items q = x # xs" "prvCopyDataFromQueue q = Inr (x, q')"
      "q'\<lparr>pcReadFrom := pcReadFrom q\<rparr> = q" "queue_inv (q'\<lparr>uxMessagesWaiting := uxMessagesWaiting q - 1\<rparr>)"
      "queue_items (q'\<lparr>uxMessagesWaiting := uxMessagesWaiting q - 1\<rparr>) = xs" "same_queue q q'"
proof (cases "uxMessagesWaiting q")
  case 0
  then have "queue_items q = []" by (simp add: queue_items_def)
  then show ?thesis using empty 0 by blast
next
  case (Suc n)
  then have "0 < uxMessagesWaiting q" by simp
  moreover obtain x xs where "queue_items q = x # xs" using Suc by (cases "queue_items q") (simp_all flip: queue_items_length)
  ultimately show ?thesis using some copy_out [OF q] by fastforce
qed

lemma receive_refined:
  assumes q: "queue_inv q" and k: "kernel_ok k"
  shows "refined q Pop (queue_step Receive_call (q, k))" "refined q Pop (queue_step Receive_isr (q, k))"
    "refined q Look (queue_step Peek_call (q, k))"
    "uxItemSize q \<noteq> 0 \<Longrightarrow> refined q Look (queue_step Peek_isr (q, k))"
proof -
  note s = receive_asserts_def xQueueReceive_try_def xQueuePeek_try_def finished_def refined_def Let_def
    xQueueReceiveFromISR_def xQueuePeekFromISR_def
  have "refined q Pop (queue_step Receive_call (q, k)) \<and> refined q Pop (queue_step Receive_isr (q, k)) \<and>
    refined q Look (queue_step Peek_call (q, k)) \<and> (uxItemSize q \<noteq> 0 \<longrightarrow> refined q Look (queue_step Peek_isr (q, k)))"
  proof (cases rule: pop_cases [OF q, case_names empty some])
    case empty
    then show ?thesis using q k by (simp add: s)
  next
    case (some x xs q')
    obtain k1 where k1: "wake_and_yield (xTasksWaitingToSend q') k = Inr k1" "kernel_ok k1" using ok_wake_yield [OF k] by blast
    obtain k2 where k2: "wake_and_yield (xTasksWaitingToReceive q') k = Inr k2" "kernel_ok k2" using ok_wake_yield [OF k] by blast
    obtain y k3 where k3: "wake_waiting (xTasksWaitingToSend q') k = Inr (y, k3)" "kernel_ok k3" using ok_wake [OF k] by blast
    show ?thesis using some k1 k2 k3 q k by (simp add: s same_queue_def)
  qed
  then show "refined q Pop (queue_step Receive_call (q, k))" "refined q Pop (queue_step Receive_isr (q, k))"
    "refined q Look (queue_step Peek_call (q, k))"
    "uxItemSize q \<noteq> 0 \<Longrightarrow> refined q Look (queue_step Peek_isr (q, k))" by blast+
qed

lemma take_refined:
  assumes q: "queue_inv q" and k: "kernel_ok k" and d: "uxItemSize q = 0"
  shows "refined q Pop (queue_step Take_call (q, k))"
proof (cases "uxMessagesWaiting q")
  case 0
  then have "queue_items q = []" by (simp add: queue_items_def)
  then show ?thesis using 0 q k d
    by (simp add: refined_def take_asserts_def xQueueSemaphoreTake_try_def finished_def)
next
  case (Suc n)
  let ?q = "q\<lparr>uxMessagesWaiting := n\<rparr>"
  obtain k1 where k1: "wake_and_yield (xTasksWaitingToSend q) k = Inr k1" "kernel_ok k1" using ok_wake_yield [OF k] by blast
  have inv: "queue_inv ?q" using count_inv [OF q d] queue_invD(3) [OF q] Suc by simp
  have items: "queue_items q = [] # queue_items ?q"
    using no_bytes [OF inv] no_bytes [OF q d] d Suc by simp
  show ?thesis using Suc inv items k1 d queue_invD(1) [OF q]
    by (simp add: refined_def take_asserts_def xQueueSemaphoreTake_try_def finished_def Let_def)
qed

lemma reset_refined:
  assumes q: "queue_inv q" and k: "kernel_ok k"
  shows "refined q Clear (queue_step Reset_call (q, k))"
proof -
  obtain k1 where k1: "wake_and_yield (xTasksWaitingToSend q) k = Inr k1" "kernel_ok k1" using ok_wake_yield [OF k] by blast
  define q' where "q' = q\<lparr>pcTail := int (uxLength q * uxItemSize q), uxMessagesWaiting := 0, pcWriteTo := 0,
    pcReadFrom := int ((uxLength q - 1) * uxItemSize q), cRxLock := queueUNLOCKED, cTxLock := queueUNLOCKED\<rparr>"
  have run: "queue_step Reset_call (q, k) = Inr (Done True, q', k1)"
    using k1(1) queue_invD(1) [OF q] size32_exact [OF queue_invD(9) [OF q]] size32_pred [OF queue_invD(9) [OF q]]
    by (simp add: xQueueGenericReset_def q'_def Let_def)
  have "queue_inv q'"
    using queue_invI(1) [of q' "uxLength q - 1"] queue_invD [OF q] by (simp add: q'_def)
  then show ?thesis using run k1(2) by (simp add: refined_def queue_items_def q'_def)
qed

lemma queue_step_refined:
  assumes q: "queue_inv q" and k: "kernel_ok k" and f: "call_fits (uxLength q) (uxItemSize q) c"
  shows "refined q (call_meaning c) (queue_step c (q, k))"
proof (cases c)
  case (Send_call x p)
  then show ?thesis using send_now_refined [OF q k] f by simp
next
  case (Send_isr x p)
  then show ?thesis using send_isr_refined [OF q k, of x p] f by simp
qed (use give_isr_refined [OF q k] receive_refined [OF q k] take_refined [OF q k] reset_refined [OF q k] f
  in \<open>simp_all del: queue_step.simps\<close>)

interpretation slots: deque_impl "\<lambda>(q, k). queue_inv q \<and> kernel_ok k" "queue_items \<circ> fst" "uxLength \<circ> fst"
  "\<lambda>(q, k). call_fits (uxLength q) (uxItemSize q)" call_meaning queue_step
proof unfold_locales
  fix s :: "Queue_t \<times> kernel" and c
  assume s: "case s of (q, k) \<Rightarrow> queue_inv q \<and> kernel_ok k" and c: "(case s of (q, k) \<Rightarrow> call_fits (uxLength q) (uxItemSize q)) c"
  then have "refined (fst s) (call_meaning c) (queue_step c s)"
    using queue_step_refined [of "fst s" "snd s" c] by (simp add: split_beta)
  then show "\<exists>s'. queue_step c s = Inr (fst (deque_step ((uxLength \<circ> fst) s) (call_meaning c) ((queue_items \<circ> fst) s)), s') \<and>
      (case s' of (q, k) \<Rightarrow> queue_inv q \<and> kernel_ok k) \<and>
      (queue_items \<circ> fst) s' = snd (deque_step ((uxLength \<circ> fst) s) (call_meaning c) ((queue_items \<circ> fst) s)) \<and>
      (uxLength \<circ> fst) s' = (uxLength \<circ> fst) s \<and>
      (case s' of (q, k) \<Rightarrow> call_fits (uxLength q) (uxItemSize q)) = (case s of (q, k) \<Rightarrow> call_fits (uxLength q) (uxItemSize q))"
    by (auto simp: refined_def split_beta)
qed

section \<open>A new queue\<close>

lemma ok_event_lists [simp]: "kernel_ok (k\<lparr>xEventLists := e\<rparr>) = kernel_ok k"
proof -
  have "lists_inv (k\<lparr>xEventLists := e\<rparr>) = lists_inv k"
    by (rule lists_inv_cong(1)) (simp_all add: prio_def waiting_def)
  moreover have "time_inv (k\<lparr>xEventLists := e\<rparr>) = time_inv k"
    by (rule time_inv_cong(2)) (simp_all add: wake_time_def)
  ultimately show ?thesis by (simp add: kernel_ok_def kernel_inv_def)
qed

text \<open>The storage a static queue needs: none without data, room for all items otherwise.\<close>

definition storage_fits :: "nat \<Rightarrow> nat \<Rightarrow> u8 list option \<Rightarrow> bool" where
  "storage_fits n d st = (n * d < 2 ^ 32 \<and> (case st of None \<Rightarrow> d = 0 | Some m \<Rightarrow> d \<noteq> 0 \<and> length m = n * d))"

lemma queue_created:
  assumes n: "0 < n" and st: "storage_fits n d st" and k: "kernel_ok k"
  shows "\<exists>q k'. xQueueGenericCreateStatic n d st (Some blank) k = Inr (q, k') \<and> queue_inv q \<and> kernel_ok k' \<and>
    uxLength q = n \<and> uxItemSize q = d \<and> queue_items q = [] \<and> cRxLock q = queueUNLOCKED \<and> cTxLock q = queueUNLOCKED"
proof -
  define m where "m = (case st of None \<Rightarrow> [] | Some m \<Rightarrow> m)"
  define q where "q = blank\<lparr>storage := m, is_mutex := False, uxLength := n, uxItemSize := d,
    pcTail := int (n * d), uxMessagesWaiting := 0, pcWriteTo := 0, pcReadFrom := int ((n - 1) * d),
    cRxLock := queueUNLOCKED, cTxLock := queueUNLOCKED\<rparr>"
  define k' where "k' = k\<lparr>xEventLists := (xEventLists k)(xTasksWaitingToSend blank := [], xTasksWaitingToReceive blank := [])\<rparr>"
  have "xQueueGenericCreateStatic n d st (Some blank) k = prvInitialiseNewQueue n d (blank\<lparr>storage := m\<rparr>) k"
    using n st by (auto simp: xQueueGenericCreateStatic_def storage_fits_def m_def split: option.splits)
  also have "\<dots> = Inr (q, k')" 
    using st size32_exact [of n d] size32_pred [of n d]
    by (simp add: prvInitialiseNewQueue_def xQueueGenericReset_def Let_def q_def k'_def storage_fits_def)
  finally have run: "xQueueGenericCreateStatic n d st (Some blank) k = Inr (q, k')" .
  have len: "length m = n * d" using st by (auto simp: storage_fits_def m_def split: option.splits)
  have "queue_inv q" using queue_invI(1) [of q "n - 1"] n len st by (simp add: q_def storage_fits_def)
  then show ?thesis using run k by (simp add: queue_items_def q_def k'_def)
qed

text \<open>C21: a queue of queue.c is a bounded double-ended queue. Create one for \<open>n\<close> items of \<open>d\<close> bytes and call it in
  any order, from tasks without a block time and from interrupts: send to the back, to the front or over the one
  item, receive, peek, give, take and reset. Every call returns, with the answer of the list that holds the
  items; an item goes in while there are fewer than \<open>n\<close>, and a full queue refuses it.\<close>

theorem queue_is_bounded_deque:
  assumes "0 < n" and "storage_fits n d st" and "kernel_ok k" and "\<forall>c\<in>set cs. call_fits n d c"
  shows "\<exists>s q k'. xQueueGenericCreateStatic n d st (Some blank) k = Inr s \<and>
    run_all queue_step cs s = Inr (fst (deque_run n (map call_meaning cs) []), (q, k')) \<and>
    queue_items q = snd (deque_run n (map call_meaning cs) []) \<and> length (queue_items q) \<le> n \<and> kernel_ok k'"
proof -
  obtain q k1 where q: "xQueueGenericCreateStatic n d st (Some blank) k = Inr (q, k1)" "queue_inv q" "kernel_ok k1"
      "uxLength q = n" "uxItemSize q = d" "queue_items q = []"
    using queue_created [OF assms(1-3), of blank] by blast
  obtain s' where s': "run_all queue_step cs (q, k1) = Inr (fst (deque_run n (map call_meaning cs) []), s')"
      "queue_inv (fst s')" "kernel_ok (snd s')" "queue_items (fst s') = snd (deque_run n (map call_meaning cs) [])" "uxLength (fst s') = n"
    using slots.run_ok [of "(q, k1)" cs] q assms(4) by (auto simp: split_beta)
  have "length (snd (deque_run n (map call_meaning cs) [])) \<le> n"
    using queue_items_length [of "fst s'"] queue_invD(3) [OF s'(2)] unfolding s'(4,5) by simp
  then show ?thesis using q(1) s'
    by (intro exI [of _ "(q, k1)"] exI [of _ "fst s'"] exI [of _ "snd s'"]) simp
qed

lemma booted_ok: "kernel_ok (booted ids_example)"
  by (rule kernel_reach_ok [OF started]) (simp add: ids_ok_def ids_example_def)

text \<open>A queue for two bytes at rest, in the kernel that \<open>main\<close> has started.\<close>

definition blank_queue :: Queue_t where
  "blank_queue = \<lparr>is_mutex = False, storage = [], pcWriteTo = 0, pcTail = 0, pcReadFrom = 0, xMutexHolder = None,
     uxRecursiveCallCount = 0, xTasksWaitingToSend = 1, xTasksWaitingToReceive = 2, uxMessagesWaiting = 0,
     uxLength = 0, uxItemSize = 0, cRxLock = 0, cTxLock = 0\<rparr>"

definition calls_example :: "queue_call list" where
  "calls_example = [Send_call [7] queueSEND_TO_BACK, Send_isr [8] queueSEND_TO_BACK, Send_call [9] queueSEND_TO_BACK,
     Receive_call, Send_call [9] queueSEND_TO_FRONT, Peek_isr, Receive_isr, Receive_call, Receive_call]"

lemma queue_is_bounded_deque_witness:
  "\<exists>s q k'. xQueueGenericCreateStatic 2 1 (Some [0, 0]) (Some blank_queue) (booted ids_example) = Inr s \<and>
    run_all queue_step calls_example s = Inr ([Done True, Done True, Done False, Item (Some [7]), Done True, Item (Some [9]),
      Item (Some [9]), Item (Some [8]), Item None], (q, k'))"
proof -
  have fits: "\<forall>c\<in>set calls_example. call_fits 2 1 c" by (simp add: calls_example_def)
  have run: "fst (deque_run 2 (map call_meaning calls_example) []) = [Done True, Done True, Done False, Item (Some [7]), Done True,
      Item (Some [9]), Item (Some [9]), Item (Some [8]), Item None]"
    by (simp add: calls_example_def push_at_def)
  have st: "storage_fits 2 1 (Some [0, 0])" by (simp add: storage_fits_def)
  show ?thesis
    using queue_is_bounded_deque [OF _ st booted_ok fits, of blank_queue] unfolding run by fastforce
qed

end
