(* ===== verification/QueueWait.thy ===== *)
theory QueueWait
  imports QueueDeque
begin

text \<open>
  No wake-up is lost. While a task blocks on a queue the queue is locked, and interrupts that send to it
  only count what they did; the unlock wakes as many tasks as were counted. The counts have 8 bits.
\<close>

section \<open>The lists of waiting tasks\<close>

text \<open>A task waits on one list at most.\<close>

definition events_ok :: "kernel \<Rightarrow> bool" where
  "events_ok k \<longleftrightarrow> (\<forall>l. distinct (xEventLists k l)) \<and> (\<forall>l l'. l \<noteq> l' \<longrightarrow> set (xEventLists k l) \<inter> set (xEventLists k l') = {})"

lemma event_frames [simp]:
  "xEventLists (remove_state_item t k) = xEventLists k" "xEventLists (prvAddTaskToReadyList t k) = xEventLists k"
  "xEventLists (upd_tcb t f k) = xEventLists k" "xEventLists (pend_ready t k) = xEventLists k"
  "xEventLists (remove_event_item t k) = (\<lambda>q. remove1 t (xEventLists k q))"
  "xEventLists (prvResetNextTaskUnblockTime k) = xEventLists k" "xEventLists (portYIELD k) = xEventLists k"
  by (simp_all add: remove_state_item_def prvAddTaskToReadyList_def upd_tcb_def pend_ready_def remove_event_item_def Let_def
      prvResetNextTaskUnblockTime_def portYIELD_def split: list.splits)

lemma suspended_frames [simp]:
  "uxSchedulerSuspended (remove_state_item t k) = uxSchedulerSuspended k"
  "uxSchedulerSuspended (prvAddTaskToReadyList t k) = uxSchedulerSuspended k"
  "uxSchedulerSuspended (upd_tcb t f k) = uxSchedulerSuspended k" "uxSchedulerSuspended (pend_ready t k) = uxSchedulerSuspended k"
  "uxSchedulerSuspended (remove_event_item t k) = uxSchedulerSuspended k" "uxSchedulerSuspended (portYIELD k) = uxSchedulerSuspended k"
  by (simp_all add: remove_state_item_def prvAddTaskToReadyList_def upd_tcb_def pend_ready_def remove_event_item_def Let_def portYIELD_def)

text \<open>The kernel as the code of a suspended scheduler sees it change: the lists, and what is pending.\<close>

lemma remove_head:
  assumes "events_ok k" and "xEventLists k l = t # ts"
  shows "remove1 t (xEventLists k l) = ts" "l' \<noteq> l \<Longrightarrow> remove1 t (xEventLists k l') = xEventLists k l'"
    "events_ok (k\<lparr>xEventLists := \<lambda>q. remove1 t (xEventLists k q)\<rparr>)"
proof -
  have "t \<notin> set (xEventLists k l')" if "l' \<noteq> l" for l'
    using assms that unfolding events_ok_def by (metis disjoint_iff list.set_intros(1))
  then show "l' \<noteq> l \<Longrightarrow> remove1 t (xEventLists k l') = xEventLists k l'" by (simp add: remove1_idem)
  show "remove1 t (xEventLists k l) = ts" using assms(2) by simp
  show "events_ok (k\<lparr>xEventLists := \<lambda>q. remove1 t (xEventLists k q)\<rparr>)"
    using assms(1) unfolding events_ok_def by (auto dest: in_set_remove1D)
qed

text \<open>With the scheduler suspended \<open>m\<close> tasks are taken from the front of a list; they are pending afterwards.\<close>

definition woken_from :: "nat \<Rightarrow> nat \<Rightarrow> kernel \<Rightarrow> kernel \<Rightarrow> bool" where
  "woken_from l m k k' \<longleftrightarrow> xEventLists k' l = drop m (xEventLists k l) \<and> (events_ok k \<longrightarrow> events_ok k') \<and>
     uxSchedulerSuspended k' = uxSchedulerSuspended k \<and> uxCurrentNumberOfTasks k' = uxCurrentNumberOfTasks k \<and>
     set (xPendingReadyList k) \<union> set (take m (xEventLists k l)) \<subseteq> set (xPendingReadyList k') \<and> (kernel_ok k \<longrightarrow> kernel_ok k') \<and>
     pxCurrentTCB k' = pxCurrentTCB k \<and> (\<forall>t. xEventItemValue (tcbs k' t) = xEventItemValue (tcbs k t)) \<and>
     (\<forall>l'. set (xEventLists k' l') \<subseteq> set (xEventLists k l'))"

lemma woken_refl [simp]: "woken_from l 0 k k"
  by (simp add: woken_from_def)

lemma woken_trans:
  assumes "woken_from l m k k1" and "woken_from l n k1 k2"
  shows "woken_from l (m + n) k k2"
proof -
  have "set (take (m + n) (xEventLists k l)) = set (take m (xEventLists k l)) \<union> set (take n (drop m (xEventLists k l)))"
    by (simp add: take_add)
  moreover have "\<forall>l'. set (xEventLists k2 l') \<subseteq> set (xEventLists k l')" using assms unfolding woken_from_def by (meson subset_trans)
  ultimately show ?thesis using assms by (auto simp: woken_from_def add.commute)
qed

lemma remove_event_woken:
  assumes r: "xTaskRemoveFromEventList l k = Inr (y, k')" and s: "uxSchedulerSuspended k \<noteq> 0" and e: "events_ok k"
  shows "woken_from l 1 k k'" "l' \<noteq> l \<Longrightarrow> woken_from l' 0 k k'"
proof -
  obtain t ts where t: "xEventLists k l = t # ts" using r by (cases "xEventLists k l") (auto simp: xTaskRemoveFromEventList_def)
  define k2 where "k2 = pend_ready t (remove_event_item t k)"
  have k2: "k' = k2 \<or> k' = k2\<lparr>xYieldPending := True\<rparr>"
    using r s t by (auto simp: xTaskRemoveFromEventList_def k2_def Let_def bindR_Inr_iff split: if_splits)
  have f: "xPendingReadyList k2 = remove1 t (xPendingReadyList k) @ [t]" "uxCurrentNumberOfTasks k2 = uxCurrentNumberOfTasks k"
    "xEventLists k2 = (\<lambda>l. remove1 t (xEventLists k l))" "uxSchedulerSuspended k2 = uxSchedulerSuspended k"
    "pxCurrentTCB k2 = pxCurrentTCB k" "\<And>x. xEventItemValue (tcbs k2 x) = xEventItemValue (tcbs k x)"
    by (simp_all add: k2_def) (simp_all add: pend_ready_def remove_event_item_def upd_tcb_def)
  have p: "set (xPendingReadyList k) \<union> {t} \<subseteq> set (xPendingReadyList k2)" unfolding f(1) using in_set_remove1 by fastforce
  have ok: "kernel_ok k \<longrightarrow> kernel_ok k'" using ok_remove_event [OF _ r] by blast
  have "xEventLists k' = (\<lambda>l. remove1 t (xEventLists k l))" using k2 f(3) by auto
  then have ev: "events_ok k'" "\<And>l'. set (xEventLists k' l') \<subseteq> set (xEventLists k l')"
    using remove_head(3) [OF e t] set_remove1_subset by (simp_all add: events_ok_def)
  have "xEventLists k' l = ts" "\<And>l'. l' \<noteq> l \<Longrightarrow> xEventLists k' l' = xEventLists k l'" using remove_head(1,2) [OF e t] k2 f(3) by auto
  moreover have "uxSchedulerSuspended k' = uxSchedulerSuspended k" "uxCurrentNumberOfTasks k' = uxCurrentNumberOfTasks k"
    "set (xPendingReadyList k) \<union> {t} \<subseteq> set (xPendingReadyList k')"
    "pxCurrentTCB k' = pxCurrentTCB k" "\<And>x. xEventItemValue (tcbs k' x) = xEventItemValue (tcbs k x)" using k2 f p by auto
  ultimately show "woken_from l 1 k k'" "l' \<noteq> l \<Longrightarrow> woken_from l' 0 k k'" using t ev ok by (auto simp: woken_from_def)
qed

lemma wake_woken:
  assumes "wake_waiting l k = Inr (y, k')" and "uxSchedulerSuspended k \<noteq> 0" and "events_ok k"
  shows "woken_from l 1 k k'" "l' \<noteq> l \<Longrightarrow> woken_from l' 0 k k'"
  using assms remove_event_woken [OF _ assms(2,3)]
  by (auto simp: wake_waiting_def woken_from_def split: if_splits)

lemma pendsv_suspended:
  assumes "take_pendsv k = Inr k'" and "uxSchedulerSuspended k \<noteq> 0"
  shows "k' = k \<or> k' = k\<lparr>pendsv := False, xYieldPending := True\<rparr>"
  using assms by (auto simp: take_pendsv_def vTaskSwitchContext_def split: if_splits)

lemma woken_yield [simp]:
  "woken_from l m k (k'\<lparr>pendsv := b\<rparr>) = woken_from l m k k'" "woken_from l m k (k'\<lparr>xYieldPending := b\<rparr>) = woken_from l m k k'"
  "woken_from l m k (k'\<lparr>xPendedTicks := v\<rparr>) = woken_from l m k k'" "woken_from l m k (portYIELD k') = woken_from l m k k'"
  by (simp_all add: woken_from_def events_ok_def portYIELD_def)

lemma isr_return_woken:
  assumes "isr_return w k1 = Inr k2" and "woken_from l m k k1" and "uxSchedulerSuspended k \<noteq> 0"
  shows "woken_from l m k k2"
proof -
  let ?k = "if w then portYIELD k1 else k1"
  have w: "woken_from l m k ?k" using assms(2) by simp
  then have "uxSchedulerSuspended ?k \<noteq> 0" using assms(3) by (simp add: woken_from_def)
  from pendsv_suspended [OF assms(1) [unfolded isr_return_def] this] w show ?thesis by auto
qed

section \<open>An interrupt while the scheduler is suspended\<close>

text \<open>What the interrupts leave alone in a queue.\<close>

definition same_lists :: "Queue_t \<Rightarrow> Queue_t \<Rightarrow> bool" where
  "same_lists q q' \<longleftrightarrow> xTasksWaitingToSend q' = xTasksWaitingToSend q \<and>
     xTasksWaitingToReceive q' = xTasksWaitingToReceive q \<and> is_mutex q' = is_mutex q"

lemma copy_in_fields:
  "copy_in p x q = Inr q' \<Longrightarrow> same_lists q q' \<and> cTxLock q' = cTxLock q \<and> uxMessagesWaiting q' = uxMessagesWaiting q"
  by (auto simp: copy_in_def bindR_Inr_iff same_lists_def split: if_splits)

lemma copy_to_fields:
  assumes "prvCopyDataToQueue x p q k = Inr (y, q', k')" and "\<not> is_mutex q"
  shows "k' = k \<and> same_lists q q' \<and> cTxLock q' = cTxLock q \<and> uxMessagesWaiting q' \<le> Suc (uxMessagesWaiting q)"
proof (cases "uxItemSize q = 0")
  case True
  then show ?thesis using assms by (auto simp: prvCopyDataToQueue_def same_lists_def)
next
  case False
  obtain a q1 wt rd n where q1: "copy_in a x q = Inr q1" "k' = k" "n \<le> Suc (uxMessagesWaiting q)"
      "q' = q1\<lparr>pcWriteTo := wt, pcReadFrom := rd, uxMessagesWaiting := n\<rparr>"
  proof (cases "p = queueSEND_TO_BACK")
    case True
    then obtain q1 where "copy_in (pcWriteTo q) x q = Inr q1" "k' = k"
        "q' = q1\<lparr>pcWriteTo := (if pcTail q1 \<le> pcWriteTo q1 + int (uxItemSize q) then 0 else pcWriteTo q1 + int (uxItemSize q)),
           uxMessagesWaiting := uxMessagesWaiting q + 1\<rparr>"
      using assms False unfolding prvCopyDataToQueue_def Let_def bindR_Inr_iff by (auto simp: bindR_Inr_iff)
    then show ?thesis using that [of "pcWriteTo q" q1 "uxMessagesWaiting q + 1" "pcReadFrom q1"] by auto
  next
    case False
    let ?n = "if p = queueOVERWRITE \<and> 0 < uxMessagesWaiting q then uxMessagesWaiting q - 1 else uxMessagesWaiting q"
    obtain q1 where "copy_in (pcReadFrom q) x q = Inr q1" "k' = k"
        "q' = q1\<lparr>pcReadFrom := (if pcReadFrom q1 - int (uxItemSize q) < 0 then pcTail q1 - int (uxItemSize q) else pcReadFrom q1 - int (uxItemSize q)),
           uxMessagesWaiting := ?n + 1\<rparr>"
      using assms False \<open>uxItemSize q \<noteq> 0\<close> unfolding prvCopyDataToQueue_def Let_def bindR_Inr_iff by (auto simp: bindR_Inr_iff)
    then show ?thesis using that [of "pcReadFrom q" q1 "?n + 1" _ "pcWriteTo q1"] by auto
  qed
  show ?thesis using copy_in_fields [OF q1(1)] q1(2-) by (simp add: same_lists_def)
qed

lemma copy_from_fields:
  "prvCopyDataFromQueue q = Inr (x, q') \<Longrightarrow> same_lists q q' \<and> cTxLock q' = cTxLock q \<and> uxMessagesWaiting q' = uxMessagesWaiting q"
  by (auto simp: prvCopyDataFromQueue_def Let_def bindR_Inr_iff same_lists_def split: if_splits)

text \<open>The state of a wait on the queue \<open>q\<close>: its lists are two, nobody waits on both, the scheduler is suspended.\<close>

definition held_off :: "Queue_t \<Rightarrow> kernel \<Rightarrow> bool" where
  "held_off q k \<longleftrightarrow> uxSchedulerSuspended k \<noteq> 0 \<and> events_ok k \<and> \<not> is_mutex q \<and>
     xTasksWaitingToSend q \<noteq> xTasksWaitingToReceive q"

lemma held_off_woken: "held_off q k \<Longrightarrow> woken_from l m k k' \<Longrightarrow> same_lists q q' \<Longrightarrow> held_off q' k'"
  by (auto simp: held_off_def woken_from_def same_lists_def)

text \<open>One interrupt: when the queue is locked an item put in is counted, otherwise it wakes the first receiver.\<close>

definition posted :: "bool \<Rightarrow> nat \<Rightarrow> Queue_t \<Rightarrow> kernel \<Rightarrow> Queue_t \<Rightarrow> kernel \<Rightarrow> bool" where
  "posted locked n q k q' k' \<longleftrightarrow> same_lists q q' \<and> uxMessagesWaiting q' \<le> uxMessagesWaiting q + n \<and>
     cTxLock q' = (if locked then cTxLock q + of_nat n else cTxLock q) \<and>
     woken_from (xTasksWaitingToReceive q) (if locked then 0 else n) k k'"

lemma isr_posted_posted:
  assumes r: "isr_posted False q1 k = Inr (q', k', w)" and h: "held_off q k" and q1: "same_lists q q1" "cTxLock q1 = cTxLock q"
    and n: "uxMessagesWaiting q1 \<le> Suc (uxMessagesWaiting q)"
  shows "posted (cTxLock q \<noteq> queueUNLOCKED) 1 q k q' k'"
proof (cases "cTxLock q = queueUNLOCKED")
  case True
  obtain y where y: "wake_waiting (xTasksWaitingToReceive q) k = Inr (y, k')" "q' = q1"
    using r True q1 by (auto simp: isr_posted_def bindR_Inr_iff same_lists_def)
  then have "woken_from (xTasksWaitingToReceive q) 1 k k'" using wake_woken(1) [OF y(1)] h by (simp add: held_off_def)
  then show ?thesis using True y(2) q1 n by (simp add: posted_def)
next
  case False
  then show ?thesis using r q1 n by (auto simp: isr_posted_def posted_def same_lists_def)
qed

lemma run_isr_posted:
  assumes r: "run_isr i (q, k) = Inr (b, q', k')" and h: "held_off q k"
  shows "posted (cTxLock q \<noteq> queueUNLOCKED) (of_bool b) q k q' k'"
proof -
  have s: "uxSchedulerSuspended k \<noteq> 0" "events_ok k" "\<not> is_mutex q" "xTasksWaitingToSend q \<noteq> xTasksWaitingToReceive q"
    using h by (simp_all add: held_off_def)
  have returned: "posted l n q k q1 k1 \<Longrightarrow> isr_return w k1 = Inr k2 \<Longrightarrow> posted l n q k q1 k2" for l n q1 k1 w k2
    using isr_return_woken [of w k1 k2 _ _ k] s(1) by (auto simp: posted_def)
  have none: "posted l 0 q k q k" for l by (simp add: posted_def same_lists_def)
  show ?thesis
  proof (cases i)
    case (Isr_send x p)
    then obtain k1 w where c: "xQueueGenericSendFromISR (Some x) p False q k = Inr (b, q', k1, w)" "isr_return w k1 = Inr k'"
      using r by (auto simp: bindR_Inr_iff)
    show ?thesis
    proof (cases b)
      case True
      obtain y q1 k0 where "prvCopyDataToQueue (sent_bytes (Some x)) p q k = Inr (y, q1, k0)" "isr_posted False q1 k0 = Inr (q', k1, w)"
        using c(1) True by (auto simp: xQueueGenericSendFromISR_def bindR_Inr_iff split: if_splits)
      then have "posted (cTxLock q \<noteq> queueUNLOCKED) 1 q k q' k1"
        using copy_to_fields [OF _ s(3)] isr_posted_posted [OF _ h] by metis
      from returned [OF this c(2)] True show ?thesis by simp
    next
      case False
      then have "q' = q \<and> k1 = k" using c(1) by (auto simp: xQueueGenericSendFromISR_def bindR_Inr_iff split: if_splits)
      then show ?thesis using returned [OF _ c(2)] none False by simp
    qed
  next
    case Isr_give
    then obtain k1 w where c: "xQueueGiveFromISR False q k = Inr (b, q', k1, w)" "isr_return w k1 = Inr k'"
      using r by (auto simp: bindR_Inr_iff)
    show ?thesis
    proof (cases b)
      case True
      have "isr_posted False (q\<lparr>uxMessagesWaiting := uxMessagesWaiting q + 1\<rparr>) k = Inr (q', k1, w)"
        using c(1) True by (auto simp: xQueueGiveFromISR_def bindR_Inr_iff split: if_splits)
      then have "posted (cTxLock q \<noteq> queueUNLOCKED) 1 q k q' k1"
        by (rule isr_posted_posted [OF _ h]) (simp_all add: same_lists_def)
      from returned [OF this c(2)] True show ?thesis by simp
    next
      case False
      then have "q' = q \<and> k1 = k" using c(1) by (auto simp: xQueueGiveFromISR_def bindR_Inr_iff split: if_splits)
      then show ?thesis using returned [OF _ c(2)] none False by simp
    qed
  next
    case Isr_receive
    then obtain x k1 w where c: "xQueueReceiveFromISR False False q k = Inr (x, q', k1, w)" "isr_return w k1 = Inr k'" "\<not> b"
      using r by (auto simp: bindR_Inr_iff)
    have "posted (cTxLock q \<noteq> queueUNLOCKED) 0 q k q' k1"
    proof (cases "0 < uxMessagesWaiting q")
      case True
      then obtain y q1 where q1: "prvCopyDataFromQueue q = Inr (y, q1)" using c(1) by (auto simp: xQueueReceiveFromISR_def Let_def bindR_Inr_iff)
      note f = copy_from_fields [OF q1]
      show ?thesis
      proof (cases "cRxLock q = queueUNLOCKED")
        case u: True
        obtain z where "wake_waiting (xTasksWaitingToSend q1) k = Inr (z, k1)" "q' = q1\<lparr>uxMessagesWaiting := uxMessagesWaiting q - 1\<rparr>"
          using c(1) True q1 u by (auto simp: xQueueReceiveFromISR_def Let_def bindR_Inr_iff)
        then show ?thesis using wake_woken(2) [of "xTasksWaitingToSend q1" k z k1 "xTasksWaitingToReceive q"] f s
          by (auto simp: posted_def same_lists_def)
      next
        case False
        then show ?thesis using c(1) True q1 f by (auto simp: xQueueReceiveFromISR_def Let_def posted_def same_lists_def)
      qed
    next
      case False
      then show ?thesis using c(1) none by (auto simp: xQueueReceiveFromISR_def)
    qed
    from returned [OF this c(2)] c(3) show ?thesis by simp
  next
    case Isr_tick
    then obtain k1 where c: "xPortSysTickHandler k = Inr k1" "take_pendsv k1 = Inr k'" "q' = q" "\<not> b"
      using r by (auto simp: bindR_Inr_iff)
    have k1: "k1 = k\<lparr>xPendedTicks := xPendedTicks k + 1\<rparr>"
      using c(1) s(1) by (simp add: xPortSysTickHandler_def xTaskIncrementTick_def)
    have "woken_from l 0 k k'" for l
      using pendsv_suspended [OF c(2)] s(1) by (auto simp: k1)
    then show ?thesis using c(3,4) by (simp add: posted_def same_lists_def)
  qed
qed

section \<open>Any number of interrupts, and the unlock\<close>

lemma posted_trans:
  assumes "posted l m q k q1 k1" and "posted l n q1 k1 q2 k2"
  shows "posted l (m + n) q k q2 k2"
  using assms woken_trans [of _ m k k1 n k2] woken_trans [of _ 0 k k1 0 k2]
  by (cases l) (auto simp: posted_def same_lists_def)

lemma posted_held_off: "held_off q k \<Longrightarrow> posted l n q k q' k' \<Longrightarrow> held_off q' k'"
  using held_off_woken by (auto simp: posted_def)

lemma isrs_unlocked:
  "run_isrs is (q, k) = Inr (n, q', k') \<Longrightarrow> held_off q k \<Longrightarrow> cTxLock q = queueUNLOCKED \<Longrightarrow> posted False n q k q' k'"
proof (induction "is" arbitrary: q k n)
  case Nil
  then show ?case by (simp add: posted_def same_lists_def)
next
  case (Cons i "is")
  obtain b q1 k1 m where s: "run_isr i (q, k) = Inr (b, q1, k1)" "run_isrs is (q1, k1) = Inr (m, q', k')" "n = of_bool b + m"
    using Cons.prems(1) by (auto simp: bindR_Inr_iff)
  have p: "posted False (of_bool b) q k q1 k1" using run_isr_posted [OF s(1) Cons.prems(2)] Cons.prems(3) by simp
  then have "cTxLock q1 = queueUNLOCKED" using Cons.prems(3) by (simp add: posted_def)
  from Cons.IH [OF s(2) posted_held_off [OF Cons.prems(2) p] this] posted_trans [OF p] show ?case by (simp add: s(3))
qed

lemma small_lock: "c \<le> 254 \<Longrightarrow> (of_nat c :: 8 word) \<noteq> queueUNLOCKED"
proof
  assume c: "c \<le> 254" and "(of_nat c :: 8 word) = queueUNLOCKED"
  then have "unat (of_nat c :: 8 word) = unat (- 1 :: 8 word)" by (simp add: queueUNLOCKED_def)
  moreover have "unat (- 1 :: 8 word) = 255" by (simp add: unsigned_minus_1_eq_mask mask_eq_exp_minus_1)
  ultimately show False using c by (simp add: unat_of_nat take_bit_nat_eq_self)
qed

lemma isrs_locked:
  "run_isrs is (q, k) = Inr (n, q', k') \<Longrightarrow> held_off q k \<Longrightarrow> cTxLock q = of_nat c \<Longrightarrow> c + length is \<le> 254 \<Longrightarrow>
   posted True n q k q' k' \<and> n \<le> length is"
proof (induction "is" arbitrary: q k n c)
  case Nil
  then show ?case by (simp add: posted_def same_lists_def)
next
  case (Cons i "is")
  obtain b q1 k1 m where s: "run_isr i (q, k) = Inr (b, q1, k1)" "run_isrs is (q1, k1) = Inr (m, q', k')" "n = of_bool b + m"
    using Cons.prems(1) by (auto simp: bindR_Inr_iff)
  have p: "posted True (of_bool b) q k q1 k1"
    using run_isr_posted [OF s(1) Cons.prems(2)] Cons.prems(3,4) small_lock [of c] by simp
  then have "cTxLock q1 = of_nat (c + of_bool b)" using Cons.prems(3) by (simp add: posted_def)
  moreover have "c + of_bool b + length is \<le> 254" using Cons.prems(4) by (cases b) simp_all
  ultimately have "posted True m q1 k1 q' k' \<and> m \<le> length is"
    using Cons.IH [OF s(2) posted_held_off [OF Cons.prems(2) p]] by blast
  then show ?case using posted_trans [OF p] s(3) by (cases b) auto
qed

lemma unlock_loop_woken:
  "unlock_loop l n k = Inr k' \<Longrightarrow> uxSchedulerSuspended k \<noteq> 0 \<Longrightarrow> events_ok k \<Longrightarrow> woken_from l n k k' \<and> (\<forall>l'. l' \<noteq> l \<longrightarrow> woken_from l' 0 k k')"
proof (induction l n k rule: unlock_loop.induct)
  case (2 l n k)
  show ?case
  proof (cases "xEventLists k l = []")
    case True
    then show ?thesis using 2(2) by (simp add: woken_from_def)
  next
    case False
    then obtain y k1 where k1: "xTaskRemoveFromEventList l k = Inr (y, k1)"
        and rest: "unlock_loop l n (if y then vTaskMissedYield k1 else k1) = Inr k'"
      using 2(2) by (auto simp: bindR_Inr_iff)
    let ?k = "if y then vTaskMissedYield k1 else k1"
    have w: "woken_from l 1 k ?k" "\<And>l'. l' \<noteq> l \<Longrightarrow> woken_from l' 0 k ?k"
      using remove_event_woken [OF k1 2(3,4)] by (simp_all add: vTaskMissedYield_def)
    then have "uxSchedulerSuspended ?k \<noteq> 0" "events_ok ?k" using 2(3,4) by (simp_all add: woken_from_def)
    from 2(1) [OF False k1 refl rest this] show ?thesis using woken_trans [OF w(1)] woken_trans [OF w(2)] by auto
  qed
qed simp

lemma lock_count_small: "c \<le> 127 \<Longrightarrow> lock_count (of_nat c) = c"
  by (simp add: lock_count_def signed_of_nat signed_take_bit_int_eq_self)

lemma lock_count_wrapped: "128 \<le> c \<Longrightarrow> c \<le> 254 \<Longrightarrow> lock_count (of_nat c) = 0"
proof -
  assume c: "128 \<le> c" "c \<le> 254"
  then have "(of_nat c :: 8 word) = of_int (int c - 256)" by simp
  then have "sint (of_nat c :: 8 word) = signed_take_bit 7 (int c - 256)" by (simp only: signed_of_int) simp
  then have "sint (of_nat c :: 8 word) = int c - 256" using c by (simp add: signed_take_bit_int_eq_self)
  then show ?thesis using c by (simp add: lock_count_def)
qed

section \<open>The end of the suspension\<close>

definition wakes :: "kernel \<Rightarrow> kernel \<Rightarrow> bool" where
  "wakes k k' \<longleftrightarrow> (\<forall>x. is_ready k x \<longrightarrow> is_ready k' x) \<and> (\<forall>l. set (xEventLists k' l) \<subseteq> set (xEventLists k l))"

lemma wakes_trans: "wakes k k1 \<Longrightarrow> wakes k1 k2 \<Longrightarrow> wakes k k2"
  unfolding wakes_def by blast

lemma ready_fields [simp]:
  "is_ready (k\<lparr>xPendedTicks := v\<rparr>) = is_ready k" "is_ready (prvResetNextTaskUnblockTime k) = is_ready k"
  "is_ready (k\<lparr>pendsv := b\<rparr>) = is_ready k"
  by (simp_all add: is_ready_def [abs_def] ready_at_def prio_def prvResetNextTaskUnblockTime_def split: list.splits)

lemma wakes_fields [simp]:
  "wakes k (k'\<lparr>xYieldPending := b\<rparr>) = wakes k k'" "wakes k (k'\<lparr>xPendedTicks := v\<rparr>) = wakes k k'"
  "wakes k (prvResetNextTaskUnblockTime k') = wakes k k'" "wakes k (portYIELD k') = wakes k k'" "wakes k k"
  by (simp_all add: wakes_def portYIELD_def)

lemma unblock_expired_events:
  "unblock_expired k sw = Inr (k', sw') \<Longrightarrow> set (xEventLists k' l) \<subseteq> set (xEventLists k l)"
proof (induction k sw rule: unblock_expired.induct)
  case (1 k sw)
  show ?case
  proof (cases "pxDelayedTaskList k")
    case Nil
    then show ?thesis using 1(2) by (subst (asm) (1) unblock_expired.simps) auto
  next
    case (Cons t ts)
    show ?thesis
    proof (cases "xTickCount k < wake_time k t")
      case True
      then show ?thesis using 1(2) Cons by (subst (asm) (1) unblock_expired.simps) auto
    next
      case False
      then obtain c where c: "current k = Inr c" and u: "unblock_expired (unblock_head t k) (sw \<or> prio k c \<le> prio k t) = Inr (k', sw')"
        using 1(2) Cons by (subst (asm) (1) unblock_expired.simps) (auto simp: bindR_Inr_iff)
      have "set (xEventLists (unblock_head t k) l) \<subseteq> set (xEventLists k l)"
        using set_remove1_subset [of t] by (simp add: unblock_head_def Let_def)
      then show ?thesis using 1(1) [OF Cons False c u] by blast
    qed
  qed
qed

lemma wakes_tick:
  assumes k: "kernel_ok k" and r: "xTaskIncrementTick k = Inr (sw, k')"
  shows "wakes k k'"
proof (cases "uxSchedulerSuspended k = 0")
  case True
  obtain c where c: "pxCurrentTCB k = Some c" "kernel_inv k" using k by (auto simp: kernel_ok_def)
  have ready: "is_ready k' x" if "is_ready k x" for x using tick_step [OF c(2) True c(1)] r that by auto
  obtain k2 s3 where s: "k2 = k\<lparr>xTickCount := xTickCount k + 1\<rparr> \<or> taskSWITCH_DELAYED_LISTS (k\<lparr>xTickCount := xTickCount k + 1\<rparr>) = Inr k2"
      "k' = k2 \<and> \<not> s3 \<or> unblock_expired k2 False = Inr (k', s3)"
    using tick_steps [OF r True] by blast
  have "xEventLists k2 = xEventLists k" using s(1) by (auto simp: taskSWITCH_DELAYED_LISTS_def bindR_Inr_iff)
  then have "set (xEventLists k' l) \<subseteq> set (xEventLists k l)" for l using s(2) unblock_expired_events [of k2 False k' s3 l] by auto
  then show ?thesis using ready by (simp add: wakes_def)
next
  case False
  then show ?thesis using r by (auto simp: xTaskIncrementTick_def)
qed

lemma wakes_pended_ticks: "kernel_ok k \<Longrightarrow> pended_ticks n k = Inr k' \<Longrightarrow> wakes k k'"
proof (induction n arbitrary: k)
  case (Suc n)
  obtain sw k1 where t: "xTaskIncrementTick k = Inr (sw, k1)" "kernel_ok k1" using ok_tick [OF Suc.prems(1)] by blast
  let ?k = "if sw then k1\<lparr>xYieldPending := True\<rparr> else k1"
  have "wakes k ?k" using wakes_tick [OF Suc.prems(1) t(1)] by simp
  moreover have "wakes ?k k'" using Suc.IH [of ?k] Suc.prems(2) t by simp
  ultimately show ?case by (rule wakes_trans)
qed simp

lemma move_pending_runs:
  "kernel_ok k \<Longrightarrow> \<exists>k'. move_pending ts k = Inr k' \<and> kernel_ok k' \<and> wakes k k' \<and> (\<forall>x\<in>set ts. is_ready k' x)"
proof (induction ts arbitrary: k)
  case (Cons t ts)
  let ?k0 = "remove_event_item t k"
  let ?k1 = "prvAddTaskToReadyList t (remove_state_item t ?k0)"
  have k0: "kernel_ok ?k0" using Cons.prems by simp
  then have l: "lists_inv ?k0" by (simp add: kernel_ok_def kernel_inv_def)
  obtain c where c: "current k = Inr c" using ok_current [OF Cons.prems] by blast
  let ?k2 = "if prio k c \<le> prio k t then ?k1\<lparr>xYieldPending := True\<rparr> else ?k1"
  have k2: "kernel_ok ?k2" using ok_move [OF k0] by simp
  have r0: "is_ready ?k0 = is_ready k" by (simp add: remove_event_item_def)
  have "wakes k ?k1" "is_ready ?k1 t" using move_ready(2) [OF l, of t] set_remove1_subset [of t] by (simp_all add: wakes_def r0)
  then have w: "wakes k ?k2" "is_ready ?k2 t" by simp_all
  obtain k' where k': "move_pending ts ?k2 = Inr k'" "kernel_ok k'" "wakes ?k2 k'" "\<forall>x\<in>set ts. is_ready k' x"
    using Cons.IH [OF k2] by blast
  have "move_pending (t # ts) k = Inr k'" using c k'(1) by (simp add: Let_def)
  moreover have "is_ready k' t" using w(2) k'(3) by (simp add: wakes_def)
  ultimately show ?case using k' wakes_trans [OF w(1) k'(3)] by auto
qed simp

text \<open>The last resumption makes all pending tasks ready.\<close>

lemma resume_runs:
  assumes k: "kernel_ok k" and s: "uxSchedulerSuspended k = 1" and n: "0 < uxCurrentNumberOfTasks k"
  shows "\<exists>b k'. xTaskResumeAll k = Inr (b, k') \<and> kernel_ok k' \<and> wakes k k' \<and> (\<forall>x\<in>set (xPendingReadyList k). is_ready k' x)"
proof -
  let ?k1 = "k\<lparr>uxSchedulerSuspended := uxSchedulerSuspended k - 1\<rparr>"
  have k1: "kernel_ok ?k1" "wakes k ?k1" using k by (simp_all add: wakes_def)
  obtain k2 where k2: "move_pending (xPendingReadyList ?k1) ?k1 = Inr k2" "kernel_ok k2" "wakes ?k1 k2"
      "\<forall>x\<in>set (xPendingReadyList ?k1). is_ready k2 x"
    using move_pending_runs [OF k1(1)] by blast
  define k3 where "k3 = (if xPendingReadyList ?k1 \<noteq> [] then prvResetNextTaskUnblockTime k2 else k2)"
  have k3: "kernel_ok k3" "wakes k2 k3" using k2(2) ok_reset by (simp_all add: k3_def)
  obtain k5 where k5: "pended_ticks (unat (xPendedTicks k3)) k3 = Inr k5" "kernel_ok k5" using ok_pended_ticks [OF k3(1)] by blast
  define k4 where "k4 = (if 0 < xPendedTicks k3 then k5\<lparr>xPendedTicks := 0\<rparr> else k3)"
  have k4: "kernel_ok k4" "wakes k3 k4" using k5 k3(1) wakes_pended_ticks [OF k3(1) k5(1)] by (simp_all add: k4_def)
  have "(if 0 < xPendedTicks k3 then bindR (pended_ticks (unat (xPendedTicks k3)) k3) (\<lambda>k. Inr (k\<lparr>xPendedTicks := 0\<rparr>))
      else Inr k3) = Inr k4" using k5(1) by (simp add: k4_def)
  then have "xTaskResumeAll k = (if xYieldPending k4 then Inr (True, portYIELD k4) else Inr (False, k4))"
    using s n k2(1) unfolding xTaskResumeAll_def Let_def k3_def by simp
  moreover have "wakes k k4" using k1(2) k2(3) k3(2) k4(2) wakes_trans by blast
  moreover have "\<forall>x\<in>set (xPendingReadyList k). is_ready k4 x" using k2(4) k3(2) k4(2) by (auto simp: wakes_def)
  ultimately show ?thesis using k4(1) by (cases "xYieldPending k4") (auto simp: portYIELD_def wakes_def)
qed

section \<open>The interrupts return\<close>

fun isr_fits :: "nat \<Rightarrow> nat \<Rightarrow> isr \<Rightarrow> bool" where
  "isr_fits n d (Isr_send x p) = call_fits n d (Send_isr x p)"
| "isr_fits n d Isr_give = (d = 0)"
| "isr_fits n d _ = True"

text \<open>What holds of the queue and the kernel from the lock to the resumption.\<close>

definition waiting_state :: "nat \<Rightarrow> nat \<Rightarrow> Queue_t \<Rightarrow> kernel \<Rightarrow> bool" where
  "waiting_state n d q k \<longleftrightarrow> queue_inv q \<and> kernel_ok k \<and> held_off q k \<and> uxLength q = n \<and> uxItemSize q = d"

lemma isr_return_runs: "uxSchedulerSuspended k \<noteq> 0 \<Longrightarrow> kernel_ok k \<Longrightarrow> \<exists>k'. isr_return w k = Inr k' \<and> kernel_ok k'"
  by (auto simp: isr_return_def take_pendsv_def vTaskSwitchContext_def portYIELD_def)

lemma run_isr_runs:
  assumes s: "waiting_state n d q k" and f: "isr_fits n d i"
  shows "\<exists>b q' k'. run_isr i (q, k) = Inr (b, q', k') \<and> waiting_state n d q' k'"
proof -
  have q: "queue_inv q" "kernel_ok k" "held_off q k" "uxLength q = n" "uxItemSize q = d" using s by (simp_all add: waiting_state_def)
  have result: "\<exists>b q' k'. run_isr i (q, k) = Inr (b, q', k') \<and> waiting_state n d q' k'"
    if run: "run_isr i (q, k) = bindR (isr_return w k1) (\<lambda>k2. Inr (b, q1, k2))"
      and q1: "queue_inv q1" "uxLength q1 = n" "uxItemSize q1 = d" and k1: "kernel_ok k1" "uxSchedulerSuspended k1 \<noteq> 0" for w k1 b q1
  proof -
    obtain k2 where k2: "isr_return w k1 = Inr k2" "kernel_ok k2" using isr_return_runs k1 by blast
    then have r: "run_isr i (q, k) = Inr (b, q1, k2)" using run by simp
    have "held_off q1 k2" using posted_held_off [OF q(3) run_isr_posted [OF r q(3)]] .
    then show ?thesis using r k2(2) q1 by (auto simp: waiting_state_def)
  qed
  have step: "refined q c m \<Longrightarrow> \<exists>a q' k'. m = Inr (a, q', k') \<and> queue_inv q' \<and> kernel_ok k' \<and> uxLength q' = n \<and> uxItemSize q' = d" for c m
    using q(4,5) by (auto simp: refined_def)
  have sus: "uxSchedulerSuspended k \<noteq> 0" using q(3) by (simp add: held_off_def)
  show ?thesis
  proof (cases i)
    case (Isr_send x p)
    have "refined q (call_meaning (Send_isr x p)) (queue_step (Send_isr x p) (q, k))"
      by (rule queue_step_refined) (use q f Isr_send in simp_all)
    from step [OF this] obtain b q1 k1 w where c: "xQueueGenericSendFromISR (Some x) p False q k = Inr (b, q1, k1, w)"
        "queue_inv q1" "kernel_ok k1" "uxLength q1 = n" "uxItemSize q1 = d" by (auto simp: bindR_Inr_iff)
    have "uxSchedulerSuspended k1 \<noteq> 0"
    proof (cases "uxMessagesWaiting q < uxLength q \<or> p = queueOVERWRITE")
      case True
      then obtain y q0 k0 where "prvCopyDataToQueue (sent_bytes (Some x)) p q k = Inr (y, q0, k0)" "isr_posted False q0 k0 = Inr (q1, k1, w)"
        using c(1) by (auto simp: xQueueGenericSendFromISR_def bindR_Inr_iff)
      then have "posted (cTxLock q \<noteq> queueUNLOCKED) 1 q k q1 k1"
        using copy_to_fields [of _ p q k] isr_posted_posted [OF _ q(3)] q(3) unfolding held_off_def by metis
      then show ?thesis using posted_held_off [OF q(3)] by (auto simp: held_off_def)
    next
      case False
      then show ?thesis using c(1) sus by (auto simp: xQueueGenericSendFromISR_def bindR_Inr_iff)
    qed
    then show ?thesis using result [of w k1 b q1] c Isr_send by simp
  next
    case Isr_give
    have "refined q (call_meaning Give_isr_call) (queue_step Give_isr_call (q, k))"
      by (rule queue_step_refined) (use q f Isr_give in simp_all)
    from step [OF this] obtain b q1 k1 w where c: "xQueueGiveFromISR False q k = Inr (b, q1, k1, w)"
        "queue_inv q1" "kernel_ok k1" "uxLength q1 = n" "uxItemSize q1 = d" by (auto simp: bindR_Inr_iff)
    have "uxSchedulerSuspended k1 \<noteq> 0"
    proof (cases "uxMessagesWaiting q < uxLength q")
      case True
      then have "isr_posted False (q\<lparr>uxMessagesWaiting := uxMessagesWaiting q + 1\<rparr>) k = Inr (q1, k1, w)"
        using c(1) by (auto simp: xQueueGiveFromISR_def bindR_Inr_iff)
      then have "posted (cTxLock q \<noteq> queueUNLOCKED) 1 q k q1 k1"
        by (rule isr_posted_posted [OF _ q(3)]) (simp_all add: same_lists_def)
      then show ?thesis using posted_held_off [OF q(3)] by (auto simp: held_off_def)
    next
      case False
      then show ?thesis using c(1) sus by (auto simp: xQueueGiveFromISR_def bindR_Inr_iff)
    qed
    then show ?thesis using result [of w k1 b q1] c Isr_give by simp
  next
    case Isr_receive
    have "refined q (call_meaning Receive_isr) (queue_step Receive_isr (q, k))"
      by (rule queue_step_refined) (use q in simp_all)
    from step [OF this] obtain x q1 k1 w where c: "xQueueReceiveFromISR False False q k = Inr (x, q1, k1, w)"
        "queue_inv q1" "kernel_ok k1" "uxLength q1 = n" "uxItemSize q1 = d" by (auto simp: bindR_Inr_iff)
    have "uxSchedulerSuspended k1 \<noteq> 0"
    proof (cases "\<exists>l y. wake_waiting l k = Inr (y, k1)")
      case True
      then show ?thesis using wake_woken(1) q(3) by (fastforce simp: held_off_def woken_from_def)
    next
      case False
      then have "k1 = k" using c(1) by (auto simp: xQueueReceiveFromISR_def Let_def bindR_Inr_iff split: if_splits)
      then show ?thesis using sus by simp
    qed
    then show ?thesis using result [of w k1 False q1] c Isr_receive by simp
  next
    case Isr_tick
    let ?k1 = "k\<lparr>xPendedTicks := xPendedTicks k + 1\<rparr>"
    have "xPortSysTickHandler k = Inr ?k1" using sus by (simp add: xPortSysTickHandler_def xTaskIncrementTick_def)
    then show ?thesis using result [of False ?k1 False q] Isr_tick q sus by (simp add: isr_return_def)
  qed
qed

lemma run_isrs_runs:
  "waiting_state n d q k \<Longrightarrow> \<forall>i\<in>set is. isr_fits n d i \<Longrightarrow> \<exists>m q' k'. run_isrs is (q, k) = Inr (m, q', k') \<and> waiting_state n d q' k'"
proof (induction "is" arbitrary: q k)
  case (Cons i "is")
  obtain b q1 k1 where s: "run_isr i (q, k) = Inr (b, q1, k1)" "waiting_state n d q1 k1"
    using run_isr_runs [OF Cons.prems(1), of i] Cons.prems(2) by auto
  have "\<forall>i\<in>set is. isr_fits n d i" using Cons.prems(2) by simp
  from Cons.IH [OF s(2) this] show ?case using s(1) by auto
qed auto

section \<open>Going to wait\<close>

lemma delayed_frames:
  "prvAddCurrentTaskToDelayedList n b k = Inr k' \<Longrightarrow> xEventLists k' = xEventLists k \<and> uxSchedulerSuspended k' = uxSchedulerSuspended k \<and>
     uxCurrentNumberOfTasks k' = uxCurrentNumberOfTasks k"
  by (auto simp: prvAddCurrentTaskToDelayedList_def Let_def bindR_Inr_iff split: if_splits)
    (simp_all add: remove_state_item_def upd_tcb_def)

definition queued :: "nat \<Rightarrow> task \<Rightarrow> kernel \<Rightarrow> task list" where
  "queued l t k = vListInsert (\<lambda>x. xEventItemValue (tcbs k x)) t (xEventLists k l)"

lemma place_runs:
  assumes k: "kernel_ok k" and n: "0 < n" and t: "pxCurrentTCB k = Some t"
  shows "\<exists>k'. vTaskPlaceOnEventList l n k = Inr k' \<and> kernel_ok k' \<and> xEventLists k' = (xEventLists k)(l := queued l t k) \<and>
    uxSchedulerSuspended k' = uxSchedulerSuspended k \<and> uxCurrentNumberOfTasks k' = uxCurrentNumberOfTasks k"
proof -
  let ?k = "put_event_list l (queued l t k) t k"
  obtain k' where k': "prvAddCurrentTaskToDelayedList n True ?k = Inr k'" "kernel_ok k'" using ok_delayed [OF _ n, of ?k True] k by auto
  then have "vTaskPlaceOnEventList l n k = Inr k'" using t by (simp add: vTaskPlaceOnEventList_def current_def queued_def)
  moreover have "xEventLists ?k = (xEventLists k)(l := queued l t k)" "uxSchedulerSuspended ?k = uxSchedulerSuspended k"
    "uxCurrentNumberOfTasks ?k = uxCurrentNumberOfTasks k" by (simp_all add: put_event_list_def) (simp add: upd_tcb_def)
  ultimately show ?thesis using k' delayed_frames [OF k'(1)] by (intro exI [of _ k']) simp
qed

lemma insert_events_ok:
  assumes "events_ok k" and "\<forall>l. t \<notin> set (xEventLists k l)" and "xEventLists k' = (xEventLists k)(l := queued l t k)"
  shows "events_ok k'"
  using assms distinct_vListInsert [of t "xEventLists k l"] unfolding events_ok_def queued_def by (auto simp: disjoint_iff)

lemma ticks_left: "xTaskCheckForTimeOut to n k = (False, to', n') \<Longrightarrow> 0 < n \<Longrightarrow> 0 < n'"
  by (auto simp: xTaskCheckForTimeOut_def Let_def portMAX_DELAY_def word_gt_0 split: if_splits)

text \<open>The three outcomes of the look at the time and the queue.\<close>

lemma receive_check_runs:
  assumes s: "waiting_state n d q k" and t: "pxCurrentTCB k = Some t" "\<forall>l. t \<notin> set (xEventLists k l)" and ticks: "0 < n0"
  shows "\<exists>dec to' ticks' k'. receive_check to n0 q k = Inr (dec, to', ticks', k') \<and> waiting_state n d q k' \<and>
    uxSchedulerSuspended k' = uxSchedulerSuspended k \<and> uxCurrentNumberOfTasks k' = uxCurrentNumberOfTasks k \<and>
    (dec = Blocked \<longrightarrow> uxMessagesWaiting q = 0 \<and>
      xEventLists k' (xTasksWaitingToReceive q) = queued (xTasksWaitingToReceive q) t k)"
proof -
  obtain over to1 n1 where o: "xTaskCheckForTimeOut to n0 k = (over, to1, n1)" by (cases "xTaskCheckForTimeOut to n0 k")
  consider (over) "over" | (some) "\<not> over" "\<not> prvIsQueueEmpty q" | (empty) "\<not> over" "prvIsQueueEmpty q" by blast
  then show ?thesis
  proof cases
    case empty
    then have "0 < n1" using ticks_left [of to n0 k to1 n1] ticks o by simp
    obtain k' where k': "vTaskPlaceOnEventList (xTasksWaitingToReceive q) n1 k = Inr k'" "kernel_ok k'"
        "xEventLists k' = (xEventLists k)(xTasksWaitingToReceive q := queued (xTasksWaitingToReceive q) t k)"
        "uxSchedulerSuspended k' = uxSchedulerSuspended k" "uxCurrentNumberOfTasks k' = uxCurrentNumberOfTasks k"
      using place_runs [OF _ \<open>0 < n1\<close> t(1)] s unfolding waiting_state_def by blast
    have "events_ok k'" using insert_events_ok [OF _ t(2) k'(3)] s by (simp add: waiting_state_def held_off_def)
    then have "waiting_state n d q k'" using s k'(2,4) by (simp add: waiting_state_def held_off_def)
    then show ?thesis using empty k' by (simp add: receive_check_def wait_check_def o prvIsQueueEmpty_def)
  qed (use s in \<open>simp_all add: receive_check_def wait_check_def o\<close>)
qed

section \<open>From the list to the end of the round\<close>

lemma unlock_loop_runs: "kernel_ok k \<Longrightarrow> \<exists>k'. unlock_loop l n k = Inr k'"
proof (induction n arbitrary: k)
  case (Suc n)
  show ?case
  proof (cases "xEventLists k l = []")
    case False
    then obtain y k1 where "xTaskRemoveFromEventList l k = Inr (y, k1)" "kernel_ok k1"
      using ok_wake [OF Suc.prems, of l] by (auto simp: wake_waiting_def)
    then show ?thesis using Suc.IH [of "if y then vTaskMissedYield k1 else k1"] False by (auto simp: vTaskMissedYield_def)
  qed simp
qed simp

lemma waiting_state_locks [simp]:
  "waiting_state n d (q\<lparr>cTxLock := c\<rparr>) k = waiting_state n d q k" "waiting_state n d (q\<lparr>cRxLock := c\<rparr>) k = waiting_state n d q k"
  by (simp_all add: waiting_state_def held_off_def)

lemma waiting_state_woken: "waiting_state n d q k \<Longrightarrow> woken_from l m k k' \<Longrightarrow> waiting_state n d q k'"
  using held_off_woken [of q k l m k' q] by (auto simp: waiting_state_def woken_from_def same_lists_def)

text \<open>Everything put in since the task is on the list has woken a task, if there was one left to wake.\<close>

lemma after_placing:
  assumes s: "waiting_state n d q k" and c: "cTxLock q = of_nat c" "c + length (placed_gap g) \<le> 127"
    and fits: "\<forall>i\<in>set (placed_gap g) \<union> set (unlock_gap g) \<union> set (unlocked_gap g). isr_fits n d i"
  shows "\<exists>m2 q3 k3 q4 k4 m3 q5 k5 q6 k6 m4 q7 k7.
    run_isrs (placed_gap g) (q, k) = Inr (m2, q3, k3) \<and> unlock_tx q3 k3 = Inr (q4, k4) \<and>
    run_isrs (unlock_gap g) (q4, k4) = Inr (m3, q5, k5) \<and> unlock_rx q5 k5 = Inr (q6, k6) \<and>
    run_isrs (unlocked_gap g) (q6, k6) = Inr (m4, q7, k7) \<and> waiting_state n d q7 k7 \<and>
    woken_from (xTasksWaitingToReceive q) (c + m2 + m3 + m4) k k7 \<and> uxMessagesWaiting q7 \<le> uxMessagesWaiting q + (m2 + m3 + m4)"
proof -
  let ?l = "xTasksWaitingToReceive q"
  obtain m2 q3 k3 where s2: "run_isrs (placed_gap g) (q, k) = Inr (m2, q3, k3)" "waiting_state n d q3 k3"
    using run_isrs_runs [OF s, of "placed_gap g"] fits by auto
  have h: "held_off q k" using s by (simp add: waiting_state_def)
  have p2: "posted True m2 q k q3 k3" "m2 \<le> length (placed_gap g)" using isrs_locked [OF s2(1) h c(1)] c(2) by simp_all
  then have count: "lock_count (cTxLock q3) = c + m2" using c lock_count_small [of "c + m2"] by (simp add: posted_def)
  obtain k4 where k4: "unlock_loop ?l (c + m2) k3 = Inr k4"
    using unlock_loop_runs [of k3] s2(2) by (auto simp: waiting_state_def)
  define q4 where "q4 = q3\<lparr>cTxLock := queueUNLOCKED\<rparr>"
  have tx: "unlock_tx q3 k3 = Inr (q4, k4)" using k4 p2(1) count by (simp add: unlock_tx_def posted_def same_lists_def q4_def)
  have w4: "woken_from ?l (c + m2) k3 k4" using unlock_loop_woken [OF k4] s2(2) by (simp add: waiting_state_def held_off_def)
  have s4: "waiting_state n d q4 k4" using waiting_state_woken [OF s2(2) w4] by (simp add: q4_def)
  obtain m3 q5 k5 where s5: "run_isrs (unlock_gap g) (q4, k4) = Inr (m3, q5, k5)" "waiting_state n d q5 k5"
    using run_isrs_runs [OF s4, of "unlock_gap g"] fits by auto
  have p5: "posted False m3 q4 k4 q5 k5"
    using isrs_unlocked [OF s5(1)] s4 by (simp add: waiting_state_def q4_def)
  obtain k6 where k6: "unlock_loop (xTasksWaitingToSend q5) (lock_count (cRxLock q5)) k5 = Inr k6"
    using unlock_loop_runs [of k5] s5(2) by (auto simp: waiting_state_def)
  define q6 where "q6 = q5\<lparr>cRxLock := queueUNLOCKED\<rparr>"
  have rx: "unlock_rx q5 k5 = Inr (q6, k6)" using k6 by (simp add: unlock_rx_def q6_def)
  have w6: "woken_from (xTasksWaitingToReceive q5) 0 k5 k6"
    using unlock_loop_woken [OF k6] s5(2) by (simp add: waiting_state_def held_off_def)
  have s6: "waiting_state n d q6 k6" using waiting_state_woken [OF s5(2) w6] by (simp add: q6_def)
  obtain m4 q7 k7 where s7: "run_isrs (unlocked_gap g) (q6, k6) = Inr (m4, q7, k7)" "waiting_state n d q7 k7"
    using run_isrs_runs [OF s6, of "unlocked_gap g"] fits by auto
  have "cTxLock q6 = queueUNLOCKED" using p5 by (simp add: posted_def q6_def q4_def)
  then have p7: "posted False m4 q6 k6 q7 k7" using isrs_unlocked [OF s7(1)] s6 by (simp add: waiting_state_def)
  have l: "xTasksWaitingToReceive q3 = ?l" "xTasksWaitingToReceive q5 = ?l"
    using p2(1) p5 by (simp_all add: posted_def same_lists_def q4_def)
  have "woken_from ?l 0 k k3" "woken_from ?l m3 k4 k5" "woken_from ?l m4 k6 k7" using p2(1) p5 p7 l by (simp_all add: posted_def q4_def q6_def)
  then have "woken_from ?l (0 + ((c + m2) + (m3 + (0 + m4)))) k k7" using w4 w6 l woken_trans by metis
  moreover have "uxMessagesWaiting q7 \<le> uxMessagesWaiting q + (m2 + m3 + m4)"
    using p2(1) p5 p7 by (simp add: posted_def q4_def q6_def)
  ultimately show ?thesis using s2(1) tx s5(1) rx s7 by (intro exI conjI; (assumption | simp add: add.assoc))
qed

section \<open>No wake-up is lost\<close>

definition gaps_fit :: "nat \<Rightarrow> nat \<Rightarrow> gaps \<Rightarrow> bool" where
  "gaps_fit n d g \<longleftrightarrow> list_all (isr_fits n d) (locked_gap g @ placed_gap g @ unlock_gap g @ unlocked_gap g)"

text \<open>A task about to wait for the queue: it is running and on no list, nobody is on two lists, the queue is not locked.\<close>

definition may_wait :: "task \<Rightarrow> Queue_t \<Rightarrow> kernel \<Rightarrow> bool" where
  "may_wait t q k \<longleftrightarrow> kernel_ok k \<and> uxSchedulerSuspended k = 0 \<and> 0 < uxCurrentNumberOfTasks k \<and> events_ok k \<and>
     pxCurrentTCB k = Some t \<and> (\<forall>l. t \<notin> set (xEventLists k l)) \<and>
     queue_inv q \<and> xTasksWaitingToSend q \<noteq> xTasksWaitingToReceive q \<and> cTxLock q = queueUNLOCKED"

lemma begin_waiting:
  assumes "may_wait t q k"
  shows "waiting_state (uxLength q) (uxItemSize q) (prvLockQueue q) (vTaskSuspendAll k)" "cTxLock (prvLockQueue q) = of_nat 0"
  using assms by (simp_all add: waiting_state_def may_wait_def prvLockQueue_def vTaskSuspendAll_def held_off_def
      queueLOCKED_UNMODIFIED_def events_ok_def queue_inv_def read_slot_def)

lemma wait_resume_runs:
  assumes "kernel_ok k" and "uxSchedulerSuspended k = 1" and "0 < uxCurrentNumberOfTasks k"
  shows "\<exists>k'. wait_resume dec k = Inr k' \<and> kernel_ok k' \<and> wakes k k' \<and> (\<forall>x\<in>set (xPendingReadyList k). is_ready k' x)"
proof -
  obtain b k1 where k1: "xTaskResumeAll k = Inr (b, k1)" "kernel_ok k1" "wakes k k1" "\<forall>x\<in>set (xPendingReadyList k). is_ready k1 x"
    using resume_runs [OF assms] by blast
  then show ?thesis by (cases "dec = Blocked \<and> \<not> b") (auto simp: wait_resume_def portYIELD_def wakes_def)
qed

text \<open>C22: no wake-up is lost by \<open>xQueueReceive\<close>. A task finds the queue empty, locks it, looks again and goes to wait, while
  interrupts send to the queue, receive from it, give and tick at every point in between, up to 127 of them while
  the queue is locked. The round returns. When it ends with the task on the list, then for each item that is in
  the queue a task that waited (by priority, the new one included) is off the list and ready: items do not
  lie in the queue while those who wait for them sleep.\<close>

theorem queue_wakeup_not_lost:
  assumes w: "may_wait t q k" and n0: "0 < n0" and fits: "gaps_fit (uxLength q) (uxItemSize q) g"
    and few: "length (locked_gap g) + length (placed_gap g) \<le> 127"
  shows "\<exists>dec to' n' q' k'. receive_round g to n0 q k = Inr (dec, to', n', q', k') \<and> kernel_ok k' \<and> queue_inv q' \<and>
    (dec = Blocked \<longrightarrow> (\<forall>x\<in>set (take (uxMessagesWaiting q') (queued (xTasksWaitingToReceive q) t k)).
       is_ready k' x \<and> x \<notin> set (xEventLists k' (xTasksWaitingToReceive q))))"
proof -
  let ?n = "uxLength q" and ?d = "uxItemSize q" and ?l = "xTasksWaitingToReceive q"
  let ?q0 = "prvLockQueue q" and ?k0 = "vTaskSuspendAll k" and ?L = "queued ?l t k"
  note s0 = begin_waiting [OF w]
  obtain m1 q1 k1 where s1: "run_isrs (locked_gap g) (?q0, ?k0) = Inr (m1, q1, k1)" "waiting_state ?n ?d q1 k1"
    using run_isrs_runs [OF s0(1), of "locked_gap g"] fits by (auto simp: gaps_fit_def list_all_iff)
  have h0: "held_off ?q0 ?k0" using s0(1) by (simp add: waiting_state_def)
  have p1: "posted True m1 ?q0 ?k0 q1 k1" "m1 \<le> length (locked_gap g)" using isrs_locked [OF s1(1) h0 s0(2)] few by simp_all
  have l1: "xTasksWaitingToReceive q1 = ?l" using p1(1) by (simp add: posted_def same_lists_def prvLockQueue_def)
  have k1: "uxSchedulerSuspended k1 = 1" "uxCurrentNumberOfTasks k1 = uxCurrentNumberOfTasks k" "pxCurrentTCB k1 = Some t"
    "xEventLists k1 ?l = xEventLists k ?l" "\<And>x. xEventItemValue (tcbs k1 x) = xEventItemValue (tcbs k x)"
    using p1(1) w by (simp_all add: posted_def woken_from_def may_wait_def vTaskSuspendAll_def prvLockQueue_def)
  have L: "queued ?l t k1 = ?L" by (simp add: queued_def k1(4,5))
  have "\<forall>l. t \<notin> set (xEventLists k1 l)"
  proof
    fix l
    have "set (xEventLists k1 l) \<subseteq> set (xEventLists ?k0 l)" using p1(1) by (simp add: posted_def woken_from_def)
    then show "t \<notin> set (xEventLists k1 l)" using w by (auto simp: may_wait_def vTaskSuspendAll_def)
  qed
  then obtain dec to' n' k2 where c: "receive_check to n0 q1 k1 = Inr (dec, to', n', k2)" "waiting_state ?n ?d q1 k2"
      "uxSchedulerSuspended k2 = 1" "uxCurrentNumberOfTasks k2 = uxCurrentNumberOfTasks k"
      "dec = Blocked \<longrightarrow> uxMessagesWaiting q1 = 0 \<and> xEventLists k2 ?l = ?L"
    using receive_check_runs [OF s1(2) k1(3) _ n0, of to] k1(1,2) unfolding l1 L by metis
  have lock1: "cTxLock q1 = of_nat m1" using p1(1) s0(2) by (simp add: posted_def)
  obtain m2 q3 k3 q4 k4 m3 q5 k5 q6 k6 m4 q7 k7 where a:
      "run_isrs (placed_gap g) (q1, k2) = Inr (m2, q3, k3)" "unlock_tx q3 k3 = Inr (q4, k4)"
      "run_isrs (unlock_gap g) (q4, k4) = Inr (m3, q5, k5)" "unlock_rx q5 k5 = Inr (q6, k6)"
      "run_isrs (unlocked_gap g) (q6, k6) = Inr (m4, q7, k7)" "waiting_state ?n ?d q7 k7"
      "woken_from ?l (m1 + m2 + m3 + m4) k2 k7" "uxMessagesWaiting q7 \<le> uxMessagesWaiting q1 + (m2 + m3 + m4)"
    using after_placing [OF c(2) lock1, of g] fits few p1(2) unfolding l1 gaps_fit_def list_all_iff by fastforce
  have k7: "kernel_ok k7" "uxSchedulerSuspended k7 = 1" "0 < uxCurrentNumberOfTasks k7"
    using a(6,7) c(3,4) w by (simp_all add: waiting_state_def woken_from_def may_wait_def)
  obtain k8 where k8: "wait_resume dec k7 = Inr k8" "kernel_ok k8" "wakes k7 k8" "\<forall>x\<in>set (xPendingReadyList k7). is_ready k8 x"
    using wait_resume_runs [OF k7] by blast
  have run: "receive_round g to n0 q k = Inr (dec, to', n', q7, k8)"
    by (simp add: receive_round_def wait_begin_def s1(1) c(1) a(1-5) k8(1))
  have "is_ready k8 x \<and> x \<notin> set (xEventLists k8 ?l)" if b: "dec = Blocked" and x: "x \<in> set (take (uxMessagesWaiting q7) ?L)" for x
  proof -
    let ?m = "m1 + m2 + m3 + m4"
    have e: "xEventLists k2 ?l = ?L" "uxMessagesWaiting q7 \<le> ?m" using c(5) b a(8) by simp_all
    have "set (take (uxMessagesWaiting q7) ?L) \<subseteq> set (take ?m ?L)" by (rule set_take_subset_set_take [OF e(2)])
    then have xm: "x \<in> set (take ?m ?L)" using x by blast
    then have "is_ready k8 x" using k8(4) a(7) e(1) by (auto simp: woken_from_def)
    have "distinct ?L"
      using w distinct_vListInsert [of t "xEventLists k ?l"] by (simp add: may_wait_def events_ok_def queued_def)
    then have "x \<notin> set (drop ?m ?L)" using xm set_take_disj_set_drop_if_distinct [of ?L ?m ?m] by blast
    moreover have "set (xEventLists k8 ?l) \<subseteq> set (xEventLists k7 ?l)" using k8(3) by (simp add: wakes_def)
    moreover have "xEventLists k7 ?l = drop ?m ?L" using a(7) e(1) by (simp add: woken_from_def)
    ultimately have "x \<notin> set (xEventLists k8 ?l)" by auto
    then show ?thesis using \<open>is_ready k8 x\<close> by blast
  qed
  then show ?thesis using run k8(2) a(6) unfolding waiting_state_def by blast
qed

text \<open>A queue for two bytes, empty, on which \<open>main\<close>'s first task waits; an item comes when it is on the list.\<close>

definition empty_queue :: Queue_t where
  "empty_queue = blank_queue\<lparr>storage := [0, 0], pcTail := 2, pcReadFrom := 1, uxLength := 2, uxItemSize := 1,
     cRxLock := queueUNLOCKED, cTxLock := queueUNLOCKED\<rparr>"

definition late_item :: gaps where
  "late_item = \<lparr>locked_gap = [Isr_tick, Isr_receive], placed_gap = [Isr_send [5] queueSEND_TO_BACK, Isr_tick],
     unlock_gap = [], unlocked_gap = [Isr_tick]\<rparr>"

lemma late_item_runs:
  "case receive_round late_item (vTaskSetTimeOutState (booted ids_example)) 100 empty_queue (booted ids_example) of
     Inl _ \<Rightarrow> False | Inr (dec, _, _, q, k) \<Rightarrow> dec = Blocked \<and> uxMessagesWaiting q = 1 \<and> xEventLists k 2 = []"
  by code_simp

lemma booted_may_wait: "\<exists>t. may_wait t empty_queue (booted ids_example)"
proof -
  obtain t where "pxCurrentTCB (booted ids_example) = Some t" using booted_ok by (auto simp: kernel_ok_def)
  moreover have "xEventLists (booted ids_example) = (\<lambda>_. [])" "uxSchedulerSuspended (booted ids_example) = 0"
    "0 < uxCurrentNumberOfTasks (booted ids_example)"
    by (simp_all add: booted_def kernel_start_def)
  moreover have "queue_inv empty_queue"
    by (simp add: queue_inv_def read_slot_def empty_queue_def blank_queue_def)
  ultimately show ?thesis using booted_ok
    by (auto simp: may_wait_def events_ok_def) (simp_all add: empty_queue_def blank_queue_def)
qed

lemma queue_wakeup_not_lost_witness:
  "\<exists>t to' n' q' k'. receive_round late_item (vTaskSetTimeOutState (booted ids_example)) 100 empty_queue (booted ids_example) =
     Inr (Blocked, to', n', q', k') \<and> pxCurrentTCB (booted ids_example) = Some t \<and> uxMessagesWaiting q' = 1 \<and>
     is_ready k' t \<and> t \<notin> set (xEventLists k' 2)"
proof -
  obtain t where w: "may_wait t empty_queue (booted ids_example)" using booted_may_wait by blast
  have fits: "gaps_fit (uxLength empty_queue) (uxItemSize empty_queue) late_item"
    by (simp add: gaps_fit_def late_item_def empty_queue_def)
  have few: "length (locked_gap late_item) + length (placed_gap late_item) \<le> 127" by (simp add: late_item_def)
  obtain to' n' q' k' where r: "receive_round late_item (vTaskSetTimeOutState (booted ids_example)) 100 empty_queue (booted ids_example) =
      Inr (Blocked, to', n', q', k')" "uxMessagesWaiting q' = 1"
    using late_item_runs by (auto split: sum.splits prod.splits)
  have "queued (xTasksWaitingToReceive empty_queue) t (booted ids_example) = [t]" "xTasksWaitingToReceive empty_queue = 2"
    by (simp_all add: queued_def booted_def kernel_start_def empty_queue_def blank_queue_def)
  then have "is_ready k' t \<and> t \<notin> set (xEventLists k' 2)"
    using queue_wakeup_not_lost [OF w _ fits few, of 100 "vTaskSetTimeOutState (booted ids_example)"] r by simp
  then show ?thesis using r w by (auto simp: may_wait_def)
qed

text \<open>C23: the lock counts have 8 bits and are not checked. A queue is locked and up to 254 interrupts come before the
  unlock, \<open>m\<close> of which put something in. Up to 127 the unlock wakes the first \<open>m\<close> waiting tasks; from 128 on the count
  is negative, the loop of \<open>prvUnlockQueue\<close> does not run and nobody is woken, whatever lies in the queue.\<close>

theorem lock_count_wraps:
  assumes s: "waiting_state n d q k" and c: "cTxLock q = queueLOCKED_UNMODIFIED"
    and fits: "list_all (isr_fits n d) is" and few: "length is \<le> 254"
  shows "\<exists>m q1 k1 q2 k2. run_isrs is (q, k) = Inr (m, q1, k1) \<and> unlock_tx q1 k1 = Inr (q2, k2) \<and> cTxLock q2 = queueUNLOCKED \<and>
    xEventLists k2 (xTasksWaitingToReceive q) = drop (if m \<le> 127 then m else 0) (xEventLists k (xTasksWaitingToReceive q))"
proof -
  have h: "held_off q k" using s by (simp add: waiting_state_def)
  have c0: "cTxLock q = of_nat 0" using c by (simp add: queueLOCKED_UNMODIFIED_def)
  obtain m q1 k1 where r: "run_isrs is (q, k) = Inr (m, q1, k1)" "waiting_state n d q1 k1"
    using run_isrs_runs [OF s, of "is"] fits by (auto simp: list_all_iff)
  have p: "posted True m q k q1 k1" "m \<le> length is" using isrs_locked [OF r(1) h c0] few by simp_all
  then have count: "lock_count (cTxLock q1) = (if m \<le> 127 then m else 0)"
    using c0 few lock_count_small [of m] lock_count_wrapped [of m] by (simp add: posted_def)
  obtain k2 where k2: "unlock_loop (xTasksWaitingToReceive q1) (lock_count (cTxLock q1)) k1 = Inr k2"
    using unlock_loop_runs [of k1] r(2) by (auto simp: waiting_state_def)
  have "woken_from (xTasksWaitingToReceive q1) (lock_count (cTxLock q1)) k1 k2"
    using unlock_loop_woken [OF k2] r(2) by (simp add: waiting_state_def held_off_def)
  then have "xEventLists k2 (xTasksWaitingToReceive q) = drop (if m \<le> 127 then m else 0) (xEventLists k (xTasksWaitingToReceive q))"
    using p(1) unfolding count by (simp add: posted_def woken_from_def same_lists_def)
  then show ?thesis using r(1) k2 by (simp add: unlock_tx_def)
qed

text \<open>A locked semaphore with a count up to 200 and a task that waits for it; it is given 128 times.\<close>

definition semaphore200 :: Queue_t where
  "semaphore200 = blank_queue\<lparr>uxLength := 200, cRxLock := queueLOCKED_UNMODIFIED, cTxLock := queueLOCKED_UNMODIFIED,
     pcWriteTo := 0\<rparr>"

definition one_waits :: kernel where
  "one_waits = (case vTaskPlaceOnEventList 2 100 (vTaskSuspendAll (booted ids_example)) of Inl _ \<Rightarrow> kernel_start | Inr k \<Rightarrow> k)"

lemma gives_counted: "case run_isrs (replicate 128 Isr_give) (semaphore200, one_waits) of Inl _ \<Rightarrow> False | Inr (m, q, _) \<Rightarrow> m = 128 \<and> uxMessagesWaiting q = 128"
  by code_simp

lemma one_waits_state: "\<exists>t. waiting_state 200 0 semaphore200 one_waits \<and> xEventLists one_waits 2 = [t]"
proof -
  let ?k = "vTaskSuspendAll (booted ids_example)"
  obtain t where w: "may_wait t empty_queue (booted ids_example)" using booted_may_wait by blast
  have n: "(0 :: u32) < 100" by simp
  have k: "kernel_ok ?k" "pxCurrentTCB ?k = Some t" "xEventLists ?k = (\<lambda>_. [])"
    using w by (simp_all add: may_wait_def vTaskSuspendAll_def) (simp add: booted_def kernel_start_def)
  obtain k' where k': "vTaskPlaceOnEventList 2 100 ?k = Inr k'" "kernel_ok k'" "xEventLists k' = (xEventLists ?k)(2 := queued 2 t ?k)"
      "uxSchedulerSuspended k' = uxSchedulerSuspended ?k"
    using place_runs [OF k(1) n k(2), of 2] by blast
  have one: "one_waits = k'" by (simp add: one_waits_def k'(1))
  have lists: "xEventLists k' = (\<lambda>_. [])(2 := [t])" using k'(3) by (simp add: k(3) queued_def)
  have "queue_inv semaphore200" by (simp add: queue_inv_def read_slot_def semaphore200_def blank_queue_def)
  moreover have "held_off semaphore200 k'"
    using k'(4) by (auto simp: held_off_def lists vTaskSuspendAll_def events_ok_def semaphore200_def blank_queue_def)
  ultimately show ?thesis using k'(2) lists
    by (simp add: one waiting_state_def) (simp add: semaphore200_def blank_queue_def)
qed

lemma lock_count_wraps_witness:
  "\<exists>t q1 k1 q2 k2. xEventLists one_waits 2 = [t] \<and> run_isrs (replicate 128 Isr_give) (semaphore200, one_waits) = Inr (128, q1, k1) \<and>
     uxMessagesWaiting q1 = 128 \<and> unlock_tx q1 k1 = Inr (q2, k2) \<and> xEventLists k2 2 = [t]"
proof -
  obtain t where s: "waiting_state 200 0 semaphore200 one_waits" and t: "xEventLists one_waits 2 = [t]" using one_waits_state by blast
  have c: "cTxLock semaphore200 = queueLOCKED_UNMODIFIED" by (simp add: semaphore200_def)
  have fits: "list_all (isr_fits 200 0) (replicate 128 Isr_give)" by (simp add: list_all_iff)
  have few: "length (replicate 128 Isr_give) \<le> 254" by simp
  have w: "xTasksWaitingToReceive semaphore200 = 2" by (simp add: semaphore200_def blank_queue_def)
  show ?thesis using lock_count_wraps [OF s c fits few] gives_counted t unfolding w by (auto split: sum.splits prod.splits)
qed

end
