(* ===== verification/QueueMutex.thy ===== *)
theory QueueMutex
  imports QueueWait KernelPreempt
begin

text \<open>
  Mutexes: the holder runs with the priority of the most important task that waits, gets its own back with
  the last mutex it returns, and a recursive mutex is returned by as many gives as there were takes.
\<close>

section \<open>Lending a priority\<close>

definition mutex :: "Queue_t \<Rightarrow> bool" where
  "mutex q \<longleftrightarrow> is_mutex q \<and> uxItemSize q = 0 \<and> uxLength q = 1"

definition held_by :: "task \<Rightarrow> Queue_t \<Rightarrow> bool" where
  "held_by h q \<longleftrightarrow> mutex q \<and> uxMessagesWaiting q = 0 \<and> xMutexHolder q = Some h"

text \<open>What a change of the holder's priority leaves alone.\<close>

definition same_but_prio :: "task \<Rightarrow> kernel \<Rightarrow> kernel \<Rightarrow> bool" where
  "same_but_prio h k k' \<longleftrightarrow> (\<forall>x. is_ready k' x \<longleftrightarrow> is_ready k x) \<and> (\<forall>x. x \<noteq> h \<longrightarrow> prio k' x = prio k x) \<and>
     pxCurrentTCB k' = pxCurrentTCB k \<and> xEventLists k' = xEventLists k \<and>
     (\<forall>x. x \<noteq> h \<longrightarrow> xEventItemValue (tcbs k' x) = xEventItemValue (tcbs k x)) \<and>
     (\<forall>x. uxBasePriority (tcbs k' x) = uxBasePriority (tcbs k x) \<and> uxMutexesHeld (tcbs k' x) = uxMutexesHeld (tcbs k x)) \<and>
     uxSchedulerSuspended k' = uxSchedulerSuspended k"

lemma requeue_fields [simp]:
  "xEventLists (requeue p t k) = xEventLists k" "tcbs (requeue p t k) = tcbs k"
  "uxSchedulerSuspended (requeue p t k) = uxSchedulerSuspended k"
  by (simp_all add: requeue_def) (simp_all add: prvAddTaskToReadyList_def Let_def)

lemma inherit_runs:
  assumes k: "kernel_ok k" and t: "pxCurrentTCB k = Some t"
  shows "\<exists>b k'. xTaskPriorityInherit (Some h) k = Inr (b, k') \<and> kernel_ok k' \<and> same_but_prio h k k' \<and>
    prio k' h = max (prio k h) (prio k t) \<and> (b \<longleftrightarrow> uxBasePriority (tcbs k h) < prio k t \<or> prio k h < prio k t)"
proof (cases "prio k h < prio k t")
  case True
  let ?f = "(\<lambda>x. x\<lparr>uxPriority := prio k t\<rparr>) \<circ> set_event_value (prio k t)"
  let ?k = "requeue (prio k h) h (upd_tcb h ?f k)"
  have run: "xTaskPriorityInherit (Some h) k = Inr (True, ?k)"
    using True t by (simp add: xTaskPriorityInherit_def current_def upd_upd Let_def)
  have "same_but_prio h k ?k"
    using requeue_ready(1-3) [OF k, of h ?f] by (auto simp: same_but_prio_def) (simp_all add: upd_tcb_def)
  moreover have "prio ?k h = prio k t" using requeue_ready(2) [OF k, of h ?f h] by simp
  ultimately show ?thesis using run True ok_inherit [OF k run] by auto
next
  case False
  then show ?thesis using t k by (auto simp: xTaskPriorityInherit_def current_def same_but_prio_def)
qed

lemma place_ready:
  assumes k: "kernel_ok k" and n: "0 < n" and t: "pxCurrentTCB k = Some t"
  shows "\<exists>k'. vTaskPlaceOnEventList l n k = Inr k' \<and> kernel_ok k' \<and> xEventLists k' = (xEventLists k)(l := queued l t k) \<and>
    (\<forall>x. is_ready k' x \<longleftrightarrow> x \<noteq> t \<and> is_ready k x) \<and> prio k' = prio k"
proof -
  let ?k = "put_event_list l (queued l t k) t k"
  have "kernel_ok ?k" using k by simp
  then have k0: "kernel_inv ?k" "pxCurrentTCB ?k = Some t" using t by (simp_all add: kernel_ok_def put_event_list_def upd_tcb_def)
  obtain k1 where k1: "prvAddCurrentTaskToDelayedList n True ?k = Inr k1" "prio k1 = prio ?k"
      "\<forall>x. is_ready k1 x \<longleftrightarrow> x \<noteq> t \<and> is_ready ?k x"
    using add_delayed [OF k0 n, of True] by blast
  obtain k' where k': "vTaskPlaceOnEventList l n k = Inr k'" "kernel_ok k'" "xEventLists k' = (xEventLists k)(l := queued l t k)"
    using place_runs [OF k n t, of l] by blast
  have "vTaskPlaceOnEventList l n k = Inr k1" using k1(1) t by (simp add: vTaskPlaceOnEventList_def current_def queued_def)
  then have "k' = k1" using k'(1) by simp
  moreover have "is_ready ?k x = is_ready k x" "prio ?k x = prio k x" for x
    by (simp_all add: put_event_list_def upd_tcb_def is_ready_def ready_at_def prio_def)
  ultimately show ?thesis using k' k1(2,3) by (auto simp: fun_eq_iff)
qed

text \<open>C24: priority inheritance. The running task \<open>t\<close> asks for a mutex that \<open>h\<close> holds and its time is not over. The call
  puts it on the mutex's list, in order of priority, and no longer ready; the holder now has the priority of
  \<open>t\<close> if its own was lower, it stays ready if it was, and no other task, base priority or count of held mutexes
  changes. So no task of a priority between the two can keep the holder from running while \<open>t\<close> waits for it.\<close>

theorem mutex_lends_priority:
  assumes k: "kernel_ok k" and t: "pxCurrentTCB k = Some t" and h: "held_by h q" and o: "xTaskCheckForTimeOut to n k = (False, to1, n1)"
    and n: "0 < n"
  shows "\<exists>inh k'. take_check inh0 to n q k = Inr (inh, Blocked, to1, n1, k') \<and> kernel_ok k' \<and>
    prio k' h = max (prio k h) (prio k t) \<and> (\<forall>x. x \<noteq> h \<longrightarrow> prio k' x = prio k x) \<and>
    (\<forall>x. is_ready k' x \<longleftrightarrow> x \<noteq> t \<and> is_ready k x) \<and> t \<in> set (xEventLists k' (xTasksWaitingToReceive q)) \<and>
    (inh \<longleftrightarrow> uxBasePriority (tcbs k h) < prio k t \<or> prio k h < prio k t)"
proof -
  obtain b k1 where k1: "xTaskPriorityInherit (Some h) k = Inr (b, k1)" "kernel_ok k1" "same_but_prio h k k1"
      "prio k1 h = max (prio k h) (prio k t)" "b \<longleftrightarrow> uxBasePriority (tcbs k h) < prio k t \<or> prio k h < prio k t"
    using inherit_runs [OF k t, of h] by blast
  have t1: "pxCurrentTCB k1 = Some t" using k1(3) t by (simp add: same_but_prio_def)
  obtain k2 where k2: "vTaskPlaceOnEventList (xTasksWaitingToReceive q) n1 k1 = Inr k2" "kernel_ok k2"
      "xEventLists k2 = (xEventLists k1)(xTasksWaitingToReceive q := queued (xTasksWaitingToReceive q) t k1)"
      "\<forall>x. is_ready k2 x \<longleftrightarrow> x \<noteq> t \<and> is_ready k1 x" "prio k2 = prio k1"
    using place_ready [OF k1(2) ticks_left [OF o n] t1] by blast
  have "take_check inh0 to n q k = Inr (b, Blocked, to1, n1, k2)"
    using h k1(1) k2(1) by (simp add: take_check_def o held_by_def mutex_def prvIsQueueEmpty_def)
  moreover have "t \<in> set (xEventLists k2 (xTasksWaitingToReceive q))" by (simp add: k2(3) queued_def)
  ultimately show ?thesis using k1(3-5) k2(2,4,5) by (intro exI [of _ b] exI [of _ k2]) (simp add: same_but_prio_def)
qed

section \<open>Giving a mutex back\<close>

lemma disinherit_runs:
  assumes k: "kernel_ok k" and h: "pxCurrentTCB k = Some h" and m: "0 < uxMutexesHeld (tcbs k h)"
  shows "\<exists>b k'. xTaskPriorityDisinherit (Some h) k = Inr (b, k') \<and> kernel_ok k' \<and> xEventLists k' = xEventLists k \<and>
    uxSchedulerSuspended k' = uxSchedulerSuspended k \<and> pxCurrentTCB k' = Some h \<and>
    uxMutexesHeld (tcbs k' h) = uxMutexesHeld (tcbs k h) - 1 \<and> uxBasePriority (tcbs k' h) = uxBasePriority (tcbs k h) \<and>
    prio k' h = (if uxMutexesHeld (tcbs k h) = 1 then uxBasePriority (tcbs k h) else prio k h)"
proof -
  define k1 where "k1 = upd_tcb h (\<lambda>c. c\<lparr>uxMutexesHeld := uxMutexesHeld c - 1\<rparr>) k"
  let ?f = "\<lambda>c. c\<lparr>uxPriority := uxBasePriority c, xEventItemValue := event_value (uxBasePriority c)\<rparr>"
  define k2 where "k2 = prvAddTaskToReadyList h (upd_tcb h ?f (remove_state_item h k1))"
  have k1: "kernel_ok k1" "tcbs k1 h = (tcbs k h)\<lparr>uxMutexesHeld := uxMutexesHeld (tcbs k h) - 1\<rparr>" "xEventLists k1 = xEventLists k"
    "uxSchedulerSuspended k1 = uxSchedulerSuspended k" "pxCurrentTCB k1 = Some h"
    using k h by (simp_all add: k1_def) (simp_all add: upd_tcb_def)
  have k2: "tcbs k2 h = ?f (tcbs k1 h)" "xEventLists k2 = xEventLists k1" "uxSchedulerSuspended k2 = uxSchedulerSuspended k1"
    "pxCurrentTCB k2 = pxCurrentTCB k1"
    by (simp_all add: k2_def) (simp_all add: prvAddTaskToReadyList_def Let_def upd_tcb_def)
  have ok2: "kernel_ok k2" unfolding k2_def by (rule ok_change(2) [OF k1(1)]) simp
  have run: "xTaskPriorityDisinherit (Some h) k =
      (if uxPriority (tcbs k1 h) \<noteq> uxBasePriority (tcbs k1 h) \<and> uxMutexesHeld (tcbs k1 h) = 0 then Inr (True, k2) else Inr (False, k1))"
    using h m by (simp add: xTaskPriorityDisinherit_def k1_def k2_def Let_def)
  show ?thesis
  proof (cases "uxPriority (tcbs k1 h) \<noteq> uxBasePriority (tcbs k1 h) \<and> uxMutexesHeld (tcbs k1 h) = 0")
    case True
    then show ?thesis using run ok2 k1 k2 m by (intro exI [of _ True] exI [of _ k2]) (simp add: prio_def)
  next
    case False
    then show ?thesis using run k1 m by (intro exI [of _ False] exI [of _ k1]) (auto simp: prio_def)
  qed
qed

lemma give_back_runs:
  assumes k: "kernel_ok k" and h: "held_by h q" "pxCurrentTCB k = Some h" "0 < uxMutexesHeld (tcbs k h)"
    and s: "uxSchedulerSuspended k = 0"
  shows "\<exists>q' k'. xQueueGenericSend_now None queueSEND_TO_BACK q k = Inr (Finished True, q', k') \<and> kernel_ok k' \<and>
    uxMessagesWaiting q' = 1 \<and> xMutexHolder q' = None \<and> mutex q' \<and>
    uxMutexesHeld (tcbs k' h) = uxMutexesHeld (tcbs k h) - 1 \<and>
    prio k' h = (if uxMutexesHeld (tcbs k h) = 1 then uxBasePriority (tcbs k h) else prio k h) \<and>
    (\<forall>x xs. xEventLists k (xTasksWaitingToReceive q) = x # xs \<longrightarrow> is_ready k' x \<and> xEventLists k' (xTasksWaitingToReceive q) = xs)"
proof -
  let ?l = "xTasksWaitingToReceive q"
  obtain b k1 where k1: "xTaskPriorityDisinherit (Some h) k = Inr (b, k1)" "kernel_ok k1" "xEventLists k1 = xEventLists k"
      "uxSchedulerSuspended k1 = 0" "uxMutexesHeld (tcbs k1 h) = uxMutexesHeld (tcbs k h) - 1"
      "prio k1 h = (if uxMutexesHeld (tcbs k h) = 1 then uxBasePriority (tcbs k h) else prio k h)"
    using disinherit_runs [OF k h(2,3)] s by auto
  let ?q = "q\<lparr>xMutexHolder := None, uxMessagesWaiting := 1\<rparr>"
  have run: "xQueueGenericSend_now None queueSEND_TO_BACK q k =
      (if xEventLists k1 ?l \<noteq> [] then bindR (wake_and_yield ?l k1) (\<lambda>k2. Inr (Finished True, ?q, k2))
       else Inr (Finished True, ?q, if b then portYIELD k1 else k1))"
    using h(1) k1(1) by (simp add: xQueueGenericSend_now_def send_asserts_def xQueueGenericSend_try_def held_by_def mutex_def
        prvCopyDataToQueue_def Let_def)
  have q: "mutex ?q" using h(1) by (simp add: held_by_def mutex_def)
  show ?thesis
  proof (cases "xEventLists k ?l")
    case Nil
    then show ?thesis using run k1 q by (intro exI [of _ ?q] exI [of _ "if b then portYIELD k1 else k1"]) (auto simp: k1(3) portYIELD_def prio_def)
  next
    case (Cons x xs)
    define k2 where "k2 = prvAddTaskToReadyList x (remove_state_item x (remove_event_item x k1))"
    obtain c where c: "current k1 = Inr c" using ok_current [OF k1(2)] by blast
    have l0: "kernel_ok (remove_event_item x k1)" using k1(2) by simp
    have ok2: "kernel_ok k2" unfolding k2_def by (rule ok_move [OF l0])
    have ready: "is_ready k2 x" using move_ready(2) [of "remove_event_item x k1" x x] l0 by (simp add: k2_def kernel_ok_def kernel_inv_def)
    have lists: "xEventLists k2 ?l = xs" using Cons by (simp add: k2_def k1(3))
    have tcb: "uxMutexesHeld (tcbs k2 h) = uxMutexesHeld (tcbs k1 h)" "prio k2 h = prio k1 h"
      by (simp_all add: k2_def prvAddTaskToReadyList_def Let_def remove_event_item_def upd_tcb_def prio_def)
    have "xTaskRemoveFromEventList ?l k1 = Inr (if prio k1 c < prio k1 x then (True, k2\<lparr>xYieldPending := True\<rparr>) else (False, k2))"
      using Cons c k1(4) by (simp add: xTaskRemoveFromEventList_def k1(3) k2_def Let_def)
    then obtain k3 where w: "wake_and_yield ?l k1 = Inr k3" "k3 = k2 \<or> k3 = portYIELD (k2\<lparr>xYieldPending := True\<rparr>)"
      using Cons by (auto simp: wake_and_yield_def wake_waiting_def k1(3) split: if_splits)
    have "xQueueGenericSend_now None queueSEND_TO_BACK q k = Inr (Finished True, ?q, k3)" using run w(1) Cons by (simp add: k1(3))
    moreover have "kernel_ok k3" "is_ready k3 x" "xEventLists k3 ?l = xs" "uxMutexesHeld (tcbs k3 h) = uxMutexesHeld (tcbs k1 h)" "prio k3 h = prio k1 h"
      using w(2) ok2 ready lists tcb by (auto simp: portYIELD_def prio_def)
    ultimately show ?thesis using k1(5,6) q Cons by (intro exI [of _ ?q] exI [of _ k3]) simp
  qed
qed

text \<open>C25: giving a mutex back. The running holder gives the mutex: the call returns at once, the mutex is free, the task holds
  one mutex less, and with the last one it has its base priority again, whatever it inherited in between. If
  tasks wait for the mutex the most important one is off the list and ready.\<close>

theorem mutex_given_back:
  assumes k: "kernel_ok k" and h: "held_by h q" "pxCurrentTCB k = Some h" "0 < uxMutexesHeld (tcbs k h)"
    and s: "uxSchedulerSuspended k = 0"
  shows "\<exists>q' k'. xQueueGenericSend_now None queueSEND_TO_BACK q k = Inr (Finished True, q', k') \<and> kernel_ok k' \<and>
    uxMessagesWaiting q' = 1 \<and> xMutexHolder q' = None \<and> mutex q' \<and>
    uxMutexesHeld (tcbs k' h) = uxMutexesHeld (tcbs k h) - 1 \<and>
    prio k' h = (if uxMutexesHeld (tcbs k h) = 1 then uxBasePriority (tcbs k h) else prio k h) \<and>
    (\<forall>x xs. xEventLists k (xTasksWaitingToReceive q) = x # xs \<longrightarrow> is_ready k' x \<and> xEventLists k' (xTasksWaitingToReceive q) = xs)"
  by (rule give_back_runs [OF assms])

section \<open>Recursive mutexes\<close>

definition free_mutex :: "Queue_t \<Rightarrow> bool" where
  "free_mutex q \<longleftrightarrow> mutex q \<and> uxMessagesWaiting q = 1 \<and> xMutexHolder q = None"

definition take_once :: "Queue_t \<times> kernel \<Rightarrow> (bool outcome \<times> Queue_t \<times> kernel) res" where
  "take_once = (\<lambda>(q, k). xQueueTakeMutexRecursive_try 0 q k)"

definition give_once :: "Queue_t \<times> kernel \<Rightarrow> (bool \<times> Queue_t \<times> kernel) res" where
  "give_once = (\<lambda>(q, k). xQueueGiveMutexRecursive q k)"

definition counted :: "Queue_t \<Rightarrow> nat \<Rightarrow> Queue_t" where
  "counted q c = q\<lparr>uxRecursiveCallCount := of_nat c\<rparr>"

lemma counted_fields [simp]:
  "uxRecursiveCallCount (counted q c) = of_nat c" "xMutexHolder (counted q c) = xMutexHolder q"
  "held_by t (counted q c) = held_by t q" "(counted q c)\<lparr>uxRecursiveCallCount := v\<rparr> = q\<lparr>uxRecursiveCallCount := v\<rparr>"
  "xTasksWaitingToReceive (counted q c) = xTasksWaitingToReceive q"
  by (simp_all add: counted_def held_by_def mutex_def)

lemma take_again:
  assumes "held_by t q" and "pxCurrentTCB k = Some t"
  shows "run_all (\<lambda>_. take_once) (replicate m ()) (counted q c, k) = Inr (replicate m (Finished True), counted q (c + m), k)"
proof (induction m arbitrary: c)
  case (Suc m)
  have "take_once (counted q c, k) = Inr (Finished True, counted q (Suc c), k)"
    using assms by (simp add: take_once_def xQueueTakeMutexRecursive_try_def xTaskGetCurrentTaskHandle_def held_by_def)
      (simp add: counted_def add.commute)
  then show ?case using Suc [of "Suc c"] by simp
qed simp

lemma give_some:
  assumes "held_by t q" and "pxCurrentTCB k = Some t" and "m < c" and "c < 2 ^ 32"
  shows "run_all (\<lambda>_. give_once) (replicate m ()) (counted q c, k) = Inr (replicate m True, counted q (c - m), k)"
  using assms(3,4)
proof (induction m arbitrary: c)
  case (Suc m)
  obtain b where b: "c = Suc b" "0 < b" "b < 2 ^ 32" using Suc.prems by (cases c) auto
  have "unat (of_nat b :: u32) = b" using b(3) by (simp add: unat_of_nat take_bit_nat_eq_self)
  then have "(of_nat b :: u32) \<noteq> 0" using b(2) by fastforce
  then have "give_once (counted q c, k) = Inr (True, counted q b, k)"
    using assms(1,2) by (simp add: b(1) give_once_def xQueueGiveMutexRecursive_def xTaskGetCurrentTaskHandle_def held_by_def)
      (simp add: counted_def Let_def)
  then show ?case using Suc.IH [of b] Suc.prems by (simp add: b(1))
qed simp

lemma run_all_append:
  "run_all f xs s = Inr (as, s1) \<Longrightarrow> run_all f ys s1 = Inr (bs, s2) \<Longrightarrow> run_all f (xs @ ys) s = Inr (as @ bs, s2)"
  by (induction xs arbitrary: s as) (auto simp: bindR_Inr_iff)

text \<open>The first take and the last give.\<close>

lemma first_take:
  assumes q: "free_mutex q" "uxRecursiveCallCount q = 0" and t: "pxCurrentTCB k = Some t" and none: "xEventLists k (xTasksWaitingToSend q) = []"
  shows "take_once (q, k) = Inr (Finished True, counted (q\<lparr>uxMessagesWaiting := 0, xMutexHolder := Some t\<rparr>) 1,
    upd_tcb t (\<lambda>c. c\<lparr>uxMutexesHeld := Suc (uxMutexesHeld c)\<rparr>) k)"
proof -
  let ?k = "upd_tcb t (\<lambda>c. c\<lparr>uxMutexesHeld := Suc (uxMutexesHeld c)\<rparr>) k"
  have "wake_and_yield (xTasksWaitingToSend q) ?k = Inr ?k" using none by (simp add: wake_and_yield_def wake_waiting_def)
  then show ?thesis
    using q t by (simp add: take_once_def xQueueTakeMutexRecursive_try_def xTaskGetCurrentTaskHandle_def free_mutex_def mutex_def
        take_asserts_def xQueueSemaphoreTake_try_def pvTaskIncrementMutexHeldCount_def take_recursive_end_def counted_def Let_def)
qed

lemma last_give:
  assumes k: "kernel_ok k" and h: "held_by t q" "pxCurrentTCB k = Some t" "0 < uxMutexesHeld (tcbs k t)" and s: "uxSchedulerSuspended k = 0"
  shows "\<exists>q' k'. give_once (counted q 1, k) = Inr (True, q', k') \<and> kernel_ok k' \<and> free_mutex q' \<and> uxRecursiveCallCount q' = 0 \<and>
    uxMutexesHeld (tcbs k' t) = uxMutexesHeld (tcbs k t) - 1"
proof -
  have h0: "held_by t (counted q 0)" using h(1) by simp
  obtain q' k' where g: "xQueueGenericSend_now None queueSEND_TO_BACK (counted q 0) k = Inr (Finished True, q', k')" "kernel_ok k'"
      "uxMessagesWaiting q' = 1" "xMutexHolder q' = None" "mutex q'" "uxMutexesHeld (tcbs k' t) = uxMutexesHeld (tcbs k t) - 1"
    using give_back_runs [OF k h0 h(2,3) s] by blast
  have "uxRecursiveCallCount q' = 0"
    using g(1) h(1) by (auto simp: xQueueGenericSend_now_def xQueueGenericSend_try_def prvCopyDataToQueue_def held_by_def mutex_def
        counted_def Let_def bindR_Inr_iff split: if_splits)
  moreover have "give_once (counted q 1, k) = Inr (True, q', k')"
    using g(1) h(1,2) by (simp add: give_once_def xQueueGiveMutexRecursive_def xTaskGetCurrentTaskHandle_def held_by_def Let_def)
      (simp add: counted_def)
  ultimately show ?thesis using g by (simp add: free_mutex_def)
qed

text \<open>C26: a recursive mutex goes round. The running task takes a free one \<open>n\<close> times and gives it \<open>n\<close> times. Every call
  succeeds; after fewer than \<open>n\<close> gives the task still holds it; after \<open>n\<close> it is free, its count is zero
  and the task holds as many mutexes as before.\<close>

theorem recursive_mutex_round_trip:
  assumes k: "kernel_ok k" and t: "pxCurrentTCB k = Some t" and s: "uxSchedulerSuspended k = 0"
    and q: "free_mutex q" "uxRecursiveCallCount q = 0" and none: "xEventLists k (xTasksWaitingToSend q) = []"
    and n: "0 < n" "n < 2 ^ 32"
  shows "\<exists>q1 k1 q2 k2. run_all (\<lambda>_. take_once) (replicate n ()) (q, k) = Inr (replicate n (Finished True), q1, k1) \<and>
    held_by t q1 \<and> uxMutexesHeld (tcbs k1 t) = Suc (uxMutexesHeld (tcbs k t)) \<and>
    (\<forall>m<n. \<exists>q' k'. run_all (\<lambda>_. give_once) (replicate m ()) (q1, k1) = Inr (replicate m True, q', k') \<and> held_by t q') \<and>
    run_all (\<lambda>_. give_once) (replicate n ()) (q1, k1) = Inr (replicate n True, q2, k2) \<and>
    free_mutex q2 \<and> uxRecursiveCallCount q2 = 0 \<and> uxMutexesHeld (tcbs k2 t) = uxMutexesHeld (tcbs k t) \<and> kernel_ok k2"
proof -
  let ?q = "q\<lparr>uxMessagesWaiting := 0, xMutexHolder := Some t\<rparr>"
  let ?k = "upd_tcb t (\<lambda>c. c\<lparr>uxMutexesHeld := Suc (uxMutexesHeld c)\<rparr>) k"
  obtain m where m: "n = Suc m" using n(1) by (cases n) auto
  have held: "held_by t ?q" using q(1) by (simp add: held_by_def free_mutex_def mutex_def)
  have k1: "kernel_ok ?k" "pxCurrentTCB ?k = Some t" "uxSchedulerSuspended ?k = 0" "uxMutexesHeld (tcbs ?k t) = Suc (uxMutexesHeld (tcbs k t))"
    using k t s by simp_all (simp_all add: upd_tcb_def)
  have takes: "run_all (\<lambda>_. take_once) (replicate n ()) (q, k) = Inr (replicate n (Finished True), counted ?q n, ?k)"
    using first_take [OF q t none] take_again [OF held k1(2), of m 1] by (simp add: m)
  have some: "run_all (\<lambda>_. give_once) (replicate i ()) (counted ?q n, ?k) = Inr (replicate i True, counted ?q (n - i), ?k)" if "i < n" for i
    by (rule give_some [OF held k1(2) that n(2)])
  obtain q2 k2 where g: "give_once (counted ?q 1, ?k) = Inr (True, q2, k2)" "kernel_ok k2" "free_mutex q2" "uxRecursiveCallCount q2 = 0"
      "uxMutexesHeld (tcbs k2 t) = uxMutexesHeld (tcbs k t)"
    using last_give [OF k1(1) held k1(2) _ k1(3)] k1(4) by auto
  have "run_all (\<lambda>_. give_once) (replicate m () @ [()]) (counted ?q n, ?k) = Inr (replicate m True @ [True], q2, k2)"
    by (rule run_all_append [OF some]) (simp_all add: m g(1) [unfolded One_nat_def])
  then have gives: "run_all (\<lambda>_. give_once) (replicate n ()) (counted ?q n, ?k) = Inr (replicate n True, q2, k2)"
    by (simp add: m replicate_append_same)
  show ?thesis using takes gives g(2-5) held some k1(4)
    by (intro exI [of _ "counted ?q n"] exI [of _ ?k] exI [of _ q2] exI [of _ k2]) auto
qed

section \<open>Examples\<close>

definition mutex_example :: Queue_t where
  "mutex_example = blank_queue\<lparr>is_mutex := True, uxLength := 1, uxMessagesWaiting := 1,
     cRxLock := queueUNLOCKED, cTxLock := queueUNLOCKED\<rparr>"

definition taken_by :: "task \<Rightarrow> Queue_t" where
  "taken_by h = mutex_example\<lparr>uxMessagesWaiting := 0, xMutexHolder := Some h\<rparr>"

lemma taken_by_held [simp]: "held_by h (taken_by h)"
  by (simp add: held_by_def mutex_def taken_by_def mutex_example_def blank_queue_def)

lemma booted_example:
  "pxCurrentTCB (booted ids_example) = Some 1" "xEventLists (booted ids_example) = (\<lambda>_. [])"
  "uxSchedulerSuspended (booted ids_example) = 0" "prio (booted ids_example) 6 = 0" "prio (booted ids_example) 1 = 5"
  "uxBasePriority (tcbs (booted ids_example) 1) = 5" "uxMutexesHeld (tcbs (booted ids_example) 1) = 0"
  by (simp_all add: booted_def kernel_start_def ids_example_def prio_def new_tcb_def configMAX_PRIORITIES_def)

lemma mutex_lends_priority_witness:
  "\<exists>inh to1 n1 k'. take_check False (vTaskSetTimeOutState (booted ids_example)) 50 (taken_by 6) (booted ids_example) =
     Inr (inh, Blocked, to1, n1, k') \<and> prio (booted ids_example) 6 = 0 \<and> prio k' 6 = 5"
proof -
  let ?to = "vTaskSetTimeOutState (booted ids_example)"
  have o: "xTaskCheckForTimeOut ?to 50 (booted ids_example) = (False, ?to, 50)"
    by (simp add: xTaskCheckForTimeOut_def vTaskSetTimeOutState_def portMAX_DELAY_def Let_def)
  show ?thesis
    using mutex_lends_priority [OF booted_ok booted_example(1) taken_by_held [of 6] o, of False] booted_example(4,5) by auto
qed

text \<open>The first task has inherited a priority through the mutex it holds, and the timer task waits for it.\<close>

definition holder_kernel :: kernel where
  "holder_kernel = requeue 5 1 (upd_tcb 1 (\<lambda>c. c\<lparr>uxMutexesHeld := 1, uxPriority := 9\<rparr>)
     ((booted ids_example)\<lparr>xEventLists := (\<lambda>_. [])(2 := [7])\<rparr>))"

lemma mutex_given_back_witness:
  "\<exists>q' k'. xQueueGenericSend_now None queueSEND_TO_BACK (taken_by 1) holder_kernel = Inr (Finished True, q', k') \<and>
     prio holder_kernel 1 = 9 \<and> prio k' 1 = 5 \<and> uxMessagesWaiting q' = 1 \<and> is_ready k' 7 \<and> xEventLists k' 2 = []"
proof -
  let ?k = "(booted ids_example)\<lparr>xEventLists := (\<lambda>_. [])(2 := [7])\<rparr>"
  let ?f = "\<lambda>c :: tcb. c\<lparr>uxMutexesHeld := 1, uxPriority := 9\<rparr>"
  have k: "kernel_ok ?k" "prio ?k 1 = 5" using booted_ok booted_example(5) by (simp_all add: prio_def)
  have ok: "kernel_ok holder_kernel" unfolding holder_kernel_def using ok_change(1) [OF k(1), of ?f 1] k(2) by simp
  have f: "pxCurrentTCB holder_kernel = Some 1" "uxSchedulerSuspended holder_kernel = 0" "xEventLists holder_kernel = (\<lambda>_. [])(2 := [7])"
    "tcbs holder_kernel 1 = ?f (tcbs (booted ids_example) 1)"
    using requeue_ready(3) [OF k(1), of 1 ?f] k(2) booted_example by (simp_all add: holder_kernel_def) (simp_all add: upd_tcb_def)
  have "xTasksWaitingToReceive (taken_by 1) = 2" by (simp add: taken_by_def mutex_example_def blank_queue_def)
  then show ?thesis
    using mutex_given_back [OF ok taken_by_held f(1) _ f(2)] f(3,4) booted_example(6) by (auto simp: prio_def)
qed

lemma recursive_mutex_round_trip_witness:
  "\<exists>q1 k1 q2 k2. run_all (\<lambda>_. take_once) (replicate 3 ()) (mutex_example, booted ids_example) = Inr (replicate 3 (Finished True), q1, k1) \<and>
    held_by 1 q1 \<and> run_all (\<lambda>_. give_once) (replicate 3 ()) (q1, k1) = Inr (replicate 3 True, q2, k2) \<and> free_mutex q2"
proof -
  have q: "free_mutex mutex_example" "uxRecursiveCallCount mutex_example = 0"
    by (simp_all add: free_mutex_def mutex_def mutex_example_def blank_queue_def)
  have none: "xEventLists (booted ids_example) (xTasksWaitingToSend mutex_example) = []" by (simp add: booted_example(2))
  show ?thesis
    using recursive_mutex_round_trip [OF booted_ok booted_example(1,3) q none, of 3] by fastforce
qed

end
