(* ===== verification/Timers.thy ===== *)
theory Timers
  imports QueueDeque
begin

text \<open>
  Software timers, timers.c of FreeRTOS, as configured here: a queue of ten commands, static allocation
  of the queue, pended function calls included. A timer is the address of its control block. The two lists
  of active timers belong to the timer task; other tasks and interrupts send it commands through a queue of
  queue.c, as sixteen bytes each.

  The functions the task calls back are code of the application: the parameter \<open>cb\<close> says what they do. The
  calls are recorded in \<open>calls\<close> with the tick count at which they were made.
\<close>

section \<open>The data\<close>

type_synonym timer = u32

definition tmrSTATUS_IS_ACTIVE :: u8 where "tmrSTATUS_IS_ACTIVE = 1"
definition tmrSTATUS_IS_STATICALLY_ALLOCATED :: u8 where "tmrSTATUS_IS_STATICALLY_ALLOCATED = 2"
definition tmrSTATUS_IS_AUTORELOAD :: u8 where "tmrSTATUS_IS_AUTORELOAD = 4"

text \<open>The value of \<open>xTimerListItem\<close> is \<open>xExpiryTime\<close>; its container is the list the timer is in.\<close>

record Timer_t =
  pcTimerName :: string
  xExpiryTime :: u32
  xTimerPeriodInTicks :: u32
  pvTimerID :: u32
  pxCallbackFunction :: u32
  uxTimerNumber :: u32
  ucStatus :: u8

datatype callback = Expired u32 timer | Pended u32 u32 u32

text \<open>\<open>xStaticTimerQueue\<close> is the control block of the queue before it is created, \<open>pxStaticTimerQueue\<close> its address;
  \<open>xLastTime\<close> is the static variable of \<open>prvSampleTimeNow\<close>.\<close>

record timers =
  tmr :: "timer \<Rightarrow> Timer_t"
  pxCurrentTimerList :: "timer list"
  pxOverflowTimerList :: "timer list"
  xTimerQueue :: "Queue_t option"
  xTimerTaskHandle :: "task option"
  xLastTime :: u32
  xStaticTimerQueue :: Queue_t
  pxStaticTimerQueue :: u32
  xQueueRegistry :: registry
  tkern :: kernel
  theap :: heap4
  calls :: "(callback \<times> u32) list"

type_synonym timer_app = "callback \<Rightarrow> timers \<Rightarrow> timers res"

definition upd_timer :: "timer \<Rightarrow> (Timer_t \<Rightarrow> Timer_t) \<Rightarrow> timers \<Rightarrow> timers" where
  "upd_timer t f s = s\<lparr>tmr := (tmr s)(t := f (tmr s t))\<rparr>"

definition set_status :: "u8 \<Rightarrow> timer \<Rightarrow> timers \<Rightarrow> timers" where
  "set_status m t = upd_timer t (\<lambda>x. x\<lparr>ucStatus := ucStatus x OR m\<rparr>)"

definition clear_status :: "u8 \<Rightarrow> timer \<Rightarrow> timers \<Rightarrow> timers" where
  "clear_status m t = upd_timer t (\<lambda>x. x\<lparr>ucStatus := ucStatus x AND NOT m\<rparr>)"

definition has_status :: "u8 \<Rightarrow> timer \<Rightarrow> timers \<Rightarrow> bool" where
  "has_status m t s \<longleftrightarrow> ucStatus (tmr s t) AND m \<noteq> 0"

definition call_back :: "timer_app \<Rightarrow> callback \<Rightarrow> timers \<Rightarrow> timers res" where
  "call_back cb c s = cb c (s\<lparr>calls := calls s @ [(c, xTickCount (tkern s))]\<rparr>)"

text \<open>\<open>pxTimer->pxCallbackFunction( pxTimer )\<close>.\<close>

definition expire :: "timer_app \<Rightarrow> timer \<Rightarrow> timers \<Rightarrow> timers res" where
  "expire cb t s = call_back cb (Expired (pxCallbackFunction (tmr s t)) t) s"

text \<open>\<open>uxListRemove\<close> of the item of a timer, and \<open>listIS_CONTAINED_WITHIN( NULL, ... )\<close> negated.\<close>

definition remove_timer :: "timer \<Rightarrow> timers \<Rightarrow> timers" where
  "remove_timer t s = s\<lparr>pxCurrentTimerList := remove1 t (pxCurrentTimerList s),
     pxOverflowTimerList := remove1 t (pxOverflowTimerList s)\<rparr>"

definition in_timer_list :: "timer \<Rightarrow> timers \<Rightarrow> bool" where
  "in_timer_list t s \<longleftrightarrow> t \<in> set (pxCurrentTimerList s) \<or> t \<in> set (pxOverflowTimerList s)"

definition insert_current :: "timer \<Rightarrow> timers \<Rightarrow> timers" where
  "insert_current t s =
     s\<lparr>pxCurrentTimerList := vListInsert (\<lambda>x. xExpiryTime (tmr s x)) t (pxCurrentTimerList s)\<rparr>"

definition insert_overflow :: "timer \<Rightarrow> timers \<Rightarrow> timers" where
  "insert_overflow t s =
     s\<lparr>pxOverflowTimerList := vListInsert (\<lambda>x. xExpiryTime (tmr s x)) t (pxOverflowTimerList s)\<rparr>"

section \<open>Messages\<close>

definition tmrCOMMAND_EXECUTE_CALLBACK_FROM_ISR :: u32 where "tmrCOMMAND_EXECUTE_CALLBACK_FROM_ISR = - 2"
definition tmrCOMMAND_EXECUTE_CALLBACK :: u32 where "tmrCOMMAND_EXECUTE_CALLBACK = - 1"
definition tmrCOMMAND_START_DONT_TRACE :: u32 where "tmrCOMMAND_START_DONT_TRACE = 0"
definition tmrCOMMAND_START :: u32 where "tmrCOMMAND_START = 1"
definition tmrCOMMAND_RESET :: u32 where "tmrCOMMAND_RESET = 2"
definition tmrCOMMAND_STOP :: u32 where "tmrCOMMAND_STOP = 3"
definition tmrCOMMAND_CHANGE_PERIOD :: u32 where "tmrCOMMAND_CHANGE_PERIOD = 4"
definition tmrCOMMAND_DELETE :: u32 where "tmrCOMMAND_DELETE = 5"
definition tmrFIRST_FROM_ISR_COMMAND :: u32 where "tmrFIRST_FROM_ISR_COMMAND = 6"
definition tmrCOMMAND_START_FROM_ISR :: u32 where "tmrCOMMAND_START_FROM_ISR = 6"
definition tmrCOMMAND_RESET_FROM_ISR :: u32 where "tmrCOMMAND_RESET_FROM_ISR = 7"
definition tmrCOMMAND_STOP_FROM_ISR :: u32 where "tmrCOMMAND_STOP_FROM_ISR = 8"
definition tmrCOMMAND_CHANGE_PERIOD_FROM_ISR :: u32 where "tmrCOMMAND_CHANGE_PERIOD_FROM_ISR = 9"

lemmas command_ids =
  tmrCOMMAND_EXECUTE_CALLBACK_FROM_ISR_def tmrCOMMAND_EXECUTE_CALLBACK_def tmrCOMMAND_START_DONT_TRACE_def
  tmrCOMMAND_START_def tmrCOMMAND_RESET_def tmrCOMMAND_STOP_def tmrCOMMAND_CHANGE_PERIOD_def
  tmrCOMMAND_DELETE_def tmrFIRST_FROM_ISR_COMMAND_def tmrCOMMAND_START_FROM_ISR_def
  tmrCOMMAND_RESET_FROM_ISR_def tmrCOMMAND_STOP_FROM_ISR_def tmrCOMMAND_CHANGE_PERIOD_FROM_ISR_def

text \<open>The union \<open>u\<close> as its words: \<open>xMessageValue\<close> and \<open>pxTimer\<close> of a timer command, and the third word is not used;
  \<open>pxCallbackFunction\<close>, \<open>pvParameter1\<close> and \<open>ulParameter2\<close> of a pended call.\<close>

record DaemonTaskMessage_t =
  xMessageID :: u32
  u_word1 :: u32
  u_word2 :: u32
  u_word3 :: u32

definition sizeof_DaemonTaskMessage_t :: nat where "sizeof_DaemonTaskMessage_t = 16"

definition message_bytes :: "DaemonTaskMessage_t \<Rightarrow> u8 list" where
  "message_bytes m = le32 (xMessageID m) @ le32 (u_word1 m) @ le32 (u_word2 m) @ le32 (u_word3 m)"

definition message_of_bytes :: "u8 list \<Rightarrow> DaemonTaskMessage_t" where
  "message_of_bytes b = \<lparr>xMessageID = of_le32 (take 4 b), u_word1 = of_le32 (take 4 (drop 4 b)),
     u_word2 = of_le32 (take 4 (drop 8 b)), u_word3 = of_le32 (take 4 (drop 12 b))\<rparr>"

section \<open>Creation\<close>

definition configTIMER_QUEUE_LENGTH :: nat where "configTIMER_QUEUE_LENGTH = 10"

definition prvCheckForValidListAndQueue :: "timers \<Rightarrow> timers res" where
  "prvCheckForValidListAndQueue s =
     (if xTimerQueue s = None then
        bindR (xQueueGenericCreateStatic configTIMER_QUEUE_LENGTH sizeof_DaemonTaskMessage_t
                 (Some (replicate (configTIMER_QUEUE_LENGTH * sizeof_DaemonTaskMessage_t) 0))
                 (Some (xStaticTimerQueue s)) (tkern s)) (\<lambda>(q, k).
        Inr (s\<lparr>pxCurrentTimerList := [], pxOverflowTimerList := [], xTimerQueue := Some q, tkern := k,
               xQueueRegistry := vQueueAddToRegistry (pxStaticTimerQueue s) (Some ''TmrQ'') (xQueueRegistry s)\<rparr>))
      else Inr s)"

text \<open>\<open>xTimerTaskTCB\<close> is the memory \<open>vApplicationGetTimerTaskMemory\<close> provides.\<close>

definition xTimerCreateTimerTask :: "task \<Rightarrow> timers \<Rightarrow> timers res" where
  "xTimerCreateTimerTask xTimerTaskTCB s =
     bindR (prvCheckForValidListAndQueue s) (\<lambda>s1.
     bindR (assertR (xTimerQueue s1 \<noteq> None)) (\<lambda>_.
     bindR (xTaskCreateStatic xTimerTaskTCB configTIMER_TASK_PRIORITY (tkern s1)) (\<lambda>k.
     Inr (s1\<lparr>tkern := k, xTimerTaskHandle := Some xTimerTaskTCB\<rparr>))))"

definition prvInitialiseNewTimer :: "string \<Rightarrow> u32 \<Rightarrow> bool \<Rightarrow> u32 \<Rightarrow> u32 \<Rightarrow> timer \<Rightarrow> timers \<Rightarrow> timers res" where
  "prvInitialiseNewTimer name period uxAutoReload timerID callbackFunction pxNewTimer s =
     bindR (assertR (0 < period)) (\<lambda>_.
     if pxNewTimer \<noteq> 0 then
       bindR (prvCheckForValidListAndQueue s) (\<lambda>s1.
       let s2 = upd_timer pxNewTimer (\<lambda>x. x\<lparr>pcTimerName := name, xTimerPeriodInTicks := period,
                  pvTimerID := timerID, pxCallbackFunction := callbackFunction\<rparr>) s1 in
       Inr (if uxAutoReload then set_status tmrSTATUS_IS_AUTORELOAD pxNewTimer s2 else s2))
     else Inr s)"

definition sizeof_Timer_t :: u32 where "sizeof_Timer_t = 44"

definition xTimerCreate ::
    "placement \<Rightarrow> string \<Rightarrow> u32 \<Rightarrow> bool \<Rightarrow> u32 \<Rightarrow> u32 \<Rightarrow> timers \<Rightarrow> (timer \<times> timers) res" where
  "xTimerCreate pl name period uxAutoReload timerID callbackFunction s =
     bindR (pvPortMalloc pl sizeof_Timer_t (theap s, tkern s)) (\<lambda>(pxNewTimer, h, k).
     let s1 = s\<lparr>theap := h, tkern := k\<rparr> in
     if pxNewTimer \<noteq> 0 then
       bindR (prvInitialiseNewTimer name period uxAutoReload timerID callbackFunction pxNewTimer
                (upd_timer pxNewTimer (\<lambda>x. x\<lparr>ucStatus := 0\<rparr>) s1)) (\<lambda>s2. Inr (pxNewTimer, s2))
     else Inr (pxNewTimer, s1))"

definition xTimerCreateStatic ::
    "string \<Rightarrow> u32 \<Rightarrow> bool \<Rightarrow> u32 \<Rightarrow> u32 \<Rightarrow> timer \<Rightarrow> timers \<Rightarrow> (timer \<times> timers) res" where
  "xTimerCreateStatic name period uxAutoReload timerID callbackFunction pxTimerBuffer s =
     bindR (assertR (pxTimerBuffer \<noteq> 0)) (\<lambda>_.
     bindR (prvInitialiseNewTimer name period uxAutoReload timerID callbackFunction pxTimerBuffer
              (upd_timer pxTimerBuffer (\<lambda>x. x\<lparr>ucStatus := tmrSTATUS_IS_STATICALLY_ALLOCATED\<rparr>) s)) (\<lambda>s1.
     Inr (pxTimerBuffer, s1)))"

section \<open>Sending commands\<close>

text \<open>The first round of the call of \<open>xQueueSendToBack\<close>; when it must wait, the sender goes on as any sender of
  queue.c does. The second component is \<open>*pxHigherPriorityTaskWoken\<close>.\<close>

definition send_message :: "DaemonTaskMessage_t \<Rightarrow> u32 \<Rightarrow> timers \<Rightarrow> (bool outcome \<times> timers) res" where
  "send_message m xTicksToWait s =
     (case xTimerQueue s of None \<Rightarrow> Inl Assert_failed
      | Some q \<Rightarrow>
          bindR (send_asserts (Some (message_bytes m)) xTicksToWait queueSEND_TO_BACK q (tkern s)) (\<lambda>_.
          bindR (xQueueGenericSend_try (Some (message_bytes m)) xTicksToWait queueSEND_TO_BACK None q (tkern s))
            (\<lambda>(r, q1, k). Inr (r, s\<lparr>xTimerQueue := Some q1, tkern := k\<rparr>))))"

definition send_message_from_isr :: "DaemonTaskMessage_t \<Rightarrow> bool \<Rightarrow> timers \<Rightarrow> (bool \<times> bool \<times> timers) res" where
  "send_message_from_isr m xTaskWoken s =
     (case xTimerQueue s of None \<Rightarrow> Inl Assert_failed
      | Some q \<Rightarrow>
          bindR (xQueueGenericSendFromISR (Some (message_bytes m)) queueSEND_TO_BACK xTaskWoken q (tkern s)) (\<lambda>(b, q1, k, w).
          Inr (b, w, s\<lparr>xTimerQueue := Some q1, tkern := k\<rparr>)))"

definition xTimerGenericCommand ::
    "timer \<Rightarrow> u32 \<Rightarrow> u32 \<Rightarrow> bool \<Rightarrow> u32 \<Rightarrow> timers \<Rightarrow> (bool outcome \<times> bool \<times> timers) res" where
  "xTimerGenericCommand xTimer xCommandID xOptionalValue xTaskWoken xTicksToWait s =
     bindR (assertR (xTimer \<noteq> 0)) (\<lambda>_.
     if xTimerQueue s \<noteq> None then
       let m = \<lparr>xMessageID = xCommandID, u_word1 = xOptionalValue, u_word2 = xTimer, u_word3 = 0\<rparr> in
       if sint xCommandID < sint tmrFIRST_FROM_ISR_COMMAND then
         bindR (send_message m
           (if xTaskGetSchedulerState (tkern s) = taskSCHEDULER_RUNNING then xTicksToWait else 0) s) (\<lambda>(r, s1).
         Inr (r, xTaskWoken, s1))
       else bindR (send_message_from_isr m xTaskWoken s) (\<lambda>(b, w, s1). Inr (Finished b, w, s1))
     else Inr (Finished False, xTaskWoken, s))"

text \<open>The macros of timers.h.\<close>

definition xTimerStart :: "timer \<Rightarrow> u32 \<Rightarrow> timers \<Rightarrow> (bool outcome \<times> bool \<times> timers) res" where
  "xTimerStart t xTicksToWait s =
     xTimerGenericCommand t tmrCOMMAND_START (xTaskGetTickCount (tkern s)) False xTicksToWait s"

definition xTimerStop :: "timer \<Rightarrow> u32 \<Rightarrow> timers \<Rightarrow> (bool outcome \<times> bool \<times> timers) res" where
  "xTimerStop t xTicksToWait s = xTimerGenericCommand t tmrCOMMAND_STOP 0 False xTicksToWait s"

definition xTimerChangePeriod :: "timer \<Rightarrow> u32 \<Rightarrow> u32 \<Rightarrow> timers \<Rightarrow> (bool outcome \<times> bool \<times> timers) res" where
  "xTimerChangePeriod t xNewPeriod xTicksToWait s =
     xTimerGenericCommand t tmrCOMMAND_CHANGE_PERIOD xNewPeriod False xTicksToWait s"

definition xTimerDelete :: "timer \<Rightarrow> u32 \<Rightarrow> timers \<Rightarrow> (bool outcome \<times> bool \<times> timers) res" where
  "xTimerDelete t xTicksToWait s = xTimerGenericCommand t tmrCOMMAND_DELETE 0 False xTicksToWait s"

definition xTimerReset :: "timer \<Rightarrow> u32 \<Rightarrow> timers \<Rightarrow> (bool outcome \<times> bool \<times> timers) res" where
  "xTimerReset t xTicksToWait s =
     xTimerGenericCommand t tmrCOMMAND_RESET (xTaskGetTickCount (tkern s)) False xTicksToWait s"

definition xTimerStartFromISR :: "timer \<Rightarrow> bool \<Rightarrow> timers \<Rightarrow> (bool outcome \<times> bool \<times> timers) res" where
  "xTimerStartFromISR t xTaskWoken s =
     xTimerGenericCommand t tmrCOMMAND_START_FROM_ISR (xTaskGetTickCount (tkern s)) xTaskWoken 0 s"

definition xTimerStopFromISR :: "timer \<Rightarrow> bool \<Rightarrow> timers \<Rightarrow> (bool outcome \<times> bool \<times> timers) res" where
  "xTimerStopFromISR t xTaskWoken s = xTimerGenericCommand t tmrCOMMAND_STOP_FROM_ISR 0 xTaskWoken 0 s"

definition xTimerChangePeriodFromISR :: "timer \<Rightarrow> u32 \<Rightarrow> bool \<Rightarrow> timers \<Rightarrow> (bool outcome \<times> bool \<times> timers) res" where
  "xTimerChangePeriodFromISR t xNewPeriod xTaskWoken s =
     xTimerGenericCommand t tmrCOMMAND_CHANGE_PERIOD_FROM_ISR xNewPeriod xTaskWoken 0 s"

definition xTimerResetFromISR :: "timer \<Rightarrow> bool \<Rightarrow> timers \<Rightarrow> (bool outcome \<times> bool \<times> timers) res" where
  "xTimerResetFromISR t xTaskWoken s =
     xTimerGenericCommand t tmrCOMMAND_RESET_FROM_ISR (xTaskGetTickCount (tkern s)) xTaskWoken 0 s"

definition xTimerPendFunctionCall :: "u32 \<Rightarrow> u32 \<Rightarrow> u32 \<Rightarrow> u32 \<Rightarrow> timers \<Rightarrow> (bool outcome \<times> timers) res" where
  "xTimerPendFunctionCall xFunctionToPend pvParameter1 ulParameter2 xTicksToWait s =
     bindR (assertR (xTimerQueue s \<noteq> None)) (\<lambda>_.
     send_message \<lparr>xMessageID = tmrCOMMAND_EXECUTE_CALLBACK, u_word1 = xFunctionToPend, u_word2 = pvParameter1,
       u_word3 = ulParameter2\<rparr> xTicksToWait s)"

definition xTimerPendFunctionCallFromISR :: "u32 \<Rightarrow> u32 \<Rightarrow> u32 \<Rightarrow> bool \<Rightarrow> timers \<Rightarrow> (bool \<times> bool \<times> timers) res" where
  "xTimerPendFunctionCallFromISR xFunctionToPend pvParameter1 ulParameter2 xTaskWoken s =
     send_message_from_isr \<lparr>xMessageID = tmrCOMMAND_EXECUTE_CALLBACK_FROM_ISR, u_word1 = xFunctionToPend,
       u_word2 = pvParameter1, u_word3 = ulParameter2\<rparr> xTaskWoken s"

section \<open>Questions\<close>

text \<open>Every function on a timer refuses a \<open>NULL\<close> handle.\<close>

definition of_timer :: "(Timer_t \<Rightarrow> 'a) \<Rightarrow> timer \<Rightarrow> timers \<Rightarrow> 'a res" where
  "of_timer f xTimer s = bindR (assertR (xTimer \<noteq> 0)) (\<lambda>_. Inr (f (tmr s xTimer)))"

definition xTimerGetTimerDaemonTaskHandle :: "timers \<Rightarrow> task res" where
  "xTimerGetTimerDaemonTaskHandle s =
     (case xTimerTaskHandle s of None \<Rightarrow> Inl Assert_failed | Some t \<Rightarrow> Inr t)"

definition xTimerGetPeriod :: "timer \<Rightarrow> timers \<Rightarrow> u32 res" where
  "xTimerGetPeriod = of_timer xTimerPeriodInTicks"

definition xTimerGetExpiryTime :: "timer \<Rightarrow> timers \<Rightarrow> u32 res" where
  "xTimerGetExpiryTime = of_timer xExpiryTime"

definition pcTimerGetName :: "timer \<Rightarrow> timers \<Rightarrow> string res" where
  "pcTimerGetName = of_timer pcTimerName"

definition pvTimerGetTimerID :: "timer \<Rightarrow> timers \<Rightarrow> u32 res" where
  "pvTimerGetTimerID = of_timer pvTimerID"

definition uxTimerGetReloadMode :: "timer \<Rightarrow> timers \<Rightarrow> bool res" where
  "uxTimerGetReloadMode = of_timer (\<lambda>x. ucStatus x AND tmrSTATUS_IS_AUTORELOAD \<noteq> 0)"

definition xTimerIsTimerActive :: "timer \<Rightarrow> timers \<Rightarrow> bool res" where
  "xTimerIsTimerActive = of_timer (\<lambda>x. ucStatus x AND tmrSTATUS_IS_ACTIVE \<noteq> 0)"

definition vTimerSetReloadMode :: "timer \<Rightarrow> bool \<Rightarrow> timers \<Rightarrow> timers res" where
  "vTimerSetReloadMode xTimer uxAutoReload s =
     bindR (assertR (xTimer \<noteq> 0)) (\<lambda>_.
     Inr (if uxAutoReload then set_status tmrSTATUS_IS_AUTORELOAD xTimer s
          else clear_status tmrSTATUS_IS_AUTORELOAD xTimer s))"

definition vTimerSetTimerID :: "timer \<Rightarrow> u32 \<Rightarrow> timers \<Rightarrow> timers res" where
  "vTimerSetTimerID xTimer pvNewID s =
     bindR (assertR (xTimer \<noteq> 0)) (\<lambda>_. Inr (upd_timer xTimer (\<lambda>x. x\<lparr>pvTimerID := pvNewID\<rparr>) s))"

definition uxTimerGetTimerNumber :: "timer \<Rightarrow> timers \<Rightarrow> u32" where
  "uxTimerGetTimerNumber xTimer s = uxTimerNumber (tmr s xTimer)"

definition vTimerSetTimerNumber :: "timer \<Rightarrow> u32 \<Rightarrow> timers \<Rightarrow> timers" where
  "vTimerSetTimerNumber xTimer n = upd_timer xTimer (\<lambda>x. x\<lparr>uxTimerNumber := n\<rparr>)"

section \<open>The timer task: time and expiry\<close>

text \<open>A command to itself without waiting; it must not be refused.\<close>

definition restart :: "timer \<Rightarrow> u32 \<Rightarrow> timers \<Rightarrow> timers res" where
  "restart t v s =
     bindR (xTimerGenericCommand t tmrCOMMAND_START_DONT_TRACE v False 0 s) (\<lambda>(xResult, _, s1).
     bindR (assertR (xResult = Finished True)) (\<lambda>_. Inr s1))"

definition prvInsertTimerInActiveList :: "timer \<Rightarrow> u32 \<Rightarrow> u32 \<Rightarrow> u32 \<Rightarrow> timers \<Rightarrow> bool \<times> timers" where
  "prvInsertTimerInActiveList t xNextExpiryTime xTimeNow xCommandTime s =
     (let s1 = upd_timer t (\<lambda>x. x\<lparr>xExpiryTime := xNextExpiryTime\<rparr>) s in
      if xNextExpiryTime \<le> xTimeNow then
        if xTimerPeriodInTicks (tmr s1 t) \<le> xTimeNow - xCommandTime then (True, s1)
        else (False, insert_overflow t s1)
      else if xTimeNow < xCommandTime \<and> xCommandTime \<le> xNextExpiryTime then (True, s1)
      else (False, insert_current t s1))"

text \<open>One turn of the loop of \<open>prvSwitchTimerLists\<close>, for the head \<open>t\<close> of the current list.\<close>

definition switch_step :: "timer_app \<Rightarrow> timer \<Rightarrow> timers \<Rightarrow> timers res" where
  "switch_step cb t s =
     (let xNextExpireTime = xExpiryTime (tmr s t) in
      bindR (expire cb t (remove_timer t s)) (\<lambda>s1.
      if has_status tmrSTATUS_IS_AUTORELOAD t s1 then
        let xReloadTime = xNextExpireTime + xTimerPeriodInTicks (tmr s1 t) in
        if xNextExpireTime < xReloadTime
        then Inr (insert_current t (upd_timer t (\<lambda>x. x\<lparr>xExpiryTime := xReloadTime\<rparr>) s1))
        else restart t xNextExpireTime s1
      else Inr s1))"

text \<open>The loop ends when the list is empty; what the callbacks do decides whether it ever is.\<close>

partial_function (option) switch_loop :: "timer_app \<Rightarrow> timers \<Rightarrow> timers res option" where
  "switch_loop cb s =
     (case pxCurrentTimerList s of [] \<Rightarrow> Some (Inr s)
      | t # _ \<Rightarrow> (case switch_step cb t s of Inl e \<Rightarrow> Some (Inl e) | Inr s1 \<Rightarrow> switch_loop cb s1))"

definition ends :: "'a res option \<Rightarrow> 'a res" where
  "ends x = (case x of None \<Rightarrow> Inl No_return | Some r \<Rightarrow> r)"

definition prvSwitchTimerLists :: "timer_app \<Rightarrow> timers \<Rightarrow> timers res" where
  "prvSwitchTimerLists cb s =
     bindR (ends (switch_loop cb s)) (\<lambda>s1.
     Inr (s1\<lparr>pxCurrentTimerList := pxOverflowTimerList s1, pxOverflowTimerList := pxCurrentTimerList s1\<rparr>))"

definition prvSampleTimeNow :: "timer_app \<Rightarrow> timers \<Rightarrow> (u32 \<times> bool \<times> timers) res" where
  "prvSampleTimeNow cb s =
     (let xTimeNow = xTaskGetTickCount (tkern s) in
      if xTimeNow < xLastTime s
      then bindR (prvSwitchTimerLists cb s) (\<lambda>s1. Inr (xTimeNow, True, s1\<lparr>xLastTime := xTimeNow\<rparr>))
      else Inr (xTimeNow, False, s\<lparr>xLastTime := xTimeNow\<rparr>))"

definition prvGetNextExpireTime :: "timers \<Rightarrow> u32 \<times> bool" where
  "prvGetNextExpireTime s =
     (case pxCurrentTimerList s of [] \<Rightarrow> (0, True) | t # _ \<Rightarrow> (xExpiryTime (tmr s t), False))"

definition prvProcessExpiredTimer :: "timer_app \<Rightarrow> u32 \<Rightarrow> u32 \<Rightarrow> timers \<Rightarrow> timers res" where
  "prvProcessExpiredTimer cb xNextExpireTime xTimeNow s =
     (case pxCurrentTimerList s of [] \<Rightarrow> Inl Bounds
      | t # _ \<Rightarrow>
          let s1 = remove_timer t s in
          bindR (if has_status tmrSTATUS_IS_AUTORELOAD t s1 then
                   let (late, s2) = prvInsertTimerInActiveList t
                         (xNextExpireTime + xTimerPeriodInTicks (tmr s1 t)) xTimeNow xNextExpireTime s1 in
                   if late then restart t xNextExpireTime s2 else Inr s2
                 else Inr (clear_status tmrSTATUS_IS_ACTIVE t s1)) (\<lambda>s3.
          expire cb t s3))"

text \<open>When the task blocks it gives up the processor at the end of the function.\<close>

definition prvProcessTimerOrBlockTask :: "timer_app \<Rightarrow> u32 \<Rightarrow> bool \<Rightarrow> timers \<Rightarrow> timers res" where
  "prvProcessTimerOrBlockTask cb xNextExpireTime xListWasEmpty s =
     bindR (prvSampleTimeNow cb (s\<lparr>tkern := vTaskSuspendAll (tkern s)\<rparr>)) (\<lambda>(xTimeNow, switched, s1).
     if \<not> switched then
       if \<not> xListWasEmpty \<and> xNextExpireTime \<le> xTimeNow then
         bindR (xTaskResumeAll (tkern s1)) (\<lambda>(_, k).
         prvProcessExpiredTimer cb xNextExpireTime xTimeNow (s1\<lparr>tkern := k\<rparr>))
       else
         case xTimerQueue s1 of None \<Rightarrow> Inl Assert_failed
         | Some q \<Rightarrow>
             bindR (vQueueWaitForMessageRestricted (xNextExpireTime - xTimeNow)
                      (xListWasEmpty \<and> pxOverflowTimerList s1 = []) q (tkern s1)) (\<lambda>(q1, k1).
             bindR (xTaskResumeAll k1) (\<lambda>(xAlreadyYielded, k2).
             Inr (s1\<lparr>xTimerQueue := Some q1, tkern := if xAlreadyYielded then k2 else portYIELD k2\<rparr>)))
     else bindR (xTaskResumeAll (tkern s1)) (\<lambda>(_, k). Inr (s1\<lparr>tkern := k\<rparr>)))"

section \<open>The timer task: commands\<close>

definition is_start :: "u32 \<Rightarrow> bool" where
  "is_start c \<longleftrightarrow> c = tmrCOMMAND_START \<or> c = tmrCOMMAND_START_FROM_ISR \<or> c = tmrCOMMAND_RESET \<or>
     c = tmrCOMMAND_RESET_FROM_ISR \<or> c = tmrCOMMAND_START_DONT_TRACE"

definition start_command :: "timer_app \<Rightarrow> timer \<Rightarrow> u32 \<Rightarrow> u32 \<Rightarrow> timers \<Rightarrow> timers res" where
  "start_command cb t v xTimeNow s =
     (let s1 = set_status tmrSTATUS_IS_ACTIVE t s;
          (late, s2) = prvInsertTimerInActiveList t (v + xTimerPeriodInTicks (tmr s1 t)) xTimeNow v s1 in
      if late then
        bindR (expire cb t s2) (\<lambda>s3.
        if has_status tmrSTATUS_IS_AUTORELOAD t s3 then restart t (v + xTimerPeriodInTicks (tmr s3 t)) s3 else Inr s3)
      else Inr s2)"

definition change_period_command :: "timer \<Rightarrow> u32 \<Rightarrow> u32 \<Rightarrow> timers \<Rightarrow> timers res" where
  "change_period_command t v xTimeNow s =
     (let s1 = upd_timer t (\<lambda>x. x\<lparr>xTimerPeriodInTicks := v\<rparr>) (set_status tmrSTATUS_IS_ACTIVE t s) in
      bindR (assertR (0 < v)) (\<lambda>_.
      Inr (snd (prvInsertTimerInActiveList t (xTimeNow + v) xTimeNow xTimeNow s1))))"

definition delete_command :: "placement \<Rightarrow> timer \<Rightarrow> timers \<Rightarrow> timers res" where
  "delete_command pl t s =
     (if \<not> has_status tmrSTATUS_IS_STATICALLY_ALLOCATED t s
      then bindR (vPortFree pl t (theap s, tkern s)) (\<lambda>(h, k). Inr (s\<lparr>theap := h, tkern := k\<rparr>))
      else Inr (clear_status tmrSTATUS_IS_ACTIVE t s))"

text \<open>The body of the loop of \<open>prvProcessReceivedCommands\<close> for the message \<open>m\<close>. A negative \<open>xMessageID\<close> is a
  pended call and nothing else.\<close>

definition process_command :: "placement \<Rightarrow> timer_app \<Rightarrow> DaemonTaskMessage_t \<Rightarrow> timers \<Rightarrow> timers res" where
  "process_command pl cb m s =
     (if sint (xMessageID m) < 0 then call_back cb (Pended (u_word1 m) (u_word2 m) (u_word3 m)) s
      else
        let t = u_word2 m;
            s1 = (if in_timer_list t s then remove_timer t s else s) in
        bindR (prvSampleTimeNow cb s1) (\<lambda>(xTimeNow, _, s2).
        if is_start (xMessageID m) then start_command cb t (u_word1 m) xTimeNow s2
        else if xMessageID m = tmrCOMMAND_STOP \<or> xMessageID m = tmrCOMMAND_STOP_FROM_ISR
        then Inr (clear_status tmrSTATUS_IS_ACTIVE t s2)
        else if xMessageID m = tmrCOMMAND_CHANGE_PERIOD \<or> xMessageID m = tmrCOMMAND_CHANGE_PERIOD_FROM_ISR
        then change_period_command t (u_word1 m) xTimeNow s2
        else if xMessageID m = tmrCOMMAND_DELETE then delete_command pl t s2
        else Inr s2))"

definition receive_command :: "timers \<Rightarrow> (DaemonTaskMessage_t option \<times> timers) res" where
  "receive_command s =
     (case xTimerQueue s of None \<Rightarrow> Inl Assert_failed
      | Some q \<Rightarrow>
          bindR (receive_asserts False 0 q (tkern s)) (\<lambda>_.
          bindR (xQueueReceive_try 0 None q (tkern s)) (\<lambda>(r, q1, k).
          let s1 = s\<lparr>xTimerQueue := Some q1, tkern := k\<rparr> in
          case r of Finished (Some b) \<Rightarrow> Inr (Some (message_of_bytes b), s1) | _ \<Rightarrow> Inr (None, s1))))"

partial_function (option) commands_loop :: "placement \<Rightarrow> timer_app \<Rightarrow> timers \<Rightarrow> timers res option" where
  "commands_loop pl cb s =
     (case receive_command s of Inl e \<Rightarrow> Some (Inl e)
      | Inr (None, s1) \<Rightarrow> Some (Inr s1)
      | Inr (Some m, s1) \<Rightarrow>
          (case process_command pl cb m s1 of Inl e \<Rightarrow> Some (Inl e) | Inr s2 \<Rightarrow> commands_loop pl cb s2))"

definition prvProcessReceivedCommands :: "placement \<Rightarrow> timer_app \<Rightarrow> timers \<Rightarrow> timers res" where
  "prvProcessReceivedCommands pl cb s = ends (commands_loop pl cb s)"

text \<open>One turn of the loop of \<open>prvTimerTask\<close>, up to where it can give up the processor, and the rest.\<close>

definition prvTimerTask_check :: "timer_app \<Rightarrow> timers \<Rightarrow> timers res" where
  "prvTimerTask_check cb s =
     (let (xNextExpireTime, xListWasEmpty) = prvGetNextExpireTime s in
      prvProcessTimerOrBlockTask cb xNextExpireTime xListWasEmpty s)"

definition prvTimerTask_commands :: "placement \<Rightarrow> timer_app \<Rightarrow> timers \<Rightarrow> timers res" where
  "prvTimerTask_commands = prvProcessReceivedCommands"

end
