(* ===== verification/Heap4Layout.thy ===== *)
theory Heap4Layout
  imports Heap4
begin

text \<open>
  The memory as a layout. The blocks of the heap, free and in use, lie one behind the other from its
  first address to \<open>pxEnd\<close>: the layout is the list of their sizes with a flag for use. The block headers
  represent a layout; the loops over the free list end, and allocation and release are first fit and
  joining on layouts.
\<close>

section \<open>Layouts\<close>

type_synonym layout = "(nat \<times> bool) list"

definition adr :: "nat \<Rightarrow> u32" where "adr n = of_nat n"

lemma adr_plus [simp]: "adr a + adr b = adr (a + b)" "adr a + (adr b + z) = adr (a + b) + z"
  by (simp_all add: adr_def)

lemma unat_adr: "a < 2 ^ 32 \<Longrightarrow> unat (adr a) = a"
  by (simp add: adr_def unat_of_nat_small)

lemma adr_zero [simp]: "adr 0 = 0"
  by (simp add: adr_def)

lemma adr_simps:
  assumes "a < 2 ^ 32" and "b < 2 ^ 32"
  shows "adr a = adr b \<longleftrightarrow> a = b" "adr a < adr b \<longleftrightarrow> a < b" "adr a \<le> adr b \<longleftrightarrow> a \<le> b"
  using assms by (simp_all add: word_less_nat_alt word_le_nat_alt word_unat_eq_iff unat_adr)

lemma adr_0: "a < 2 ^ 32 \<Longrightarrow> adr a = 0 \<longleftrightarrow> a = 0"
  using adr_simps(1) [of a 0] by simp

definition extent :: "layout \<Rightarrow> nat" where "extent bs = sum_list (map fst bs)"

lemma extent_simps [simp]:
  "extent [] = 0" "extent (b # bs) = fst b + extent bs" "extent (xs @ ys) = extent xs + extent ys"
  by (simp_all add: extent_def)

text \<open>The first free block from address \<open>a\<close> on, \<open>nx\<close> if there is none; the last one, \<open>q\<close> if there is none.\<close>

fun next_free :: "nat \<Rightarrow> layout \<Rightarrow> nat \<Rightarrow> nat" where
  "next_free a [] nx = nx"
| "next_free a ((s, u) # bs) nx = (if u then next_free (a + s) bs nx else a)"

fun last_free :: "u32 \<Rightarrow> nat \<Rightarrow> layout \<Rightarrow> u32" where
  "last_free q a [] = q"
| "last_free q a ((s, u) # bs) = last_free (if u then q else adr a) (a + s) bs"

definition top_bit :: u32 where "top_bit = push_bit 31 1"

text \<open>The free blocks are chained; the blocks in use carry their size and the top bit.\<close>

fun chain :: "(u32 \<Rightarrow> BlockLink_t) \<Rightarrow> nat \<Rightarrow> layout \<Rightarrow> nat \<Rightarrow> bool" where
  "chain m a [] nx = True"
| "chain m a ((s, u) # bs) nx =
     ((u \<or> m (adr a) = \<lparr>pxNextFreeBlock = adr (next_free (a + s) bs nx), xBlockSize = adr s\<rparr>) \<and> chain m (a + s) bs nx)"

fun headers :: "(u32 \<Rightarrow> BlockLink_t) \<Rightarrow> nat \<Rightarrow> layout \<Rightarrow> bool" where
  "headers m a [] = True"
| "headers m a ((s, u) # bs) =
     ((u \<longrightarrow> m (adr a) = \<lparr>pxNextFreeBlock = 0, xBlockSize = adr s OR top_bit\<rparr>) \<and> headers m (a + s) bs)"

definition sizes_ok :: "layout \<Rightarrow> bool" where
  "sizes_ok bs \<longleftrightarrow> (\<forall>b\<in>set bs. 0 < fst b \<and> 8 dvd fst b)"

fun joined :: "layout \<Rightarrow> bool" where
  "joined (b # c # bs) = ((snd b \<or> snd c) \<and> joined (c # bs))"
| "joined _ = True"

definition free_bytes :: "layout \<Rightarrow> nat" where
  "free_bytes bs = extent (filter (\<lambda>b. \<not> snd b) bs)"

lemma free_bytes_simps [simp]:
  "free_bytes [] = 0" "free_bytes (b # bs) = (if snd b then 0 else fst b) + free_bytes bs"
  "free_bytes (xs @ ys) = free_bytes xs + free_bytes ys"
  by (simp_all add: free_bytes_def)

lemma sizes_ok_simps [simp]:
  "sizes_ok []" "sizes_ok (b # bs) \<longleftrightarrow> 0 < fst b \<and> 8 dvd fst b \<and> sizes_ok bs"
  "sizes_ok (xs @ ys) \<longleftrightarrow> sizes_ok xs \<and> sizes_ok ys"
  by (auto simp: sizes_ok_def)

lemma joined_append: "joined (xs @ c # ys) \<longleftrightarrow> joined (xs @ [c]) \<and> joined (c # ys)"
  by (induction xs rule: joined.induct) auto

lemma joined_parts: "joined (xs @ ys) \<Longrightarrow> joined xs" "joined (xs @ ys) \<Longrightarrow> joined ys"
  by (induction xs rule: joined.induct; cases ys; auto)+

lemma next_free_append: "next_free a (xs @ ys) nx = next_free a xs (next_free (a + extent xs) ys nx)"
  by (induction a xs nx rule: next_free.induct) (auto simp: add.assoc)

lemma chain_append:
  "chain m a (xs @ ys) nx \<longleftrightarrow> chain m a xs (next_free (a + extent xs) ys nx) \<and> chain m (a + extent xs) ys nx"
  by (induction m a xs nx rule: chain.induct) (auto simp: next_free_append add.assoc)

lemma headers_append: "headers m a (xs @ ys) \<longleftrightarrow> headers m a xs \<and> headers m (a + extent xs) ys"
  by (induction m a xs rule: headers.induct) (auto simp: add.assoc)

lemma last_free_append: "last_free q a (xs @ ys) = last_free (last_free q a xs) (a + extent xs) ys"
  by (induction q a xs rule: last_free.induct) (auto simp: add.assoc)

lemma next_free_bounds: "a + extent bs \<le> nx \<Longrightarrow> a \<le> next_free a bs nx \<and> next_free a bs nx \<le> nx"
  by (induction a bs nx rule: next_free.induct) auto

text \<open>Changes elsewhere.\<close>

lemma chain_cong: "(\<And>x. a \<le> x \<Longrightarrow> x < a + extent bs \<Longrightarrow> m' (adr x) = m (adr x)) \<Longrightarrow> sizes_ok bs \<Longrightarrow> chain m' a bs nx = chain m a bs nx"
  by (induction m a bs nx rule: chain.induct) auto

lemma headers_cong: "(\<And>x. a \<le> x \<Longrightarrow> x < a + extent bs \<Longrightarrow> m' (adr x) = m (adr x)) \<Longrightarrow> sizes_ok bs \<Longrightarrow> headers m' a bs = headers m a bs"
  by (induction m a bs rule: headers.induct) auto

lemma last_free_cases:
  assumes "chain m a bs nx"
  shows "last_free q a bs = q \<and> (\<forall>b\<in>set bs. snd b) \<or>
    (\<exists>us p vs. bs = us @ (p, False) # vs \<and> (\<forall>b\<in>set vs. snd b) \<and> last_free q a bs = adr (a + extent us) \<and>
       xBlockSize (m (adr (a + extent us))) = adr p)"
  using assms
proof (induction bs arbitrary: a q)
  case (Cons b bs)
  obtain s u where b: "b = (s, u)" by (cases b)
  have c: "chain m (a + s) bs nx" using Cons.prems b by simp
  from Cons.IH [OF this, of "if u then q else adr a"] show ?case
  proof (elim disjE exE conjE)
    assume h: "last_free (if u then q else adr a) (a + s) bs = (if u then q else adr a)" "\<forall>b\<in>set bs. snd b"
    show ?thesis
    proof (cases u)
      case False
      then have "b # bs = [] @ (s, False) # bs \<and> last_free q a (b # bs) = adr (a + extent []) \<and>
          xBlockSize (m (adr (a + extent []))) = adr s" using h b Cons.prems by simp
      then show ?thesis using h(2) by blast
    qed (use h b in simp)
  next
    fix us p vs
    assume "bs = us @ (p, False) # vs" "\<forall>b\<in>set vs. snd b"
      "last_free (if u then q else adr a) (a + s) bs = adr (a + s + extent us)"
      "xBlockSize (m (adr (a + s + extent us))) = adr p"
    then show ?thesis using b
      by (intro disjI2 exI [of _ "b # us"] exI [of _ p] exI [of _ vs]) (simp add: add.assoc)
  qed
qed simp

section \<open>The loops\<close>

text \<open>The search for the place of a block at \<open>B\<close> stops at the last free block below it.\<close>

lemma insert_place_chain:
  assumes "pxNextFreeBlock (m q) = adr (next_free a xs N)" and "chain m a xs N" and "sizes_ok xs"
    and "a + extent xs \<le> B" and "B \<le> N" and "N < 2 ^ 32"
  shows "insert_place m (adr B) q = Some (last_free q a xs)"
  using assms
proof (induction xs arbitrary: a q)
  case Nil
  then have "\<not> pxNextFreeBlock (m q) < adr B" by (simp add: adr_simps)
  then show ?case by (subst insert_place.simps) simp
next
  case (Cons b xs)
  obtain s u where b: "b = (s, u)" by (cases b)
  show ?case
  proof (cases u)
    case True
    then show ?thesis using Cons b by simp
  next
    case False
    then have nx: "pxNextFreeBlock (m q) = adr a" "pxNextFreeBlock (m (adr a)) = adr (next_free (a + s) xs N)"
      using Cons.prems b by simp_all
    have "adr a < adr B" using Cons.prems b by (simp add: adr_simps)
    then have "insert_place m (adr B) q = insert_place m (adr B) (adr a)"
      by (subst insert_place.simps) (simp add: nx)
    also have "\<dots> = Some (last_free (adr a) (a + s) xs)" using Cons.IH [OF nx(2)] Cons.prems b by simp
    finally show ?thesis using False b by simp
  qed
qed

text \<open>The search for a block of \<open>W\<close> bytes is first fit.\<close>

fun first_fit :: "nat \<Rightarrow> layout \<Rightarrow> (layout \<times> nat \<times> layout) option" where
  "first_fit W [] = None"
| "first_fit W ((s, u) # bs) =
     (if \<not> u \<and> W \<le> s then Some ([], s, bs)
      else map_option (\<lambda>(xs, t, ys). ((s, u) # xs, t, ys)) (first_fit W bs))"

lemma first_fit_Some:
  "first_fit W bs = Some (xs, s, ys) \<Longrightarrow> bs = xs @ (s, False) # ys \<and> W \<le> s \<and> (\<forall>b\<in>set xs. snd b \<or> fst b < W)"
  by (induction W bs arbitrary: xs rule: first_fit.induct) (fastforce split: if_splits)+

lemma first_fit_None: "first_fit W bs = None \<longleftrightarrow> (\<forall>b\<in>set bs. snd b \<or> fst b < W)"
  by (induction W bs rule: first_fit.induct) auto

lemma find_block_first_fit:
  assumes "chain m a bs (a + extent bs)" and "m (adr (a + extent bs)) = \<lparr>pxNextFreeBlock = 0, xBlockSize = 0\<rparr>"
    and "sizes_ok bs" and "0 < a" and "0 < W" and "a + extent bs < 2 ^ 32" and "W < 2 ^ 32"
  shows "find_block m (adr W) q (adr (next_free a bs (a + extent bs))) =
    Some (case first_fit W bs of None \<Rightarrow> (last_free q a bs, adr (a + extent bs))
          | Some (xs, s, ys) \<Rightarrow> (last_free q a xs, adr (a + extent xs)))"
  using assms
proof (induction bs arbitrary: a q)
  case Nil
  then show ?case by (subst find_block.simps) (simp add: adr_0)
next
  case (Cons b bs)
  obtain s u where b: "b = (s, u)" by (cases b)
  let ?E = "a + extent (b # bs)"
  have E: "?E = (a + s) + extent bs" using b by simp
  have IH: "find_block m (adr W) q' (adr (next_free (a + s) bs (a + s + extent bs))) =
    Some (case first_fit W bs of None \<Rightarrow> (last_free q' (a + s) bs, adr (a + s + extent bs))
          | Some (xs, s', ys) \<Rightarrow> (last_free q' (a + s) xs, adr (a + s + extent xs)))" for q'
    using Cons.IH [of "a + s" q'] Cons.prems b by (simp add: add.assoc)
  show ?case
  proof (cases u)
    case True
    then show ?thesis using IH [of q] b by (auto simp: add.assoc split: option.split)
  next
    case False
    then have h: "m (adr a) = \<lparr>pxNextFreeBlock = adr (next_free (a + s) bs (a + s + extent bs)), xBlockSize = adr s\<rparr>"
      using Cons.prems b by (simp add: add.assoc)
    have lt: "adr s < adr W \<longleftrightarrow> s < W" using Cons.prems b by (intro adr_simps) auto
    show ?thesis
    proof (cases "W \<le> s")
      case True
      then show ?thesis using False b h lt by (subst find_block.simps) simp
    next
      case less: False
      have "a + s \<le> next_free (a + s) bs (a + s + extent bs)" "next_free (a + s) bs (a + s + extent bs) < 2 ^ 32"
        using next_free_bounds [of "a + s" bs "a + s + extent bs"] Cons.prems b by auto
      then have "adr (next_free (a + s) bs (a + s + extent bs)) \<noteq> 0" using Cons.prems by (simp add: adr_0)
      then have "find_block m (adr W) q (adr a) = find_block m (adr W) (adr a) (adr (next_free (a + s) bs (a + s + extent bs)))"
        using less lt h by (subst find_block.simps) simp
      then show ?thesis using IH [of "adr a"] False less b by (auto simp: add.assoc split: option.split)
    qed
  qed
qed

section \<open>Changing the chain\<close>

text \<open>A new successor for the last free block.\<close>

lemma relink:
  fixes Y :: nat
  assumes "chain m a xs X" and "m q = \<lparr>pxNextFreeBlock = adr (next_free a xs X), xBlockSize = z\<rparr>"
    and "q \<notin> adr ` {a..<a + extent xs}" and "sizes_ok xs" and "a + extent xs \<le> 2 ^ 32"
  defines "m' \<equiv> m(last_free q a xs := (m (last_free q a xs))\<lparr>pxNextFreeBlock := adr Y\<rparr>)"
  shows "chain m' a xs Y" "m' q = \<lparr>pxNextFreeBlock = adr (next_free a xs Y), xBlockSize = z\<rparr>"
    "headers m a xs \<Longrightarrow> headers m' a xs" "last_free q a xs \<in> Set.insert q (adr ` {a..<a + extent xs})"
proof -
  have "chain m' a xs Y \<and> m' q = \<lparr>pxNextFreeBlock = adr (next_free a xs Y), xBlockSize = z\<rparr> \<and>
    (headers m a xs \<longrightarrow> headers m' a xs) \<and> last_free q a xs \<in> Set.insert q (adr ` {a..<a + extent xs})"
    if "m' = m(last_free q a xs := (m (last_free q a xs))\<lparr>pxNextFreeBlock := adr Y\<rparr>)" for m'
    using assms(1-5) that
  proof (induction xs arbitrary: a q z)
    case (Cons b xs)
    obtain s u where b: "b = (s, u)" by (cases b)
    have pos: "0 < s" and t: "a + extent (b # xs) = a + s + extent xs" using Cons.prems(4) b by simp_all
    have sub: "{a + s..<a + s + extent xs} \<subseteq> {a..<a + extent (b # xs)}" "a \<in> {a..<a + extent (b # xs)}"
      using t pos by auto
    have na: "adr a \<notin> adr ` {a + s..<a + s + extent xs}"
      using Cons.prems(5) t pos by (auto simp: adr_simps)
    show ?case
    proof (cases u)
      case True
      have "q \<notin> adr ` {a + s..<a + s + extent xs}" using Cons.prems(3) sub(1) by blast
      then have IH: "chain m' (a + s) xs Y \<and> m' q = \<lparr>pxNextFreeBlock = adr (next_free (a + s) xs Y), xBlockSize = z\<rparr> \<and>
          (headers m (a + s) xs \<longrightarrow> headers m' (a + s) xs) \<and>
          last_free q (a + s) xs \<in> Set.insert q (adr ` {a + s..<a + s + extent xs})"
        using Cons.IH [of "a + s" q z] Cons.prems b t True by simp
      moreover have "q \<noteq> adr a" using Cons.prems(3) sub(2) by blast
      then have "last_free q (a + s) xs \<noteq> adr a" using IH na by (metis insert_iff)
      ultimately show ?thesis using Cons.prems(6) b True sub by auto
    next
      case False
      have h: "m (adr a) = \<lparr>pxNextFreeBlock = adr (next_free (a + s) xs X), xBlockSize = adr s\<rparr>"
        using Cons.prems(1) b False by simp
      have IH: "chain m' (a + s) xs Y \<and> m' (adr a) = \<lparr>pxNextFreeBlock = adr (next_free (a + s) xs Y), xBlockSize = adr s\<rparr> \<and>
          (headers m (a + s) xs \<longrightarrow> headers m' (a + s) xs) \<and>
          last_free (adr a) (a + s) xs \<in> Set.insert (adr a) (adr ` {a + s..<a + s + extent xs})"
        using Cons.IH [of "a + s" "adr a" "adr s"] Cons.prems b t False h na by simp
      moreover have "last_free (adr a) (a + s) xs \<noteq> q" using IH Cons.prems(3) sub by auto
      ultimately show ?thesis using Cons.prems(2,6) b False sub by auto
    qed
  qed simp
  from this [of m'] m'_def show "chain m' a xs Y" "m' q = \<lparr>pxNextFreeBlock = adr (next_free a xs Y), xBlockSize = z\<rparr>"
    "headers m a xs \<Longrightarrow> headers m' a xs" "last_free q a xs \<in> Set.insert q (adr ` {a..<a + extent xs})"
    by blast+
qed

lemma next_free_first:
  assumes "sizes_ok ys" and "E = a + extent ys"
  shows "next_free a ys E = a \<longleftrightarrow> ys = [] \<or> (\<exists>t zs. ys = (t, False) # zs)"
proof (cases ys)
  case (Cons y zs)
  obtain t u where "y = (t, u)" by (cases y)
  then show ?thesis using assms Cons next_free_bounds [of "a + t" zs E] by (cases u) auto
qed (use assms in simp)

section \<open>Putting a block into the list\<close>

text \<open>What joining with the right neighbour leaves: the size of the block and the layout behind it.\<close>

fun absorb :: "nat \<Rightarrow> layout \<Rightarrow> nat \<times> layout" where
  "absorb s ((t, False) # zs) = (s + t, zs)"
| "absorb s ys = (s, ys)"

definition release :: "layout \<Rightarrow> nat \<Rightarrow> layout \<Rightarrow> layout" where
  "release xs s ys = (case absorb s ys of (s', ys') \<Rightarrow>
     if xs \<noteq> [] \<and> \<not> snd (last xs) then butlast xs @ (fst (last xs) + s', False) # ys'
     else xs @ (s', False) # ys')"

lemma absorb_cases:
  obtains "ys = []" "absorb s ys = (s, ys)" | t zs where "ys = (t, False) # zs" "absorb s ys = (s + t, zs)"
  | t zs where "ys = (t, True) # zs" "absorb s ys = (s, ys)"
  by (cases "(s, ys)" rule: absorb.cases) auto

text \<open>The successor and the size of a block after it has been joined with the one behind it.\<close>

definition right_link :: "(u32 \<Rightarrow> BlockLink_t) \<Rightarrow> u32 \<Rightarrow> u32 \<Rightarrow> u32 \<Rightarrow> u32 \<times> u32" where
  "right_link m e nx b =
     (if b + xBlockSize (m b) = nx
      then if nx \<noteq> e then (pxNextFreeBlock (m nx), xBlockSize (m b) + xBlockSize (m nx)) else (e, xBlockSize (m b))
      else (nx, xBlockSize (m b)))"

lemma join_left:
  assumes "it + xBlockSize (m it) = b" and "pxNextFreeBlock (m it) \<noteq> it"
  shows "join_blocks e it b m = m(it := \<lparr>pxNextFreeBlock = fst (right_link m e (pxNextFreeBlock (m it)) b),
    xBlockSize = xBlockSize (m it) + snd (right_link m e (pxNextFreeBlock (m it)) b)\<rparr>)"
  using assms(2) unfolding assms(1) [symmetric]
  by (simp add: join_blocks_def right_link_def Let_def add.assoc fun_eq_iff)

lemma join_new:
  assumes "it + xBlockSize (m it) \<noteq> b" and "it \<noteq> b"
  shows "join_blocks e it b m =
    (m(b := \<lparr>pxNextFreeBlock = fst (right_link m e (pxNextFreeBlock (m it)) b),
            xBlockSize = snd (right_link m e (pxNextFreeBlock (m it)) b)\<rparr>))
      (it := (m it)\<lparr>pxNextFreeBlock := b\<rparr>)"
  using assms by (simp add: join_blocks_def right_link_def Let_def fun_eq_iff)

lemma right_link_absorb:
  assumes "sizes_ok ys" and "b + s + extent ys = E" and "E < 2 ^ 32" and "0 < s"
    and "chain m (b + s) ys E" and "headers m (b + s) ys" and "xBlockSize (m (adr b)) = adr s"
    and "absorb s ys = (s', ys')"
  shows "right_link m (adr E) (adr (next_free (b + s) ys E)) (adr b) = (adr (next_free (b + s') ys' E), adr s')"
    "chain m (b + s') ys' E" "headers m (b + s') ys'" "b + s' + extent ys' = E" "sizes_ok ys'" "s \<le> s'"
proof -
  let ?N = "next_free (b + s) ys E"
  have N: "b + s \<le> ?N" "?N \<le> E" using next_free_bounds [of "b + s" ys E] assms(2) by auto
  have eq: "adr (b + s) = adr ?N \<longleftrightarrow> ?N = b + s"
    using adr_simps(1) [of "b + s" ?N] N assms(3) by auto
  have at: "adr b + xBlockSize (m (adr b)) = adr (b + s)" using assms(7) by simp
  have first: "?N = b + s \<longleftrightarrow> ys = [] \<or> (\<exists>t zs. ys = (t, False) # zs)"
    using next_free_first [OF assms(1), of E "b + s"] assms(2) by simp
  have "right_link m (adr E) (adr ?N) (adr b) = (adr (next_free (b + s') ys' E), adr s') \<and>
      chain m (b + s') ys' E \<and> headers m (b + s') ys' \<and> b + s' + extent ys' = E \<and> sizes_ok ys' \<and> s \<le> s'"
  proof (cases rule: absorb_cases [of ys s])
    case (2 t zs)
    have st: "s' = s + t" "ys' = zs" using 2 assms(8) by simp_all
    have t: "adr (b + s) \<noteq> adr E" using assms(1-4) 2 by (subst adr_simps) auto
    have h: "m (adr (b + s)) = \<lparr>pxNextFreeBlock = adr (next_free (b + s + t) zs E), xBlockSize = adr t\<rparr>"
      using assms(5) 2 by simp
    show ?thesis
      using 2 assms(1-7) st first t h by (simp add: right_link_def add.assoc)
  next
    case (3 t zs)
    then have "s' = s" "ys' = ys" "adr (b + s) \<noteq> adr ?N" using eq first assms(8) by auto
    then show ?thesis using assms(1-7) by (simp add: right_link_def)
  qed (use assms first in \<open>simp add: right_link_def\<close>)
  then show "right_link m (adr E) (adr ?N) (adr b) = (adr (next_free (b + s') ys' E), adr s')"
    "chain m (b + s') ys' E" "headers m (b + s') ys'" "b + s' + extent ys' = E" "sizes_ok ys'" "s \<le> s'" by simp_all
qed

section \<open>The representation of a layout\<close>

definition place_ok :: "placement \<Rightarrow> nat \<Rightarrow> nat \<Rightarrow> bool" where
  "place_ok pl A E \<longleftrightarrow> 0 < A \<and> 8 dvd A \<and> E + 8 \<le> 2 ^ 32 \<and> E - A < 2 ^ 31 \<and> xStart pl \<notin> adr ` {A..E}"

definition block_rep :: "placement \<Rightarrow> (u32 \<Rightarrow> BlockLink_t) \<Rightarrow> nat \<Rightarrow> layout \<Rightarrow> nat \<Rightarrow> bool" where
  "block_rep pl m A bs E \<longleftrightarrow> A + extent bs = E \<and> sizes_ok bs \<and> chain m A bs E \<and> headers m A bs \<and>
     m (xStart pl) = \<lparr>pxNextFreeBlock = adr (next_free A bs E), xBlockSize = 0\<rparr> \<and>
     m (adr E) = \<lparr>pxNextFreeBlock = 0, xBlockSize = 0\<rparr>"

text \<open>The same with a block of \<open>s\<close> bytes that is in no list yet.\<close>

definition gap_rep :: "placement \<Rightarrow> (u32 \<Rightarrow> BlockLink_t) \<Rightarrow> nat \<Rightarrow> layout \<Rightarrow> nat \<Rightarrow> layout \<Rightarrow> nat \<Rightarrow> bool" where
  "gap_rep pl m A xs s ys E \<longleftrightarrow> A + extent xs + s + extent ys = E \<and> sizes_ok xs \<and> sizes_ok ys \<and> 0 < s \<and> 8 dvd s \<and>
     chain m A xs (next_free (A + extent xs + s) ys E) \<and> chain m (A + extent xs + s) ys E \<and>
     headers m A xs \<and> headers m (A + extent xs + s) ys \<and> xBlockSize (m (adr (A + extent xs))) = adr s \<and>
     m (xStart pl) = \<lparr>pxNextFreeBlock = adr (next_free A xs (next_free (A + extent xs + s) ys E)), xBlockSize = 0\<rparr> \<and>
     m (adr E) = \<lparr>pxNextFreeBlock = 0, xBlockSize = 0\<rparr>"

lemma place_image:
  assumes "place_ok pl A E" and "A \<le> a" and "a \<le> E"
  shows "adr a \<noteq> xStart pl" "a < 2 ^ 32"
proof -
  have "adr a \<in> adr ` {A..E}" using assms(2,3) by simp
  then show "adr a \<noteq> xStart pl" using assms(1) by (auto simp: place_ok_def)
  show "a < 2 ^ 32" using assms by (simp add: place_ok_def)
qed

lemma next_free_used: "\<forall>b\<in>set xs. snd b \<Longrightarrow> next_free a xs nx = nx"
  by (induction a xs nx rule: next_free.induct) auto

text \<open>The last block of the front is free, or it is not.\<close>

lemma insert_left:
  assumes pl: "place_ok pl A E" and g: "gap_rep pl m A (us @ [(p, False)]) s ys E" and ab: "absorb s ys = (s', ys')"
  shows "block_rep pl (join_blocks (adr E) (adr (A + extent us)) (adr (A + extent us + p)) m) A (us @ (p + s', False) # ys') E"
proof -
  let ?P = "A + extent us" and ?B = "A + extent us + p"
  let ?N = "next_free (?B + s) ys E"
  have g': "?B + s + extent ys = E" "sizes_ok us" "0 < p" "8 dvd p" "sizes_ok ys" "0 < s" "8 dvd s"
    "chain m A us ?P" "m (adr ?P) = \<lparr>pxNextFreeBlock = adr ?N, xBlockSize = adr p\<rparr>" "chain m (?B + s) ys E"
    "headers m A us" "headers m (?B + s) ys" "xBlockSize (m (adr ?B)) = adr s"
    "m (xStart pl) = \<lparr>pxNextFreeBlock = adr (next_free A us ?P), xBlockSize = 0\<rparr>"
    "m (adr E) = \<lparr>pxNextFreeBlock = 0, xBlockSize = 0\<rparr>"
    using g by (simp_all add: gap_rep_def chain_append headers_append next_free_append add.assoc)
  have E: "E < 2 ^ 32" using place_image(2) [OF pl, of E] g'(1) by simp
  note r = right_link_absorb [OF g'(5,1) E g'(6,10,12,13) ab]
  have N: "?B + s \<le> ?N" "?N \<le> E" using next_free_bounds [of "?B + s" ys E] g'(1) by auto
  have "adr ?N \<noteq> adr ?P" using N E g'(3,6) by (subst adr_simps) auto
  then have j: "join_blocks (adr E) (adr ?P) (adr ?B) m =
      m(adr ?P := \<lparr>pxNextFreeBlock = adr (next_free (?B + s') ys' E), xBlockSize = adr (p + s')\<rparr>)" (is "?m' = _")
    by (subst join_left) (simp_all add: g'(9) r(1))
  have off: "?m' (adr x) = m (adr x)" if "x \<noteq> ?P" "A \<le> x" "x \<le> E" for x
  proof -
    have "?P \<le> E" "x < 2 ^ 32" using g'(1) E that by auto
    then have "adr x \<noteq> adr ?P" using that(1) E by (subst adr_simps) auto
    then show ?thesis by (simp add: j)
  qed
  have "8 dvd s'" using ab g'(5,7) by (cases rule: absorb_cases [of ys s]) auto
  moreover have "chain ?m' A us ?P" using g'(8) chain_cong [of A us ?m' m ?P] off g'(1,2) by simp
  moreover have "headers ?m' A us" using g'(11) headers_cong [of A us ?m' m] off g'(1,2) by simp
  moreover have "chain ?m' (?B + s') ys' E" using r(2,4,5) chain_cong [of "?B + s'" ys' ?m' m E] off g'(3) by simp
  moreover have "headers ?m' (?B + s') ys'" using r(3,4,5) headers_cong [of "?B + s'" ys' ?m' m] off g'(3) by simp
  moreover have "?m' (adr ?P) = \<lparr>pxNextFreeBlock = adr (next_free (?B + s') ys' E), xBlockSize = adr (p + s')\<rparr>"
    by (simp add: j)
  moreover have "?m' (xStart pl) = m (xStart pl)" using place_image(1) [OF pl, of ?P] g'(1) by (auto simp: j)
  moreover have "?m' (adr E) = m (adr E)" using off [of E] g'(1,3) by simp
  ultimately show ?thesis using g' r
    by (simp add: block_rep_def chain_append headers_append next_free_append add.assoc)
qed

text \<open>The block below one that is put behind a block in use does not touch it.\<close>

lemma last_free_below:
  assumes pl: "place_ok pl A E" and g: "gap_rep pl m A xs s ys E" and used: "xs = [] \<or> snd (last xs)"
  defines "it \<equiv> last_free (xStart pl) A xs"
  shows "it + xBlockSize (m it) \<noteq> adr (A + extent xs) \<and> it \<noteq> adr (A + extent xs) \<and>
    pxNextFreeBlock (m it) = adr (next_free (A + extent xs + s) ys E)"
proof -
  let ?B = "A + extent xs" and ?it = "last_free (xStart pl) A xs"
  let ?N = "next_free (?B + s) ys E"
  have g': "?B + s + extent ys = E" "sizes_ok xs" "0 < s" "chain m A xs ?N"
    "m (xStart pl) = \<lparr>pxNextFreeBlock = adr (next_free A xs ?N), xBlockSize = 0\<rparr>"
    using g by (simp_all add: gap_rep_def)
  have E: "E < 2 ^ 32" using place_image(2) [OF pl, of E] g'(1) by simp
  have xs: "xStart pl \<noteq> adr ?B" using place_image(1) [OF pl, of ?B] g'(1) by auto
  show ?thesis
    using last_free_cases [OF g'(4), of "xStart pl"]
  proof (elim disjE exE conjE)
    assume "?it = xStart pl" "\<forall>b\<in>set xs. snd b"
    then show ?thesis using g'(5) xs by (simp add: it_def next_free_used)
  next
    fix us p vs
    assume h: "xs = us @ (p, False) # vs" "\<forall>b\<in>set vs. snd b" "?it = adr (A + extent us)"
      "xBlockSize (m (adr (A + extent us))) = adr p"
    obtain v where "v \<in> set vs" using used h(1) by (cases vs) auto
    then have "0 < extent vs" using g'(2) h(1) by (cases vs) auto
    then have "adr (A + extent us + p) \<noteq> adr ?B" "adr (A + extent us) \<noteq> adr ?B"
      using E g'(1) h(1) by (subst adr_simps; simp)+
    moreover have "pxNextFreeBlock (m (adr (A + extent us))) = adr ?N"
      using g'(4) h(1,2) by (simp add: chain_append next_free_used add.assoc)
    ultimately show ?thesis using h(3,4) by (simp add: it_def)
  qed
qed

lemma insert_new:
  assumes pl: "place_ok pl A E" and g: "gap_rep pl m A xs s ys E" and ab: "absorb s ys = (s', ys')"
    and used: "xs = [] \<or> snd (last xs)"
  shows "block_rep pl (join_blocks (adr E) (last_free (xStart pl) A xs) (adr (A + extent xs)) m) A (xs @ (s', False) # ys') E"
proof -
  let ?B = "A + extent xs" and ?it = "last_free (xStart pl) A xs"
  let ?N = "next_free (?B + s) ys E"
  have g': "?B + s + extent ys = E" "sizes_ok xs" "sizes_ok ys" "0 < s" "8 dvd s" "chain m A xs ?N" "chain m (?B + s) ys E"
    "headers m A xs" "headers m (?B + s) ys" "xBlockSize (m (adr ?B)) = adr s"
    "m (xStart pl) = \<lparr>pxNextFreeBlock = adr (next_free A xs ?N), xBlockSize = 0\<rparr>"
    "m (adr E) = \<lparr>pxNextFreeBlock = 0, xBlockSize = 0\<rparr>"
    using g by (simp_all add: gap_rep_def)
  have E: "E < 2 ^ 32" using place_image(2) [OF pl, of E] g'(1) by simp
  have xs: "xStart pl \<noteq> adr ?B" "xStart pl \<notin> adr ` {A..<?B}" using pl g'(1) by (auto simp: place_ok_def)
  note r = right_link_absorb [OF g'(3,1) E g'(4,7,9,10) ab]
  note it = last_free_below [OF pl g used]
  let ?m1 = "m(adr ?B := \<lparr>pxNextFreeBlock = adr (next_free (?B + s') ys' E), xBlockSize = adr s'\<rparr>)"
  let ?m' = "join_blocks (adr E) ?it (adr ?B) m"
  have off: "?m1 (adr x) = m (adr x)" if "x \<noteq> ?B" "x \<le> E" for x
  proof -
    have "adr x \<noteq> adr ?B" using that g'(1) E by (subst adr_simps) auto
    then show ?thesis by simp
  qed
  have j: "?m' = ?m1(?it := (?m1 ?it)\<lparr>pxNextFreeBlock := adr ?B\<rparr>)"
    using it by (subst join_new) (simp_all add: r(1))
  have m1: "chain ?m1 A xs ?N" "headers ?m1 A xs" "?m1 (xStart pl) = \<lparr>pxNextFreeBlock = adr (next_free A xs ?N), xBlockSize = 0\<rparr>"
    using g'(6,8) chain_cong [of A xs ?m1 m ?N] headers_cong [of A xs ?m1 m] off g'(1,2) xs(1) g'(11) by simp_all
  have le: "A + extent xs \<le> 2 ^ 32" using E g'(1) by simp
  note rl = relink(1-3) [where Y = ?B, OF m1(1,3) xs(2) g'(2) le, folded j]
    and it_in = relink(4) [OF m1(1,3) xs(2) g'(2) le]
  have m'x: "?m' (adr x) = ?m1 (adr x)" if "?B \<le> x" "x \<le> E" for x
  proof -
    have "adr x \<noteq> xStart pl" using place_image(1) [OF pl] that by simp
    moreover have "adr x \<notin> adr ` {A..<?B}" using that E by (auto simp: adr_simps)
    ultimately have "adr x \<noteq> ?it" using it_in E g'(1) by auto
    then show ?thesis by (simp add: j)
  qed
  have "8 dvd s'" using ab g'(3,5) by (cases rule: absorb_cases [of ys s]) auto
  moreover have "chain ?m' A xs ?B" "headers ?m' A xs"
      "?m' (xStart pl) = \<lparr>pxNextFreeBlock = adr (next_free A xs ?B), xBlockSize = 0\<rparr>"
    using rl(1,2) rl(3) [OF m1(2)] by blast+
  moreover have "chain ?m' (?B + s') ys' E" using r(2,4,5,6) chain_cong [of "?B + s'" ys' ?m' m E] off m'x g'(4) by simp
  moreover have "headers ?m' (?B + s') ys'" using r(3,4,5,6) headers_cong [of "?B + s'" ys' ?m' m] off m'x g'(4) by simp
  moreover have "?m' (adr ?B) = \<lparr>pxNextFreeBlock = adr (next_free (?B + s') ys' E), xBlockSize = adr s'\<rparr>"
    using m'x [of ?B] g'(1) by simp
  moreover have "?m' (adr E) = m (adr E)" using m'x [of E] off [of E] g'(1,4) by simp
  ultimately show ?thesis using g' r
    by (simp add: block_rep_def chain_append headers_append next_free_append add.assoc)
qed

lemma insert_block:
  assumes pl: "place_ok pl A E" and g: "gap_rep pl m A xs s ys E"
  shows "insert_place m (adr (A + extent xs)) (xStart pl) = Some (last_free (xStart pl) A xs)"
    "block_rep pl (join_blocks (adr E) (last_free (xStart pl) A xs) (adr (A + extent xs)) m) A (release xs s ys) E"
proof -
  have E: "E < 2 ^ 32" and le: "A + extent xs + s + extent ys = E" using pl g by (auto simp: place_ok_def gap_rep_def)
  have N: "A + extent xs + s \<le> next_free (A + extent xs + s) ys E" "next_free (A + extent xs + s) ys E \<le> E"
    using next_free_bounds [of "A + extent xs + s" ys E] le by auto
  show "insert_place m (adr (A + extent xs)) (xStart pl) = Some (last_free (xStart pl) A xs)"
    by (rule insert_place_chain [where N = "next_free (A + extent xs + s) ys E"])
      (use g E N in \<open>auto simp: gap_rep_def\<close>)
  obtain s' ys' where ab: "absorb s ys = (s', ys')" by (cases "absorb s ys")
  show "block_rep pl (join_blocks (adr E) (last_free (xStart pl) A xs) (adr (A + extent xs)) m) A (release xs s ys) E"
  proof (cases "xs \<noteq> [] \<and> \<not> snd (last xs)")
    case True
    then obtain us p where xs: "xs = us @ [(p, False)]" by (cases xs rule: rev_cases) auto
    then show ?thesis using insert_left [OF pl g [unfolded xs] ab] ab
      by (simp add: release_def last_free_append add.assoc)
  next
    case False
    then show ?thesis using insert_new [OF pl g ab] ab by (auto simp: release_def)
  qed
qed

text \<open>A change of a header that is not looked at can be made before or after.\<close>

lemma join_upd:
  assumes "it + xBlockSize (m it) \<noteq> b" and "z \<noteq> it" and "it \<noteq> b" and "z \<noteq> b" and "z \<noteq> pxNextFreeBlock (m it)"
  shows "join_blocks e it b (m(z := v)) = (join_blocks e it b m)(z := v)"
  using assms by (simp add: join_new right_link_def fun_upd_twist)

section \<open>Sizes and flags\<close>

lemma bit_top_bit: "bit top_bit i \<longleftrightarrow> i = 31"
proof -
  have "bit (push_bit n (1 :: u32)) i \<longleftrightarrow> n < 32 \<and> i = n" for n by (auto simp: bit_simps)
  from this [of 31] show ?thesis by (simp add: top_bit_def)
qed

lemma and_7: "unat (w AND 7 :: u32) = unat w mod 8"
proof -
  have "w AND 7 = take_bit 3 w" by (simp add: take_bit_eq_mask mask_eq_exp_minus_1)
  then have "unat (w AND 7) = take_bit 3 (unat w)" by (simp only: unsigned_take_bit_eq)
  then show ?thesis by (simp add: take_bit_eq_mod)
qed

lemma adr_aligned: "x < 2 ^ 32 \<Longrightarrow> adr x AND portBYTE_ALIGNMENT_MASK = 0 \<longleftrightarrow> 8 dvd x"
  using and_7 [of "adr x"] by (simp add: portBYTE_ALIGNMENT_MASK_def unat_adr word_unat_eq_iff dvd_eq_mod_eq_0)

lemma adr_bit31:
  assumes "x < 2 ^ 31"
  shows "\<not> bit (adr x) 31"
proof -
  have "bit (adr x) 31 \<longleftrightarrow> bit (unat (adr x)) 31" by (simp add: bit_unsigned_iff)
  then show ?thesis using assms by (simp add: unat_adr bit_iff_odd)
qed

lemma allocated_bit:
  assumes "x < 2 ^ 31"
  shows "adr x AND top_bit = 0" "(adr x OR top_bit) AND top_bit \<noteq> 0" "(adr x OR top_bit) AND NOT top_bit = adr x"
proof -
  have n: "\<not> bit (adr x) 31" using assms by (rule adr_bit31)
  show "adr x AND top_bit = 0" using n by (auto intro!: bit_eqI simp: bit_and_iff bit_top_bit)
  have "bit ((adr x OR top_bit) AND top_bit) 31" by (simp add: bit_and_iff bit_or_iff bit_top_bit)
  then show "(adr x OR top_bit) AND top_bit \<noteq> 0" by auto
  show "(adr x OR top_bit) AND NOT top_bit = adr x"
    using n by (auto intro!: bit_eqI simp: bit_and_iff bit_or_iff bit_not_iff bit_top_bit)
qed

lemma top_bit_free: "w AND top_bit = 0 \<longleftrightarrow> unat w < 2 ^ 31"
proof
  assume "w AND top_bit = 0"
  then have "\<not> bit (w AND top_bit) 31" by simp
  then have "\<not> bit (unat w) 31" by (simp add: bit_and_iff bit_top_bit bit_unsigned_iff)
  then have "even (unat w div 2 ^ 31)" by (simp add: bit_iff_odd)
  moreover have "unat w < 2 ^ LENGTH(32)" by (rule unsigned_less)
  then have "unat w div 2 ^ 31 < 2" by (simp add: div_less_iff_less_mult)
  ultimately have "unat w div 2 ^ 31 = 0" by (cases "unat w div 2 ^ 31 = 0") (auto simp: less_2_cases_iff)
  then show "unat w < 2 ^ 31" by (simp add: div_eq_0_iff)
next
  assume "unat w < 2 ^ 31"
  then show "w AND top_bit = 0" using allocated_bit(1) [of "unat w"] by (simp add: adr_def)
qed

lemma adr_minus: "b \<le> a \<Longrightarrow> adr a - adr b = adr (a - b)"
  by (simp add: adr_def)

lemma adr_unat [simp]: "adr (unat w) = w"
  by (simp add: adr_def)

lemma heap_struct_size: "xHeapStructSize = adr 8" "heapMINIMUM_BLOCK_SIZE = adr 16" "portBYTE_ALIGNMENT = adr 8"
  by (simp_all add: xHeapStructSize_def heapMINIMUM_BLOCK_SIZE_def sizeof_BlockLink_t_def portBYTE_ALIGNMENT_def
      portBYTE_ALIGNMENT_MASK_def adr_def)

text \<open>The size of the block for a request of \<open>n\<close> bytes: with its header, rounded up to the alignment.\<close>

definition block_size :: "nat \<Rightarrow> nat" where "block_size n = (n + 15) div 8 * 8"

lemma block_size: "n + 8 \<le> block_size n" "block_size n < n + 16" "8 dvd block_size n"
  by (auto simp: block_size_def)

lemma block_size_rounds:
  "block_size n = (if (n + 8) mod 8 = 0 then n + 8 else n + 8 + (8 - (n + 8) mod 8))"
proof -
  obtain q r where q: "n = q * 8 + r" "r < 8" by (rule that [of "n div 8" "n mod 8"]) simp_all
  then have "r = 0 \<or> r = 1 \<or> r = 2 \<or> r = 3 \<or> r = 4 \<or> r = 5 \<or> r = 6 \<or> r = 7" by arith
  then show ?thesis unfolding q(1) block_size_def by (elim disjE) simp_all
qed

lemma wanted_size_block:
  assumes "0 < unat w" and "unat w < 2 ^ 31"
  shows "wanted_size w = Inr (adr (block_size (unat w)))"
proof -
  let ?n = "unat w"
  have w: "w + xHeapStructSize = adr (?n + 8)"
    using adr_plus(1) [of ?n 8] by (simp add: heap_struct_size)
  have small: "?n + 8 < 2 ^ 32" using assms(2) by simp
  have m: "unat (adr (?n + 8) AND portBYTE_ALIGNMENT_MASK) = (?n + 8) mod 8"
    using and_7 [of "adr (?n + 8)"] unat_adr [OF small] by (simp add: portBYTE_ALIGNMENT_MASK_def)
  then have ma: "adr (?n + 8) AND portBYTE_ALIGNMENT_MASK = adr ((?n + 8) mod 8)"
    by (metis adr_unat)
  have pos: "0 < w" using assms(1) by (simp add: unat_gt_0 word_neq_0_conv)
  show ?thesis
  proof (cases "(?n + 8) mod 8 = 0")
    case True
    then have "block_size ?n = ?n + 8" by (simp add: block_size_rounds)
    then show ?thesis using pos w ma True by (simp add: wanted_size_def Let_def)
  next
    case False
    let ?w' = "?n + 8 + (8 - (?n + 8) mod 8)"
    have bs: "block_size ?n = ?w'" using False by (simp only: block_size_rounds if_False)
    have "portBYTE_ALIGNMENT - adr ((?n + 8) mod 8) = adr (8 - (?n + 8) mod 8)"
      using adr_minus [of "(?n + 8) mod 8" 8] mod_less_divisor [of 8 "?n + 8"] by (simp add: heap_struct_size)
    then have up: "adr (?n + 8) + (portBYTE_ALIGNMENT - adr ((?n + 8) mod 8)) = adr ?w'" by simp
    have nz: "(adr ((?n + 8) mod 8) \<noteq> 0) = True" using False by (subst adr_0) auto
    have "8 dvd ?w'" using block_size(3) [of ?n] bs by simp
    then have "adr ?w' AND portBYTE_ALIGNMENT_MASK = 0"
      using adr_aligned [of ?w'] assms(2) by simp
    then show ?thesis using pos unfolding wanted_size_def Let_def w ma up nz bs by simp
  qed
qed

section \<open>Allocation on layouts\<close>

definition heap_rep :: "placement \<Rightarrow> nat \<Rightarrow> nat \<Rightarrow> heap4 \<Rightarrow> layout \<Rightarrow> bool" where
  "heap_rep pl A E h bs \<longleftrightarrow> place_ok pl A E \<and> block_rep pl (links h) A bs E \<and> joined bs \<and> pxEnd h = adr E \<and>
     xFreeBytesRemaining h = adr (free_bytes bs) \<and> xBlockAllocatedBit h = top_bit"

text \<open>What becomes of the free block of \<open>s\<close> bytes that is taken for \<open>W\<close>: a rest of more than 16 bytes stays free.\<close>

definition taken :: "nat \<Rightarrow> nat \<Rightarrow> layout" where
  "taken W s = (if 16 < s - W then [(W, True), (s - W, False)] else [(s, True)])"

lemma free_bytes_le: "free_bytes bs \<le> extent bs"
  by (induction bs) auto

lemma release_between_used:
  assumes "joined ((s, False) # ys)" and "xs = [] \<or> snd (last xs)"
  shows "release xs s ys = xs @ (s, False) # ys"
  using assms by (cases "(s, ys)" rule: absorb.cases) (auto simp: release_def)

lemma last_free_next:
  "pxNextFreeBlock (m q) = adr (next_free a xs X) \<Longrightarrow> chain m a xs X \<Longrightarrow> pxNextFreeBlock (m (last_free q a xs)) = adr X"
  by (induction q a xs rule: last_free.induct) (auto split: if_splits)

text \<open>Taking the block out of the chain.\<close>

lemma unlink_block:
  assumes pl: "place_ok pl A E" and rep: "block_rep pl m A (xs @ (s, False) # ys) E"
  defines "prev \<equiv> last_free (xStart pl) A xs" and "B \<equiv> A + extent xs"
  defines "N \<equiv> next_free (B + s) ys E"
  defines "m1 \<equiv> m(prev := (m prev)\<lparr>pxNextFreeBlock := adr N\<rparr>)"
  shows "m (adr B) = \<lparr>pxNextFreeBlock = adr N, xBlockSize = adr s\<rparr>" "pxNextFreeBlock (m prev) = adr B"
    "chain m1 A xs N" "headers m1 A xs" "m1 (xStart pl) = \<lparr>pxNextFreeBlock = adr (next_free A xs N), xBlockSize = 0\<rparr>"
    "B \<le> x \<Longrightarrow> x \<le> E \<Longrightarrow> m1 (adr x) = m (adr x)" "B \<le> x \<Longrightarrow> x \<le> E \<Longrightarrow> adr x \<noteq> prev"
    "chain m1 (B + s) ys E" "headers m1 (B + s) ys" "m1 (adr E) = \<lparr>pxNextFreeBlock = 0, xBlockSize = 0\<rparr>"
proof -
  have g: "B + s + extent ys = E" "sizes_ok xs" "0 < s" "8 dvd s" "sizes_ok ys" "chain m A xs B"
    "m (adr B) = \<lparr>pxNextFreeBlock = adr N, xBlockSize = adr s\<rparr>" "chain m (B + s) ys E" "headers m A xs" "headers m (B + s) ys"
    "m (xStart pl) = \<lparr>pxNextFreeBlock = adr (next_free A xs B), xBlockSize = 0\<rparr>"
    "m (adr E) = \<lparr>pxNextFreeBlock = 0, xBlockSize = 0\<rparr>"
    using rep by (simp_all add: block_rep_def chain_append headers_append next_free_append B_def N_def add.assoc)
  have E: "E < 2 ^ 32" using place_image(2) [OF pl, of E] g(1) by (simp add: B_def)
  have xs: "xStart pl \<notin> adr ` {A..<A + extent xs}" using pl g(1) by (auto simp: place_ok_def B_def)
  have le: "A + extent xs \<le> 2 ^ 32" using E g(1) by (simp add: B_def)
  note rl = relink(1-3) [where Y = N, OF g(6,11) xs g(2) le, folded prev_def, folded m1_def]
    and it_in = relink(4) [OF g(6,11) xs g(2) le, folded prev_def]
  show "m (adr B) = \<lparr>pxNextFreeBlock = adr N, xBlockSize = adr s\<rparr>" by (rule g)
  show "pxNextFreeBlock (m prev) = adr B" unfolding prev_def by (rule last_free_next) (use g in simp_all)
  show "chain m1 A xs N" "headers m1 A xs" "m1 (xStart pl) = \<lparr>pxNextFreeBlock = adr (next_free A xs N), xBlockSize = 0\<rparr>"
    using rl g(9) by blast+
  have ne: "adr x \<noteq> prev" if "B \<le> x" "x \<le> E" for x
  proof -
    have "adr x \<noteq> xStart pl" using place_image(1) [OF pl] that by (simp add: B_def)
    moreover have "adr x \<notin> adr ` {A..<A + extent xs}" using that E by (auto simp: adr_simps B_def)
    ultimately show ?thesis using it_in by auto
  qed
  then have off: "m1 (adr x) = m (adr x)" if "B \<le> x" "x \<le> E" for x using that by (simp add: m1_def)
  show "B \<le> x \<Longrightarrow> x \<le> E \<Longrightarrow> adr x \<noteq> prev" "B \<le> x \<Longrightarrow> x \<le> E \<Longrightarrow> m1 (adr x) = m (adr x)"
    using ne off by blast+
  show "chain m1 (B + s) ys E" using g(1,5,8) chain_cong [of "B + s" ys m1 m E] off by simp
  show "headers m1 (B + s) ys" using g(1,5,10) headers_cong [of "B + s" ys m1 m] off by simp
  show "m1 (adr E) = \<lparr>pxNextFreeBlock = 0, xBlockSize = 0\<rparr>" using off [of E] g(1,12) by simp
qed

lemma mark_used:
  assumes pl: "place_ok pl A E" and rep: "block_rep pl m A (xs @ (s, False) # ys) E"
  defines "m1 \<equiv> m(last_free (xStart pl) A xs := (m (last_free (xStart pl) A xs))
    \<lparr>pxNextFreeBlock := adr (next_free (A + extent xs + s) ys E)\<rparr>)"
  shows "block_rep pl (m1(adr (A + extent xs) := \<lparr>pxNextFreeBlock = 0, xBlockSize = adr s OR top_bit\<rparr>)) A (xs @ (s, True) # ys) E"
proof -
  let ?B = "A + extent xs" and ?v = "\<lparr>pxNextFreeBlock = 0, xBlockSize = adr s OR top_bit\<rparr>"
  have g: "?B + s + extent ys = E" "sizes_ok xs" "0 < s" "8 dvd s" "sizes_ok ys" using rep by (simp_all add: block_rep_def add.assoc)
  have E: "E < 2 ^ 32" using place_image(2) [OF pl, of E] g(1) by simp
  note u = unlink_block [OF pl rep, folded m1_def]
  let ?m = "m1(adr ?B := ?v)"
  have off: "?m (adr x) = m1 (adr x)" if "x \<noteq> ?B" "x \<le> E" for x
  proof -
    have "adr x \<noteq> adr ?B" using that g(1) E by (subst adr_simps) auto
    then show ?thesis by simp
  qed
  have "chain ?m A xs (next_free (?B + s) ys E)" "headers ?m A xs"
    using u(3,4) chain_cong [of A xs ?m m1] headers_cong [of A xs ?m m1] off g(1,2) by simp_all
  moreover have "chain ?m (?B + s) ys E" "headers ?m (?B + s) ys"
    using u(8,9) chain_cong [of "?B + s" ys ?m m1] headers_cong [of "?B + s" ys ?m m1] off g(1,3,5) by simp_all
  moreover have "?m (xStart pl) = m1 (xStart pl)" using place_image(1) [OF pl, of ?B] g(1) by auto
  moreover have "?m (adr E) = m1 (adr E)" using off [of E] g(1,3) by simp
  ultimately show ?thesis using g u(5,10)
    by (simp add: block_rep_def chain_append headers_append next_free_append add.assoc)
qed

lemma mark_split:
  assumes pl: "place_ok pl A E" and rep: "block_rep pl m A (xs @ (s, False) # ys) E"
    and jd: "joined (xs @ (s, False) # ys)" and W: "W < s" "0 < W" "8 dvd W"
  defines "m1 \<equiv> m(last_free (xStart pl) A xs := (m (last_free (xStart pl) A xs))
    \<lparr>pxNextFreeBlock := adr (next_free (A + extent xs + s) ys E)\<rparr>)"
  defines "m2 \<equiv> m1(adr (A + extent xs + W) := (m1 (adr (A + extent xs + W)))\<lparr>xBlockSize := adr (s - W)\<rparr>,
    adr (A + extent xs) := \<lparr>pxNextFreeBlock = adr (next_free (A + extent xs + s) ys E), xBlockSize = adr W\<rparr>)"
  shows "\<exists>it. insert_place m2 (adr (A + extent xs + W)) (xStart pl) = Some it \<and>
    join_blocks (adr E) it (adr (A + extent xs + W)) m2 (adr (A + extent xs)) = m2 (adr (A + extent xs)) \<and>
    block_rep pl ((join_blocks (adr E) it (adr (A + extent xs + W)) m2)
        (adr (A + extent xs) := \<lparr>pxNextFreeBlock = 0, xBlockSize = adr W OR top_bit\<rparr>))
      A (xs @ (W, True) # (s - W, False) # ys) E"
proof -
  let ?B = "A + extent xs" and ?it = "last_free (xStart pl) A xs"
  let ?N = "next_free (?B + s) ys E" and ?v = "\<lparr>pxNextFreeBlock = 0, xBlockSize = adr W OR top_bit\<rparr>"
  let ?xs = "xs @ [(W, True)]" and ?mb = "m2(adr ?B := \<lparr>pxNextFreeBlock = 0, xBlockSize = adr W OR top_bit\<rparr>)"
  have g: "?B + s + extent ys = E" "sizes_ok xs" "0 < s" "8 dvd s" "sizes_ok ys" using rep by (simp_all add: block_rep_def add.assoc)
  have E: "E < 2 ^ 32" using place_image(2) [OF pl, of E] g(1) by simp
  have s: "?B + W + (s - W) = ?B + s" "8 dvd s - W" using W g(4) by auto
  note u = unlink_block [OF pl rep, folded m1_def]
  have off: "m2 (adr x) = m1 (adr x)" "?mb (adr x) = m1 (adr x)" if "x \<noteq> ?B" "x \<noteq> ?B + W" "x \<le> E" for x
  proof -
    have "adr x \<noteq> adr ?B" "adr x \<noteq> adr (?B + W)" using that g(1) E W(1) by (subst adr_simps; simp)+
    then show "m2 (adr x) = m1 (adr x)" "?mb (adr x) = m1 (adr x)" by (simp_all add: m2_def)
  qed
  have new: "adr (?B + W) \<noteq> adr ?B" using g(1) E W by (subst adr_simps) auto
  have x: "m2 (xStart pl) = m1 (xStart pl)" "?mb (xStart pl) = m1 (xStart pl)"
    using place_image(1) [OF pl, of ?B] place_image(1) [OF pl, of "?B + W"] g(1) W(1) by (auto simp: m2_def)
  have gap: "gap_rep pl ?mb A ?xs (s - W) ys E"
  proof -
    have "chain ?mb A xs ?N" "headers ?mb A xs"
      using u(3,4) chain_cong [of A xs ?mb m1] headers_cong [of A xs ?mb m1] off g(1,2) by simp_all
    moreover have "chain ?mb (?B + s) ys E" "headers ?mb (?B + s) ys"
      using u(8,9) chain_cong [of "?B + s" ys ?mb m1] headers_cong [of "?B + s" ys ?mb m1] off g(1,3,5) W(1) by simp_all
    moreover have "xBlockSize (?mb (adr (?B + W))) = adr (s - W)" using new by (simp add: m2_def)
    moreover have "?mb (adr E) = m1 (adr E)" using off(2) [of E] g(1,3) W(1) by simp
    ultimately show ?thesis using g u(5,10) x(2) s W
      by (simp add: gap_rep_def chain_append headers_append next_free_append add.assoc)
  qed
  have below: "?it + xBlockSize (?mb ?it) \<noteq> adr (?B + W)" "?it \<noteq> adr (?B + W)" "pxNextFreeBlock (?mb ?it) = adr ?N"
    using last_free_below [OF pl gap] s by (simp_all add: last_free_append add.assoc)
  have it: "?it \<noteq> adr ?B" using u(7) [of ?B] g(1) by simp
  then have same: "?mb ?it = m2 ?it" by simp
  have N: "?B + s \<le> ?N" "?N \<le> E" using next_free_bounds [of "?B + s" ys E] g(1) by auto
  have BN: "adr ?B \<noteq> adr ?N" using N E g(3) by (subst adr_simps) auto
  have ip: "insert_place m2 (adr (?B + W)) (xStart pl) = Some ?it"
  proof (rule insert_place_chain [where N = ?N, where a = A and xs = ?xs, unfolded last_free_append, simplified])
    show "pxNextFreeBlock (m2 (xStart pl)) = adr (next_free A ?xs ?N)" using u(5) x(1) by (simp add: next_free_append)
    show "chain m2 A ?xs ?N" using u(3) chain_cong [of A xs m2 m1] off g(1,2) by (simp add: chain_append)
  qed (use g W N E in auto)
  have j: "join_blocks (adr E) ?it (adr (?B + W)) (m2(adr ?B := ?v)) = (join_blocks (adr E) ?it (adr (?B + W)) m2)(adr ?B := ?v)"
    by (rule join_upd) (use below it new BN same in auto)
  have keep: "join_blocks (adr E) ?it (adr (?B + W)) m2 (adr ?B) = m2 (adr ?B)"
    using below it new same by (simp add: join_new)
  have "release ?xs (s - W) ys = ?xs @ (s - W, False) # ys"
    by (rule release_between_used) (use joined_parts(2) [OF jd] in \<open>cases ys; simp\<close>)+
  then have "block_rep pl (join_blocks (adr E) ?it (adr (?B + W)) ?mb) A (?xs @ (s - W, False) # ys) E"
    using insert_block(2) [OF pl gap] by (simp add: last_free_append add.assoc)
  then show ?thesis using ip j keep by auto
qed

text \<open>The whole allocation from a block that is large enough.\<close>

lemma joined_used: "joined (xs @ (s, u) # ys) \<Longrightarrow> joined (xs @ (t, True) # ys)"
proof -
  assume j: "joined (xs @ (s, u) # ys)"
  have "joined (xs @ [(t, True)])" using joined_parts(1) [OF j] by (induction xs rule: joined.induct) auto
  moreover have "joined ((t, True) # ys)" using joined_parts(2) [OF j] by (cases ys) auto
  ultimately show ?thesis using joined_append [of xs "(t, True)" ys] by simp
qed

lemma joined_taken: "joined (xs @ (s, False) # ys) \<Longrightarrow> joined (xs @ taken W s @ ys)"
proof -
  assume j: "joined (xs @ (s, False) # ys)"
  show ?thesis
  proof (cases "16 < s - W")
    case True
    have "joined (xs @ [(W, True)])" using joined_used [OF joined_parts(1) [of "xs @ [(s, False)]" ys]] j by simp
    moreover have "joined ((W, True) # (s - W, False) # ys)" using joined_parts(2) [OF j] by (cases ys) auto
    ultimately show ?thesis using True joined_append [of xs "(W, True)" "(s - W, False) # ys"] by (simp add: taken_def)
  qed (use joined_used [OF j] in \<open>simp add: taken_def\<close>)
qed

lemma take_step:
  assumes h: "heap_rep pl A E h (xs @ (s, False) # ys)" and W: "W \<le> s" "0 < W" "8 dvd W"
  shows "\<exists>h'. take_block pl (last_free (xStart pl) A xs) (adr (A + extent xs)) (adr W) h = Inr (adr (A + extent xs + 8), h') \<and>
    heap_rep pl A E h' (xs @ taken W s @ ys)"
proof -
  let ?B = "A + extent xs" and ?prev = "last_free (xStart pl) A xs" and ?bs = "xs @ (s, False) # ys"
  let ?N = "next_free (?B + s) ys E"
  have pl: "place_ok pl A E" and rep: "block_rep pl (links h) A ?bs E" and jd: "joined ?bs" and f: "pxEnd h = adr E"
    "xFreeBytesRemaining h = adr (free_bytes ?bs)" "xBlockAllocatedBit h = top_bit"
    using h by (simp_all add: heap_rep_def)
  have g: "?B + s + extent ys = E" "sizes_ok xs" "0 < s" "8 dvd s" "sizes_ok ys" using rep by (simp_all add: block_rep_def add.assoc)
  have E: "E < 2 ^ 32" "s < 2 ^ 32" "8 dvd ?B"
  proof -
    show "E < 2 ^ 32" using place_image(2) [OF pl, of E] g(1) by simp
    then show "s < 2 ^ 32" using g(1) by simp
    have "8 dvd extent xs" using g(2) by (induction xs) auto
    then show "8 dvd ?B" using pl by (simp add: place_ok_def)
  qed
  define m1 where "m1 = (links h)(?prev := (links h ?prev)\<lparr>pxNextFreeBlock := adr ?N\<rparr>)"
  note u = unlink_block [OF pl rep, folded m1_def]
  have b: "m1 (adr ?B) = \<lparr>pxNextFreeBlock = adr ?N, xBlockSize = adr s\<rparr>" using u(1) u(6) [of ?B] g(1) by simp
  have ret: "pxNextFreeBlock (links h ?prev) + xHeapStructSize = adr (?B + 8)"
    using u(2) by (simp add: heap_struct_size)
  have rest: "adr s - adr W = adr (s - W)" using W(1) by (rule adr_minus)
  have lt: "heapMINIMUM_BLOCK_SIZE < adr s - adr W \<longleftrightarrow> 16 < s - W"
    using E(2) by (simp add: rest heap_struct_size adr_simps)
  have m1: "(links h)(?prev := (links h ?prev)\<lparr>pxNextFreeBlock := pxNextFreeBlock (links h (adr ?B))\<rparr>) = m1"
    by (simp add: m1_def u(1))
  have left: "adr (free_bytes ?bs) - adr w = adr (free_bytes (xs @ taken W s @ ys))" if "w = (if 16 < s - W then W else s)" for w
    using that W(1) by (subst adr_minus) (auto simp: taken_def intro: arg_cong [where f = adr])
  show ?thesis
  proof (cases "16 < s - W")
    case False
    have "split_block pl (adr ?B) (adr W) (h\<lparr>links := m1\<rparr>) = Inr (h\<lparr>links := m1\<rparr>)"
      using b lt False by (simp add: split_block_def Let_def)
    then have "\<exists>h'. take_block pl ?prev (adr ?B) (adr W) h = Inr (adr (?B + 8), h') \<and>
        links h' = m1(adr ?B := \<lparr>pxNextFreeBlock = 0, xBlockSize = adr s OR top_bit\<rparr>) \<and> pxEnd h' = adr E \<and>
        xFreeBytesRemaining h' = adr (free_bytes ?bs) - adr s \<and> xBlockAllocatedBit h' = top_bit"
      using f ret b unfolding take_block_def Let_def m1 by simp
    moreover have "block_rep pl (m1(adr ?B := \<lparr>pxNextFreeBlock = 0, xBlockSize = adr s OR top_bit\<rparr>)) A (xs @ taken W s @ ys) E"
      using mark_used [OF pl rep, folded m1_def] False by (simp add: taken_def)
    ultimately show ?thesis using pl joined_taken [OF jd, of W] left [of s] False by (auto simp: heap_rep_def)
  next
    case True
    then have Ws: "W < s" by simp
    let ?m2 = "m1(adr (?B + W) := (m1 (adr (?B + W)))\<lparr>xBlockSize := adr (s - W)\<rparr>,
      adr ?B := \<lparr>pxNextFreeBlock = adr ?N, xBlockSize = adr W\<rparr>)"
    obtain it where it: "insert_place ?m2 (adr (?B + W)) (xStart pl) = Some it"
        "join_blocks (adr E) it (adr (?B + W)) ?m2 (adr ?B) = ?m2 (adr ?B)"
        "block_rep pl ((join_blocks (adr E) it (adr (?B + W)) ?m2)
          (adr ?B := \<lparr>pxNextFreeBlock = 0, xBlockSize = adr W OR top_bit\<rparr>)) A (xs @ (W, True) # (s - W, False) # ys) E"
      using mark_split [OF pl rep jd Ws W(2,3), folded m1_def] by blast
    have new: "adr (?B + W) \<noteq> adr ?B" using g(1) E W by (subst adr_simps) auto
    have al: "adr (?B + W) AND portBYTE_ALIGNMENT_MASK = 0" using E W g(1) by (subst adr_aligned) auto
    have "m1(adr (?B + W) := (m1 (adr (?B + W)))\<lparr>xBlockSize := adr (s - W)\<rparr>,
        adr ?B := (m1 (adr ?B))\<lparr>xBlockSize := adr W\<rparr>) = ?m2" using b by simp
    then have "split_block pl (adr ?B) (adr W) (h\<lparr>links := m1\<rparr>) =
        Inr (h\<lparr>links := join_blocks (adr E) it (adr (?B + W)) ?m2\<rparr>)"
      using b lt True al new it(1) f(1) by (simp add: split_block_def Let_def prvInsertBlockIntoFreeList_def rest)
    then have "\<exists>h'. take_block pl ?prev (adr ?B) (adr W) h = Inr (adr (?B + 8), h') \<and>
        links h' = (join_blocks (adr E) it (adr (?B + W)) ?m2)(adr ?B := \<lparr>pxNextFreeBlock = 0, xBlockSize = adr W OR top_bit\<rparr>) \<and>
        pxEnd h' = adr E \<and> xFreeBytesRemaining h' = adr (free_bytes ?bs) - adr W \<and> xBlockAllocatedBit h' = top_bit"
      using f ret it(2) unfolding take_block_def Let_def m1 by simp
    moreover have eq: "xs @ (W, True) # (s - W, False) # ys = xs @ taken W s @ ys" using True by (simp add: taken_def)
    ultimately show ?thesis using pl joined_taken [OF jd, of W] left [of W] True it(3) [unfolded eq] by (auto simp: heap_rep_def)
  qed
qed

text \<open>\<open>pvPortMalloc\<close> is first fit.\<close>

lemma malloc_step:
  assumes h: "heap_rep pl A E h bs" and n: "0 < unat w" "unat w < 2 ^ 31"
  shows "case first_fit (block_size (unat w)) bs of
      None \<Rightarrow> heap_malloc pl w h = Inr (0, h)
    | Some (xs, s, ys) \<Rightarrow> \<exists>h'. heap_malloc pl w h = Inr (adr (A + extent xs + 8), h') \<and>
        heap_rep pl A E h' (xs @ taken (block_size (unat w)) s @ ys)"
proof -
  let ?W = "block_size (unat w)"
  have pl: "place_ok pl A E" and rep: "block_rep pl (links h) A bs E" and jd: "joined bs" and f: "pxEnd h = adr E"
    "xFreeBytesRemaining h = adr (free_bytes bs)" "xBlockAllocatedBit h = top_bit"
    using h by (simp_all add: heap_rep_def)
  have g: "A + extent bs = E" "sizes_ok bs" "chain (links h) A bs E" "links h (adr E) = \<lparr>pxNextFreeBlock = 0, xBlockSize = 0\<rparr>"
    "pxNextFreeBlock (links h (xStart pl)) = adr (next_free A bs E)"
    using rep by (simp_all add: block_rep_def)
  have A: "0 < A" "E < 2 ^ 32" using pl g(1) by (auto simp: place_ok_def)
  have W: "0 < ?W" "?W < 2 ^ 32" "8 dvd ?W" using block_size [of "unat w"] n by auto
  have e: "pxEnd h \<noteq> 0" using f(1) A g(1) by (simp add: adr_0)
  have bit: "w AND xBlockAllocatedBit h = 0" using f(3) n(2) by (simp add: top_bit_free)
  have fr: "free_bytes bs < 2 ^ 32" using free_bytes_le [of bs] g(1) A by simp
  note find = find_block_first_fit [of "links h" A bs ?W "xStart pl", unfolded g(1), OF g(3,4,2) A(1) W(1) A(2) W(2)]
  have body: "heap_malloc pl w h = (if ?W \<le> free_bytes bs then
      bindR (Inr (case first_fit ?W bs of None \<Rightarrow> (last_free (xStart pl) A bs, adr E)
            | Some (xs, s, ys) \<Rightarrow> (last_free (xStart pl) A xs, adr (A + extent xs))))
        (\<lambda>(prev, b). if b \<noteq> adr E then take_block pl prev b (adr ?W) h else Inr (0, h)) else Inr (0, h))"
    using e bit wanted_size_block [OF n] W fr find f g(5)
    by (simp add: heap_malloc_def Let_def adr_simps adr_0 word_gt_0)
  show ?thesis
  proof (cases "first_fit ?W bs")
    case None
    then show ?thesis using body by simp
  next
    case (Some r)
    obtain xs s ys where r: "r = (xs, s, ys)" by (cases r)
    then have bs: "bs = xs @ (s, False) # ys" "?W \<le> s" using first_fit_Some Some by auto
    then have "adr (A + extent xs) \<noteq> adr E" using g(1,2) A by (subst adr_simps) auto
    then show ?thesis using Some r body bs take_step [of pl A E h xs s ys ?W] h W by simp
  qed
qed

section \<open>Release on layouts\<close>

lemma release_cases:
  obtains us p s' ys' where "xs = us @ [(p, False)]" "absorb s ys = (s', ys')" "release xs s ys = us @ (p + s', False) # ys'"
  | s' ys' where "xs = [] \<or> snd (last xs)" "absorb s ys = (s', ys')" "release xs s ys = xs @ (s', False) # ys'"
proof -
  obtain s' ys' where ab: "absorb s ys = (s', ys')" by (cases "absorb s ys")
  show thesis
  proof (cases "xs \<noteq> [] \<and> \<not> snd (last xs)")
    case True
    then obtain us p where "xs = us @ [(p, False)]" by (cases xs rule: rev_cases) auto
    then show ?thesis using that(1) ab by (simp add: release_def)
  qed (use that(2) ab in \<open>auto simp: release_def\<close>)
qed

lemma absorb_props:
  assumes "absorb s ys = (s', ys')"
  shows "s' + free_bytes ys' = s + free_bytes ys" "joined ((s, True) # ys) \<Longrightarrow> joined ((t, False) # ys')"
    "s' + extent ys' = s + extent ys"
  using assms by (cases rule: absorb_cases [of ys s]; auto; cases ys'; auto)+

lemma release_props:
  shows "free_bytes (release xs s ys) = free_bytes xs + s + free_bytes ys"
    "extent (release xs s ys) = extent xs + s + extent ys"
    "joined (xs @ (s, True) # ys) \<Longrightarrow> joined (release xs s ys)"
proof -
  show "free_bytes (release xs s ys) = free_bytes xs + s + free_bytes ys"
    by (cases rule: release_cases [of xs s ys]) (auto dest: absorb_props(1))
  show "extent (release xs s ys) = extent xs + s + extent ys"
    by (cases rule: release_cases [of xs s ys]) (auto dest: absorb_props(3))
  assume j: "joined (xs @ (s, True) # ys)"
  show "joined (release xs s ys)"
  proof (cases rule: release_cases [of xs s ys])
    case (1 us p s' ys')
    have "joined (us @ [(p + s', False)])"
      using joined_parts(1) [OF j] unfolding 1(1) by (induction us rule: joined.induct) auto
    moreover have "joined ((p + s', False) # ys')" using absorb_props(2) [OF 1(2) joined_parts(2) [OF j]] .
    ultimately show ?thesis using 1(3) joined_append [of us "(p + s', False)" ys'] by simp
  next
    case (2 s' ys')
    have "joined (xs @ [(s', False)])"
      using joined_parts(1) [OF j] 2(1) by (induction xs rule: joined.induct) auto
    moreover have "joined ((s', False) # ys')" using absorb_props(2) [OF 2(2) joined_parts(2) [OF j]] .
    ultimately show ?thesis using 2(3) joined_append [of xs "(s', False)" ys'] by simp
  qed
qed

lemma free_step:
  assumes h: "heap_rep pl A E h (xs @ (s, True) # ys)"
  shows "\<exists>h1 h2. free_check (adr (A + extent xs)) h = Inr h1 \<and> free_insert pl (adr (A + extent xs)) h1 = Inr h2 \<and>
    heap_rep pl A E h2 (release xs s ys)"
proof -
  let ?B = "A + extent xs" and ?bs = "xs @ (s, True) # ys"
  have pl: "place_ok pl A E" and rep: "block_rep pl (links h) A ?bs E" and jd: "joined ?bs" and f: "pxEnd h = adr E"
    "xFreeBytesRemaining h = adr (free_bytes ?bs)" "xBlockAllocatedBit h = top_bit"
    using h by (simp_all add: heap_rep_def)
  let ?m = "(links h)(adr ?B := \<lparr>pxNextFreeBlock = 0, xBlockSize = adr s\<rparr>)"
  have g: "?B + s + extent ys = E" "sizes_ok xs" "0 < s" "8 dvd s" "sizes_ok ys"
    "chain (links h) A xs (next_free (?B + s) ys E)" "chain (links h) (?B + s) ys E" "headers (links h) A xs"
    "headers (links h) (?B + s) ys" "links h (adr ?B) = \<lparr>pxNextFreeBlock = 0, xBlockSize = adr s OR top_bit\<rparr>"
    "links h (xStart pl) = \<lparr>pxNextFreeBlock = adr (next_free A xs (next_free (?B + s) ys E)), xBlockSize = 0\<rparr>"
    "links h (adr E) = \<lparr>pxNextFreeBlock = 0, xBlockSize = 0\<rparr>"
    using rep by (simp_all add: block_rep_def chain_append headers_append next_free_append add.assoc)
  have E: "E < 2 ^ 32" "s < 2 ^ 31" using place_image(2) [OF pl, of E] g(1) pl by (auto simp: place_ok_def)
  have off: "?m (adr x) = links h (adr x)" if "x \<noteq> ?B" "x \<le> E" for x
  proof -
    have "adr x \<noteq> adr ?B" using that g(1) E by (subst adr_simps) auto
    then show ?thesis by simp
  qed
  have "chain ?m A xs (next_free (?B + s) ys E)" "headers ?m A xs"
    using g(6,8) chain_cong [of A xs ?m "links h"] headers_cong [of A xs ?m "links h"] off g(1,2) by simp_all
  moreover have "chain ?m (?B + s) ys E" "headers ?m (?B + s) ys"
    using g(7,9) chain_cong [of "?B + s" ys ?m "links h"] headers_cong [of "?B + s" ys ?m "links h"] off g(1,3,5) by simp_all
  moreover have "?m (xStart pl) = links h (xStart pl)" using place_image(1) [OF pl, of ?B] g(1) by auto
  moreover have "?m (adr E) = links h (adr E)" using off [of E] g(1,3) by simp
  ultimately have gap: "gap_rep pl ?m A xs s ys E" using g by (simp add: gap_rep_def)
  have chk: "free_check (adr ?B) h = Inr (h\<lparr>links := ?m\<rparr>)"
    using g(10) f(3) allocated_bit(2,3) [OF E(2)] by (simp add: free_check_def Let_def)
  note i = insert_block [OF pl gap]
  have "\<exists>h2. free_insert pl (adr ?B) (h\<lparr>links := ?m\<rparr>) = Inr h2 \<and>
      links h2 = join_blocks (adr E) (last_free (xStart pl) A xs) (adr ?B) ?m \<and> pxEnd h2 = adr E \<and>
      xFreeBytesRemaining h2 = adr (free_bytes (release xs s ys)) \<and> xBlockAllocatedBit h2 = top_bit"
    using i(1) f by (simp add: free_insert_def prvInsertBlockIntoFreeList_def release_props(1) add.commute add.left_commute)
  then show ?thesis using chk i(2) pl release_props(3) [OF jd] by (auto simp: heap_rep_def)
qed

section \<open>The first layout\<close>

text \<open>The linker puts the array into memory and \<open>xStart\<close> elsewhere.\<close>

definition linked_heap :: "placement \<Rightarrow> bool" where
  "linked_heap pl \<longleftrightarrow> 0 < unat (ucHeap pl) \<and> unat (ucHeap pl) + 2048 \<le> 2 ^ 32 \<and>
     xStart pl \<notin> adr ` {unat (ucHeap pl)..<unat (ucHeap pl) + 2048}"

lemma and_not_7: "unat (w AND NOT 7 :: u32) = unat w div 8 * 8"
proof -
  have "(w AND m) + (w AND NOT m) = w" for m
  proof -
    have "(w AND m) + (w AND NOT m) = (w AND m) OR (w AND NOT m)"
      by (rule disjunctive_add_eq_or) (simp add: bit_eq_iff bit_and_iff bit_not_iff)
    also have "\<dots> = w" by (rule bit_eqI) (auto simp: bit_simps)
    finally show ?thesis .
  qed
  from this [of 7] have "w AND NOT 7 = w - (w AND 7)" by (simp only: eq_diff_eq add.commute)
  then have "w AND NOT 7 = adr (unat w - unat w mod 8)"
    using and_7 [of w] adr_minus [of "unat w mod 8" "unat w"] by (metis adr_unat mod_less_eq_dividend)
  moreover have "unat w < 2 ^ LENGTH(32)" by (rule unsigned_less)
  then have "unat w - unat w mod 8 < 2 ^ 32" by (simp add: less_imp_diff_less)
  ultimately show ?thesis using unat_adr by (simp add: minus_mod_eq_div_mult)
qed

end
