(* ===== verification/Heap4Spec.thy ===== *)
theory Heap4Spec
  imports Heap4Layout "HOL-Library.Multiset"
begin

text \<open>
  What the allocator promises: from its first use on, in every order of requests and releases, no
  request gets stuck, the memory handed out is aligned, disjoint and inside the heap, and when all of
  it has come back the heap is one free block again.
\<close>

section \<open>The first use\<close>

lemma heap_init:
  assumes "linked_heap pl"
  shows "\<exists>A E. heap_rep pl A E (prvHeapInit pl heap4_start) [(E - A, False)] \<and> A + 2032 \<le> E \<and>
    unat (ucHeap pl) \<le> A \<and> E + 8 \<le> unat (ucHeap pl) + 2048"
proof -
  define u where "u = unat (ucHeap pl)"
  have u: "0 < u" "u + 2048 \<le> 2 ^ 32" "ucHeap pl = adr u" using assms by (simp_all add: linked_heap_def u_def)
  define A where "A = (u + 7) div 8 * 8"
  define E where "E = (u + 2040) div 8 * 8"
  have A: "u \<le> A" "A < u + 8" "8 dvd A" by (auto simp: A_def)
  have E: "E \<le> u + 2040" "u + 2040 < E + 8" "8 dvd E" by (auto simp: E_def)
  have AE: "A + 2032 \<le> E"
  proof -
    obtain q r where "u = q * 8 + r" "r < 8" by (rule that [of "u div 8" "u mod 8"]) simp_all
    then have "r = 0 \<or> r = 1 \<or> r = 2 \<or> r = 3 \<or> r = 4 \<or> r = 5 \<or> r = 6 \<or> r = 7" by arith
    then show ?thesis unfolding A_def E_def \<open>u = q * 8 + r\<close> by (elim disjE) simp_all
  qed
  have c: "configTOTAL_HEAP_SIZE = adr 2048" "portBYTE_ALIGNMENT - 1 = adr 7" "portBYTE_ALIGNMENT_MASK = 7"
    by (simp_all add: configTOTAL_HEAP_SIZE_def portBYTE_ALIGNMENT_def portBYTE_ALIGNMENT_MASK_def adr_def)
  have down: "adr x AND NOT 7 = adr (x div 8 * 8)" if "x < 2 ^ 32" for x
    using and_not_7 [of "adr x"] that by (metis adr_unat unat_adr)
  have start: "(if adr u AND 7 \<noteq> 0
      then ((adr u + adr 7) AND NOT 7, adr 2048 - (((adr u + adr 7) AND NOT 7) - adr u)) else (adr u, adr 2048)) = (adr A, adr (u + 2048 - A))"
  proof (cases "8 dvd u")
    case True
    then have "A = u" using A by (auto simp: A_def elim!: dvdE)
    moreover have "adr u AND 7 = 0" using True adr_aligned [of u] u(2) c(3) by simp
    ultimately show ?thesis by simp
  next
    case False
    then have "adr u AND 7 \<noteq> 0" using adr_aligned [of u] u(2) c(3) by simp
    moreover have "adr (u + 7) AND NOT 7 = adr A" using down [of "u + 7"] u(2) by (simp add: A_def)
    ultimately show ?thesis using A adr_minus [of u A] adr_minus [of "A - u" 2048] by (simp add: add.commute)
  qed
  have ue: "(adr A + adr (u + 2048 - A) - xHeapStructSize) AND NOT 7 = adr E"
    using A u(2) down [of "u + 2040"] adr_minus [of 8 "u + 2048"] by (simp add: heap_struct_size E_def add.commute)
  have size: "adr E - adr A = adr (E - A)" using AE by (intro adr_minus) simp
  let ?m = "(links heap4_start)(xStart pl := \<lparr>pxNextFreeBlock = adr A, xBlockSize = 0\<rparr>,
    adr E := \<lparr>pxNextFreeBlock = 0, xBlockSize = 0\<rparr>, adr A := \<lparr>pxNextFreeBlock = adr E, xBlockSize = adr (E - A)\<rparr>)"
  have i: "prvHeapInit pl heap4_start = heap4_start\<lparr>links := ?m, pxEnd := adr E,
      xMinimumEverFreeBytesRemaining := adr (E - A), xFreeBytesRemaining := adr (E - A), xBlockAllocatedBit := top_bit\<rparr>"
    unfolding prvHeapInit_def Let_def c u(3) start prod.case ue size top_bit_def ..
  have pl: "place_ok pl A E"
  proof -
    have "adr ` {A..E} \<subseteq> adr ` {u..<u + 2048}" using A E by (intro image_mono) auto
    moreover have "xStart pl \<notin> adr ` {u..<u + 2048}" using assms by (simp add: linked_heap_def u_def)
    ultimately have "xStart pl \<notin> adr ` {A..E}" by blast
    then show ?thesis using A E(1) u(1,2) by (simp add: place_ok_def)
  qed
  have ne: "adr A \<noteq> adr E" "xStart pl \<noteq> adr A" "xStart pl \<noteq> adr E"
    using place_image(1) [OF pl, of A] place_image(1) [OF pl, of E] AE adr_simps(1) [of A E] place_image(2) [OF pl] by auto
  have "block_rep pl ?m A [(E - A, False)] E"
    using ne AE A(3) E(3) by (simp add: block_rep_def)
  then have "heap_rep pl A E (prvHeapInit pl heap4_start) [(E - A, False)]"
    using pl unfolding i by (simp add: heap_rep_def)
  then show ?thesis using AE A E u_def by (intro exI [of _ A] exI [of _ E]) simp
qed

text \<open>A request of no bytes or of half the address space gets nothing and changes nothing.\<close>

lemma malloc_refused:
  assumes "pxEnd h \<noteq> 0" and "xBlockAllocatedBit h = top_bit" and "unat w = 0 \<or> 2 ^ 31 \<le> unat w"
  shows "heap_malloc pl w h = Inr (0, h)"
proof (cases "unat w = 0")
  case True
  then have "w = 0" by (simp add: unat_eq_0)
  then show ?thesis using assms(1) by (simp add: heap_malloc_def wanted_size_def)
next
  case False
  then have "w AND top_bit \<noteq> 0" using assms(3) top_bit_free [of w] by auto
  then show ?thesis using assms(1,2) by (simp add: heap_malloc_def)
qed

lemma malloc_first:
  "linked_heap pl \<Longrightarrow> heap_malloc pl w heap4_start = heap_malloc pl w (prvHeapInit pl heap4_start)"
proof -
  assume "linked_heap pl"
  then obtain A E where h: "heap_rep pl A E (prvHeapInit pl heap4_start) [(E - A, False)]" "A + 2032 \<le> E"
    using heap_init by blast
  then have "pxEnd (prvHeapInit pl heap4_start) \<noteq> 0" "pxEnd heap4_start = 0"
    by (auto simp: heap_rep_def place_ok_def adr_0 heap4_start_def)
  then show ?thesis by (simp add: heap_malloc_def)
qed

section \<open>Requests and releases in any order\<close>

text \<open>What \<open>vPortFree\<close> does to the heap.\<close>

definition heap_free :: "placement \<Rightarrow> u32 \<Rightarrow> heap4 \<Rightarrow> heap4 res" where
  "heap_free pl pv h =
     (if pv \<noteq> 0 then bindR (free_check (pv - xHeapStructSize) h) (free_insert pl (pv - xHeapStructSize)) else Inr h)"

text \<open>The states of the heap together with the memory handed out and not yet given back: pointer and
  requested size.\<close>

inductive heap_reach :: "placement \<Rightarrow> heap4 \<Rightarrow> (u32 \<times> u32) list \<Rightarrow> bool" for pl where
  unused: "heap_reach pl heap4_start []"
| request: "heap_reach pl h live \<Longrightarrow> heap_malloc pl w h = Inr (p, h') \<Longrightarrow>
    heap_reach pl h' (if p = 0 then live else (p, w) # live)"
| give_back: "heap_reach pl h live \<Longrightarrow> (p, w) \<in> set live \<Longrightarrow> heap_free pl p h = Inr h' \<Longrightarrow>
    heap_reach pl h' (remove1 (p, w) live)"

text \<open>The blocks in use, by address and size.\<close>

fun used_blocks :: "nat \<Rightarrow> layout \<Rightarrow> (nat \<times> nat) list" where
  "used_blocks a [] = []"
| "used_blocks a ((s, u) # bs) = (if u then [(a, s)] else []) @ used_blocks (a + s) bs"

lemma used_append: "used_blocks a (xs @ ys) = used_blocks a xs @ used_blocks (a + extent xs) ys"
  by (induction a xs rule: used_blocks.induct) (auto simp: add.assoc)

lemma used_bounds: "(b, t) \<in> set (used_blocks a bs) \<Longrightarrow> a \<le> b \<and> b + t \<le> a + extent bs"
  by (induction a bs rule: used_blocks.induct) (auto split: if_splits)

lemma used_in:
  "(b, t) \<in> set (used_blocks a bs) \<Longrightarrow> \<exists>xs ys. bs = xs @ (t, True) # ys \<and> b = a + extent xs"
proof (induction a bs rule: used_blocks.induct)
  case (2 a s u bs)
  show ?case
  proof (cases "u \<and> (b, t) = (a, s)")
    case True
    then show ?thesis by (intro exI [of _ "[]"] exI [of _ bs]) simp
  next
    case False
    then have "(b, t) \<in> set (used_blocks (a + s) bs)" using "2.prems" by (auto split: if_splits)
    then obtain xs ys where "bs = xs @ (t, True) # ys" "b = a + s + extent xs" using "2.IH" by blast
    then show ?thesis by (intro exI [of _ "(s, u) # xs"] exI [of _ ys]) simp
  qed
qed simp

lemma used_pos: "sizes_ok bs \<Longrightarrow> (b, t) \<in> set (used_blocks a bs) \<Longrightarrow> 0 < t"
  by (induction a bs rule: used_blocks.induct) (auto split: if_splits)

lemma used_disjoint:
  "(b, t) \<in> set (used_blocks a bs) \<Longrightarrow> (c, v) \<in> set (used_blocks a bs) \<Longrightarrow> b < c \<Longrightarrow> b + t \<le> c"
  by (induction a bs rule: used_blocks.induct) (auto split: if_splits dest: used_bounds)

lemma used_distinct: "sizes_ok bs \<Longrightarrow> distinct (map fst (used_blocks a bs))"
proof (induction a bs rule: used_blocks.induct)
  case (2 a s u bs)
  then have "a \<notin> fst ` set (used_blocks (a + s) bs)" by (fastforce dest: used_bounds)
  then show ?case using 2 by simp
qed simp

lemma used_taken: "used_blocks a (taken W s) = [(a, if 16 < s - W then W else s)]"
  by (simp add: taken_def)

lemma used_release: "used_blocks a (release xs s ys) = used_blocks a xs @ used_blocks (a + extent xs + s) ys"
proof -
  have ab: "used_blocks (b + s') ys' = used_blocks (b + s) ys" if "absorb s ys = (s', ys')" for b s' ys'
    using that by (cases rule: absorb_cases [of ys s]) (auto simp: add.assoc)
  show ?thesis
  proof (cases rule: release_cases [of xs s ys])
    case (1 us p s' ys')
    show ?thesis using ab [OF 1(2), of "a + extent us + p"] unfolding 1(3) unfolding 1(1)
      by (simp add: used_append add.assoc)
  next
    case (2 s' ys')
    show ?thesis using ab [OF 2(2), of "a + extent xs"] unfolding 2(3) by (simp add: used_append add.assoc)
  qed
qed

definition live_ok :: "nat \<Rightarrow> layout \<Rightarrow> (u32 \<times> u32) list \<Rightarrow> bool" where
  "live_ok A bs live \<longleftrightarrow>
     mset (map fst live) = mset (map (\<lambda>(a, s). adr (a + 8)) (used_blocks A bs)) \<and>
     (\<forall>(p, w)\<in>set live. \<exists>(a, s)\<in>set (used_blocks A bs). p = adr (a + 8) \<and> unat w + 8 \<le> s)"

definition heap_ok :: "placement \<Rightarrow> heap4 \<Rightarrow> (u32 \<times> u32) list \<Rightarrow> bool" where
  "heap_ok pl h live \<longleftrightarrow> h = heap4_start \<and> live = [] \<or>
     (\<exists>A E bs. heap_rep pl A E h bs \<and> A + 2032 \<le> E \<and> unat (ucHeap pl) \<le> A \<and> E + 8 \<le> unat (ucHeap pl) + 2048 \<and>
        live_ok A bs live)"

lemma request_layout:
  assumes h: "heap_rep pl A E h bs" and l: "live_ok A bs live" and m: "heap_malloc pl w h = Inr (p, h')"
  shows "\<exists>bs'. heap_rep pl A E h' bs' \<and> live_ok A bs' (if p = 0 then live else (p, w) # live)"
proof (cases "0 < unat w \<and> unat w < 2 ^ 31")
  case False
  have "pxEnd h = adr E" "xBlockAllocatedBit h = top_bit" "0 < E" "E < 2 ^ 32"
    using h by (auto simp: heap_rep_def place_ok_def block_rep_def)
  then have "heap_malloc pl w h = Inr (0, h)"
    using malloc_refused [of h w pl] False by (auto simp: adr_0)
  then show ?thesis using h l m by auto
next
  case True
  let ?W = "block_size (unat w)"
  note step = malloc_step [OF h True [THEN conjunct1] True [THEN conjunct2]]
  show ?thesis
  proof (cases "first_fit ?W bs")
    case None
    then show ?thesis using step h l m by auto
  next
    case (Some r)
    obtain xs s ys where r: "r = (xs, s, ys)" by (cases r)
    then have bs: "bs = xs @ (s, False) # ys" "?W \<le> s" using first_fit_Some Some by auto
    let ?B = "A + extent xs" and ?bs = "xs @ taken ?W s @ ys"
    have h': "p = adr (?B + 8)" "heap_rep pl A E h' ?bs" using step Some r m by auto
    have "?B + 8 < 2 ^ 32" using h bs(1) by (auto simp: heap_rep_def place_ok_def block_rep_def)
    then have p: "p \<noteq> 0" using h'(1) by (simp add: adr_0)
    have ext: "extent (taken ?W s) = s" using bs(2) by (auto simp: taken_def)
    have u: "used_blocks A bs = used_blocks A xs @ used_blocks (?B + s) ys"
      "used_blocks A ?bs = used_blocks A xs @ (?B, if 16 < s - ?W then ?W else s) # used_blocks (?B + s) ys"
      unfolding bs(1) by (simp_all add: used_append used_taken ext add.assoc)
    have "unat w + 8 \<le> (if 16 < s - ?W then ?W else s)" using block_size(1) [of "unat w"] bs(2) by simp
    then have "live_ok A ?bs ((p, w) # live)"
      using l h'(1) unfolding live_ok_def u by (auto; force)
    then show ?thesis using h'(2) p by auto
  qed
qed

lemma give_back_layout:
  assumes h: "heap_rep pl A E h bs" and l: "live_ok A bs live" and p: "(p, w) \<in> set live"
  shows "\<exists>h' bs'. heap_free pl p h = Inr h' \<and> heap_rep pl A E h' bs' \<and> live_ok A bs' (remove1 (p, w) live)"
proof -
  obtain a s where as: "(a, s) \<in> set (used_blocks A bs)" "p = adr (a + 8)" using l p by (fastforce simp: live_ok_def)
  obtain xs ys where bs: "bs = xs @ (s, True) # ys" "a = A + extent xs" using used_in [OF as(1)] by blast
  have E: "a + s \<le> E" "E + 8 \<le> 2 ^ 32" "sizes_ok bs"
    using h bs by (auto simp: heap_rep_def place_ok_def block_rep_def)
  then have "0 < s" using bs(1) by simp
  then have p0: "p \<noteq> 0" "p - xHeapStructSize = adr a"
    using as(2) E adr_0 [of "a + 8"] adr_minus [of 8 "a + 8"] by (simp_all add: heap_struct_size)
  obtain h1 h2 where f: "free_check (adr a) h = Inr h1" "free_insert pl (adr a) h1 = Inr h2" "heap_rep pl A E h2 (release xs s ys)"
    using free_step [of pl A E h xs s ys] h bs by auto
  then have free: "heap_free pl p h = Inr h2" using p0 by (simp add: heap_free_def)
  have u: "used_blocks A bs = used_blocks A xs @ (a, s) # used_blocks (a + s) ys"
    "used_blocks A (release xs s ys) = used_blocks A xs @ used_blocks (a + s) ys"
    unfolding bs by (simp_all add: used_append used_release add.assoc)
  let ?ptr = "\<lambda>(a, s :: nat). adr (a + 8)"
  have ms: "mset (map fst (remove1 (p, w) live)) = mset (map ?ptr (used_blocks A (release xs s ys)))"
  proof -
    have "mset (map fst live) = add_mset p (mset (map fst (remove1 (p, w) live)))"
    proof -
      have "mset live = add_mset (p, w) (mset (remove1 (p, w) live))" using p by simp
      then have "image_mset fst (mset live) = add_mset p (image_mset fst (mset (remove1 (p, w) live)))"
        by (metis fst_conv image_mset_add_mset)
      then show ?thesis by simp
    qed
    moreover have "mset (map fst live) = add_mset p (mset (map ?ptr (used_blocks A (release xs s ys))))"
      using l as(2) unfolding live_ok_def u by simp
    ultimately show ?thesis by simp
  qed
  have "\<exists>(b, t)\<in>set (used_blocks A (release xs s ys)). q = adr (b + 8) \<and> unat v + 8 \<le> t"
    if qv: "(q, v) \<in> set (remove1 (p, w) live)" for q v
  proof -
    have "(q, v) \<in> set live" using qv set_remove1_subset by fast
    then obtain b t where bt: "(b, t) \<in> set (used_blocks A bs)" "q = adr (b + 8)" "unat v + 8 \<le> t"
      using l by (fastforce simp: live_ok_def)
    have "q \<in> set (map fst (remove1 (p, w) live))" using imageI [OF qv, of fst] by simp
    then have "q \<in> set (map ?ptr (used_blocks A (release xs s ys)))" unfolding mset_eq_setD [OF ms] .
    then obtain c v' where c: "(c, v') \<in> set (used_blocks A (release xs s ys))" "q = adr (c + 8)" by auto
    then have cin: "(c, v') \<in> set (used_blocks A bs)" unfolding u by auto
    have "b + 8 < 2 ^ 32" "c + 8 < 2 ^ 32"
      using used_bounds [OF bt(1)] used_bounds [OF cin] used_pos [OF E(3) cin] h bt(3)
        by (auto simp: heap_rep_def place_ok_def block_rep_def)
    then have "b = c" using bt(2) c(2) adr_simps(1) [of "b + 8" "c + 8"] by simp
    moreover have "t = v'" using used_distinct [OF E(3), of A] bt(1) cin \<open>b = c\<close> by (meson eq_key_imp_eq_value)
    ultimately show ?thesis using bt c by auto
  qed
  then have "live_ok A (release xs s ys) (remove1 (p, w) live)" using ms by (auto simp: live_ok_def)
  then show ?thesis using free f(3) by blast
qed

text \<open>What the representation says about memory in use.\<close>

lemma used_aligned: "sizes_ok bs \<Longrightarrow> 8 dvd a \<Longrightarrow> (b, t) \<in> set (used_blocks a bs) \<Longrightarrow> 8 dvd b"
  by (induction a bs rule: used_blocks.induct) (auto split: if_splits)

lemma live_memory:
  assumes h: "heap_rep pl A E h bs" and l: "live_ok A bs live" and p: "(p, w) \<in> set live"
  shows "\<exists>a s. (a, s) \<in> set (used_blocks A bs) \<and> p = adr (a + 8) \<and> unat p = a + 8 \<and> unat w + 8 \<le> s \<and> 8 dvd a \<and> A \<le> a \<and> a + s \<le> E"
proof -
  obtain a s where as: "(a, s) \<in> set (used_blocks A bs)" "p = adr (a + 8)" "unat w + 8 \<le> s"
    using l p by (fastforce simp: live_ok_def)
  have g: "A + extent bs = E" "sizes_ok bs" "8 dvd A" "E + 8 \<le> 2 ^ 32"
    using h by (auto simp: heap_rep_def place_ok_def block_rep_def)
  have "A \<le> a" "a + s \<le> E" using used_bounds [OF as(1)] g(1) by auto
  moreover have "unat p = a + 8" using as(2,3) calculation g(4) unat_adr [of "a + 8"] by simp
  ultimately show ?thesis using as used_aligned [OF g(2,3) as(1)] by blast
qed

lemma live_distinct:
  assumes h: "heap_rep pl A E h bs" and l: "live_ok A bs live"
  shows "distinct (map fst live)"
proof -
  have g: "A + extent bs = E" "sizes_ok bs" "E + 8 \<le> 2 ^ 32"
    using h by (auto simp: heap_rep_def place_ok_def block_rep_def)
  have "inj_on (\<lambda>(a, s :: nat). adr (a + 8)) (set (used_blocks A bs))"
  proof (rule inj_onI, clarify)
    fix a s b t assume i: "(a, s) \<in> set (used_blocks A bs)" "(b, t) \<in> set (used_blocks A bs)" "adr (a + 8) = adr (b + 8)"
    have "a + 8 < 2 ^ 32" "b + 8 < 2 ^ 32"
      using used_bounds [OF i(1)] used_bounds [OF i(2)] used_pos [OF g(2) i(1)] used_pos [OF g(2) i(2)] g by simp_all
    then have "a = b" using i(3) adr_simps(1) [of "a + 8" "b + 8"] by simp
    then show "a = b \<and> s = t" using i used_distinct [OF g(2), of A] by (meson eq_key_imp_eq_value)
  qed
  moreover have "distinct (used_blocks A bs)" using used_distinct [OF g(2), of A] by (simp add: distinct_map)
  ultimately have "distinct (map (\<lambda>(a, s). adr (a + 8)) (used_blocks A bs))" by (simp add: distinct_map)
  moreover have "mset (map fst live) = mset (map (\<lambda>(a, s). adr (a + 8)) (used_blocks A bs))"
    using l unfolding live_ok_def by (rule conjunct1)
  ultimately show ?thesis using mset_eq_imp_distinct_iff by blast
qed

text \<open>Every request and every release keeps the heap in order, and none of them gets stuck.\<close>

lemma heap_ok_start: "heap_ok pl heap4_start []"
  by (simp add: heap_ok_def)

lemma heap_ok_layout:
  assumes "linked_heap pl" and "heap_ok pl h live" and "h \<noteq> heap4_start \<or> live \<noteq> []"
  obtains A E bs where "heap_rep pl A E h bs" "A + 2032 \<le> E" "unat (ucHeap pl) \<le> A" "E + 8 \<le> unat (ucHeap pl) + 2048"
    "live_ok A bs live"
  using assms by (auto simp: heap_ok_def)

lemma live_ok_init: "live_ok A [(s, False)] []"
  by (simp add: live_ok_def)

lemma heap_ok_request:
  assumes pl: "linked_heap pl" and h: "heap_ok pl h live" and m: "heap_malloc pl w h = Inr (p, h')"
  shows "heap_ok pl h' (if p = 0 then live else (p, w) # live)"
proof -
  have "\<exists>A E bs h0. heap_rep pl A E h0 bs \<and> A + 2032 \<le> E \<and> unat (ucHeap pl) \<le> A \<and> E + 8 \<le> unat (ucHeap pl) + 2048 \<and>
      live_ok A bs live \<and> heap_malloc pl w h0 = Inr (p, h')"
  proof (cases "h = heap4_start \<and> live = []")
    case True
    obtain A E where i: "heap_rep pl A E (prvHeapInit pl heap4_start) [(E - A, False)]" "A + 2032 \<le> E"
        "unat (ucHeap pl) \<le> A" "E + 8 \<le> unat (ucHeap pl) + 2048"
      using heap_init [OF pl] by blast
    have "heap_malloc pl w (prvHeapInit pl heap4_start) = Inr (p, h')" "live_ok A [(E - A, False)] live"
      using m malloc_first [OF pl] live_ok_init True by simp_all
    then show ?thesis using i by blast
  next
    case False
    then show ?thesis using h m by (auto simp: heap_ok_def)
  qed
  then obtain A E bs h0 where h0: "heap_rep pl A E h0 bs" "A + 2032 \<le> E" "unat (ucHeap pl) \<le> A"
      "E + 8 \<le> unat (ucHeap pl) + 2048" "live_ok A bs live" "heap_malloc pl w h0 = Inr (p, h')" by blast
  from request_layout [OF h0(1,5,6)] h0(2-4) show ?thesis unfolding heap_ok_def by blast
qed

lemma heap_ok_give_back:
  assumes "heap_ok pl h live" and "(p, w) \<in> set live"
  shows "\<exists>h'. heap_free pl p h = Inr h' \<and> heap_ok pl h' (remove1 (p, w) live)"
proof -
  obtain A E bs where l: "heap_rep pl A E h bs" "A + 2032 \<le> E" "unat (ucHeap pl) \<le> A" "E + 8 \<le> unat (ucHeap pl) + 2048"
      "live_ok A bs live"
    using assms by (auto simp: heap_ok_def)
  from give_back_layout [OF l(1,5) assms(2)] l(2-4) show ?thesis unfolding heap_ok_def by blast
qed

lemma heap_reach_ok: "heap_reach pl h live \<Longrightarrow> linked_heap pl \<Longrightarrow> heap_ok pl h live"
proof (induction rule: heap_reach.induct)
  case (give_back h live p w h')
  then show ?case using heap_ok_give_back [of pl h live p w] by auto
qed (auto intro: heap_ok_start dest: heap_ok_request)

lemma malloc_total:
  assumes pl: "linked_heap pl" and h: "heap_ok pl h live"
  shows "\<exists>p h'. heap_malloc pl w h = Inr (p, h')"
proof -
  have laid: "\<exists>p h'. heap_malloc pl w h0 = Inr (p, h')" if l: "heap_rep pl A E h0 bs" for A E h0 bs
  proof (cases "0 < unat w \<and> unat w < 2 ^ 31")
    case True
    then show ?thesis using malloc_step [OF l, of w] by (auto split: option.splits)
  next
    case False
    have "pxEnd h0 = adr E" "xBlockAllocatedBit h0 = top_bit" "0 < E" "E < 2 ^ 32"
      using l by (auto simp: heap_rep_def place_ok_def block_rep_def)
    then show ?thesis using malloc_refused [of h0 w pl] False by (auto simp: adr_0)
  qed
  show ?thesis
  proof (cases "h = heap4_start")
    case True
    then show ?thesis using heap_init [OF pl] malloc_first [OF pl, of w] laid by auto
  next
    case False
    then show ?thesis using h laid by (auto simp: heap_ok_def)
  qed
qed

text \<open>C38: a client of the allocator never gets stuck. Whatever has been requested and given back before, in any
  order, \<open>pvPortMalloc\<close> returns for a request of any size, with memory or without, and \<open>vPortFree\<close>
  takes back every block handed out: no assertion fails and both loops over the free list end.\<close>

theorem heap_never_stuck:
  assumes "linked_heap pl" and "heap_reach pl h live"
  shows "(\<forall>w. \<exists>p h'. heap_malloc pl w h = Inr (p, h')) \<and> (\<forall>(p, w)\<in>set live. \<exists>h'. heap_free pl p h = Inr h')"
  using malloc_total [OF assms(1)] heap_ok_give_back heap_reach_ok [OF assms(2,1)] by blast

text \<open>C36: the memory handed out is inside the heap array, aligned to eight bytes and disjoint. Two blocks that have
  been handed out and not given back never overlap, each is at least as long as was asked for, and
  the eight bytes of the header in front of the one never overlap the other.\<close>

theorem heap_memory_disjoint:
  assumes "linked_heap pl" and "heap_reach pl h live"
  shows "distinct (map fst live) \<and>
    (\<forall>(p, w)\<in>set live. unat p mod 8 = 0 \<and> unat (ucHeap pl) + 8 \<le> unat p \<and> unat p + unat w \<le> unat (ucHeap pl) + 2048 \<and>
       (\<forall>(q, v)\<in>set live. p \<noteq> q \<longrightarrow> unat p + unat w + 8 \<le> unat q \<or> unat q + unat v + 8 \<le> unat p))"
proof (cases "live = []")
  case False
  have "heap_ok pl h live" using heap_reach_ok assms by blast
  then obtain A E bs where h: "heap_rep pl A E h bs" and b: "unat (ucHeap pl) \<le> A" "E + 8 \<le> unat (ucHeap pl) + 2048"
      and l: "live_ok A bs live"
    using False by (auto simp: heap_ok_def)
  have "unat p mod 8 = 0 \<and> unat (ucHeap pl) + 8 \<le> unat p \<and> unat p + unat w \<le> unat (ucHeap pl) + 2048 \<and>
       (\<forall>(q, v)\<in>set live. p \<noteq> q \<longrightarrow> unat p + unat w + 8 \<le> unat q \<or> unat q + unat v + 8 \<le> unat p)"
    if p: "(p, w) \<in> set live" for p w
  proof -
    obtain a s where a: "(a, s) \<in> set (used_blocks A bs)" "unat p = a + 8" "unat w + 8 \<le> s" "8 dvd a" "A \<le> a" "a + s \<le> E"
      using live_memory [OF h l p] by blast
    have "unat p + unat w + 8 \<le> unat q \<or> unat q + unat v + 8 \<le> unat p" if q: "(q, v) \<in> set live" "p \<noteq> q" for q v
    proof -
      obtain c t where c: "(c, t) \<in> set (used_blocks A bs)" "unat q = c + 8" "unat v + 8 \<le> t"
        using live_memory [OF h l q(1)] by blast
      have "a \<noteq> c" using a(2) c(2) q(2) by (metis adr_unat)
      then show ?thesis using used_disjoint [OF a(1) c(1)] used_disjoint [OF c(1) a(1)] a(2,3) c(2,3) by linarith
    qed
    then show ?thesis using a b by (auto simp: mod_eq_0_iff_dvd)
  qed
  then show ?thesis using live_distinct [OF h l] by blast
qed simp

text \<open>A heap that nobody uses is one free block.\<close>

lemma joined_free: "joined bs \<Longrightarrow> \<forall>b\<in>set bs. \<not> snd b \<Longrightarrow> bs = [] \<or> (\<exists>s. bs = [(s, False)])"
  by (induction bs rule: joined.induct) auto

lemma unused_blocks: "used_blocks a bs = [] \<Longrightarrow> \<forall>b\<in>set bs. \<not> snd b"
  by (induction a bs rule: used_blocks.induct) (auto split: if_splits)

text \<open>C37: all the memory comes back, and in one piece. When every block handed out has been given back, in
  whatever order, a request of up to 2024 bytes (the array of 2048 less two headers and the alignment)
  is answered: freed neighbours have been joined, nothing is lost.\<close>

theorem heap_all_comes_back:
  assumes "linked_heap pl" and "heap_reach pl h []" and "0 < unat w" and "unat w \<le> 2024"
  shows "\<exists>p h'. heap_malloc pl w h = Inr (p, h') \<and> p \<noteq> 0"
proof -
  have one: "\<exists>p h'. heap_malloc pl w h0 = Inr (p, h') \<and> p \<noteq> 0" if r: "heap_rep pl A E h0 [(E - A, False)]" "A + 2032 \<le> E" for A E h0
  proof -
    have "block_size (unat w) \<le> 253 * 8 + 8" using assms(4) by (simp add: block_size_def)
    then have "first_fit (block_size (unat w)) [(E - A, False)] = Some ([], E - A, [])" using r(2) by simp
    then obtain h' where "heap_malloc pl w h0 = Inr (adr (A + 8), h')" using malloc_step [OF r(1) assms(3)] assms(4) by auto
    moreover have "A + 8 < 2 ^ 32" using r by (auto simp: heap_rep_def place_ok_def)
    ultimately show ?thesis using adr_0 [of "A + 8"] by auto
  qed
  have "heap_ok pl h []" using heap_reach_ok assms(1,2) by blast
  then consider "h = heap4_start" | A E bs where "heap_rep pl A E h bs" "A + 2032 \<le> E" "live_ok A bs []"
    by (auto simp: heap_ok_def)
  then show ?thesis
  proof cases
    case 1
    then show ?thesis using heap_init [OF assms(1)] malloc_first [OF assms(1), of w] one by auto
  next
    case (2 A E bs)
    have "joined bs" "A + extent bs = E" using 2(1) by (auto simp: heap_rep_def block_rep_def)
    moreover have "used_blocks A bs = []" using 2(3) by (simp add: live_ok_def)
    ultimately have "bs = [(E - A, False)]" using joined_free unused_blocks 2(2) by fastforce
    then show ?thesis using one 2(1,2) by blast
  qed
qed

section \<open>Statistics of a full heap\<close>

text \<open>When no block is free, \<open>vPortGetHeapStats\<close> counts \<open>pxEnd\<close> as a block and follows its null pointer.\<close>

lemma next_free_none: "free_bytes bs = 0 \<Longrightarrow> sizes_ok bs \<Longrightarrow> next_free a bs nx = nx"
  by (induction a bs nx rule: next_free.induct) (auto split: if_splits)

theorem stats_of_full_heap:
  assumes "heap_rep pl A E h bs" and "free_bytes bs = 0"
  shows "vPortGetHeapStats pl (h, k) = Inl Bounds"
proof -
  have r: "sizes_ok bs" "pxNextFreeBlock (links h (xStart pl)) = adr (next_free A bs E)"
    "links h (adr E) = \<lparr>pxNextFreeBlock = 0, xBlockSize = 0\<rparr>" "pxEnd h = adr E" "0 < E" "E < 2 ^ 32"
    using assms(1) by (auto simp: heap_rep_def block_rep_def place_ok_def)
  have e: "adr E \<noteq> 0" using r(5,6) by (simp add: adr_0)
  have "stats_loop h 0 x y z = Some (Inl Bounds)" for x y z by (subst stats_loop.simps) simp
  then have "stats_loop h (adr E) x y z = Some (Inl Bounds)" for x y z
    using r(3,4) e by (subst stats_loop.simps) (simp add: Let_def)
  then show ?thesis
    using r(2) e next_free_none [OF assms(2) r(1)] by (simp add: vPortGetHeapStats_def Let_def)
qed

section \<open>The memory of the first task\<close>

text \<open>Two requests that fit one behind the other into the fresh heap.\<close>

lemma two_requests:
  assumes pl: "linked_heap pl" and w: "0 < unat w" "0 < unat v" "block_size (unat w) + block_size (unat v) + 16 < 2032"
  shows "\<exists>p q h1 h2. heap_malloc pl w heap4_start = Inr (p, h1) \<and> heap_malloc pl v h1 = Inr (q, h2) \<and> p \<noteq> 0 \<and> q \<noteq> 0 \<and>
    p AND portBYTE_ALIGNMENT_MASK = 0 \<and> q AND portBYTE_ALIGNMENT_MASK = 0"
proof -
  let ?W = "block_size (unat w)" and ?V = "block_size (unat v)"
  obtain A E where i: "heap_rep pl A E (prvHeapInit pl heap4_start) [(E - A, False)]" "A + 2032 \<le> E" "E + 8 \<le> unat (ucHeap pl) + 2048"
    using heap_init [OF pl] by blast
  have E: "E + 8 \<le> 2 ^ 32" "8 dvd A" using i(1) by (simp_all add: heap_rep_def place_ok_def)
  have lt: "unat w < 2 ^ 31" "unat v < 2 ^ 31" using w(3) block_size(1) [of "unat w"] block_size(1) [of "unat v"] by simp_all
  have "first_fit ?W [(E - A, False)] = Some ([], E - A, [])" using w(3) i(2) by simp
  then obtain h1 where h1: "heap_malloc pl w heap4_start = Inr (adr (A + 8), h1)" "heap_rep pl A E h1 (taken ?W (E - A))"
    using malloc_step [OF i(1) w(1) lt(1)] malloc_first [OF pl, of w] by auto
  have t: "taken ?W (E - A) = [(?W, True), (E - A - ?W, False)]" using w(3) i(2) by (simp add: taken_def)
  have "first_fit ?V (taken ?W (E - A)) = Some ([(?W, True)], E - A - ?W, [])" using w(3) i(2) by (simp add: t)
  then obtain h2 where h2: "heap_malloc pl v h1 = Inr (adr (A + ?W + 8), h2)"
    using malloc_step [OF h1(2) w(2) lt(2)] by auto
  have "A + 8 < 2 ^ 32" "A + ?W + 8 < 2 ^ 32" using i(2) E(1) w(3) by simp_all
  moreover have "8 dvd A + 8" "8 dvd A + ?W + 8" using E(2) block_size(3) by simp_all
  ultimately show ?thesis using h1(1) h2 by (simp add: adr_0 adr_aligned)
qed

text \<open>Before the first task exists the suspension of the scheduler has no effect.\<close>

lemma malloc_before_start:
  assumes "heap_malloc pl w h = Inr (p, h')" and "p AND portBYTE_ALIGNMENT_MASK = 0"
  shows "pvPortMalloc pl w (h, kernel_start) = Inr (p, h', kernel_start)"
  using assms by (simp add: pvPortMalloc_def xTaskResumeAll_def vTaskSuspendAll_def kernel_start_def Let_def)

text \<open>The heap of 2048 bytes is large enough for the program. The only memory that is ever requested is that of
  the task \<open>main\<close> creates, a stack of 128 words and a control block; wherever the linker puts the heap
  array, both requests are answered and the kernel is as before.\<close>

theorem main_task_gets_memory:
  assumes "linked_heap pl"
  shows "\<exists>tcb h. alloc_task pl 128 (heap4_start, kernel_start) = Inr (Some tcb, h, kernel_start) \<and> tcb \<noteq> 0"
proof -
  have "block_size (unat (512 :: u32)) + block_size (unat (92 :: u32)) + 16 < 2032" by (simp add: block_size_def)
  then obtain p q h1 h2 where r: "heap_malloc pl 512 heap4_start = Inr (p, h1)" "heap_malloc pl 92 h1 = Inr (q, h2)"
      "p \<noteq> 0" "q \<noteq> 0" "p AND portBYTE_ALIGNMENT_MASK = 0" "q AND portBYTE_ALIGNMENT_MASK = 0"
    using two_requests [OF assms, of 512 92] by auto
  have "ucast (128 :: u16) * sizeof_StackType_t = (512 :: u32)" by (simp add: sizeof_StackType_t_def)
  then show ?thesis using malloc_before_start [OF r(1,5)] malloc_before_start [OF r(2,6)] r(3,4)
    by (simp add: alloc_task_def sizeof_TCB_t_def)
qed

section \<open>Concrete memory\<close>

definition example_place :: placement where
  "example_place = \<lparr>ucHeap = 0x20000104, xStart = 0x20000C00\<rparr>"

lemma example_linked: "linked_heap example_place"
proof -
  have "(0x20000C00 :: u32) \<notin> adr ` {536871172..<536873220}"
  proof
    assume "(0x20000C00 :: u32) \<in> adr ` {536871172..<536873220}"
    then obtain x where "adr x = adr 536873984" "536871172 \<le> x" "x < 536873220" by (auto simp: adr_def)
    then show False using adr_simps(1) [of x 536873984] by simp
  qed
  then show ?thesis by (simp add: linked_heap_def example_place_def)
qed

theorem main_task_gets_memory_witness:
  "\<exists>tcb h. alloc_task example_place 128 (heap4_start, kernel_start) = Inr (Some tcb, h, kernel_start) \<and> tcb \<noteq> 0"
  by (rule main_task_gets_memory [OF example_linked])

lemma example_reach: "\<exists>p q h. heap_reach example_place h [(q, 92), (p, 512)]"
proof -
  obtain p q h1 h2 where r: "heap_malloc example_place 512 heap4_start = Inr (p, h1)" "heap_malloc example_place 92 h1 = Inr (q, h2)"
      "p \<noteq> 0" "q \<noteq> 0"
    using two_requests [OF example_linked, of 512 92] by (auto simp: block_size_def)
  have "heap_reach example_place h1 [(p, 512)]" using request [OF unused r(1)] r(3) by simp
  from request [OF this r(2)] show ?thesis using r(4) by auto
qed

theorem heap_never_stuck_witness:
  "\<exists>p q h. heap_reach example_place h [(q, 92), (p, 512)] \<and> (\<exists>r h'. heap_malloc example_place 5000 h = Inr (r, h')) \<and>
     (\<exists>h'. heap_free example_place p h = Inr h')"
proof -
  obtain p q h where r: "heap_reach example_place h [(q, 92), (p, 512)]" using example_reach by blast
  have "\<exists>r h'. heap_malloc example_place 5000 h = Inr (r, h')" "\<exists>h'. heap_free example_place p h = Inr h'"
    using heap_never_stuck [OF example_linked r] by auto
  then show ?thesis using r by blast
qed

theorem heap_memory_disjoint_witness:
  "\<exists>p q h. heap_reach example_place h [(q, 92), (p, 512)] \<and> p \<noteq> q \<and>
     (unat p + 512 + 8 \<le> unat q \<or> unat q + 92 + 8 \<le> unat p)"
proof -
  obtain p q h where r: "heap_reach example_place h [(q, 92), (p, 512)]" using example_reach by blast
  from heap_memory_disjoint [OF example_linked r] r show ?thesis by auto
qed

theorem heap_all_comes_back_witness:
  "\<exists>p h1 h2 q h3. heap_malloc example_place 512 heap4_start = Inr (p, h1) \<and> p \<noteq> 0 \<and> heap_free example_place p h1 = Inr h2 \<and>
     heap_malloc example_place 2024 h2 = Inr (q, h3) \<and> q \<noteq> 0"
proof -
  obtain p h1 where r: "heap_malloc example_place 512 heap4_start = Inr (p, h1)" "p \<noteq> 0"
    using two_requests [OF example_linked, of 512 92] by (auto simp: block_size_def)
  have h1: "heap_reach example_place h1 [(p, 512)]" using request [OF unused r(1)] r(2) by simp
  then have "heap_ok example_place h1 [(p, 512)]" using heap_reach_ok example_linked by blast
  from heap_ok_give_back [OF this, of p 512] obtain h2 where h2: "heap_free example_place p h1 = Inr h2" by auto
  have "heap_reach example_place h2 []" using give_back [OF h1 _ h2, of 512] by simp
  from heap_all_comes_back [OF example_linked this, of 2024] obtain q h3 where
    "heap_malloc example_place 2024 h2 = Inr (q, h3)" "q \<noteq> 0" by auto
  then show ?thesis using r h2 by blast
qed

end
