(* ===== verification/TimerSpec.thy ===== *)
theory TimerSpec
  imports Timers Heap4Spec
begin

text \<open>
  What the timer task does, in unbounded time. The tick count has 32 bits; the two lists hold the timers that
  expire before and after its next wrap-around. \<open>due\<close> is the instant of unbounded time at which a timer
  expires next, wherever it is: in one of the lists or in a restart command that is still in the queue.
\<close>

section \<open>Messages in the queue\<close>

lemma of_le32_le32: "of_le32 (le32 w) = w"
proof (rule bit_word_eqI)
  fix n assume n: "n < LENGTH(32)"
  then consider "n < 8" | "8 \<le> n" "n < 16" | "16 \<le> n" "n < 24" | "24 \<le> n" "n < 32" by fastforce
  then show "bit (of_le32 (le32 w)) n = bit w n"
    by cases (auto simp: of_le32_def le32_def bit_simps)
qed

lemma length_message_bytes [simp]: "length (message_bytes m) = 16"
  by (simp add: message_bytes_def le32_def)

lemma message_of_message_bytes [simp]: "message_of_bytes (message_bytes m) = m"
proof -
  have parts: "take 4 (message_bytes m) = le32 (xMessageID m)" "take 4 (drop 4 (message_bytes m)) = le32 (u_word1 m)"
    "take 4 (drop 8 (message_bytes m)) = le32 (u_word2 m)" "take 4 (drop 12 (message_bytes m)) = le32 (u_word3 m)"
    by (simp_all add: message_bytes_def le32_def)
  show ?thesis unfolding message_of_bytes_def parts of_le32_le32 by simp
qed

text \<open>The queue holds the messages \<open>ms\<close> and nobody waits for it.\<close>

definition queue_holds :: "DaemonTaskMessage_t list \<Rightarrow> Queue_t option \<Rightarrow> (nat \<Rightarrow> task list) \<Rightarrow> bool" where
  "queue_holds ms oq ev \<longleftrightarrow> (\<exists>q. oq = Some q \<and> queue_inv q \<and> uxLength q = 10 \<and> uxItemSize q = 16 \<and>
     cRxLock q = queueUNLOCKED \<and> cTxLock q = queueUNLOCKED \<and>
     queue_items q = map message_bytes ms \<and> ev (xTasksWaitingToReceive q) = [] \<and> ev (xTasksWaitingToSend q) = [])"

abbreviation holds :: "DaemonTaskMessage_t list \<Rightarrow> timers \<Rightarrow> bool" where
  "holds ms s \<equiv> queue_holds ms (xTimerQueue s) (xEventLists (tkern s))"

lemma holds_length: "queue_holds ms oq ev \<Longrightarrow> length ms \<le> 10"
  by (metis length_map queue_holds_def queue_invD(3) queue_items_length)

lemma wake_nobody: "xEventLists k l = [] \<Longrightarrow> wake_and_yield l k = Inr k"
  by (simp add: wake_and_yield_def wake_waiting_def)

lemma send_holds:
  assumes "holds ms s" and "length ms < 10"
  shows "\<exists>q. send_message m 0 s = Inr (Finished True, s\<lparr>xTimerQueue := Some q\<rparr>) \<and>
    holds (ms @ [m]) (s\<lparr>xTimerQueue := Some q\<rparr>)"
proof -
  obtain q where q: "xTimerQueue s = Some q" "queue_inv q" "uxLength q = 10" "uxItemSize q = 16"
      "cRxLock q = queueUNLOCKED" "cTxLock q = queueUNLOCKED"
      "queue_items q = map message_bytes ms" "xEventLists (tkern s) (xTasksWaitingToReceive q) = []"
      "xEventLists (tkern s) (xTasksWaitingToSend q) = []"
    using assms(1) by (auto simp: queue_holds_def)
  have n: "uxMessagesWaiting q < uxLength q" using assms(2) q(3,7) queue_items_length [of q] by simp
  obtain q' where q': "prvCopyDataToQueue (message_bytes m) queueSEND_TO_BACK q (tkern s) = Inr (False, q', tkern s)"
      "queue_inv q'" "queue_items q' = queue_items q @ [message_bytes m]" "same_queue q q'"
    using copy_back [OF q(2) n] q(4) by force
  have "send_message m 0 s = Inr (Finished True, s\<lparr>xTimerQueue := Some q'\<rparr>)"
    using q q' n by (simp add: send_message_def send_asserts_def xQueueGenericSend_try_def sent_bytes_def same_queue_def)
  then show ?thesis using q q' by (auto simp: queue_holds_def same_queue_def)
qed

lemma send_full:
  assumes "holds ms s" and "length ms = 10"
  shows "send_message m 0 s = Inr (Finished False, s)"
proof -
  obtain q where q: "xTimerQueue s = Some q" "uxLength q = 10" "queue_items q = map message_bytes ms"
    using assms(1) by (auto simp: queue_holds_def)
  then have "uxMessagesWaiting q = 10" using assms(2) queue_items_length [of q] by simp
  then show ?thesis using q by (cases s) (simp add: send_message_def send_asserts_def xQueueGenericSend_try_def)
qed

lemma receive_holds:
  assumes "holds (m # ms) s"
  shows "\<exists>q. receive_command s = Inr (Some m, s\<lparr>xTimerQueue := Some q\<rparr>) \<and> holds ms (s\<lparr>xTimerQueue := Some q\<rparr>)"
proof -
  obtain q where q: "xTimerQueue s = Some q" "queue_inv q" "uxLength q = 10" "uxItemSize q = 16"
      "cRxLock q = queueUNLOCKED" "cTxLock q = queueUNLOCKED"
      "queue_items q = map message_bytes (m # ms)" "xEventLists (tkern s) (xTasksWaitingToReceive q) = []"
      "xEventLists (tkern s) (xTasksWaitingToSend q) = []"
    using assms(1) by (auto simp: queue_holds_def)
  have n: "0 < uxMessagesWaiting q" using q(7) queue_items_length [of q] by simp
  define q' where "q' = projr (map_sum id snd (prvCopyDataFromQueue q))"
  have q': "prvCopyDataFromQueue q = Inr (message_bytes m, q')" "queue_inv (q'\<lparr>uxMessagesWaiting := uxMessagesWaiting q - 1\<rparr>)"
      "queue_items (q'\<lparr>uxMessagesWaiting := uxMessagesWaiting q - 1\<rparr>) = map message_bytes ms" "same_queue q q'"
    using copy_out [OF q(2) n] q(7) by (auto simp: q'_def)
  have "receive_command s = Inr (Some m, s\<lparr>xTimerQueue := Some (q'\<lparr>uxMessagesWaiting := uxMessagesWaiting q - 1\<rparr>)\<rparr>)"
    using q q' n by (simp add: receive_command_def receive_asserts_def xQueueReceive_try_def Let_def same_queue_def wake_nobody)
  then show ?thesis using q q'
    by (intro exI [of _ "q'\<lparr>uxMessagesWaiting := uxMessagesWaiting q - 1\<rparr>"]) (simp add: queue_holds_def same_queue_def)
qed

lemma receive_nothing:
  assumes "holds [] s"
  shows "receive_command s = Inr (None, s)"
proof -
  obtain q where q: "xTimerQueue s = Some q" "queue_items q = []" using assms by (auto simp: queue_holds_def)
  then have "uxMessagesWaiting q = 0" using queue_items_length [of q] by simp
  then show ?thesis using q by (cases s) (simp add: receive_command_def receive_asserts_def xQueueReceive_try_def Let_def)
qed

section \<open>Inserting a timer\<close>

definition epoch :: "nat \<Rightarrow> nat" where
  "epoch n = n div 2 ^ 32"

lemma epoch_split: "n = epoch n * 2 ^ 32 + unat (of_nat n :: u32)"
  by (simp add: epoch_def unsigned_of_nat take_bit_eq_mod)

lemma epoch_unique: "n = e * 2 ^ 32 + unat (w :: u32) \<Longrightarrow> epoch n = e \<and> of_nat n = w"
proof -
  assume n: "n = e * 2 ^ 32 + unat w"
  have "unat w < 2 ^ 32" using unsigned_less [of w] by simp
  then have e: "epoch n = e" unfolding n epoch_def by (subst div_mult_self3) simp_all
  have "(of_nat n :: u32) = of_nat e * of_nat (2 ^ 32) + w"
    unfolding n by (simp only: of_nat_add of_nat_mult of_nat_unat ucast_id)
  moreover have "(of_nat (2 ^ 32) :: u32) = 0" by simp
  ultimately show ?thesis using e by (simp only: mult_zero_right add_0_left simp_thms)
qed

lemma epoch_bounds: "epoch n * 2 ^ 32 \<le> n" "n < (epoch n + 1) * 2 ^ 32"
proof -
  show "epoch n * 2 ^ 32 \<le> n" by (simp add: epoch_def)
  have "n mod 4294967296 < (4294967296 :: nat)" by simp
  then show "n < (epoch n + 1) * 2 ^ 32" using div_mult_mod_eq [of n 4294967296] unfolding epoch_def by simp
qed

text \<open>The comparisons of \<open>prvInsertTimerInActiveList\<close> are right as long as a command is looked at less than one round
  of the tick count after it was given.\<close>

lemma insert_decision:
  fixes p :: u32
  assumes "C \<le> N" and "N < C + 2 ^ 32" and "0 < p"
  defines "n \<equiv> of_nat N :: u32" and "c \<equiv> of_nat C :: u32" and "D \<equiv> C + unat p"
  shows "c + p \<le> n \<Longrightarrow> p \<le> n - c \<longleftrightarrow> D \<le> N"
    and "c + p \<le> n \<Longrightarrow> N < D \<Longrightarrow> epoch D = epoch N + 1"
    and "\<not> c + p \<le> n \<Longrightarrow> (n < c \<and> c \<le> c + p) \<longleftrightarrow> D \<le> N"
    and "\<not> c + p \<le> n \<Longrightarrow> N < D \<Longrightarrow> epoch D = epoch N"
    and "of_nat D = c + p"
proof -
  define a b d where abd: "a = unat c" "b = unat n" "d = unat p"
  have l: "a < 4294967296" "b < 4294967296" "d < 4294967296" "0 < d"
    using unsigned_less [of c] unsigned_less [of n] unsigned_less [of p] assms(3) by (simp_all add: abd word_less_nat_alt)
  have s: "unat (c + p) = (if a + d < 4294967296 then a + d else a + d - 4294967296)"
    using l by (simp add: unat_word_ariths(1) mod_if abd)
  have m: "unat (n - c) = (if a \<le> b then b - a else b + 4294967296 - a)"
    using l unat_sub_if' [of n c] by (simp add: abd)
  have C: "C = epoch C * 4294967296 + a" and N: "N = epoch N * 4294967296 + b"
    using epoch_split [of C] epoch_split [of N] by (simp_all add: abd n_def c_def)
  show w: "of_nat D = c + p" by (simp add: D_def c_def)
  have D: "D = epoch D * 4294967296 + unat (c + p)" unfolding w [symmetric] using epoch_split [of D] by simp
  have lt: "epoch N * 4294967296 + b < epoch C * 4294967296 + a + 4294967296"
    and le: "epoch C * 4294967296 + a \<le> epoch N * 4294967296 + b" using C N assms(1,2) by simp_all
  then have eC: "epoch N = epoch C \<or> epoch N = epoch C + 1" using l by arith
  have eD: "epoch D = (if a + d < 4294967296 then epoch C else epoch C + 1)"
    using D C s l unfolding D_def abd(3) [symmetric] by (auto split: if_splits)
  have DN: "D \<le> N \<longleftrightarrow> epoch D * 4294967296 + unat (c + p) \<le> epoch N * 4294967296 + b" using D N by linarith
  note words = word_le_nat_alt word_less_nat_alt m s abd(1,2) [symmetric] abd(3) [symmetric]
  show "c + p \<le> n \<Longrightarrow> p \<le> n - c \<longleftrightarrow> D \<le> N"
    unfolding DN words eD using eC l lt le by (elim disjE) (auto split: if_splits)
  show "c + p \<le> n \<Longrightarrow> N < D \<Longrightarrow> epoch D = epoch N + 1"
    using DN unfolding words eD not_le [symmetric] using eC l lt le by (elim disjE) (auto split: if_splits)
  show "\<not> c + p \<le> n \<Longrightarrow> (n < c \<and> c \<le> c + p) \<longleftrightarrow> D \<le> N"
    unfolding DN words eD using eC l lt le by (elim disjE) (auto split: if_splits)
  show "\<not> c + p \<le> n \<Longrightarrow> N < D \<Longrightarrow> epoch D = epoch N"
    using DN unfolding words eD not_le [symmetric] using eC l lt le by (elim disjE) (auto split: if_splits)
qed

lemma insert_exact:
  assumes "C \<le> N" and "N < C + 2 ^ 32" and "0 < xTimerPeriodInTicks (tmr s t)"
  defines "D \<equiv> C + unat (xTimerPeriodInTicks (tmr s t))"
  shows "prvInsertTimerInActiveList t (of_nat C + xTimerPeriodInTicks (tmr s t)) (of_nat N) (of_nat C) s =
    (let s1 = upd_timer t (\<lambda>x. x\<lparr>xExpiryTime := of_nat D\<rparr>) s in
     if D \<le> N then (True, s1)
     else if epoch D = epoch N then (False, insert_current t s1) else (False, insert_overflow t s1))"
  using insert_decision [OF assms(1-3)] assms(3)
  by (auto simp: prvInsertTimerInActiveList_def Let_def D_def upd_timer_def not_le)

section \<open>Where the timers are and when they are due\<close>

abbreviation period :: "timers \<Rightarrow> timer \<Rightarrow> nat" where
  "period s t \<equiv> unat (xTimerPeriodInTicks (tmr s t))"

abbreviation reloads :: "timers \<Rightarrow> timer \<Rightarrow> bool" where
  "reloads s t \<equiv> has_status tmrSTATUS_IS_AUTORELOAD t s"

abbreviation expiry :: "timers \<Rightarrow> timer \<Rightarrow> u32" where
  "expiry s t \<equiv> xExpiryTime (tmr s t)"

definition restart_message :: "timer \<times> nat \<Rightarrow> DaemonTaskMessage_t" where
  "restart_message = (\<lambda>(t, V). \<lparr>xMessageID = tmrCOMMAND_START_DONT_TRACE, u_word1 = of_nat V, u_word2 = t, u_word3 = 0\<rparr>)"

text \<open>\<open>e\<close> is the number of wrap-arounds the lists have seen, \<open>ms\<close> the restart commands in the queue with their
  times.\<close>

definition due :: "nat \<Rightarrow> (timer \<times> nat) list \<Rightarrow> timers \<Rightarrow> timer \<Rightarrow> nat option" where
  "due e ms s t =
     (if t \<in> set (pxCurrentTimerList s) then Some (e * 2 ^ 32 + unat (expiry s t))
      else if t \<in> set (pxOverflowTimerList s) then Some ((e + 1) * 2 ^ 32 + unat (expiry s t))
      else map_option (\<lambda>V. V + period s t) (map_of ms t))"

definition everywhere :: "(timer \<times> nat) list \<Rightarrow> timers \<Rightarrow> timer list" where
  "everywhere ms s = pxCurrentTimerList s @ pxOverflowTimerList s @ map fst ms"

definition timers_inv :: "nat \<Rightarrow> nat \<Rightarrow> (timer \<times> nat) list \<Rightarrow> timers \<Rightarrow> bool" where
  "timers_inv e N ms s \<longleftrightarrow> holds (map restart_message ms) s \<and> distinct (everywhere ms s) \<and>
     (\<forall>t\<in>set (everywhere ms s). t \<noteq> 0 \<and> 0 < xTimerPeriodInTicks (tmr s t)) \<and>
     sorted (map (expiry s) (pxCurrentTimerList s)) \<and> sorted (map (expiry s) (pxOverflowTimerList s)) \<and>
     (\<forall>m\<in>set ms. snd m \<le> N \<and> N < snd m + 2 ^ 32)"

lemma due_None: "due e ms s t = None \<longleftrightarrow> t \<notin> set (everywhere ms s)"
  by (auto simp: due_def everywhere_def map_of_eq_None_iff)

lemma due_cong:
  "pxCurrentTimerList s' = pxCurrentTimerList s \<Longrightarrow> pxOverflowTimerList s' = pxOverflowTimerList s \<Longrightarrow>
   (\<And>t. expiry s' t = expiry s t) \<Longrightarrow> (\<And>t. xTimerPeriodInTicks (tmr s' t) = xTimerPeriodInTicks (tmr s t)) \<Longrightarrow>
   due e ms s' = due e ms s"
  by (simp add: due_def fun_eq_iff)

lemma inv_cong:
  "pxCurrentTimerList s' = pxCurrentTimerList s \<Longrightarrow> pxOverflowTimerList s' = pxOverflowTimerList s \<Longrightarrow>
   (\<And>t. expiry s' t = expiry s t) \<Longrightarrow> (\<And>t. xTimerPeriodInTicks (tmr s' t) = xTimerPeriodInTicks (tmr s t)) \<Longrightarrow>
   xTimerQueue s' = xTimerQueue s \<Longrightarrow> xEventLists (tkern s') = xEventLists (tkern s) \<Longrightarrow>
   timers_inv e N ms s' = timers_inv e N ms s"
  by (simp add: timers_inv_def everywhere_def)

lemma upd_timer_frames [simp]:
  "pxCurrentTimerList (upd_timer t f s) = pxCurrentTimerList s" "pxOverflowTimerList (upd_timer t f s) = pxOverflowTimerList s"
  "xTimerQueue (upd_timer t f s) = xTimerQueue s" "tkern (upd_timer t f s) = tkern s" "calls (upd_timer t f s) = calls s"
  "xLastTime (upd_timer t f s) = xLastTime s"
  "tmr (upd_timer t f s) x = (if x = t then f (tmr s t) else tmr s x)"
  by (simp_all add: upd_timer_def)

lemma timer_list_frames [simp]:
  "tmr (remove_timer t s) = tmr s" "tmr (insert_current t s) = tmr s" "tmr (insert_overflow t s) = tmr s"
  "xTimerQueue (remove_timer t s) = xTimerQueue s" "xTimerQueue (insert_current t s) = xTimerQueue s"
  "xTimerQueue (insert_overflow t s) = xTimerQueue s" "tkern (remove_timer t s) = tkern s"
  "tkern (insert_current t s) = tkern s" "tkern (insert_overflow t s) = tkern s" "calls (remove_timer t s) = calls s"
  "calls (insert_current t s) = calls s" "calls (insert_overflow t s) = calls s" "xLastTime (remove_timer t s) = xLastTime s"
  "xLastTime (insert_current t s) = xLastTime s" "xLastTime (insert_overflow t s) = xLastTime s"
  "pxCurrentTimerList (remove_timer t s) = remove1 t (pxCurrentTimerList s)"
  "pxOverflowTimerList (remove_timer t s) = remove1 t (pxOverflowTimerList s)"
  "pxCurrentTimerList (insert_current t s) = vListInsert (expiry s) t (pxCurrentTimerList s)"
  "pxOverflowTimerList (insert_current t s) = pxOverflowTimerList s"
  "pxCurrentTimerList (insert_overflow t s) = pxCurrentTimerList s"
  "pxOverflowTimerList (insert_overflow t s) = vListInsert (expiry s) t (pxOverflowTimerList s)"
  by (simp_all add: remove_timer_def insert_current_def insert_overflow_def)

lemma reloads_cong: "ucStatus (tmr s' t) = ucStatus (tmr s t) \<Longrightarrow> reloads s' t = reloads s t"
  by (simp add: has_status_def)

lemma insert_on_new_key:
  "t \<notin> set l \<Longrightarrow> vListInsert (\<lambda>x. xExpiryTime (if x = t then u else tmr s x)) t l = vListInsert ((expiry s)(t := xExpiryTime u)) t l"
  by (rule vListInsert_cong) auto

lemma sorted_map_upd: "t \<notin> set l \<Longrightarrow> map (f(t := v)) l = map f l"
  by (rule map_cong) auto

lemma place_current:
  fixes w :: u32
  assumes "timers_inv e N ms s" and "due e ms s t = None" and "t \<noteq> 0" and "0 < xTimerPeriodInTicks (tmr s t)"
  defines "s' \<equiv> insert_current t (upd_timer t (\<lambda>x. x\<lparr>xExpiryTime := w\<rparr>) s)"
  shows "timers_inv e N ms s'" and "due e ms s' = (due e ms s)(t := Some (e * 2 ^ 32 + unat w))"
proof -
  have t: "t \<notin> set (everywhere ms s)" using assms(2) by (simp add: due_None)
  have k: "expiry s' = (expiry s)(t := w)" by (auto simp: s'_def)
  have c: "pxCurrentTimerList s' = vListInsert ((expiry s)(t := w)) t (pxCurrentTimerList s)"
    using t by (auto simp: s'_def everywhere_def intro!: vListInsert_cong)
  have o: "pxOverflowTimerList s' = pxOverflowTimerList s" by (simp add: s'_def)
  have p: "xTimerPeriodInTicks (tmr s' x) = xTimerPeriodInTicks (tmr s x)" for x by (simp add: s'_def)
  have h: "xTimerQueue s' = xTimerQueue s" "tkern s' = tkern s" by (simp_all add: s'_def)
  have srt: "sorted (map ((expiry s)(t := w)) (vListInsert ((expiry s)(t := w)) t (pxCurrentTimerList s)))"
    using assms(1) t by (intro sorted_vListInsert) (simp add: timers_inv_def everywhere_def sorted_map_upd)
  have srt2: "sorted (map ((expiry s)(t := w)) (pxOverflowTimerList s))"
    using assms(1) t by (simp add: timers_inv_def everywhere_def sorted_map_upd)
  have "distinct (vListInsert ((expiry s)(t := w)) t (pxCurrentTimerList s))"
    using assms(1) t by (intro distinct_vListInsert) (auto simp: timers_inv_def everywhere_def)
  then have "distinct (everywhere ms s')"
    using assms(1) t unfolding everywhere_def c o by (auto simp: timers_inv_def everywhere_def)
  then show "timers_inv e N ms s'"
    using assms(1,3,4) srt srt2 unfolding timers_inv_def k c o h p by (auto simp: everywhere_def c o)
  show "due e ms s' = (due e ms s)(t := Some (e * 2 ^ 32 + unat w))"
    using t unfolding due_def c o p by (auto simp: fun_eq_iff k [THEN fun_cong] everywhere_def map_of_eq_None_iff)
qed

lemma place_overflow:
  fixes w :: u32
  assumes "timers_inv e N ms s" and "due e ms s t = None" and "t \<noteq> 0" and "0 < xTimerPeriodInTicks (tmr s t)"
  defines "s' \<equiv> insert_overflow t (upd_timer t (\<lambda>x. x\<lparr>xExpiryTime := w\<rparr>) s)"
  shows "timers_inv e N ms s'" and "due e ms s' = (due e ms s)(t := Some ((e + 1) * 2 ^ 32 + unat w))"
proof -
  have t: "t \<notin> set (everywhere ms s)" using assms(2) by (simp add: due_None)
  have k: "expiry s' = (expiry s)(t := w)" by (auto simp: s'_def)
  have o: "pxOverflowTimerList s' = vListInsert ((expiry s)(t := w)) t (pxOverflowTimerList s)"
    using t by (auto simp: s'_def everywhere_def intro!: vListInsert_cong)
  have c: "pxCurrentTimerList s' = pxCurrentTimerList s" by (simp add: s'_def)
  have p: "xTimerPeriodInTicks (tmr s' x) = xTimerPeriodInTicks (tmr s x)" for x by (simp add: s'_def)
  have h: "xTimerQueue s' = xTimerQueue s" "tkern s' = tkern s" by (simp_all add: s'_def)
  have srt: "sorted (map ((expiry s)(t := w)) (vListInsert ((expiry s)(t := w)) t (pxOverflowTimerList s)))"
    using assms(1) t by (intro sorted_vListInsert) (simp add: timers_inv_def everywhere_def sorted_map_upd)
  have srt2: "sorted (map ((expiry s)(t := w)) (pxCurrentTimerList s))"
    using assms(1) t by (simp add: timers_inv_def everywhere_def sorted_map_upd)
  have "distinct (vListInsert ((expiry s)(t := w)) t (pxOverflowTimerList s))"
    using assms(1) t by (intro distinct_vListInsert) (auto simp: timers_inv_def everywhere_def)
  then have "distinct (everywhere ms s')"
    using assms(1) t unfolding everywhere_def c o by (auto simp: timers_inv_def everywhere_def)
  then show "timers_inv e N ms s'"
    using assms(1,3,4) srt srt2 unfolding timers_inv_def k c o h p by (auto simp: everywhere_def c o)
  show "due e ms s' = (due e ms s)(t := Some ((e + 1) * 2 ^ 32 + unat w))"
    using t unfolding due_def c o p by (auto simp: fun_eq_iff k [THEN fun_cong] everywhere_def map_of_eq_None_iff)
qed

lemma take_current:
  assumes "timers_inv e N ms s" and "pxCurrentTimerList s = t # ts"
  shows "timers_inv e N ms (remove_timer t s)" and "due e ms (remove_timer t s) = (due e ms s)(t := None)"
    and "due e ms s t = Some (e * 2 ^ 32 + unat (expiry s t))" and "t \<noteq> 0" and "0 < xTimerPeriodInTicks (tmr s t)"
    and "pxCurrentTimerList (remove_timer t s) = ts" and "pxOverflowTimerList (remove_timer t s) = pxOverflowTimerList s"
proof -
  have t: "t \<notin> set ts" "t \<notin> set (pxOverflowTimerList s)" "t \<notin> fst ` set ms"
    using assms by (auto simp: timers_inv_def everywhere_def)
  then show l: "pxCurrentTimerList (remove_timer t s) = ts" "pxOverflowTimerList (remove_timer t s) = pxOverflowTimerList s"
    using assms(2) by (simp_all add: remove1_idem)
  show "timers_inv e N ms (remove_timer t s)"
    using assms unfolding timers_inv_def everywhere_def l by auto
  show "due e ms (remove_timer t s) = (due e ms s)(t := None)"
    using t unfolding due_def l by (auto simp: fun_eq_iff assms(2) map_of_eq_None_iff)
  show "due e ms s t = Some (e * 2 ^ 32 + unat (expiry s t))" "t \<noteq> 0" "0 < xTimerPeriodInTicks (tmr s t)"
    using assms by (auto simp: due_def timers_inv_def everywhere_def)
qed

section \<open>Restart commands\<close>

lemma restart_ok:
  assumes i: "timers_inv e N ms s" and d: "due e ms s t = None" and t: "t \<noteq> 0" "0 < xTimerPeriodInTicks (tmr s t)"
    and V: "V \<le> N" "N < V + 2 ^ 32" and n: "length ms < 10"
  shows "\<exists>q. restart t (of_nat V) s = Inr (s\<lparr>xTimerQueue := Some q\<rparr>) \<and>
    timers_inv e N (ms @ [(t, V)]) (s\<lparr>xTimerQueue := Some q\<rparr>) \<and>
    due e (ms @ [(t, V)]) (s\<lparr>xTimerQueue := Some q\<rparr>) = (due e ms s)(t := Some (V + period s t))"
proof -
  obtain q where q: "send_message (restart_message (t, V)) 0 s = Inr (Finished True, s\<lparr>xTimerQueue := Some q\<rparr>)"
      "holds (map restart_message ms @ [restart_message (t, V)]) (s\<lparr>xTimerQueue := Some q\<rparr>)"
    using send_holds [of "map restart_message ms" s "restart_message (t, V)"] i n by (auto simp: timers_inv_def)
  have f: "t \<notin> set (everywhere ms s)" using d by (simp add: due_None)
  have "xTimerQueue s \<noteq> None" using i by (auto simp: timers_inv_def queue_holds_def)
  then have "restart t (of_nat V) s = Inr (s\<lparr>xTimerQueue := Some q\<rparr>)"
    using q(1) t by (simp add: restart_def xTimerGenericCommand_def restart_message_def command_ids)
  moreover have "timers_inv e N (ms @ [(t, V)]) (s\<lparr>xTimerQueue := Some q\<rparr>)"
    using i f t V q(2) by (auto simp: timers_inv_def everywhere_def)
  moreover have "due e (ms @ [(t, V)]) (s\<lparr>xTimerQueue := Some q\<rparr>) = (due e ms s)(t := Some (V + period s t))"
  proof -
    have "map_of ms t = None" using f by (simp add: everywhere_def map_of_eq_None_iff)
    then show ?thesis using f by (auto simp: due_def everywhere_def fun_eq_iff map_add_def split: option.split)
  qed
  ultimately show ?thesis by blast
qed

lemma next_message:
  assumes i: "timers_inv e N ((t, V) # ms) s"
  shows "\<exists>q. receive_command s = Inr (Some (restart_message (t, V)), s\<lparr>xTimerQueue := Some q\<rparr>) \<and>
    timers_inv e N ms (s\<lparr>xTimerQueue := Some q\<rparr>) \<and>
    due e ms (s\<lparr>xTimerQueue := Some q\<rparr>) = (due e ((t, V) # ms) s)(t := None)"
    and "due e ((t, V) # ms) s t = Some (V + period s t)" and "t \<noteq> 0" "0 < xTimerPeriodInTicks (tmr s t)"
    and "V \<le> N" "N < V + 2 ^ 32" "\<not> in_timer_list t s"
proof -
  obtain q where q: "receive_command s = Inr (Some (restart_message (t, V)), s\<lparr>xTimerQueue := Some q\<rparr>)"
      "holds (map restart_message ms) (s\<lparr>xTimerQueue := Some q\<rparr>)"
    using receive_holds [of "restart_message (t, V)" "map restart_message ms" s] i by (auto simp: timers_inv_def)
  have f: "t \<notin> set (pxCurrentTimerList s)" "t \<notin> set (pxOverflowTimerList s)" "t \<notin> fst ` set ms"
    using i by (auto simp: timers_inv_def everywhere_def)
  have "timers_inv e N ms (s\<lparr>xTimerQueue := Some q\<rparr>)" using i q(2) by (auto simp: timers_inv_def everywhere_def)
  moreover have "due e ms (s\<lparr>xTimerQueue := Some q\<rparr>) = (due e ((t, V) # ms) s)(t := None)"
    using f by (auto simp: due_def fun_eq_iff map_of_eq_None_iff)
  ultimately show "\<exists>q. receive_command s = Inr (Some (restart_message (t, V)), s\<lparr>xTimerQueue := Some q\<rparr>) \<and>
      timers_inv e N ms (s\<lparr>xTimerQueue := Some q\<rparr>) \<and>
      due e ms (s\<lparr>xTimerQueue := Some q\<rparr>) = (due e ((t, V) # ms) s)(t := None)" using q(1) by blast
  show "due e ((t, V) # ms) s t = Some (V + period s t)" using f by (simp add: due_def)
  show "t \<noteq> 0" "0 < xTimerPeriodInTicks (tmr s t)" "V \<le> N" "N < V + 2 ^ 32" "\<not> in_timer_list t s"
    using i f by (auto simp: timers_inv_def everywhere_def in_timer_list_def)
qed

section \<open>What is still to come\<close>

text \<open>Of a timer that is due at \<open>d\<close>: how often it expires up to \<open>N\<close>, and when it is due after that.\<close>

fun expiries :: "bool \<Rightarrow> nat \<Rightarrow> nat \<Rightarrow> nat option \<Rightarrow> nat" where
  "expiries reload p N None = 0"
| "expiries reload p N (Some d) = (if N < d then 0 else if reload then (N - d) div p + 1 else 1)"

fun next_due :: "bool \<Rightarrow> nat \<Rightarrow> nat \<Rightarrow> nat option \<Rightarrow> nat option" where
  "next_due reload p N None = None"
| "next_due reload p N (Some d) =
     (if N < d then Some d else if reload then Some (d + ((N - d) div p + 1) * p) else None)"

lemma expire_once:
  assumes "d \<le> N" and "0 < p"
  shows "expiries r p N (Some d) = Suc (expiries r p N (if r then Some (d + p) else None))"
    and "next_due r p N (Some d) = next_due r p N (if r then Some (d + p) else None)"
proof -
  have "(N - d) div p = (if N < d + p then 0 else Suc ((N - (d + p)) div p))"
    using assms le_div_geq [of p "N - d"] by auto
  then show "expiries r p N (Some d) = Suc (expiries r p N (if r then Some (d + p) else None))"
    and "next_due r p N (Some d) = next_due r p N (if r then Some (d + p) else None)"
    using assms by (auto simp: algebra_simps)
qed

lemma next_due_later: "0 < p \<Longrightarrow> next_due r p N x = Some d \<Longrightarrow> N < d"
proof (cases x)
  case (Some d0)
  assume "0 < p" "next_due r p N x = Some d"
  moreover have "N - d0 < ((N - d0) div p + 1) * p"
    using \<open>0 < p\<close> by (metis Suc_eq_plus1 div_less_iff_less_mult lessI)
  ultimately show ?thesis using Some by (auto split: if_splits)
qed simp

definition called :: "timer \<Rightarrow> timers \<Rightarrow> nat" where
  "called t s = length (filter (\<lambda>(c, _). \<exists>f. c = Expired f t) (calls s))"

text \<open>Nothing is lost between two states: calls made and calls to come add up, and so do the instants after
  that.\<close>

definition progress :: "nat \<Rightarrow> (timer \<Rightarrow> nat option) \<Rightarrow> timers \<Rightarrow> (timer \<Rightarrow> nat option) \<Rightarrow> timers \<Rightarrow> bool" where
  "progress N D s D' s' \<longleftrightarrow> tkern s' = tkern s \<and>
     (\<forall>t. xTimerPeriodInTicks (tmr s' t) = xTimerPeriodInTicks (tmr s t) \<and> reloads s' t = reloads s t \<and>
        called t s' + expiries (reloads s t) (period s t) N (D' t) = called t s + expiries (reloads s t) (period s t) N (D t) \<and>
        next_due (reloads s t) (period s t) N (D' t) = next_due (reloads s t) (period s t) N (D t))"

lemma progress_refl: "progress N D s D s"
  by (simp add: progress_def)

lemma progress_trans: "progress N D s D1 s1 \<Longrightarrow> progress N D1 s1 D2 s2 \<Longrightarrow> progress N D s D2 s2"
  by (simp add: progress_def)

lemma progress_same:
  "tkern s' = tkern s \<Longrightarrow> calls s' = calls s \<Longrightarrow> (\<And>t. xTimerPeriodInTicks (tmr s' t) = xTimerPeriodInTicks (tmr s t)) \<Longrightarrow>
   (\<And>t. reloads s' t = reloads s t) \<Longrightarrow> D' = D \<Longrightarrow> progress N D s D' s'"
  by (simp add: progress_def called_def)

lemma progress_expired:
  assumes "D t = Some d" and "d \<le> N" and "0 < xTimerPeriodInTicks (tmr s t)"
    and "D' = D(t := if reloads s t then Some (d + period s t) else None)"
    and "calls s' = calls s @ [(Expired f t, n)]" and "tkern s' = tkern s"
    and "\<And>t. xTimerPeriodInTicks (tmr s' t) = xTimerPeriodInTicks (tmr s t)" and "\<And>t. reloads s' t = reloads s t"
  shows "progress N D s D' s'"
proof -
  have p: "0 < period s t" using assms(3) by (simp add: word_less_nat_alt)
  have "called x s' + expiries (reloads s x) (period s x) N (D' x) = called x s + expiries (reloads s x) (period s x) N (D x) \<and>
      next_due (reloads s x) (period s x) N (D' x) = next_due (reloads s x) (period s x) N (D x)" for x
  proof (cases "x = t")
    case True
    have "called x s' = Suc (called x s)" using assms(5) True by (simp add: called_def)
    moreover have "D' x = (if reloads s t then Some (d + period s t) else None)" using assms(4) True by simp
    ultimately show ?thesis
      using expire_once [OF assms(2) p, of "reloads s t"] assms(1) True by simp
  next
    case False
    then show ?thesis using assms(4,5) by (simp add: called_def)
  qed
  then show ?thesis using assms(6-8) by (simp add: progress_def)
qed

section \<open>The pieces of the task\<close>

text \<open>A callback that does nothing to the timers.\<close>

definition harmless :: "timer_app \<Rightarrow> bool" where
  "harmless cb \<longleftrightarrow> (\<forall>c s. cb c s = Inr s)"

lemma expire_harmless:
  "harmless cb \<Longrightarrow> expire cb t s =
     Inr (s\<lparr>calls := calls s @ [(Expired (pxCallbackFunction (tmr s t)) t, xTickCount (tkern s))]\<rparr>)"
  by (simp add: harmless_def expire_def call_back_def)

lemma calls_frames [simp]:
  "timers_inv e N ms (s\<lparr>calls := c\<rparr>) = timers_inv e N ms s" "due e ms (s\<lparr>calls := c\<rparr>) = due e ms s"
  "timers_inv e N ms (s\<lparr>xLastTime := l\<rparr>) = timers_inv e N ms s" "due e ms (s\<lparr>xLastTime := l\<rparr>) = due e ms s"
  by ((rule inv_cong due_cong; simp)+)

lemma active_set: "tmrSTATUS_IS_ACTIVE AND tmrSTATUS_IS_AUTORELOAD = 0"
  by (simp add: tmrSTATUS_IS_ACTIVE_def tmrSTATUS_IS_AUTORELOAD_def)

lemma reloads_status [simp]:
  "reloads (set_status tmrSTATUS_IS_ACTIVE t s) x = reloads s x"
  "reloads (clear_status tmrSTATUS_IS_ACTIVE t s) x = reloads s x"
proof -
  have "(a OR tmrSTATUS_IS_ACTIVE) AND tmrSTATUS_IS_AUTORELOAD = a AND tmrSTATUS_IS_AUTORELOAD" for a
    by (simp only: bit.conj_disj_distrib2 active_set) simp
  moreover have "(a AND NOT tmrSTATUS_IS_ACTIVE) AND tmrSTATUS_IS_AUTORELOAD = a AND tmrSTATUS_IS_AUTORELOAD" for a
    by (simp add: tmrSTATUS_IS_ACTIVE_def tmrSTATUS_IS_AUTORELOAD_def and.assoc)
  ultimately show "reloads (set_status tmrSTATUS_IS_ACTIVE t s) x = reloads s x"
    "reloads (clear_status tmrSTATUS_IS_ACTIVE t s) x = reloads s x"
    by (simp_all add: has_status_def set_status_def clear_status_def)
qed

lemma status_frames [simp]:
  "timers_inv e N ms (set_status m t s) = timers_inv e N ms s" "due e ms (set_status m t s) = due e ms s"
  "timers_inv e N ms (clear_status m t s) = timers_inv e N ms s" "due e ms (clear_status m t s) = due e ms s"
  by ((rule inv_cong due_cong; simp add: set_status_def clear_status_def)+)

lemma sum_list_vListInsert: "sum_list (map f (vListInsert val x l)) = (f x :: nat) + sum_list (map f l)"
  by (induction l) auto

lemma length_filter_vListInsert: "length (filter P (vListInsert val x l)) = length (filter P (x # l))"
  by (induction l) auto

subsection \<open>Commands\<close>

definition overdue :: "nat \<Rightarrow> nat \<Rightarrow> timers \<Rightarrow> nat" where
  "overdue e N s = length (filter (\<lambda>t. e * 2 ^ 32 + unat (expiry s t) \<le> N) (pxCurrentTimerList s))"

definition message_age :: "nat \<Rightarrow> (timer \<times> nat) list \<Rightarrow> nat" where
  "message_age N ms = sum_list (map (\<lambda>m. N + 1 - snd m) ms)"

lemma overdue_cong:
  "pxCurrentTimerList s' = pxCurrentTimerList s \<Longrightarrow> (\<And>t. expiry s' t = expiry s t) \<Longrightarrow> overdue e N s' = overdue e N s"
  by (simp add: overdue_def)

lemma overdue_insert:
  assumes "t \<notin> set (pxCurrentTimerList s)"
  shows "overdue e N (insert_current t (upd_timer t (\<lambda>x. x\<lparr>xExpiryTime := w\<rparr>) s)) =
    (if e * 2 ^ 32 + unat w \<le> N then 1 else 0) + overdue e N s"
proof -
  let ?k = "(expiry s)(t := w)"
  have l: "vListInsert (expiry (upd_timer t (\<lambda>x. x\<lparr>xExpiryTime := w\<rparr>) s)) t (pxCurrentTimerList s) =
      vListInsert ?k t (pxCurrentTimerList s)"
    by (rule vListInsert_cong) auto
  have f: "filter (\<lambda>x. e * 2 ^ 32 + unat (?k x) \<le> N) (pxCurrentTimerList s) =
      filter (\<lambda>x. e * 2 ^ 32 + unat (expiry s x) \<le> N) (pxCurrentTimerList s)"
    using assms by (intro filter_cong) auto
  have k: "xExpiryTime (if x = t then (tmr s t)\<lparr>xExpiryTime := w\<rparr> else tmr s x) = ?k x" for x by simp
  show ?thesis unfolding overdue_def using assms f
    by (simp only: timer_list_frames upd_timer_frames l k length_filter_vListInsert) simp
qed

lemma overdue_fresh:
  assumes "t \<notin> set (pxCurrentTimerList s)" and "pxCurrentTimerList s' = pxCurrentTimerList s"
    and "\<And>x. x \<noteq> t \<Longrightarrow> expiry s' x = expiry s x"
  shows "overdue e N s' = overdue e N s"
proof -
  have "filter (\<lambda>x. e * 2 ^ 32 + unat (expiry s' x) \<le> N) (pxCurrentTimerList s) =
      filter (\<lambda>x. e * 2 ^ 32 + unat (expiry s x) \<le> N) (pxCurrentTimerList s)"
    by (rule filter_cong [OF refl]) (metis assms(1,3))
  then show ?thesis by (simp add: overdue_def assms(2))
qed

text \<open>A new expiry time does not matter to the lists while the timer is in none.\<close>

lemma stamp_ok:
  fixes w :: u32
  assumes "timers_inv e N ms s" and "due e ms s t = None"
  defines "s' \<equiv> upd_timer t (\<lambda>x. x\<lparr>xExpiryTime := w\<rparr>) s"
  shows "timers_inv e N ms s'" and "due e ms s' = due e ms s" and "overdue e N s' = overdue e N s"
proof -
  have f: "t \<notin> set (pxCurrentTimerList s)" "t \<notin> set (pxOverflowTimerList s)" "t \<notin> set (map fst ms)"
    using assms(2) by (auto simp: due_None everywhere_def)
  have k: "expiry s' = (expiry s)(t := w)" by (auto simp: s'_def)
  have l: "pxCurrentTimerList s' = pxCurrentTimerList s" "pxOverflowTimerList s' = pxOverflowTimerList s"
    "xTimerQueue s' = xTimerQueue s" "tkern s' = tkern s" "everywhere ms s' = everywhere ms s"
    by (simp_all add: s'_def everywhere_def)
  have p: "xTimerPeriodInTicks (tmr s' x) = xTimerPeriodInTicks (tmr s x)" for x by (simp add: s'_def)
  show "timers_inv e N ms s'"
    using assms(1) unfolding timers_inv_def l p k sorted_map_upd [OF f(1)] sorted_map_upd [OF f(2)] .
  show "due e ms s' = due e ms s"
    using f unfolding due_def l p by (auto simp: fun_eq_iff k [THEN fun_cong])
  show "overdue e N s' = overdue e N s"
    by (rule overdue_fresh [OF f(1) l(1)]) (simp add: s'_def)
qed

text \<open>Inserting a timer for a command of time \<open>V\<close>, seen at \<open>N\<close>.\<close>

lemma insert_ok:
  assumes i: "timers_inv e N ms s" and d: "due e ms s t = None" and t: "t \<noteq> 0" "0 < xTimerPeriodInTicks (tmr s t)"
    and V: "V \<le> N" "N < V + 2 ^ 32" and e: "e = epoch N"
  shows "\<exists>s'. prvInsertTimerInActiveList t (of_nat V + xTimerPeriodInTicks (tmr s t)) (of_nat N) (of_nat V) s =
      (V + period s t \<le> N, s') \<and> timers_inv e N ms s' \<and>
    due e ms s' = (due e ms s)(t := if V + period s t \<le> N then None else Some (V + period s t)) \<and>
    overdue e N s' = overdue e N s \<and> tkern s' = tkern s \<and> calls s' = calls s \<and> xLastTime s' = xLastTime s \<and>
    (\<forall>x. xTimerPeriodInTicks (tmr s' x) = xTimerPeriodInTicks (tmr s x) \<and> ucStatus (tmr s' x) = ucStatus (tmr s x) \<and>
       pxCallbackFunction (tmr s' x) = pxCallbackFunction (tmr s x))"
proof -
  define D where "D = V + period s t"
  define w :: u32 where "w = of_nat D"
  let ?s = "upd_timer t (\<lambda>x. x\<lparr>xExpiryTime := w\<rparr>) s"
  have ins: "prvInsertTimerInActiveList t (of_nat V + xTimerPeriodInTicks (tmr s t)) (of_nat N) (of_nat V) s =
      (if D \<le> N then (True, ?s) else if epoch D = epoch N then (False, insert_current t ?s) else (False, insert_overflow t ?s))"
    using insert_exact [OF V t(2)] unfolding Let_def D_def w_def .
  have f: "t \<notin> set (pxCurrentTimerList s)" using d by (simp add: due_None everywhere_def)
  have "epoch D = epoch N \<or> epoch D = epoch N + 1" if "N < D"
    using insert_decision(2,4) [OF V t(2)] that unfolding D_def
    by (cases "of_nat V + xTimerPeriodInTicks (tmr s t) \<le> (of_nat N :: u32)") auto
  then consider (late) "D \<le> N" | (now) "N < D" "epoch D = epoch N" | (later) "N < D" "epoch D = epoch N + 1"
    by fastforce
  then show ?thesis
  proof cases
    case late
    have "(due e ms s)(t := None) = due e ms s" using d by (simp add: fun_upd_idem)
    then show ?thesis using ins late stamp_ok [OF i d, of w] unfolding D_def [symmetric] by simp
  next
    case now
    have D: "e * 2 ^ 32 + unat w = D" using epoch_split [of D] now e unfolding w_def by simp
    show ?thesis
      using ins now place_current [OF i d t, of w] overdue_insert [OF f, of e N w] unfolding D D_def [symmetric] by simp
  next
    case later
    have D: "(e + 1) * 2 ^ 32 + unat w = D" using epoch_split [of D] later e unfolding w_def by simp
    have "overdue e N (insert_overflow t ?s) = overdue e N s" by (rule overdue_fresh [OF f]) simp_all
    then show ?thesis using ins later place_overflow [OF i d t, of w] unfolding D D_def [symmetric] by simp
  qed
qed

text \<open>The time does not advance while the task works and has been looked at.\<close>

definition sampled :: "nat \<Rightarrow> timers \<Rightarrow> bool" where
  "sampled N s \<longleftrightarrow> xTickCount (tkern s) = of_nat N \<and> xLastTime s = of_nat N"

lemma sample_again: "sampled N s \<Longrightarrow> prvSampleTimeNow cb s = Inr (of_nat N, False, s)"
  by (cases s) (simp add: sampled_def prvSampleTimeNow_def xTaskGetTickCount_def Let_def)

lemma restart_id: "is_start (xMessageID (restart_message m))" "\<not> sint (xMessageID (restart_message m)) < 0"
  "u_word1 (restart_message (t, V)) = of_nat V" "u_word2 (restart_message (t, V)) = t"
  by (simp_all add: restart_message_def is_start_def command_ids split_beta)

lemma start_command_ok:
  assumes i: "timers_inv e N ms s" and d: "due e ms s t = None" and t: "t \<noteq> 0" "0 < xTimerPeriodInTicks (tmr s t)"
    and V: "V \<le> N" "N < V + 2 ^ 32" and e: "e = epoch N" and h: "harmless cb" and n: "length ms < 10"
  shows "\<exists>s' ms'. start_command cb t (of_nat V) (of_nat N) s = Inr s' \<and> timers_inv e N ms' s' \<and>
    progress N ((due e ms s)(t := Some (V + period s t))) s (due e ms' s') s' \<and>
    (ms' = ms \<or> (ms' = ms @ [(t, V + period s t)] \<and> V + period s t \<le> N)) \<and>
    overdue e N s' = overdue e N s \<and> xLastTime s' = xLastTime s"
proof -
  define s1 where "s1 = set_status tmrSTATUS_IS_ACTIVE t s"
  have s1: "timers_inv e N ms s1" "due e ms s1 = due e ms s" "\<And>x. xTimerPeriodInTicks (tmr s1 x) = xTimerPeriodInTicks (tmr s x)"
      "\<And>x. reloads s1 x = reloads s x" "tkern s1 = tkern s" "calls s1 = calls s" "xLastTime s1 = xLastTime s"
      "overdue e N s1 = overdue e N s"
    using i by (simp_all add: s1_def) (simp_all add: set_status_def, rule overdue_cong, simp_all)
  define p where "p = period s t"
  obtain s2 where s2: "prvInsertTimerInActiveList t (of_nat V + xTimerPeriodInTicks (tmr s1 t)) (of_nat N) (of_nat V) s1 = (V + p \<le> N, s2)"
      "timers_inv e N ms s2" "due e ms s2 = (due e ms s)(t := if V + p \<le> N then None else Some (V + p))"
      "overdue e N s2 = overdue e N s" "tkern s2 = tkern s" "calls s2 = calls s" "xLastTime s2 = xLastTime s"
      "\<And>x. xTimerPeriodInTicks (tmr s2 x) = xTimerPeriodInTicks (tmr s x)" "\<And>x. ucStatus (tmr s2 x) = ucStatus (tmr s1 x)"
    using insert_ok [OF s1(1) _ t(1) _ V e] d t s1 unfolding p_def by fastforce
  have r2: "reloads s2 x = reloads s x" for x using reloads_cong [OF s2(9)] s1(4) by simp
  show ?thesis
  proof (cases "V + p \<le> N")
    case False
    then have "start_command cb t (of_nat V) (of_nat N) s = Inr s2"
      using s2(1) by (simp add: start_command_def s1_def [symmetric] Let_def)
    moreover have "progress N ((due e ms s)(t := Some (V + period s t))) s (due e ms s2) s2"
      using s2 r2 False by (intro progress_same) (simp_all add: p_def)
    ultimately show ?thesis using s2 by blast
  next
    case late: True
    define s3 where "s3 = s2\<lparr>calls := calls s2 @ [(Expired (pxCallbackFunction (tmr s2 t)) t, xTickCount (tkern s2))]\<rparr>"
    have start: "start_command cb t (of_nat V) (of_nat N) s =
        (if reloads s3 t then restart t (of_nat V + xTimerPeriodInTicks (tmr s3 t)) s3 else Inr s3)"
      using s2(1) late expire_harmless [OF h, of t s2] by (simp add: start_command_def s1_def [symmetric] Let_def s3_def)
    have s3: "timers_inv e N ms s3" "due e ms s3 = (due e ms s)(t := None)" "\<And>x. reloads s3 x = reloads s x"
        "\<And>x. xTimerPeriodInTicks (tmr s3 x) = xTimerPeriodInTicks (tmr s x)" "overdue e N s3 = overdue e N s"
        "tkern s3 = tkern s" "xLastTime s3 = xLastTime s"
        "calls s3 = calls s @ [(Expired (pxCallbackFunction (tmr s2 t)) t, xTickCount (tkern s2))]"
      using s2 r2 late by (simp_all add: s3_def has_status_def overdue_def)
    have pos: "0 < p" using t(2) by (simp add: p_def word_less_nat_alt)
    show ?thesis
    proof (cases "reloads s t")
      case False
      have "progress N ((due e ms s)(t := Some (V + period s t))) s (due e ms s3) s3"
        by (rule progress_expired [of _ t "V + p"]) (use s3 late t False in \<open>simp_all add: p_def\<close>)
      then show ?thesis using start s3 False by auto
    next
      case True
      have w: "of_nat V + xTimerPeriodInTicks (tmr s3 t) = of_nat (V + p)" using s3(4) by (simp add: p_def)
      have "due e ms s3 t = None" "0 < xTimerPeriodInTicks (tmr s3 t)" "N < V + p + 2 ^ 32" using s3 t V by auto
      from restart_ok [OF s3(1) this(1) t(1) this(2) late this(3) n] obtain q where
        q: "restart t (of_nat (V + p)) s3 = Inr (s3\<lparr>xTimerQueue := Some q\<rparr>)"
          "timers_inv e N (ms @ [(t, V + p)]) (s3\<lparr>xTimerQueue := Some q\<rparr>)"
          "due e (ms @ [(t, V + p)]) (s3\<lparr>xTimerQueue := Some q\<rparr>) = (due e ms s3)(t := Some (V + p + period s3 t))" by blast
      let ?s = "s3\<lparr>xTimerQueue := Some q\<rparr>"
      have "progress N ((due e ms s)(t := Some (V + period s t))) s (due e (ms @ [(t, V + p)]) ?s) ?s"
        by (rule progress_expired [of _ t "V + p" _ s _ ?s])
          (use s3 late t True q(3) in \<open>simp_all add: p_def has_status_def\<close>)
      then show ?thesis using start s3 True q w late
        by (intro exI [of _ ?s] exI [of _ "ms @ [(t, V + p)]"]) (simp add: p_def overdue_def)
    qed
  qed
qed

text \<open>What a start command does to the control blocks of the timers in \<open>T\<close>, and to no other: it marks them active and
  enters a new time of expiry.\<close>

definition stamped :: "timer set \<Rightarrow> timers \<Rightarrow> timers \<Rightarrow> bool" where
  "stamped T s s' \<longleftrightarrow> (\<forall>x. if x \<in> T
     then \<exists>v. tmr s' x = (tmr s x)\<lparr>ucStatus := ucStatus (tmr s x) OR tmrSTATUS_IS_ACTIVE, xExpiryTime := v\<rparr>
     else tmr s' x = tmr s x)"

lemma stamped_refl: "tmr s' = tmr s \<Longrightarrow> stamped {} s s'"
  by (simp add: stamped_def)

lemma stamped_cong: "tmr s0 = tmr s \<Longrightarrow> stamped T s0 s' \<Longrightarrow> stamped T s s'"
  by (simp only: stamped_def)

lemma stamped_trans:
  assumes "stamped T s s1" and "stamped T' s1 s2"
  shows "stamped (T \<union> T') s s2"
  unfolding stamped_def
proof
  fix x
  let ?a = "\<lambda>c :: Timer_t. ucStatus c OR tmrSTATUS_IS_ACTIVE"
  consider "x \<in> T" "x \<in> T'" | "x \<in> T" "x \<notin> T'" | "x \<notin> T" "x \<in> T'" | "x \<notin> T" "x \<notin> T'" by blast
  then show "if x \<in> T \<union> T' then \<exists>v. tmr s2 x = (tmr s x)\<lparr>ucStatus := ?a (tmr s x), xExpiryTime := v\<rparr> else tmr s2 x = tmr s x"
  proof cases
    case 1
    obtain v w where "tmr s1 x = (tmr s x)\<lparr>ucStatus := ?a (tmr s x), xExpiryTime := v\<rparr>"
        "tmr s2 x = (tmr s1 x)\<lparr>ucStatus := ?a (tmr s1 x), xExpiryTime := w\<rparr>"
      using assms 1 unfolding stamped_def by meson
    then have "tmr s2 x = (tmr s x)\<lparr>ucStatus := ?a (tmr s x), xExpiryTime := w\<rparr>" by (simp add: or.assoc)
    then show ?thesis using 1 by auto
  qed (use assms in \<open>auto simp: stamped_def split: if_splits\<close>, (metis assms stamped_def)+)
qed

lemma restart_stamped: "restart t v s = Inr s' \<Longrightarrow> tmr s' = tmr s"
  by (auto simp: restart_def xTimerGenericCommand_def send_message_def send_message_from_isr_def bindR_Inr_iff Let_def
      split: if_splits option.splits)

lemma insert_stamped:
  "prvInsertTimerInActiveList t w now v s = (b, s') \<Longrightarrow> tmr s' = (tmr s)(t := (tmr s t)\<lparr>xExpiryTime := w\<rparr>)"
  by (auto simp: prvInsertTimerInActiveList_def Let_def fun_eq_iff split: if_splits)

lemma start_stamped:
  assumes "harmless cb" and "start_command cb t v now s = Inr s'"
  shows "stamped {t} s s'"
proof -
  let ?s = "set_status tmrSTATUS_IS_ACTIVE t s" and ?w = "v + xTimerPeriodInTicks (tmr (set_status tmrSTATUS_IS_ACTIVE t s) t)"
  obtain b s2 where i: "prvInsertTimerInActiveList t ?w now v ?s = (b, s2)" by fastforce
  have "tmr s' = tmr s2"
    using assms(2) i expire_harmless [OF assms(1)]
    by (auto simp: start_command_def Let_def dest!: restart_stamped split: if_splits)
  then have "tmr s' = (tmr ?s)(t := (tmr ?s t)\<lparr>xExpiryTime := ?w\<rparr>)" using insert_stamped [OF i] by simp
  then show ?thesis by (auto simp: stamped_def set_status_def)
qed

lemma commands_ok:
  assumes "timers_inv e N ms s" and "e = epoch N" and "sampled N s" and "harmless cb"
  shows "\<exists>s'. commands_loop pl cb s = Some (Inr s') \<and> timers_inv e N [] s' \<and>
    progress N (due e ms s) s (due e [] s') s' \<and> overdue e N s' = overdue e N s \<and> xLastTime s' = xLastTime s \<and>
    stamped (fst ` set ms) s s'"
  using assms
proof (induction "message_age N ms" arbitrary: ms s rule: less_induct)
  case less
  show ?case
  proof (cases ms)
    case Nil
    then have "receive_command s = Inr (None, s)" using less.prems(1) by (intro receive_nothing) (simp add: timers_inv_def)
    then have "commands_loop pl cb s = Some (Inr s)" by (subst commands_loop.simps) simp
    then show ?thesis using less.prems(1) Nil progress_refl stamped_refl by auto
  next
    case (Cons m ns)
    obtain t V where m: "m = (t, V)" by fastforce
    note i = less.prems(1) [unfolded Cons m]
    obtain q where q: "receive_command s = Inr (Some (restart_message (t, V)), s\<lparr>xTimerQueue := Some q\<rparr>)"
        "timers_inv e N ns (s\<lparr>xTimerQueue := Some q\<rparr>)"
        "due e ns (s\<lparr>xTimerQueue := Some q\<rparr>) = (due e ms s)(t := None)"
      using next_message(1) [OF i] unfolding Cons m by blast
    note nm = next_message(2-7) [OF i]
    let ?s = "s\<lparr>xTimerQueue := Some q\<rparr>"
    have "holds (map restart_message ms) s" using less.prems(1) by (simp add: timers_inv_def)
    from holds_length [OF this] have n: "length ns < 10" by (simp add: Cons)
    have smp: "sampled N ?s" using less.prems(3) by (simp add: sampled_def)
    have "due e ns ?s t = None" using q(3) by simp
    from start_command_ok [OF q(2) this nm(2) _ nm(4,5) less.prems(2,4) n] nm(3) obtain s1 ns' where
      s1: "start_command cb t (of_nat V) (of_nat N) ?s = Inr s1" "timers_inv e N ns' s1"
        "progress N ((due e ns ?s)(t := Some (V + period ?s t))) ?s (due e ns' s1) s1"
        "ns' = ns \<or> (ns' = ns @ [(t, V + period ?s t)] \<and> V + period ?s t \<le> N)"
        "overdue e N s1 = overdue e N ?s" "xLastTime s1 = xLastTime ?s" by auto
    have "process_command pl cb (restart_message (t, V)) ?s = Inr s1"
      using nm(6) s1(1) by (simp add: process_command_def restart_id in_timer_list_def sample_again [OF smp])
    then have loop: "commands_loop pl cb s = commands_loop pl cb s1"
      using q(1) by (subst commands_loop.simps) simp
    have p: "0 < period s t" using nm(3) by (simp add: word_less_nat_alt)
    have less_age: "message_age N ns' < message_age N ms"
      using s1(4) nm(4) p unfolding Cons m by (auto simp: message_age_def)
    have smp1: "sampled N s1" using smp s1(3,6) by (simp add: sampled_def progress_def)
    have "(due e ns ?s)(t := Some (V + period ?s t)) = due e ms s" using q(3) nm(1) unfolding Cons m by (auto simp: fun_upd_idem)
    then have pr: "progress N (due e ms s) s (due e ns' s1) s1"
      using s1(3) by (simp add: progress_def has_status_def called_def)
    from less.hyps [OF less_age s1(2) less.prems(2) smp1 less.prems(4)] obtain s' where
      "commands_loop pl cb s1 = Some (Inr s')" "timers_inv e N [] s'" "progress N (due e ns' s1) s1 (due e [] s') s'"
      "overdue e N s' = overdue e N s1" "xLastTime s' = xLastTime s1" and st: "stamped (fst ` set ns') s1 s'" by blast
    moreover have "stamped {t} s s1" 
      by (rule stamped_cong [OF _ start_stamped [OF less.prems(4) s1(1)]]) simp
    from stamped_trans [OF this st] have "stamped (fst ` set ms) s s'"
      using s1(4) unfolding Cons m by (auto simp: insert_commute)
    ultimately show ?thesis using loop progress_trans [OF pr] s1(5,6) by (auto simp: overdue_def)
  qed
qed

subsection \<open>The expired timer at the head of the list\<close>

text \<open>The scheduler has nothing to make up for when it is resumed.\<close>

definition settled :: "kernel \<Rightarrow> bool" where
  "settled k \<longleftrightarrow> uxSchedulerSuspended k = 0 \<and> xPendingReadyList k = [] \<and> xPendedTicks k = 0 \<and> \<not> xYieldPending k"

lemma resume_settled: "settled k \<Longrightarrow> xTaskResumeAll (vTaskSuspendAll k) = Inr (False, k)"
  by (cases k) (simp add: settled_def xTaskResumeAll_def vTaskSuspendAll_def Let_def)

lemma head_overdue:
  assumes i: "timers_inv e N [] s" and o: "overdue e N s \<noteq> 0"
  shows "\<exists>t ts. pxCurrentTimerList s = t # ts \<and> e * 2 ^ 32 + unat (expiry s t) \<le> N \<and>
    overdue e N (remove_timer t s) + 1 = overdue e N s"
proof -
  obtain x where x: "x \<in> set (pxCurrentTimerList s)" "e * 2 ^ 32 + unat (expiry s x) \<le> N"
    using o by (auto simp: overdue_def filter_empty_conv)
  then obtain t ts where l: "pxCurrentTimerList s = t # ts" by (cases "pxCurrentTimerList s") auto
  have "sorted (map (expiry s) (t # ts))" using i l by (simp add: timers_inv_def)
  then have "expiry s t \<le> expiry s x" using x(1) l by auto
  then have "e * 2 ^ 32 + unat (expiry s t) \<le> N" using x(2) by (simp add: word_le_nat_alt)
  then show ?thesis using l take_current(6) [OF i l] by (simp add: overdue_def)
qed

lemma process_expired_ok:
  assumes i: "timers_inv e N [] s" and e: "e = epoch N" and h: "harmless cb"
    and l: "pxCurrentTimerList s = t # ts" and o: "e * 2 ^ 32 + unat (expiry s t) \<le> N"
  shows "\<exists>s' ms. prvProcessExpiredTimer cb (expiry s t) (of_nat N) s = Inr s' \<and> timers_inv e N ms s' \<and>
    progress N (due e [] s) s (due e ms s') s' \<and> overdue e N s' = overdue e N (remove_timer t s) \<and> xLastTime s' = xLastTime s"
proof -
  note tc = take_current [OF i l]
  define d where "d = e * 2 ^ 32 + unat (expiry s t)"
  define s1 where "s1 = remove_timer t s"
  have w: "of_nat d = expiry s t" and ed: "epoch d = e" using epoch_unique [of d e "expiry s t"] by (simp_all add: d_def)
  have V: "d \<le> N" "N < d + 2 ^ 32" using o epoch_bounds(2) [of N] unfolding d_def e by simp_all
  have s1: "timers_inv e N [] s1" "due e [] s1 = (due e [] s)(t := None)" "tkern s1 = tkern s" "calls s1 = calls s"
      "xLastTime s1 = xLastTime s" "tmr s1 = tmr s" using tc by (simp_all add: s1_def)
  have r1: "reloads s1 x = reloads s x" for x by (simp add: has_status_def s1_def)
  have D: "due e [] s t = Some d" using tc(3) by (simp add: d_def)
  let ?step = "prvProcessExpiredTimer cb (expiry s t) (of_nat N) s"
  show ?thesis
  proof (cases "reloads s t")
    case False
    define s3 where "s3 = clear_status tmrSTATUS_IS_ACTIVE t s1"
    define s' where "s' = s3\<lparr>calls := calls s3 @ [(Expired (pxCallbackFunction (tmr s3 t)) t, xTickCount (tkern s3))]\<rparr>"
    have run: "?step = Inr s'"
      using l False r1 expire_harmless [OF h, of t s3] by (simp add: prvProcessExpiredTimer_def Let_def s1_def s3_def s'_def)
    have "reloads s3 x = reloads s x" for x using r1 by (simp add: s3_def)
    then have r: "reloads s' x = reloads s x" for x by (simp add: s'_def has_status_def)
    have "progress N (due e [] s) s (due e [] s') s'"
      by (rule progress_expired [of "due e [] s" t d])
        (use False s1 r D V tc in \<open>simp_all add: s'_def s3_def\<close>, simp_all add: clear_status_def s1)
    moreover have "timers_inv e N [] s'" using s1(1) by (simp add: s'_def s3_def)
    moreover have "overdue e N s' = overdue e N s1" by (rule overdue_cong) (simp_all add: s'_def s3_def clear_status_def)
    moreover have "xLastTime s' = xLastTime s" using s1(5) by (simp add: s'_def s3_def clear_status_def)
    ultimately show ?thesis using run unfolding s1_def by blast
  next
    case True
    define p where "p = period s t"
    have z: "due e [] s1 t = None" "0 < xTimerPeriodInTicks (tmr s1 t)" using s1 tc by simp_all
    obtain s2 where s2: "prvInsertTimerInActiveList t (of_nat d + xTimerPeriodInTicks (tmr s1 t)) (of_nat N) (of_nat d) s1 = (d + p \<le> N, s2)"
        "timers_inv e N [] s2" "due e [] s2 = (due e [] s1)(t := if d + p \<le> N then None else Some (d + p))"
        "overdue e N s2 = overdue e N s1" "tkern s2 = tkern s1" "calls s2 = calls s1" "xLastTime s2 = xLastTime s1"
        "\<And>x. xTimerPeriodInTicks (tmr s2 x) = xTimerPeriodInTicks (tmr s1 x)" "\<And>x. ucStatus (tmr s2 x) = ucStatus (tmr s1 x)"
      using insert_ok [OF s1(1) z(1) tc(4) z(2) V e] s1(6) unfolding p_def by fastforce
    have r2: "reloads s2 x = reloads s x" for x using reloads_cong [OF s2(9)] r1 by simp
    obtain s3 ms where s3: "(if d + p \<le> N then restart t (of_nat d) s2 else Inr s2) = Inr s3" "timers_inv e N ms s3"
        "due e ms s3 = (due e [] s)(t := Some (d + p))" "s3 = s2 \<or> (\<exists>q. s3 = s2\<lparr>xTimerQueue := Some q\<rparr>)"
    proof (cases "d + p \<le> N")
      case True
      have "due e [] s2 t = None" "0 < xTimerPeriodInTicks (tmr s2 t)" using s2(3,8) s1(6) tc(5) True by simp_all
      from restart_ok [OF s2(2) this(1) tc(4) this(2) V] obtain q where
        "restart t (of_nat d) s2 = Inr (s2\<lparr>xTimerQueue := Some q\<rparr>)"
        "timers_inv e N [(t, d)] (s2\<lparr>xTimerQueue := Some q\<rparr>)"
        "due e [(t, d)] (s2\<lparr>xTimerQueue := Some q\<rparr>) = (due e [] s2)(t := Some (d + period s2 t))" by auto
      then show ?thesis using that [of "s2\<lparr>xTimerQueue := Some q\<rparr>" "[(t, d)]"] True s2(3,8) s1(2,6) by (auto simp: p_def)
    next
      case False
      then show ?thesis using that [of s2 "[]"] s2(2,3) s1(2) by simp
    qed
    define s' where "s' = s3\<lparr>calls := calls s3 @ [(Expired (pxCallbackFunction (tmr s3 t)) t, xTickCount (tkern s3))]\<rparr>"
    have "?step = bindR (if d + p \<le> N then restart t (of_nat d) s2 else Inr s2) (\<lambda>s3. expire cb t s3)"
      using l True r1 s2(1) by (simp add: prvProcessExpiredTimer_def Let_def s1_def [symmetric] w)
    then have run: "?step = Inr s'" using s3(1) expire_harmless [OF h, of t s3] by (simp add: s'_def)
    have f: "tkern s3 = tkern s" "calls s3 = calls s" "xLastTime s3 = xLastTime s"
        "\<And>x. xTimerPeriodInTicks (tmr s3 x) = xTimerPeriodInTicks (tmr s x)" "\<And>x. reloads s3 x = reloads s x"
        "overdue e N s3 = overdue e N s1"
      using s3(4) s2 s1 r2 by (auto simp: has_status_def overdue_def)
    have "progress N (due e [] s) s (due e ms s') s'"
      by (rule progress_expired [of "due e [] s" t d])
        (use True s3(3) f D V tc in \<open>simp_all add: s'_def p_def has_status_def\<close>)
    moreover have "overdue e N s' = overdue e N s1" using f(6) by (simp add: s'_def overdue_def)
    ultimately show ?thesis using run s3(2) f(3) unfolding s1_def by (intro exI [of _ s'] exI [of _ ms]) (simp add: s'_def)
  qed
qed

subsection \<open>The wrap-around of the tick count\<close>

definition time_left :: "timers \<Rightarrow> nat" where
  "time_left s = sum_list (map (\<lambda>x. 2 ^ 32 - unat (expiry s x)) (pxCurrentTimerList s))"

text \<open>While the lists are switched: every timer left in the current list is overdue, by less than a round, and
  the queue has room for a restart command of each that reloads.\<close>

definition switchable :: "nat \<Rightarrow> nat \<Rightarrow> (timer \<times> nat) list \<Rightarrow> timers \<Rightarrow> bool" where
  "switchable e N ms s \<longleftrightarrow> timers_inv e N ms s \<and> epoch N = e + 1 \<and>
     (\<forall>x\<in>set (pxCurrentTimerList s). N < e * 2 ^ 32 + unat (expiry s x) + 2 ^ 32) \<and>
     length ms + length (filter (reloads s) (pxCurrentTimerList s)) \<le> 10"

lemma switch_step_ok:
  assumes sw: "switchable e N ms s" and h: "harmless cb" and l: "pxCurrentTimerList s = t # ts"
  shows "\<exists>s' ms'. switch_step cb t s = Inr s' \<and> switchable e N ms' s' \<and>
    progress N (due e ms s) s (due e ms' s') s' \<and> time_left s' < time_left s \<and> xLastTime s' = xLastTime s"
proof -
  have i: "timers_inv e N ms s" and eN: "epoch N = e + 1" and near: "\<forall>x\<in>set (t # ts). N < e * 2 ^ 32 + unat (expiry s x) + 2 ^ 32"
    and room: "length ms + length (filter (reloads s) (t # ts)) \<le> 10" using sw l by (simp_all add: switchable_def)
  note tc = take_current [OF i l]
  define d where "d = e * 2 ^ 32 + unat (expiry s t)"
  define p where "p = period s t"
  define s1 where "s1 = (remove_timer t s)\<lparr>calls := calls s @ [(Expired (pxCallbackFunction (tmr s t)) t, xTickCount (tkern s))]\<rparr>"
  have w: "of_nat d = expiry s t" using epoch_unique [of d e "expiry s t"] by (simp add: d_def)
  have bt: "unat (expiry s t) < 2 ^ 32" using unsigned_less [of "expiry s t"] by simp
  have V: "d \<le> N" "N < d + 2 ^ 32" using near epoch_bounds(1) [of N] bt unfolding d_def eN by simp_all
  have s1: "timers_inv e N ms s1" "due e ms s1 = (due e ms s)(t := None)" "tkern s1 = tkern s" "tmr s1 = tmr s"
      "xLastTime s1 = xLastTime s" "pxCurrentTimerList s1 = ts"
      "calls s1 = calls s @ [(Expired (pxCallbackFunction (tmr s t)) t, xTickCount (tkern s))]"
    using tc by (simp_all add: s1_def)
  have r1: "reloads s1 x = reloads s x" for x by (simp add: has_status_def s1(4))
  have D: "due e ms s t = Some d" using tc(3) by (simp add: d_def)
  have fresh: "due e ms s1 t = None" "0 < xTimerPeriodInTicks (tmr s1 t)" using s1 tc(5) by simp_all
  have run: "switch_step cb t s = (if reloads s t then
      if expiry s t < expiry s t + xTimerPeriodInTicks (tmr s t)
      then Inr (insert_current t (upd_timer t (\<lambda>x. x\<lparr>xExpiryTime := expiry s t + xTimerPeriodInTicks (tmr s t)\<rparr>) s1))
      else restart t (expiry s t) s1 else Inr s1)"
    using expire_harmless [OF h, of t "remove_timer t s"] r1 by (simp add: switch_step_def Let_def s1_def [symmetric] s1(4))
  have left: "time_left s = 2 ^ 32 - unat (expiry s t) + time_left s1" using l s1(4,6) by (simp add: time_left_def)
  note pr = progress_expired [of "due e ms s" t d N s]
  show ?thesis
  proof (cases "reloads s t")
    case False
    have "progress N (due e ms s) s (due e ms s1) s1" by (rule pr) (use False s1 r1 D V tc in simp_all)
    moreover have "switchable e N ms s1"
      using s1(1,6) eN near room False by (auto simp: switchable_def r1 s1(4) cong: filter_cong)
    ultimately show ?thesis using run False left bt s1(5) by auto
  next
    case reload: True
    show ?thesis
    proof (cases "expiry s t < expiry s t + xTimerPeriodInTicks (tmr s t)")
      case True
      define v where "v = expiry s t + xTimerPeriodInTicks (tmr s t)"
      define s' where "s' = insert_current t (upd_timer t (\<lambda>x. x\<lparr>xExpiryTime := v\<rparr>) s1)"
      have v: "unat v = unat (expiry s t) + p"
        using True unfolding v_def p_def by (simp add: unat_plus_simple [THEN iffD1] less_imp_le)
      have dv: "e * 2 ^ 32 + unat v = d + p" by (simp add: v d_def)
      note pc = place_current [OF s1(1) fresh(1) tc(4) fresh(2), of v, folded s'_def, unfolded dv]
      have "\<exists>f :: timer \<Rightarrow> u32. pxCurrentTimerList s' = vListInsert f t ts"
        unfolding s'_def timer_list_frames upd_timer_frames(1) s1(6) by blast
      then obtain f :: "timer \<Rightarrow> u32" where f: "pxCurrentTimerList s' = vListInsert f t ts" by blast
      have c: "set (pxCurrentTimerList s') = insert t (set ts)" by (simp add: s'_def s1(6))
      have ts: "t \<notin> set ts" using i l by (simp add: timers_inv_def everywhere_def)
      have k: "expiry s' x = (if x = t then v else expiry s x)" for x by (simp add: s'_def s1(4))
      have r: "reloads s' x = reloads s x" for x by (simp add: s'_def s1(4) has_status_def)
      have "progress N (due e ms s) s (due e ms s') s'"
        by (rule pr) (use reload s1 r D V tc pc(2) in \<open>simp_all add: s'_def p_def\<close>)
      moreover have "switchable e N ms s'"
      proof -
        have "length (filter (reloads s') (pxCurrentTimerList s')) = length (filter (reloads s) (t # ts))"
        proof -
          have fr: "reloads s' = reloads s" using r by (intro ext)
          show ?thesis unfolding f fr by (rule length_filter_vListInsert)
        qed
        then show ?thesis using pc(1) eN near room v c ts by (auto simp: switchable_def k)
      qed
      moreover have "time_left s' < time_left s"
      proof -
        have "time_left s' = 2 ^ 32 - unat v + time_left s1"
        proof -
          have "map (\<lambda>x. 2 ^ 32 - unat (expiry s' x)) ts = map (\<lambda>x. 2 ^ 32 - unat (expiry s1 x)) ts"
            using ts by (auto simp: k s1(4))
          then show ?thesis unfolding time_left_def f sum_list_vListInsert s1(6) by (simp only: k [of t] if_True simp_thms)
        qed
        moreover have "unat v < 2 ^ 32" using unsigned_less [of v] by simp
        moreover have "0 < p" using tc(5) by (simp add: p_def word_less_nat_alt)
        ultimately show ?thesis using left v by simp
      qed
      ultimately show ?thesis using run reload True s1(5) unfolding s'_def v_def by auto
    next
      case False
      have n: "length ms < 10" using room reload by simp
      from restart_ok [OF s1(1) fresh(1) tc(4) fresh(2) V n] obtain q where
        q: "restart t (of_nat d) s1 = Inr (s1\<lparr>xTimerQueue := Some q\<rparr>)"
          "timers_inv e N (ms @ [(t, d)]) (s1\<lparr>xTimerQueue := Some q\<rparr>)"
          "due e (ms @ [(t, d)]) (s1\<lparr>xTimerQueue := Some q\<rparr>) = (due e ms s1)(t := Some (d + period s1 t))" by blast
      let ?s = "s1\<lparr>xTimerQueue := Some q\<rparr>"
      have "progress N (due e ms s) s (due e (ms @ [(t, d)]) ?s) ?s"
        by (rule pr) (use reload s1 r1 D V tc q(3) in \<open>simp_all add: has_status_def\<close>)
      moreover have "switchable e N (ms @ [(t, d)]) ?s"
        using q(2) eN near room reload s1(4,6) by (auto simp: switchable_def has_status_def)
      moreover have "time_left ?s = time_left s1" by (simp add: time_left_def)
      ultimately show ?thesis using run reload False q(1) left bt s1(5) unfolding w
        by (intro exI [of _ ?s] exI [of _ "ms @ [(t, d)]"]) simp
    qed
  qed
qed

lemma switch_loop_ok:
  assumes "switchable e N ms s" and "harmless cb"
  shows "\<exists>s' ms'. switch_loop cb s = Some (Inr s') \<and> switchable e N ms' s' \<and> pxCurrentTimerList s' = [] \<and>
    progress N (due e ms s) s (due e ms' s') s' \<and> xLastTime s' = xLastTime s"
  using assms
proof (induction "time_left s" arbitrary: ms s rule: less_induct)
  case less
  show ?case
  proof (cases "pxCurrentTimerList s")
    case Nil
    then have "switch_loop cb s = Some (Inr s)" by (subst switch_loop.simps) simp
    then show ?thesis using less.prems Nil progress_refl by blast
  next
    case (Cons t ts)
    obtain s1 ms1 where s1: "switch_step cb t s = Inr s1" "switchable e N ms1 s1"
        "progress N (due e ms s) s (due e ms1 s1) s1" "time_left s1 < time_left s" "xLastTime s1 = xLastTime s"
      using switch_step_ok [OF less.prems Cons] by blast
    have "switch_loop cb s = switch_loop cb s1" using Cons s1(1) by (subst switch_loop.simps) simp
    then show ?thesis using less.hyps [OF s1(4,2) less.prems(2)] progress_trans [OF s1(3)] s1(5) by fastforce
  qed
qed

lemma switch_lists_ok:
  assumes sw: "switchable e N ms s" and h: "harmless cb"
  shows "\<exists>s' ms'. prvSwitchTimerLists cb s = Inr s' \<and> timers_inv (e + 1) N ms' s' \<and>
    progress N (due e ms s) s (due (e + 1) ms' s') s'"
proof -
  obtain s1 ms' where s1: "switch_loop cb s = Some (Inr s1)" "switchable e N ms' s1" "pxCurrentTimerList s1 = []"
      "progress N (due e ms s) s (due e ms' s1) s1"
    using switch_loop_ok [OF assms] by blast
  define s' where "s' = s1\<lparr>pxCurrentTimerList := pxOverflowTimerList s1, pxOverflowTimerList := []\<rparr>"
  have run: "prvSwitchTimerLists cb s = Inr s'" using s1(1,3) by (simp add: prvSwitchTimerLists_def ends_def s'_def)
  have "timers_inv (e + 1) N ms' s'" using s1(2,3) by (simp add: switchable_def timers_inv_def everywhere_def s'_def)
  moreover have D: "due (e + 1) ms' s' = due e ms' s1" using s1(3) by (simp add: due_def fun_eq_iff s'_def)
  moreover have "progress N (due e ms s) s (due e ms' s1) s'" using s1(4) by (simp add: progress_def s'_def has_status_def called_def)
  ultimately show ?thesis using run by auto
qed

section \<open>The task\<close>

text \<open>The loop of the task as often as it finds something to do.\<close>

fun timer_turns :: "placement \<Rightarrow> timer_app \<Rightarrow> nat \<Rightarrow> timers \<Rightarrow> timers res" where
  "timer_turns pl cb 0 s = Inr s"
| "timer_turns pl cb (Suc n) s =
     bindR (prvTimerTask_check cb s) (\<lambda>s1. bindR (prvTimerTask_commands pl cb s1) (timer_turns pl cb n))"

lemma inv_kernel: "xEventLists k = xEventLists (tkern s) \<Longrightarrow> timers_inv e N ms (s\<lparr>tkern := k\<rparr>) = timers_inv e N ms s"
  by (simp add: timers_inv_def everywhere_def)

lemma due_kernel [simp]: "due e ms (s\<lparr>tkern := k\<rparr>) = due e ms s" "overdue e N (s\<lparr>tkern := k\<rparr>) = overdue e N s"
  by (simp_all add: due_def overdue_def fun_eq_iff)

lemma commands_return:
  assumes "timers_inv e N ms s" and "e = epoch N" and "sampled N s" and "harmless cb"
  shows "\<exists>s'. prvTimerTask_commands pl cb s = Inr s' \<and> timers_inv e N [] s' \<and>
    progress N (due e ms s) s (due e [] s') s' \<and> overdue e N s' = overdue e N s \<and> sampled N s' \<and>
    stamped (fst ` set ms) s s'"
proof -
  obtain s' where s': "commands_loop pl cb s = Some (Inr s')" "timers_inv e N [] s'" "progress N (due e ms s) s (due e [] s') s'"
      "overdue e N s' = overdue e N s" "xLastTime s' = xLastTime s" "stamped (fst ` set ms) s s'"
    using commands_ok [OF assms] by blast
  moreover have "sampled N s'" using assms(3) s'(3,5) by (simp add: sampled_def progress_def)
  ultimately show ?thesis by (simp add: prvTimerTask_commands_def prvProcessReceivedCommands_def ends_def)
qed

text \<open>A turn that finds an expired timer.\<close>

lemma turn_expired:
  assumes i: "timers_inv e N [] s" and e: "e = epoch N" and t: "xTickCount (tkern s) = of_nat N" "xLastTime s \<le> of_nat N"
    and k: "settled (tkern s)" and h: "harmless cb" and o: "overdue e N s \<noteq> 0"
  shows "\<exists>s'. timer_turns pl cb 1 s = Inr s' \<and> timers_inv e N [] s' \<and> sampled N s' \<and>
    progress N (due e [] s) s (due e [] s') s' \<and> overdue e N s' < overdue e N s"
proof -
  obtain x ts where x: "pxCurrentTimerList s = x # ts" "e * 2 ^ 32 + unat (expiry s x) \<le> N"
      "overdue e N (remove_timer x s) + 1 = overdue e N s"
    using head_overdue [OF i o] by blast
  define s1 where "s1 = s\<lparr>xLastTime := of_nat N\<rparr>"
  have s1: "timers_inv e N [] s1" "due e [] s1 = due e [] s" "tmr s1 = tmr s" "pxCurrentTimerList s1 = x # ts" "sampled N s1"
      "overdue e N (remove_timer x s1) = overdue e N (remove_timer x s)" "tkern s1 = tkern s" "calls s1 = calls s"
    using i x(1) t by (simp_all add: s1_def sampled_def overdue_def)
  have "expiry s x \<le> of_nat N" using x(2) epoch_split [of N] e by (simp add: word_le_nat_alt)
  moreover have "s\<lparr>xLastTime := of_nat N\<rparr> = s1" "s1\<lparr>tkern := tkern s\<rparr> = s1" "\<not> of_nat N < xLastTime s"
    using t(2) by (simp_all add: s1_def not_less)
  moreover have "xTickCount (vTaskSuspendAll (tkern s)) = of_nat N" using t(1) by (simp add: vTaskSuspendAll_def)
  ultimately have check: "prvTimerTask_check cb s = prvProcessExpiredTimer cb (expiry s1 x) (of_nat N) s1"
    using x(1) t resume_settled [OF k] s1(3)
    by (simp add: prvTimerTask_check_def prvGetNextExpireTime_def prvProcessTimerOrBlockTask_def prvSampleTimeNow_def
        xTaskGetTickCount_def Let_def)
  obtain s2 ms where s2: "prvProcessExpiredTimer cb (expiry s1 x) (of_nat N) s1 = Inr s2" "timers_inv e N ms s2"
      "progress N (due e [] s1) s1 (due e ms s2) s2" "overdue e N s2 = overdue e N (remove_timer x s1)" "xLastTime s2 = xLastTime s1"
    using process_expired_ok [OF s1(1) e h s1(4)] x(2) s1(3) by auto
  have smp: "sampled N s2" using s1(5) s2(3,5) by (simp add: sampled_def progress_def)
  obtain s3 where s3: "prvTimerTask_commands pl cb s2 = Inr s3" "timers_inv e N [] s3"
      "progress N (due e ms s2) s2 (due e [] s3) s3" "overdue e N s3 = overdue e N s2" "sampled N s3"
    using commands_return [OF s2(2) e smp h] by blast
  have "progress N (due e [] s) s (due e [] s3) s3"
    using progress_trans [OF s2(3) s3(3)] s1(2,3,7,8) by (simp add: progress_def has_status_def called_def)
  then show ?thesis using check s2(1,4) s3 s1(6) x(3) by simp
qed

lemma turns_add: "timer_turns pl cb (m + n) s = bindR (timer_turns pl cb m s) (timer_turns pl cb n)"
proof (induction m arbitrary: s)
  case (Suc m)
  have "timer_turns pl cb (m + n) = (\<lambda>s. bindR (timer_turns pl cb m s) (timer_turns pl cb n))"
    using Suc.IH by (rule ext)
  then show ?case by (simp add: bindR_assoc)
qed simp

lemma turns_same_epoch:
  assumes "timers_inv e N [] s" and "e = epoch N" and "xTickCount (tkern s) = of_nat N" and "xLastTime s \<le> of_nat N"
    and "settled (tkern s)" and "harmless cb"
  shows "\<exists>n s'. timer_turns pl cb n s = Inr s' \<and> timers_inv e N [] s' \<and> progress N (due e [] s) s (due e [] s') s' \<and>
    overdue e N s' = 0 \<and> (s' = s \<or> sampled N s')"
  using assms
proof (induction "overdue e N s" arbitrary: s rule: less_induct)
  case less
  show ?case
  proof (cases "overdue e N s = 0")
    case True
    then show ?thesis using less.prems(1) progress_refl by (intro exI [of _ 0] exI [of _ s]) simp
  next
    case False
    obtain s1 where s1: "timer_turns pl cb 1 s = Inr s1" "timers_inv e N [] s1" "sampled N s1"
        "progress N (due e [] s) s (due e [] s1) s1" "overdue e N s1 < overdue e N s"
      using turn_expired [OF less.prems False] by blast
    have k1: "settled (tkern s1)" "xLastTime s1 \<le> of_nat N" "xTickCount (tkern s1) = of_nat N"
      using s1(3,4) less.prems(5) by (simp_all add: sampled_def progress_def)
    obtain n s' where n: "timer_turns pl cb n s1 = Inr s'" "timers_inv e N [] s'" "progress N (due e [] s1) s1 (due e [] s') s'"
        "overdue e N s' = 0" "s' = s1 \<or> sampled N s'"
      using less.hyps [OF s1(5,2) less.prems(2) k1(3,2,1) less.prems(6)] by blast
    have "timer_turns pl cb (1 + n) s = Inr s'" using turns_add [of pl cb 1 n s] s1(1) n(1) by simp
    then show ?thesis using n progress_trans [OF s1(4) n(3)] s1(3) by blast
  qed
qed

text \<open>The task has done what there was to do when it last looked at the clock, at the instant \<open>L\<close> of unbounded time.\<close>

definition at_rest :: "nat \<Rightarrow> timers \<Rightarrow> bool" where
  "at_rest L s \<longleftrightarrow> timers_inv (epoch L) L [] s \<and> xLastTime s = of_nat L \<and> (\<forall>t d. due (epoch L) [] s t = Some d \<longrightarrow> L < d)"

lemma inv_any: "timers_inv e M [] s = timers_inv e N [] s"
  by (simp add: timers_inv_def)

text \<open>The turn in which the tick count is seen to have wrapped.\<close>

lemma turn_switch:
  assumes r: "at_rest L s" and k: "settled (tkern s)" and h: "harmless cb" and t: "xTickCount (tkern s) = of_nat N"
    and N: "N < L + 2 ^ 32" "epoch N = epoch L + 1" and room: "length (filter (reloads s) (pxCurrentTimerList s)) \<le> 10"
  shows "\<exists>s'. timer_turns pl cb 1 s = Inr s' \<and> timers_inv (epoch N) N [] s' \<and> sampled N s' \<and>
    progress N (due (epoch L) [] s) s (due (epoch N) [] s') s'"
proof -
  let ?e = "epoch L"
  define s0 where "s0 = s\<lparr>tkern := vTaskSuspendAll (tkern s)\<rparr>"
  have ev: "xEventLists (vTaskSuspendAll (tkern s)) = xEventLists (tkern s)" by (simp add: vTaskSuspendAll_def)
  have i: "timers_inv ?e N [] s0" using r inv_any [of ?e L s N] by (simp add: at_rest_def s0_def inv_kernel [OF ev])
  have near: "N < ?e * 2 ^ 32 + unat (expiry s x) + 2 ^ 32" if "x \<in> set (pxCurrentTimerList s)" for x
  proof -
    have "due ?e [] s x = Some (?e * 2 ^ 32 + unat (expiry s x))" using that by (simp add: due_def)
    then have "L < ?e * 2 ^ 32 + unat (expiry s x)" using r unfolding at_rest_def by blast
    then show ?thesis using N(1) by simp
  qed
  have rl: "reloads s0 = reloads s" by (simp add: fun_eq_iff s0_def has_status_def)
  have sw: "switchable ?e N [] s0" using i N(2) near room unfolding switchable_def rl by (simp add: s0_def)
  obtain s1 ms where s1: "prvSwitchTimerLists cb s0 = Inr s1" "timers_inv (?e + 1) N ms s1"
      "progress N (due ?e [] s0) s0 (due (?e + 1) ms s1) s1"
    using switch_lists_ok [OF sw h] by blast
  have k1: "tkern s1 = vTaskSuspendAll (tkern s)" using s1(3) by (simp add: progress_def s0_def)
  define s2 where "s2 = s1\<lparr>xLastTime := of_nat N, tkern := tkern s\<rparr>"
  have "unat (of_nat N :: u32) < unat (of_nat L :: u32)" using epoch_split [of N] epoch_split [of L] N by simp
  then have late: "of_nat N < xLastTime s" using r by (simp add: at_rest_def word_less_nat_alt)
  have tick: "xTickCount (vTaskSuspendAll (tkern s)) = of_nat N" using t by (simp add: vTaskSuspendAll_def)
  have "prvTimerTask_check cb s = Inr s2"
    using late s1(1) k1 resume_settled [OF k] tick
    by (simp add: prvTimerTask_check_def prvProcessTimerOrBlockTask_def prvSampleTimeNow_def xTaskGetTickCount_def
        Let_def split_beta s0_def [symmetric] s2_def) (simp add: s0_def)
  moreover have s2: "timers_inv (epoch N) N ms s2" "sampled N s2" "progress N (due ?e [] s) s (due (epoch N) ms s2) s2"
  proof -
    have "timers_inv (?e + 1) N ms s2 = timers_inv (?e + 1) N ms s1" by (rule inv_cong) (simp_all add: s2_def k1 ev)
    then show "timers_inv (epoch N) N ms s2" using s1(2) by (simp only: N(2))
    show "sampled N s2" using t by (simp add: sampled_def s2_def)
    have "due (?e + 1) ms s2 = due (?e + 1) ms s1" by (rule due_cong) (simp_all add: s2_def)
    then show "progress N (due ?e [] s) s (due (epoch N) ms s2) s2"
      using s1(3) unfolding N(2) by (simp add: progress_def has_status_def called_def s2_def s0_def)
  qed
  moreover obtain s3 where s3: "prvTimerTask_commands pl cb s2 = Inr s3" "timers_inv (epoch N) N [] s3"
      "progress N (due (epoch N) ms s2) s2 (due (epoch N) [] s3) s3" "sampled N s3"
    using commands_return [OF s2(1) refl s2(2) h] by blast
  ultimately show ?thesis using progress_trans by auto
qed

lemma turns_to_rest:
  assumes r: "at_rest L s" and k: "settled (tkern s)" and h: "harmless cb" and t: "xTickCount (tkern s) = of_nat N"
    and N: "L \<le> N" "N < L + 2 ^ 32" and room: "length (filter (reloads s) (pxCurrentTimerList s)) \<le> 10"
  shows "\<exists>n s'. timer_turns pl cb n s = Inr s' \<and> timers_inv (epoch N) N [] s' \<and> overdue (epoch N) N s' = 0 \<and>
    progress N (due (epoch L) [] s) s (due (epoch N) [] s') s' \<and> ((s' = s \<and> epoch N = epoch L) \<or> sampled N s')"
proof -
  have i: "timers_inv (epoch L) L [] s" and last: "xLastTime s = of_nat L" using r by (simp_all add: at_rest_def)
  have l: "unat (of_nat L :: u32) < 4294967296" using unsigned_less [of "of_nat L :: u32"] by simp
  have n: "unat (of_nat N :: u32) < 4294967296" using unsigned_less [of "of_nat N :: u32"] by simp
  have "epoch N = epoch L \<or> epoch N = epoch L + 1" using epoch_split [of N] epoch_split [of L] N l n by simp arith
  then show ?thesis
  proof
    assume e: "epoch N = epoch L"
    have "xLastTime s \<le> of_nat N" using epoch_split [of N] epoch_split [of L] N e last by (simp add: word_le_nat_alt)
    from turns_same_epoch [OF _ refl t this k h] i show ?thesis unfolding e using inv_any by blast
  next
    assume e: "epoch N = epoch L + 1"
    obtain s1 where s1: "timer_turns pl cb 1 s = Inr s1" "timers_inv (epoch N) N [] s1" "sampled N s1"
        "progress N (due (epoch L) [] s) s (due (epoch N) [] s1) s1"
      using turn_switch [OF r k h t N(2) e room] by blast
    have k1: "settled (tkern s1)" "xLastTime s1 \<le> of_nat N" "xTickCount (tkern s1) = of_nat N"
      using s1(3,4) k by (simp_all add: sampled_def progress_def)
    obtain n s' where n: "timer_turns pl cb n s1 = Inr s'" "timers_inv (epoch N) N [] s'"
        "progress N (due (epoch N) [] s1) s1 (due (epoch N) [] s') s'" "overdue (epoch N) N s' = 0" "s' = s1 \<or> sampled N s'"
      using turns_same_epoch [OF s1(2) refl k1(3,2,1) h] by blast
    have "timer_turns pl cb (1 + n) s = Inr s'" using turns_add [of pl cb 1 n s] s1(1) n(1) by simp
    then show ?thesis using n progress_trans [OF s1(4) n(3)] s1(3) by blast
  qed
qed

text \<open>C27: timers expire exactly when they should, in unbounded time. The timer task last looked at the clock at the
  instant \<open>L\<close>; it runs again at the instant \<open>N\<close>, less than one round of the 32-bit tick count later, with a
  wrap-around in between or not. After finitely many turns of its loop it has nothing left to do; every timer that was
  due at an instant \<open>d \<le> N\<close> has been called back once if it is a one-shot timer, and as often as its period fits if it
  reloads, and is then due at \<open>d\<close> plus a whole number of periods, the first such instant after \<open>N\<close>; the other timers
  were not called and are due when they were. The callbacks leave the timers alone (\<open>harmless\<close>), and at most ten timers
  of the current list reload: the length of the command queue; \<open>late_reload_needs_room\<close> shows what happens without room.\<close>

theorem timers_expire_exactly:
  assumes "at_rest L s" and "settled (tkern s)" and "harmless cb" and "xTickCount (tkern s) = of_nat N"
    and "L \<le> N" and "N < L + 2 ^ 32" and "length (filter (reloads s) (pxCurrentTimerList s)) \<le> 10"
  shows "\<exists>n s' M. timer_turns pl cb n s = Inr s' \<and> at_rest M s' \<and> M \<in> {L, N} \<and> tkern s' = tkern s \<and>
    (\<forall>t. due (epoch M) [] s' t = next_due (reloads s t) (period s t) N (due (epoch L) [] s t) \<and>
         called t s' = called t s + expiries (reloads s t) (period s t) N (due (epoch L) [] s t))"
proof -
  obtain n s' where run: "timer_turns pl cb n s = Inr s'" and i: "timers_inv (epoch N) N [] s'" and o: "overdue (epoch N) N s' = 0"
      and p: "progress N (due (epoch L) [] s) s (due (epoch N) [] s') s'" and l: "(s' = s \<and> epoch N = epoch L) \<or> sampled N s'"
    using turns_to_rest [OF assms] by blast
  have later: "N < d" if "due (epoch N) [] s' t = Some d" for t d
    using that o epoch_bounds(2) [of N] by (auto simp: due_def overdue_def filter_empty_conv not_le split: if_splits)
  have "expiries (reloads s t) (period s t) N (due (epoch N) [] s' t) = 0 \<and>
      next_due (reloads s t) (period s t) N (due (epoch N) [] s' t) = due (epoch N) [] s' t" for t
    using later [of t] by (cases "due (epoch N) [] s' t") auto
  then have all: "due (epoch N) [] s' t = next_due (reloads s t) (period s t) N (due (epoch L) [] s t) \<and>
      called t s' = called t s + expiries (reloads s t) (period s t) N (due (epoch L) [] s t)" for t
    using p unfolding progress_def by (metis add.right_neutral)
  have k: "tkern s' = tkern s" using p by (simp add: progress_def)
  show ?thesis
  proof (cases "sampled N s'")
    case True
    then have "at_rest N s'" using i later by (simp add: at_rest_def sampled_def)
    then show ?thesis using run k all by blast
  next
    case False
    then show ?thesis using run k all l assms(1) by (intro exI [of _ n] exI [of _ s'] exI [of _ L]) auto
  qed
qed

section \<open>A run across a wrap-around\<close>

lemma timer_queue_created:
  assumes "xTimerQueue s = None"
  defines "ev \<equiv> (xEventLists (tkern s))(xTasksWaitingToSend (xStaticTimerQueue s) := [],
    xTasksWaitingToReceive (xStaticTimerQueue s) := [])"
  shows "\<exists>q. prvCheckForValidListAndQueue s = Inr (s\<lparr>pxCurrentTimerList := [], pxOverflowTimerList := [], xTimerQueue := Some q,
      tkern := (tkern s)\<lparr>xEventLists := ev\<rparr>,
      xQueueRegistry := vQueueAddToRegistry (pxStaticTimerQueue s) (Some ''TmrQ'') (xQueueRegistry s)\<rparr>) \<and>
    queue_holds [] (Some q) ev"
proof -
  define q where "q = (xStaticTimerQueue s)\<lparr>storage := replicate 160 0, is_mutex := False, uxLength := 10, uxItemSize := 16,
    pcTail := 160, uxMessagesWaiting := 0, pcWriteTo := 0, pcReadFrom := 144, cRxLock := queueUNLOCKED, cTxLock := queueUNLOCKED\<rparr>"
  have "queue_inv q" by (rule queue_invI(1) [of q 9]) (simp_all add: q_def)
  then have "queue_holds [] (Some q) ev" by (simp add: queue_holds_def queue_items_def q_def ev_def)
  moreover have "prvInitialiseNewQueue 10 16 ((xStaticTimerQueue s)\<lparr>storage := replicate 160 0\<rparr>) (tkern s) =
      Inr (q, (tkern s)\<lparr>xEventLists := ev\<rparr>)"
    using size32_exact [of 10 16] size32_exact [of 9 16]
    by (simp add: prvInitialiseNewQueue_def xQueueGenericReset_def Let_def q_def ev_def)
  ultimately show ?thesis using assms(1)
    by (intro exI [of _ q]) (simp add: prvCheckForValidListAndQueue_def xQueueGenericCreateStatic_def configTIMER_QUEUE_LENGTH_def sizeof_DaemonTaskMessage_t_def)
qed

text \<open>The tick count stands at 4, just behind a wrap-around. The task last looked five ticks before it. Timer 16 has a
  period of 5 and reloads, timer 32 has a period of 7 and does not; they are due three ticks and one tick before the
  wrap-around.\<close>

definition timers_blank :: timers where
  "timers_blank = \<lparr>tmr = \<lambda>t. \<lparr>pcTimerName = [], xExpiryTime = (if t = 16 then - 3 else - 1),
       xTimerPeriodInTicks = (if t = 16 then 5 else 7), pvTimerID = 0, pxCallbackFunction = 0x8000400, uxTimerNumber = 0,
       ucStatus = (if t = 16 then 7 else 3)\<rparr>,
     pxCurrentTimerList = [], pxOverflowTimerList = [], xTimerQueue = None, xTimerTaskHandle = None, xLastTime = - 5,
     xStaticTimerQueue = blank_queue, pxStaticTimerQueue = 0x20000400, xQueueRegistry = replicate 8 (None, 0),
     tkern = (booted ids_example)\<lparr>xTickCount := 4\<rparr>, theap = heap4_start, calls = []\<rparr>"

lemma blank_ready:
  "\<exists>s. prvCheckForValidListAndQueue timers_blank = Inr s \<and> holds [] s \<and> tmr s = tmr timers_blank \<and>
     pxOverflowTimerList s = [] \<and> xLastTime s = - 5 \<and> calls s = [] \<and> settled (tkern s) \<and> xTickCount (tkern s) = 4"
  using timer_queue_created [of timers_blank]
  by (fastforce simp: timers_blank_def blank_queue_def booted_def kernel_start_def settled_def)

lemma wrap_values: "(of_nat (2 ^ 32 - 5) :: u32) = - 5" "epoch (2 ^ 32 - 5) = 0" "epoch (2 ^ 32 + 4) = 1"
  "unat (- 3 :: u32) = 2 ^ 32 - 3" "unat (- 1 :: u32) = 2 ^ 32 - 1" "(of_nat (2 ^ 32 + 4) :: u32) = 4"
  by (simp_all add: epoch_def unsigned_minus_1_eq_mask mask_eq_exp_minus_1)

lemma timers_expire_exactly_witness:
  "\<exists>s n s'. prvCheckForValidListAndQueue timers_blank = Inr s \<and>
     timer_turns example_place (\<lambda>_. Inr) n (s\<lparr>pxCurrentTimerList := [16, 32]\<rparr>) = Inr s' \<and>
     called 16 s' = 2 \<and> called 32 s' = 1"
proof -
  obtain s where s: "prvCheckForValidListAndQueue timers_blank = Inr s" "holds [] s" "tmr s = tmr timers_blank"
      "pxOverflowTimerList s = []" "xLastTime s = - 5" "calls s = []" "settled (tkern s)" "xTickCount (tkern s) = 4"
    using blank_ready by blast
  define s1 where "s1 = s\<lparr>pxCurrentTimerList := [16, 32]\<rparr>"
  have D: "due 0 [] s1 x = (if x = 16 then Some (2 ^ 32 - 3) else if x = 32 then Some (2 ^ 32 - 1) else None)" for x
    using wrap_values(4,5) by (simp add: due_def s1_def s(3,4) timers_blank_def)
  have rest: "at_rest (2 ^ 32 - 5) s1"
    unfolding at_rest_def wrap_values(1,2) D using s
    by (auto simp: timers_inv_def everywhere_def s1_def timers_blank_def split: if_splits)
  have h: "harmless (\<lambda>_. Inr)" by (simp add: harmless_def)
  have st: "settled (tkern s1)" "xTickCount (tkern s1) = of_nat (2 ^ 32 + 4)" "pxCurrentTimerList s1 = [16, 32]"
    using s(7,8) wrap_values(6) by (simp_all add: s1_def)
  have len: "length (filter (reloads s1) (pxCurrentTimerList s1)) \<le> 10" by (simp add: st(3))
  obtain n s' M where run: "timer_turns example_place (\<lambda>_. Inr) n s1 = Inr s'"
      "\<And>t. called t s' = called t s1 + expiries (reloads s1 t) (period s1 t) (2 ^ 32 + 4) (due 0 [] s1 t)"
    using timers_expire_exactly [OF rest st(1) h st(2) _ _ len, of example_place] unfolding wrap_values(2) by auto
  have "reloads s1 16" "\<not> reloads s1 32" "period s1 16 = 5" "period s1 32 = 7"
    by (simp_all add: has_status_def s1_def s(3) timers_blank_def tmrSTATUS_IS_AUTORELOAD_def)
  moreover have "called t s1 = 0" for t by (simp add: called_def s1_def s(6))
  ultimately have "called 16 s' = 2" "called 32 s' = 1" using run(2) [of 16] run(2) [of 32] by (simp_all add: D)
  then show ?thesis using s(1) run(1) unfolding s1_def by blast
qed

end
