(* ===== verification/TimerWait.thy ===== *)
theory TimerWait
  imports TimerSpec
begin

text \<open>
  The timer task between two expiries: it sleeps until the next timer is due and no longer. And what goes wrong
  in timers.c: a one-shot timer whose start command is looked at too late stays marked as active, and a timer that
  reloads stops the system when the command queue is full.
\<close>

section \<open>Going to sleep\<close>

lemma unlock_idle:
  assumes "cRxLock q = queueUNLOCKED" and "cTxLock q = queueUNLOCKED"
  shows "prvUnlockQueue (prvLockQueue q) k = Inr (q, k)"
  using assms by (cases q) (simp add: prvUnlockQueue_def unlock_tx_def unlock_rx_def prvLockQueue_def lock_count_def
    queueLOCKED_UNMODIFIED_def)

lemma resume_once:
  assumes "settled k" and "uxSchedulerSuspended k' = 1" and "xPendingReadyList k' = []" and "xPendedTicks k' = 0"
    and "\<not> xYieldPending k'"
  shows "xTaskResumeAll k' = Inr (False, k'\<lparr>uxSchedulerSuspended := 0\<rparr>)"
  using assms(2-5) by (simp add: xTaskResumeAll_def Let_def)

text \<open>What blocking the current task leaves alone, and where the task is then.\<close>

lemma delay_frames:
  assumes "prvAddCurrentTaskToDelayedList n b k = Inr k'"
  shows "uxSchedulerSuspended k' = uxSchedulerSuspended k \<and> xPendingReadyList k' = xPendingReadyList k \<and>
    xPendedTicks k' = xPendedTicks k \<and> xYieldPending k' = xYieldPending k \<and> xEventLists k' = xEventLists k \<and>
    pxCurrentTCB k' = pxCurrentTCB k \<and> xTickCount k' = xTickCount k"
  using assms by (auto simp: prvAddCurrentTaskToDelayedList_def remove_state_item_def upd_tcb_def bindR_Inr_iff Let_def split: if_splits)

lemma delay_forever:
  assumes "pxCurrentTCB k = Some c"
  shows "\<exists>k'. prvAddCurrentTaskToDelayedList portMAX_DELAY True k = Inr k' \<and> c \<in> set (xSuspendedTaskList k')"
  using assms by (simp add: prvAddCurrentTaskToDelayedList_def current_def Let_def)

lemma delay_until:
  assumes "pxCurrentTCB k = Some c"
  shows "\<exists>k'. prvAddCurrentTaskToDelayedList n False k = Inr k' \<and> wake_time k' c = xTickCount k + n \<and>
    (if xTickCount k + n < xTickCount k then c \<in> set (pxOverflowDelayedTaskList k')
     else c \<in> set (pxDelayedTaskList k') \<and> xNextTaskUnblockTime k' \<le> xTickCount k + n)"
  using assms by (auto simp: prvAddCurrentTaskToDelayedList_def current_def Let_def wake_time_def upd_tcb_def remove_state_item_def)

text \<open>The check of the task when nothing has expired.\<close>

lemma check_blocks:
  assumes h: "holds [] s" and k: "settled (tkern s)" and c: "pxCurrentTCB (tkern s) = Some c"
    and t: "xTickCount (tkern s) = of_nat N" "xLastTime s \<le> of_nat N" and n: "prvGetNextExpireTime s = (w, none)" "none \<or> of_nat N < w"
  shows "\<exists>s' l k1 k2. prvTimerTask_check cb s = Inr s' \<and> tkern s' = portYIELD (k2\<lparr>uxSchedulerSuspended := 0\<rparr>) \<and>
    map_option xTasksWaitingToReceive (xTimerQueue s') = Some l \<and> xEventLists k2 l = [c] \<and>
    pxCurrentTCB k1 = Some c \<and> xTickCount k1 = of_nat N \<and>
    prvAddCurrentTaskToDelayedList (if none \<and> pxOverflowTimerList s = [] then portMAX_DELAY else w - of_nat N)
      (none \<and> pxOverflowTimerList s = []) k1 = Inr k2"
proof -
  obtain q where q: "xTimerQueue s = Some q" "cRxLock q = queueUNLOCKED" "cTxLock q = queueUNLOCKED" "queue_items q = []"
      "xEventLists (tkern s) (xTasksWaitingToReceive q) = []"
    using h by (auto simp: queue_holds_def)
  have none_in: "uxMessagesWaiting (prvLockQueue q) = 0" using q(4) queue_items_length [of q] by (simp add: prvLockQueue_def)
  let ?b = "none \<and> pxOverflowTimerList s = []" and ?l = "xTasksWaitingToReceive q"
  let ?n = "if ?b then portMAX_DELAY else w - of_nat N"
  define k0 where "k0 = vTaskSuspendAll (tkern s)"
  define k1 where "k1 = put_event_list ?l [c] c k0"
  have k1: "pxCurrentTCB k1 = Some c" "xTickCount k1 = of_nat N" "uxSchedulerSuspended k1 = 1" "xPendingReadyList k1 = []"
      "xPendedTicks k1 = 0" "\<not> xYieldPending k1" "xEventLists k1 ?l = [c]"
    using c t(1) k by (simp_all add: k1_def k0_def put_event_list_def upd_tcb_def vTaskSuspendAll_def settled_def)
  obtain k2 where k2: "prvAddCurrentTaskToDelayedList ?n ?b k1 = Inr k2"
    using delay_forever [OF k1(1)] delay_until [OF k1(1), of ?n] by (cases ?b) auto
  have f: "uxSchedulerSuspended k2 = 1" "xPendingReadyList k2 = []" "xPendedTicks k2 = 0" "\<not> xYieldPending k2" "xEventLists k2 ?l = [c]"
    using delay_frames [OF k2] k1 by simp_all
  have place: "vTaskPlaceOnEventListRestricted ?l (w - of_nat N) ?b k0 = Inr k2"
    using k2 c q(5) by (simp add: vTaskPlaceOnEventListRestricted_def current_def k1_def k0_def vTaskSuspendAll_def)
  have l: "xTasksWaitingToReceive (prvLockQueue q) = ?l" by (simp add: prvLockQueue_def)
  have wait: "vQueueWaitForMessageRestricted (w - of_nat N) ?b q k0 = Inr (q, k2)"
    by (simp only: vQueueWaitForMessageRestricted_def Let_def l none_in place bindR.simps unlock_idle [OF q(2,3)] simp_thms if_True)
  define s' where "s' = s\<lparr>xLastTime := of_nat N, xTimerQueue := Some q, tkern := portYIELD (k2\<lparr>uxSchedulerSuspended := 0\<rparr>)\<rparr>"
  have "xTickCount k0 = of_nat N" using t(1) by (simp add: k0_def vTaskSuspendAll_def)
  then have "prvTimerTask_check cb s = Inr s'"
    using n t(2) q(1) wait resume_once [OF k f(1-4)]
    by (auto simp: prvTimerTask_check_def prvProcessTimerOrBlockTask_def prvSampleTimeNow_def xTaskGetTickCount_def Let_def
        k0_def [symmetric] s'_def not_less)
  then show ?thesis using k1(1,2) k2 f(5) by (intro exI [of _ s'] exI [of _ ?l] exI [of _ k1] exI [of _ k2]) (simp add: s'_def)
qed

text \<open>C28: the timer task never sleeps past a timer. When nothing is due at the instant \<open>N\<close>, its check puts it on the
  list of the queue's receivers and asks for a switch. With no active timer it waits for a command only; otherwise it is
  delayed until \<open>W\<close>, with \<open>N < W\<close> and no timer due before \<open>W\<close>: when some timer is due before the tick count wraps,
  \<open>W\<close> is the instant of the first one, else it is the wrap-around. (Just on a wrap-around, when the tick count is 0, a
  delay up to the next one is the delay of 0 ticks: the task wakes at the next tick and looks again.)\<close>

theorem timer_task_sleeps_until_due:
  assumes "at_rest L s" and "settled (tkern s)" and "pxCurrentTCB (tkern s) = Some c" and "xTickCount (tkern s) = of_nat N"
    and "L \<le> N" and "epoch N = epoch L" and "\<forall>t d. due (epoch L) [] s t = Some d \<longrightarrow> N < d"
  shows "\<exists>s' l. prvTimerTask_check cb s = Inr s' \<and> pendsv (tkern s') \<and>
    map_option xTasksWaitingToReceive (xTimerQueue s') = Some l \<and> xEventLists (tkern s') l = [c] \<and>
    (if \<forall>t. due (epoch L) [] s t = None then c \<in> set (xSuspendedTaskList (tkern s'))
     else \<exists>W. N < W \<and> wake_time (tkern s') c = of_nat W \<and> (\<forall>t d. due (epoch L) [] s t = Some d \<longrightarrow> W \<le> d) \<and>
       (if epoch W = epoch N then (\<exists>t. due (epoch L) [] s t = Some W) else W = (epoch N + 1) * 2 ^ 32) \<and>
       c \<in> set (if epoch W = epoch N \<or> (of_nat N :: u32) = 0 then pxDelayedTaskList (tkern s')
                else pxOverflowDelayedTaskList (tkern s')))"
proof -
  let ?D = "due (epoch L) [] s" and ?n = "of_nat N :: u32"
  have i: "timers_inv (epoch L) L [] s" and last: "xLastTime s = of_nat L" using assms(1) by (simp_all add: at_rest_def)
  have h: "holds [] s" using i by (simp add: timers_inv_def)
  have le: "xLastTime s \<le> ?n" using epoch_split [of N] epoch_split [of L] assms(5,6) last by (simp add: word_le_nat_alt)
  obtain w none where g: "prvGetNextExpireTime s = (w, none)" by fastforce
  show ?thesis
  proof (cases "pxCurrentTimerList s")
    case Nil
    then have w: "w = 0" "none" using g by (simp_all add: prvGetNextExpireTime_def)
    obtain s' l k1 k2 where s': "prvTimerTask_check cb s = Inr s'" "tkern s' = portYIELD (k2\<lparr>uxSchedulerSuspended := 0\<rparr>)"
        "map_option xTasksWaitingToReceive (xTimerQueue s') = Some l" "xEventLists k2 l = [c]" "pxCurrentTCB k1 = Some c" "xTickCount k1 = ?n"
        "prvAddCurrentTaskToDelayedList (if pxOverflowTimerList s = [] then portMAX_DELAY else w - ?n) (pxOverflowTimerList s = []) k1 = Inr k2"
      using check_blocks [OF h assms(2,3,4) le g, of cb] w(2) by auto
    show ?thesis
    proof (cases "pxOverflowTimerList s = []")
      case True
      then have "\<forall>t. ?D t = None" using Nil by (simp add: due_def)
      moreover have "c \<in> set (xSuspendedTaskList k2)" using delay_forever [OF s'(5)] s'(7) True by auto
      ultimately show ?thesis using s' by (intro exI [of _ s'] exI [of _ l]) (simp add: portYIELD_def)
    next
      case False
      define W where "W = (epoch N + 1) * 2 ^ 32"
      have W: "N < W" "epoch W = epoch N + 1" "(of_nat W :: u32) = 0"
        using epoch_bounds(2) [of N] epoch_unique [of W "epoch N + 1" 0] by (simp_all add: W_def)
      have "?n + (w - ?n) = 0" using w by simp
      then have d: "wake_time k2 c = 0" "if ?n = 0 then c \<in> set (pxDelayedTaskList k2) else c \<in> set (pxOverflowDelayedTaskList k2)"
        using delay_until [OF s'(5), of "w - ?n"] s'(6,7) False by (auto simp: word_neq_0_conv split: if_splits)
      have "W \<le> d" if "?D t = Some d" for t d
        using that Nil assms(6) unfolding W_def by (auto simp: due_def split: if_splits)
      moreover have "\<not> (\<forall>t. ?D t = None)" using False Nil by (cases "pxOverflowTimerList s") (auto simp: due_def)
      ultimately show ?thesis using s' d W
        by (intro exI [of _ s'] exI [of _ l]) (auto simp: portYIELD_def wake_time_def intro!: exI [of _ W], simp_all add: W_def)
    qed
  next
    case (Cons t ts)
    define W where "W = epoch L * 2 ^ 32 + unat (expiry s t)"
    have D: "?D t = Some W" using Cons by (simp add: due_def W_def)
    have w: "w = expiry s t" "\<not> none" using g Cons by (simp_all add: prvGetNextExpireTime_def)
    have W: "N < W" "epoch W = epoch N" "of_nat W = w"
      using assms(6,7) D epoch_unique [of W "epoch L" "expiry s t"] w(1) by (simp_all add: W_def)
    have nw: "?n < w" using epoch_split [of N] epoch_split [of W] W by (simp add: word_less_nat_alt)
    obtain s' l k1 k2 where s': "prvTimerTask_check cb s = Inr s'" "tkern s' = portYIELD (k2\<lparr>uxSchedulerSuspended := 0\<rparr>)"
        "map_option xTasksWaitingToReceive (xTimerQueue s') = Some l" "xEventLists k2 l = [c]" "pxCurrentTCB k1 = Some c" "xTickCount k1 = ?n"
        "prvAddCurrentTaskToDelayedList (w - ?n) False k1 = Inr k2"
      using check_blocks [OF h assms(2,3,4) le g, of cb] w(2) nw by auto
    have d: "wake_time k2 c = w" "c \<in> set (pxDelayedTaskList k2)"
      using delay_until [OF s'(5), of "w - ?n"] s'(6,7) nw by (auto split: if_splits)
    have "W \<le> d" if x: "?D x = Some d" for x d
    proof (cases "x \<in> set (pxCurrentTimerList s)")
      case True
      have "sorted (map (expiry s) (t # ts))" using i Cons by (simp add: timers_inv_def)
      then have "expiry s t \<le> expiry s x" using True Cons by auto
      then show ?thesis using x True by (simp add: due_def W_def word_le_nat_alt)
    next
      case False
      then have "(epoch L + 1) * 2 ^ 32 \<le> d" using x by (auto simp: due_def split: if_splits)
      then show ?thesis using epoch_bounds(2) [of W] W(2) assms(6) by simp
    qed
    moreover have "\<not> (\<forall>t. ?D t = None)" using D by auto
    ultimately show ?thesis using s' d W D
      by (intro exI [of _ s'] exI [of _ l]) (auto simp: portYIELD_def wake_time_def intro!: exI [of _ W])
  qed
qed

text \<open>Timer 16 is due three ticks before the wrap-around and nothing before it; the tick count is five ticks before the
  wrap-around.\<close>

lemma timer_task_sleeps_until_due_witness:
  "\<exists>s s'. prvCheckForValidListAndQueue timers_blank = Inr s \<and>
     prvTimerTask_check (\<lambda>_. Inr) (s\<lparr>pxCurrentTimerList := [16, 32], tkern := (tkern s)\<lparr>xTickCount := - 5\<rparr>\<rparr>) = Inr s' \<and>
     wake_time (tkern s') 1 = - 3 \<and> 1 \<in> set (pxDelayedTaskList (tkern s'))"
proof -
  obtain s where s: "prvCheckForValidListAndQueue timers_blank = Inr s" "holds [] s" "tmr s = tmr timers_blank"
      "pxOverflowTimerList s = []" "xLastTime s = - 5" "settled (tkern s)"
    using blank_ready by blast
  have cur: "pxCurrentTCB (tkern s) = Some 1"
    using s(1) timer_queue_created [of timers_blank] by (auto simp: timers_blank_def booted_def ids_example_def)
  define s1 where "s1 = s\<lparr>pxCurrentTimerList := [16, 32], tkern := (tkern s)\<lparr>xTickCount := - 5\<rparr>\<rparr>"
  have D: "due 0 [] s1 x = (if x = 16 then Some (2 ^ 32 - 3) else if x = 32 then Some (2 ^ 32 - 1) else None)" for x
    using wrap_values(4,5) by (simp add: due_def s1_def s(3,4) timers_blank_def)
  have rest: "at_rest (2 ^ 32 - 5) s1"
    unfolding at_rest_def wrap_values(1,2) D using s
    by (auto simp: timers_inv_def everywhere_def s1_def timers_blank_def split: if_splits)
  have st: "settled (tkern s1)" "xTickCount (tkern s1) = of_nat (2 ^ 32 - 5)" "pxCurrentTCB (tkern s1) = Some 1"
    using s(6) wrap_values(1) cur by (simp_all add: s1_def settled_def)
  have later: "\<forall>t d. due 0 [] s1 t = Some d \<longrightarrow> 2 ^ 32 - 5 < d" by (simp add: D split: if_splits)
  have some: "\<not> (\<forall>t. due 0 [] s1 t = None)" using D [of 16] by auto
  obtain s' W where s': "prvTimerTask_check (\<lambda>_. Inr) s1 = Inr s'" "wake_time (tkern s') 1 = of_nat W"
      "\<forall>t d. due 0 [] s1 t = Some d \<longrightarrow> W \<le> d"
      "if epoch W = 0 then \<exists>t. due 0 [] s1 t = Some W else W = (0 + 1) * 2 ^ 32"
      "1 \<in> set (if epoch W = 0 \<or> (- 5 :: u32) = 0 then pxDelayedTaskList (tkern s') else pxOverflowDelayedTaskList (tkern s'))"
    using timer_task_sleeps_until_due [OF rest st(1,3,2) order_refl refl, unfolded wrap_values(1,2), OF later, of "\<lambda>_. Inr"]
    unfolding if_not_P [OF some] by blast
  have "W \<le> 2 ^ 32 - 3" using s'(3) [rule_format, of 16] by (simp add: D)
  then have W: "W = 2 ^ 32 - 3" "epoch W = 0" using s'(4) by (auto simp: D epoch_def split: if_splits)
  then have "wake_time (tkern s') 1 = - 3" "1 \<in> set (pxDelayedTaskList (tkern s'))" using s'(2,5) by simp_all
  then show ?thesis using s(1) s'(1) unfolding s1_def by blast
qed

section \<open>Two defects\<close>

text \<open>C30: a one-shot timer can stay marked as active for ever. When its start command is looked at only after the period
  is over, \<open>prvProcessReceivedCommands\<close> calls it back at once and inserts it nowhere, but leaves the bit it has set
  just before: the timer has expired, nothing is to come, and \<open>xTimerIsTimerActive\<close> answers yes. The callback leaves the
  timers alone.\<close>

theorem late_one_shot_stays_active:
  assumes "timers_inv e N ms s" and "due e ms s t = None" and "t \<noteq> 0" and "0 < xTimerPeriodInTicks (tmr s t)"
    and "\<not> reloads s t" and "V + period s t \<le> N" and "N < V + 2 ^ 32" and "e = epoch N" and "sampled N s" and "harmless cb"
    and "is_start (xMessageID m)" and "u_word1 m = of_nat V" and "u_word2 m = t"
  shows "\<exists>s'. process_command pl cb m s = Inr s' \<and> called t s' = Suc (called t s) \<and> due e ms s' t = None \<and>
    timers_inv e N ms s' \<and> xTimerIsTimerActive t s' = Inr True"
proof -
  define s1 where "s1 = set_status tmrSTATUS_IS_ACTIVE t s"
  have s1: "timers_inv e N ms s1" "due e ms s1 = due e ms s" "\<And>x. xTimerPeriodInTicks (tmr s1 x) = xTimerPeriodInTicks (tmr s x)"
      "calls s1 = calls s" "\<And>x. reloads s1 x = reloads s x"
    using assms(1) by (simp_all add: s1_def) (simp_all add: set_status_def)
  have "V \<le> N" "due e ms s1 t = None" "0 < xTimerPeriodInTicks (tmr s1 t)" using assms(2,4,6) s1(2,3) by simp_all
  from insert_ok [OF s1(1) this(2) assms(3) this(3,1) assms(7,8)] obtain s2 where s2:
      "prvInsertTimerInActiveList t (of_nat V + xTimerPeriodInTicks (tmr s1 t)) (of_nat N) (of_nat V) s1 = (True, s2)"
      "timers_inv e N ms s2" "due e ms s2 t = None" "calls s2 = calls s" "\<And>x. ucStatus (tmr s2 x) = ucStatus (tmr s1 x)"
    using s1 assms(6) by auto
  define s3 where "s3 = s2\<lparr>calls := calls s2 @ [(Expired (pxCallbackFunction (tmr s2 t)) t, xTickCount (tkern s2))]\<rparr>"
  have r: "\<not> reloads s3 t" using assms(5) s1(5) reloads_cong [OF s2(5)] by (simp add: s3_def has_status_def)
  have "start_command cb t (of_nat V) (of_nat N) s = Inr s3"
    using s2(1) r expire_harmless [OF assms(10), of t s2] by (simp add: start_command_def s1_def [symmetric] Let_def s3_def)
  moreover have "\<not> in_timer_list t s" using assms(2) by (auto simp: due_None everywhere_def in_timer_list_def)
  moreover have "\<not> sint (xMessageID m) < 0" using assms(11) by (auto simp: is_start_def command_ids)
  ultimately have "process_command pl cb m s = Inr s3"
    using assms(11-13) sample_again [OF assms(9), of cb] by (simp add: process_command_def)
  moreover have "ucStatus (tmr s3 t) AND tmrSTATUS_IS_ACTIVE \<noteq> 0"
    using s2(5) by (simp add: s3_def s1_def set_status_def tmrSTATUS_IS_ACTIVE_def bit.conj_disj_distrib2)
  ultimately show ?thesis using s2 assms(3) by (simp add: s3_def called_def xTimerIsTimerActive_def of_timer_def)
qed

text \<open>Timer 32 was started at tick 5 with its period of 7; the command is looked at at tick 20.\<close>

lemma late_one_shot_stays_active_witness:
  "\<exists>s s'. prvCheckForValidListAndQueue timers_blank = Inr s \<and>
     process_command example_place (\<lambda>_. Inr) \<lparr>xMessageID = tmrCOMMAND_START, u_word1 = 5, u_word2 = 32, u_word3 = 0\<rparr>
       (s\<lparr>tkern := (tkern s)\<lparr>xTickCount := 20\<rparr>, xLastTime := 20\<rparr>) = Inr s' \<and>
     called 32 s' = 1 \<and> xTimerIsTimerActive 32 s' = Inr True"
proof -
  obtain s where s: "prvCheckForValidListAndQueue timers_blank = Inr s" "holds [] s" "tmr s = tmr timers_blank"
      "pxOverflowTimerList s = []" "calls s = []"
    using blank_ready by blast
  have cur: "pxCurrentTimerList s = []" using s(1) timer_queue_created [of timers_blank] by (auto simp: timers_blank_def)
  define s1 where "s1 = s\<lparr>tkern := (tkern s)\<lparr>xTickCount := 20\<rparr>, xLastTime := 20\<rparr>"
  let ?m = "\<lparr>xMessageID = tmrCOMMAND_START, u_word1 = 5, u_word2 = 32, u_word3 = 0\<rparr> :: DaemonTaskMessage_t"
  have i: "timers_inv 0 20 [] s1" using s cur by (simp add: timers_inv_def everywhere_def s1_def)
  have d: "due 0 [] s1 32 = None" using s cur by (simp add: due_def s1_def)
  have p: "xTimerPeriodInTicks (tmr s1 32) = 7" "\<not> reloads s1 32"
    by (simp_all add: s1_def s(3) timers_blank_def has_status_def tmrSTATUS_IS_AUTORELOAD_def)
  have smp: "sampled 20 s1" by (simp add: sampled_def s1_def)
  have h: "harmless (\<lambda>_. Inr)" by (simp add: harmless_def)
  have id: "is_start (xMessageID ?m)" by (simp add: is_start_def)
  obtain s' where "process_command example_place (\<lambda>_. Inr) ?m s1 = Inr s'" "called 32 s' = Suc (called 32 s1)"
      "xTimerIsTimerActive 32 s' = Inr True"
    using late_one_shot_stays_active [OF i d _ _ p(2) _ _ _ smp h id, of 5 example_place] p(1) by (auto simp: epoch_def)
  moreover have "called 32 s1 = 0" by (simp add: called_def s1_def s(5))
  ultimately show ?thesis using s(1) unfolding s1_def by auto
qed

text \<open>C31: a timer that reloads can stop the system. It restarts itself by a command, without waiting for room in the
  queue, and asserts that it got in: when the task comes to an expired timer a period or more too late and other tasks
  have filled the queue with their ten commands, the assertion fails.\<close>

theorem late_reload_needs_room:
  assumes "holds ms s" and "length ms = 10" and "pxCurrentTimerList s = t # ts" and "reloads s t" and "t \<noteq> 0"
    and "0 < xTimerPeriodInTicks (tmr s t)" and "epoch N * 2 ^ 32 + unat (expiry s t) + period s t \<le> N"
  shows "prvProcessExpiredTimer cb (expiry s t) (of_nat N) s = Inl Assert_failed"
proof -
  define d where "d = epoch N * 2 ^ 32 + unat (expiry s t)"
  define s1 where "s1 = remove_timer t s"
  have w: "of_nat d = expiry s t" using epoch_unique [of d "epoch N" "expiry s t"] by (simp add: d_def)
  have V: "d \<le> N" "N < d + 2 ^ 32" using assms(7) epoch_bounds(2) [of N] by (simp_all add: d_def)
  have p: "0 < xTimerPeriodInTicks (tmr s1 t)" using assms(6) by (simp add: s1_def)
  let ?s = "upd_timer t (\<lambda>x. x\<lparr>xExpiryTime := of_nat (d + period s1 t)\<rparr>) s1"
  have "d + period s1 t \<le> N" using assms(7) by (simp add: d_def s1_def)
  then have ins: "prvInsertTimerInActiveList t (of_nat d + xTimerPeriodInTicks (tmr s1 t)) (of_nat N) (of_nat d) s1 = (True, ?s)"
    using insert_exact [OF V p] by (simp add: Let_def)
  have "holds ms ?s" using assms(1) by (simp add: s1_def)
  moreover have "xTimerQueue ?s \<noteq> None" using assms(1) by (auto simp: queue_holds_def s1_def)
  ultimately have "restart t (expiry s t) ?s = Inl Assert_failed"
    using send_full [of ms ?s] assms(2,5) by (simp add: restart_def xTimerGenericCommand_def command_ids)
  then show ?thesis using assms(3,4) ins
    by (simp add: prvProcessExpiredTimer_def Let_def s1_def [symmetric] w has_status_def) (simp add: s1_def)
qed

lemma fill_queue: "holds [] s \<Longrightarrow> n \<le> 10 \<Longrightarrow> \<exists>q. holds (replicate n m) (s\<lparr>xTimerQueue := Some q\<rparr>)"
proof (induction n)
  case 0
  then show ?case by (auto simp: queue_holds_def)
next
  case (Suc n)
  then obtain q where q: "holds (replicate n m) (s\<lparr>xTimerQueue := Some q\<rparr>)" by auto
  obtain q' where "holds (replicate n m @ [m]) (s\<lparr>xTimerQueue := Some q, xTimerQueue := Some q'\<rparr>)"
    using send_holds [OF q, of m] Suc.prems(2) by auto
  then show ?case by (auto simp: replicate_append_same)
qed

text \<open>Timer 16 with its period of 5 is due at tick 10; the task comes to it at tick 20 and finds ten stop commands.\<close>

lemma late_reload_needs_room_witness:
  "\<exists>s. holds (replicate 10 \<lparr>xMessageID = tmrCOMMAND_STOP, u_word1 = 0, u_word2 = 32, u_word3 = 0\<rparr>) s \<and>
     pxCurrentTimerList s = [16] \<and> expiry s 16 = 10 \<and> prvProcessExpiredTimer (\<lambda>_. Inr) 10 20 s = Inl Assert_failed"
proof -
  let ?m = "\<lparr>xMessageID = tmrCOMMAND_STOP, u_word1 = 0, u_word2 = 32, u_word3 = 0\<rparr> :: DaemonTaskMessage_t"
  obtain s where s: "holds [] s" "tmr s = tmr timers_blank" using blank_ready by blast
  obtain q where q: "holds (replicate 10 ?m) (s\<lparr>xTimerQueue := Some q\<rparr>)" using fill_queue [OF s(1)] by blast
  define s1 where "s1 = upd_timer 16 (\<lambda>x. x\<lparr>xExpiryTime := 10\<rparr>) (s\<lparr>xTimerQueue := Some q, pxCurrentTimerList := [16]\<rparr>)"
  have h: "holds (replicate 10 ?m) s1" using q by (simp add: s1_def)
  have x: "expiry s1 16 = 10" "xTimerPeriodInTicks (tmr s1 16) = 5" "reloads s1 16" "pxCurrentTimerList s1 = [16]"
    by (simp_all add: s1_def s(2) timers_blank_def has_status_def tmrSTATUS_IS_AUTORELOAD_def)
  have "prvProcessExpiredTimer (\<lambda>_. Inr) (expiry s1 16) (of_nat 20) s1 = Inl Assert_failed"
    by (rule late_reload_needs_room [OF h _ x(4,3)]) (simp_all add: x epoch_def)
  then show ?thesis using h x by (intro exI [of _ s1]) simp
qed

end
