(* ===== verification/TimerCommand.thy ===== *)
theory TimerCommand
  imports TimerWait
begin

text \<open>
  From a call of another task to its effect: a timer command goes as sixteen bytes through the queue and is carried
  out by the timer task, possibly much later.
\<close>

section \<open>The calls\<close>

datatype timer_cmd = Start_timer | Reset_timer | Stop_timer | Change_timer u32 | Delete_timer

fun give_command :: "timer_cmd \<Rightarrow> timer \<Rightarrow> timers \<Rightarrow> (bool outcome \<times> bool \<times> timers) res" where
  "give_command Start_timer t s = xTimerStart t 0 s"
| "give_command Reset_timer t s = xTimerReset t 0 s"
| "give_command Stop_timer t s = xTimerStop t 0 s"
| "give_command (Change_timer n) t s = xTimerChangePeriod t n 0 s"
| "give_command Delete_timer t s = xTimerDelete t 0 s"

fun command_message :: "timer_cmd \<Rightarrow> timer \<Rightarrow> u32 \<Rightarrow> DaemonTaskMessage_t" where
  "command_message Start_timer t now = \<lparr>xMessageID = tmrCOMMAND_START, u_word1 = now, u_word2 = t, u_word3 = 0\<rparr>"
| "command_message Reset_timer t now = \<lparr>xMessageID = tmrCOMMAND_RESET, u_word1 = now, u_word2 = t, u_word3 = 0\<rparr>"
| "command_message Stop_timer t now = \<lparr>xMessageID = tmrCOMMAND_STOP, u_word1 = 0, u_word2 = t, u_word3 = 0\<rparr>"
| "command_message (Change_timer n) t now = \<lparr>xMessageID = tmrCOMMAND_CHANGE_PERIOD, u_word1 = n, u_word2 = t, u_word3 = 0\<rparr>"
| "command_message Delete_timer t now = \<lparr>xMessageID = tmrCOMMAND_DELETE, u_word1 = 0, u_word2 = t, u_word3 = 0\<rparr>"

lemma give_command_sends:
  assumes "holds ms s" and "length ms < 10" and "t \<noteq> 0"
  shows "\<exists>q. give_command c t s = Inr (Finished True, False, s\<lparr>xTimerQueue := Some q\<rparr>) \<and>
    holds (ms @ [command_message c t (xTickCount (tkern s))]) (s\<lparr>xTimerQueue := Some q\<rparr>)"
proof -
  obtain q where q: "send_message (command_message c t (xTickCount (tkern s))) 0 s = Inr (Finished True, s\<lparr>xTimerQueue := Some q\<rparr>)"
      "holds (ms @ [command_message c t (xTickCount (tkern s))]) (s\<lparr>xTimerQueue := Some q\<rparr>)"
    using send_holds [OF assms(1,2)] by blast
  have "xTimerQueue s \<noteq> None" using assms(1) by (auto simp: queue_holds_def)
  then have "give_command c t s = Inr (Finished True, False, s\<lparr>xTimerQueue := Some q\<rparr>)"
    using q(1) assms(3)
    by (cases c) (auto simp: xTimerStart_def xTimerReset_def xTimerStop_def xTimerChangePeriod_def xTimerDelete_def
        xTimerGenericCommand_def xTaskGetTickCount_def Let_def command_ids)
  then show ?thesis using q(2) by blast
qed

section \<open>Taking a timer out of whichever list it is in\<close>

lemma take_timer:
  assumes i: "timers_inv e N ms s" and n: "t \<notin> fst ` set ms"
  shows "timers_inv e N ms (remove_timer t s)" and "due e ms (remove_timer t s) = (due e ms s)(t := None)"
proof -
  have d: "distinct (everywhere ms s)" using i by (simp add: timers_inv_def)
  then have l: "set (remove1 t (pxCurrentTimerList s)) = set (pxCurrentTimerList s) - {t}"
      "set (remove1 t (pxOverflowTimerList s)) = set (pxOverflowTimerList s) - {t}"
    by (simp_all add: everywhere_def)
  have srt: "sorted (map f (remove1 t xs))" if "sorted (map f xs)" for f :: "timer \<Rightarrow> u32" and xs
    using that by (induction xs) (auto simp: notin_set_remove1)
  show "timers_inv e N ms (remove_timer t s)"
    using i l unfolding timers_inv_def everywhere_def by (auto simp: srt)
  show "due e ms (remove_timer t s) = (due e ms s)(t := None)"
    using n unfolding due_def by (auto simp: fun_eq_iff l map_of_eq_None_iff)
qed

lemma timer_gone: "\<not> in_timer_list t s \<Longrightarrow> remove_timer t s = s"
  by (cases s) (simp add: in_timer_list_def remove_timer_def remove1_idem)

lemma status_pass:
  "tkern (clear_status m t s) = tkern s" "calls (clear_status m t s) = calls s"
  "xTimerPeriodInTicks (tmr (clear_status m t s) x) = xTimerPeriodInTicks (tmr s x)"
  by (simp_all add: clear_status_def)

section \<open>The effect\<close>

text \<open>When the timer is due after the command of tick \<open>C\<close> has been carried out at \<open>N\<close>, and how often it is called then.\<close>

fun command_due :: "timer_cmd \<Rightarrow> nat \<Rightarrow> nat \<Rightarrow> bool \<Rightarrow> nat \<Rightarrow> nat option" where
  "command_due Start_timer C N r p = next_due r p N (Some (C + p))"
| "command_due Reset_timer C N r p = next_due r p N (Some (C + p))"
| "command_due Stop_timer C N r p = None"
| "command_due (Change_timer n) C N r p = Some (N + unat n)"
| "command_due Delete_timer C N r p = None"

fun command_calls :: "timer_cmd \<Rightarrow> nat \<Rightarrow> nat \<Rightarrow> bool \<Rightarrow> nat \<Rightarrow> nat" where
  "command_calls Start_timer C N r p = expiries r p N (Some (C + p))"
| "command_calls Reset_timer C N r p = expiries r p N (Some (C + p))"
| "command_calls _ C N r p = 0"

text \<open>What the command makes of the control block of its timer; \<open>v\<close> is the time of expiry entered.\<close>

fun command_block_of :: "timer_cmd \<Rightarrow> u32 \<Rightarrow> Timer_t \<Rightarrow> Timer_t" where
  "command_block_of Start_timer v x = x\<lparr>ucStatus := ucStatus x OR tmrSTATUS_IS_ACTIVE, xExpiryTime := v\<rparr>"
| "command_block_of Reset_timer v x = x\<lparr>ucStatus := ucStatus x OR tmrSTATUS_IS_ACTIVE, xExpiryTime := v\<rparr>"
| "command_block_of Stop_timer v x = x\<lparr>ucStatus := ucStatus x AND NOT tmrSTATUS_IS_ACTIVE\<rparr>"
| "command_block_of (Change_timer n) v x =
     x\<lparr>ucStatus := ucStatus x OR tmrSTATUS_IS_ACTIVE, xTimerPeriodInTicks := n, xExpiryTime := v\<rparr>"
| "command_block_of Delete_timer v x = x\<lparr>ucStatus := ucStatus x AND NOT tmrSTATUS_IS_ACTIVE\<rparr>"

definition commanded :: "timer_cmd \<Rightarrow> timer \<Rightarrow> timers \<Rightarrow> timers \<Rightarrow> bool" where
  "commanded c t s s' \<longleftrightarrow> (\<exists>v. tmr s' = (tmr s)(t := command_block_of c v (tmr s t)))"

lemma commanded_stamped:
  assumes "stamped {t} s s'" and "c = Start_timer \<or> c = Reset_timer"
  shows "commanded c t s s'"
proof -
  have "\<exists>v. tmr s' t = (tmr s t)\<lparr>ucStatus := ucStatus (tmr s t) OR tmrSTATUS_IS_ACTIVE, xExpiryTime := v\<rparr>"
    using assms(1) unfolding stamped_def by (metis singletonI)
  then obtain v where v: "tmr s' t = (tmr s t)\<lparr>ucStatus := ucStatus (tmr s t) OR tmrSTATUS_IS_ACTIVE, xExpiryTime := v\<rparr>" ..
  have "tmr s' x = tmr s x" if "x \<noteq> t" for x using assms(1) that unfolding stamped_def by (metis singletonD)
  then have "tmr s' = (tmr s)(t := command_block_of c v (tmr s t))" using v assms(2) by (auto simp: fun_eq_iff)
  then show ?thesis unfolding commanded_def ..
qed

lemma commanded_active:
  assumes "commanded c t s s'" and "t \<noteq> 0"
  shows "xTimerIsTimerActive t s' = Inr (c \<noteq> Stop_timer \<and> c \<noteq> Delete_timer)"
proof -
  have "(a OR tmrSTATUS_IS_ACTIVE) AND tmrSTATUS_IS_ACTIVE \<noteq> 0" "(a AND NOT tmrSTATUS_IS_ACTIVE) AND tmrSTATUS_IS_ACTIVE = 0"
    for a by (simp_all add: tmrSTATUS_IS_ACTIVE_def and.assoc bit.conj_disj_distrib2)
  then show ?thesis using assms by (cases c) (auto simp: commanded_def xTimerIsTimerActive_def of_timer_def)
qed

lemma start_effect:
  assumes i: "timers_inv e N [] s" and d: "due e [] s t = None" and t: "t \<noteq> 0" "0 < xTimerPeriodInTicks (tmr s t)"
    and V: "V \<le> N" "N < V + 2 ^ 32" and e: "e = epoch N" and smp: "sampled N s" and h: "harmless cb"
    and o: "\<forall>t d. due e [] s t = Some d \<longrightarrow> N < d"
  shows "\<exists>s'. bindR (start_command cb t (of_nat V) (of_nat N) s) (prvTimerTask_commands pl cb) = Inr s' \<and>
    timers_inv e N [] s' \<and> due e [] s' = (due e [] s)(t := next_due (reloads s t) (period s t) N (Some (V + period s t))) \<and>
    called t s' = called t s + expiries (reloads s t) (period s t) N (Some (V + period s t)) \<and>
    (\<forall>x. x \<noteq> t \<longrightarrow> called x s' = called x s) \<and> stamped {t} s s' \<and> tkern s' = tkern s"
proof -
  let ?D = "(due e [] s)(t := Some (V + period s t))"
  obtain s1 ms where s1: "start_command cb t (of_nat V) (of_nat N) s = Inr s1" "timers_inv e N ms s1"
      "progress N ?D s (due e ms s1) s1" "overdue e N s1 = overdue e N s" "xLastTime s1 = xLastTime s"
      and ms: "fst ` set ms \<subseteq> {t}"
    using start_command_ok [OF i d t V e h] by fastforce
  have smp1: "sampled N s1" using smp s1(3,5) by (simp add: sampled_def progress_def)
  obtain s' where s': "prvTimerTask_commands pl cb s1 = Inr s'" "timers_inv e N [] s'"
      "progress N (due e ms s1) s1 (due e [] s') s'" "overdue e N s' = overdue e N s1" "stamped (fst ` set ms) s1 s'"
    using commands_return [OF s1(2) e smp1 h] by blast
  note p = progress_trans [OF s1(3) s'(3)]
  have "due e [] s x = Some (e * 2 ^ 32 + unat (expiry s x))" if "x \<in> set (pxCurrentTimerList s)" for x
    using that by (simp add: due_def)
  then have "overdue e N s' = 0" using o s1(4) s'(4) by (fastforce simp: overdue_def filter_empty_conv)
  then have later: "N < d" if "due e [] s' x = Some d" for x d
    using that epoch_bounds(2) [of N] e by (auto simp: due_def overdue_def filter_empty_conv not_le split: if_splits)
  have z: "expiries (reloads s x) (period s x) N (due e [] s' x) = 0" "next_due (reloads s x) (period s x) N (due e [] s' x) = due e [] s' x" for x
    using later [of x] by (cases "due e [] s' x"; simp)+
  have z0: "next_due (reloads s x) (period s x) N (due e [] s x) = due e [] s x" for x
    using o by (cases "due e [] s x") auto
  have nd: "due e [] s' x = next_due (reloads s x) (period s x) N (?D x)" for x
    using p z(2) [of x] by (simp add: progress_def)
  have "due e [] s' = (due e [] s)(t := next_due (reloads s t) (period s t) N (Some (V + period s t)))"
    using z0 by (auto simp: fun_eq_iff nd simp del: next_due.simps)
  moreover have "called t s' = called t s + expiries (reloads s t) (period s t) N (Some (V + period s t))"
    using p z(1) [of t] unfolding progress_def by (metis add.right_neutral fun_upd_same)
  moreover have "called x s' = called x s" if "x \<noteq> t" for x
  proof -
    have "expiries (reloads s x) (period s x) N (due e [] s x) = 0" using o by (cases "due e [] s x") auto
    moreover have "called x s' + expiries (reloads s x) (period s x) N (due e [] s' x) =
        called x s + expiries (reloads s x) (period s x) N (due e [] s x)"
      using p that unfolding progress_def by (metis fun_upd_other)
    ultimately show ?thesis using z(1) [of x] by linarith
  qed
  moreover have "stamped ({t} \<union> fst ` set ms) s s'" by (rule stamped_trans [OF start_stamped [OF h s1(1)] s'(5)])
  then have "stamped {t} s s'" using ms by (simp only: Un_absorb2)
  moreover have "tkern s' = tkern s" using p by (simp add: progress_def)
  ultimately show ?thesis using s1(1) s'(1,2) by (intro exI [of _ s']) simp
qed

text \<open>The loop takes the one message; the timer leaves its list before the command is carried out.\<close>

lemma commands_one:
  assumes i: "timers_inv e N [] s1" and h: "holds [m] s" and s1: "\<And>q. s\<lparr>xTimerQueue := q\<rparr> = s1\<lparr>xTimerQueue := q\<rparr>"
  shows "\<exists>q. timers_inv e N [] (s\<lparr>xTimerQueue := Some q\<rparr>) \<and>
    prvTimerTask_commands pl cb s = bindR (process_command pl cb m (s\<lparr>xTimerQueue := Some q\<rparr>)) (prvTimerTask_commands pl cb)"
proof -
  obtain q where q: "receive_command s = Inr (Some m, s\<lparr>xTimerQueue := Some q\<rparr>)" "holds [] (s\<lparr>xTimerQueue := Some q\<rparr>)"
    using receive_holds [OF h] by blast
  have "timers_inv e N [] (s\<lparr>xTimerQueue := Some q\<rparr>)"
    using i q(2) unfolding s1 by (simp add: timers_inv_def everywhere_def)
  moreover have "prvTimerTask_commands pl cb s = bindR (process_command pl cb m (s\<lparr>xTimerQueue := Some q\<rparr>)) (prvTimerTask_commands pl cb)"
    unfolding prvTimerTask_commands_def prvProcessReceivedCommands_def
    by (subst commands_loop.simps) (simp add: q(1) ends_def split: sum.split)
  ultimately show ?thesis by blast
qed

lemma process_removed:
  assumes "sampled N s" and "\<not> sint (xMessageID m) < 0" and "u_word2 m = t"
  defines "s1 \<equiv> remove_timer t s"
  shows "process_command pl cb m s =
    (if is_start (xMessageID m) then start_command cb t (u_word1 m) (of_nat N) s1
     else if xMessageID m = tmrCOMMAND_STOP \<or> xMessageID m = tmrCOMMAND_STOP_FROM_ISR then Inr (clear_status tmrSTATUS_IS_ACTIVE t s1)
     else if xMessageID m = tmrCOMMAND_CHANGE_PERIOD \<or> xMessageID m = tmrCOMMAND_CHANGE_PERIOD_FROM_ISR
     then change_period_command t (u_word1 m) (of_nat N) s1
     else if xMessageID m = tmrCOMMAND_DELETE then delete_command pl t s1 else Inr s1)"
proof -
  have "(if in_timer_list t s then remove_timer t s else s) = s1" using timer_gone [of t s] by (auto simp: s1_def)
  moreover have "sampled N s1" using assms(1) by (simp add: sampled_def s1_def)
  ultimately show ?thesis using assms(2,3) sample_again [of N s1 cb] by (simp add: process_command_def Let_def)
qed

lemma commands_empty: "timers_inv e N [] s \<Longrightarrow> prvTimerTask_commands pl cb s = Inr s"
proof -
  assume "timers_inv e N [] s"
  then have "receive_command s = Inr (None, s)" by (intro receive_nothing) (simp add: timers_inv_def)
  then show ?thesis unfolding prvTimerTask_commands_def prvProcessReceivedCommands_def by (subst commands_loop.simps) (simp add: ends_def)
qed

lemma commanded_clear: "c = Stop_timer \<or> c = Delete_timer \<Longrightarrow> commanded c t s (clear_status tmrSTATUS_IS_ACTIVE t s)"
  by (auto simp: commanded_def clear_status_def fun_eq_iff)

lemma commanded_cong: "tmr s0 = tmr s \<Longrightarrow> commanded c t s0 s' \<Longrightarrow> commanded c t s s'"
  by (simp add: commanded_def)

lemma change_commanded:
  assumes "change_period_command t n now s = Inr s'"
  shows "commanded (Change_timer n) t s s'" "tkern s' = tkern s"
proof -
  let ?s = "upd_timer t (\<lambda>x. x\<lparr>xTimerPeriodInTicks := n\<rparr>) (set_status tmrSTATUS_IS_ACTIVE t s)"
  obtain b s2 where i: "prvInsertTimerInActiveList t (now + n) now now ?s = (b, s2)" by fastforce
  have s2: "s2 = s'" using assms i by (auto simp: change_period_command_def bindR_Inr_iff Let_def)
  have "tmr s' = (tmr s)(t := command_block_of (Change_timer n) (now + n) (tmr s t))"
    using insert_stamped [OF i] unfolding s2 by (auto simp: set_status_def fun_eq_iff)
  then show "commanded (Change_timer n) t s s'" unfolding commanded_def ..
  show "tkern s' = tkern s"
    using i unfolding s2 by (auto simp: prvInsertTimerInActiveList_def Let_def set_status_def split: if_splits)
qed

lemma change_effect:
  assumes i: "timers_inv e N [] s" and d: "due e [] s t = None" and t: "t \<noteq> 0" "0 < n" and e: "e = epoch N"
  shows "\<exists>s'. change_period_command t n (of_nat N) s = Inr s' \<and> timers_inv e N [] s' \<and>
    due e [] s' = (due e [] s)(t := Some (N + unat n)) \<and> calls s' = calls s"
proof -
  define s1 where "s1 = upd_timer t (\<lambda>x. x\<lparr>xTimerPeriodInTicks := n\<rparr>) (set_status tmrSTATUS_IS_ACTIVE t s)"
  have f: "t \<notin> set (pxCurrentTimerList s)" "t \<notin> set (pxOverflowTimerList s)" using d by (simp_all add: due_None everywhere_def)
  have l: "pxCurrentTimerList s1 = pxCurrentTimerList s" "pxOverflowTimerList s1 = pxOverflowTimerList s" "xTimerQueue s1 = xTimerQueue s"
      "tkern s1 = tkern s" "\<And>x. expiry s1 x = expiry s x" "\<And>x. x \<noteq> t \<Longrightarrow> xTimerPeriodInTicks (tmr s1 x) = xTimerPeriodInTicks (tmr s x)"
      "xTimerPeriodInTicks (tmr s1 t) = n" "calls s1 = calls s"
    by (simp_all add: s1_def set_status_def)
  have e1: "everywhere [] s1 = everywhere [] s" by (simp add: everywhere_def l)
  have "\<forall>x\<in>set (everywhere [] s). x \<noteq> 0 \<and> 0 < xTimerPeriodInTicks (tmr s1 x)"
  proof
    fix x assume x: "x \<in> set (everywhere [] s)"
    then have "x \<noteq> t" using d by (auto simp: due_None)
    then show "x \<noteq> 0 \<and> 0 < xTimerPeriodInTicks (tmr s1 x)" using i x l(6) by (simp add: timers_inv_def)
  qed
  then have i1: "timers_inv e N [] s1" using i unfolding timers_inv_def e1 l(1-5) by simp
  have d1: "due e [] s1 = due e [] s" by (simp add: due_def l fun_eq_iff)
  have dt: "due e [] s1 t = None" "0 < xTimerPeriodInTicks (tmr s1 t)" using d d1 t(2) l(7) by simp_all
  have n: "0 < unat n" using t(2) by (simp add: word_less_nat_alt)
  obtain s' where s': "prvInsertTimerInActiveList t (of_nat N + n) (of_nat N) (of_nat N) s1 = (N + unat n \<le> N, s')" "timers_inv e N [] s'"
      "due e [] s' = (due e [] s1)(t := if N + unat n \<le> N then None else Some (N + unat n))" "calls s' = calls s1"
    using insert_ok [OF i1 dt(1) t(1) dt(2) order_refl _ e] unfolding l(7) by auto
  then show ?thesis using n t(2) d1 l(8) by (simp add: change_period_command_def s1_def [symmetric] Let_def)
qed

text \<open>C29: a timer command does what it says and nothing else, whenever the timer task comes to it. Another task gives a
  command at the instant \<open>C\<close> (start, reset, stop, a new period, delete) and the timer task, which has looked at the clock,
  carries it out at \<open>N\<close>, less than one round of the tick count later: a started timer is due a period after the command,
  not after its execution, and if that is over by then it has been called as often as it is due and, if it reloads, is due
  at the next multiple; a new period counts from \<open>N\<close>; a stopped or deleted timer is in no list. Of the control block of the
  timer only the active bit (set by start, reset and a new period, cleared by stop and delete), the period (the new one, by
  its command alone) and the time of expiry change; the control block of every other timer, when it is due and how often it
  has been called stay as they were. Callbacks leave the timers alone.\<close>

theorem timer_commands_take_effect:
  assumes "timers_inv e N [] s" and "e = epoch N" and "\<forall>t d. due e [] s t = Some d \<longrightarrow> N < d" and "harmless cb"
    and "t \<noteq> 0" and "0 < xTimerPeriodInTicks (tmr s t)" and "\<forall>n. c = Change_timer n \<longrightarrow> 0 < n"
    and "c = Delete_timer \<longrightarrow> has_status tmrSTATUS_IS_STATICALLY_ALLOCATED t s"
    and "xTickCount (tkern s) = of_nat C" and "C \<le> N" and "N < C + 2 ^ 32"
    and "xTickCount k = of_nat N" and "xEventLists k = xEventLists (tkern s)"
  shows "\<exists>q s'. give_command c t s = Inr (Finished True, False, s\<lparr>xTimerQueue := Some q\<rparr>) \<and>
    prvTimerTask_commands pl cb (s\<lparr>xTimerQueue := Some q, tkern := k, xLastTime := of_nat N\<rparr>) = Inr s' \<and> timers_inv e N [] s' \<and>
    due e [] s' = (due e [] s)(t := command_due c C N (reloads s t) (period s t)) \<and>
    called t s' = called t s + command_calls c C N (reloads s t) (period s t) \<and>
    (\<forall>x. x \<noteq> t \<longrightarrow> called x s' = called x s) \<and> tkern s' = k \<and>
    (\<exists>v. tmr s' = (tmr s)(t := command_block_of c v (tmr s t))) \<and>
    xTimerIsTimerActive t s' = Inr (c \<noteq> Stop_timer \<and> c \<noteq> Delete_timer)"
proof -
  let ?m = "command_message c t (of_nat C)"
  have "holds [] s" using assms(1) by (simp add: timers_inv_def)
  from give_command_sends [OF this _ assms(5), of c] obtain q where
    q: "give_command c t s = Inr (Finished True, False, s\<lparr>xTimerQueue := Some q\<rparr>)" "holds [?m] (s\<lparr>xTimerQueue := Some q\<rparr>)"
    unfolding assms(9) by auto
  define s0 where "s0 = s\<lparr>xTimerQueue := Some q, tkern := k, xLastTime := of_nat N\<rparr>"
  have s0: "holds [?m] s0" using q(2) assms(13) by (simp add: s0_def)
  have i0: "timers_inv e N [] (s\<lparr>tkern := k, xLastTime := of_nat N\<rparr>)" using assms(1,13) by (simp add: timers_inv_def everywhere_def)
  obtain q1 where q1: "timers_inv e N [] (s0\<lparr>xTimerQueue := Some q1\<rparr>)"
      "prvTimerTask_commands pl cb s0 = bindR (process_command pl cb ?m (s0\<lparr>xTimerQueue := Some q1\<rparr>)) (prvTimerTask_commands pl cb)"
    using commands_one [OF i0 s0, of pl cb] by (auto simp: s0_def)
  define s1 where "s1 = s0\<lparr>xTimerQueue := Some q1\<rparr>"
  define s2 where "s2 = remove_timer t s1"
  have same: "tmr s1 = tmr s" "calls s1 = calls s" "due e [] s1 = due e [] s" "sampled N s1"
    using assms(12) by (simp_all add: s1_def s0_def due_def fun_eq_iff sampled_def)
  have s2: "timers_inv e N [] s2" "due e [] s2 = (due e [] s)(t := None)" "tmr s2 = tmr s" "calls s2 = calls s" "sampled N s2" "tkern s2 = k"
    using take_timer [OF q1(1), of t] same by (simp_all add: s1_def [symmetric] s2_def sampled_def) (simp add: s1_def s0_def)
  have r2: "reloads s2 x = reloads s x" "called x s2 = called x s" for x by (simp_all add: has_status_def called_def s2(3,4))
  have id: "\<not> sint (xMessageID ?m) < 0" "u_word2 ?m = t" by (cases c; simp add: command_ids)+
  note run = process_removed [OF same(4) id, of pl cb, folded s2_def]
  have d2: "due e [] s2 t = None" "0 < xTimerPeriodInTicks (tmr s2 t)" "\<forall>x d. due e [] s2 x = Some d \<longrightarrow> N < d"
    using s2(2,3) assms(3,6) by auto
  have fin: ?thesis if "prvTimerTask_commands pl cb s0 = Inr s'" "timers_inv e N [] s'"
      "due e [] s' = (due e [] s)(t := command_due c C N (reloads s t) (period s t))"
      "called t s' = called t s + command_calls c C N (reloads s t) (period s t)" "\<forall>x. x \<noteq> t \<longrightarrow> called x s' = called x s"
      "tkern s' = k" "commanded c t s s'" for s'
    using q(1) that commanded_active [OF that(7) assms(5)] unfolding commanded_def s0_def by blast
  have start: "?thesis" if c: "c = Start_timer \<or> c = Reset_timer"
  proof -
    obtain s' where "bindR (start_command cb t (of_nat C) (of_nat N) s2) (prvTimerTask_commands pl cb) = Inr s'" "timers_inv e N [] s'"
        "due e [] s' = (due e [] s2)(t := next_due (reloads s2 t) (period s2 t) N (Some (C + period s2 t)))"
        "called t s' = called t s2 + expiries (reloads s2 t) (period s2 t) N (Some (C + period s2 t))"
        "\<forall>x. x \<noteq> t \<longrightarrow> called x s' = called x s2" "stamped {t} s2 s'" "tkern s' = tkern s2"
      using start_effect [OF s2(1) d2(1) assms(5) d2(2) assms(10,11,2) s2(5) assms(4) d2(3)] by blast
    moreover have cm: "commanded c t s s'" using commanded_cong [OF s2(3) commanded_stamped [OF \<open>stamped {t} s2 s'\<close> c]] .
    moreover have "prvTimerTask_commands pl cb s0 = bindR (start_command cb t (of_nat C) (of_nat N) s2) (prvTimerTask_commands pl cb)"
      using q1(2) run c by (auto simp: s1_def is_start_def)
    ultimately show ?thesis using c by (intro fin [of s']) (auto simp: s2(2,3,6) r2 simp del: next_due.simps expiries.simps)
  qed
  show ?thesis
  proof (cases c)
    case Stop_timer
    let ?s = "clear_status tmrSTATUS_IS_ACTIVE t s2"
    have "prvTimerTask_commands pl cb s0 = Inr ?s"
      using q1(2) run Stop_timer commands_empty [of e N ?s pl cb] s2(1) by (simp add: s1_def is_start_def command_ids)
    moreover have "commanded c t s ?s" using commanded_cong [OF s2(3) commanded_clear] Stop_timer by blast
    ultimately show ?thesis using s2(1,2,4,6) Stop_timer by (intro fin) (auto simp: called_def status_pass)
  next
    case (Change_timer n)
    obtain s' where s': "change_period_command t n (of_nat N) s2 = Inr s'" "timers_inv e N [] s'"
        "due e [] s' = (due e [] s2)(t := Some (N + unat n))" "calls s' = calls s2"
      using change_effect [OF s2(1) d2(1) assms(5) _ assms(2)] assms(7) Change_timer by blast
    have "prvTimerTask_commands pl cb s0 = Inr s'"
      using q1(2) run Change_timer commands_empty [of e N s' pl cb] s' by (simp add: s1_def is_start_def command_ids)
    moreover have "commanded c t s s'" using commanded_cong [OF s2(3) change_commanded(1) [OF s'(1)]] Change_timer by simp
    ultimately show ?thesis using s' s2(2,4,6) Change_timer change_commanded(2) [OF s'(1)] by (intro fin) (auto simp: called_def)
  next
    case Delete_timer
    let ?s = "clear_status tmrSTATUS_IS_ACTIVE t s2"
    have "has_status tmrSTATUS_IS_STATICALLY_ALLOCATED t s2" using assms(8) Delete_timer s2(3) by (simp add: has_status_def)
    then have "prvTimerTask_commands pl cb s0 = Inr ?s"
      using q1(2) run Delete_timer commands_empty [of e N ?s pl cb] s2(1)
      by (simp add: s1_def is_start_def command_ids delete_command_def)
    moreover have "commanded c t s ?s" using commanded_cong [OF s2(3) commanded_clear] Delete_timer by blast
    ultimately show ?thesis using s2(1,2,4,6) Delete_timer by (intro fin) (auto simp: called_def status_pass)
  qed (use start in simp_all)
qed

text \<open>Timer 16 with its period of 5 is started at tick 8; the task comes to the command at tick 20.\<close>

lemma timer_commands_take_effect_witness:
  "\<exists>s q s'. prvCheckForValidListAndQueue timers_blank = Inr s \<and>
     give_command Start_timer 16 (s\<lparr>tkern := (tkern s)\<lparr>xTickCount := 8\<rparr>\<rparr>) =
       Inr (Finished True, False, s\<lparr>tkern := (tkern s)\<lparr>xTickCount := 8\<rparr>, xTimerQueue := Some q\<rparr>) \<and>
     prvTimerTask_commands example_place (\<lambda>_. Inr)
       (s\<lparr>xTimerQueue := Some q, tkern := (tkern s)\<lparr>xTickCount := 20\<rparr>, xLastTime := 20\<rparr>) = Inr s' \<and>
     called 16 s' = 2 \<and> due 0 [] s' 16 = Some 23"
proof -
  obtain s where s: "prvCheckForValidListAndQueue timers_blank = Inr s" "holds [] s" "tmr s = tmr timers_blank"
      "pxOverflowTimerList s = []" "calls s = []"
    using blank_ready by blast
  have cur: "pxCurrentTimerList s = []" using s(1) timer_queue_created [of timers_blank] by (auto simp: timers_blank_def)
  define s1 where "s1 = s\<lparr>tkern := (tkern s)\<lparr>xTickCount := 8\<rparr>\<rparr>"
  have i: "timers_inv 0 20 [] s1" using s cur by (simp add: timers_inv_def everywhere_def s1_def)
  have d: "\<forall>t d. due 0 [] s1 t = Some d \<longrightarrow> 20 < d" using s cur by (simp add: due_def s1_def)
  have p: "period s1 16 = 5" "xTimerPeriodInTicks (tmr s1 16) = 5" "reloads s1 16" "called 16 s1 = 0"
    by (simp_all add: s1_def s(3,5) timers_blank_def has_status_def tmrSTATUS_IS_AUTORELOAD_def called_def)
  have h: "harmless (\<lambda>_. Inr)" by (simp add: harmless_def)
  let ?k = "(tkern s)\<lparr>xTickCount := 20\<rparr>"
  obtain q s' where r: "give_command Start_timer 16 s1 = Inr (Finished True, False, s1\<lparr>xTimerQueue := Some q\<rparr>)"
      "prvTimerTask_commands example_place (\<lambda>_. Inr) (s1\<lparr>xTimerQueue := Some q, tkern := ?k, xLastTime := of_nat 20\<rparr>) = Inr s'"
      "due 0 [] s' = (due 0 [] s1)(16 := command_due Start_timer 8 20 True 5)"
      "called 16 s' = called 16 s1 + command_calls Start_timer 8 20 True 5"
    using timer_commands_take_effect [OF i _ d h, of 16 Start_timer 8 ?k example_place] p
    by (auto simp: epoch_def s1_def simp del: command_due.simps command_calls.simps give_command.simps)
  have "s1\<lparr>xTimerQueue := Some q, tkern := ?k, xLastTime := of_nat 20\<rparr> = s\<lparr>xTimerQueue := Some q, tkern := ?k, xLastTime := 20\<rparr>"
    by (simp add: s1_def)
  then show ?thesis using s(1) r p(4) by (intro exI [of _ s] exI [of _ q] exI [of _ s']) (simp add: s1_def [symmetric])
qed

end
