(* ===== verification/Spec2Isabelle.thy ===== *)
theory Spec2Isabelle
  imports SysinitSpec KernelAside KernelClock QueueMutex TimerCommand
begin

text \<open>
  Verification of the service gateway firmware for the STM32F103RB, the directory
  src/someip_gateway_mcu_stm32f103rb of the repository. This theory imports every other one; the
  properties stand in the theories of the parts they are about.

  \<^bold>\<open>The program.\<close> A host sends frames over one of two serial ports. The DMA collects the bytes; when
  the line falls idle an interrupt (Core/Src/BKEL_isr.c) moves them into a stream buffer. The command task
  (ASW/src/BKEL_APP_TaskM.c) takes them out, at most 64 at a time, appends them to what was left, and
  parses: frames with a right checksum become a packet, whose address goes to one of two worker tasks in a
  task notification. The procedure-call worker switches the LED, sets the PWM output or resets the
  processor; the diagnosis worker answers with a frame on both ports. A fourth task advertises the services
  every five seconds, and an initialisation task creates the others and deletes itself. Everything
  runs on FreeRTOS, whose sources lie in the repository and are modelled as far as the firmware or its
  configuration compiles them; below it are polled register drivers.

  \<^bold>\<open>Layers and theories.\<close>
  \<^item> \<open>Prelude\<close>: machine types, the result type \<open>res\<close> (\<open>Inl\<close> is an out-of-bounds access, a failed
    assertion or the like), memory areas with checked copies, shared lemmas. \<open>Hardware\<close>: register file,
    trace of outside effects, status registers as a parameter.
  \<^item> Protocol: \<open>Crc8\<close> (BKEL_APP_crc.h), \<open>Cid\<close> (BKEL_APP_cid.c), \<open>Frame\<close> (\<open>build_frame\<close> of
    BKEL_APP_protocol.c), \<open>Parser\<close> and \<open>ParserSpec\<close> (the rest of that file).
  \<^item> Drivers, BSW/src: \<open>Uart\<close>, \<open>Printf\<close>, \<open>Gpio\<close> (with the LED), \<open>Adc\<close>, \<open>Pwm\<close>, \<open>PwmInput\<close>, \<open>Spi\<close>;
    the initialisation of the board is \<open>Sysinit\<close> and \<open>SysinitSpec\<close> (Core/Src/BKEL_sysinit.c).
  \<^item> Application, ASW/src: \<open>Firmware\<close> (the shared state), \<open>Workers\<close> and \<open>WorkerSpec\<close> (rpc, diagnosis,
    service advertisement), \<open>Tasks\<close> and \<open>Execution\<close> (the workers under the kernel), \<open>Gateway\<close> and
    \<open>GatewaySpec\<close> (interrupts, stream buffer, command task), \<open>Startup\<close> and \<open>StartupSpec\<close> (from \<open>main\<close>
    to the idle gateway).
  \<^item> Kernel lists and scheduler: \<open>KList\<close> (list.c); \<open>Kernel\<close> and \<open>KernelControl\<close> (tasks.c);
    \<open>KernelSpec\<close>, \<open>KernelInv\<close>, \<open>KernelTime\<close>, \<open>KernelOk\<close>, \<open>ControlInv\<close>, \<open>KernelCalls\<close> (the invariant, call by
    call, then for every reachable state), \<open>KernelPreempt\<close>, \<open>KernelAside\<close>, \<open>KernelClock\<close>.
  \<^item> Kernel objects: \<open>StreamBuffer\<close>, \<open>StreamIPC\<close>, \<open>StreamSpec\<close> (stream_buffer.c); \<open>Queue\<close>, \<open>QueueDeque\<close>,
    \<open>QueueWait\<close>, \<open>QueueMutex\<close> (queue.c: queues, semaphores, mutexes, the registry); \<open>Heap4\<close>,
    \<open>Heap4Layout\<close>, \<open>Heap4Spec\<close> (heap_4.c); \<open>Timers\<close>, \<open>TimerSpec\<close>, \<open>TimerWait\<close>, \<open>TimerCommand\<close> (timers.c).

  \<^bold>\<open>State.\<close> The record \<open>board\<close> is the register file, a register being a peripheral and a name, with
  the trace of what went outside; \<open>fw\<close> is the application's static data with the board and the kernel in
  it; \<open>gateway\<close> adds the objects of the receive path. The
  kernel is one record \<open>kernel\<close>: the control blocks, the lists, the tick count, the pending switch. A list
  of the kernel is the list of its items in order, a ready list is read from \<open>pxIndex\<close>. A call that blocks
  is split where the task gives up the processor; other calls, ticks and interrupts go in between. Queues and
  stream buffers are records of their own, passed beside the kernel; the record \<open>timers\<close> holds the timer service with
  its queue, the kernel and the heap. Words keep their width where the code can
  overflow: 8-bit lengths and checksums, 16-bit register fields, 32-bit ticks and indices, \<open>int8_t\<close> lock
  counts.

  \<^bold>\<open>What is shown.\<close>
  \<^item> Protocol: the parser accepts exactly the frames of the format; builder and parser are inverse; noise
    and partial frames are skipped and kept as they should be; a damaged frame is never accepted as sent; with
    the workers of the firmware no access leaves an array, whatever was received, as long as
    one byte of the receive array is free; the checksum is the CRC remainder and detects bursts of errors.
    The two inputs on which the header test is one byte short are theorems too.
  \<^item> System: \<open>main\<close> reaches the idle gateway, with the list of every task stated and the initialisation task
    deleted; from there a burst of frames is executed in order, exactly
    once, and the gateway is idle again. The diagnosis services answer with the bytes given by
    \<open>diag_answer\<close>; an invalid PWM measurement (0x21) is not answered. The effects are given by a sequential description without tasks.
  \<^item> Kernel: the lists are consistent in every state that calls from tasks and interrupts reach; a
    ready task of the highest priority runs or a switch is pending; delays, periodic delays and time-outs
    are those of unbounded time, across wrap-arounds; suspended tasks stay so until named.
  \<^item> Kernel objects: the stream buffer is a bounded queue of bytes and the queue of queue.c a bounded
    double-ended queue of items, as interpretations of the locales \<open>byte_stream\<close> and \<open>deque_impl\<close>; no
    wake-up is lost between the check and the wait, except that 128 items sent to a locked queue wrap its
    lock count; mutexes lend and give back priorities; the heap hands out disjoint memory and gets all of
    it back.
  \<^item> Timers: timers expire exactly as often and when they should in unbounded time, across wrap-arounds; the timer
    task never sleeps past one; every command leaves exactly the control block, the lists and the
    running timers that \<open>commanded\<close> gives, and the other timers as they were; two defects of late expiry.
  \<^item> Drivers: read-back of what was set where it holds, and where it fails; bounded polling; consistent
    ADC frames; the register values of the initialisation, field by field: clocks, pins, modes, counters, outputs,
    DMA, converter, interrupts and priorities.

  \<^bold>\<open>Bounds and fuel.\<close> The round of the command task runs with fuel 9: the stream buffer holds at most 511
  bytes and a round takes 64. One notification is handled with fuel 3 (switch to the worker, its work, switch
  back), the start with fuel 4 (the tasks that can run before the initialisation task deletes itself). In
  each case a theorem gives the result, so the fuel is enough. The loops of heap_4.c over the free list
  are \<open>partial_function (option)\<close>: \<open>None\<close> is a loop that does not end, and it is shown not to occur. So are
  the two loops of timers.c. The properties of the timers are for callbacks that leave the timer service
  alone (\<open>harmless\<close>); the model itself takes any callback.
  The counters \<open>xNumOfOverflows\<close>, \<open>uxMutexesHeld\<close> and \<open>uxSchedulerSuspended\<close> are unbounded, which agrees
  with the 32-bit ones up to 2^32 uses at a time.
  The loops of the parser end by a measure on the remaining length. The serial ports are polled until
  a flag shows: their model takes the flag from the parameter, and the SPI driver counts the reads.

  \<^bold>\<open>Parameters.\<close> Hardware that changes by itself: status registers, capture registers, what the DMA wrote.
  The linker: the addresses of \<open>parsed_packet\<close>, of the DMA buffers, of \<open>ucHeap\<close>. The names of the task control
  blocks (static memory). What the functions do that timers call back (\<open>cb\<close>). Nothing is assumed of them but what the properties state as hypotheses.

  \<^bold>\<open>Granularity.\<close> A call that has several critical sections, such as \<open>vTaskSuspend\<close>, is one step: an
  interrupt comes before or after it. \<open>printf\<close> is one event of the trace: newlib decides when its buffer
  goes to \<open>_write\<close>, which is modelled in \<open>Uart\<close>, and thus where its bytes fall between those of other
  transmissions; a hang of the transmitter is therefore not a result of \<open>printf\<close>.

  \<^bold>\<open>Not modelled.\<close> event_groups.c of FreeRTOS: the firmware creates no event group. Co-routines and queue sets are configured out, as are tickless idle, run-time statistics and newlib
  support. The state listings of tasks.c for debuggers, the CMSIS-RTOS wrapper (glue over the same calls),
  the port's assembly, vendor drivers (HAL, CMSIS), and the Linux-side application (C++) and the test client
  (Python), which are the peers of the firmware. A \<open>NULL\<close> queue handle, which every call refuses.
\<close>

end
